(* ===== verification/Prelude.thy ===== *)
theory Prelude
  imports Main "HOL-Library.Char_ord" "HOL-Library.List_Lexorder"
begin

text \<open>
  What the components share: the hint collections of the development, JavaScript's
  string operations on the character lists that stand for its strings (trim, case
  mapping, split, join, padStart, decimal printing and reading), a set kept as a list in
  insertion order, and the table operations (find, upsert, update, delete by a key)
  the stores are built from, with the locale of a keyed table.

  A string is a list of characters, one per UTF-16 code unit of an ASCII text.
\<close>

named_theorems invariants \<open>preservation lemmas of the stores' operations\<close>
named_theorems model_defs \<open>definitions a witness unfolds\<close>

section \<open>Strings\<close>

definition is_digit :: "char \<Rightarrow> bool" where
  "is_digit c \<longleftrightarrow> 48 \<le> (of_char c :: nat) \<and> (of_char c :: nat) \<le> 57"

definition is_upper :: "char \<Rightarrow> bool" where
  "is_upper c \<longleftrightarrow> 65 \<le> (of_char c :: nat) \<and> (of_char c :: nat) \<le> 90"

definition is_lower :: "char \<Rightarrow> bool" where
  "is_lower c \<longleftrightarrow> 97 \<le> (of_char c :: nat) \<and> (of_char c :: nat) \<le> 122"

text \<open>The white space \<open>String.prototype.trim\<close> removes, within eight bits.\<close>

definition is_space :: "char \<Rightarrow> bool" where
  "is_space c \<longleftrightarrow>
     (let n = (of_char c :: nat) in (9 \<le> n \<and> n \<le> 13) \<or> n = 32 \<or> n = 160)"

definition to_upper_char :: "char \<Rightarrow> char" where
  "to_upper_char c = (if is_lower c then char_of ((of_char c :: nat) - 32) else c)"

definition to_lower_char :: "char \<Rightarrow> char" where
  "to_lower_char c = (if is_upper c then char_of ((of_char c :: nat) + 32) else c)"

definition to_upper :: "string \<Rightarrow> string" where
  "to_upper = map to_upper_char"

definition to_lower :: "string \<Rightarrow> string" where
  "to_lower = map to_lower_char"

definition trim :: "string \<Rightarrow> string" where
  "trim s = rev (dropWhile is_space (rev (dropWhile is_space s)))"

text \<open>\<open>s.split(c)\<close> for a one-character separator: never the empty list.\<close>

fun split_on :: "char \<Rightarrow> string \<Rightarrow> string list" where
  "split_on c [] = [[]]"
| "split_on c (x # xs) =
     (if x = c then [] # split_on c xs
      else (case split_on c xs of [] \<Rightarrow> [[x]] | y # ys \<Rightarrow> (x # y) # ys))"

fun join_with :: "char \<Rightarrow> string list \<Rightarrow> string" where
  "join_with c [] = []"
| "join_with c [x] = x"
| "join_with c (x # y # ys) = x @ c # join_with c (y # ys)"

definition pad_start :: "nat \<Rightarrow> char \<Rightarrow> string \<Rightarrow> string" where
  "pad_start w c s = replicate (w - length s) c @ s"

subsection \<open>Decimal numbers\<close>

definition digit_char :: "nat \<Rightarrow> char" where
  "digit_char d = char_of (48 + d)"

definition digit_val :: "char \<Rightarrow> nat" where
  "digit_val c = (of_char c :: nat) - 48"

text \<open>\<open>String(n)\<close> for a natural number, and \<open>Number(s)\<close> for a string of digits.\<close>

fun show_nat :: "nat \<Rightarrow> string" where
  "show_nat n = (if n < 10 then [digit_char n]
                 else show_nat (n div 10) @ [digit_char (n mod 10)])"

declare show_nat.simps [simp del]

definition read_nat :: "string \<Rightarrow> nat" where
  "read_nat s = foldl (\<lambda>a c. 10 * a + digit_val c) 0 s"

definition show_int :: "int \<Rightarrow> string" where
  "show_int i = (if i < 0 then CHR ''-'' # show_nat (nat (- i)) else show_nat (nat i))"

definition pad_num :: "nat \<Rightarrow> int \<Rightarrow> string" where
  "pad_num w i = pad_start w (CHR ''0'') (show_int i)"

definition all_digits :: "string \<Rightarrow> bool" where
  "all_digits s \<longleftrightarrow> s \<noteq> [] \<and> list_all is_digit s"

lemma is_digit_digit_char [simp]: "d < 10 \<Longrightarrow> is_digit (digit_char d)"
  by (simp add: is_digit_def digit_char_def)

lemma digit_val_digit_char [simp]: "d < 10 \<Longrightarrow> digit_val (digit_char d) = d"
  by (simp add: digit_val_def digit_char_def)

lemma read_nat_Nil [simp]: "read_nat [] = 0"
  by (simp add: read_nat_def)

lemma read_nat_snoc [simp]: "read_nat (s @ [c]) = 10 * read_nat s + digit_val c"
  by (simp add: read_nat_def)

lemma read_show_nat [simp]: "read_nat (show_nat n) = n"
proof (induction n rule: show_nat.induct)
  case (1 n)
  then show ?case
    by (subst show_nat.simps) (auto simp: read_nat_def)
qed

lemma show_nat_digits: "list_all is_digit (show_nat n)"
proof (induction n rule: show_nat.induct)
  case (1 n)
  then show ?case by (subst show_nat.simps) auto
qed

lemma show_nat_nonempty [simp]: "show_nat n \<noteq> []"
  by (subst show_nat.simps) auto

lemma all_digits_show_nat [simp]: "all_digits (show_nat n)"
  by (simp add: all_digits_def show_nat_digits)

lemma show_nat_not_zero: "0 < n \<Longrightarrow> hd (show_nat n) \<noteq> CHR ''0''"
proof (induction n rule: show_nat.induct)
  case (1 n)
  show ?case
  proof (cases "n < 10")
    case True
    with 1(2) have "digit_val (digit_char n) \<noteq> digit_val (CHR ''0'')"
      by (subst digit_val_digit_char) (simp_all add: digit_val_def)
    then have "digit_char n \<noteq> CHR ''0''" by metis
    with True show ?thesis by (subst show_nat.simps) simp
  next
    case False
    with 1 show ?thesis by (subst show_nat.simps) (simp add: hd_append)
  qed
qed

lemma length_show_nat: "n < 10 ^ w \<Longrightarrow> 0 < w \<Longrightarrow> length (show_nat n) \<le> w"
proof (induction n arbitrary: w rule: show_nat.induct)
  case (1 n)
  show ?case
  proof (cases "n < 10")
    case True
    with 1(3) show ?thesis by (subst show_nat.simps) simp
  next
    case False
    with 1(2,3) obtain v where v: "w = Suc v" "0 < v"
      by (cases w; cases "w - 1") auto
    with False 1(2) have "n div 10 < 10 ^ v" by (simp add: less_mult_imp_div_less)
    with 1(1) False v have "length (show_nat (n div 10)) \<le> v" by blast
    with False v show ?thesis by (subst show_nat.simps) simp
  qed
qed

lemma read_nat_zeros [simp]: "read_nat (replicate k (CHR ''0'') @ s) = read_nat s"
proof (induction k)
  case (Suc k)
  have "read_nat (CHR ''0'' # t) = read_nat t" for t
    by (simp add: read_nat_def digit_val_def)
  with Suc show ?case by simp
qed simp

lemma read_nat_pad [simp]: "read_nat (pad_start w (CHR ''0'') s) = read_nat s"
  by (simp add: pad_start_def)

lemma length_pad_start: "length (pad_start w c s) = max w (length s)"
  by (simp add: pad_start_def)

lemma pad_num_digits: "0 \<le> i \<Longrightarrow> list_all is_digit (pad_num w i)"
  using show_nat_digits [of "nat i"]
  by (auto simp: pad_num_def pad_start_def show_int_def list_all_iff is_digit_def)

lemma read_pad_num [simp]: "0 \<le> i \<Longrightarrow> read_nat (pad_num w i) = nat i"
  by (simp add: pad_num_def show_int_def)

lemma length_pad_num: "0 \<le> i \<Longrightarrow> i < 10 ^ w \<Longrightarrow> 0 < w \<Longrightarrow> length (pad_num w i) = w"
proof -
  assume i: "0 \<le> i" "i < 10 ^ w" "0 < w"
  then have "nat i < 10 ^ w" by (simp add: nat_less_iff)
  with i have "length (show_nat (nat i)) \<le> w" by (intro length_show_nat) auto
  with i show ?thesis by (simp add: pad_num_def show_int_def length_pad_start)
qed

subsection \<open>Split and join\<close>

lemma split_on_nonempty [simp]: "split_on c s \<noteq> []"
  by (induction s) (auto split: list.splits)

lemma split_on_id: "c \<notin> set s \<Longrightarrow> split_on c s = [s]"
  by (induction s) auto

lemma split_on_append: "c \<notin> set s \<Longrightarrow> split_on c (s @ c # t) = s # split_on c t"
  by (induction s) auto

lemma split_join: "xs \<noteq> [] \<Longrightarrow> \<forall>x \<in> set xs. c \<notin> set x \<Longrightarrow> split_on c (join_with c xs) = xs"
  by (induction xs rule: join_with.induct) (auto simp: split_on_id split_on_append)

lemma join_split: "join_with c (split_on c s) = s"
proof (induction s)
  case (Cons x s)
  then show ?case
    by (cases "split_on c s"; cases "tl (split_on c s)") auto
qed simp

lemma set_join_with: "set (join_with c xs) \<subseteq> insert c (\<Union>x \<in> set xs. set x)"
  by (induction xs rule: join_with.induct) auto

subsection \<open>Trimming\<close>

lemma trim_Nil [simp]: "trim [] = []"
  by (simp add: trim_def)

lemma trim_id: "s \<noteq> [] \<Longrightarrow> \<not> is_space (hd s) \<Longrightarrow> \<not> is_space (last s) \<Longrightarrow> trim s = s"
proof -
  assume s: "s \<noteq> []" "\<not> is_space (hd s)" "\<not> is_space (last s)"
  then have "dropWhile is_space s = s" by (cases s) auto
  moreover from s have "dropWhile is_space (rev s) = rev s"
    by (cases s rule: rev_cases) auto
  ultimately show ?thesis by (simp add: trim_def)
qed

lemma dropWhile_idem [simp]: "dropWhile p (dropWhile p xs) = dropWhile p xs"
  by (induction xs) auto

lemma last_dropWhile: "dropWhile p xs \<noteq> [] \<Longrightarrow> last (dropWhile p xs) = last xs"
  by (induction xs) auto

lemma trim_ends:
  assumes "trim s \<noteq> []"
  shows "\<not> is_space (hd (trim s))" and "\<not> is_space (last (trim s))"
proof -
  define u where "u = dropWhile is_space s"
  define v where "v = dropWhile is_space (rev u)"
  have t: "trim s = rev v" by (simp add: trim_def u_def v_def)
  with assms have v: "v \<noteq> []" by simp
  then have "\<not> is_space (hd v)" unfolding v_def by (metis hd_dropWhile)
  with v t show "\<not> is_space (last (trim s))" by (simp add: last_rev)
  from v have "last v = hd u" unfolding v_def by (simp add: last_dropWhile last_rev)
  moreover from v have "u \<noteq> []" unfolding v_def by auto
  then have "\<not> is_space (hd u)" unfolding u_def by (metis hd_dropWhile)
  ultimately show "\<not> is_space (hd (trim s))" using v t by (simp add: hd_rev)
qed

lemma trim_idem [simp]: "trim (trim s) = trim s"
  using trim_ends [of s] by (cases "trim s = []") (simp_all add: trim_id)

section \<open>A set in insertion order\<close>

text \<open>\<open>[...new Set(xs)]\<close>: the distinct elements in the order they first occur.\<close>

fun unique_aux :: "'a list \<Rightarrow> 'a list \<Rightarrow> 'a list" where
  "unique_aux seen [] = rev seen"
| "unique_aux seen (x # xs) =
     (if x \<in> set seen then unique_aux seen xs else unique_aux (x # seen) xs)"

definition unique :: "'a list \<Rightarrow> 'a list" where
  "unique xs = unique_aux [] xs"

lemma unique_aux_props:
  "distinct seen \<Longrightarrow>
     distinct (unique_aux seen xs) \<and> set (unique_aux seen xs) = set seen \<union> set xs"
  by (induction seen xs rule: unique_aux.induct) auto

lemma distinct_unique [simp]: "distinct (unique xs)"
  by (simp add: unique_def unique_aux_props)

lemma set_unique [simp]: "set (unique xs) = set xs"
  by (simp add: unique_def unique_aux_props)

lemma unique_aux_id:
  "distinct xs \<Longrightarrow> set seen \<inter> set xs = {} \<Longrightarrow> unique_aux seen xs = rev seen @ xs"
  by (induction seen xs rule: unique_aux.induct) auto

lemma unique_id: "distinct xs \<Longrightarrow> unique xs = xs"
  by (simp add: unique_def unique_aux_id)

text \<open>\<open>set.add(x)\<close> on a set kept in insertion order.\<close>

definition add_elem :: "'a \<Rightarrow> 'a list \<Rightarrow> 'a list" where
  "add_elem x xs = (if x \<in> set xs then xs else xs @ [x])"

lemma set_add_elem [simp]: "set (add_elem x xs) = insert x (set xs)"
  by (auto simp: add_elem_def)

lemma distinct_add_elem [simp]: "distinct xs \<Longrightarrow> distinct (add_elem x xs)"
  by (auto simp: add_elem_def)

lemma add_elem_nonempty [simp]: "add_elem x xs \<noteq> []"
  by (auto simp: add_elem_def)

section \<open>Sorting by two keys\<close>

text \<open>A stable sort by one key of a list sorted by another: \<open>ORDER BY f, g\<close>.\<close>

lemma stable_sorted:
  assumes "sorted (map f ys)" "\<And>v. sorted_wrt R (filter (\<lambda>y. f y = v) ys)"
  shows "sorted_wrt (\<lambda>a b. f a < (f b :: 'k::linorder) \<or> f a = f b \<and> R a b) ys"
  using assms
proof (induction ys)
  case (Cons y ys)
  have "sorted_wrt R (filter (\<lambda>z. f z = v) ys)" for v
    using Cons.prems(2) [of v] by (simp split: if_splits)
  moreover have "f y < f z \<or> f y = f z \<and> R y z" if "z \<in> set ys" for z
    using Cons.prems(1) Cons.prems(2) [of "f y"] that by (auto simp: less_le)
  ultimately show ?case using Cons by simp
qed simp

lemma sort_by_then:
  fixes f :: "'r \<Rightarrow> 'k::linorder" and g :: "'r \<Rightarrow> 'i::linorder"
  assumes "distinct (map g xs)"
  shows "sorted_wrt (\<lambda>a b. f a < f b \<or> f a = f b \<and> g a < g b) (sort_key f (sort_key g xs))"
proof (rule stable_sorted)
  fix v
  have "distinct (map g (sort_key g xs))"
    using assms by (simp add: distinct_map)
  then have "sorted_wrt (\<lambda>a b. g a < g b) (sort_key g xs)"
    using sorted_sort_key [of g xs] strict_sorted_iff [of "map g (sort_key g xs)"]
    by (simp add: sorted_wrt_map)
  then show "sorted_wrt (\<lambda>a b. g a < g b) (filter (\<lambda>y. f y = v) (sort_key f (sort_key g xs)))"
    unfolding sort_key_stable by (rule sorted_wrt_filter)
qed simp

section \<open>Keyed tables\<close>

text \<open>
  A database table as the list of its rows. \<open>tbl_find\<close> is a lookup by a unique key,
  \<open>tbl_upsert\<close> replaces the row of that key or appends it, \<open>tbl_update\<close> is
  \<open>UPDATE ... WHERE\<close> and \<open>tbl_delete\<close> is \<open>DELETE ... WHERE\<close>.
\<close>

definition tbl_find :: "('r \<Rightarrow> 'k) \<Rightarrow> 'k \<Rightarrow> 'r list \<Rightarrow> 'r option" where
  "tbl_find key k rows = List.find (\<lambda>r. key r = k) rows"

definition tbl_update :: "('r \<Rightarrow> bool) \<Rightarrow> ('r \<Rightarrow> 'r) \<Rightarrow> 'r list \<Rightarrow> 'r list" where
  "tbl_update p f rows = map (\<lambda>r. if p r then f r else r) rows"

definition tbl_delete :: "('r \<Rightarrow> bool) \<Rightarrow> 'r list \<Rightarrow> 'r list" where
  "tbl_delete p rows = filter (\<lambda>r. \<not> p r) rows"

definition tbl_upsert :: "('r \<Rightarrow> 'k) \<Rightarrow> 'r \<Rightarrow> 'r list \<Rightarrow> 'r list" where
  "tbl_upsert key r rows =
     (if tbl_find key (key r) rows = None then rows @ [r]
      else tbl_update (\<lambda>x. key x = key r) (\<lambda>_. r) rows)"

lemma tbl_find_None: "tbl_find key k rows = None \<longleftrightarrow> k \<notin> key ` set rows"
  by (auto simp: tbl_find_def find_None_iff)

lemma tbl_find_Some: "tbl_find key k rows = Some r \<Longrightarrow> r \<in> set rows \<and> key r = k"
  by (auto simp: tbl_find_def find_Some_iff)

lemma tbl_find_distinct:
  "distinct (map key rows) \<Longrightarrow> r \<in> set rows \<Longrightarrow> tbl_find key (key r) rows = Some r"
  by (induction rows) (auto simp: tbl_find_def rev_image_eqI)

lemma tbl_find_iff:
  "distinct (map key rows) \<Longrightarrow> tbl_find key k rows = Some r \<longleftrightarrow> r \<in> set rows \<and> key r = k"
  using tbl_find_distinct [of key rows r] by (auto dest: tbl_find_Some)

lemma tbl_find_append:
  "tbl_find key k (xs @ ys) = (case tbl_find key k xs of None \<Rightarrow> tbl_find key k ys | Some r \<Rightarrow> Some r)"
  by (induction xs) (auto simp: tbl_find_def)

lemma tbl_find_update:
  "(\<And>r. p r \<Longrightarrow> key (f r) = key r) \<Longrightarrow>
     tbl_find key k (tbl_update p f rows) =
       map_option (\<lambda>r. if p r then f r else r) (tbl_find key k rows)"
  by (induction rows) (auto simp: tbl_find_def tbl_update_def)

lemma map_key_update:
  "(\<And>r. p r \<Longrightarrow> key (f r) = key r) \<Longrightarrow> map key (tbl_update p f rows) = map key rows"
  by (auto simp: tbl_update_def)

lemma set_tbl_update: "set (tbl_update p f rows) = (\<lambda>r. if p r then f r else r) ` set rows"
  by (simp add: tbl_update_def)

lemma set_tbl_delete [simp]: "set (tbl_delete p rows) = {r \<in> set rows. \<not> p r}"
  by (auto simp: tbl_delete_def)

lemma distinct_key_delete: "distinct (map key rows) \<Longrightarrow> distinct (map key (tbl_delete p rows))"
  by (simp add: tbl_delete_def distinct_map_filter)

lemma tbl_find_upsert:
  "tbl_find key k (tbl_upsert key r rows) = (if k = key r then Some r else tbl_find key k rows)"
proof (cases "tbl_find key (key r) rows")
  case None
  then show ?thesis
    by (auto simp: tbl_upsert_def tbl_find_append) (auto simp: tbl_find_def split: option.splits)
next
  case (Some x)
  then have x: "key x = key r" by (auto dest: tbl_find_Some)
  have "tbl_find key k (tbl_upsert key r rows) =
      map_option (\<lambda>y. if key y = key r then r else y) (tbl_find key k rows)"
    using Some by (simp add: tbl_upsert_def) (subst tbl_find_update, auto)
  also have "\<dots> = (if k = key r then Some r else tbl_find key k rows)"
    using Some by (cases "tbl_find key k rows") (auto dest: tbl_find_Some)
  finally show ?thesis .
qed

lemma distinct_key_upsert:
  "distinct (map key rows) \<Longrightarrow> distinct (map key (tbl_upsert key r rows))"
  using map_key_update [of "\<lambda>x. key x = key r" key "\<lambda>_. r" rows]
  by (auto simp: tbl_upsert_def tbl_find_None)

lemma set_tbl_upsert:
  "distinct (map key rows) \<Longrightarrow>
     set (tbl_upsert key r rows) = insert r {x \<in> set rows. key x \<noteq> key r}"
proof (cases "tbl_find key (key r) rows")
  case None
  then have "key r \<notin> key ` set rows" by (simp add: tbl_find_None)
  then have "{x \<in> set rows. key x \<noteq> key r} = set rows" by (auto simp: image_iff)
  with None show ?thesis by (simp add: tbl_upsert_def)
next
  case (Some x)
  then have "x \<in> set rows" "key x = key r" by (auto dest: tbl_find_Some)
  with Some show ?thesis by (auto simp: tbl_upsert_def set_tbl_update image_iff)
qed

end
