(* ===== verification/Kernel_Types.thy ===== *)
theory Kernel_Types
  imports Prelude
begin

text \<open>
  The kernel package (\<open>packages/kernel/src\<close>): the branded identifiers, the error
  taxonomy, \<open>Result\<close> with its combinators, the email address value object, the JSON
  values and the outbox event of the outbox port, and the audit entry of the Compliance
  context. \<open>Result\<close> is the sum type: \<open>Inl\<close> is the error, \<open>Inr\<close> the value.
\<close>

section \<open>Branded identifiers\<close>

datatype user_id = UserId (user_text: string)
datatype session_id = SessionId (session_text: string)
datatype device_id = DeviceId (device_text: string)
datatype family_id = FamilyId (family_text: string)
datatype member_id = MemberId (member_text: string)
datatype invitation_id = InvitationId (invitation_text: string)
datatype guardianship_id = GuardianshipId (guardianship_text: string)
datatype event_id = EventId (event_text: string)
datatype occurrence_id = OccurrenceId (occurrence_text: string)
datatype task_id = TaskId (task_text: string)
datatype series_id = SeriesId (series_text: string)

text \<open>
  The identifiers the database orders by (the keyset positions of the task lists, the tie
  breaks of the range query) get the order of their text.
\<close>

instantiation task_id :: linorder
begin

definition less_eq_task_id :: "task_id \<Rightarrow> task_id \<Rightarrow> bool" where
  "less_eq_task_id a b \<longleftrightarrow> task_text a \<le> task_text b"

definition less_task_id :: "task_id \<Rightarrow> task_id \<Rightarrow> bool" where
  "less_task_id a b \<longleftrightarrow> task_text a < task_text b"

instance
  by standard (auto simp: less_eq_task_id_def less_task_id_def intro: task_id.expand)

end

instantiation occurrence_id :: linorder
begin

definition less_eq_occurrence_id :: "occurrence_id \<Rightarrow> occurrence_id \<Rightarrow> bool" where
  "less_eq_occurrence_id a b \<longleftrightarrow> occurrence_text a \<le> occurrence_text b"

definition less_occurrence_id :: "occurrence_id \<Rightarrow> occurrence_id \<Rightarrow> bool" where
  "less_occurrence_id a b \<longleftrightarrow> occurrence_text a < occurrence_text b"

instance
  by standard
    (auto simp: less_eq_occurrence_id_def less_occurrence_id_def intro: occurrence_id.expand)

end

section \<open>The error taxonomy\<close>

text \<open>One constructor per \<open>kind\<close>; \<open>reason\<close> fields are the source's texts, in ASCII.\<close>

datatype domain_error =
    EmailAlreadyRegistered
  | WeakPassword string
  | InvalidCredentials
  | AccountNotVerified
  | Throttled int
  | SessionInvalid
  | SessionReplayDetected session_id
  | VerificationInvalid
  | CapabilityRequired string
  | GuardianshipRequired
  | GuardianIneligible string
  | LastGuardian
  | OwnerRequired
  | OwnerIneligible string
  | AlreadyMember
  | InvitationInvalid
  | InvitationEmailMismatch
  | NameRequired string
  | NotFound
  | InvalidTimeRange string
  | UnknownTimeZone string
  | RecurrenceInvalid string
  | RecurrenceUnsupported string
  | RecurrenceTooDense int
  | RangeTooWide int
  | OccurrenceNotMovable
  | ParticipantInvalid
  | InvalidDue string string
  | RecurrenceRequiresDue
  | AssigneeInvalid
  | InvalidTransition string string
  | VersionConflict int

section \<open>Result\<close>

type_synonym 'a outcome = "domain_error + 'a"

definition is_ok :: "'e + 'a \<Rightarrow> bool" where
  "is_ok r = (case r of Inl _ \<Rightarrow> False | Inr _ \<Rightarrow> True)"

definition map_result :: "'e + 'a \<Rightarrow> ('a \<Rightarrow> 'b) \<Rightarrow> 'e + 'b" where
  "map_result r f = (case r of Inl e \<Rightarrow> Inl e | Inr v \<Rightarrow> Inr (f v))"

definition and_then :: "'e + 'a \<Rightarrow> ('a \<Rightarrow> 'e + 'b) \<Rightarrow> 'e + 'b" where
  "and_then r f = (case r of Inl e \<Rightarrow> Inl e | Inr v \<Rightarrow> f v)"

lemma and_then_simps [simp]:
  "and_then (Inl e) f = Inl e"
  "and_then (Inr v) f = f v"
  by (simp_all add: and_then_def)

lemma is_ok_simps [simp]:
  "\<not> is_ok (Inl e)"
  "is_ok (Inr v)"
  by (simp_all add: is_ok_def)

lemma and_then_Inr: "and_then r f = Inr y \<longleftrightarrow> (\<exists>x. r = Inr x \<and> f x = Inr y)"
  by (cases r) auto

lemma and_then_assoc: "and_then (and_then r f) g = and_then r (\<lambda>x. and_then (f x) g)"
  by (cases r) auto

section \<open>Email addresses\<close>

datatype email_address = EmailAddress (email_value: string)

definition email_from :: "string \<Rightarrow> email_address" where
  "email_from raw = EmailAddress (to_lower (trim raw))"

definition email_equals :: "email_address \<Rightarrow> email_address \<Rightarrow> bool" where
  "email_equals a b \<longleftrightarrow> email_value a = email_value b"

section \<open>JSON values and outbox events\<close>

datatype json =
    JString string
  | JNumber int
  | JBool bool
  | JNull
  | JArray "json list"
  | JObject "(string \<times> json) list"

definition json_opt :: "('a \<Rightarrow> string) \<Rightarrow> 'a option \<Rightarrow> json" where
  "json_opt f v = (case v of None \<Rightarrow> JNull | Some x \<Rightarrow> JString (f x))"

record outbox_event =
  event_type :: string
  aggregate_type :: string
  aggregate_id :: string
  payload :: "(string \<times> json) list"
  ev_correlation_id :: string

section \<open>Mail\<close>

text \<open>What the mailer port is asked to send.\<close>

record mail =
  mail_to :: string
  mail_subject :: string
  mail_text :: string

section \<open>Audit entries\<close>

datatype audit_result = Granted | Denied

datatype audit_subject_type = SFamily | SFamilyMember | SInvitation | SGuardianship

record audit_entry =
  actor_user_id :: "user_id option"
  actor_member_id :: "member_id option"
  audit_family_id :: "family_id option"
  subject_type :: audit_subject_type
  subject_id :: string
  audit_action :: string
  audit_purpose :: string
  audit_result :: audit_result
  audit_reason :: "string option"
  audit_correlation_id :: string

section \<open>Lemmas on email addresses\<close>

lemma to_lower_char_idem [simp]: "to_lower_char (to_lower_char c) = to_lower_char c"
proof (cases "is_upper c")
  case True
  then have "(of_char c :: nat) + 32 < 256" by (simp add: is_upper_def)
  then have "(of_char (char_of ((of_char c :: nat) + 32) :: char) :: nat) = of_char c + 32"
    by simp
  with True show ?thesis by (simp add: to_lower_char_def is_upper_def)
qed (simp add: to_lower_char_def)

lemma is_space_to_lower [simp]: "is_space (to_lower_char c) = is_space c"
proof (cases "is_upper c")
  case True
  then have "(of_char c :: nat) + 32 < 256" by (simp add: is_upper_def)
  then have "(of_char (char_of ((of_char c :: nat) + 32) :: char) :: nat) = of_char c + 32"
    by simp
  with True show ?thesis by (auto simp: to_lower_char_def is_upper_def is_space_def Let_def)
qed (simp add: to_lower_char_def)

lemma trim_to_lower: "trim (to_lower s) = to_lower (trim s)"
  by (simp add: trim_def to_lower_def dropWhile_map rev_map comp_def)

lemma email_from_idem: "email_from (email_value (email_from raw)) = email_from raw"
  by (simp add: email_from_def trim_to_lower) (simp add: to_lower_def comp_def)

end
