(* ===== verification/Civil_Date.thy ===== *)
theory Civil_Date
  imports Kernel_Types
begin

text \<open>
  Civil dates: the part of ECMAScript's \<open>Date\<close> the recurrence kernel uses
  (\<open>Date.UTC\<close>, \<open>getUTC...\<close>, \<open>setUTCFullYear\<close>, after the abstract operations Day,
  DayFromYear, YearFromTime, MonthFromTime, DateFromTime and MakeDay of the language
  specification) and, over it, the civil-date half of
  \<open>packages/kernel/src/recurrence/zoned-time.ts\<close>: epoch days, day and weekday arithmetic,
  comparison, and the \<open>YYYY-MM-DD\<close> reader and printer. An instant is an \<open>int\<close>, the
  milliseconds since 1970-01-01T00:00:00Z.
\<close>

section \<open>ECMAScript dates\<close>

definition ms_per_minute :: int where "ms_per_minute = 60000"
definition ms_per_day :: int where "ms_per_day = 86400000"

definition leap_year :: "int \<Rightarrow> bool" where
  "leap_year y \<longleftrightarrow> y mod 4 = 0 \<and> (y mod 100 \<noteq> 0 \<or> y mod 400 = 0)"

definition day_from_year :: "int \<Rightarrow> int" where
  "day_from_year y =
     365 * (y - 1970) + (y - 1969) div 4 - (y - 1901) div 100 + (y - 1601) div 400"

text \<open>The largest year that starts on or before day \<open>d\<close>: an estimate, corrected by one.\<close>

definition year_from_day :: "int \<Rightarrow> int" where
  "year_from_day d =
     (let est = 1970 + d * 400 div 146097 in
      if d < day_from_year est then est - 1
      else if day_from_year (est + 1) \<le> d then est + 1 else est)"

text \<open>Days before month \<open>m\<close> (1 to 12) of a year that is leap or not.\<close>

definition days_before_month :: "bool \<Rightarrow> int \<Rightarrow> int" where
  "days_before_month leap m =
     (let l = (if leap then 1 else 0) in
      if m \<le> 1 then 0 else if m = 2 then 31 else if m = 3 then 59 + l
      else if m = 4 then 90 + l else if m = 5 then 120 + l else if m = 6 then 151 + l
      else if m = 7 then 181 + l else if m = 8 then 212 + l else if m = 9 then 243 + l
      else if m = 10 then 273 + l else if m = 11 then 304 + l else if m = 12 then 334 + l
      else 365 + l)"

definition month_of_yday :: "bool \<Rightarrow> int \<Rightarrow> int" where
  "month_of_yday leap d =
     (let b = days_before_month leap in
      if d < b 2 then 1 else if d < b 3 then 2 else if d < b 4 then 3
      else if d < b 5 then 4 else if d < b 6 then 5 else if d < b 7 then 6
      else if d < b 8 then 7 else if d < b 9 then 8 else if d < b 10 then 9
      else if d < b 11 then 10 else if d < b 12 then 11 else 12)"

text \<open>MakeDay with a one-based month, any of which may run over (\<open>Date.UTC(y, m, 0)\<close>).\<close>

definition make_day :: "int \<Rightarrow> int \<Rightarrow> int \<Rightarrow> int" where
  "make_day y m d =
     (let ym = y + (m - 1) div 12; mn = (m - 1) mod 12 + 1 in
      day_from_year ym + days_before_month (leap_year ym) mn + d - 1)"

definition day_of_ms :: "int \<Rightarrow> int" where "day_of_ms t = t div ms_per_day"

definition utc_year :: "int \<Rightarrow> int" where "utc_year t = year_from_day (day_of_ms t)"

definition utc_month :: "int \<Rightarrow> int" where
  "utc_month t =
     (let y = utc_year t in month_of_yday (leap_year y) (day_of_ms t - day_from_year y))"

definition utc_date :: "int \<Rightarrow> int" where
  "utc_date t =
     (let y = utc_year t; yd = day_of_ms t - day_from_year y in
      yd - days_before_month (leap_year y) (month_of_yday (leap_year y) yd) + 1)"

definition utc_hours :: "int \<Rightarrow> int" where "utc_hours t = t div 3600000 mod 24"
definition utc_minutes :: "int \<Rightarrow> int" where "utc_minutes t = t div 60000 mod 60"
definition utc_seconds :: "int \<Rightarrow> int" where "utc_seconds t = t div 1000 mod 60"

definition utc_day :: "int \<Rightarrow> int" where "utc_day t = (day_of_ms t + 4) mod 7"

text \<open>\<open>Date.UTC\<close>: a year between 0 and 99 means 1900 to 1999.\<close>

definition date_utc :: "int \<Rightarrow> int \<Rightarrow> int \<Rightarrow> int \<Rightarrow> int \<Rightarrow> int \<Rightarrow> int" where
  "date_utc y m d h mi s =
     (let yr = (if 0 \<le> y \<and> y \<le> 99 then 1900 + y else y) in
      make_day yr m d * ms_per_day + h * 3600000 + mi * 60000 + s * 1000)"

text \<open>\<open>setUTCFullYear(y)\<close>: the month, the day of the month and the time of day stay.\<close>

definition set_utc_full_year :: "int \<Rightarrow> int \<Rightarrow> int" where
  "set_utc_full_year t y =
     make_day y (utc_month t) (utc_date t) * ms_per_day + t mod ms_per_day"

section \<open>Local dates and their arithmetic\<close>

record local_date =
  year :: int
  month :: int
  day :: int

record local_date_time = local_date +
  hour :: int
  minute :: int
  second :: int

definition ymd :: "int \<Rightarrow> int \<Rightarrow> int \<Rightarrow> local_date" where
  "ymd y m d = \<lparr>year = y, month = m, day = d\<rparr>"

definition at_time :: "local_date \<Rightarrow> int \<Rightarrow> int \<Rightarrow> int \<Rightarrow> local_date_time" where
  "at_time d h mi s =
     \<lparr>year = year d, month = month d, day = day d, hour = h, minute = mi, second = s\<rparr>"

definition date_of :: "local_date_time \<Rightarrow> local_date" where
  "date_of l = ymd (year l) (month l) (day l)"

definition local_as_utc_ms :: "local_date_time \<Rightarrow> int" where
  "local_as_utc_ms l =
     (let ms = date_utc (year l) (month l) (day l) (hour l) (minute l) (second l) in
      if 0 \<le> year l \<and> year l < 100 then set_utc_full_year ms (year l) else ms)"

text \<open>\<open>Math.round\<close> of a quotient of integers rounds half up.\<close>

definition round_div :: "int \<Rightarrow> int \<Rightarrow> int" where
  "round_div a b = (2 * a + b) div (2 * b)"

definition to_epoch_day :: "local_date \<Rightarrow> int" where
  "to_epoch_day d = round_div (local_as_utc_ms (at_time d 0 0 0)) ms_per_day"

definition from_epoch_day :: "int \<Rightarrow> local_date" where
  "from_epoch_day n =
     (let t = n * ms_per_day in ymd (utc_year t) (utc_month t) (utc_date t))"

definition add_days :: "local_date \<Rightarrow> int \<Rightarrow> local_date" where
  "add_days d n = from_epoch_day (to_epoch_day d + n)"

definition compare_local_dates :: "local_date \<Rightarrow> local_date \<Rightarrow> int" where
  "compare_local_dates a b = to_epoch_day a - to_epoch_day b"

definition compare_local_date_times :: "local_date_time \<Rightarrow> local_date_time \<Rightarrow> int" where
  "compare_local_date_times a b = local_as_utc_ms a - local_as_utc_ms b"

definition days_in_month :: "int \<Rightarrow> int \<Rightarrow> int" where
  "days_in_month y m = utc_date (date_utc y (m + 1) 0 0 0 0)"

definition iso_weekday_index :: "local_date \<Rightarrow> int" where
  "iso_weekday_index d = (utc_day (to_epoch_day d * ms_per_day) + 6) mod 7"

text \<open>\<open>/^(\d{4})-(\d{2})-(\d{2})$/\<close> as positions of a string of ten characters.\<close>

definition parse_local_date :: "string \<Rightarrow> local_date option" where
  "parse_local_date s =
     (if length s = 10 \<and> list_all is_digit (take 4 s) \<and> s ! 4 = CHR ''-''
         \<and> list_all is_digit (take 2 (drop 5 s)) \<and> s ! 7 = CHR ''-''
         \<and> list_all is_digit (drop 8 s)
      then (let y = int (read_nat (take 4 s)); m = int (read_nat (take 2 (drop 5 s)));
                d = int (read_nat (drop 8 s)) in
            if m < 1 \<or> m > 12 \<or> d < 1 then None
            else if d > days_in_month y m then None else Some (ymd y m d))
      else None)"

definition format_local_date :: "local_date \<Rightarrow> string" where
  "format_local_date d =
     pad_num 4 (year d) @ ''-'' @ pad_num 2 (month d) @ ''-'' @ pad_num 2 (day d)"

text \<open>\<open>Date.prototype.toISOString\<close>\<close>

definition to_iso_string :: "int \<Rightarrow> string" where
  "to_iso_string t =
     (let y = utc_year t in
      (if 0 \<le> y \<and> y \<le> 9999 then pad_num 4 y
       else (if y < 0 then ''-'' else ''+'') @ pad_num 6 \<bar>y\<bar>)
      @ ''-'' @ pad_num 2 (utc_month t) @ ''-'' @ pad_num 2 (utc_date t) @ ''T''
      @ pad_num 2 (utc_hours t) @ '':'' @ pad_num 2 (utc_minutes t) @ '':''
      @ pad_num 2 (utc_seconds t) @ ''.'' @ pad_num 3 (t mod 1000) @ ''Z'')"

section \<open>The calendar of the language specification\<close>

lemma div_incr:
  fixes x k :: int
  assumes "0 < k"
  shows "(x + 1) div k = x div k + (if k dvd x + 1 then 1 else 0)"
proof (cases "x mod k = k - 1")
  case True
  then have "x + 1 = k * (x div k + 1)"
    using mult_div_mod_eq [of k x] unfolding distrib_left by linarith
  with assms show ?thesis by simp
next
  case False
  with assms have r: "0 \<le> x mod k + 1" "x mod k + 1 < k"
    using pos_mod_bound [of k x] pos_mod_sign [of k x] by linarith+
  have x: "x + 1 = k * (x div k) + (x mod k + 1)"
    using mult_div_mod_eq [of k x] by linarith
  have q: "(x + 1) div k = x div k" using x r by (rule int_div_pos_eq)
  have "(x + 1) mod k = x mod k + 1" using x r by (rule int_mod_pos_eq)
  with r have "(x + 1) mod k \<noteq> 0" using pos_mod_sign [OF assms, of x] by linarith
  then show ?thesis unfolding q dvd_eq_mod_eq_0 by (simp only: if_False add_0_right)
qed

lemma div_bounds:
  fixes x k :: int
  assumes "0 < k"
  shows "x - k + 1 \<le> k * (x div k)" "k * (x div k) \<le> x"
  using assms mult_div_mod_eq [of k x] pos_mod_bound [of k x] pos_mod_sign [of k x] by linarith+

lemma day_from_year_Suc:
  "day_from_year (y + 1) = day_from_year y + 365 + (if leap_year y then 1 else 0)"
proof -
  have e: "y + 1 - 1969 = (y - 1969) + 1" "y + 1 - 1901 = (y - 1901) + 1"
    "y + 1 - 1601 = (y - 1601) + 1" by simp_all
  have d: "(4 dvd y - 1969 + 1) = (y mod 4 = 0)" "(100 dvd y - 1901 + 1) = (y mod 100 = 0)"
    "(400 dvd y - 1601 + 1) = (y mod 400 = 0)"
    using mod_eq_dvd_iff [of y 4 1968] mod_eq_dvd_iff [of y 100 1900]
      mod_eq_dvd_iff [of y 400 1600] by simp_all
  define a b c where "a = (y mod 4 = 0)" and "b = (y mod 100 = 0)" and "c = (y mod 400 = 0)"
  have i: "c \<Longrightarrow> b" "b \<Longrightarrow> a" unfolding a_def b_def c_def
    using dvd_trans [of 100 400 y] dvd_trans [of 4 100 y] by (auto simp: dvd_eq_mod_eq_0)
  have s: "(y - 1969 + 1) div 4 = (y - 1969) div 4 + (if a then 1 else 0)"
    "(y - 1901 + 1) div 100 = (y - 1901) div 100 + (if b then 1 else 0)"
    "(y - 1601 + 1) div 400 = (y - 1601) div 400 + (if c then 1 else 0)"
    unfolding a_def b_def c_def
    by (subst div_incr; simp only: d zero_less_numeral)+
  have "leap_year y = (a \<and> (\<not> b \<or> c))" by (simp add: leap_year_def a_def b_def c_def)
  with i show ?thesis
    unfolding day_from_year_def e s by (cases a; cases b; cases c) simp_all
qed

lemma day_from_year_mono: "y \<le> z \<Longrightarrow> day_from_year y \<le> day_from_year z"
proof (induction "nat (z - y)" arbitrary: z)
  case (Suc n)
  then have "n = nat (z - 1 - y)" "y \<le> z - 1" by auto
  with Suc.hyps(1) [of "z - 1"] have "day_from_year y \<le> day_from_year (z - 1)" by blast
  then show ?case using day_from_year_Suc [of "z - 1"] by (auto split: if_splits)
qed simp

lemma year_from_day_bounds:
  "day_from_year (year_from_day d) \<le> d" "d < day_from_year (year_from_day d + 1)"
proof -
  define e where "e = 1970 + d * 400 div 146097"
  have e: "146097 * (e - 1970) \<le> 400 * d" "400 * d < 146097 * (e - 1970) + 146097"
    using div_bounds [of 146097 "d * 400"] unfolding e_def by simp_all
  have lo: "day_from_year (e - 1) \<le> d"
    using e div_bounds [of 4 "e - 1970"] div_bounds [of 100 "e - 1902"]
      div_bounds [of 400 "e - 1602"]
    by (simp add: day_from_year_def)
  have hi: "d < day_from_year (e + 2)"
    using e div_bounds [of 4 "e - 1967"] div_bounds [of 100 "e - 1899"]
      div_bounds [of 400 "e - 1599"]
    by (simp add: day_from_year_def)
  show "day_from_year (year_from_day d) \<le> d" "d < day_from_year (year_from_day d + 1)"
    using lo hi unfolding year_from_day_def Let_def e_def [symmetric]
    by (auto simp: add.assoc)
qed

lemma year_from_day_eq:
  "day_from_year y \<le> d \<Longrightarrow> d < day_from_year (y + 1) \<Longrightarrow> year_from_day d = y"
  using year_from_day_bounds [of d] day_from_year_mono [of "year_from_day d + 1" y]
    day_from_year_mono [of "y + 1" "year_from_day d"]
  by linarith

definition month_length :: "bool \<Rightarrow> int \<Rightarrow> int" where
  "month_length leap m = days_before_month leap (m + 1) - days_before_month leap m"

lemma month_cases:
  fixes m :: int
  assumes "1 \<le> m" "m \<le> 12"
  shows "m = 1 \<or> m = 2 \<or> m = 3 \<or> m = 4 \<or> m = 5 \<or> m = 6 \<or> m = 7 \<or> m = 8 \<or> m = 9
    \<or> m = 10 \<or> m = 11 \<or> m = 12"
  using assms by presburger

lemma days_before_month_numerals:
  "days_before_month leap 1 = 0" "days_before_month leap 2 = 31"
  "days_before_month leap 3 = (if leap then 60 else 59)"
  "days_before_month leap 4 = (if leap then 91 else 90)"
  "days_before_month leap 5 = (if leap then 121 else 120)"
  "days_before_month leap 6 = (if leap then 152 else 151)"
  "days_before_month leap 7 = (if leap then 182 else 181)"
  "days_before_month leap 8 = (if leap then 213 else 212)"
  "days_before_month leap 9 = (if leap then 244 else 243)"
  "days_before_month leap 10 = (if leap then 274 else 273)"
  "days_before_month leap 11 = (if leap then 305 else 304)"
  "days_before_month leap 12 = (if leap then 335 else 334)"
  "days_before_month leap 13 = (if leap then 366 else 365)"
  by (simp_all add: days_before_month_def)

lemma month_of_yday_bounds:
  assumes "0 \<le> d" "d < (if leap then 366 else 365)"
  shows "1 \<le> month_of_yday leap d" "month_of_yday leap d \<le> 12"
    "days_before_month leap (month_of_yday leap d) \<le> d"
    "d < days_before_month leap (month_of_yday leap d + 1)"
  using assms unfolding month_of_yday_def Let_def days_before_month_numerals
  by (cases leap; simp add: days_before_month_numerals)+

lemma month_of_yday_eq:
  assumes "1 \<le> m" "m \<le> 12" "days_before_month leap m \<le> d" "d < days_before_month leap (m + 1)"
  shows "month_of_yday leap d = m"
  using month_cases [OF assms(1,2)] assms(3,4)
  by (elim disjE) (simp_all add: month_of_yday_def days_before_month_def Let_def split: if_splits)

lemma days_before_month_range:
  "0 \<le> days_before_month leap m"
  "days_before_month leap m \<le> (if leap then 366 else 365)"
  by (auto simp: days_before_month_def Let_def)

lemma month_length_pos: "1 \<le> m \<Longrightarrow> m \<le> 12 \<Longrightarrow> 28 \<le> month_length leap m \<and> month_length leap m \<le> 31"
  using month_cases [of m] by (auto simp: month_length_def days_before_month_def Let_def)

section \<open>Epoch days and civil dates\<close>

text \<open>Dates of the proleptic Gregorian calendar, as year, month and day.\<close>

definition civil_date :: "int \<Rightarrow> int \<Rightarrow> int \<Rightarrow> bool" where
  "civil_date y m d \<longleftrightarrow> 1 \<le> m \<and> m \<le> 12 \<and> 1 \<le> d \<and> d \<le> month_length (leap_year y) m"

lemma make_day_simple:
  "1 \<le> m \<Longrightarrow> m \<le> 12 \<Longrightarrow>
     make_day y m d = day_from_year y + days_before_month (leap_year y) m + d - 1"
  by (simp add: make_day_def)

lemma civil_yday:
  assumes "civil_date y m d"
  shows "0 \<le> days_before_month (leap_year y) m + d - 1"
    "days_before_month (leap_year y) m + d - 1 < (if leap_year y then 366 else 365)"
    "days_before_month (leap_year y) m \<le> days_before_month (leap_year y) m + d - 1"
    "days_before_month (leap_year y) m + d - 1 < days_before_month (leap_year y) (m + 1)"
  using assms days_before_month_range [of "leap_year y" m]
    days_before_month_range [of "leap_year y" "m + 1"]
  by (auto simp: civil_date_def month_length_def)

lemma day_of_ms_day [simp]: "day_of_ms (n * ms_per_day) = n"
  by (simp add: day_of_ms_def ms_per_day_def)

lemma utc_fields_make_day:
  assumes "civil_date y m d" "day_of_ms t = make_day y m d"
  shows "utc_year t = y" "utc_month t = m" "utc_date t = d"
proof -
  have m: "1 \<le> m" "m \<le> 12" using assms(1) by (auto simp: civil_date_def)
  note yd = civil_yday [OF assms(1)]
  have t: "day_of_ms t = day_from_year y + days_before_month (leap_year y) m + d - 1"
    using assms(2) m by (simp add: make_day_simple)
  then show y: "utc_year t = y"
    using yd day_from_year_Suc [of y] by (auto simp: utc_year_def intro!: year_from_day_eq split: if_splits)
  show mo: "utc_month t = m"
    unfolding utc_month_def y Let_def using m yd t by (intro month_of_yday_eq) auto
  show "utc_date t = d"
    using mo t unfolding utc_month_def utc_date_def y Let_def by simp
qed

lemma utc_fields_civil:
  "civil_date (utc_year t) (utc_month t) (utc_date t)"
  "make_day (utc_year t) (utc_month t) (utc_date t) = day_of_ms t"
proof -
  define y where "y = utc_year t"
  define yd where "yd = day_of_ms t - day_from_year y"
  have b: "0 \<le> yd" "yd < (if leap_year y then 366 else 365)"
    using year_from_day_bounds [of "day_of_ms t"] day_from_year_Suc [of y]
    by (auto simp: yd_def y_def utc_year_def split: if_splits)
  note m = month_of_yday_bounds [OF b]
  show "civil_date (utc_year t) (utc_month t) (utc_date t)"
    using m by (auto simp: civil_date_def month_length_def utc_month_def utc_date_def Let_def
        y_def [symmetric] yd_def [symmetric])
  show "make_day (utc_year t) (utc_month t) (utc_date t) = day_of_ms t"
    using m by (auto simp: make_day_simple utc_month_def utc_date_def Let_def y_def [symmetric] yd_def)
qed

lemma civil_date_unique:
  assumes "civil_date y m d" "civil_date y' m' d'" "make_day y m d = make_day y' m' d'"
  shows "y = y'" "m = m'" "d = d'"
  using utc_fields_make_day [OF assms(1), of "make_day y m d * ms_per_day"]
    utc_fields_make_day [OF assms(2), of "make_day y m d * ms_per_day"] assms(3)
  by simp_all

lemma make_day_month_end:
  "1 \<le> m \<Longrightarrow> m \<le> 12 \<Longrightarrow> make_day y (m + 1) 0 = make_day y m (month_length (leap_year y) m)"
proof (cases "m = 12")
  case True
  then show ?thesis using day_from_year_Suc [of y]
    by (simp add: make_day_def month_length_def days_before_month_def)
qed (simp add: make_day_simple month_length_def)

text \<open>The year \<open>Date.UTC\<close> reads, and its leap rule: only the year 0 differs.\<close>

definition utc_read_year :: "int \<Rightarrow> int" where
  "utc_read_year y = (if 0 \<le> y \<and> y \<le> 99 then 1900 + y else y)"

lemma leap_utc_read_year: "y \<noteq> 0 \<Longrightarrow> leap_year (utc_read_year y) = leap_year y"
proof (cases "0 \<le> y \<and> y \<le> 99")
  case True
  assume "y \<noteq> 0"
  with True have y: "y mod 100 = y" "(1900 + y) mod 100 = y" by (auto simp: mod_pos_pos_trivial)
      (use mod_mult_self3 [of 19 100 y] in simp)
  moreover have "(1900 + y) mod 4 = y mod 4" using mod_mult_self3 [of 475 4 y] by simp
  ultimately show ?thesis using True \<open>y \<noteq> 0\<close>
    by (simp add: leap_year_def utc_read_year_def)
qed (auto simp: utc_read_year_def)

lemma civil_month_end:
  "1 \<le> m \<Longrightarrow> m \<le> 12 \<Longrightarrow> civil_date y m (month_length (leap_year y) m)"
  using month_length_pos [of m "leap_year y"] by (simp add: civil_date_def)

lemma days_in_month_eq:
  assumes "1 \<le> m" "m \<le> 12"
  shows "days_in_month y m = month_length (leap_year (utc_read_year y)) m"
proof -
  let ?y = "utc_read_year y"
  have "day_of_ms (date_utc y (m + 1) 0 0 0 0) = make_day ?y m (month_length (leap_year ?y) m)"
    using assms make_day_month_end [of m ?y] by (simp add: date_utc_def utc_read_year_def Let_def)
  with civil_month_end [OF assms] show ?thesis
    unfolding days_in_month_def by (intro utc_fields_make_day)
qed

text \<open>The dates the code accepts: the day of the month is within \<open>daysInMonth\<close>.\<close>

definition valid_date :: "local_date \<Rightarrow> bool" where
  "valid_date d \<longleftrightarrow>
     1 \<le> month d \<and> month d \<le> 12 \<and> 1 \<le> day d \<and> day d \<le> days_in_month (year d) (month d)"

lemma leap_year_0 [simp]: "leap_year 0" "\<not> leap_year 1900"
  by (simp_all add: leap_year_def)

lemma valid_date_civil:
  "valid_date d \<longleftrightarrow>
     civil_date (year d) (month d) (day d) \<and> \<not> (year d = 0 \<and> month d = 2 \<and> day d = 29)"
proof (cases "year d = 0")
  case True
  then have "utc_read_year (year d) = 1900" by (simp add: utc_read_year_def)
  with True show ?thesis
    using month_cases [of "month d"]
    by (auto simp: valid_date_def civil_date_def days_in_month_eq month_length_def
        days_before_month_def)
next
  case False
  then show ?thesis
    by (auto simp: valid_date_def civil_date_def days_in_month_eq leap_utc_read_year)
qed

lemma round_div_mult [simp]: "0 < b \<Longrightarrow> round_div (a * b) b = a"
proof -
  assume b: "0 < b"
  then have "2 * (a * b) + b = (2 * b) * a + b" by simp
  with b show ?thesis unfolding round_div_def by (intro int_div_pos_eq [where r = b]) auto
qed

lemma ms_per_day_pos [simp]: "0 < ms_per_day" "0 \<le> ms_per_day"
  by (simp_all add: ms_per_day_def)

lemma civil_read_year:
  "valid_date d \<Longrightarrow> civil_date (utc_read_year (year d)) (month d) (day d)"
  using days_in_month_eq [of "month d" "year d"] by (simp add: valid_date_def civil_date_def)

lemma local_midnight_ms:
  assumes "valid_date d"
  shows "local_as_utc_ms (at_time d 0 0 0) = make_day (year d) (month d) (day d) * ms_per_day"
proof -
  let ?y = "utc_read_year (year d)"
  let ?t = "date_utc (year d) (month d) (day d) 0 0 0"
  have t: "?t = make_day ?y (month d) (day d) * ms_per_day"
    by (simp add: date_utc_def utc_read_year_def Let_def)
  then have "utc_month ?t = month d" "utc_date ?t = day d"
    using utc_fields_make_day [OF civil_read_year [OF assms]] by simp_all
  then show ?thesis using t
    by (auto simp: local_as_utc_ms_def at_time_def set_utc_full_year_def utc_read_year_def Let_def)
qed

lemma to_epoch_day_valid:
  "valid_date d \<Longrightarrow> to_epoch_day d = make_day (year d) (month d) (day d)"
  by (simp add: to_epoch_day_def local_midnight_ms)

lemma from_epoch_day_fields:
  "civil_date (year (from_epoch_day n)) (month (from_epoch_day n)) (day (from_epoch_day n))"
  "make_day (year (from_epoch_day n)) (month (from_epoch_day n)) (day (from_epoch_day n)) = n"
  using utc_fields_civil [of "n * ms_per_day"]
  by (simp_all add: from_epoch_day_def ymd_def Let_def)

lemma from_epoch_day_make_day:
  "civil_date y m d \<Longrightarrow> from_epoch_day (make_day y m d) = ymd y m d"
  using utc_fields_make_day [of y m d "make_day y m d * ms_per_day"]
  by (simp add: from_epoch_day_def Let_def)

lemma ymd_eta [simp]: "ymd (year d) (month d) (day d) = d"
  by (simp add: ymd_def)

lemma ymd_sel [simp]: "year (ymd y m d) = y" "month (ymd y m d) = m" "day (ymd y m d) = d"
  by (simp_all add: ymd_def)

lemma from_to_epoch_day: "valid_date d \<Longrightarrow> from_epoch_day (to_epoch_day d) = d"
  by (simp add: to_epoch_day_valid valid_date_civil from_epoch_day_make_day)

lemma make_day_lost: "make_day 0 2 29 = -719469"
  by (simp add: make_day_def days_before_month_def day_from_year_def)

lemma valid_from_epoch_day: "valid_date (from_epoch_day n) \<longleftrightarrow> n \<noteq> -719469"
  unfolding valid_date_civil
  using from_epoch_day_fields [of n] from_epoch_day_make_day [of 0 2 29] make_day_lost
  by (auto simp: civil_date_def month_length_def days_before_month_def ymd_def)

lemma to_from_epoch_day: "n \<noteq> -719469 \<Longrightarrow> to_epoch_day (from_epoch_day n) = n"
  using from_epoch_day_fields [of n] by (simp add: to_epoch_day_valid valid_from_epoch_day)

lemma epoch_days_modern: "1970 \<le> year d \<Longrightarrow> valid_date d \<Longrightarrow> 0 \<le> to_epoch_day d"
  using day_from_year_mono [of 1970 "year d"] days_before_month_range [of "leap_year (year d)" "month d"]
  by (simp add: to_epoch_day_valid valid_date_def make_day_simple) (simp add: day_from_year_def)

subsection \<open>Order\<close>

definition date_less :: "local_date \<Rightarrow> local_date \<Rightarrow> bool" where
  "date_less a b \<longleftrightarrow>
     year a < year b \<or> year a = year b \<and>
       (month a < month b \<or> month a = month b \<and> day a < day b)"

lemma make_day_year: "civil_date y m d \<Longrightarrow> day_from_year y \<le> make_day y m d \<and> make_day y m d < day_from_year (y + 1)"
  using civil_yday [of y m d] day_from_year_Suc [of y]
  by (auto simp: civil_date_def make_day_simple split: if_splits)

lemma days_before_month_step:
  "1 \<le> m \<Longrightarrow> m < n \<Longrightarrow> n \<le> 12 \<Longrightarrow> days_before_month leap (m + 1) \<le> days_before_month leap n"
  using month_cases [of m] by (elim meta_impE) (auto simp: days_before_month_def)

lemma make_day_less:
  assumes a: "civil_date y m d" and b: "civil_date y' m' d'"
    and lt: "y < y' \<or> y = y' \<and> (m < m' \<or> m = m' \<and> d < d')"
  shows "make_day y m d < make_day y' m' d'"
proof (cases "y < y'")
  case True
  then show ?thesis
    using make_day_year [OF a] make_day_year [OF b] day_from_year_mono [of "y + 1" y'] by simp
next
  case False
  with lt have y: "y' = y" by auto
  have m: "1 \<le> m" "m \<le> 12" "1 \<le> m'" "m' \<le> 12" "1 \<le> d'"
    "d \<le> days_before_month (leap_year y) (m + 1) - days_before_month (leap_year y) m"
    using a b by (auto simp: civil_date_def month_length_def y)
  show ?thesis
  proof (cases "m < m'")
    case True
    then show ?thesis using days_before_month_step [of m m' "leap_year y"] m
      by (simp add: make_day_simple y)
  next
    case False
    with lt y have "m' = m" "d < d'" by auto
    with m show ?thesis by (simp add: make_day_simple y)
  qed
qed

lemma compare_local_dates_less:
  assumes "valid_date a" "valid_date b"
  shows "compare_local_dates a b < 0 \<longleftrightarrow> date_less a b"
proof
  assume "date_less a b"
  with assms show "compare_local_dates a b < 0"
    using make_day_less [of "year a" "month a" "day a" "year b" "month b" "day b"]
    by (auto simp: compare_local_dates_def to_epoch_day_valid valid_date_civil date_less_def)
next
  assume lt: "compare_local_dates a b < 0"
  show "date_less a b"
  proof (rule ccontr)
    assume "\<not> date_less a b"
    then have "a = b \<or> date_less b a" 
      by (cases a; cases b) (auto simp: date_less_def)
    then show False using lt assms
        make_day_less [of "year b" "month b" "day b" "year a" "month a" "day a"]
      by (auto simp: compare_local_dates_def to_epoch_day_valid valid_date_civil date_less_def)
  qed
qed

lemma iso_weekday_epoch: "iso_weekday_index d = (to_epoch_day d + 3) mod 7"
  using mod_add_self2 [of "to_epoch_day d + 3" 7]
  by (simp add: iso_weekday_index_def utc_day_def mod_add_left_eq)

lemma add_days_valid: "add_days d n = from_epoch_day (to_epoch_day d + n)"
  by (simp add: add_days_def)

lemma add_days_epoch:
  "to_epoch_day d + n \<noteq> -719469 \<Longrightarrow> to_epoch_day (add_days d n) = to_epoch_day d + n"
  by (simp add: add_days_def to_from_epoch_day)

section \<open>Reading and printing dates\<close>

lemma parse_local_date_Some:
  "parse_local_date s = Some d \<Longrightarrow> valid_date d \<and> 0 \<le> year d \<and> length s = 10"
  by (auto simp: parse_local_date_def valid_date_def ymd_def Let_def split: if_splits)

lemma is_digit_not_dash: "is_digit c \<Longrightarrow> c \<noteq> CHR ''-''"
  by (auto simp: is_digit_def)

lemma valid_date_day_31: "valid_date d \<Longrightarrow> day d \<le> 31"
  using month_length_pos [of "month d" "leap_year (year d)"]
  by (auto simp: valid_date_civil civil_date_def)

lemma parse_format_local_date:
  assumes "valid_date d" "0 \<le> year d" "year d \<le> 9999"
  shows "parse_local_date (format_local_date d) = Some d"
proof -
  have "day d \<le> 31" using assms valid_date_day_31 by blast
  with assms have d: "1 \<le> month d" "month d \<le> 12" "1 \<le> day d" "day d \<le> 31"
    "day d \<le> days_in_month (year d) (month d)" by (auto simp: valid_date_def)
  define p4 p2 q2 where "p4 = pad_num 4 (year d)" and "p2 = pad_num 2 (month d)"
    and "q2 = pad_num 2 (day d)"
  have l: "length p4 = 4" "length p2 = 2" "length q2 = 2"
    using assms d by (auto simp: p4_def p2_def q2_def intro!: length_pad_num)
  have g: "list_all is_digit p4" "list_all is_digit p2" "list_all is_digit q2"
    using assms d by (auto simp: p4_def p2_def q2_def intro!: pad_num_digits)
  have r: "read_nat p4 = nat (year d)" "read_nat p2 = nat (month d)" "read_nat q2 = nat (day d)"
    using assms d by (simp_all add: p4_def p2_def q2_def)
  have f: "format_local_date d = p4 @ ''-'' @ p2 @ ''-'' @ q2"
    by (simp add: format_local_date_def p4_def p2_def q2_def)
  have "take 4 (format_local_date d) = p4" "take 2 (drop 5 (format_local_date d)) = p2"
    "drop 8 (format_local_date d) = q2" "length (format_local_date d) = 10"
    "format_local_date d ! 4 = CHR ''-''" "format_local_date d ! 7 = CHR ''-''"
    using l by (simp_all add: f nth_append)
  with g r d assms show ?thesis
    by (simp add: parse_local_date_def Let_def)
qed

end
