(* ===== verification/Zoned_Time.thy ===== *)
theory Zoned_Time
  imports Civil_Date
begin

text \<open>
  Wall-clock readings and instants, the zoned half of
  \<open>packages/kernel/src/recurrence/zoned-time.ts\<close>. The zone data is the runtime's own
  (\<open>Intl.DateTimeFormat\<close>), so it is a parameter: which zone names the formatter accepts
  and the parts it prints for an instant. \<open>zone_model\<close> states what the code relies on,
  that the parts are the civil reading of the instant moved by the offset in force.

  An offset is kept in milliseconds; the source divides it by 60000 and multiplies it back,
  which is exact for the offsets of whole minutes every zone has today.
\<close>

record intl =
  zone_accepted :: "string \<Rightarrow> bool"
  format_to_parts :: "string \<Rightarrow> int \<Rightarrow> (string \<times> string) list"

definition is_valid_time_zone :: "intl \<Rightarrow> string \<Rightarrow> bool" where
  "is_valid_time_zone I tz \<longleftrightarrow>
     \<not> (trim tz = [] \<or> (tz \<noteq> [] \<and> (hd tz = CHR ''+'' \<or> hd tz = CHR ''-'')))
     \<and> zone_accepted I tz"

definition find_part :: "(string \<times> string) list \<Rightarrow> string \<Rightarrow> string option" where
  "find_part parts ty = map_option snd (List.find (\<lambda>p. fst p = ty) parts)"

definition read_part :: "(string \<times> string) list \<Rightarrow> string \<Rightarrow> int" where
  "read_part parts ty =
     (case find_part parts ty of None \<Rightarrow> 0 | Some v \<Rightarrow> int (read_nat v))"

definition instant_to_local :: "intl \<Rightarrow> int \<Rightarrow> string \<Rightarrow> local_date_time" where
  "instant_to_local I t tz =
     (let parts = format_to_parts I tz t;
          era = (case find_part parts ''era'' of None \<Rightarrow> ''AD'' | Some e \<Rightarrow> e);
          y = read_part parts ''year'' in
      \<lparr>year = (if era = ''BC'' then 1 - y else y), month = read_part parts ''month'',
       day = read_part parts ''day'', hour = read_part parts ''hour'',
       minute = read_part parts ''minute'', second = read_part parts ''second''\<rparr>)"

definition offset_ms_at :: "intl \<Rightarrow> int \<Rightarrow> string \<Rightarrow> int" where
  "offset_ms_at I t tz =
     (let whole_second = t div 1000 * 1000 in
      local_as_utc_ms (instant_to_local I whole_second tz) - whole_second)"

definition same_local :: "local_date_time \<Rightarrow> local_date_time \<Rightarrow> bool" where
  "same_local a b \<longleftrightarrow>
     year a = year b \<and> month a = month b \<and> day a = day b \<and>
     hour a = hour b \<and> minute a = minute b \<and> second a = second b"

definition local_to_instant :: "intl \<Rightarrow> local_date_time \<Rightarrow> string \<Rightarrow> int" where
  "local_to_instant I l tz =
     (let pivot = local_as_utc_ms l;
          offset_before = offset_ms_at I (pivot - ms_per_day) tz;
          offset_after = offset_ms_at I (pivot + ms_per_day) tz;
          candidates = sort (filter (\<lambda>ms. same_local (instant_to_local I ms tz) l)
            (map (\<lambda>off. pivot - off) (unique [offset_before, offset_after]))) in
      (case candidates of
         earliest # _ \<Rightarrow> earliest
       | [] \<Rightarrow> pivot - offset_before))"

definition start_of_day :: "intl \<Rightarrow> local_date \<Rightarrow> string \<Rightarrow> int" where
  "start_of_day I d tz = local_to_instant I (at_time d 0 0 0) tz"

section \<open>Readings as moved instants\<close>

definition local_of_ms :: "int \<Rightarrow> local_date_time" where
  "local_of_ms t =
     \<lparr>year = utc_year t, month = utc_month t, day = utc_date t,
      hour = utc_hours t, minute = utc_minutes t, second = utc_seconds t\<rparr>"

definition valid_local :: "local_date_time \<Rightarrow> bool" where
  "valid_local l \<longleftrightarrow> valid_date (date_of l) \<and> 0 \<le> hour l \<and> hour l < 24 \<and>
     0 \<le> minute l \<and> minute l < 60 \<and> 0 \<le> second l \<and> second l < 60"

lemma same_local_eq: "same_local a b \<longleftrightarrow> a = b"
  by (cases a; cases b) (auto simp: same_local_def)

lemma date_of_sel [simp]: "year (date_of l) = year l" "month (date_of l) = month l"
  "day (date_of l) = day l"
  by (simp_all add: date_of_def)

definition clock_ms :: "local_date_time \<Rightarrow> int" where
  "clock_ms l = hour l * 3600000 + minute l * 60000 + second l * 1000"

lemma clock_ms_range:
  "valid_local l \<Longrightarrow> 0 \<le> clock_ms l \<and> clock_ms l < ms_per_day"
  by (auto simp: valid_local_def clock_ms_def ms_per_day_def)

lemma day_of_ms_split [simp]:
  "0 \<le> r \<Longrightarrow> r < ms_per_day \<Longrightarrow> day_of_ms (n * ms_per_day + r) = n"
  "0 \<le> r \<Longrightarrow> r < ms_per_day \<Longrightarrow> (n * ms_per_day + r) mod ms_per_day = r"
  by (simp_all add: day_of_ms_def)

lemma local_as_utc_ms_valid:
  assumes "valid_local l"
  shows "local_as_utc_ms l = make_day (year l) (month l) (day l) * ms_per_day + clock_ms l"
proof -
  let ?y = "utc_read_year (year l)"
  let ?t = "date_utc (year l) (month l) (day l) (hour l) (minute l) (second l)"
  have v: "valid_date (date_of l)" using assms by (simp add: valid_local_def)
  have c: "civil_date ?y (month l) (day l)" using civil_read_year [OF v] by simp
  have t: "?t = make_day ?y (month l) (day l) * ms_per_day + clock_ms l"
    by (simp add: date_utc_def utc_read_year_def Let_def clock_ms_def)
  with clock_ms_range [OF assms] have d: "day_of_ms ?t = make_day ?y (month l) (day l)"
    "?t mod ms_per_day = clock_ms l" by simp_all
  then have "utc_month ?t = month l" "utc_date ?t = day l"
    using utc_fields_make_day [OF c] by simp_all
  then show ?thesis using t d
    by (auto simp: local_as_utc_ms_def set_utc_full_year_def utc_read_year_def Let_def)
qed

lemma clock_fields:
  assumes "valid_local l" "t = n * ms_per_day + clock_ms l"
  shows "utc_hours t = hour l" "utc_minutes t = minute l" "utc_seconds t = second l"
proof -
  have r: "0 \<le> hour l" "hour l < 24" "0 \<le> minute l" "minute l < 60" "0 \<le> second l" "second l < 60"
    using assms by (auto simp: valid_local_def)
  have "t div 1000 = (n * 1440 + hour l * 60 + minute l) * 60 + second l"
    unfolding assms(2) clock_ms_def ms_per_day_def by (rule int_div_pos_eq [where r = 0]) auto
  with r show "utc_seconds t = second l"
    unfolding utc_seconds_def by (intro int_mod_pos_eq [where q = "n * 1440 + hour l * 60 + minute l"]) auto
  have "t div 60000 = (n * 24 + hour l) * 60 + minute l"
    unfolding assms(2) clock_ms_def ms_per_day_def
    by (rule int_div_pos_eq [where r = "second l * 1000"]) (use r in auto)
  with r show "utc_minutes t = minute l"
    unfolding utc_minutes_def by (intro int_mod_pos_eq [where q = "n * 24 + hour l"]) auto
  have "t div 3600000 = n * 24 + hour l"
    unfolding assms(2) clock_ms_def ms_per_day_def
    by (rule int_div_pos_eq [where r = "minute l * 60000 + second l * 1000"]) (use r in auto)
  with r show "utc_hours t = hour l"
    unfolding utc_hours_def by (intro int_mod_pos_eq [where q = "n"]) auto
qed

lemma local_of_ms_of_local:
  assumes "valid_local l"
  shows "local_of_ms (local_as_utc_ms l) = l"
proof -
  have c: "civil_date (year l) (month l) (day l)"
    using assms valid_date_civil [of "date_of l"] by (simp add: valid_local_def)
  note ms = local_as_utc_ms_valid [OF assms]
  have "day_of_ms (local_as_utc_ms l) = make_day (year l) (month l) (day l)"
    using ms clock_ms_range [OF assms] by simp
  then show ?thesis
    using utc_fields_make_day [OF c] clock_fields [OF assms ms]
    by (simp add: local_of_ms_def)
qed

lemma civil_lost: "civil_date 0 2 29"
  by (simp add: civil_date_def month_length_def days_before_month_def)

lemma valid_utc_date:
  "valid_date (ymd (utc_year t) (utc_month t) (utc_date t)) \<longleftrightarrow> day_of_ms t \<noteq> -719469"
proof (cases "day_of_ms t = -719469")
  case True
  then have "utc_year t = 0" "utc_month t = 2" "utc_date t = 29"
    using utc_fields_make_day [OF civil_lost, of t] make_day_lost by simp_all
  with True show ?thesis by (simp add: valid_date_civil)
next
  case False
  then have "\<not> (utc_year t = 0 \<and> utc_month t = 2 \<and> utc_date t = 29)"
    using utc_fields_civil(2) [of t] make_day_lost by auto
  with False utc_fields_civil(1) [of t] show ?thesis by (simp add: valid_date_civil)
qed

lemma valid_local_of_ms: "valid_local (local_of_ms t) \<longleftrightarrow> day_of_ms t \<noteq> -719469"
  using valid_utc_date [of t]
  by (simp add: valid_local_def local_of_ms_def date_of_def utc_hours_def utc_minutes_def
      utc_seconds_def)

lemma clock_of_ms: "clock_ms (local_of_ms t) = t mod ms_per_day - t mod 1000"
proof -
  have h: "t div 3600000 = t div 1000 div 60 div 60" "t div 60000 = t div 1000 div 60"
    "t div ms_per_day = t div 1000 div 60 div 60 div 24"
    by (simp_all add: zdiv_zmult2_eq [symmetric] ms_per_day_def)
  define a b c where "a = t div 1000" and "b = a div 60" and "c = b div 60"
  have "a mod 60 = a - 60 * b" "b mod 60 = b - 60 * c" "c mod 24 = c - 24 * (c div 24)"
    unfolding b_def c_def by (simp_all add: minus_mult_div_eq_mod)
  moreover have "t mod ms_per_day = t - ms_per_day * (c div 24)" "t mod 1000 = t - 1000 * a"
    using minus_mult_div_eq_mod [of t ms_per_day] minus_mult_div_eq_mod [of t 1000]
    unfolding h a_def b_def c_def by simp_all
  ultimately show ?thesis
    by (simp add: clock_ms_def local_of_ms_def utc_hours_def utc_minutes_def utc_seconds_def h
        a_def [symmetric] b_def [symmetric] c_def [symmetric]) (simp add: ms_per_day_def)
qed

lemma local_as_utc_ms_of_ms:
  assumes "day_of_ms t \<noteq> -719469"
  shows "local_as_utc_ms (local_of_ms t) = t - t mod 1000"
proof -
  have "local_as_utc_ms (local_of_ms t) =
      make_day (utc_year t) (utc_month t) (utc_date t) * ms_per_day + clock_ms (local_of_ms t)"
    using local_as_utc_ms_valid [of "local_of_ms t"] assms
    by (simp add: valid_local_of_ms) (simp add: local_of_ms_def)
  then show ?thesis
    by (simp add: utc_fields_civil clock_of_ms) (simp add: day_of_ms_def minus_mod_eq_div_mult [symmetric])
qed

section \<open>What the zone data promises\<close>

text \<open>
  The formatter prints the civil reading of the instant moved by the offset in force, an
  offset of whole seconds and of less than a day.
\<close>

definition zone_model :: "intl \<Rightarrow> string \<Rightarrow> (int \<Rightarrow> int) \<Rightarrow> bool" where
  "zone_model I tz off \<longleftrightarrow>
     (\<forall>t. instant_to_local I t tz = local_of_ms (t + off t)
        \<and> off t mod 1000 = 0 \<and> \<bar>off t\<bar> < ms_per_day)"

text \<open>
  At most one change of offset within a day of \<open>p\<close>, at the whole second \<open>at\<close>.
\<close>

definition one_transition :: "(int \<Rightarrow> int) \<Rightarrow> int \<Rightarrow> int \<Rightarrow> bool" where
  "one_transition off p at \<longleftrightarrow> at mod 1000 = 0 \<and>
     (\<forall>t. p - ms_per_day \<le> t \<and> t \<le> p + ms_per_day
        \<longrightarrow> off t = (if t < at then off (p - ms_per_day) else off (p + ms_per_day)))"

lemma zone_modelD:
  assumes "zone_model I tz off"
  shows "instant_to_local I t tz = local_of_ms (t + off t)" "off t mod 1000 = 0"
    "off t < ms_per_day" "- ms_per_day < off t"
  using assms by (simp_all add: zone_model_def abs_less_iff) (metis minus_less_iff)

lemma whole_second_add: "a mod 1000 = 0 \<Longrightarrow> (b + a) mod 1000 = b mod (1000::int)"
  by (metis add.right_neutral mod_add_right_eq)

lemma offset_ms_at_model:
  assumes "zone_model I tz off" "t mod 1000 = 0" "day_of_ms (t + off t) \<noteq> -719469"
  shows "offset_ms_at I t tz = off t"
proof -
  have "t div 1000 * 1000 = t" using assms(2) by (simp add: minus_mod_eq_div_mult [symmetric])
  then show ?thesis
    using assms zone_modelD [OF assms(1), of t] whole_second_add [of "off t" t]
    by (simp add: offset_ms_at_def Let_def local_as_utc_ms_of_ms)
qed

text \<open>The pivot of a valid reading of the first century or later.\<close>

lemma pivot_props:
  assumes "valid_local l" "1 \<le> year l"
  shows "local_as_utc_ms l mod 1000 = 0" "-719162 * ms_per_day \<le> local_as_utc_ms l"
proof -
  have "1000 dvd local_as_utc_ms l"
    unfolding local_as_utc_ms_valid [OF assms(1)] clock_ms_def ms_per_day_def
    by (intro dvd_add dvd_mult) simp_all
  then show "local_as_utc_ms l mod 1000 = 0" by simp
  have c: "civil_date (year l) (month l) (day l)"
    using assms valid_date_civil [of "date_of l"] by (simp add: valid_local_def)
  have "day_from_year 1 \<le> make_day (year l) (month l) (day l)"
    using make_day_year [OF c] day_from_year_mono [OF assms(2)] by simp
  then have "-719162 \<le> make_day (year l) (month l) (day l)" by (simp add: day_from_year_def)
  then have "-719162 * ms_per_day \<le> make_day (year l) (month l) (day l) * ms_per_day"
    by (intro mult_right_mono) auto
  then show "-719162 * ms_per_day \<le> local_as_utc_ms l"
    using local_as_utc_ms_valid [OF assms(1)] clock_ms_range [OF assms(1)] by simp
qed

lemma not_lost_day: "-719166 * ms_per_day \<le> t \<Longrightarrow> day_of_ms t \<noteq> -719469"
  using zdiv_mono1 [of "-719166 * ms_per_day" t ms_per_day]
  by (simp add: day_of_ms_def) (simp add: ms_per_day_def)

section \<open>The instant of a reading\<close>

definition pick_instant :: "(int \<Rightarrow> int) \<Rightarrow> int \<Rightarrow> int" where
  "pick_instant off p =
     (let b = p - off (p - ms_per_day); a = p - off (p + ms_per_day) in
      if b + off b = p \<and> (a + off a = p \<longrightarrow> b \<le> a) then b
      else if a + off a = p then a else b)"

lemma local_of_ms_inj:
  "day_of_ms s \<noteq> -719469 \<Longrightarrow> s mod 1000 = 0 \<Longrightarrow> valid_local l \<Longrightarrow>
     local_of_ms s = l \<longleftrightarrow> s = local_as_utc_ms l"
  using local_as_utc_ms_of_ms [of s] local_of_ms_of_local [of l] by auto

lemma local_to_instant_pick:
  assumes z: "zone_model I tz off" and l: "valid_local l" "1 \<le> year l"
  shows "local_to_instant I l tz = pick_instant off (local_as_utc_ms l)"
proof -
  define p where "p = local_as_utc_ms l"
  note p = pivot_props [OF l, folded p_def]
  have ms: "ms_per_day mod 1000 = 0" by (simp add: ms_per_day_def)
  have lost: "day_of_ms (t + off t) \<noteq> -719469" if "p - 2 * ms_per_day \<le> t" for t
    using that p zone_modelD(4) [OF z, of t] ms_per_day_pos by (intro not_lost_day) linarith
  have ob: "offset_ms_at I (p - ms_per_day) tz = off (p - ms_per_day)"
    using p ms by (intro offset_ms_at_model [OF z] lost) (auto simp: mod_diff_eq [symmetric])
  have oa: "offset_ms_at I (p + ms_per_day) tz = off (p + ms_per_day)"
    using p ms by (intro offset_ms_at_model [OF z] lost) (auto simp: mod_add_eq [symmetric])
  have real: "same_local (instant_to_local I (p - off u) tz) l \<longleftrightarrow> p - off u + off (p - off u) = p"
    for u
  proof -
    have "(p - off u + off (p - off u)) mod 1000 = 0"
      using p(1) zone_modelD(2) [OF z] by (metis diff_zero mod_0 mod_add_eq mod_diff_eq add.right_neutral)
    moreover have "day_of_ms (p - off u + off (p - off u)) \<noteq> -719469"
      using zone_modelD(3,4) [OF z, of u] by (intro lost) simp
    ultimately show ?thesis
      using local_of_ms_inj [OF _ _ l(1)] zone_modelD(1) [OF z] by (simp add: same_local_eq p_def)
  qed
  show ?thesis
    unfolding local_to_instant_def Let_def p_def [symmetric] ob oa pick_instant_def
    by (auto simp: unique_def real)
qed

lemma one_transitionD:
  "one_transition off p at \<Longrightarrow> p - ms_per_day \<le> t \<Longrightarrow> t \<le> p + ms_per_day \<Longrightarrow>
     off t = (if t < at then off (p - ms_per_day) else off (p + ms_per_day))"
  by (simp add: one_transition_def)

lemma whole_second_ge: "0 < x \<Longrightarrow> x mod 1000 = 0 \<Longrightarrow> 1000 \<le> (x::int)"
  using mod_pos_pos_trivial [of x 1000] by linarith

lemma pick_instant_reads:
  assumes one: "one_transition off p at" and off: "\<And>t. \<bar>off t\<bar> < ms_per_day"
    and t: "t mod 1000 = s" "0 \<le> s" "t + off t = p + s" "p mod 1000 = 0" "off t mod 1000 = 0"
  shows "pick_instant off p + off (pick_instant off p) = p" "pick_instant off p \<le> t"
proof -
  define c where "c = p - off t"
  have c: "c = t - s" using t by (simp add: c_def)
  have ot: "- ms_per_day < off t" "off t < ms_per_day" using off [of t] by auto
  have s: "s < 1000" using t by auto
  have "(off t + ms_per_day) mod 1000 = 0"
    using t(5) by (simp add: ms_per_day_def mod_add_eq [symmetric])
  then have "1000 \<le> off t + ms_per_day" using ot by (intro whole_second_ge) linarith+
  then have w: "p - ms_per_day \<le> t" "t \<le> p + ms_per_day" "p - ms_per_day \<le> c" "c \<le> p + ms_per_day"
    using ot t(2,3) s unfolding c_def by linarith+
  have cm: "c mod 1000 = 0"
    unfolding c t(1) [symmetric] by (simp add: minus_mod_eq_mult_div)
  have "off c = off t"
  proof (cases "c < at \<and> at \<le> t")
    case True
    then have "0 < at - c" "at - c < 1000" using c s by auto
    moreover have "(at - c) mod 1000 = 0"
      using one cm by (metis one_transition_def diff_zero mod_0 mod_diff_eq)
    ultimately show ?thesis by simp
  next
    case False
    then have "c < at \<longleftrightarrow> t < at" using c t(2) by linarith
    then show ?thesis using one_transitionD [OF one w(1,2)] one_transitionD [OF one w(3,4)] by simp
  qed
  then have real: "c + off c = p" by (simp add: c_def)
  have "off t = off (p - ms_per_day) \<or> off t = off (p + ms_per_day)"
    using one_transitionD [OF one w(1,2)] by presburger
  then have "c = p - off (p - ms_per_day) \<or> c = p - off (p + ms_per_day)" by (auto simp: c_def)
  with real c t(2) show "pick_instant off p + off (pick_instant off p) = p"
    "pick_instant off p \<le> t" by (auto simp: pick_instant_def Let_def)
qed

lemma pick_instant_gap:
  assumes one: "one_transition off p at" and off: "\<And>t. \<bar>off t\<bar> < ms_per_day"
    and gap: "\<And>t. t + off t \<noteq> p"
  shows "pick_instant off p = p - off (p - ms_per_day)"
    "off (p - ms_per_day) < off (p + ms_per_day)"
    "off (p - off (p - ms_per_day)) = off (p + ms_per_day)"
proof -
  let ?b = "off (p - ms_per_day)" and ?a = "off (p + ms_per_day)"
  show "pick_instant off p = p - ?b" using gap by (simp add: pick_instant_def Let_def)
  have w: "off (p - ?b) = (if p - ?b < at then ?b else ?a)"
    "off (p - ?a) = (if p - ?a < at then ?b else ?a)"
    using off [of "p - ms_per_day"] off [of "p + ms_per_day"] unfolding abs_less_iff
    by (intro one_transitionD [OF one]; linarith)+
  with gap [of "p - ?b"] gap [of "p - ?a"] have "at \<le> p - ?b" "p - ?a < at"
    by (auto split: if_splits)
  with w show "?b < ?a" "off (p - ?b) = ?a" by auto
qed

text \<open>
  C6: Where some instant has the wall-clock reading in the zone, \<open>localToInstant\<close> returns an
  instant with that reading, and the earliest one: in the repeated hour of a fall back, the
  first of the two.
\<close>

theorem local_to_instant_earliest:
  assumes "zone_model I tz off" "valid_local l" "1 \<le> year l"
    and "one_transition off (local_as_utc_ms l) at"
    and "instant_to_local I t tz = l"
  shows "instant_to_local I (local_to_instant I l tz) tz = l \<and> local_to_instant I l tz \<le> t"
proof -
  let ?p = "local_as_utc_ms l"
  note z = zone_modelD [OF assms(1)]
  have l: "local_of_ms (t + off t) = l" using assms(5) z(1) by simp
  then have "day_of_ms (t + off t) \<noteq> -719469" using assms(2) valid_local_of_ms by blast
  then have p: "?p = t + off t - t mod 1000"
    using local_as_utc_ms_of_ms l whole_second_add [OF z(2)] by metis
  have "pick_instant off ?p + off (pick_instant off ?p) = ?p" "pick_instant off ?p \<le> t"
    using pick_instant_reads [OF assms(4), of t "t mod 1000"] p z(2-4) pivot_props [OF assms(2,3)]
    by (auto simp: abs_less_iff minus_less_iff)
  then show ?thesis
    using local_to_instant_pick [OF assms(1-3)] local_of_ms_of_local [OF assms(2)] z(1) by simp
qed

text \<open>
  Where no instant has the reading (the hour a spring forward skips), the instant returned
  reads as the wanted reading moved forward by exactly the width of the gap.
\<close>

theorem local_to_instant_gap:
  assumes "zone_model I tz off" "valid_local l" "1 \<le> year l"
    and "one_transition off (local_as_utc_ms l) at"
    and "\<forall>t. instant_to_local I t tz \<noteq> l"
  shows "\<exists>gap. 0 < gap \<and>
     gap = off (local_as_utc_ms l + ms_per_day) - off (local_as_utc_ms l - ms_per_day) \<and>
     instant_to_local I (local_to_instant I l tz) tz = local_of_ms (local_as_utc_ms l + gap)"
proof -
  let ?p = "local_as_utc_ms l"
  note z = zone_modelD [OF assms(1)]
  have "t + off t \<noteq> ?p" for t
    using assms(5) z(1) local_of_ms_of_local [OF assms(2)] by metis
  with pick_instant_gap [OF assms(4)] z(3,4)
  have g: "pick_instant off ?p = ?p - off (?p - ms_per_day)"
    "off (?p - ms_per_day) < off (?p + ms_per_day)"
    "off (?p - off (?p - ms_per_day)) = off (?p + ms_per_day)"
    by (auto simp: abs_less_iff minus_less_iff)
  then show ?thesis
    using local_to_instant_pick [OF assms(1-3)] z(1)
    by (intro exI [of _ "off (?p + ms_per_day) - off (?p - ms_per_day)"])
      (simp add: diff_add_eq add_diff_eq)
qed

section \<open>A zone with given offsets\<close>

text \<open>The parts an en-GB formatter prints for a zone whose offsets are known.\<close>

definition en_gb_parts :: "local_date_time \<Rightarrow> (string \<times> string) list" where
  "en_gb_parts l =
     [(''day'', show_nat (nat (day l))), (''literal'', ''/''),
      (''month'', show_nat (nat (month l))), (''literal'', ''/''),
      (''year'', show_nat (nat (if year l \<le> 0 then 1 - year l else year l))),
      (''era'', if year l \<le> 0 then ''BC'' else ''AD''),
      (''hour'', show_nat (nat (hour l))), (''literal'', '':''),
      (''minute'', show_nat (nat (minute l))), (''literal'', '':''),
      (''second'', show_nat (nat (second l)))]"

definition intl_of_offsets :: "(string \<times> (int \<Rightarrow> int)) list \<Rightarrow> intl" where
  "intl_of_offsets zones =
     \<lparr>zone_accepted = (\<lambda>tz. map_of zones tz \<noteq> None),
      format_to_parts = (\<lambda>tz t. case map_of zones tz of
         None \<Rightarrow> [] | Some off \<Rightarrow> en_gb_parts (local_of_ms (t + off t)))\<rparr>"

lemma intl_of_offsets_model:
  assumes "map_of zones tz = Some off"
    and "\<And>t. off t mod 1000 = 0" "\<And>t. \<bar>off t\<bar> < ms_per_day"
  shows "zone_model (intl_of_offsets zones) tz off"
proof -
  have "instant_to_local (intl_of_offsets zones) t tz = local_of_ms (t + off t)" for t
  proof -
    define s where "s = t + off t"
    have "0 \<le> utc_month s" "0 \<le> utc_date s"
      using utc_fields_civil(1) [of s] by (auto simp: civil_date_def)
    then show ?thesis
      using assms(1) unfolding s_def [symmetric]
      by (simp add: instant_to_local_def intl_of_offsets_def en_gb_parts_def read_part_def
          find_part_def local_of_ms_def Let_def s_def [symmetric]
          utc_hours_def utc_minutes_def utc_seconds_def)
  qed
  with assms(2,3) show ?thesis by (simp add: zone_model_def)
qed

text \<open>London in 2026: an hour ahead from 29 March, 01:00 UTC, to 25 October, 01:00 UTC.\<close>

definition london :: "int \<Rightarrow> int" where
  "london t = (if 1774746000000 \<le> t \<and> t < 1792890000000 then 3600000 else 0)"

definition london_intl :: intl where
  "london_intl = intl_of_offsets [(''Europe/London'', london), (''UTC'', \<lambda>_. 0)]"

lemma london_model: "zone_model london_intl ''Europe/London'' london"
  unfolding london_intl_def
  by (rule intl_of_offsets_model) (auto simp: london_def ms_per_day_def)

lemma utc_model: "zone_model london_intl ''UTC'' (\<lambda>_. 0)"
  unfolding london_intl_def
  by (rule intl_of_offsets_model) (auto simp: ms_per_day_def)

definition autumn_reading :: local_date_time where
  "autumn_reading = at_time (ymd 2026 10 25) 1 30 0"

definition spring_reading :: local_date_time where
  "spring_reading = at_time (ymd 2026 3 29) 1 30 0"

lemma reading_simps:
  "valid_local autumn_reading" "1 \<le> year autumn_reading"
  "local_as_utc_ms autumn_reading = 1792891800000"
  "valid_local spring_reading" "1 \<le> year spring_reading"
  "local_as_utc_ms spring_reading = 1774747800000"
  by code_simp+

theorem local_to_instant_earliest_witness:
  "instant_to_local london_intl (local_to_instant london_intl autumn_reading ''Europe/London'')
      ''Europe/London'' = autumn_reading
   \<and> local_to_instant london_intl autumn_reading ''Europe/London'' \<le> 1792888200000"
proof (rule local_to_instant_earliest [OF london_model reading_simps(1,2)])
  show "one_transition london (local_as_utc_ms autumn_reading) 1792890000000"
    by (auto simp: one_transition_def reading_simps london_def ms_per_day_def)
  have "local_of_ms (1792888200000 + london 1792888200000) = autumn_reading" by code_simp
  then show "instant_to_local london_intl 1792888200000 ''Europe/London'' = autumn_reading"
    using zone_modelD(1) [OF london_model] by simp
qed

theorem local_to_instant_gap_witness:
  "\<exists>gap. 0 < gap \<and>
     gap = london (local_as_utc_ms spring_reading + ms_per_day)
             - london (local_as_utc_ms spring_reading - ms_per_day) \<and>
     instant_to_local london_intl
       (local_to_instant london_intl spring_reading ''Europe/London'') ''Europe/London''
       = local_of_ms (local_as_utc_ms spring_reading + gap)"
proof (rule local_to_instant_gap [OF london_model reading_simps(4,5)])
  show "one_transition london (local_as_utc_ms spring_reading) 1774746000000"
    by (auto simp: one_transition_def reading_simps london_def ms_per_day_def)
  show "\<forall>t. instant_to_local london_intl t ''Europe/London'' \<noteq> spring_reading"
  proof
    fix t
    have "local_of_ms (t + london t) \<noteq> spring_reading"
    proof
      assume a: "local_of_ms (t + london t) = spring_reading"
      then have "day_of_ms (t + london t) \<noteq> -719469" using valid_local_of_ms [of "t + london t"] reading_simps(4) by simp
      with a have "t + london t - (t + london t) mod 1000 = 1774747800000"
        using local_as_utc_ms_of_ms [of "t + london t"] reading_simps(6) by simp
      moreover have "0 \<le> (t + london t) mod 1000" "(t + london t) mod 1000 < 1000" by auto
      ultimately have "1774747800000 \<le> t + london t" "t + london t < 1774747801000" by linarith+
      then show False unfolding london_def by (simp split: if_splits)
    qed
    then show "instant_to_local london_intl t ''Europe/London'' \<noteq> spring_reading"
      using zone_modelD(1) [OF london_model] by simp
  qed
qed

end
