(* ===== verification/Rrule.thy ===== *)
theory Rrule
  imports Zoned_Time
begin

text \<open>
  The recurrence rule value object, \<open>packages/kernel/src/recurrence/rrule.vo.ts\<close>: the RFC
  5545 subset, its parser with every error, the canonical text, and equality. Numbers are
  exact, as JavaScript's are below 2 to the 53.

  The lemmas show what the parser accepts (\<open>valid_rule\<close>) and that the canonical text of an
  accepted rule parses back to that rule.
\<close>

section \<open>Rules\<close>

datatype frequency = DAILY | WEEKLY | MONTHLY | YEARLY

datatype weekday = MO | TU | WE | TH | FR | SA | SU

fun frequency_text :: "frequency \<Rightarrow> string" where
  "frequency_text DAILY = ''DAILY''"
| "frequency_text WEEKLY = ''WEEKLY''"
| "frequency_text MONTHLY = ''MONTHLY''"
| "frequency_text YEARLY = ''YEARLY''"

fun weekday_text :: "weekday \<Rightarrow> string" where
  "weekday_text MO = ''MO''"
| "weekday_text TU = ''TU''"
| "weekday_text WE = ''WE''"
| "weekday_text TH = ''TH''"
| "weekday_text FR = ''FR''"
| "weekday_text SA = ''SA''"
| "weekday_text SU = ''SU''"

definition frequencies :: "frequency list" where
  "frequencies = [DAILY, WEEKLY, MONTHLY, YEARLY]"

definition weekdays :: "weekday list" where
  "weekdays = [MO, TU, WE, TH, FR, SA, SU]"

definition frequency_of_text :: "string \<Rightarrow> frequency option" where
  "frequency_of_text s = List.find (\<lambda>f. frequency_text f = s) frequencies"

definition weekday_of_text :: "string \<Rightarrow> weekday option" where
  "weekday_of_text s = List.find (\<lambda>w. weekday_text w = s) weekdays"

record by_day =
  by_weekday :: weekday
  by_ordinal :: "int option"

datatype until =
    UntilDate local_date
  | UntilUtc int
  | UntilLocal local_date_time

record rrule =
  r_freq :: frequency
  r_interval :: int
  r_count :: "int option"
  r_until :: "until option"
  r_by_day :: "by_day list"
  r_by_month_day :: "int list"
  r_by_month :: "int list"
  r_wkst :: weekday

section \<open>The parser\<close>

definition unsupported_parts :: "string list" where
  "unsupported_parts =
     [''BYSETPOS'', ''BYWEEKNO'', ''BYYEARDAY'', ''BYHOUR'', ''BYMINUTE'', ''BYSECOND'',
      ''RDATE'', ''EXDATE'', ''EXRULE'']"

definition unsupported_frequencies :: "string list" where
  "unsupported_frequencies = [''HOURLY'', ''MINUTELY'', ''SECONDLY'']"

definition supported_parts :: "string list" where
  "supported_parts =
     [''FREQ'', ''INTERVAL'', ''COUNT'', ''UNTIL'', ''BYDAY'', ''BYMONTHDAY'', ''BYMONTH'',
      ''WKST'']"

abbreviation invalid :: "string \<Rightarrow> 'a outcome" where
  "invalid reason \<equiv> Inl (RecurrenceInvalid reason)"

definition quoted :: "string \<Rightarrow> string" where
  "quoted s = CHR 0x22 # s @ [CHR 0x22]"

definition parse_positive_integer :: "string \<Rightarrow> int option" where
  "parse_positive_integer s =
     (if all_digits s \<and> read_nat s \<ge> 1 then Some (int (read_nat s)) else None)"

text \<open>\<open>/^(\d{4})(\d{2})(\d{2})(?:T(\d{2})(\d{2})(\d{2})(Z)?)?$/\<close> by position.\<close>

definition number_at :: "nat \<Rightarrow> nat \<Rightarrow> string \<Rightarrow> int" where
  "number_at i n s = int (read_nat (take n (drop i s)))"

definition digits_at :: "nat \<Rightarrow> nat \<Rightarrow> string \<Rightarrow> bool" where
  "digits_at i n s \<longleftrightarrow> i + n \<le> length s \<and> list_all is_digit (take n (drop i s))"

definition matches_until :: "string \<Rightarrow> bool" where
  "matches_until s \<longleftrightarrow> digits_at 0 8 s \<and>
     (length s = 8 \<or>
      digits_at 9 6 s \<and> s ! 8 = CHR ''T'' \<and>
        (length s = 15 \<or> length s = 16 \<and> s ! 15 = CHR ''Z''))"

definition parse_until :: "string \<Rightarrow> until option" where
  "parse_until s =
     (if \<not> matches_until s then None
      else
        (let d = ymd (number_at 0 4 s) (number_at 4 2 s) (number_at 6 2 s) in
         if month d < 1 \<or> month d > 12 \<or> day d < 1 then None
         else if day d > days_in_month (year d) (month d) then None
         else if length s = 8 then Some (UntilDate d)
         else
           (let l = at_time d (number_at 9 2 s) (number_at 11 2 s) (number_at 13 2 s) in
            if hour l > 23 \<or> minute l > 59 \<or> second l > 59 then None
            else if length s = 16
            then Some (UntilUtc
              (date_utc (year l) (month l) (day l) (hour l) (minute l) (second l)))
            else Some (UntilLocal l))))"

text \<open>\<open>/^([A-Z-]+):/i\<close>: the property name and what follows the colon.\<close>

definition property_prefix :: "string \<Rightarrow> (string \<times> string) option" where
  "property_prefix s =
     (let p = takeWhile (\<lambda>c. is_upper c \<or> is_lower c \<or> c = CHR ''-'') s;
          rest = drop (length p) s in
      if p \<noteq> [] \<and> rest \<noteq> [] \<and> hd rest = CHR '':'' then Some (p, tl rest) else None)"

definition strip_property :: "string \<Rightarrow> string outcome" where
  "strip_property body =
     (case property_prefix body of
        None \<Rightarrow> Inr body
      | Some (p, rest) \<Rightarrow>
          (let property = to_upper p in
           if property \<in> set [''RDATE'', ''EXDATE'', ''EXRULE'']
           then Inl (RecurrenceUnsupported property)
           else if property \<noteq> ''RRULE''
           then invalid (''Expected an RRULE, found the '' @ property @ '' property.'')
           else Inr rest))"

fun parse_segments ::
  "(string \<times> string) list \<Rightarrow> string list \<Rightarrow> (string \<times> string) list outcome"
where
  "parse_segments seen [] = Inr seen"
| "parse_segments seen (segment # rest) =
     (let lhs = takeWhile (\<lambda>c. c \<noteq> CHR ''='') segment;
          name = to_upper lhs;
          text = to_upper (drop (length lhs + 1) segment) in
      if lhs = [] \<or> lhs = segment
      then invalid (quoted segment @ '' is not a NAME=VALUE pair.'')
      else if text = [] then invalid (name @ '' has no value.'')
      else if map_of seen name \<noteq> None then invalid (name @ '' appears more than once.'')
      else parse_segments (seen @ [(name, text)]) rest)"

definition check_part_names :: "(string \<times> string) list \<Rightarrow> unit outcome" where
  "check_part_names seen =
     (case List.find (\<lambda>n. n \<in> set unsupported_parts) (map fst seen) of
        Some n \<Rightarrow> Inl (RecurrenceUnsupported n)
      | None \<Rightarrow>
          (case List.find (\<lambda>n. n \<notin> set supported_parts) (map fst seen) of
             Some n \<Rightarrow> invalid (n @ '' is not an RFC 5545 rule part.'')
           | None \<Rightarrow> Inr ()))"

definition parse_freq :: "(string \<times> string) list \<Rightarrow> frequency outcome" where
  "parse_freq seen =
     (case map_of seen ''FREQ'' of
        None \<Rightarrow> invalid ''FREQ is required.''
      | Some v \<Rightarrow>
          if v \<in> set unsupported_frequencies then Inl (RecurrenceUnsupported (''FREQ='' @ v))
          else (case frequency_of_text v of
                  None \<Rightarrow> invalid (''FREQ='' @ v @ '' is not a recurrence frequency.'')
                | Some f \<Rightarrow> Inr f))"

definition parse_interval :: "(string \<times> string) list \<Rightarrow> int outcome" where
  "parse_interval seen =
     (case map_of seen ''INTERVAL'' of
        None \<Rightarrow> Inr 1
      | Some v \<Rightarrow>
          (case parse_positive_integer v of
             None \<Rightarrow> invalid ''INTERVAL must be a positive integer.''
           | Some n \<Rightarrow> Inr n))"

definition parse_count :: "(string \<times> string) list \<Rightarrow> int option outcome" where
  "parse_count seen =
     (case map_of seen ''COUNT'' of
        None \<Rightarrow> Inr None
      | Some v \<Rightarrow>
          (case parse_positive_integer v of
             None \<Rightarrow> invalid ''COUNT must be a positive integer.''
           | Some n \<Rightarrow> Inr (Some n)))"

definition parse_until_part :: "(string \<times> string) list \<Rightarrow> until option outcome" where
  "parse_until_part seen =
     (case map_of seen ''UNTIL'' of
        None \<Rightarrow> Inr None
      | Some v \<Rightarrow>
          (case parse_until v of
             None \<Rightarrow> invalid ''UNTIL must be a DATE or DATE-TIME value.''
           | Some u \<Rightarrow> Inr (Some u)))"

subsection \<open>The list-valued parts\<close>

text \<open>\<open>/^[+-]?\d{1,2}$/\<close>, and \<open>Number\<close> of such a text.\<close>

definition unsigned_part :: "string \<Rightarrow> string" where
  "unsigned_part s =
     (case s of [] \<Rightarrow> []
      | c # cs \<Rightarrow> if c = CHR ''+'' \<or> c = CHR ''-'' then cs else s)"

definition matches_signed :: "string \<Rightarrow> bool" where
  "matches_signed s \<longleftrightarrow>
     (let d = unsigned_part s in (length d = 1 \<or> length d = 2) \<and> list_all is_digit d)"

definition read_signed :: "string \<Rightarrow> int" where
  "read_signed s =
     (let n = int (read_nat (unsigned_part s)) in
      if s \<noteq> [] \<and> hd s = CHR ''-'' then - n else n)"

text \<open>\<open>/^([+-]?\d{1,2})?([A-Z]{2})$/\<close>: the ordinal's text, if any, and the weekday's.\<close>

definition match_by_day :: "string \<Rightarrow> (string option \<times> string) option" where
  "match_by_day item =
     (let n = length item - 2; ordinal = take n item; wd = drop n item in
      if length item < 2 \<or> \<not> list_all is_upper wd then None
      else if ordinal = [] then Some (None, wd)
      else if matches_signed ordinal then Some (Some ordinal, wd) else None)"

definition parse_by_day_item :: "frequency \<Rightarrow> string \<Rightarrow> by_day outcome" where
  "parse_by_day_item freq item =
     (case match_by_day item of
        None \<Rightarrow> invalid (''BYDAY value '' @ quoted item @ '' is not a weekday.'')
      | Some (ot, wt) \<Rightarrow>
          (case weekday_of_text wt of
             None \<Rightarrow> invalid (''BYDAY value '' @ quoted item @ '' is not a weekday.'')
           | Some wd \<Rightarrow>
               (case map_option read_signed ot of
                  None \<Rightarrow> Inr \<lparr>by_weekday = wd, by_ordinal = None\<rparr>
                | Some ordinal \<Rightarrow>
                    if ordinal = 0 \<or> \<bar>ordinal\<bar> > 53
                    then invalid (''BYDAY ordinal in '' @ quoted item
                           @ '' must be between -53 and 53, not zero.'')
                    else if freq = DAILY \<or> freq = WEEKLY
                    then invalid ''BYDAY ordinals are only meaningful with FREQ=MONTHLY or YEARLY.''
                    else if freq = MONTHLY \<and> \<bar>ordinal\<bar> > 5
                    then invalid ''A monthly BYDAY ordinal must be between -5 and 5.''
                    else Inr \<lparr>by_weekday = wd, by_ordinal = Some ordinal\<rparr>)))"

definition parse_month_day_item :: "string \<Rightarrow> int outcome" where
  "parse_month_day_item item =
     (if \<not> matches_signed item then invalid (''BYMONTHDAY value '' @ quoted item @ '' is not a day.'')
      else if read_signed item = 0 \<or> \<bar>read_signed item\<bar> > 31
      then invalid ''BYMONTHDAY must be between -31 and 31, not zero.''
      else Inr (read_signed item))"

definition parse_month_item :: "string \<Rightarrow> int outcome" where
  "parse_month_item item =
     (if \<not> (all_digits item \<and> length item \<le> 2) \<or> read_nat item < 1 \<or> read_nat item > 12
      then invalid (''BYMONTH value '' @ quoted item @ '' is not a month.'')
      else Inr (int (read_nat item)))"

fun parse_items :: "(string \<Rightarrow> 'a outcome) \<Rightarrow> string list \<Rightarrow> 'a list outcome" where
  "parse_items f [] = Inr []"
| "parse_items f (x # xs) =
     and_then (f x) (\<lambda>y. and_then (parse_items f xs) (\<lambda>ys. Inr (y # ys)))"

definition parse_by_day :: "frequency \<Rightarrow> (string \<times> string) list \<Rightarrow> by_day list outcome" where
  "parse_by_day freq seen =
     (case map_of seen ''BYDAY'' of
        None \<Rightarrow> Inr []
      | Some v \<Rightarrow> parse_items (parse_by_day_item freq) (split_on (CHR '','') v))"

definition parse_by_month_day :: "frequency \<Rightarrow> (string \<times> string) list \<Rightarrow> int list outcome" where
  "parse_by_month_day freq seen =
     (case map_of seen ''BYMONTHDAY'' of
        None \<Rightarrow> Inr []
      | Some v \<Rightarrow>
          if freq = WEEKLY then invalid ''BYMONTHDAY cannot be used with FREQ=WEEKLY.''
          else parse_items parse_month_day_item (split_on (CHR '','') v))"

definition parse_by_month :: "(string \<times> string) list \<Rightarrow> int list outcome" where
  "parse_by_month seen =
     (case map_of seen ''BYMONTH'' of
        None \<Rightarrow> Inr []
      | Some v \<Rightarrow> parse_items parse_month_item (split_on (CHR '','') v))"

definition parse_wkst :: "(string \<times> string) list \<Rightarrow> weekday outcome" where
  "parse_wkst seen =
     (case map_of seen ''WKST'' of
        None \<Rightarrow> Inr MO
      | Some v \<Rightarrow>
          (case weekday_of_text v of
             None \<Rightarrow> invalid (''WKST='' @ v @ '' is not a weekday.'')
           | Some w \<Rightarrow> Inr w))"

subsection \<open>\<open>RecurrenceRule.parse\<close>\<close>

definition parse_parts :: "(string \<times> string) list \<Rightarrow> rrule outcome" where
  "parse_parts seen =
     and_then (check_part_names seen) (\<lambda>_.
     and_then (parse_freq seen) (\<lambda>freq.
     and_then (parse_interval seen) (\<lambda>interval.
     and_then (parse_count seen) (\<lambda>count.
     and_then (parse_until_part seen) (\<lambda>until.
     if count \<noteq> None \<and> until \<noteq> None
     then invalid ''COUNT and UNTIL cannot both be present (RFC 5545 3.3.10).''
     else
     and_then (parse_by_day freq seen) (\<lambda>by_days.
     and_then (parse_by_month_day freq seen) (\<lambda>month_days.
     and_then (parse_by_month seen) (\<lambda>months.
     and_then (parse_wkst seen) (\<lambda>wkst.
     Inr \<lparr>r_freq = freq, r_interval = interval, r_count = count, r_until = until,
          r_by_day = by_days, r_by_month_day = month_days, r_by_month = months,
          r_wkst = wkst\<rparr>)))))))))"

definition rule_parse :: "string \<Rightarrow> rrule outcome" where
  "rule_parse text =
     (let body = trim text in
      if body = [] then invalid ''A recurrence rule cannot be empty.''
      else
        and_then (strip_property body) (\<lambda>body.
        and_then (parse_segments [] (split_on (CHR '';'') body)) parse_parts))"

section \<open>The canonical text\<close>

definition until_text :: "until \<Rightarrow> string" where
  "until_text u =
     (case u of
        UntilDate d \<Rightarrow> pad_num 4 (year d) @ pad_num 2 (month d) @ pad_num 2 (day d)
      | UntilUtc i \<Rightarrow>
          pad_num 4 (utc_year i) @ pad_num 2 (utc_month i) @ pad_num 2 (utc_date i) @ ''T''
            @ pad_num 2 (utc_hours i) @ pad_num 2 (utc_minutes i) @ pad_num 2 (utc_seconds i)
            @ ''Z''
      | UntilLocal l \<Rightarrow>
          pad_num 4 (year l) @ pad_num 2 (month l) @ pad_num 2 (day l) @ ''T''
            @ pad_num 2 (hour l) @ pad_num 2 (minute l) @ pad_num 2 (second l))"

definition by_day_text :: "by_day \<Rightarrow> string" where
  "by_day_text d =
     (case by_ordinal d of None \<Rightarrow> [] | Some n \<Rightarrow> show_int n) @ weekday_text (by_weekday d)"

definition rule_parts :: "rrule \<Rightarrow> (string \<times> string) list" where
  "rule_parts r =
     [(''FREQ'', frequency_text (r_freq r))]
     @ (if r_interval r \<noteq> 1 then [(''INTERVAL'', show_int (r_interval r))] else [])
     @ (case r_count r of None \<Rightarrow> [] | Some n \<Rightarrow> [(''COUNT'', show_int n)])
     @ (case r_until r of None \<Rightarrow> [] | Some u \<Rightarrow> [(''UNTIL'', until_text u)])
     @ (if r_by_month r \<noteq> []
        then [(''BYMONTH'', join_with (CHR '','') (map show_int (r_by_month r)))] else [])
     @ (if r_by_month_day r \<noteq> []
        then [(''BYMONTHDAY'', join_with (CHR '','') (map show_int (r_by_month_day r)))] else [])
     @ (if r_by_day r \<noteq> []
        then [(''BYDAY'', join_with (CHR '','') (map by_day_text (r_by_day r)))] else [])
     @ (if r_wkst r \<noteq> MO then [(''WKST'', weekday_text (r_wkst r))] else [])"

definition rule_to_string :: "rrule \<Rightarrow> string" where
  "rule_to_string r =
     join_with (CHR '';'') (map (\<lambda>(n, v). n @ ''='' @ v) (rule_parts r))"

definition rule_equals :: "rrule \<Rightarrow> rrule \<Rightarrow> bool" where
  "rule_equals a b \<longleftrightarrow> rule_to_string a = rule_to_string b"

section \<open>The rules the parser accepts\<close>

definition valid_until :: "until \<Rightarrow> bool" where
  "valid_until u =
     (case u of
        UntilDate d \<Rightarrow> valid_date d \<and> 0 \<le> year d \<and> year d \<le> 9999
      | UntilUtc i \<Rightarrow> i mod 1000 = 0 \<and> 100 \<le> utc_year i \<and> utc_year i \<le> 9999
      | UntilLocal l \<Rightarrow> valid_local l \<and> 0 \<le> year l \<and> year l \<le> 9999)"

definition valid_by_day :: "frequency \<Rightarrow> by_day \<Rightarrow> bool" where
  "valid_by_day freq d =
     (case by_ordinal d of None \<Rightarrow> True
      | Some n \<Rightarrow> n \<noteq> 0 \<and> \<bar>n\<bar> \<le> 53 \<and> freq \<noteq> DAILY \<and> freq \<noteq> WEEKLY
          \<and> (freq = MONTHLY \<longrightarrow> \<bar>n\<bar> \<le> 5))"

definition valid_rule :: "rrule \<Rightarrow> bool" where
  "valid_rule r \<longleftrightarrow>
     1 \<le> r_interval r
     \<and> (case r_count r of None \<Rightarrow> True | Some n \<Rightarrow> 1 \<le> n \<and> r_until r = None)
     \<and> (case r_until r of None \<Rightarrow> True | Some u \<Rightarrow> valid_until u)
     \<and> list_all (valid_by_day (r_freq r)) (r_by_day r)
     \<and> (r_by_month_day r \<noteq> [] \<longrightarrow> r_freq r \<noteq> WEEKLY)
     \<and> list_all (\<lambda>n. n \<noteq> 0 \<and> \<bar>n\<bar> \<le> 31) (r_by_month_day r)
     \<and> list_all (\<lambda>n. 1 \<le> n \<and> n \<le> 12) (r_by_month r)"

lemma number_at_range:
  "digits_at i n s \<Longrightarrow> 0 \<le> number_at i n s \<and> number_at i n s < 10 ^ n"
proof -
  have r: "list_all is_digit xs \<Longrightarrow> read_nat xs < 10 ^ length xs" for xs
  proof (induction xs rule: rev_induct)
    case (snoc c xs)
    then have "of_char c \<le> (57::nat)" by (simp add: is_digit_def)
    then have "digit_val c < 10" unfolding digit_val_def by linarith
    with snoc show ?case by simp
  qed simp
  assume "digits_at i n s"
  then have "length (take n (drop i s)) = n" "list_all is_digit (take n (drop i s))"
    by (auto simp: digits_at_def)
  with r [of "take n (drop i s)"] have "read_nat (take n (drop i s)) < 10 ^ n" by metis
  then have "int (read_nat (take n (drop i s))) < int (10 ^ n)" by (simp only: of_nat_less_iff)
  then show ?thesis by (simp add: number_at_def)
qed

lemma digits_at_sub:
  "digits_at i n s \<Longrightarrow> i \<le> j \<Longrightarrow> j + k \<le> i + n \<Longrightarrow> digits_at j k s"
proof -
  assume a: "digits_at i n s" "i \<le> j" "j + k \<le> i + n"
  have "take k (drop j s) = take k (drop (j - i) (take n (drop i s)))"
    using a(2,3) by (simp add: drop_take min_def)
  then have "set (take k (drop j s)) \<subseteq> set (take n (drop i s))"
    by (metis set_take_subset set_drop_subset subset_trans)
  with a show ?thesis by (auto simp: digits_at_def list_all_iff)
qed

lemma valid_local_at_time:
  "valid_date d \<Longrightarrow> 0 \<le> h \<Longrightarrow> h < 24 \<Longrightarrow> 0 \<le> mi \<Longrightarrow> mi < 60 \<Longrightarrow> 0 \<le> s \<Longrightarrow> s < 60 \<Longrightarrow>
     valid_local (at_time d h mi s)"
  by (simp add: valid_local_def date_of_def at_time_def)

lemma date_utc_valid:
  assumes "valid_local l"
  defines "i \<equiv> date_utc (year l) (month l) (day l) (hour l) (minute l) (second l)"
  shows "i mod 1000 = 0" "utc_year i = utc_read_year (year l)"
    "utc_month i = month l" "utc_date i = day l"
    "utc_hours i = hour l" "utc_minutes i = minute l" "utc_seconds i = second l"
proof -
  let ?y = "utc_read_year (year l)"
  have c: "civil_date ?y (month l) (day l)"
    using civil_read_year [of "date_of l"] assms(1) by (simp add: valid_local_def)
  have i: "i = make_day ?y (month l) (day l) * ms_per_day + clock_ms l"
    by (simp add: i_def date_utc_def utc_read_year_def Let_def clock_ms_def)
  have "1000 dvd i" unfolding i clock_ms_def ms_per_day_def by (intro dvd_add dvd_mult) simp_all
  then show "i mod 1000 = 0" by simp
  have "day_of_ms i = make_day ?y (month l) (day l)"
    using i clock_ms_range [OF assms(1)] by simp
  from utc_fields_make_day [OF c this] clock_fields [OF assms(1) i]
  show "utc_year i = utc_read_year (year l)"
    "utc_month i = month l" "utc_date i = day l"
    "utc_hours i = hour l" "utc_minutes i = minute l" "utc_seconds i = second l" by simp_all
qed

lemma at_time_sel [simp]:
  "year (at_time d h mi s) = year d" "month (at_time d h mi s) = month d"
  "day (at_time d h mi s) = day d" "hour (at_time d h mi s) = h"
  "minute (at_time d h mi s) = mi" "second (at_time d h mi s) = s"
  by (simp_all add: at_time_def)

lemma parse_until_valid: "parse_until s = Some u \<Longrightarrow> valid_until u"
proof -
  assume p: "parse_until s = Some u"
  define d where "d = ymd (number_at 0 4 s) (number_at 4 2 s) (number_at 6 2 s)"
  define l where "l = at_time d (number_at 9 2 s) (number_at 11 2 s) (number_at 13 2 s)"
  have m: "matches_until s" using p by (simp add: parse_until_def split: if_splits)
  then have y: "0 \<le> year d" "year d \<le> 9999"
    using number_at_range [OF digits_at_sub [of 0 8 s 0 4]]
    by (auto simp: d_def matches_until_def)
  have v: "valid_date d"
    using p m unfolding parse_until_def Let_def d_def [symmetric]
    by (auto simp: valid_date_def split: if_splits)
  show ?thesis
  proof (cases "length s = 8")
    case True
    with p m v y show ?thesis unfolding parse_until_def Let_def d_def [symmetric]
      by (auto simp: valid_until_def split: if_splits)
  next
    case False
    then have dg: "digits_at 9 6 s" using m by (simp add: matches_until_def)
    have "0 \<le> number_at 9 2 s" "0 \<le> number_at 11 2 s" "0 \<le> number_at 13 2 s"
      by (simp_all add: number_at_def)
    then have vl: "valid_local l"
      using p m False v unfolding parse_until_def Let_def d_def [symmetric] l_def [symmetric]
      by (auto simp: l_def intro!: valid_local_at_time split: if_splits)
    have u: "u = UntilLocal l \<or>
        u = UntilUtc (date_utc (year l) (month l) (day l) (hour l) (minute l) (second l))"
      using p m False unfolding parse_until_def Let_def d_def [symmetric] l_def [symmetric]
      by (auto split: if_splits)
    have "year l = year d" by (simp add: l_def)
    with u vl y date_utc_valid(1,2) [OF vl] show ?thesis
      by (auto simp: valid_until_def utc_read_year_def)
  qed
qed

lemma parse_items_Inr:
  "parse_items f xs = Inr ys \<longleftrightarrow> list_all2 (\<lambda>x y. f x = Inr y) xs ys"
  by (induction xs arbitrary: ys)
    (auto simp: and_then_Inr list_all2_Cons1)

lemma parse_items_all:
  "parse_items f xs = Inr ys \<Longrightarrow> (\<And>x y. f x = Inr y \<Longrightarrow> P y) \<Longrightarrow> list_all P ys"
  by (fastforce simp: parse_items_Inr list_all_length list_all2_conv_all_nth)

lemma parse_parts_valid: "parse_parts seen = Inr r \<Longrightarrow> valid_rule r"
proof -
  assume "parse_parts seen = Inr r"
  then obtain f i c u bd md bm w where
    p: "parse_interval seen = Inr i" "parse_count seen = Inr c" "parse_until_part seen = Inr u"
      "\<not> (c \<noteq> None \<and> u \<noteq> None)" "parse_by_day f seen = Inr bd"
      "parse_by_month_day f seen = Inr md" "parse_by_month seen = Inr bm"
    and r: "r = \<lparr>r_freq = f, r_interval = i, r_count = c, r_until = u, r_by_day = bd,
      r_by_month_day = md, r_by_month = bm, r_wkst = w\<rparr>"
    by (auto simp: parse_parts_def and_then_Inr split: if_splits)
  have "1 \<le> i" using p(1)
    by (auto simp: parse_interval_def parse_positive_integer_def split: option.splits if_splits)
  moreover have "case c of None \<Rightarrow> True | Some n \<Rightarrow> 1 \<le> n" using p(2)
    by (auto simp: parse_count_def parse_positive_integer_def split: option.splits if_splits)
  moreover have "case u of None \<Rightarrow> True | Some v \<Rightarrow> valid_until v" using p(3)
    by (auto simp: parse_until_part_def dest: parse_until_valid split: option.splits)
  moreover have "list_all (valid_by_day f) bd" using p(5)
    by (auto simp: parse_by_day_def parse_by_day_item_def valid_by_day_def
        elim!: parse_items_all split: option.splits if_splits)
  moreover have "md \<noteq> [] \<longrightarrow> f \<noteq> WEEKLY" using p(6)
    by (auto simp: parse_by_month_day_def split: option.splits if_splits)
  moreover have "list_all (\<lambda>n. n \<noteq> 0 \<and> \<bar>n\<bar> \<le> 31) md" using p(6)
    by (auto simp: parse_by_month_day_def parse_month_day_item_def
        elim!: parse_items_all split: option.splits if_splits)
  moreover have "list_all (\<lambda>n. 1 \<le> n \<and> n \<le> 12) bm" using p(7)
    by (auto simp: parse_by_month_def parse_month_item_def
        elim!: parse_items_all split: option.splits if_splits)
  ultimately show ?thesis using p(4) by (auto simp: r valid_rule_def split: option.splits)
qed

lemma rule_parse_valid: "rule_parse s = Inr r \<Longrightarrow> valid_rule r"
  by (auto simp: rule_parse_def Let_def and_then_Inr split: if_splits intro: parse_parts_valid)

section \<open>The round trip\<close>

subsection \<open>Reading back each value\<close>

definition part_char :: "char \<Rightarrow> bool" where
  "part_char c \<longleftrightarrow> is_digit c \<or> is_upper c \<or> c = CHR ''-'' \<or> c = CHR '',''"

lemma part_char_props:
  assumes "part_char c"
  shows "to_upper_char c = c" "c \<noteq> CHR '';''" "c \<noteq> CHR ''=''" "\<not> is_space c"
proof -
  have "\<not> is_lower c" using assms by (auto simp: part_char_def is_lower_def is_digit_def is_upper_def)
  then show "to_upper_char c = c" by (simp add: to_upper_char_def)
  show "c \<noteq> CHR '';''" "c \<noteq> CHR ''=''" "\<not> is_space c"
    using assms by (auto simp: part_char_def is_space_def is_digit_def is_upper_def Let_def)
qed

lemma to_upper_part: "list_all part_char s \<Longrightarrow> to_upper s = s"
  by (induction s) (auto simp: to_upper_def part_char_props)

lemma digits_part: "list_all is_digit s \<Longrightarrow> list_all part_char s"
  by (auto simp: list_all_iff part_char_def)

lemma show_int_part: "list_all part_char (show_int i)"
  using show_nat_digits by (auto simp: show_int_def digits_part part_char_def)

lemma show_int_comma: "CHR '','' \<notin> set (show_int i)"
proof -
  have "CHR '','' \<notin> set (show_nat n)" for n
    using show_nat_digits [of n] by (auto simp: list_all_iff is_digit_def)
  then show ?thesis by (auto simp: show_int_def)
qed

lemma pad_num_part: "0 \<le> i \<Longrightarrow> list_all part_char (pad_num w i)"
  by (simp add: digits_part pad_num_digits)

lemma length_show_small: "0 \<le> i \<Longrightarrow> i < 100 \<Longrightarrow> length (show_nat (nat i)) \<le> 2"
  using length_show_nat [of "nat i" 2] by (simp add: nat_less_iff)

lemma hd_show_nat: "hd (show_nat n) \<noteq> CHR ''+''" "hd (show_nat n) \<noteq> CHR ''-''"
  using show_nat_digits [of n] show_nat_nonempty [of n]
  by (cases "show_nat n"; auto simp: is_digit_def)+

lemma unsigned_show_int [simp]: "unsigned_part (show_int i) = show_nat (nat \<bar>i\<bar>)"
proof (cases "i < 0")
  case False
  then show ?thesis
    using hd_show_nat [of "nat i"] show_nat_nonempty [of "nat i"]
    by (cases "show_nat (nat i)") (auto simp: show_int_def unsigned_part_def)
qed (simp add: show_int_def unsigned_part_def)

lemma read_signed_show_int [simp]: "read_signed (show_int i) = i"
  using hd_show_nat(2) [of "nat i"] show_nat_nonempty [of "nat i"]
  by (simp add: read_signed_def Let_def) (simp add: show_int_def)

lemma matches_signed_show_int: "\<bar>i\<bar> < 100 \<Longrightarrow> matches_signed (show_int i)"
  using length_show_small [of "\<bar>i\<bar>"] show_nat_nonempty [of "nat \<bar>i\<bar>"] show_nat_digits
  by (cases "length (show_nat (nat \<bar>i\<bar>))") (auto simp: matches_signed_def Let_def)

lemma parse_positive_show: "1 \<le> n \<Longrightarrow> parse_positive_integer (show_int n) = Some n"
  by (simp add: parse_positive_integer_def show_int_def)

lemma frequency_of_text_text [simp]: "frequency_of_text (frequency_text f) = Some f"
  by (cases f) (simp_all add: frequency_of_text_def frequencies_def)

lemma weekday_of_text_text [simp]: "weekday_of_text (weekday_text w) = Some w"
  by (cases w) (simp_all add: weekday_of_text_def weekdays_def)

lemma weekday_text_props:
  "length (weekday_text w) = 2" "list_all is_upper (weekday_text w)"
  by (cases w; simp add: is_upper_def)+

lemma parse_by_day_text:
  assumes "valid_by_day freq d"
  shows "parse_by_day_item freq (by_day_text d) = Inr d"
proof (cases "by_ordinal d")
  case None
  then have "match_by_day (by_day_text d) = Some (None, weekday_text (by_weekday d))"
    by (simp add: match_by_day_def by_day_text_def weekday_text_props)
  with None show ?thesis by (simp add: parse_by_day_item_def)
next
  case (Some n)
  with assms have n: "\<bar>n\<bar> < 100" "show_int n \<noteq> []"
    by (auto simp: valid_by_day_def show_int_def)
  then have "match_by_day (by_day_text d) = Some (Some (show_int n), weekday_text (by_weekday d))"
    using Some by (simp add: match_by_day_def by_day_text_def weekday_text_props matches_signed_show_int)
  with Some assms show ?thesis
    by (auto simp: parse_by_day_item_def valid_by_day_def)
qed

lemma parse_items_map:
  "list_all P ys \<Longrightarrow> (\<And>y. P y \<Longrightarrow> f (g y) = Inr y) \<Longrightarrow> parse_items f (map g ys) = Inr ys"
  by (induction ys) auto

lemma split_shown:
  "xs \<noteq> [] \<Longrightarrow> (\<And>x. x \<in> set xs \<Longrightarrow> CHR '','' \<notin> set (g x)) \<Longrightarrow>
     split_on (CHR '','') (join_with (CHR '','') (map g xs)) = map g xs"
  by (rule split_join) auto

lemma by_day_text_part:
  "list_all part_char (by_day_text d)" "CHR '','' \<notin> set (by_day_text d)"
proof -
  have "list_all part_char (weekday_text w)" "CHR '','' \<notin> set (weekday_text w)" for w
    using weekday_text_props(2) [of w] by (auto simp: list_all_iff part_char_def is_upper_def)
  then show "list_all part_char (by_day_text d)" "CHR '','' \<notin> set (by_day_text d)"
    by (auto simp: by_day_text_def show_int_part show_int_comma split: option.splits)
qed

lemma parse_until_date_text:
  assumes "length a = 4" "length b = 2" "length c = 2" "list_all is_digit (a @ b @ c)"
  shows "digits_at 0 8 (a @ b @ c @ z)" "number_at 0 4 (a @ b @ c @ z) = int (read_nat a)"
    "number_at 4 2 (a @ b @ c @ z) = int (read_nat b)"
    "number_at 6 2 (a @ b @ c @ z) = int (read_nat c)"
  using assms by (simp_all add: digits_at_def number_at_def)

lemma parse_until_time_text:
  fixes z :: string
  assumes "length a = 4" "length b = 2" "length c = 2"
    and "length d = 2" "length e = 2" "length f = 2" "list_all is_digit (d @ e @ f)"
  defines "s \<equiv> a @ b @ c @ ''T'' @ d @ e @ f @ z"
  shows "digits_at 9 6 s" "s ! 8 = CHR ''T''" "number_at 9 2 s = int (read_nat d)"
    "number_at 11 2 s = int (read_nat e)" "number_at 13 2 s = int (read_nat f)"
  using assms by (simp_all add: digits_at_def number_at_def nth_append)

definition stamp_text :: "local_date_time \<Rightarrow> string" where
  "stamp_text l = pad_num 4 (year l) @ pad_num 2 (month l) @ pad_num 2 (day l) @ ''T''
     @ pad_num 2 (hour l) @ pad_num 2 (minute l) @ pad_num 2 (second l)"

lemma until_text_stamp:
  "until_text (UntilUtc i) = stamp_text (local_of_ms i) @ ''Z''"
  "until_text (UntilLocal l) = stamp_text l"
  by (simp_all add: until_text_def stamp_text_def local_of_ms_def)

lemma two_digits:
  "0 \<le> i \<Longrightarrow> i < 100 \<Longrightarrow> length (pad_num 2 i) = 2"
  "0 \<le> i \<Longrightarrow> i \<le> 9999 \<Longrightarrow> length (pad_num 4 i) = 4"
  by (simp_all add: length_pad_num)

lemma at_time_date_of [simp]: "at_time (ymd (year l) (month l) (day l)) (hour l) (minute l) (second l) = l"
  by (cases l) (simp add: at_time_def ymd_def)

lemma valid_date_bounds:
  "valid_date d \<Longrightarrow> 1 \<le> month d \<and> month d \<le> 12 \<and> 1 \<le> day d \<and> day d \<le> 31
     \<and> day d \<le> days_in_month (year d) (month d)"
  using valid_date_day_31 [of d] by (auto simp: valid_date_def)

lemma parse_until_stamp:
  assumes l: "valid_local l" "0 \<le> year l" "year l \<le> 9999" and z: "z = [] \<or> z = ''Z''"
  shows "parse_until (stamp_text l @ z) = Some
    (if z = [] then UntilLocal l
     else UntilUtc (date_utc (year l) (month l) (day l) (hour l) (minute l) (second l)))"
proof -
  have d: "1 \<le> month l" "month l \<le> 12" "1 \<le> day l" "day l \<le> 31"
    "day l \<le> days_in_month (year l) (month l)"
    and c: "0 \<le> hour l" "hour l < 24" "0 \<le> minute l" "minute l < 60" "0 \<le> second l" "second l < 60"
    using l valid_date_bounds [of "date_of l"] by (auto simp: valid_local_def)
  let ?s = "pad_num 4 (year l) @ pad_num 2 (month l) @ pad_num 2 (day l) @ ''T''
     @ pad_num 2 (hour l) @ pad_num 2 (minute l) @ pad_num 2 (second l) @ z"
  have len: "length (pad_num 4 (year l)) = 4" "length (pad_num 2 (month l)) = 2"
    "length (pad_num 2 (day l)) = 2" "length (pad_num 2 (hour l)) = 2"
    "length (pad_num 2 (minute l)) = 2" "length (pad_num 2 (second l)) = 2"
    using l d c by (simp_all add: two_digits)
  have dg: "list_all is_digit (pad_num 4 (year l) @ pad_num 2 (month l) @ pad_num 2 (day l))"
    "list_all is_digit (pad_num 2 (hour l) @ pad_num 2 (minute l) @ pad_num 2 (second l))"
    using l d c by (simp_all add: pad_num_digits)
  note D = parse_until_date_text [OF len(1-3) dg(1),
      of "''T'' @ pad_num 2 (hour l) @ pad_num 2 (minute l) @ pad_num 2 (second l) @ z"]
  note T = parse_until_time_text [OF len dg(2), of z]
  define s where "s = ?s"
  have "matches_until ?s" "(length ?s = 16) = (z \<noteq> [])" "length ?s \<noteq> 8"
    using D(1) T(1,2) z len by (auto simp: matches_until_def nth_append)
  note m = this [folded s_def]
  have n: "number_at 0 4 s = year l" "number_at 4 2 s = month l" "number_at 6 2 s = day l"
    "number_at 9 2 s = hour l" "number_at 11 2 s = minute l" "number_at 13 2 s = second l"
    using D(2-) T(3-) l d c unfolding s_def by (simp_all only: read_pad_num nat_0_le)
  have "stamp_text l @ z = s" by (simp add: stamp_text_def s_def)
  then show ?thesis using m n d c by (simp add: parse_until_def)
qed

lemma parse_until_text: "valid_until u \<Longrightarrow> parse_until (until_text u) = Some u"
proof (cases u)
  case (UntilDate d)
  assume "valid_until u"
  with UntilDate have d: "valid_date d" "0 \<le> year d" "year d \<le> 9999" by (simp_all add: valid_until_def)
  note b = valid_date_bounds [OF d(1)]
  have len: "length (pad_num 4 (year d)) = 4" "length (pad_num 2 (month d)) = 2"
    "length (pad_num 2 (day d)) = 2" using d b by (simp_all add: two_digits)
  have dg: "list_all is_digit (pad_num 4 (year d) @ pad_num 2 (month d) @ pad_num 2 (day d))"
    using d b by (simp add: pad_num_digits)
  note D = parse_until_date_text [OF len dg, of "[]", simplified append_Nil2]
  show ?thesis using D len d b
    by (simp add: UntilDate until_text_def parse_until_def Let_def matches_until_def)
next
  case (UntilUtc i)
  assume "valid_until u"
  with UntilUtc have i: "i mod 1000 = 0" "100 \<le> utc_year i" "utc_year i \<le> 9999"
    by (simp_all add: valid_until_def)
  define l where "l = local_of_ms i"
  have y: "year l = utc_year i" by (simp add: l_def local_of_ms_def)
  have "day_of_ms i \<noteq> -719469"
    using i(2) utc_fields_make_day(1) [OF civil_lost, of i] make_day_lost by auto
  then have v: "valid_local l" and ms: "local_as_utc_ms l = i"
    using i(1) by (simp_all add: l_def valid_local_of_ms local_as_utc_ms_of_ms)
  have "date_utc (year l) (month l) (day l) (hour l) (minute l) (second l) = i"
    using ms i(2) y by (simp add: local_as_utc_ms_def Let_def)
  then show ?thesis
    using parse_until_stamp [OF v, of "''Z''"] i y
    by (simp add: UntilUtc until_text_def stamp_text_def l_def local_of_ms_def)
next
  case (UntilLocal l)
  assume "valid_until u"
  then show ?thesis using parse_until_stamp [of l "[]"]
    by (simp add: UntilLocal valid_until_def until_text_def stamp_text_def)
qed

lemma valid_utc_local: "100 \<le> utc_year i \<Longrightarrow> valid_local (local_of_ms i)"
  using utc_fields_make_day(1) [OF civil_lost, of i] make_day_lost
  by (auto simp: valid_local_of_ms)

lemma until_text_part: "valid_until u \<Longrightarrow> list_all part_char (until_text u)"
proof -
  have l: "list_all part_char (stamp_text l)" if "valid_local l" "0 \<le> year l" for l
    using that valid_date_bounds [of "date_of l"]
    by (auto simp: stamp_text_def valid_local_def pad_num_part part_char_def is_upper_def)
  have z: "part_char (CHR ''Z'')" by (simp add: part_char_def is_upper_def)
  assume u: "valid_until u"
  show ?thesis
  proof (cases u)
    case (UntilDate d)
    with u valid_date_bounds [of d] show ?thesis
      by (auto simp: valid_until_def until_text_def pad_num_part)
  next
    case (UntilUtc i)
    with u have "valid_local (local_of_ms i)" "0 \<le> year (local_of_ms i)"
      by (auto simp: valid_until_def intro: valid_utc_local) (simp add: local_of_ms_def)
    from l [OF this] z UntilUtc show ?thesis by (simp add: until_text_stamp)
  next
    case (UntilLocal l)
    with u show ?thesis by (simp add: until_text_stamp valid_until_def l)
  qed
qed

subsection \<open>Reading back the parts\<close>

lemma map_of_append_at:
  "map_of (xs @ ys) k = (case map_of xs k of None \<Rightarrow> map_of ys k | Some v \<Rightarrow> Some v)"
  by (simp add: map_add_def split: option.splits)

lemma optional_part_lookup:
  "map_of (if c then [(n, v)] else []) k = (if k = n \<and> c then Some v else None)"
  "map_of (case x of None \<Rightarrow> [] | Some y \<Rightarrow> [(n, f y)]) k = (if k = n then map_option f x else None)"
  "map_of [(n, v)] k = (if k = n then Some v else None)"
  by (auto split: option.splits)

lemma optional_part_names:
  "fst ` set [(n, v)] = {n}"
  "fst ` set (if c then [(n, v)] else []) = {m. c \<and> m = n}"
  "fst ` set (case x of None \<Rightarrow> [] | Some y \<Rightarrow> [(n, f y)]) = {m. x \<noteq> None \<and> m = n}"
  "distinct (map fst [(n, v)])"
  "distinct (map fst (if c then [(n, v)] else []))"
  "distinct (map fst (case x of None \<Rightarrow> [] | Some y \<Rightarrow> [(n, f y)]))"
  by (auto split: option.splits)

lemma rule_parts_lookup:
  "map_of (rule_parts r) ''FREQ'' = Some (frequency_text (r_freq r))"
  "map_of (rule_parts r) ''INTERVAL'' =
     (if r_interval r \<noteq> 1 then Some (show_int (r_interval r)) else None)"
  "map_of (rule_parts r) ''COUNT'' = map_option show_int (r_count r)"
  "map_of (rule_parts r) ''UNTIL'' = map_option until_text (r_until r)"
  "map_of (rule_parts r) ''BYMONTH'' =
     (if r_by_month r \<noteq> [] then Some (join_with (CHR '','') (map show_int (r_by_month r))) else None)"
  "map_of (rule_parts r) ''BYMONTHDAY'' =
     (if r_by_month_day r \<noteq> [] then Some (join_with (CHR '','') (map show_int (r_by_month_day r))) else None)"
  "map_of (rule_parts r) ''BYDAY'' =
     (if r_by_day r \<noteq> [] then Some (join_with (CHR '','') (map by_day_text (r_by_day r))) else None)"
  "map_of (rule_parts r) ''WKST'' =
     (if r_wkst r \<noteq> MO then Some (weekday_text (r_wkst r)) else None)"
  by (simp_all only: rule_parts_def map_of_append_at optional_part_lookup)
    (simp_all split: option.splits)

lemma rule_parts_names:
  "set (map fst (rule_parts r)) \<subseteq> set supported_parts" "distinct (map fst (rule_parts r))"
proof -
  have names: "fst ` set (rule_parts r) \<subseteq> set supported_parts"
    unfolding rule_parts_def set_append image_Un optional_part_names
    by (auto simp: supported_parts_def)
  then show "set (map fst (rule_parts r)) \<subseteq> set supported_parts" by simp
  show "distinct (map fst (rule_parts r))"
    unfolding rule_parts_def map_append distinct_append set_append set_map image_Un
      optional_part_names(1-3)
    by (intro conjI optional_part_names(4-6)) (auto split: option.splits)
qed

lemma supported_not_unsupported: "n \<in> set supported_parts \<Longrightarrow> n \<notin> set unsupported_parts"
  by (auto simp: supported_parts_def unsupported_parts_def)

lemma check_rule_parts: "check_part_names (rule_parts r) = Inr ()"
proof -
  have "List.find (\<lambda>n. n \<in> set unsupported_parts) (map fst (rule_parts r)) = None"
    "List.find (\<lambda>n. n \<notin> set supported_parts) (map fst (rule_parts r)) = None"
    unfolding find_None_iff
    using rule_parts_names(1) [of r] supported_not_unsupported by blast+
  then show ?thesis by (simp add: check_part_names_def)
qed

lemma frequency_text_supported: "frequency_text f \<notin> set unsupported_frequencies"
  by (cases f) (auto simp: unsupported_frequencies_def)

lemma parse_month_item_show: "1 \<le> n \<and> n \<le> 12 \<Longrightarrow> parse_month_item (show_int n) = Inr n"
  using length_show_small [of n]
  by (auto simp: parse_month_item_def show_int_def)

lemma parse_month_day_item_show:
  "n \<noteq> 0 \<and> \<bar>n\<bar> \<le> 31 \<Longrightarrow> parse_month_day_item (show_int n) = Inr n"
  by (auto simp: parse_month_day_item_def matches_signed_show_int)

lemma parse_rule_parts:
  assumes v: "valid_rule r"
  shows "parse_parts (rule_parts r) = Inr r"
proof -
  have "parse_freq (rule_parts r) = Inr (r_freq r)"
    by (simp add: parse_freq_def rule_parts_lookup frequency_text_supported)
  moreover have "parse_interval (rule_parts r) = Inr (r_interval r)"
    using v by (auto simp: parse_interval_def rule_parts_lookup parse_positive_show valid_rule_def)
  moreover have "parse_count (rule_parts r) = Inr (r_count r)"
    using v by (auto simp: parse_count_def rule_parts_lookup parse_positive_show valid_rule_def
        split: option.splits)
  moreover have "parse_until_part (rule_parts r) = Inr (r_until r)"
    using v by (auto simp: parse_until_part_def rule_parts_lookup parse_until_text valid_rule_def
        split: option.splits)
  moreover have "parse_by_day (r_freq r) (rule_parts r) = Inr (r_by_day r)"
    using v by (auto simp: parse_by_day_def rule_parts_lookup valid_rule_def split_shown
        by_day_text_part intro: parse_items_map parse_by_day_text)
  moreover have "parse_by_month_day (r_freq r) (rule_parts r) = Inr (r_by_month_day r)"
    using v by (auto simp: parse_by_month_day_def rule_parts_lookup valid_rule_def split_shown
        show_int_comma intro: parse_items_map parse_month_day_item_show)
  moreover have "parse_by_month (rule_parts r) = Inr (r_by_month r)"
    using v by (auto simp: parse_by_month_def rule_parts_lookup valid_rule_def split_shown
        show_int_comma intro: parse_items_map parse_month_item_show)
  moreover have "parse_wkst (rule_parts r) = Inr (r_wkst r)"
    by (auto simp: parse_wkst_def rule_parts_lookup)
  ultimately show ?thesis
    using v by (auto simp: parse_parts_def check_rule_parts valid_rule_def split: option.splits)
qed

subsection \<open>Reading back the text\<close>

lemma join_part:
  "(\<And>x. x \<in> set xs \<Longrightarrow> list_all part_char (g x)) \<Longrightarrow>
     list_all part_char (join_with (CHR '','') (map g xs))"
  using set_join_with [of "CHR '','' " "map g xs"]
  by (fastforce simp: list_all_iff part_char_def)

lemma rule_parts_text:
  assumes v: "valid_rule r" and p: "(n, t) \<in> set (rule_parts r)"
  shows "t \<noteq> []" "list_all part_char t"
proof -
  have w: "[] \<noteq> weekday_text w" "list_all part_char (weekday_text w)" for w
    using weekday_text_props [of w] by (auto simp: list_all_iff part_char_def)
  have f: "[] \<noteq> frequency_text f" "list_all part_char (frequency_text f)" for f
    by (cases f; simp add: part_char_def is_upper_def)+
  have s: "[] \<noteq> show_int i" for i
    using show_nat_nonempty [of "nat i"] by (simp add: show_int_def del: show_nat_nonempty)
  have u: "[] \<noteq> until_text x" for x
    by (cases x) (auto simp: until_text_def pad_num_def pad_start_def show_int_def)
  have j: "[] \<noteq> join_with c (map g xs)" if "xs \<noteq> []" "\<And>x. [] \<noteq> g x"
    for c and g :: "'b \<Rightarrow> string" and xs
    using that by (cases xs; cases "tl xs") auto
  have b: "[] \<noteq> by_day_text x" for x
    using w(1) [of "by_weekday x"] by (simp add: by_day_text_def)
  have js: "xs \<noteq> [] \<Longrightarrow> [] \<noteq> join_with c (map show_int xs)"
    and jb: "ys \<noteq> [] \<Longrightarrow> [] \<noteq> join_with c (map by_day_text ys)" for c xs ys
    using j [of xs show_int] j [of ys by_day_text] s b by blast+
  show "t \<noteq> []" using p f(1) w(1) s u js jb
    by (auto simp: rule_parts_def split: option.splits if_splits)
  show "list_all part_char t" using p v w f
    by (auto simp: rule_parts_def valid_rule_def show_int_part until_text_part
        intro!: join_part by_day_text_part split: option.splits if_splits)
qed

definition part_text :: "string \<times> string \<Rightarrow> string" where
  "part_text p = fst p @ CHR ''='' # snd p"

lemma supported_name_upper:
  "n \<in> set supported_parts \<Longrightarrow> list_all is_upper n \<and> n \<noteq> []"
  by (auto simp: supported_parts_def is_upper_def)

lemma takeWhile_name:
  "CHR ''='' \<notin> set n \<Longrightarrow> takeWhile (\<lambda>c. c \<noteq> CHR ''='') (n @ CHR ''='' # t) = n"
  by (subst takeWhile_append2) auto

lemma upper_part: "list_all is_upper n \<Longrightarrow> list_all part_char n"
  by (auto simp: list_all_iff part_char_def)

lemma part_no_sep:
  "list_all part_char s \<Longrightarrow> CHR '';'' \<notin> set s \<and> CHR ''='' \<notin> set s"
  by (auto simp: list_all_iff dest: part_char_props)

lemma parse_segments_parts:
  "\<forall>(n, t) \<in> set ps. list_all is_upper n \<and> n \<noteq> [] \<and> t \<noteq> [] \<and> list_all part_char t \<Longrightarrow>
   distinct (map fst (seen @ ps)) \<Longrightarrow>
     parse_segments seen (map part_text ps) = Inr (seen @ ps)"
proof (induction ps arbitrary: seen)
  case (Cons p ps)
  obtain n t where p: "p = (n, t)" by (cases p)
  with Cons.prems(1) have nt: "list_all part_char n" "n \<noteq> []" "t \<noteq> []" "list_all part_char t"
    by (auto simp: upper_part)
  have "map_of seen n = None"
    using Cons.prems(2) p by (auto simp: map_of_eq_None_iff)
  moreover have "takeWhile (\<lambda>c. c \<noteq> CHR ''='') (part_text p) = n"
    using nt part_no_sep by (simp add: p part_text_def takeWhile_name)
  ultimately have "parse_segments seen (map part_text (p # ps))
      = parse_segments (seen @ [(n, t)]) (map part_text ps)"
    using nt by (simp add: Let_def to_upper_part) (simp add: p part_text_def to_upper_part)
  also have "\<dots> = Inr (seen @ p # ps)"
    using Cons.IH [of "seen @ [(n, t)]"] Cons.prems p by simp
  finally show ?case .
qed simp

lemma last_join: "xs \<noteq> [] \<Longrightarrow> last xs \<noteq> [] \<Longrightarrow> last (join_with c xs) = last (last xs)"
proof (induction c xs rule: join_with.induct)
  case (3 c x y ys)
  then have "join_with c (y # ys) \<noteq> []" by (cases ys) auto
  with 3 show ?case by simp
qed auto

lemma join_prefix: "join_with c ((a @ b) # xs) = a @ join_with c (b # xs)"
  by (cases xs) auto

lemma rule_text_parse:
  assumes v: "valid_rule r"
  shows "rule_parse (rule_to_string r) = Inr r"
proof -
  define ps where "ps = rule_parts r"
  define s where "s = rule_to_string r"
  have ne: "ps \<noteq> []" by (simp add: ps_def rule_parts_def)
  have ok: "\<forall>(n, t) \<in> set ps. list_all is_upper n \<and> n \<noteq> [] \<and> t \<noteq> [] \<and> list_all part_char t"
    using rule_parts_text [OF v] rule_parts_names(1) [of r] supported_name_upper
    by (fastforce simp: ps_def)
  have s: "s = join_with (CHR '';'') (map part_text ps)"
    by (simp add: s_def rule_to_string_def ps_def case_prod_unfold part_text_def [abs_def])
  obtain rest where f: "s = ''FREQ='' @ rest"
    by (auto simp: s_def rule_to_string_def rule_parts_def join_prefix [of _ "''FREQ=''", simplified])
  have "\<forall>x \<in> set (map part_text ps). CHR '';'' \<notin> set x"
    using ok part_no_sep upper_part by (fastforce simp: part_text_def)
  then have sp: "split_on (CHR '';'') s = map part_text ps"
    using ne by (simp add: s split_join)
  have l: "(fst (last ps), snd (last ps)) \<in> set ps" using ne by simp
  with ok have t: "snd (last ps) \<noteq> []" "list_all part_char (snd (last ps))" by blast+
  then have "last (part_text (last ps)) \<in> set (snd (last ps))" by (simp add: part_text_def)
  then have "last s \<in> set (snd (last ps))"
    using ne t by (subst s, subst last_join) (auto simp: last_map part_text_def)
  with t(2) have "\<not> is_space (last s)" by (auto simp: list_all_iff dest: part_char_props)
  then have "trim s = s" using f by (intro trim_id) (auto simp: is_space_def)
  moreover have "property_prefix s = None"
    by (simp add: f property_prefix_def is_upper_def is_lower_def)
  ultimately have "rule_parse s = and_then (parse_segments [] (map part_text ps)) parse_parts"
    using f sp by (simp add: rule_parse_def strip_property_def)
  also have "\<dots> = Inr r"
    using parse_segments_parts [OF ok, of "[]"] rule_parts_names(2) [of r] parse_rule_parts [OF v]
    by (simp add: ps_def)
  finally show ?thesis by (simp add: s_def)
qed


lemma rule_parse_example:
  "rule_parse ''rrule:freq=monthly;byday=-1fr'' =
     Inr \<lparr>r_freq = MONTHLY, r_interval = 1, r_count = None, r_until = None,
       r_by_day = [\<lparr>by_weekday = FR, by_ordinal = Some (-1)\<rparr>], r_by_month_day = [],
       r_by_month = [], r_wkst = MO\<rparr>"
  by code_simp


end
