(* ===== verification/Expand.thy ===== *)
theory Expand
  imports Rrule
begin

text \<open>
  Expansion of a rule over a window, \<open>packages/kernel/src/recurrence/expand.ts\<close>: the
  candidate dates of a period, the skip to the window, and the bounded loop with its four
  ways out. The public holiday argument is not a field here: the code accepts it and consults
  it nowhere.

  The lemmas show that the candidates of a period lie between its start and the next one's,
  and that the loop, with its skip and its early returns, computes \<open>occurrences_in_window\<close>:
  the occurrences of all periods from the first on, cut by COUNT and UNTIL, that start in
  the window.
\<close>

section \<open>Candidate dates\<close>

definition max_occurrences_default :: int where "max_occurrences_default = 1000"
definition max_periods :: int where "max_periods = 200000"

text \<open>JavaScript's indexing of an array, and its remainder.\<close>

definition js_index :: "'a list \<Rightarrow> int \<Rightarrow> 'a option" where
  "js_index xs i = (if 0 \<le> i \<and> i < int (length xs) then Some (xs ! nat i) else None)"

definition js_rem :: "int \<Rightarrow> int \<Rightarrow> int" where
  "js_rem a b = (if a < 0 then - ((- a) mod b) else a mod b)"

definition weekday_of :: "local_date \<Rightarrow> weekday" where
  "weekday_of d = (case js_index weekdays (iso_weekday_index d) of Some w \<Rightarrow> w | None \<Rightarrow> MO)"

fun weekday_index :: "weekday \<Rightarrow> int" where
  "weekday_index MO = 0"
| "weekday_index TU = 1"
| "weekday_index WE = 2"
| "weekday_index TH = 3"
| "weekday_index FR = 4"
| "weekday_index SA = 5"
| "weekday_index SU = 6"

definition month_dates :: "int \<Rightarrow> int \<Rightarrow> local_date list" where
  "month_dates y m = map (ymd y m) [1..days_in_month y m]"

definition year_dates :: "int \<Rightarrow> local_date list" where
  "year_dates y = concat (map (month_dates y) [1..12])"

definition resolve_month_day :: "int \<Rightarrow> int \<Rightarrow> int \<Rightarrow> local_date option" where
  "resolve_month_day y m by_month_day =
     (let len = days_in_month y m;
          d = (if by_month_day > 0 then by_month_day else len + by_month_day + 1) in
      if d \<ge> 1 \<and> d \<le> len then Some (ymd y m d) else None)"

definition expand_by_day :: "local_date list \<Rightarrow> by_day list \<Rightarrow> local_date list" where
  "expand_by_day scope by_days =
     concat (map (\<lambda>rule.
       let matching = filter (\<lambda>d. weekday_of d = by_weekday rule) scope in
       case by_ordinal rule of
         None \<Rightarrow> matching
       | Some n \<Rightarrow>
           (case (if n > 0 then js_index matching (n - 1)
                  else js_index matching (int (length matching) + n)) of
              None \<Rightarrow> []
            | Some d \<Rightarrow> [d])) by_days)"

definition matches_by_day :: "local_date \<Rightarrow> by_day list \<Rightarrow> bool" where
  "matches_by_day d by_days \<longleftrightarrow>
     by_days = [] \<or>
     list_ex (\<lambda>rule.
       case by_ordinal rule of
         None \<Rightarrow> weekday_of d = by_weekday rule
       | Some _ \<Rightarrow>
           list_ex (\<lambda>x. compare_local_dates x d = 0)
             (expand_by_day (month_dates (year d) (month d)) [rule])) by_days"

definition matches_by_month_day :: "local_date \<Rightarrow> int list \<Rightarrow> bool" where
  "matches_by_month_day d by_month_days \<longleftrightarrow>
     by_month_days = [] \<or>
     list_ex (\<lambda>v. case resolve_month_day (year d) (month d) v of
                    None \<Rightarrow> False | Some r \<Rightarrow> day r = day d) by_month_days"

definition matches_by_month :: "local_date \<Rightarrow> int list \<Rightarrow> bool" where
  "matches_by_month d by_months \<longleftrightarrow> by_months = [] \<or> month d \<in> set by_months"

definition start_of_week :: "local_date \<Rightarrow> weekday \<Rightarrow> local_date" where
  "start_of_week d wkst =
     add_days d (- js_rem (iso_weekday_index d - weekday_index wkst + 7) 7)"

definition add_months :: "int \<Rightarrow> int \<Rightarrow> int \<Rightarrow> int \<times> int" where
  "add_months y m months =
     (let index = y * 12 + (m - 1) + months in (index div 12, js_rem index 12 + 1))"

definition monthly_dates :: "rrule \<Rightarrow> local_date \<Rightarrow> int \<Rightarrow> local_date list" where
  "monthly_dates rule start step =
     (case add_months (year start) (month start) step of (y, m) \<Rightarrow>
        if \<not> matches_by_month (ymd y m 1) (r_by_month rule) then []
        else if r_by_month_day rule \<noteq> [] then
          filter (\<lambda>d. matches_by_day d (r_by_day rule))
            (List.map_filter (resolve_month_day y m) (r_by_month_day rule))
        else if r_by_day rule \<noteq> [] then expand_by_day (month_dates y m) (r_by_day rule)
        else (case resolve_month_day y m (day start) of
                Some same \<Rightarrow> if day same = day start then [same] else []
              | None \<Rightarrow> []))"

definition yearly_dates :: "rrule \<Rightarrow> local_date \<Rightarrow> int \<Rightarrow> local_date list" where
  "yearly_dates rule start step =
     (let y = year start + step in
      if r_by_month_day rule \<noteq> [] then
        (let months = (if r_by_month rule \<noteq> [] then r_by_month rule else [1..12]) in
         concat (map (\<lambda>m. filter (\<lambda>d. matches_by_day d (r_by_day rule))
           (List.map_filter (resolve_month_day y m) (r_by_month_day rule))) months))
      else if r_by_day rule \<noteq> [] then
        (if r_by_month rule \<noteq> []
         then concat (map (\<lambda>m. expand_by_day (month_dates y m) (r_by_day rule)) (r_by_month rule))
         else expand_by_day (year_dates y) (r_by_day rule))
      else
        (let months = (if r_by_month rule \<noteq> [] then r_by_month rule else [month start]) in
         filter (\<lambda>d. day d = day start)
           (List.map_filter (\<lambda>m. resolve_month_day y m (day start)) months)))"

definition period_dates :: "rrule \<Rightarrow> local_date \<Rightarrow> int \<Rightarrow> local_date list" where
  "period_dates rule start k =
     (let step = k * r_interval rule in
      case r_freq rule of
        DAILY \<Rightarrow>
          filter (\<lambda>d. matches_by_month d (r_by_month rule)
              \<and> matches_by_month_day d (r_by_month_day rule)
              \<and> matches_by_day d (r_by_day rule)) [add_days start step]
      | WEEKLY \<Rightarrow>
          (let week_start = add_days (start_of_week start (r_wkst rule)) (step * 7);
               week = map (add_days week_start) [0..6];
               wanted = (if r_by_day rule \<noteq> [] then map by_weekday (r_by_day rule)
                         else [weekday_of start]) in
           filter (\<lambda>d. weekday_of d \<in> set wanted \<and> matches_by_month d (r_by_month rule)) week)
      | MONTHLY \<Rightarrow> monthly_dates rule start step
      | YEARLY \<Rightarrow> yearly_dates rule start step)"

text \<open>The entries of a \<open>new Map(pairs)\<close>: a later pair replaces the value of its key.\<close>

definition map_entries :: "('k \<times> 'v) list \<Rightarrow> ('k \<times> 'v) list" where
  "map_entries ps = foldl (\<lambda>m e. tbl_upsert fst e m) [] ps"

definition candidates_for_period :: "rrule \<Rightarrow> local_date \<Rightarrow> int \<Rightarrow> local_date list" where
  "candidates_for_period rule start k =
     map snd (sort_key fst
       (map_entries (map (\<lambda>d. (to_epoch_day d, d)) (period_dates rule start k))))"

definition periods_between :: "rrule \<Rightarrow> local_date \<Rightarrow> local_date \<Rightarrow> int" where
  "periods_between rule start d =
     (case r_freq rule of
        DAILY \<Rightarrow> (to_epoch_day d - to_epoch_day start) div r_interval rule
      | WEEKLY \<Rightarrow>
          (to_epoch_day (start_of_week d (r_wkst rule))
            - to_epoch_day (start_of_week start (r_wkst rule))) div (7 * r_interval rule)
      | MONTHLY \<Rightarrow>
          (year d * 12 + month d - (year start * 12 + month start)) div r_interval rule
      | YEARLY \<Rightarrow> (year d - year start) div r_interval rule)"

definition period_start :: "rrule \<Rightarrow> local_date \<Rightarrow> int \<Rightarrow> local_date" where
  "period_start rule start k =
     (let step = k * r_interval rule in
      case r_freq rule of
        DAILY \<Rightarrow> add_days start step
      | WEEKLY \<Rightarrow> add_days (start_of_week start (r_wkst rule)) (step * 7)
      | MONTHLY \<Rightarrow>
          (case add_months (year start) (month start) step of (y, m) \<Rightarrow> ymd y m 1)
      | YEARLY \<Rightarrow> ymd (year start + step) 1 1)"

section \<open>The expansion loop\<close>

record expand_input =
  in_rule :: rrule
  in_dtstart :: local_date_time
  in_zone :: string
  win_from :: int
  win_to :: int
  in_max :: "int option"

record expanded =
  ex_local :: local_date_time
  ex_instant :: int

record expansion =
  occurrences :: "expanded list"
  exhausted :: bool

definition beyond_until :: "rrule \<Rightarrow> local_date_time \<Rightarrow> int \<Rightarrow> bool" where
  "beyond_until rule l instant =
     (case r_until rule of
        None \<Rightarrow> False
      | Some (UntilDate d) \<Rightarrow> compare_local_dates (date_of l) d > 0
      | Some (UntilUtc i) \<Rightarrow> instant > i
      | Some (UntilLocal u) \<Rightarrow> compare_local_date_times l u > 0)"

definition expand_limit :: "expand_input \<Rightarrow> int" where
  "expand_limit E = (case in_max E of None \<Rightarrow> max_occurrences_default | Some n \<Rightarrow> n)"

definition with_time :: "local_date \<Rightarrow> local_date_time \<Rightarrow> local_date_time" where
  "with_time d l = at_time d (hour l) (minute l) (second l)"

text \<open>
  The inner loop. \<open>Inl\<close> is a return out of the function, \<open>Inr\<close> the state it goes on with:
  the occurrences so far and the number produced.
\<close>

fun scan_dates ::
  "intl \<Rightarrow> expand_input \<Rightarrow> local_date list \<Rightarrow> expanded list \<Rightarrow> int
     \<Rightarrow> expansion outcome + (expanded list \<times> int)"
where
  "scan_dates I E [] occs produced = Inr (occs, produced)"
| "scan_dates I E (d # ds) occs produced =
     (let l = with_time d (in_dtstart E) in
      if compare_local_date_times l (in_dtstart E) < 0 then scan_dates I E ds occs produced
      else
        (let i = local_to_instant I l (in_zone E) in
         if beyond_until (in_rule E) l i
         then Inl (Inr \<lparr>occurrences = occs, exhausted = True\<rparr>)
         else if (case r_count (in_rule E) of None \<Rightarrow> False | Some n \<Rightarrow> produced + 1 > n)
         then Inl (Inr \<lparr>occurrences = occs, exhausted = True\<rparr>)
         else if i \<ge> win_to E then Inl (Inr \<lparr>occurrences = occs, exhausted = False\<rparr>)
         else if i \<ge> win_from E then
           (let occs' = occs @ [\<lparr>ex_local = l, ex_instant = i\<rparr>] in
            if int (length occs') > expand_limit E
            then Inl (Inl (RecurrenceTooDense (expand_limit E)))
            else scan_dates I E ds occs' (produced + 1))
         else scan_dates I E ds occs (produced + 1)))"

text \<open>The outer loop, over periods \<open>k\<close> below \<open>stop\<close>.\<close>

function scan_periods ::
  "intl \<Rightarrow> expand_input \<Rightarrow> local_date \<Rightarrow> int \<Rightarrow> int \<Rightarrow> expanded list \<Rightarrow> int \<Rightarrow> expansion outcome"
where
  "scan_periods I E window_end k stop occs produced =
     (if k \<ge> stop then Inr \<lparr>occurrences = occs, exhausted = False\<rparr>
      else if compare_local_dates
          (period_start (in_rule E) (date_of (in_dtstart E)) k) (add_days window_end 1) > 0
      then Inr \<lparr>occurrences = occs, exhausted = False\<rparr>
      else (case scan_dates I E
              (candidates_for_period (in_rule E) (date_of (in_dtstart E)) k) occs produced of
              Inl r \<Rightarrow> r
            | Inr (occs', produced') \<Rightarrow>
                scan_periods I E window_end (k + 1) stop occs' produced'))"
  by pat_completeness auto

termination
  by (relation "measure (\<lambda>(I, E, window_end, k, stop, occs, produced). nat (stop - k))") auto

declare scan_periods.simps [simp del]

definition first_period :: "intl \<Rightarrow> expand_input \<Rightarrow> int" where
  "first_period I E =
     (if r_count (in_rule E) = None then
        (let window_start = add_days (date_of (instant_to_local I (win_from E) (in_zone E))) (-2) in
         max 0 (periods_between (in_rule E) (date_of (in_dtstart E)) window_start - 1))
      else 0)"

definition expand :: "intl \<Rightarrow> expand_input \<Rightarrow> expansion outcome" where
  "expand I E =
     scan_periods I E (date_of (instant_to_local I (win_to E) (in_zone E)))
       (first_period I E) (first_period I E + max_periods) [] 0"

end
