(* ===== verification/Expand_Facts.thy ===== *)
theory Expand_Facts
  imports Expand
begin

text \<open>
  What the expansion of \<open>expand.ts\<close> computes: where the candidates of a period lie, that
  they come in date order, and the equality of the loop with its reference definition.
\<close>

section \<open>Starts\<close>

text \<open>A start the kernel is meant for: a real date of the year 1 or later, a valid rule.\<close>

definition good_start :: "local_date \<Rightarrow> bool" where
  "good_start d \<longleftrightarrow> valid_date d \<and> 1 \<le> year d"

definition first_day :: int where "first_day = -719162"

lemma good_start_epoch: "good_start d \<Longrightarrow> first_day \<le> to_epoch_day d"
proof -
  assume d: "good_start d"
  then have "civil_date (year d) (month d) (day d)" by (simp add: good_start_def valid_date_civil)
  then have "day_from_year (year d) \<le> to_epoch_day d"
    using d make_day_year by (simp add: good_start_def to_epoch_day_valid)
  moreover have "day_from_year 1 \<le> day_from_year (year d)"
    using d by (intro day_from_year_mono) (simp add: good_start_def)
  ultimately show ?thesis by (simp add: day_from_year_def first_day_def)
qed

lemma valid_year_good: "valid_date d \<Longrightarrow> first_day \<le> to_epoch_day d \<Longrightarrow> good_start d"
proof -
  assume d: "valid_date d" "first_day \<le> to_epoch_day d"
  then have "civil_date (year d) (month d) (day d)" by (simp add: valid_date_civil)
  then have "to_epoch_day d < day_from_year (year d + 1)"
    using d make_day_year by (simp add: to_epoch_day_valid)
  with d(2) have "day_from_year 1 < day_from_year (year d + 1)"
    by (simp add: day_from_year_def first_day_def)
  then have "1 < year d + 1" using day_from_year_mono [of "year d + 1" 1] by linarith
  with d(1) show ?thesis by (simp add: good_start_def)
qed

lemma add_days_good:
  "first_day \<le> to_epoch_day d + n \<Longrightarrow>
     good_start (add_days d n) \<and> to_epoch_day (add_days d n) = to_epoch_day d + n"
proof -
  assume a: "first_day \<le> to_epoch_day d + n"
  then have ne: "to_epoch_day d + n \<noteq> -719469" by (simp add: first_day_def)
  have e: "to_epoch_day (add_days d n) = to_epoch_day d + n"
    by (rule add_days_epoch [OF ne])
  moreover have "valid_date (add_days d n)"
    using ne by (simp add: add_days_def valid_from_epoch_day)
  ultimately show ?thesis using a valid_year_good by auto
qed

lemma add_days_near:
  "-719400 \<le> to_epoch_day d + n \<Longrightarrow>
     valid_date (add_days d n) \<and> to_epoch_day (add_days d n) = to_epoch_day d + n"
  using add_days_epoch [of d n] valid_from_epoch_day [of "to_epoch_day d + n"]
  by (auto simp: add_days_def)

lemma to_epoch_day_ymd_less:
  assumes "valid_date a" "valid_date b" "date_less a b"
  shows "to_epoch_day a < to_epoch_day b"
  using compare_local_dates_less [OF assms(1,2)] assms(3) by (simp add: compare_local_dates_def)

section \<open>The candidates of a period\<close>

definition between :: "local_date \<Rightarrow> int \<Rightarrow> int \<Rightarrow> bool" where
  "between d lo hi \<longleftrightarrow> valid_date d \<and> lo \<le> to_epoch_day d \<and> to_epoch_day d < hi"

text \<open>The dates of a month, and those of a year.\<close>

definition in_month :: "int \<Rightarrow> int \<Rightarrow> local_date \<Rightarrow> bool" where
  "in_month y m d \<longleftrightarrow> year d = y \<and> month d = m \<and> valid_date d"

lemma month_dates_in: "1 \<le> m \<Longrightarrow> m \<le> 12 \<Longrightarrow> d \<in> set (month_dates y m) \<Longrightarrow> in_month y m d"
  by (auto simp: month_dates_def in_month_def valid_date_def)

lemma resolve_month_day_in:
  "1 \<le> m \<Longrightarrow> m \<le> 12 \<Longrightarrow> resolve_month_day y m v = Some d \<Longrightarrow> in_month y m d"
  by (auto simp: resolve_month_day_def in_month_def valid_date_def Let_def split: if_splits)

lemma js_index_in: "js_index xs i = Some x \<Longrightarrow> x \<in> set xs"
  by (auto simp: js_index_def split: if_splits)

lemma expand_by_day_in: "set (expand_by_day scope bs) \<subseteq> set scope"
proof -
  have p: "set (case js_index (filter P scope) i of None \<Rightarrow> [] | Some d \<Rightarrow> [d]) \<subseteq> set scope" for P i
    by (cases "js_index (filter P scope) i") (auto dest: js_index_in)
  show ?thesis
  proof (induction bs)
    case (Cons b bs)
    then show ?case using p [of "\<lambda>d. weekday_of d = by_weekday b"]
      by (cases "by_ordinal b") (auto simp: expand_by_day_def Let_def)
  qed (simp add: expand_by_day_def)
qed

lemma map_filter_in: "y \<in> set (List.map_filter f xs) \<longleftrightarrow> (\<exists>x \<in> set xs. f x = Some y)"
  by (auto simp: List.map_filter_def intro: rev_image_eqI)

lemma monthly_dates_in:
  assumes "add_months (year s) (month s) step = (y, m)" "1 \<le> m" "m \<le> 12"
    and "d \<in> set (monthly_dates r s step)"
  shows "in_month y m d"
  using assms expand_by_day_in [of "month_dates y m" "r_by_day r"]
  by (auto simp: monthly_dates_def map_filter_in split: if_splits option.splits
      intro: resolve_month_day_in month_dates_in)

lemma yearly_dates_in:
  assumes "\<forall>m \<in> set (r_by_month r). 1 \<le> m \<and> m \<le> 12" "1 \<le> month s" "month s \<le> 12"
    and "d \<in> set (yearly_dates r s step)"
  shows "\<exists>m. 1 \<le> m \<and> m \<le> 12 \<and> in_month (year s + step) m d"
proof -
  have e: "\<exists>m. 1 \<le> m \<and> m \<le> 12 \<and> in_month y m d"
    if "d \<in> set (expand_by_day (month_dates y m) bs)" "1 \<le> m" "m \<le> 12" for y m bs
    using that month_dates_in [of m d y] expand_by_day_in by blast
  have y: "\<exists>m. 1 \<le> m \<and> m \<le> 12 \<and> in_month y m d"
    if "d \<in> set (expand_by_day (year_dates y) bs)" for y bs
  proof -
    have "d \<in> set (year_dates y)" using that expand_by_day_in by blast
    then show ?thesis using month_dates_in by (fastforce simp: year_dates_def)
  qed
  have r: "\<exists>m. 1 \<le> m \<and> m \<le> 12 \<and> in_month y m d"
    if "resolve_month_day y m v = Some d" "1 \<le> m" "m \<le> 12" for y m v
    using that resolve_month_day_in by blast
  show ?thesis
    using assms unfolding yearly_dates_def Let_def
    by (auto simp: map_filter_in split: if_splits intro: e y r)
qed

lemma first_of_month:
  "1 \<le> m \<Longrightarrow> m \<le> 12 \<Longrightarrow> valid_date (ymd y m 1)"
  using month_length_pos [of m "leap_year y"] by (simp add: valid_date_civil civil_date_def)

lemma in_month_between:
  assumes "in_month y m d" "1 \<le> m" "m \<le> 12" "1 \<le> m'" "m' \<le> 12" "y * 12 + m < y' * 12 + m'"
  shows "between d (to_epoch_day (ymd y m 1)) (to_epoch_day (ymd y' m' 1))"
proof -
  have d: "year d = y" "month d = m" "valid_date d" using assms(1) by (auto simp: in_month_def)
  have "1 \<le> day d" using d(3) by (simp add: valid_date_def)
  then have "d = ymd y m 1 \<or> date_less (ymd y m 1) d"
    using d by (cases "day d = 1") (auto simp: date_less_def ymd_def)
  then have "to_epoch_day (ymd y m 1) \<le> to_epoch_day d"
    using to_epoch_day_ymd_less [OF first_of_month d(3)] assms(2,3) by fastforce
  moreover have "date_less d (ymd y' m' 1)"
    using assms(2-6) d by (auto simp: date_less_def)
  then have "to_epoch_day d < to_epoch_day (ymd y' m' 1)"
    using to_epoch_day_ymd_less d(3) first_of_month assms(4,5) by blast
  ultimately show ?thesis using d(3) by (simp add: between_def)
qed

lemma add_months_index:
  assumes "0 \<le> y * 12 + (m - 1) + n" "add_months y m n = (y', m')"
  shows "1 \<le> m'" "m' \<le> 12" "y' * 12 + m' = y * 12 + m + n"
proof -
  define i where "i = y * 12 + (m - 1) + n"
  have i: "y' = i div 12" "m' = i mod 12 + 1" "0 \<le> i"
    using assms by (auto simp: add_months_def js_rem_def i_def Let_def)
  then show "1 \<le> m'" "m' \<le> 12" using pos_mod_bound [of 12 i] by auto
  have "12 * (i div 12) + i mod 12 = i" by simp
  then show "y' * 12 + m' = y * 12 + m + n" using i by (simp add: i_def)
qed

text \<open>The week: its first day is at most six days back.\<close>

lemma weekday_index_range: "0 \<le> weekday_index w \<and> weekday_index w < 7"
  by (cases w) simp_all

lemma start_of_week_epoch:
  assumes "-719390 \<le> to_epoch_day d"
  shows "valid_date (start_of_week d w)" "to_epoch_day (start_of_week d w) \<le> to_epoch_day d"
    "to_epoch_day d - 6 \<le> to_epoch_day (start_of_week d w)"
proof -
  define off where "off = js_rem (iso_weekday_index d - weekday_index w + 7) 7"
  have "0 \<le> iso_weekday_index d" by (simp add: iso_weekday_epoch)
  then have off: "0 \<le> off" "off \<le> 6"
    using weekday_index_range [of w] pos_mod_bound [of 7 "iso_weekday_index d - weekday_index w + 7"]
    by (auto simp: off_def js_rem_def)
  have "start_of_week d w = add_days d (- off)" by (simp add: start_of_week_def off_def)
  with add_days_near [of d "- off"] off assms
  show "valid_date (start_of_week d w)" "to_epoch_day (start_of_week d w) \<le> to_epoch_day d"
    "to_epoch_day d - 6 \<le> to_epoch_day (start_of_week d w)" by auto
qed

section \<open>Periods in order\<close>

definition start_index :: "local_date \<Rightarrow> int" where
  "start_index s = year s * 12 + month s"

text \<open>The epoch day a period starts on, per frequency.\<close>

lemma period_start_epoch:
  assumes s: "good_start s" and r: "1 \<le> r_interval r" and k: "0 \<le> k"
  shows "r_freq r = DAILY \<Longrightarrow>
      to_epoch_day (period_start r s k) = to_epoch_day s + k * r_interval r"
    "r_freq r = WEEKLY \<Longrightarrow>
      to_epoch_day (period_start r s k)
        = to_epoch_day (start_of_week s (r_wkst r)) + k * r_interval r * 7"
    "valid_date (period_start r s k)"
proof -
  have e: "first_day \<le> to_epoch_day s" using good_start_epoch [OF s] .
  have st: "0 \<le> k * r_interval r" using r k by simp
  show d: "to_epoch_day (period_start r s k) = to_epoch_day s + k * r_interval r"
    if "r_freq r = DAILY"
    using add_days_good [of s "k * r_interval r"] e st that by (simp add: period_start_def)
  have w: "-719390 \<le> to_epoch_day s" using e by (simp add: first_day_def)
  note sw = start_of_week_epoch [OF w, of "r_wkst r"]
  show "to_epoch_day (period_start r s k)
      = to_epoch_day (start_of_week s (r_wkst r)) + k * r_interval r * 7" if "r_freq r = WEEKLY"
    using add_days_near [of "start_of_week s (r_wkst r)" "k * r_interval r * 7"] e st sw(3) that
    by (simp add: period_start_def first_day_def)
  show "valid_date (period_start r s k)"
  proof (cases "r_freq r")
    case DAILY
    then show ?thesis using add_days_good [of s "k * r_interval r"] e st
      by (simp add: period_start_def good_start_def)
  next
    case WEEKLY
    then show ?thesis
      using add_days_near [of "start_of_week s (r_wkst r)" "k * r_interval r * 7"] e st sw(3)
      by (simp add: period_start_def first_day_def)
  next
    case MONTHLY
    have "0 \<le> year s * 12 + (month s - 1) + k * r_interval r"
      using s st by (simp add: good_start_def valid_date_def)
    note i = add_months_index [OF this]
    obtain y m where ym: "add_months (year s) (month s) (k * r_interval r) = (y, m)"
      by (cases "add_months (year s) (month s) (k * r_interval r)")
    with MONTHLY i(1,2) [OF ym] show ?thesis by (simp add: period_start_def first_of_month)
  next
    case YEARLY
    then show ?thesis by (simp add: period_start_def first_of_month)
  qed
qed

lemma map_entries_aux:
  "distinct (map fst m) \<Longrightarrow>
     distinct (map fst (foldl (\<lambda>m e. tbl_upsert fst e m) m ps))
     \<and> set (foldl (\<lambda>m e. tbl_upsert fst e m) m ps) \<subseteq> set m \<union> set ps
     \<and> fst ` set (foldl (\<lambda>m e. tbl_upsert fst e m) m ps) = fst ` (set m \<union> set ps)"
proof (induction ps arbitrary: m)
  case (Cons p ps)
  have d: "distinct (map fst (tbl_upsert fst p m))" using Cons.prems by (rule distinct_key_upsert)
  have s: "set (tbl_upsert fst p m) = insert p {x \<in> set m. fst x \<noteq> fst p}"
    using Cons.prems by (rule set_tbl_upsert)
  have f: "fst ` set (tbl_upsert fst p m) = insert (fst p) (fst ` set m)"
    unfolding s by auto
  from Cons.IH [OF d] show ?case
    unfolding foldl_Cons image_Un f by (auto simp: s)
qed simp

lemma map_entries_props:
  "distinct (map fst (map_entries ps))" "set (map_entries ps) \<subseteq> set ps"
  "fst ` set (map_entries ps) = fst ` set ps"
  using map_entries_aux [of "[]" ps] by (simp_all add: map_entries_def)

lemma candidates_props:
  shows "set (candidates_for_period r s k) \<subseteq> set (period_dates r s k)"
    and "sorted_wrt (\<lambda>a b. to_epoch_day a < to_epoch_day b) (candidates_for_period r s k)"
proof -
  let ?ps = "map (\<lambda>d. (to_epoch_day d, d)) (period_dates r s k)"
  let ?es = "sort_key fst (map_entries ?ps)"
  have sub: "set ?es \<subseteq> set ?ps" using map_entries_props(2) [of ?ps] by simp
  then show "set (candidates_for_period r s k) \<subseteq> set (period_dates r s k)"
    by (auto simp: candidates_for_period_def)
  have "distinct (map fst (map_entries ?ps))" by (rule map_entries_props)
  then have "distinct (map fst ?es)"
    by (metis (no_types, lifting) distinct_map distinct_sort set_sort)
  moreover have "sorted (map fst ?es)" by simp
  ultimately have "sorted_wrt (<) (map fst ?es)" by (simp add: strict_sorted_iff)
  moreover have "map fst ?es = map to_epoch_day (map snd ?es)"
    unfolding map_map by (rule map_cong [OF refl]) (use sub in force)
  ultimately have "sorted_wrt (<) (map to_epoch_day (map snd ?es))" by simp
  then show "sorted_wrt (\<lambda>a b. to_epoch_day a < to_epoch_day b) (candidates_for_period r s k)"
    by (simp only: candidates_for_period_def sorted_wrt_map)
qed

lemma valid_months: "valid_rule r \<Longrightarrow> \<forall>m \<in> set (r_by_month r). 1 \<le> m \<and> m \<le> 12"
  by (auto simp: valid_rule_def list_all_iff)

lemma period_dates_between:
  assumes s: "good_start s" and r: "valid_rule r" and k: "0 \<le> k"
    and d: "d \<in> set (period_dates r s k)"
  shows "between d (to_epoch_day (period_start r s k)) (to_epoch_day (period_start r s (k + 1)))"
proof -
  have i: "1 \<le> r_interval r" using r by (simp add: valid_rule_def)
  have k1: "0 \<le> k + 1" using k by simp
  have st: "0 \<le> k * r_interval r" using i k by simp
  have e: "first_day \<le> to_epoch_day s" using good_start_epoch [OF s] .
  have step: "(k + 1) * r_interval r = k * r_interval r + r_interval r" by (simp add: distrib_right)
  note p = period_start_epoch [OF s i k] period_start_epoch [OF s i k1]
  have sm: "1 \<le> month s" "month s \<le> 12" "1 \<le> year s"
    using s by (auto simp: good_start_def valid_date_def)
  show ?thesis
  proof (cases "r_freq r")
    case DAILY
    then have d: "d = add_days s (k * r_interval r)"
      using d by (auto simp: period_dates_def Let_def split: if_splits)
    show ?thesis using p(1,4) [OF DAILY] add_days_good [of s "k * r_interval r"] e st i
      unfolding d by (simp add: between_def good_start_def step)
  next
    case WEEKLY
    define ws where "ws = start_of_week s (r_wkst r)"
    have w: "-719390 \<le> to_epoch_day s" using e by (simp add: first_day_def)
    have ws: "-719200 \<le> to_epoch_day ws"
      using start_of_week_epoch(3) [OF w, of "r_wkst r"] e by (simp add: ws_def first_day_def)
    obtain j where j: "0 \<le> j" "j \<le> 6" "d = add_days (add_days ws (k * r_interval r * 7)) j"
      using d WEEKLY by (auto simp: period_dates_def ws_def Let_def)
    have w1: "to_epoch_day (add_days ws (k * r_interval r * 7)) = to_epoch_day ws + k * r_interval r * 7"
      using add_days_near [of ws "k * r_interval r * 7"] ws st by simp
    with j add_days_near [of "add_days ws (k * r_interval r * 7)" j] ws st
    have "valid_date d" "to_epoch_day d = to_epoch_day ws + k * r_interval r * 7 + j" by auto
    with p(2,5) [OF WEEKLY] j(1,2) i show ?thesis
      by (simp add: between_def ws_def [symmetric] step)
  next
    case MONTHLY
    obtain y m y' m' where ym: "add_months (year s) (month s) (k * r_interval r) = (y, m)"
      "add_months (year s) (month s) ((k + 1) * r_interval r) = (y', m')"
      by (cases "add_months (year s) (month s) (k * r_interval r)";
          cases "add_months (year s) (month s) ((k + 1) * r_interval r)") auto
    have n: "0 \<le> year s * 12 + (month s - 1) + k * r_interval r"
      "0 \<le> year s * 12 + (month s - 1) + (k + 1) * r_interval r" using sm st i step by auto
    note a = add_months_index [OF n(1) ym(1)] add_months_index [OF n(2) ym(2)]
    have "d \<in> set (monthly_dates r s (k * r_interval r))"
      using d MONTHLY by (simp add: period_dates_def)
    from monthly_dates_in [OF ym(1) a(1,2) this] a i step ym MONTHLY
    show ?thesis by (simp add: period_start_def in_month_between)
  next
    case YEARLY
    have "d \<in> set (yearly_dates r s (k * r_interval r))"
      using d YEARLY by (simp add: period_dates_def)
    from yearly_dates_in [OF valid_months [OF r] sm(1,2) this]
    obtain m where m: "1 \<le> m" "m \<le> 12" "in_month (year s + k * r_interval r) m d" by auto
    have "between d (to_epoch_day (ymd (year s + k * r_interval r) m 1))
        (to_epoch_day (ymd (year s + (k + 1) * r_interval r) 1 1))"
      using m i step by (intro in_month_between) auto
    moreover have "to_epoch_day (ymd (year s + k * r_interval r) 1 1)
        \<le> to_epoch_day (ymd (year s + k * r_interval r) m 1)"
      using to_epoch_day_ymd_less [of "ymd (year s + k * r_interval r) 1 1"
          "ymd (year s + k * r_interval r) m 1"] m first_of_month
      by (cases "m = 1") (auto simp: date_less_def)
    ultimately show ?thesis using YEARLY by (simp add: between_def period_start_def)
  qed
qed

lemma period_start_month:
  assumes "good_start s" "1 \<le> r_interval r" "0 \<le> k" "r_freq r = MONTHLY"
  obtains y m where "period_start r s k = ymd y m 1" "1 \<le> m" "m \<le> 12"
    "y * 12 + m = start_index s + k * r_interval r"
proof -
  obtain y m where ym: "add_months (year s) (month s) (k * r_interval r) = (y, m)"
    by (cases "add_months (year s) (month s) (k * r_interval r)")
  have "0 \<le> k * r_interval r" using assms by simp
  then have "0 \<le> year s * 12 + (month s - 1) + k * r_interval r"
    using assms(1) by (simp add: good_start_def valid_date_def)
  from add_months_index [OF this ym] that show thesis
    using ym assms(4) by (simp add: period_start_def start_index_def)
qed

lemma period_start_step:
  assumes s: "good_start s" and i: "1 \<le> r_interval r" and k: "0 \<le> k"
  shows "to_epoch_day (period_start r s k) < to_epoch_day (period_start r s (k + 1))"
proof (cases "r_freq r")
  case DAILY
  then show ?thesis using period_start_epoch(1) [OF s i, of k] period_start_epoch(1) [OF s i, of "k + 1"]
      i k by (simp add: distrib_right)
next
  case WEEKLY
  then show ?thesis using period_start_epoch(2) [OF s i, of k] period_start_epoch(2) [OF s i, of "k + 1"]
      i k by (simp add: distrib_right)
next
  case MONTHLY
  obtain y m where a: "period_start r s k = ymd y m 1" "1 \<le> m" "m \<le> 12"
      "y * 12 + m = start_index s + k * r_interval r"
    using period_start_month [OF s i k MONTHLY] .
  obtain y' m' where b: "period_start r s (k + 1) = ymd y' m' 1" "1 \<le> m'" "m' \<le> 12"
      "y' * 12 + m' = start_index s + (k + 1) * r_interval r"
    using period_start_month [OF s i _ MONTHLY, of "k + 1"] k by auto
  have "date_less (ymd y m 1) (ymd y' m' 1)" using a(2-) b(2-) i
    by (auto simp: date_less_def distrib_right)
  then show ?thesis unfolding a(1) b(1) using a b by (intro to_epoch_day_ymd_less first_of_month)
next
  case YEARLY
  then have "date_less (period_start r s k) (period_start r s (k + 1))"
    using i by (simp add: period_start_def date_less_def distrib_right)
  then show ?thesis using period_start_epoch(3) [OF s i] k by (intro to_epoch_day_ymd_less) auto
qed

lemma period_start_mono:
  assumes "good_start s" "1 \<le> r_interval r" "0 \<le> k" "k \<le> l"
  shows "to_epoch_day (period_start r s k) \<le> to_epoch_day (period_start r s l)"
  using assms(4)
proof (induction "nat (l - k)" arbitrary: l)
  case (Suc n)
  then have "n = nat (l - 1 - k)" "k \<le> l - 1" by auto
  with Suc.hyps(1) [of "l - 1"]
  have "to_epoch_day (period_start r s k) \<le> to_epoch_day (period_start r s (l - 1))" by blast
  also have "\<dots> < to_epoch_day (period_start r s l)"
    using period_start_step [OF assms(1,2), of "l - 1"] assms(3) Suc by simp
  finally show ?case by simp
qed simp

lemma div_mult_le: "0 < (b::int) \<Longrightarrow> a div b * b \<le> a"
  using div_bounds(2) [of b a] by (simp add: mult.commute)

lemma period_of_between:
  assumes s: "good_start s" and i: "1 \<le> r_interval r"
    and d: "valid_date d" "-719390 \<le> to_epoch_day d" and k: "0 \<le> periods_between r s d"
  shows "to_epoch_day (period_start r s (periods_between r s d)) \<le> to_epoch_day d"
proof (cases "r_freq r")
  case DAILY
  with period_start_epoch(1) [OF s i k] div_mult_le [of "r_interval r" "to_epoch_day d - to_epoch_day s"] i
  show ?thesis by (simp add: periods_between_def)
next
  case WEEKLY
  let ?w = "\<lambda>x. to_epoch_day (start_of_week x (r_wkst r))"
  have "(?w d - ?w s) div (7 * r_interval r) * (7 * r_interval r) \<le> ?w d - ?w s"
    using i by (intro div_mult_le) simp
  then show ?thesis
    using period_start_epoch(2) [OF s i k] WEEKLY start_of_week_epoch(2) [OF d(2), of "r_wkst r"]
    by (simp add: periods_between_def mult.assoc)
next
  case MONTHLY
  obtain y m where a: "period_start r s (periods_between r s d) = ymd y m 1" "1 \<le> m" "m \<le> 12"
      "y * 12 + m = start_index s + periods_between r s d * r_interval r"
    using period_start_month [OF s i k MONTHLY] .
  have "y * 12 + m \<le> year d * 12 + month d"
    using a(4) MONTHLY i div_mult_le [of "r_interval r" "year d * 12 + month d - (year s * 12 + month s)"]
    by (simp add: periods_between_def start_index_def)
  moreover have "1 \<le> month d" "month d \<le> 12" "1 \<le> day d" using d(1) by (auto simp: valid_date_def)
  ultimately have "ymd y m 1 = d \<or> date_less (ymd y m 1) d"
    using a(2,3) by (cases d) (auto simp: date_less_def ymd_def)
  then show ?thesis
    using to_epoch_day_ymd_less [OF first_of_month [OF a(2,3)] d(1)] a(1) by fastforce
next
  case YEARLY
  let ?p = "ymd (year s + periods_between r s d * r_interval r) 1 1"
  have "year ?p \<le> year d"
    using YEARLY i div_mult_le [of "r_interval r" "year d - year s"]
    by (simp add: periods_between_def)
  moreover have "1 \<le> month d" "1 \<le> day d" using d(1) by (auto simp: valid_date_def)
  ultimately have "?p = d \<or> date_less ?p d" by (cases d) (auto simp: date_less_def ymd_def)
  then have "to_epoch_day ?p \<le> to_epoch_day d"
    using to_epoch_day_ymd_less [of ?p d] first_of_month d(1) by fastforce
  then show ?thesis using YEARLY by (simp add: period_start_def)
qed

section \<open>The reference definition\<close>

text \<open>The occurrences of one period: its candidates that are not before the start.\<close>

definition period_occurrences :: "intl \<Rightarrow> expand_input \<Rightarrow> int \<Rightarrow> expanded list" where
  "period_occurrences I E k =
     map (\<lambda>d. \<lparr>ex_local = with_time d (in_dtstart E),
               ex_instant = local_to_instant I (with_time d (in_dtstart E)) (in_zone E)\<rparr>)
       (filter (\<lambda>d. 0 \<le> compare_local_date_times (with_time d (in_dtstart E)) (in_dtstart E))
         (candidates_for_period (in_rule E) (date_of (in_dtstart E)) k))"

definition rule_occurrences :: "intl \<Rightarrow> expand_input \<Rightarrow> int \<Rightarrow> int \<Rightarrow> expanded list" where
  "rule_occurrences I E k n = concat (map (period_occurrences I E) [k..n - 1])"

definition beyond :: "expand_input \<Rightarrow> expanded \<Rightarrow> bool" where
  "beyond E x = beyond_until (in_rule E) (ex_local x) (ex_instant x)"

definition in_window :: "expand_input \<Rightarrow> expanded \<Rightarrow> bool" where
  "in_window E x \<longleftrightarrow> win_from E \<le> ex_instant x \<and> ex_instant x < win_to E"

definition take_count :: "int option \<Rightarrow> 'a list \<Rightarrow> 'a list" where
  "take_count c xs = (case c of None \<Rightarrow> xs | Some n \<Rightarrow> take (nat n) xs)"

text \<open>The occurrences of the first \<open>n\<close> periods that a call should return.\<close>

definition occurrences_in_window :: "intl \<Rightarrow> expand_input \<Rightarrow> int \<Rightarrow> expanded list" where
  "occurrences_in_window I E n =
     filter (in_window E)
       (take_count (r_count (in_rule E))
         (filter (\<lambda>x. \<not> beyond E x) (rule_occurrences I E 0 n)))"

section \<open>The loop against the reference\<close>

definition cut :: "expand_input \<Rightarrow> int \<Rightarrow> expanded list \<Rightarrow> expanded list" where
  "cut E produced xs =
     filter (in_window E)
       (take_count (map_option (\<lambda>c. c - produced) (r_count (in_rule E)))
         (takeWhile (\<lambda>x. \<not> beyond E x) xs))"

definition later :: "expanded \<Rightarrow> expanded \<Rightarrow> bool" where
  "later a b \<longleftrightarrow> ex_instant a < ex_instant b \<and>
     local_as_utc_ms (ex_local a) < local_as_utc_ms (ex_local b) \<and>
     to_epoch_day (date_of (ex_local a)) < to_epoch_day (date_of (ex_local b))"

text \<open>What a return out of the loop means for the occurrences it should have found.\<close>

definition settles :: "expand_input \<Rightarrow> expanded list \<Rightarrow> expansion outcome \<Rightarrow> bool" where
  "settles E want r \<longleftrightarrow>
     (case r of
        Inl e \<Rightarrow> e = RecurrenceTooDense (expand_limit E) \<and> expand_limit E < int (length want)
      | Inr x \<Rightarrow> occurrences x = want \<and> int (length want) \<le> expand_limit E)"

lemma cut_past:
  assumes "\<forall>x \<in> set xs. win_to E \<le> ex_instant x"
  shows "cut E n xs = []"
proof -
  have "set (take_count c (takeWhile P xs)) \<subseteq> set xs" for c P
    by (auto simp: take_count_def split: option.splits dest: in_set_takeD set_takeWhileD)
  moreover have "\<not> in_window E x" if "x \<in> set xs" for x
    using assms that by (auto simp: in_window_def)
  ultimately show ?thesis unfolding cut_def filter_empty_conv by blast
qed

lemma cut_Cons:
  "cut E n (x # xs) =
     (if beyond E x \<or> (case r_count (in_rule E) of None \<Rightarrow> False | Some c \<Rightarrow> n + 1 > c) then []
      else (if in_window E x then [x] else []) @ cut E (n + 1) xs)"
proof (cases "r_count (in_rule E)")
  case None
  then show ?thesis unfolding cut_def take_count_def by (cases "beyond E x"; cases "in_window E x") simp_all
next
  case (Some c)
  show ?thesis
  proof (cases "n + 1 > c")
    case False
    then have "nat (c - n) = Suc (nat (c - (n + 1)))" by simp
    with Some False show ?thesis by (auto simp: cut_def take_count_def)
  qed (auto simp: cut_def take_count_def Some)
qed

fun scan_list ::
  "expand_input \<Rightarrow> expanded list \<Rightarrow> expanded list \<Rightarrow> int
     \<Rightarrow> expansion outcome + (expanded list \<times> int)"
where
  "scan_list E [] occs n = Inr (occs, n)"
| "scan_list E (x # xs) occs n =
     (if beyond E x \<or> (case r_count (in_rule E) of None \<Rightarrow> False | Some c \<Rightarrow> n + 1 > c)
      then Inl (Inr \<lparr>occurrences = occs, exhausted = True\<rparr>)
      else if ex_instant x \<ge> win_to E then Inl (Inr \<lparr>occurrences = occs, exhausted = False\<rparr>)
      else if ex_instant x \<ge> win_from E then
        (if int (length occs + 1) > expand_limit E
         then Inl (Inl (RecurrenceTooDense (expand_limit E)))
         else scan_list E xs (occs @ [x]) (n + 1))
      else scan_list E xs occs (n + 1))"

lemma scan_dates_list:
  "scan_dates I E ds occs n =
     scan_list E
       (map (\<lambda>d. \<lparr>ex_local = with_time d (in_dtstart E),
               ex_instant = local_to_instant I (with_time d (in_dtstart E)) (in_zone E)\<rparr>)
         (filter (\<lambda>d. 0 \<le> compare_local_date_times (with_time d (in_dtstart E)) (in_dtstart E)) ds))
       occs n"
  by (induction ds arbitrary: occs n) (simp_all add: Let_def beyond_def not_less)

lemma scan_list_sound:
  assumes "sorted_wrt later (xs @ rest)" "int (length occs) \<le> expand_limit E"
  shows "case scan_list E xs occs n of
      Inl r \<Rightarrow> settles E (occs @ cut E n (xs @ rest)) r
    | Inr (occs', n') \<Rightarrow> int (length occs') \<le> expand_limit E
        \<and> occs @ cut E n (xs @ rest) = occs' @ cut E n' rest"
  using assms
proof (induction xs arbitrary: occs n)
  case (Cons x xs)
  let ?stop = "beyond E x \<or> (case r_count (in_rule E) of None \<Rightarrow> False | Some c \<Rightarrow> n + 1 > c)"
  have past: "cut E (n + 1) (xs @ rest) = []" if "win_to E \<le> ex_instant x"
  proof (rule cut_past, rule ballI)
    fix y assume "y \<in> set (xs @ rest)"
    then have "later x y" using Cons.prems(1) by auto
    with that show "win_to E \<le> ex_instant y" by (simp add: later_def)
  qed
  have so: "sorted_wrt later (xs @ rest)" using Cons.prems(1) by simp
  show ?case
  proof (cases "?stop \<or> win_to E \<le> ex_instant x")
    case True
    then show ?thesis using Cons.prems(2) past
      by (auto simp: cut_Cons settles_def in_window_def)
  next
    case False
    have c: "cut E n (x # xs @ rest) =
        (if win_from E \<le> ex_instant x then [x] else []) @ cut E (n + 1) (xs @ rest)"
      using False by (simp add: cut_Cons in_window_def)
    show ?thesis
    proof (cases "win_from E \<le> ex_instant x \<and> int (length occs + 1) > expand_limit E")
      case True
      with False c show ?thesis by (simp add: settles_def)
    next
      case less: False
      show ?thesis
      proof (cases "win_from E \<le> ex_instant x")
        case True
        with Cons.IH [OF so, of "occs @ [x]" "n + 1"] less False c show ?thesis
          by (simp cong: sum.case_cong)
      next
        case f: False
        with Cons.IH [OF so Cons.prems(2), of "n + 1"] False c show ?thesis
          by (simp cong: sum.case_cong)
      qed
    qed
  qed
qed (auto simp: split: sum.splits)

section \<open>Instants of occurrences\<close>

text \<open>
  What the code relies on: a well-formed input, a zone whose offsets never differ by a whole
  day, and a window after the first days of the year 1.
\<close>

definition good_input :: "intl \<Rightarrow> expand_input \<Rightarrow> (int \<Rightarrow> int) \<Rightarrow> bool" where
  "good_input I E off \<longleftrightarrow>
     valid_rule (in_rule E) \<and> valid_local (in_dtstart E) \<and> 1 \<le> year (in_dtstart E)
     \<and> zone_model I (in_zone E) off \<and> (\<forall>s t. \<bar>off s - off t\<bar> < ms_per_day)
     \<and> win_from E \<le> win_to E \<and> (first_day + 10) * ms_per_day \<le> win_from E
     \<and> 0 \<le> expand_limit E"

definition occ_of :: "intl \<Rightarrow> expand_input \<Rightarrow> local_date \<Rightarrow> expanded" where
  "occ_of I E d =
     \<lparr>ex_local = with_time d (in_dtstart E),
      ex_instant = local_to_instant I (with_time d (in_dtstart E)) (in_zone E)\<rparr>"

lemma with_time_props:
  assumes "valid_date d" "valid_local l"
  shows "valid_local (with_time d l)" "date_of (with_time d l) = d"
    "local_as_utc_ms (with_time d l) = to_epoch_day d * ms_per_day + clock_ms l"
proof -
  show v: "valid_local (with_time d l)"
    using assms unfolding with_time_def
    by (auto simp: valid_local_def [of l] intro: valid_local_at_time)
  show "date_of (with_time d l) = d" by (simp add: date_of_def with_time_def)
  show "local_as_utc_ms (with_time d l) = to_epoch_day d * ms_per_day + clock_ms l"
    using local_as_utc_ms_valid [OF v] assms(1)
    by (simp add: to_epoch_day_valid) (simp add: with_time_def clock_ms_def)
qed

lemma pick_instant_offset: "\<exists>u. pick_instant off p = p - off u"
  by (auto simp: pick_instant_def Let_def)

lemma good_inputD:
  assumes "good_input I E off"
  shows "good_start (date_of (in_dtstart E))" "valid_rule (in_rule E)" "1 \<le> r_interval (in_rule E)"
    "valid_local (in_dtstart E)" "zone_model I (in_zone E) off" "0 \<le> expand_limit E"
    "off s - off t < ms_per_day"
  using assms by (auto simp: good_input_def good_start_def valid_local_def valid_rule_def abs_less_iff)

lemma occ_instant:
  assumes g: "good_input I E off" and d: "valid_date d"
    and c: "0 \<le> compare_local_date_times (with_time d (in_dtstart E)) (in_dtstart E)"
  shows "\<exists>u. ex_instant (occ_of I E d) = to_epoch_day d * ms_per_day + clock_ms (in_dtstart E) - off u"
    "to_epoch_day (date_of (in_dtstart E)) \<le> to_epoch_day d"
proof -
  let ?s = "in_dtstart E"
  note gd = good_inputD [OF g]
  have vs: "valid_date (date_of ?s)" using gd(1) by (simp add: good_start_def)
  have w: "with_time (date_of ?s) ?s = ?s" by (simp add: with_time_def at_time_def)
  note p = with_time_props [OF d gd(4)] with_time_props [OF vs gd(4), unfolded w]
  show e: "to_epoch_day (date_of ?s) \<le> to_epoch_day d"
    using c p(3,6) by (simp add: compare_local_date_times_def)
  then have "good_start d" using d good_start_epoch [OF gd(1)] by (intro valid_year_good) auto
  then have "1 \<le> year (with_time d ?s)" by (simp add: good_start_def with_time_def)
  from local_to_instant_pick [OF gd(5) p(1) this] pick_instant_offset [of off "local_as_utc_ms (with_time d ?s)"]
  show "\<exists>u. ex_instant (occ_of I E d) = to_epoch_day d * ms_per_day + clock_ms ?s - off u"
    by (simp add: occ_of_def p(3))
qed

lemma occ_later:
  assumes g: "good_input I E off" and d: "valid_date d" "valid_date d'"
    and c: "0 \<le> compare_local_date_times (with_time d (in_dtstart E)) (in_dtstart E)"
      "0 \<le> compare_local_date_times (with_time d' (in_dtstart E)) (in_dtstart E)"
    and lt: "to_epoch_day d < to_epoch_day d'"
  shows "later (occ_of I E d) (occ_of I E d')"
proof -
  obtain u v where i: "ex_instant (occ_of I E d) = to_epoch_day d * ms_per_day + clock_ms (in_dtstart E) - off u"
    "ex_instant (occ_of I E d') = to_epoch_day d' * ms_per_day + clock_ms (in_dtstart E) - off v"
    using occ_instant(1) [OF g] d c by blast
  note gd = good_inputD [OF g]
  have "to_epoch_day d * ms_per_day + ms_per_day \<le> to_epoch_day d' * ms_per_day"
    using mult_right_mono [of "to_epoch_day d + 1" "to_epoch_day d'" ms_per_day] lt
    by (simp add: distrib_right)
  with i gd(7) [of v u] gd(7) [of u v]
  have "ex_instant (occ_of I E d) < ex_instant (occ_of I E d')" by linarith
  then show ?thesis
    using with_time_props [OF d(1) gd(4)] with_time_props [OF d(2) gd(4)] lt
    by (simp add: later_def) (simp add: occ_of_def)
qed

lemma period_occurrences_in:
  assumes g: "good_input I E off" and k: "0 \<le> k" and x: "x \<in> set (period_occurrences I E k)"
  obtains d where "x = occ_of I E d"
    "between d (to_epoch_day (period_start (in_rule E) (date_of (in_dtstart E)) k))
      (to_epoch_day (period_start (in_rule E) (date_of (in_dtstart E)) (k + 1)))"
    "0 \<le> compare_local_date_times (with_time d (in_dtstart E)) (in_dtstart E)"
proof -
  from x obtain d where d: "x = occ_of I E d"
    "d \<in> set (candidates_for_period (in_rule E) (date_of (in_dtstart E)) k)"
    "0 \<le> compare_local_date_times (with_time d (in_dtstart E)) (in_dtstart E)"
    by (auto simp: period_occurrences_def occ_of_def)
  with candidates_props(1) period_dates_between [OF good_inputD(1) [OF g] good_inputD(2) [OF g] k] that
  show thesis by blast
qed

section \<open>Occurrences in order\<close>

lemma rule_occurrences_step:
  "k < n \<Longrightarrow> rule_occurrences I E k n = period_occurrences I E k @ rule_occurrences I E (k + 1) n"
  "n \<le> k \<Longrightarrow> rule_occurrences I E k n = []"
  by (simp_all add: rule_occurrences_def upto_rec1)

lemma rule_occurrences_split:
  "k \<le> m \<Longrightarrow> m \<le> n \<Longrightarrow>
     rule_occurrences I E k n = rule_occurrences I E k m @ rule_occurrences I E m n"
  using upto_split1 [of k m "n - 1"] upto_split2 [of k "m - 1" "n - 1"]
  by (cases "m = n") (auto simp: rule_occurrences_def)

lemma rule_occurrences_in:
  assumes "x \<in> set (rule_occurrences I E k n)"
  obtains j where "k \<le> j" "j < n" "x \<in> set (period_occurrences I E j)"
  using assms by (auto simp: rule_occurrences_def)

lemma sorted_wrt_map_in:
  assumes "sorted_wrt P xs" "\<And>x y. x \<in> set xs \<Longrightarrow> y \<in> set xs \<Longrightarrow> P x y \<Longrightarrow> Q (f x) (f y)"
  shows "sorted_wrt Q (map f xs)"
  using assms by (induction xs) auto

lemma period_occurrences_sorted:
  assumes g: "good_input I E off" and k: "0 \<le> k"
  shows "sorted_wrt later (period_occurrences I E k)"
  unfolding period_occurrences_def occ_of_def [symmetric]
proof (rule sorted_wrt_map_in)
  let ?c = "candidates_for_period (in_rule E) (date_of (in_dtstart E)) k"
  let ?f = "filter (\<lambda>d. 0 \<le> compare_local_date_times (with_time d (in_dtstart E)) (in_dtstart E)) ?c"
  show "sorted_wrt (\<lambda>a b. to_epoch_day a < to_epoch_day b) ?f"
    using candidates_props(2) by (rule sorted_wrt_filter)
  fix d d' assume "d \<in> set ?f" "d' \<in> set ?f" "to_epoch_day d < to_epoch_day d'"
  then show "later (occ_of I E d) (occ_of I E d')"
    using candidates_props(1) period_dates_between [OF good_inputD(1) [OF g] good_inputD(2) [OF g] k]
    by (intro occ_later [OF g]) (auto simp: between_def subset_iff)
qed

lemma rule_occurrences_sorted:
  assumes g: "good_input I E off"
  shows "0 \<le> k \<Longrightarrow> sorted_wrt later (rule_occurrences I E k n)"
proof (induction "nat (n - k)" arbitrary: k)
  case 0
  then show ?case by (simp add: rule_occurrences_step)
next
  case (Suc m)
  have "later x y" if x: "x \<in> set (period_occurrences I E k)"
    and y: "y \<in> set (rule_occurrences I E (k + 1) n)" for x y
  proof -
    obtain j where j: "k + 1 \<le> j" "y \<in> set (period_occurrences I E j)"
      using y by (rule rule_occurrences_in)
    let ?ps = "\<lambda>k. to_epoch_day (period_start (in_rule E) (date_of (in_dtstart E)) k)"
    obtain d where d: "x = occ_of I E d" "between d (?ps k) (?ps (k + 1))"
      "0 \<le> compare_local_date_times (with_time d (in_dtstart E)) (in_dtstart E)"
      using period_occurrences_in [OF g Suc.prems x] .
    obtain d' where d': "y = occ_of I E d'" "between d' (?ps j) (?ps (j + 1))"
      "0 \<le> compare_local_date_times (with_time d' (in_dtstart E)) (in_dtstart E)"
      using period_occurrences_in [OF g _ j(2)] j(1) Suc.prems by auto
    have "?ps (k + 1) \<le> ?ps j"
      using Suc.prems j(1) by (intro period_start_mono good_inputD(1,3) [OF g]) auto
    then show ?thesis using occ_later [OF g _ _ d(3) d'(3)] d d' by (auto simp: between_def)
  qed
  moreover have "sorted_wrt later (rule_occurrences I E (k + 1) n)"
    using Suc.hyps(2) Suc.prems by (intro Suc.hyps(1)) auto
  moreover have "k < n" using Suc.hyps(2) by simp
  ultimately show ?case
    using period_occurrences_sorted [OF g Suc.prems] by (simp add: rule_occurrences_step sorted_wrt_append)
qed

text \<open>The window's edges, as days: what lies outside them lies outside the window.\<close>

lemma reading_day:
  assumes g: "good_input I E off" and t: "win_from E \<le> t"
  defines "d \<equiv> date_of (instant_to_local I t (in_zone E))"
  shows "valid_date d" "to_epoch_day d = day_of_ms (t + off t)" "first_day + 9 \<le> to_epoch_day d"
proof -
  note z = zone_modelD [OF good_inputD(5) [OF g]]
  have r: "instant_to_local I t (in_zone E) = local_of_ms (t + off t)" by (rule z(1))
  have "(first_day + 10) * ms_per_day \<le> win_from E" using g by (simp add: good_input_def)
  then have "(first_day + 9) * ms_per_day \<le> t + off t" using t z(4) [of t] by (simp add: distrib_right)
  then have b: "first_day + 9 \<le> day_of_ms (t + off t)"
    using zdiv_mono1 [of "(first_day + 9) * ms_per_day" "t + off t" ms_per_day] ms_per_day_pos(1)
    by (simp add: day_of_ms_def split: if_splits)
  then have v: "valid_local (local_of_ms (t + off t))" by (simp add: valid_local_of_ms first_day_def)
  then show vd: "valid_date d" by (simp add: d_def r valid_local_def)
  have "to_epoch_day d = make_day (utc_year (t + off t)) (utc_month (t + off t)) (utc_date (t + off t))"
    using vd by (simp add: to_epoch_day_valid) (simp add: d_def r date_of_def local_of_ms_def)
  then show e: "to_epoch_day d = day_of_ms (t + off t)" by (simp add: utc_fields_civil)
  show "first_day + 9 \<le> to_epoch_day d" using b e by simp
qed

lemma day_of_ms_bounds: "day_of_ms t * ms_per_day \<le> t" "t < day_of_ms t * ms_per_day + ms_per_day"
  using div_bounds [of ms_per_day t] by (simp_all add: day_of_ms_def mult.commute)

lemma occ_after_window:
  assumes g: "good_input I E off" and d: "valid_date d"
    and c: "0 \<le> compare_local_date_times (with_time d (in_dtstart E)) (in_dtstart E)"
    and far: "to_epoch_day (date_of (instant_to_local I (win_to E) (in_zone E))) + 2 \<le> to_epoch_day d"
  shows "win_to E \<le> ex_instant (occ_of I E d)"
proof -
  let ?n = "day_of_ms (win_to E + off (win_to E))"
  have "win_from E \<le> win_to E" using g by (simp add: good_input_def)
  then have "?n + 2 \<le> to_epoch_day d" using far reading_day(2) [OF g] by simp
  then have "(?n + 2) * ms_per_day \<le> to_epoch_day d * ms_per_day" by (intro mult_right_mono) auto
  moreover obtain u where "ex_instant (occ_of I E d) = to_epoch_day d * ms_per_day + clock_ms (in_dtstart E) - off u"
    using occ_instant(1) [OF g d c] by blast
  moreover have "0 \<le> clock_ms (in_dtstart E)" using clock_ms_range good_inputD(4) [OF g] by blast
  ultimately show ?thesis
    using good_inputD(7) [OF g, of u "win_to E"] day_of_ms_bounds(2) [of "win_to E + off (win_to E)"]
    by (simp add: distrib_right)
qed

lemma occ_before_window:
  assumes g: "good_input I E off" and d: "valid_date d"
    and c: "0 \<le> compare_local_date_times (with_time d (in_dtstart E)) (in_dtstart E)"
    and far: "to_epoch_day d < to_epoch_day (date_of (instant_to_local I (win_from E) (in_zone E))) - 2"
  shows "ex_instant (occ_of I E d) < win_from E"
proof -
  let ?n = "day_of_ms (win_from E + off (win_from E))"
  have "to_epoch_day d \<le> ?n - 3" using far reading_day(2) [OF g] by simp
  then have "to_epoch_day d * ms_per_day \<le> (?n - 3) * ms_per_day" by (intro mult_right_mono) auto
  moreover obtain u where "ex_instant (occ_of I E d) = to_epoch_day d * ms_per_day + clock_ms (in_dtstart E) - off u"
    using occ_instant(1) [OF g d c] by blast
  moreover have "clock_ms (in_dtstart E) < ms_per_day" using clock_ms_range good_inputD(4) [OF g] by blast
  ultimately show ?thesis
    using good_inputD(7) [OF g, of "win_from E" u] day_of_ms_bounds(1) [of "win_from E + off (win_from E)"]
      ms_per_day_pos(1)
    unfolding left_diff_distrib by linarith
qed

section \<open>The loop computes the reference\<close>

lemma scan_periods_settles:
  assumes g: "good_input I E off"
  defines "window_end \<equiv> date_of (instant_to_local I (win_to E) (in_zone E))"
  shows "0 \<le> k \<Longrightarrow> int (length occs) \<le> expand_limit E \<Longrightarrow>
     settles E (occs @ cut E n (rule_occurrences I E k stop))
       (scan_periods I E window_end k stop occs n)"
proof (induction "nat (stop - k)" arbitrary: k occs n)
  case 0
  then show ?case
    by (subst scan_periods.simps) (simp add: rule_occurrences_step settles_def cut_past)
next
  case (Suc m)
  let ?s = "date_of (in_dtstart E)"
  let ?ps = "\<lambda>k. to_epoch_day (period_start (in_rule E) ?s k)"
  have k: "k < stop" "m = nat (stop - (k + 1))" "0 \<le> k + 1" using Suc.hyps(2) Suc.prems by auto
  have we: "win_from E \<le> win_to E" using g by (simp add: good_input_def)
  have w1: "to_epoch_day (add_days window_end 1) = to_epoch_day window_end + 1"
    using reading_day(3) [OF g we] add_days_near [of window_end 1]
    by (simp add: window_end_def first_day_def)
  show ?case
  proof (cases "compare_local_dates (period_start (in_rule E) ?s k) (add_days window_end 1) > 0")
    case True
    have "win_to E \<le> ex_instant x" if x: "x \<in> set (rule_occurrences I E k stop)" for x
    proof -
      obtain j where j: "k \<le> j" "x \<in> set (period_occurrences I E j)"
        using x by (rule rule_occurrences_in)
      obtain d where d: "x = occ_of I E d" "between d (?ps j) (?ps (j + 1))"
        "0 \<le> compare_local_date_times (with_time d (in_dtstart E)) (in_dtstart E)"
        using period_occurrences_in [OF g _ j(2)] j(1) Suc.prems(1) by auto
      have "?ps k \<le> ?ps j"
        using Suc.prems(1) j(1) by (intro period_start_mono good_inputD(1,3) [OF g]) auto
      then have "to_epoch_day window_end + 2 \<le> to_epoch_day d"
        using True w1 d(2) by (simp add: compare_local_dates_def between_def)
      then show ?thesis
        using occ_after_window [OF g _ d(3)] d(1,2) by (simp add: window_end_def between_def)
    qed
    then have "cut E n (rule_occurrences I E k stop) = []" by (intro cut_past) blast
    with True k(1) Suc.prems(2) show ?thesis
      by (subst scan_periods.simps) (simp add: settles_def)
  next
    case False
    have so: "sorted_wrt later (period_occurrences I E k @ rule_occurrences I E (k + 1) stop)"
      using rule_occurrences_sorted [OF g Suc.prems(1), of stop] k(1)
      by (simp add: rule_occurrences_step)
    have st: "rule_occurrences I E k stop = period_occurrences I E k @ rule_occurrences I E (k + 1) stop"
      using k(1) by (simp add: rule_occurrences_step)
    have sc: "scan_dates I E (candidates_for_period (in_rule E) ?s k) occs n =
        scan_list E (period_occurrences I E k) occs n"
      by (simp add: scan_dates_list period_occurrences_def)
    show ?thesis
    proof (cases "scan_list E (period_occurrences I E k) occs n")
      case (Inl r)
      then show ?thesis
        using scan_list_sound [OF so Suc.prems(2), of n] False k(1) st sc
        by (subst scan_periods.simps) simp
    next
      case (Inr p)
      then obtain occs' n' where p: "scan_list E (period_occurrences I E k) occs n = Inr (occs', n')"
        by (cases p) auto
      then have "int (length occs') \<le> expand_limit E"
        "occs @ cut E n (rule_occurrences I E k stop) = occs' @ cut E n' (rule_occurrences I E (k + 1) stop)"
        using scan_list_sound [OF so Suc.prems(2), of n] st by simp_all
      with Suc.hyps(1) [OF k(2,3), of occs' n'] False k(1) p sc show ?thesis
        by (subst scan_periods.simps) simp
    qed
  qed
qed

lemma beyond_mono: "later x y \<Longrightarrow> beyond E x \<Longrightarrow> beyond E y"
  by (auto simp: later_def beyond_def beyond_until_def compare_local_dates_def
      compare_local_date_times_def split: option.splits until.splits)

lemma takeWhile_sorted:
  "sorted_wrt P xs \<Longrightarrow> (\<And>x y. P x y \<Longrightarrow> b x \<Longrightarrow> b y) \<Longrightarrow> takeWhile (\<lambda>x. \<not> b x) xs = filter (\<lambda>x. \<not> b x) xs"
proof (induction xs)
  case (Cons x xs)
  then have "b x \<Longrightarrow> filter (\<lambda>x. \<not> b x) xs = []" by (auto simp: filter_empty_conv)
  with Cons show ?case by simp
qed simp

lemma skipped_before_window:
  assumes g: "good_input I E off" and x: "x \<in> set (rule_occurrences I E 0 (first_period I E))"
  shows "ex_instant x < win_from E"
proof -
  let ?s = "date_of (in_dtstart E)"
  let ?ps = "\<lambda>k. to_epoch_day (period_start (in_rule E) ?s k)"
  define w where "w = date_of (instant_to_local I (win_from E) (in_zone E))"
  define p where "p = periods_between (in_rule E) ?s (add_days w (-2))"
  obtain j where j: "0 \<le> j" "j < first_period I E" "x \<in> set (period_occurrences I E j)"
    using x by (rule rule_occurrences_in)
  then have fp: "j < p - 1"
    by (auto simp: first_period_def Let_def w_def p_def split: if_splits)
  have wd: "first_day + 9 \<le> to_epoch_day w" using reading_day(3) [OF g] by (simp add: w_def)
  then have w2: "valid_date (add_days w (-2))" "to_epoch_day (add_days w (-2)) = to_epoch_day w - 2"
    using add_days_near [of w "-2"] by (simp_all add: first_day_def)
  obtain d where d: "x = occ_of I E d" "between d (?ps j) (?ps (j + 1))"
    "0 \<le> compare_local_date_times (with_time d (in_dtstart E)) (in_dtstart E)"
    using period_occurrences_in [OF g j(1,3)] .
  have "?ps (j + 1) \<le> ?ps p"
    using j(1) fp by (intro period_start_mono good_inputD(1,3) [OF g]) auto
  also have "?ps p \<le> to_epoch_day (add_days w (-2))"
    using period_of_between [OF good_inputD(1) [OF g] good_inputD(3) [OF g] w2(1)] w2(2) wd fp j(1)
    by (simp add: p_def first_day_def)
  finally have "to_epoch_day d < to_epoch_day w - 2" using d(2) w2(2) by (simp add: between_def)
  then show ?thesis
    using occ_before_window [OF g _ d(3)] d(1,2) by (simp add: w_def between_def)
qed

lemma cut_reference:
  assumes g: "good_input I E off" and n: "first_period I E \<le> n"
  shows "cut E 0 (rule_occurrences I E (first_period I E) n) = occurrences_in_window I E n"
proof -
  let ?f = "first_period I E" and ?o = "rule_occurrences I E"
  have f0: "0 \<le> ?f" by (simp add: first_period_def Let_def)
  have tw: "takeWhile (\<lambda>x. \<not> beyond E x) (?o ?f n) = filter (\<lambda>x. \<not> beyond E x) (?o ?f n)"
    using rule_occurrences_sorted [OF g f0] beyond_mono by (rule takeWhile_sorted)
  show ?thesis
  proof (cases "r_count (in_rule E)")
    case None
    have "filter (in_window E) (filter (\<lambda>x. \<not> beyond E x) (?o 0 ?f)) = []"
      using skipped_before_window [OF g] by (fastforce simp: filter_empty_conv in_window_def)
    then show ?thesis
      using None tw rule_occurrences_split [OF f0 n, of I E]
      by (simp add: cut_def occurrences_in_window_def take_count_def)
  next
    case (Some c)
    then have "?f = 0" by (simp add: first_period_def)
    with tw show ?thesis by (simp add: cut_def occurrences_in_window_def Some)
  qed
qed

lemma expand_settles:
  assumes g: "good_input I E off"
  shows "settles E (occurrences_in_window I E (first_period I E + max_periods)) (expand I E)"
proof -
  have "0 \<le> first_period I E" by (simp add: first_period_def Let_def)
  from scan_periods_settles [OF g this, of "[]" 0 "first_period I E + max_periods"]
  show ?thesis using cut_reference [OF g] good_inputD(6) [OF g]
    by (simp add: expand_def max_periods_def)
qed

section \<open>Scheduled occurrences\<close>

text \<open>
  An occurrence of the rule, with no window and no bound on the periods: one of the first
  COUNT occurrences that are not beyond UNTIL.
\<close>

definition scheduled :: "intl \<Rightarrow> expand_input \<Rightarrow> expanded \<Rightarrow> bool" where
  "scheduled I E x \<longleftrightarrow>
     (\<exists>n. x \<in> set (take_count (r_count (in_rule E))
             (filter (\<lambda>x. \<not> beyond E x) (rule_occurrences I E 0 n))))"

lemma scheduled_in: "scheduled I E x \<Longrightarrow> \<exists>n. x \<in> set (rule_occurrences I E 0 n)"
  by (fastforce simp: scheduled_def take_count_def split: option.splits dest: in_set_takeD)

lemma take_count_append:
  "set (take_count c xs) \<subseteq> set (take_count c (xs @ ys))"
  "set (take_count c (xs @ ys)) \<subseteq> set (take_count c xs) \<union> set ys"
  by (auto simp: take_count_def split: option.splits dest: in_set_takeD)

lemma period_start_far:
  assumes s: "good_start s" and i: "1 \<le> r_interval r" and k: "0 \<le> k" "k \<le> l"
  shows "to_epoch_day (period_start r s k) + (l - k) \<le> to_epoch_day (period_start r s l)"
  using k(2)
proof (induction "nat (l - k)" arbitrary: l)
  case (Suc n)
  then have "n = nat (l - 1 - k)" "k \<le> l - 1" by auto
  with Suc.hyps(1) [of "l - 1"]
  have "to_epoch_day (period_start r s k) + (l - 1 - k) \<le> to_epoch_day (period_start r s (l - 1))" by blast
  also have "\<dots> < to_epoch_day (period_start r s l)"
    using period_start_step [OF s i, of "l - 1"] k(1) Suc by simp
  finally show ?case by simp
qed simp

lemma start_before_second_period:
  assumes s: "good_start s" and i: "1 \<le> r_interval r"
  shows "to_epoch_day s < to_epoch_day (period_start r s 1)"
proof (cases "r_freq r")
  case DAILY
  then show ?thesis using period_start_epoch(1) [OF s i, of 1] i by simp
next
  case WEEKLY
  have "-719390 \<le> to_epoch_day s" using good_start_epoch [OF s] by (simp add: first_day_def)
  then show ?thesis
    using period_start_epoch(2) [OF s i, of 1] i WEEKLY start_of_week_epoch(3) [of s "r_wkst r"]
    by simp
next
  case MONTHLY
  obtain y m where a: "period_start r s 1 = ymd y m 1" "1 \<le> m" "m \<le> 12"
      "y * 12 + m = start_index s + 1 * r_interval r"
    using period_start_month [OF s i _ MONTHLY, of 1] by auto
  have "valid_date s" "1 \<le> month s" "month s \<le> 12" using s by (auto simp: good_start_def valid_date_def)
  then show ?thesis unfolding a(1) using a(2-) i
    by (intro to_epoch_day_ymd_less first_of_month) (auto simp: date_less_def start_index_def)
next
  case YEARLY
  have "valid_date s" using s by (simp add: good_start_def)
  then show ?thesis using YEARLY i period_start_epoch(3) [OF s i, of 1]
    by (intro to_epoch_day_ymd_less) (auto simp: date_less_def period_start_def)
qed

text \<open>The bound on the periods leaves nothing out of a window within 545 years of the start.\<close>

definition near_start :: "expand_input \<Rightarrow> bool" where
  "near_start E \<longleftrightarrow> win_to E \<le> local_as_utc_ms (in_dtstart E) + 199000 * ms_per_day"

lemma far_period_after_window:
  assumes g: "good_input I E off" and near: "near_start E"
    and x: "x \<in> set (rule_occurrences I E (first_period I E + max_periods) n)"
  shows "win_to E \<le> ex_instant x"
proof -
  let ?s = "date_of (in_dtstart E)"
  let ?ps = "\<lambda>k. to_epoch_day (period_start (in_rule E) ?s k)"
  note gs = good_inputD(1) [OF g] good_inputD(3) [OF g]
  have f0: "0 \<le> first_period I E" by (simp add: first_period_def Let_def)
  obtain j where j: "first_period I E + max_periods \<le> j" "x \<in> set (period_occurrences I E j)"
    using x by (rule rule_occurrences_in)
  then have j1: "200000 \<le> j" using f0 by (simp add: max_periods_def)
  obtain d where d: "x = occ_of I E d" "between d (?ps j) (?ps (j + 1))"
    "0 \<le> compare_local_date_times (with_time d (in_dtstart E)) (in_dtstart E)"
    using period_occurrences_in [OF g _ j(2)] j1 by auto
  have "?ps 1 + (j - 1) \<le> ?ps j" using j1 by (intro period_start_far gs) auto
  then have e: "to_epoch_day ?s + 199999 \<le> to_epoch_day d"
    using start_before_second_period [OF gs] j1 d(2) by (simp add: between_def)
  have vd: "valid_date d" using d(2) by (simp add: between_def)
  obtain u where i: "ex_instant x = to_epoch_day d * ms_per_day + clock_ms (in_dtstart E) - off u"
    using occ_instant(1) [OF g vd d(3)] d(1) by blast
  have vs: "valid_date ?s" using gs(1) by (simp add: good_start_def)
  have "with_time ?s (in_dtstart E) = in_dtstart E" by (simp add: with_time_def at_time_def)
  with with_time_props(3) [OF vs good_inputD(4) [OF g]]
  have p: "local_as_utc_ms (in_dtstart E) = to_epoch_day ?s * ms_per_day + clock_ms (in_dtstart E)"
    by simp
  have "(to_epoch_day ?s + 199999) * ms_per_day \<le> to_epoch_day d * ms_per_day"
    using e by (intro mult_right_mono) auto
  then show ?thesis
    using near i p zone_modelD(3) [OF good_inputD(5) [OF g], of u] ms_per_day_pos(1)
    unfolding near_start_def distrib_right by linarith
qed

lemma scheduled_in_window:
  assumes g: "good_input I E off" and near: "near_start E"
  shows "set (occurrences_in_window I E (first_period I E + max_periods)) =
    {x. scheduled I E x \<and> in_window E x}"
proof -
  define m where "m = first_period I E + max_periods"
  define A where "A = filter (\<lambda>x. \<not> beyond E x) (rule_occurrences I E 0 m)"
  have m0: "0 \<le> m" by (simp add: m_def first_period_def Let_def max_periods_def)
  have "x \<in> set (take_count (r_count (in_rule E)) A)" if s: "scheduled I E x" and w: "in_window E x" for x
  proof -
    obtain n where n: "x \<in> set (take_count (r_count (in_rule E))
        (filter (\<lambda>x. \<not> beyond E x) (rule_occurrences I E 0 n)))"
      using s by (auto simp: scheduled_def)
    consider "n < 0" | "0 \<le> n" "n \<le> m" | "m < n" by linarith
    then show ?thesis
    proof cases
      case 1
      then show ?thesis using n by (simp add: rule_occurrences_step take_count_def split: option.splits)
    next
      case 2
      then show ?thesis using n rule_occurrences_split [of 0 n m I E]
        by (auto simp: A_def intro: take_count_append(1) [THEN subsetD])
    next
      case 3
      then have "x \<in> set (take_count (r_count (in_rule E)) A) \<or> x \<in> set (rule_occurrences I E m n)"
        using n take_count_append(2) [of "r_count (in_rule E)" A
            "filter (\<lambda>x. \<not> beyond E x) (rule_occurrences I E m n)"]
          rule_occurrences_split [OF m0, of n I E]
        by (auto simp: A_def)
      then show ?thesis using far_period_after_window [OF g near, of x n] w
        by (auto simp: m_def in_window_def)
    qed
  qed
  then show ?thesis by (auto simp: occurrences_in_window_def scheduled_def A_def m_def)
qed

lemma occurrences_in_window_sorted:
  assumes "good_input I E off"
  shows "sorted_wrt later (occurrences_in_window I E n)"
proof -
  have "sorted_wrt later (take_count c (filter P (rule_occurrences I E 0 n)))" for c P
    using rule_occurrences_sorted [OF assms, of 0 n]
    by (cases c) (auto simp: take_count_def intro: sorted_wrt_filter sorted_wrt_take)
  then show ?thesis by (simp add: occurrences_in_window_def sorted_wrt_filter)
qed

lemma expand_found:
  assumes "good_input I E off" "near_start E" "expand I E = Inr x"
  shows "set (occurrences x) = {x. scheduled I E x \<and> in_window E x}" "distinct (map ex_instant (occurrences x))"
proof -
  have x: "occurrences x = occurrences_in_window I E (first_period I E + max_periods)"
    using expand_settles [OF assms(1)] assms(3) by (simp add: settles_def)
  then show "set (occurrences x) = {x. scheduled I E x \<and> in_window E x}"
    using scheduled_in_window [OF assms(1,2)] by simp
  have "sorted_wrt later xs \<Longrightarrow> distinct (map ex_instant xs)" for xs
    by (induction xs) (auto simp: later_def)
  then show "distinct (map ex_instant (occurrences x))"
    using occurrences_in_window_sorted [OF assms(1)] by (simp add: x)
qed


section \<open>Exhausted rules\<close>

lemma take_count_Cons:
  "x \<in> set (take_count (map_option (\<lambda>c. c - n) r) (y # ys)) \<longleftrightarrow>
     (case r of None \<Rightarrow> True | Some c \<Rightarrow> n + 1 \<le> c)
     \<and> (x = y \<or> x \<in> set (take_count (map_option (\<lambda>c. c - (n + 1)) r) ys))"
proof (cases r)
  case (Some c)
  have "n + 1 \<le> c \<Longrightarrow> nat (c - n) = Suc (nat (c - (n + 1)))" by simp
  then show ?thesis by (cases "n + 1 \<le> c") (simp_all add: take_count_def Some)
qed (simp add: take_count_def)

lemma scan_list_exhausted:
  assumes "sorted_wrt later (xs @ rest)"
    and "scan_list E xs occs n = Inl (Inr e)" "exhausted e"
    and "x \<in> set (take_count (map_option (\<lambda>c. c - n) (r_count (in_rule E)))
           (takeWhile (\<lambda>x. \<not> beyond E x) (xs @ rest)))"
  shows "ex_instant x < win_to E"
  using assms
proof (induction xs arbitrary: occs n)
  case (Cons y ys)
  have y: "\<not> beyond E y"
    using Cons.prems(4) by (cases "beyond E y") (auto simp: take_count_def split: option.splits)
  then have x: "(case r_count (in_rule E) of None \<Rightarrow> True | Some c \<Rightarrow> n + 1 \<le> c)"
    "x = y \<or> x \<in> set (take_count (map_option (\<lambda>c. c - (n + 1)) (r_count (in_rule E)))
      (takeWhile (\<lambda>x. \<not> beyond E x) (ys @ rest)))"
    using Cons.prems(4) by (simp_all add: take_count_Cons)
  have so: "sorted_wrt later (ys @ rest)" using Cons.prems(1) by simp
  show ?case
    using x y Cons.prems(2,3) Cons.IH [OF so _ Cons.prems(3)]
    by (auto split: if_splits option.splits)
qed simp

lemma scan_list_count:
  "scan_list E xs occs n = Inr (occs', n') \<Longrightarrow> sorted_wrt later (xs @ rest) \<Longrightarrow>
     x \<in> set (take_count (map_option (\<lambda>c. c - n) (r_count (in_rule E)))
           (takeWhile (\<lambda>x. \<not> beyond E x) (xs @ rest))) \<Longrightarrow>
     ex_instant x < win_to E \<or>
     x \<in> set (take_count (map_option (\<lambda>c. c - n') (r_count (in_rule E)))
           (takeWhile (\<lambda>x. \<not> beyond E x) rest))"
proof (induction xs arbitrary: occs n)
  case (Cons y ys)
  have y: "\<not> beyond E y"
    using Cons.prems(3) by (cases "beyond E y") (auto simp: take_count_def split: option.splits)
  then have x: "x = y \<or> x \<in> set (take_count (map_option (\<lambda>c. c - (n + 1)) (r_count (in_rule E)))
      (takeWhile (\<lambda>x. \<not> beyond E x) (ys @ rest)))"
    using Cons.prems(3) by (simp add: take_count_Cons)
  have so: "sorted_wrt later (ys @ rest)" using Cons.prems(2) by simp
  show ?case
    using x Cons.prems(1) Cons.IH [OF _ so] by (auto split: if_splits)
qed simp

lemma scan_periods_exhausted:
  assumes g: "good_input I E off"
  shows "0 \<le> k \<Longrightarrow> stop \<le> m \<Longrightarrow>
     scan_periods I E window_end k stop occs n = Inr e \<Longrightarrow> exhausted e \<Longrightarrow>
     x \<in> set (take_count (map_option (\<lambda>c. c - n) (r_count (in_rule E)))
           (takeWhile (\<lambda>x. \<not> beyond E x) (rule_occurrences I E k m))) \<Longrightarrow>
     ex_instant x < win_to E"
proof (induction "nat (stop - k)" arbitrary: k occs n)
  case 0
  then show ?case using scan_periods.simps [of I E window_end k stop occs n] by auto
next
  case (Suc l)
  let ?s = "date_of (in_dtstart E)"
  have k: "k < stop" "l = nat (stop - (k + 1))" "0 \<le> k + 1" using Suc.hyps(2) Suc.prems(1) by auto
  have st: "rule_occurrences I E k m = period_occurrences I E k @ rule_occurrences I E (k + 1) m"
    using k(1) Suc.prems(2) by (simp add: rule_occurrences_step)
  have so: "sorted_wrt later (period_occurrences I E k @ rule_occurrences I E (k + 1) m)"
    using rule_occurrences_sorted [OF g Suc.prems(1), of m] by (simp add: st)
  have sc: "scan_dates I E (candidates_for_period (in_rule E) ?s k) occs n =
      scan_list E (period_occurrences I E k) occs n"
    by (simp add: scan_dates_list period_occurrences_def)
  have go: "\<not> compare_local_dates (period_start (in_rule E) ?s k) (add_days window_end 1) > 0"
    using Suc.prems(3,4) k(1) scan_periods.simps [of I E window_end k stop occs n]
    by (auto split: if_splits)
  show ?case
  proof (cases "scan_list E (period_occurrences I E k) occs n")
    case (Inl r)
    then have "r = Inr e" using Suc.prems(3) k(1) go sc
      scan_periods.simps [of I E window_end k stop occs n] by simp
    then show ?thesis
      using scan_list_exhausted [OF so] Inl Suc.prems(4,5) by (simp add: st)
  next
    case (Inr p)
    then obtain occs' n' where p: "scan_list E (period_occurrences I E k) occs n = Inr (occs', n')"
      by (cases p) auto
    then have "scan_periods I E window_end (k + 1) stop occs' n' = Inr e"
      using Suc.prems(3) k(1) go sc
      scan_periods.simps [of I E window_end k stop occs n] by simp
    then show ?thesis
      using scan_list_count [OF p so] Suc.hyps(1) [OF k(2,3) Suc.prems(2) _ Suc.prems(4)] Suc.prems(5)
      by (auto simp: st)
  qed
qed

lemma exhausted_no_more:
  assumes g: "good_input I E off" and e: "expand I E = Inr e" "exhausted e"
    and x: "scheduled I E x"
  shows "ex_instant x < win_to E"
proof -
  let ?f = "first_period I E"
  let ?b = "\<lambda>x. \<not> beyond E x"
  obtain n where n: "x \<in> set (take_count (r_count (in_rule E)) (filter ?b (rule_occurrences I E 0 n)))"
    using x by (auto simp: scheduled_def)
  define m where "m = max n (?f + max_periods)"
  have f0: "0 \<le> ?f" by (simp add: first_period_def Let_def)
  have le: "?f \<le> m" "?f + max_periods \<le> m" by (auto simp: m_def max_periods_def)
  have "rule_occurrences I E 0 m = rule_occurrences I E 0 n @ rule_occurrences I E (max 0 n) m"
    using rule_occurrences_split [of 0 n m I E] rule_occurrences_step(2) [of n 0 I E]
    by (cases "0 \<le> n") (simp_all add: m_def)
  then have xm: "x \<in> set (take_count (r_count (in_rule E)) (filter ?b (rule_occurrences I E 0 m)))"
    using n by (auto intro: take_count_append(1) [THEN subsetD])
  have tw: "takeWhile ?b (rule_occurrences I E ?f m) = filter ?b (rule_occurrences I E ?f m)"
    using rule_occurrences_sorted [OF g f0] beyond_mono by (rule takeWhile_sorted)
  have ex: "y \<in> set (take_count (map_option (\<lambda>c. c - 0) (r_count (in_rule E)))
      (takeWhile ?b (rule_occurrences I E ?f m))) \<Longrightarrow> ex_instant y < win_to E" for y
    using scan_periods_exhausted [OF g f0 le(2) e(1) [unfolded expand_def] e(2)] .
  have we: "win_from E \<le> win_to E" using g by (simp add: good_input_def)
  show ?thesis
  proof (cases "r_count (in_rule E)")
    case None
    have "x \<in> set (rule_occurrences I E 0 ?f) \<or> x \<in> set (filter ?b (rule_occurrences I E ?f m))"
      using xm None rule_occurrences_split [OF f0 le(1), of I E] by (auto simp: take_count_def)
    then show ?thesis
    proof
      assume "x \<in> set (rule_occurrences I E 0 ?f)"
      from skipped_before_window [OF g this] we show ?thesis by simp
    next
      assume "x \<in> set (filter ?b (rule_occurrences I E ?f m))"
      with ex [of x] None tw show ?thesis by (simp add: take_count_def)
    qed
  next
    case (Some c)
    then have "?f = 0" by (simp add: first_period_def)
    with xm ex [of x] tw Some show ?thesis by simp
  qed
qed

text \<open>
  An expansion that reports the rule as exhausted is right: no scheduled occurrence starts
  at or after the window's end, so there is never anything more to materialise.
\<close>

theorem expand_exhausted:
  assumes "good_input I E off" "expand I E = Inr e" "exhausted e" "scheduled I E x"
  shows "ex_instant x < win_to E"
  by (rule exhausted_no_more [OF assms])

section \<open>A weekly series in London\<close>

definition swimming :: expand_input where
  "swimming =
     \<lparr>in_rule = \<lparr>r_freq = WEEKLY, r_interval = 1, r_count = None, r_until = None,
        r_by_day = [\<lparr>by_weekday = TU, by_ordinal = None\<rparr>], r_by_month_day = [],
        r_by_month = [], r_wkst = MO\<rparr>,
      in_dtstart = at_time (ymd 2026 3 24) 16 0 0, in_zone = ''Europe/London'',
      win_from = 1774300000000, win_to = 1775300000000, in_max = None\<rparr>"

lemma swimming_good: "good_input london_intl swimming london"
proof -
  have "valid_rule (in_rule swimming)" by (simp add: swimming_def valid_rule_def valid_by_day_def)
  moreover have "valid_local (in_dtstart swimming)" by code_simp
  moreover have "1 \<le> year (in_dtstart swimming)" by (simp add: swimming_def)
  moreover have "\<bar>london s - london t\<bar> < ms_per_day" for s t
    by (simp add: london_def ms_per_day_def)
  moreover have "win_from swimming \<le> win_to swimming"
    "(first_day + 10) * ms_per_day \<le> win_from swimming" "0 \<le> expand_limit swimming"
    by (simp_all add: swimming_def first_day_def ms_per_day_def expand_limit_def
        max_occurrences_default_def)
  moreover have "in_zone swimming = ''Europe/London''" by (simp add: swimming_def)
  ultimately show ?thesis using london_model by (simp add: good_input_def)
qed

lemma swimming_near: "near_start swimming"
proof -
  have "local_as_utc_ms (in_dtstart swimming) = 1774368000000" by code_simp
  then show ?thesis by (simp add: near_start_def) (simp add: swimming_def ms_per_day_def)
qed


text \<open>One day only: a daily rule with \<open>COUNT=1\<close>, in UTC.\<close>

lemma utc_instant:
  "valid_local l \<Longrightarrow> 1 \<le> year l \<Longrightarrow> local_to_instant london_intl l ''UTC'' = local_as_utc_ms l"
  using local_to_instant_pick [OF utc_model, of l] by (simp add: pick_instant_def)

lemma utc_reading: "instant_to_local london_intl t ''UTC'' = local_of_ms t"
  using zone_modelD(1) [OF utc_model, of t] by simp

definition one_day :: expand_input where
  "one_day =
     \<lparr>in_rule = \<lparr>r_freq = DAILY, r_interval = 1, r_count = Some 1, r_until = None, r_by_day = [],
        r_by_month_day = [], r_by_month = [], r_wkst = MO\<rparr>,
      in_dtstart = at_time (ymd 2026 1 1) 9 0 0, in_zone = ''UTC'',
      win_from = 1767225600000, win_to = 1767484800000, in_max = None\<rparr>"

definition new_year :: expanded where
  "new_year = \<lparr>ex_local = at_time (ymd 2026 1 1) 9 0 0, ex_instant = 1767258000000\<rparr>"

lemma one_day_good: "good_input london_intl one_day (\<lambda>_. 0)"
proof -
  have "valid_rule (in_rule one_day)" by (simp add: one_day_def valid_rule_def)
  moreover have "valid_local (in_dtstart one_day)" by code_simp
  moreover have "in_zone one_day = ''UTC''" "1 \<le> year (in_dtstart one_day)"
    "win_from one_day \<le> win_to one_day"
    "(first_day + 10) * ms_per_day \<le> win_from one_day" "0 \<le> expand_limit one_day"
    by (simp_all add: one_day_def first_day_def ms_per_day_def expand_limit_def
        max_occurrences_default_def)
  ultimately show ?thesis using utc_model by (simp add: good_input_def)
qed

lemma one_day_dates:
  "valid_local (at_time (ymd 2026 1 1) 9 0 0)" "valid_local (at_time (ymd 2026 1 2) 9 0 0)"
  "local_as_utc_ms (at_time (ymd 2026 1 1) 9 0 0) = 1767258000000"
  "local_as_utc_ms (at_time (ymd 2026 1 2) 9 0 0) = 1767344400000"
  "candidates_for_period (in_rule one_day) (ymd 2026 1 1) 0 = [ymd 2026 1 1]"
  "candidates_for_period (in_rule one_day) (ymd 2026 1 1) 1 = [ymd 2026 1 2]"
  "compare_local_dates (period_start (in_rule one_day) (ymd 2026 1 1) 0)
     (add_days (date_of (local_of_ms 1767484800000)) 1) = -4"
  "compare_local_dates (period_start (in_rule one_day) (ymd 2026 1 1) 1)
     (add_days (date_of (local_of_ms 1767484800000)) 1) = -3"
  by code_simp+

lemma one_day_fields:
  "in_dtstart one_day = at_time (ymd 2026 1 1) 9 0 0" "in_zone one_day = ''UTC''"
  "win_from one_day = 1767225600000" "win_to one_day = 1767484800000"
  "r_count (in_rule one_day) = Some 1" "r_until (in_rule one_day) = None"
  "expand_limit one_day = 1000" "first_period london_intl one_day = 0"
  "date_of (at_time (ymd 2026 1 1) 9 0 0) = ymd 2026 1 1"
  "with_time d (at_time (ymd 2026 1 1) 9 0 0) = at_time d 9 0 0"
  by (simp_all add: one_day_def expand_limit_def max_occurrences_default_def first_period_def
      date_of_def with_time_def)

lemma one_day_expand:
  "expand london_intl one_day = Inr \<lparr>occurrences = [new_year], exhausted = True\<rparr>"
  unfolding expand_def one_day_fields utc_reading add_0
  using scan_periods.simps [of london_intl one_day "date_of (local_of_ms 1767484800000)" 0
      max_periods "[]" 0]
    scan_periods.simps [of london_intl one_day "date_of (local_of_ms 1767484800000)" 1
      max_periods "[new_year]" 1]
  by (simp add: max_periods_def one_day_fields one_day_dates utc_instant beyond_until_def Let_def
      compare_local_date_times_def new_year_def)

lemma one_day_scheduled: "scheduled london_intl one_day new_year"
proof -
  have "[new_year] = occurrences_in_window london_intl one_day
      (first_period london_intl one_day + max_periods)"
    using expand_settles [OF one_day_good] by (simp add: one_day_expand settles_def)
  then have "new_year \<in> set (occurrences_in_window london_intl one_day
      (first_period london_intl one_day + max_periods))"
    by (metis list.set_intros(1))
  then show ?thesis unfolding occurrences_in_window_def scheduled_def by auto
qed

theorem expand_exhausted_witness:
  "exhausted \<lparr>occurrences = [new_year], exhausted = True\<rparr> \<and> ex_instant new_year < win_to one_day"
  using expand_exhausted [OF one_day_good one_day_expand _ one_day_scheduled] by simp

end
