(* ===== verification/Next_Occurrence.thy ===== *)
theory Next_Occurrence
  imports Expand_Facts
begin

text \<open>
  The first occurrence after an instant,
  \<open>packages/kernel/src/recurrence/next-occurrence.ts\<close>: windows that double in width, at
  most 64 of them. The lemmas show that the answer is an occurrence, that no earlier one was
  passed over, and how far the search reaches before it answers that there is none.
\<close>

section \<open>The search\<close>

definition max_steps :: nat where "max_steps = 64"
definition max_span_days :: int where "max_span_days = 3660"

definition initial_span_days :: "rrule \<Rightarrow> int" where
  "initial_span_days rule =
     (let per_period = (case r_freq rule of DAILY \<Rightarrow> 2 | WEEKLY \<Rightarrow> 8 | MONTHLY \<Rightarrow> 32 | YEARLY \<Rightarrow> 367) in
      min (per_period * r_interval rule) max_span_days)"

definition window_input ::
  "rrule \<Rightarrow> local_date_time \<Rightarrow> string \<Rightarrow> int \<Rightarrow> int \<Rightarrow> expand_input"
where
  "window_input rule dtstart tz a b =
     \<lparr>in_rule = rule, in_dtstart = dtstart, in_zone = tz, win_from = a, win_to = b,
      in_max = None\<rparr>"

fun search ::
  "intl \<Rightarrow> rrule \<Rightarrow> local_date_time \<Rightarrow> string \<Rightarrow> nat \<Rightarrow> int \<Rightarrow> int \<Rightarrow> expanded option outcome"
where
  "search I rule dtstart tz 0 a span = Inr None"
| "search I rule dtstart tz (Suc n) a span =
     (let b = a + span * ms_per_day in
      case expand I (window_input rule dtstart tz a b) of
        Inl e \<Rightarrow> Inl e
      | Inr x \<Rightarrow>
          (case occurrences x of
             first # _ \<Rightarrow> Inr (Some first)
           | [] \<Rightarrow>
               if exhausted x then Inr None
               else search I rule dtstart tz n b (min (span * 2) max_span_days)))"

definition next_occurrence_after ::
  "intl \<Rightarrow> rrule \<Rightarrow> local_date_time \<Rightarrow> string \<Rightarrow> int \<Rightarrow> expanded option outcome"
where
  "next_occurrence_after I rule dtstart tz after =
     search I rule dtstart tz max_steps (after + 1) (initial_span_days rule)"

section \<open>What the search finds\<close>

text \<open>Where the last of \<open>n\<close> windows ends.\<close>

fun reach :: "nat \<Rightarrow> int \<Rightarrow> int \<Rightarrow> int" where
  "reach 0 a span = a"
| "reach (Suc n) a span = reach n (a + span * ms_per_day) (min (span * 2) max_span_days)"

lemma reach_shift: "reach n a span = a + reach n 0 span"
  by (induction n arbitrary: a span) (simp, metis (no_types, lifting) add.assoc add_0 reach.simps(2))

lemma reach_mono: "0 \<le> s \<Longrightarrow> s \<le> t \<Longrightarrow> a \<le> b \<Longrightarrow> reach n a s \<le> reach n b t"
proof (induction n arbitrary: a b s t)
  case (Suc n)
  have "s * ms_per_day \<le> t * ms_per_day" using Suc.prems by (intro mult_right_mono) auto
  then have "a + s * ms_per_day \<le> b + t * ms_per_day" using Suc.prems by linarith
  with Suc.prems show ?case unfolding reach.simps
    by (intro Suc.IH) (auto simp: max_span_days_def)
qed simp

lemma reach_far: "2 \<le> span \<Longrightarrow> a + 190000 * ms_per_day \<le> reach 64 a span"
proof -
  assume "2 \<le> span"
  then have "reach 64 0 2 \<le> reach 64 0 span" by (intro reach_mono) auto
  moreover have "190000 * ms_per_day \<le> reach 64 0 2" by code_simp
  ultimately show ?thesis using reach_shift [of 64 a span] by simp
qed

text \<open>A start and a zone the search is meant for.\<close>

definition good_series :: "intl \<Rightarrow> rrule \<Rightarrow> local_date_time \<Rightarrow> string \<Rightarrow> (int \<Rightarrow> int) \<Rightarrow> bool" where
  "good_series I rule dtstart tz off \<longleftrightarrow>
     valid_rule rule \<and> valid_local dtstart \<and> 1 \<le> year dtstart
     \<and> zone_model I tz off \<and> (\<forall>s t. \<bar>off s - off t\<bar> < ms_per_day)"

definition series_occurrence ::
  "intl \<Rightarrow> rrule \<Rightarrow> local_date_time \<Rightarrow> string \<Rightarrow> expanded \<Rightarrow> bool"
where
  "series_occurrence I rule dtstart tz = scheduled I (window_input rule dtstart tz 0 0)"

lemma scheduled_window:
  "scheduled I (window_input rule dtstart tz a b) = series_occurrence I rule dtstart tz"
proof -
  have p: "period_occurrences I (window_input rule dtstart tz a b) =
      period_occurrences I (window_input rule dtstart tz 0 0)"
    by (simp add: fun_eq_iff period_occurrences_def window_input_def)
  have b: "beyond (window_input rule dtstart tz a b) = beyond (window_input rule dtstart tz 0 0)"
    "r_count (in_rule (window_input rule dtstart tz a b)) = r_count rule"
    "r_count (in_rule (window_input rule dtstart tz 0 0)) = r_count rule"
    by (simp_all add: fun_eq_iff beyond_def) (simp_all add: window_input_def)
  show ?thesis
    unfolding series_occurrence_def scheduled_def [abs_def] rule_occurrences_def p b ..
qed

lemma good_window:
  assumes "good_series I rule dtstart tz off" "(first_day + 10) * ms_per_day \<le> a" "a \<le> b"
  shows "good_input I (window_input rule dtstart tz a b) off"
  using assms by (simp add: good_series_def good_input_def window_input_def expand_limit_def
      max_occurrences_default_def)

lemma sorted_later_head:
  "sorted_wrt later (x # xs) \<Longrightarrow> y \<in> set (x # xs) \<Longrightarrow> ex_instant x \<le> ex_instant y"
  by (auto simp: later_def)

definition near_limit :: "local_date_time \<Rightarrow> int" where
  "near_limit dtstart = local_as_utc_ms dtstart + 199000 * ms_per_day"

lemma search_sound:
  assumes g: "good_series I rule dtstart tz off"
  shows "(first_day + 10) * ms_per_day \<le> a \<Longrightarrow> 1 \<le> span \<Longrightarrow> span \<le> max_span_days \<Longrightarrow>
    case search I rule dtstart tz n a span of
      Inl e \<Rightarrow> e = RecurrenceTooDense max_occurrences_default
    | Inr None \<Rightarrow> \<forall>y. series_occurrence I rule dtstart tz y \<and> a \<le> ex_instant y \<longrightarrow>
        reach n a span \<le> ex_instant y \<or> near_limit dtstart - max_span_days * ms_per_day < ex_instant y
    | Inr (Some x) \<Rightarrow> series_occurrence I rule dtstart tz x \<and> a \<le> ex_instant x \<and>
        (ex_instant x \<le> near_limit dtstart - max_span_days * ms_per_day \<longrightarrow>
          (\<forall>y. series_occurrence I rule dtstart tz y \<and> a \<le> ex_instant y \<longrightarrow>
            ex_instant x \<le> ex_instant y))"
proof (induction n arbitrary: a span)
  case (Suc n)
  define b where "b = a + span * ms_per_day"
  define E where "E = window_input rule dtstart tz a b"
  have sp: "span * ms_per_day \<le> max_span_days * ms_per_day" "0 \<le> span * ms_per_day"
    using Suc.prems by (auto intro: mult_right_mono)
  then have ab: "a \<le> b" "b \<le> a + max_span_days * ms_per_day" by (auto simp: b_def)
  have gi: "good_input I E off" unfolding E_def by (rule good_window [OF g Suc.prems(1) ab(1)])
  have lim: "expand_limit E = max_occurrences_default" by (simp add: E_def window_input_def expand_limit_def)
  have win: "win_from E = a" "win_to E = b" by (simp_all add: E_def window_input_def)
  have sch: "scheduled I E = series_occurrence I rule dtstart tz" by (simp add: E_def scheduled_window)
  let ?want = "occurrences_in_window I E (first_period I E + max_periods)"
  note st = expand_settles [OF gi]
  have want: "series_occurrence I rule dtstart tz x \<and> a \<le> ex_instant x \<and> ex_instant x < b"
    if "x \<in> set ?want" for x
    using that by (auto simp: occurrences_in_window_def in_window_def win sch [symmetric] scheduled_def)
  have full: "y \<in> set ?want" if "b \<le> near_limit dtstart" "series_occurrence I rule dtstart tz y"
    "a \<le> ex_instant y" "ex_instant y < b" for y
  proof -
    have "near_start E" using that(1) by (simp add: near_start_def win near_limit_def)
        (simp add: E_def window_input_def)
    from scheduled_in_window [OF gi this] that show ?thesis by (simp add: sch in_window_def win)
  qed
  have srt: "sorted_wrt later ?want"
  proof -
    have "sorted_wrt later (take_count c (filter P (rule_occurrences I E 0 m)))" for c P m
      using rule_occurrences_sorted [OF gi, of 0 m]
      by (cases c) (auto simp: take_count_def intro: sorted_wrt_filter sorted_wrt_take)
    then show ?thesis by (simp add: occurrences_in_window_def sorted_wrt_filter)
  qed
  have sr: "search I rule dtstart tz (Suc n) a span =
      (case expand I E of Inl e \<Rightarrow> Inl e
       | Inr x \<Rightarrow> (case occurrences x of first # _ \<Rightarrow> Inr (Some first)
           | [] \<Rightarrow> if exhausted x then Inr None
                 else search I rule dtstart tz n b (min (span * 2) max_span_days)))"
    unfolding search.simps Let_def E_def b_def ..
  show ?case
  proof (cases "expand I E")
    case (Inl e)
    with st lim show ?thesis unfolding sr by (simp add: settles_def)
  next
    case (Inr x)
    then have w: "?want = occurrences x" using st by (simp add: settles_def)
    show ?thesis
    proof (cases "occurrences x")
      case (Cons f fs)
      have f: "series_occurrence I rule dtstart tz f" "a \<le> ex_instant f" "ex_instant f < b"
        using want [of f] by (auto simp: w Cons)
      have "ex_instant f \<le> ex_instant y"
        if y: "ex_instant f \<le> near_limit dtstart - max_span_days * ms_per_day"
          "series_occurrence I rule dtstart tz y" "a \<le> ex_instant y" for y
      proof (cases "ex_instant y < b")
        case True
        with full [of y] y f(2) ab(2) have "y \<in> set (f # fs)" by (simp add: w Cons)
        then show ?thesis using sorted_later_head [of f fs y] srt by (simp add: w Cons)
      qed (use f(3) in simp)
      with f show ?thesis unfolding sr by (simp add: Inr Cons)
    next
      case Nil
      have none: "near_limit dtstart - max_span_days * ms_per_day < ex_instant y"
        if "series_occurrence I rule dtstart tz y" "a \<le> ex_instant y" "ex_instant y < b" for y
        using full [of y] that ab(2) by (cases "b \<le> near_limit dtstart") (simp_all add: w Nil)
      show ?thesis
      proof (cases "exhausted x")
        case True
        have "ex_instant y < b" if "series_occurrence I rule dtstart tz y" for y
          using exhausted_no_more [OF gi Inr True] that by (simp add: sch win)
        with none True show ?thesis unfolding sr by (auto simp: Inr Nil)
      next
        case False
        have pre: "(first_day + 10) * ms_per_day \<le> b" "1 \<le> min (span * 2) max_span_days"
          "min (span * 2) max_span_days \<le> max_span_days"
          using Suc.prems ab by (auto simp: max_span_days_def)
        have same: "search I rule dtstart tz (Suc n) a span =
            search I rule dtstart tz n b (min (span * 2) max_span_days)"
          unfolding sr by (simp add: Inr Nil False)
        have rch: "reach (Suc n) a span = reach n b (min (span * 2) max_span_days)"
          by (simp add: b_def)
        have early: "near_limit dtstart - max_span_days * ms_per_day < ex_instant y
            \<or> b \<le> ex_instant y" if "series_occurrence I rule dtstart tz y" "a \<le> ex_instant y" for y
          using none [of y] that by fastforce
        from Suc.IH [OF pre] ab(1) early show ?thesis unfolding same rch
          by (fastforce split: sum.splits option.splits)
      qed
    qed
  qed
qed simp

lemma initial_span_range:
  "1 \<le> r_interval rule \<Longrightarrow> 2 \<le> initial_span_days rule \<and> initial_span_days rule \<le> max_span_days"
  by (cases "r_freq rule") (auto simp: initial_span_days_def max_span_days_def Let_def)

lemma next_occurrence_spec:
  assumes "good_series I rule dtstart tz off" "(first_day + 10) * ms_per_day \<le> after + 1"
  shows "case next_occurrence_after I rule dtstart tz after of
      Inl e \<Rightarrow> e = RecurrenceTooDense max_occurrences_default
    | Inr None \<Rightarrow> \<forall>y. series_occurrence I rule dtstart tz y \<and> after < ex_instant y \<longrightarrow>
        after + 190000 * ms_per_day < ex_instant y
        \<or> near_limit dtstart - max_span_days * ms_per_day < ex_instant y
    | Inr (Some x) \<Rightarrow> series_occurrence I rule dtstart tz x \<and> after < ex_instant x \<and>
        (ex_instant x \<le> near_limit dtstart - max_span_days * ms_per_day \<longrightarrow>
          (\<forall>y. series_occurrence I rule dtstart tz y \<and> after < ex_instant y \<longrightarrow>
            ex_instant x \<le> ex_instant y))"
proof -
  have "1 \<le> r_interval rule" using assms(1) by (simp add: good_series_def valid_rule_def)
  then have sp: "2 \<le> initial_span_days rule" "initial_span_days rule \<le> max_span_days"
    using initial_span_range by auto
  have far: "after + 1 + 190000 * ms_per_day \<le> reach 64 (after + 1) (initial_span_days rule)"
    by (rule reach_far [OF sp(1)])
  have s1: "1 \<le> initial_span_days rule" using sp by simp
  from search_sound [OF assms s1 sp(2), of 64] far show ?thesis
    unfolding next_occurrence_after_def max_steps_def
    by (fastforce split: sum.splits option.splits)
qed


section \<open>A yearly birthday\<close>

definition birthday :: rrule where
  "birthday =
     \<lparr>r_freq = YEARLY, r_interval = 1, r_count = None, r_until = None, r_by_day = [],
      r_by_month_day = [], r_by_month = [], r_wkst = MO\<rparr>"

lemma birthday_good:
  "good_series london_intl birthday (at_time (ymd 2024 2 29) 9 0 0) ''Europe/London'' london"
proof -
  have "valid_local (at_time (ymd 2024 2 29) 9 0 0)" by code_simp
  moreover have "\<bar>london s - london t\<bar> < ms_per_day" for s t
    by (simp add: london_def ms_per_day_def)
  ultimately show ?thesis
    using london_model by (simp add: good_series_def birthday_def valid_rule_def)
qed


end
