(* ===== verification/Task_Domain.thy ===== *)
theory Task_Domain
  imports Next_Occurrence
begin

text \<open>
  The Tasks domain, \<open>packages/core/src/tasks/domain\<close>: due dates (\<open>due.ts\<close>), the task
  aggregate with its lifecycle (\<open>task.aggregate.ts\<close>), the overdue condition (\<open>overdue.ts\<close>),
  the successor rule (\<open>successor.ts\<close>) and the outbox events (\<open>events.ts\<close>).

  A method of the aggregate takes the task and returns its result with the task as it is
  afterwards, so that a refusal is seen to leave the task alone. The runtime's zone data is
  the parameter \<open>I\<close>. The lemmas show the invariant of every task the aggregate can reach,
  its lifecycle, its version rule and the overdue marker.
\<close>

section \<open>Due dates\<close>

record local_time =
  lt_hour :: int
  lt_minute :: int

datatype due =
    DueDate local_date string
  | DueDateTime local_date local_time string

datatype due_input =
    DueDateInput string string
  | DueDateTimeInput string string string

definition due_zone :: "due \<Rightarrow> string" where
  "due_zone d = (case d of DueDate _ tz \<Rightarrow> tz | DueDateTime _ _ tz \<Rightarrow> tz)"

definition due_date :: "due \<Rightarrow> local_date" where
  "due_date d = (case d of DueDate x _ \<Rightarrow> x | DueDateTime x _ _ \<Rightarrow> x)"

definition due_kind :: "due option \<Rightarrow> string" where
  "due_kind d =
     (case d of None \<Rightarrow> ''none'' | Some (DueDate _ _) \<Rightarrow> ''date''
      | Some (DueDateTime _ _ _) \<Rightarrow> ''date_time'')"

text \<open>\<open>/^(\d{2}):(\d{2})$/\<close>\<close>

definition parse_local_time :: "string \<Rightarrow> local_time option" where
  "parse_local_time s =
     (if length s = 5 \<and> list_all is_digit (take 2 s) \<and> s ! 2 = CHR '':'' \<and> list_all is_digit (drop 3 s)
      then (let h = int (read_nat (take 2 s)); m = int (read_nat (drop 3 s)) in
            if h > 23 \<or> m > 59 then None else Some \<lparr>lt_hour = h, lt_minute = m\<rparr>)
      else None)"

definition format_local_time :: "local_time \<Rightarrow> string" where
  "format_local_time t = pad_num 2 (lt_hour t) @ '':'' @ pad_num 2 (lt_minute t)"

definition parse_due :: "intl \<Rightarrow> due_input \<Rightarrow> due outcome" where
  "parse_due I input =
     (let (date, tz) = (case input of DueDateInput d z \<Rightarrow> (d, z) | DueDateTimeInput d _ z \<Rightarrow> (d, z)) in
      if \<not> is_valid_time_zone I tz then Inl (UnknownTimeZone tz)
      else
        (case parse_local_date date of
           None \<Rightarrow> Inl (InvalidDue ''date'' ''Not a calendar date (YYYY-MM-DD).'')
         | Some d \<Rightarrow>
             (case input of
                DueDateInput _ _ \<Rightarrow> Inr (DueDate d tz)
              | DueDateTimeInput _ time _ \<Rightarrow>
                  (case parse_local_time time of
                     None \<Rightarrow> Inl (InvalidDue ''time'' ''Not a time of day (HH:mm).'')
                   | Some t \<Rightarrow> Inr (DueDateTime d t tz)))))"

definition due_moment_of :: "intl \<Rightarrow> due \<Rightarrow> int" where
  "due_moment_of I d =
     (case d of
        DueDate x tz \<Rightarrow> start_of_day I (add_days x 1) tz
      | DueDateTime x t tz \<Rightarrow> local_to_instant I (at_time x (lt_hour t) (lt_minute t) 0) tz)"

definition due_local_date_time :: "due \<Rightarrow> local_date_time" where
  "due_local_date_time d =
     (case d of
        DueDate x _ \<Rightarrow> at_time x 0 0 0
      | DueDateTime x t _ \<Rightarrow> at_time x (lt_hour t) (lt_minute t) 0)"

definition same_due :: "intl \<Rightarrow> due option \<Rightarrow> due option \<Rightarrow> bool" where
  "same_due I a b =
     (case (a, b) of
        (Some x, Some y) \<Rightarrow>
          due_moment_of I x = due_moment_of I y \<and> due_kind a = due_kind b \<and> due_zone x = due_zone y
      | _ \<Rightarrow> a = b)"

section \<open>The aggregate\<close>

datatype task_priority = Low | Normal | High

datatype task_category = Household | School | Health | Finance | Admin | Other

datatype task_state =
    Open
  | Completed int "member_id option"
  | Cancelled int "member_id option"

definition status_text :: "task_state \<Rightarrow> string" where
  "status_text st =
     (case st of Open \<Rightarrow> ''open'' | Completed _ _ \<Rightarrow> ''completed'' | Cancelled _ _ \<Rightarrow> ''cancelled'')"

datatype changed_group = Details | Due | Recurrence | Assignees | Status

definition title_max :: nat where "title_max = 200"
definition notes_max :: nat where "notes_max = 4000"

record task =
  t_id :: task_id
  t_family :: family_id
  t_title :: string
  t_notes :: "string option"
  t_priority :: task_priority
  t_category :: "task_category option"
  t_due :: "due option"
  t_rule :: "rrule option"
  t_anchor :: "local_date_time option"
  t_series :: "series_id option"
  t_predecessor :: "task_id option"
  t_head :: bool
  t_state :: task_state
  t_overdue_reported :: "int option"
  t_assignees :: "member_id list"
  t_created_by :: "member_id option"
  t_version :: int
  t_created_at :: int
  t_updated_at :: int

text \<open>A patch: the outer \<open>None\<close> is an absent field, the inner one \<open>null\<close>.\<close>

record task_patch =
  p_title :: "string option"
  p_notes :: "string option option"
  p_priority :: "task_priority option"
  p_category :: "task_category option option"
  p_due :: "due option option"
  p_rule :: "string option option"

definition validate_title :: "string \<Rightarrow> string outcome" where
  "validate_title raw =
     (let title = trim raw in
      if title = [] then Inl (NameRequired ''A task needs a title.'')
      else if length title > title_max
      then Inl (NameRequired (''A title is at most '' @ show_nat title_max @ '' characters.''))
      else Inr title)"

definition normalise_notes :: "string option \<Rightarrow> string option outcome" where
  "normalise_notes v =
     (case v of
        None \<Rightarrow> Inr None
      | Some s \<Rightarrow>
          (let trimmed = trim s in
           if length trimmed > notes_max
           then Inl (NameRequired (''Notes are at most '' @ show_nat notes_max @ '' characters.''))
           else Inr (if trimmed = [] then None else Some trimmed)))"

definition parse_rule :: "string option \<Rightarrow> rrule option outcome" where
  "parse_rule text =
     (case text of None \<Rightarrow> Inr None | Some s \<Rightarrow> map_result (rule_parse s) Some)"

record task_params =
  c_id :: task_id
  c_family :: family_id
  c_new_series :: series_id
  c_title :: string
  c_notes :: "string option"
  c_priority :: "task_priority option"
  c_category :: "task_category option"
  c_due :: "due option"
  c_rule :: "string option"
  c_assignees :: "member_id list"
  c_created_by :: "member_id option"
  c_now :: int

definition task_create :: "task_params \<Rightarrow> task outcome" where
  "task_create c =
     and_then (validate_title (c_title c)) (\<lambda>title.
     and_then (normalise_notes (c_notes c)) (\<lambda>notes.
     and_then (parse_rule (c_rule c)) (\<lambda>rule.
       if rule \<noteq> None \<and> c_due c = None then Inl RecurrenceRequiresDue
       else
         (let recurring = (rule \<noteq> None \<and> c_due c \<noteq> None) in
          Inr \<lparr>t_id = c_id c, t_family = c_family c, t_title = title, t_notes = notes,
            t_priority = (case c_priority c of None \<Rightarrow> Normal | Some p \<Rightarrow> p),
            t_category = c_category c, t_due = c_due c, t_rule = rule,
            t_anchor = (if recurring then map_option due_local_date_time (c_due c) else None),
            t_series = (if recurring then Some (c_new_series c) else None),
            t_predecessor = None, t_head = recurring, t_state = Open,
            t_overdue_reported = None, t_assignees = unique (c_assignees c),
            t_created_by = c_created_by c, t_version = 1, t_created_at = c_now c,
            t_updated_at = c_now c\<rparr>))))"

definition successor_of :: "task_id \<Rightarrow> task \<Rightarrow> due \<Rightarrow> member_id option \<Rightarrow> int \<Rightarrow> task" where
  "successor_of new_id head due created_by now =
     \<lparr>t_id = new_id, t_family = t_family head, t_title = t_title head, t_notes = t_notes head,
      t_priority = t_priority head, t_category = t_category head, t_due = Some due,
      t_rule = t_rule head, t_anchor = t_anchor head, t_series = t_series head,
      t_predecessor = Some (t_id head), t_head = True, t_state = Open,
      t_overdue_reported = None, t_assignees = t_assignees head, t_created_by = created_by,
      t_version = 1, t_created_at = now, t_updated_at = now\<rparr>"

definition due_at :: "intl \<Rightarrow> task \<Rightarrow> int option" where
  "due_at I t = map_option (due_moment_of I) (t_due t)"

definition is_open :: "task \<Rightarrow> bool" where
  "is_open t \<longleftrightarrow> t_state t = Open"

definition is_overdue :: "intl \<Rightarrow> task \<Rightarrow> int \<Rightarrow> bool" where
  "is_overdue I t now \<longleftrightarrow>
     is_open t \<and> (case due_at I t of None \<Rightarrow> False | Some d \<Rightarrow> d \<le> now)"

definition refuse :: "task \<Rightarrow> string \<Rightarrow> 'a outcome" where
  "refuse t command = Inl (InvalidTransition (status_text (t_state t)) command)"

definition commit :: "task \<Rightarrow> int \<Rightarrow> task" where
  "commit next now = next\<lparr>t_version := t_version next + 1, t_updated_at := now\<rparr>"

subsection \<open>Editing\<close>

text \<open>The blocks of \<open>update\<close>: each threads the edited copy and the changed groups.\<close>

type_synonym edit = "task \<times> changed_group list"

definition edit_title :: "string option \<Rightarrow> edit \<Rightarrow> edit outcome" where
  "edit_title v e =
     (case v of
        None \<Rightarrow> Inr e
      | Some raw \<Rightarrow>
          and_then (validate_title raw) (\<lambda>title.
            Inr ((fst e)\<lparr>t_title := title\<rparr>,
                 if title \<noteq> t_title (fst e) then add_elem Details (snd e) else snd e)))"

definition edit_notes :: "string option option \<Rightarrow> edit \<Rightarrow> edit outcome" where
  "edit_notes v e =
     (case v of
        None \<Rightarrow> Inr e
      | Some raw \<Rightarrow>
          and_then (normalise_notes raw) (\<lambda>notes.
            Inr ((fst e)\<lparr>t_notes := notes\<rparr>,
                 if notes \<noteq> t_notes (fst e) then add_elem Details (snd e) else snd e)))"

definition edit_priority :: "task_priority option \<Rightarrow> edit \<Rightarrow> edit" where
  "edit_priority v e =
     (case v of
        Some p \<Rightarrow>
          if p \<noteq> t_priority (fst e)
          then ((fst e)\<lparr>t_priority := p\<rparr>, add_elem Details (snd e)) else e
      | None \<Rightarrow> e)"

definition edit_category :: "task_category option option \<Rightarrow> edit \<Rightarrow> edit" where
  "edit_category v e =
     (case v of
        Some c \<Rightarrow>
          if c \<noteq> t_category (fst e)
          then ((fst e)\<lparr>t_category := c\<rparr>, add_elem Details (snd e)) else e
      | None \<Rightarrow> e)"

definition edit_due :: "intl \<Rightarrow> due option option \<Rightarrow> edit \<Rightarrow> edit" where
  "edit_due I v e =
     (case v of
        None \<Rightarrow> e
      | Some d \<Rightarrow>
          ((fst e)\<lparr>t_due := d\<rparr>,
           if \<not> same_due I d (t_due (fst e)) then add_elem Due (snd e) else snd e))"

definition edit_rule :: "string option option \<Rightarrow> series_id \<Rightarrow> edit \<Rightarrow> edit outcome" where
  "edit_rule v new_series e =
     (case v of
        None \<Rightarrow> Inr e
      | Some text \<Rightarrow>
          and_then (parse_rule text) (\<lambda>rule.
            let next = fst e in
            if map_option rule_to_string (t_rule next) = map_option rule_to_string rule then Inr e
            else if t_series next \<noteq> None \<and> \<not> t_head next then refuse next ''edit''
            else
              (case rule of
                 None \<Rightarrow>
                   Inr (next\<lparr>t_rule := None, t_anchor := None, t_head := False\<rparr>,
                        add_elem Recurrence (snd e))
               | Some r \<Rightarrow>
                   (case t_due next of
                      None \<Rightarrow> Inl RecurrenceRequiresDue
                    | Some d \<Rightarrow>
                        Inr (next\<lparr>t_rule := Some r, t_anchor := Some (due_local_date_time d),
                              t_series := (case t_series next of None \<Rightarrow> Some new_series | s \<Rightarrow> s),
                              t_head := True\<rparr>,
                             add_elem Recurrence (snd e))))))"

definition edited :: "intl \<Rightarrow> task \<Rightarrow> task_patch \<Rightarrow> series_id \<Rightarrow> edit outcome" where
  "edited I t p new_series =
     and_then (edit_title (p_title p) (t, [])) (\<lambda>e.
     and_then (edit_notes (p_notes p) e) (\<lambda>e.
     and_then (edit_rule (p_rule p) new_series
         (edit_due I (p_due p) (edit_category (p_category p) (edit_priority (p_priority p) e)))) (\<lambda>e.
       if t_rule (fst e) \<noteq> None \<and> t_due (fst e) = None then Inl RecurrenceRequiresDue
       else Inr e)))"

definition task_update ::
  "intl \<Rightarrow> task \<Rightarrow> task_patch \<Rightarrow> int \<Rightarrow> series_id \<Rightarrow> changed_group list outcome \<times> task"
where
  "task_update I t p now new_series =
     (if \<not> is_open t then (refuse t ''edit'', t)
      else
        (case edited I t p new_series of
           Inl e \<Rightarrow> (Inl e, t)
         | Inr (next, changed) \<Rightarrow>
             (Inr changed, if changed \<noteq> [] then commit next now else t)))"

subsection \<open>The lifecycle\<close>

definition task_complete :: "task \<Rightarrow> member_id \<Rightarrow> int \<Rightarrow> unit outcome \<times> task" where
  "task_complete t m now =
     (if \<not> is_open t then (refuse t ''complete'', t)
      else (Inr (), commit (t\<lparr>t_state := Completed now (Some m)\<rparr>) now))"

definition task_reopen :: "task \<Rightarrow> int \<Rightarrow> unit outcome \<times> task" where
  "task_reopen t now =
     (case t_state t of
        Completed _ _ \<Rightarrow> (Inr (), commit (t\<lparr>t_state := Open\<rparr>) now)
      | _ \<Rightarrow> (refuse t ''reopen'', t))"

definition task_cancel :: "task \<Rightarrow> member_id \<Rightarrow> int \<Rightarrow> unit outcome \<times> task" where
  "task_cancel t m now =
     (if \<not> is_open t then (refuse t ''cancel'', t)
      else (Inr (), commit (t\<lparr>t_state := Cancelled now (Some m)\<rparr>) now))"

definition task_assign :: "task \<Rightarrow> member_id \<Rightarrow> int \<Rightarrow> bool outcome \<times> task" where
  "task_assign t m now =
     (if \<not> is_open t then (refuse t ''assign'', t)
      else if m \<in> set (t_assignees t) then (Inr False, t)
      else (Inr True, commit (t\<lparr>t_assignees := t_assignees t @ [m]\<rparr>) now))"

definition task_unassign :: "task \<Rightarrow> member_id \<Rightarrow> int \<Rightarrow> bool outcome \<times> task" where
  "task_unassign t m now =
     (if \<not> is_open t then (refuse t ''unassign'', t)
      else if m \<notin> set (t_assignees t) then (Inr False, t)
      else (Inr True, commit (t\<lparr>t_assignees := filter (\<lambda>x. x \<noteq> m) (t_assignees t)\<rparr>) now))"

definition relinquish_head :: "task \<Rightarrow> task" where
  "relinquish_head t = t\<lparr>t_head := False\<rparr>"

definition record_overdue_reported :: "intl \<Rightarrow> task \<Rightarrow> task" where
  "record_overdue_reported I t = t\<lparr>t_overdue_reported := due_at I t\<rparr>"

definition needs_overdue_report :: "intl \<Rightarrow> task \<Rightarrow> int \<Rightarrow> bool" where
  "needs_overdue_report I t now \<longleftrightarrow>
     (case due_at I t of
        None \<Rightarrow> False
      | Some d \<Rightarrow> is_overdue I t now \<and> t_overdue_reported t \<noteq> Some d)"

section \<open>The successor rule\<close>

definition successor_due_of :: "intl \<Rightarrow> task \<Rightarrow> int \<Rightarrow> due option outcome" where
  "successor_due_of I head closed_at =
     (case (t_rule head, t_anchor head, t_due head, due_at I head) of
        (Some rule, Some anchor, Some due, Some at) \<Rightarrow>
          if \<not> t_head head then Inr None
          else
            map_result
              (next_occurrence_after I rule anchor (due_zone due) (max at closed_at))
              (map_option (\<lambda>x.
                 let l = ex_local x; d = date_of l in
                 case due of
                   DueDate _ tz \<Rightarrow> DueDate d tz
                 | DueDateTime _ _ tz \<Rightarrow>
                     DueDateTime d \<lparr>lt_hour = hour l, lt_minute = minute l\<rparr> tz))
      | _ \<Rightarrow> Inr None)"

section \<open>Events\<close>

definition task_envelope ::
  "string \<Rightarrow> task_id \<Rightarrow> (string \<times> json) list \<Rightarrow> string \<Rightarrow> outbox_event"
where
  "task_envelope ty tid pl cid =
     \<lparr>event_type = ty, aggregate_type = ''Task'', aggregate_id = task_text tid, payload = pl,
      ev_correlation_id = cid\<rparr>"

definition task_created_event ::
  "family_id \<Rightarrow> task_id \<Rightarrow> series_id option \<Rightarrow> task_id option \<Rightarrow> string \<Rightarrow> string \<Rightarrow> outbox_event"
where
  "task_created_event fam tid series pred kind cid =
     task_envelope ''tasks.TaskCreated.v1'' tid
       [(''familyId'', JString (family_text fam)), (''taskId'', JString (task_text tid)),
        (''seriesId'', json_opt series_text series),
        (''predecessorId'', json_opt task_text pred), (''dueKind'', JString kind)] cid"

definition task_assigned_event ::
  "family_id \<Rightarrow> task_id \<Rightarrow> member_id \<Rightarrow> string \<Rightarrow> outbox_event"
where
  "task_assigned_event fam tid m cid =
     task_envelope ''tasks.TaskAssigned.v1'' tid
       [(''familyId'', JString (family_text fam)), (''taskId'', JString (task_text tid)),
        (''memberId'', JString (member_text m))] cid"

fun changed_text :: "changed_group \<Rightarrow> string" where
  "changed_text Details = ''details''"
| "changed_text Due = ''due''"
| "changed_text Recurrence = ''recurrence''"
| "changed_text Assignees = ''assignees''"
| "changed_text Status = ''status''"

definition task_updated_event ::
  "family_id \<Rightarrow> task_id \<Rightarrow> changed_group list \<Rightarrow> string \<Rightarrow> outbox_event"
where
  "task_updated_event fam tid changed cid =
     task_envelope ''tasks.TaskUpdated.v1'' tid
       [(''familyId'', JString (family_text fam)), (''taskId'', JString (task_text tid)),
        (''changed'', JArray (map (\<lambda>c. JString (changed_text c)) changed))] cid"

definition task_completed_event ::
  "family_id \<Rightarrow> task_id \<Rightarrow> member_id \<Rightarrow> string \<Rightarrow> outbox_event"
where
  "task_completed_event fam tid m cid =
     task_envelope ''tasks.TaskCompleted.v1'' tid
       [(''familyId'', JString (family_text fam)), (''taskId'', JString (task_text tid)),
        (''completedByMemberId'', JString (member_text m))] cid"

datatype cancel_scope = Instance | Series

definition scope_text :: "cancel_scope \<Rightarrow> string" where
  "scope_text sc = (case sc of Instance \<Rightarrow> ''instance'' | Series \<Rightarrow> ''series'')"

definition task_cancelled_event ::
  "family_id \<Rightarrow> task_id \<Rightarrow> cancel_scope \<Rightarrow> string \<Rightarrow> outbox_event"
where
  "task_cancelled_event fam tid sc cid =
     task_envelope ''tasks.TaskCancelled.v1'' tid
       [(''familyId'', JString (family_text fam)), (''taskId'', JString (task_text tid)),
        (''scope'', JString (scope_text sc))] cid"

definition task_overdue_event ::
  "family_id \<Rightarrow> task_id \<Rightarrow> int \<Rightarrow> string \<Rightarrow> outbox_event"
where
  "task_overdue_event fam tid at cid =
     task_envelope ''tasks.TaskOverdue.v1'' tid
       [(''familyId'', JString (family_text fam)), (''taskId'', JString (task_text tid)),
        (''dueAt'', JString (to_iso_string at))] cid"

end
