(* ===== verification/Task_Facts.thy ===== *)
theory Task_Facts
  imports Task_Domain
begin

text \<open>
  What the task aggregate guarantees: the invariant of every reachable task, the lifecycle
  as a step relation, the version rule, and the overdue marker.
\<close>

section \<open>Well-formed tasks\<close>

definition good_title :: "string \<Rightarrow> bool" where
  "good_title s \<longleftrightarrow> s \<noteq> [] \<and> trim s = s \<and> length s \<le> title_max"

definition good_notes :: "string option \<Rightarrow> bool" where
  "good_notes n \<longleftrightarrow> (case n of None \<Rightarrow> True | Some s \<Rightarrow> s \<noteq> [] \<and> trim s = s \<and> length s \<le> notes_max)"

definition task_inv :: "task \<Rightarrow> bool" where
  "task_inv t \<longleftrightarrow>
     good_title (t_title t) \<and> good_notes (t_notes t) \<and> distinct (t_assignees t)
     \<and> 1 \<le> t_version t
     \<and> (case t_rule t of None \<Rightarrow> t_anchor t = None \<and> \<not> t_head t
        | Some r \<Rightarrow> valid_rule r \<and> t_anchor t \<noteq> None \<and> t_due t \<noteq> None \<and> t_series t \<noteq> None)"

lemma validate_title_good: "validate_title raw = Inr s \<Longrightarrow> good_title s"
  by (auto simp: validate_title_def good_title_def Let_def split: if_splits)

lemma normalise_notes_good: "normalise_notes raw = Inr n \<Longrightarrow> good_notes n"
  by (auto simp: normalise_notes_def good_notes_def Let_def split: if_splits option.splits)

lemma parse_rule_valid: "parse_rule v = Inr (Some r) \<Longrightarrow> valid_rule r"
  by (auto simp: parse_rule_def map_result_def split: option.splits sum.splits
      dest: rule_parse_valid)

lemma task_create_inv: "task_create c = Inr t \<Longrightarrow> task_inv t"
  by (auto simp: task_create_def and_then_Inr Let_def task_inv_def split: if_splits option.splits
      dest: validate_title_good normalise_notes_good parse_rule_valid)

lemma successor_inv: "task_inv h \<Longrightarrow> t_rule h \<noteq> None \<Longrightarrow> task_inv (successor_of i h d m now)"
  by (auto simp: task_inv_def successor_of_def split: option.splits)

lemma commit_inv: "task_inv t \<Longrightarrow> task_inv (commit t now)"
  by (auto simp: task_inv_def commit_def split: option.splits)

lemma commit_sel [simp]:
  "t_id (commit t now) = t_id t" "t_family (commit t now) = t_family t"
  "t_title (commit t now) = t_title t" "t_notes (commit t now) = t_notes t"
  "t_priority (commit t now) = t_priority t" "t_category (commit t now) = t_category t"
  "t_due (commit t now) = t_due t" "t_rule (commit t now) = t_rule t"
  "t_anchor (commit t now) = t_anchor t" "t_series (commit t now) = t_series t"
  "t_predecessor (commit t now) = t_predecessor t" "t_head (commit t now) = t_head t"
  "t_state (commit t now) = t_state t" "t_overdue_reported (commit t now) = t_overdue_reported t"
  "t_assignees (commit t now) = t_assignees t" "t_created_by (commit t now) = t_created_by t"
  "t_version (commit t now) = t_version t + 1" "t_created_at (commit t now) = t_created_at t"
  "t_updated_at (commit t now) = now"
  by (simp_all add: commit_def)

text \<open>The fields no edit touches.\<close>

definition same_identity :: "task \<Rightarrow> task \<Rightarrow> bool" where
  "same_identity a b \<longleftrightarrow>
     t_id a = t_id b \<and> t_family a = t_family b \<and> t_predecessor a = t_predecessor b
     \<and> t_created_by a = t_created_by b \<and> t_created_at a = t_created_at b"

lemma same_identity_refl [simp]: "same_identity t t"
  by (simp add: same_identity_def)

text \<open>An edit in progress: the invariant but for the due date of a rule.\<close>

definition edit_inv :: "task \<Rightarrow> edit \<Rightarrow> bool" where
  "edit_inv t0 e \<longleftrightarrow>
     same_identity (fst e) t0 \<and> t_state (fst e) = t_state t0 \<and> t_version (fst e) = t_version t0
     \<and> t_assignees (fst e) = t_assignees t0
     \<and> good_title (t_title (fst e)) \<and> good_notes (t_notes (fst e))
     \<and> (case t_rule (fst e) of None \<Rightarrow> t_anchor (fst e) = None \<and> \<not> t_head (fst e)
        | Some r \<Rightarrow> valid_rule r \<and> t_anchor (fst e) \<noteq> None \<and> t_series (fst e) \<noteq> None)"

lemma edit_title_inv: "edit_inv t0 e \<Longrightarrow> edit_title v e = Inr e' \<Longrightarrow> edit_inv t0 e'"
  by (auto simp: edit_title_def edit_inv_def same_identity_def and_then_Inr split: option.splits
      dest: validate_title_good)

lemma edit_notes_inv: "edit_inv t0 e \<Longrightarrow> edit_notes v e = Inr e' \<Longrightarrow> edit_inv t0 e'"
  by (auto simp: edit_notes_def edit_inv_def same_identity_def and_then_Inr split: option.splits
      dest: normalise_notes_good)

lemma edit_plain_inv:
  "edit_inv t0 e \<Longrightarrow> edit_inv t0 (edit_priority p e)"
  "edit_inv t0 e \<Longrightarrow> edit_inv t0 (edit_category c e)"
  "edit_inv t0 e \<Longrightarrow> edit_inv t0 (edit_due I d e)"
  by (auto simp: edit_priority_def edit_category_def edit_due_def edit_inv_def same_identity_def
      split: option.splits)

lemma edit_rule_cases:
  assumes "edit_rule v ns e = Inr e'"
  obtains (same) "e' = e"
  | (removed) "t_series (fst e) = None \<or> t_head (fst e)"
      "e' = ((fst e)\<lparr>t_rule := None, t_anchor := None, t_head := False\<rparr>, add_elem Recurrence (snd e))"
  | (replaced) r d raw where "t_series (fst e) = None \<or> t_head (fst e)" "parse_rule (Some raw) = Inr (Some r)"
      "t_due (fst e) = Some d"
      "e' = ((fst e)\<lparr>t_rule := Some r, t_anchor := Some (due_local_date_time d),
              t_series := (case t_series (fst e) of None \<Rightarrow> Some ns | s \<Rightarrow> s), t_head := True\<rparr>,
             add_elem Recurrence (snd e))"
proof (cases v)
  case None
  with assms that(1) show thesis by (simp add: edit_rule_def)
next
  case (Some raw)
  then obtain rule where p: "parse_rule raw = Inr rule"
    using assms by (auto simp: edit_rule_def and_then_Inr)
  let ?same = "map_option rule_to_string (t_rule (fst e)) = map_option rule_to_string rule"
  let ?stuck = "t_series (fst e) \<noteq> None \<and> \<not> t_head (fst e)"
  have E: "edit_rule v ns e =
      (if ?same then Inr e else if ?stuck then refuse (fst e) ''edit'' else
        (case rule of
           None \<Rightarrow> Inr ((fst e)\<lparr>t_rule := None, t_anchor := None, t_head := False\<rparr>,
             add_elem Recurrence (snd e))
         | Some r \<Rightarrow> (case t_due (fst e) of None \<Rightarrow> Inl RecurrenceRequiresDue
             | Some d \<Rightarrow> Inr ((fst e)\<lparr>t_rule := Some r, t_anchor := Some (due_local_date_time d),
                 t_series := (case t_series (fst e) of None \<Rightarrow> Some ns | s \<Rightarrow> s), t_head := True\<rparr>,
                 add_elem Recurrence (snd e)))))"
    unfolding Some edit_rule_def option.case p and_then_simps Let_def ..
  show thesis
  proof (cases "?same")
    case True
    then show thesis using assms that(1) E by simp
  next
    case ns: False
    have st: "\<not> ?stuck"
    proof
      assume "?stuck"
      then have "edit_rule v ns e = refuse (fst e) ''edit''"
        unfolding E by (simp only: ns if_True if_False not_False_eq_True simp_thms)
      with assms show False by (simp add: refuse_def)
    qed
    note E' = E [unfolded if_not_P [OF ns] if_not_P [OF st]]
    show thesis
    proof (cases rule)
      case None
      with assms E' have "e' = ((fst e)\<lparr>t_rule := None, t_anchor := None, t_head := False\<rparr>,
          add_elem Recurrence (snd e))" by simp
      with st show thesis by (intro that(2)) auto
    next
      case (Some r)
      then obtain s where s: "raw = Some s" using p by (cases raw) (auto simp: parse_rule_def)
      obtain d where d: "t_due (fst e) = Some d"
        using assms E' Some by (cases "t_due (fst e)") simp_all
      with assms E' Some have "e' = ((fst e)\<lparr>t_rule := Some r,
          t_anchor := Some (due_local_date_time d),
          t_series := (case t_series (fst e) of None \<Rightarrow> Some ns | s \<Rightarrow> s), t_head := True\<rparr>,
          add_elem Recurrence (snd e))" by simp
      with st d p s Some show thesis by (intro that(3)) auto
    qed
  qed
qed

lemma edit_rule_inv:
  assumes "edit_inv t0 e" "edit_rule v ns e = Inr e'"
  shows "edit_inv t0 e'"
  using assms(2)
proof (cases rule: edit_rule_cases)
  case (replaced r d raw)
  have "valid_rule r" using replaced(2) by (rule parse_rule_valid)
  with assms(1) show ?thesis unfolding replaced(4)
    by (cases "t_series (fst e)") (simp_all add: edit_inv_def same_identity_def)
qed (use assms(1) in \<open>simp_all add: edit_inv_def same_identity_def\<close>)

lemma edited_inv:
  assumes "task_inv t" "edited I t p ns = Inr (next, changed)"
  shows "task_inv next" "same_identity next t" "t_state next = t_state t"
    "t_version next = t_version t" "t_assignees next = t_assignees t"
proof -
  have 0: "edit_inv t (t, [])" using assms(1) by (auto simp: edit_inv_def task_inv_def split: option.splits)
  obtain e1 e2 where e: "edit_title (p_title p) (t, []) = Inr e1" "edit_notes (p_notes p) e1 = Inr e2"
    "edit_rule (p_rule p) ns
       (edit_due I (p_due p) (edit_category (p_category p) (edit_priority (p_priority p) e2)))
       = Inr (next, changed)"
    "\<not> (t_rule next \<noteq> None \<and> t_due next = None)"
    using assms(2) by (auto simp: edited_def and_then_Inr split: if_splits)
  have "edit_inv t (next, changed)"
    by (rule edit_rule_inv [OF _ e(3)])
      (intro edit_plain_inv edit_notes_inv [OF edit_title_inv [OF 0 e(1)] e(2)])
  then show "task_inv next" "same_identity next t" "t_state next = t_state t"
    "t_version next = t_version t" "t_assignees next = t_assignees t"
    using assms(1) e(4) by (auto simp: edit_inv_def task_inv_def split: option.splits)
qed

section \<open>The lifecycle as steps\<close>

text \<open>Everything a command may do to a stored task, its arguments free.\<close>

inductive task_step :: "intl \<Rightarrow> task \<Rightarrow> task \<Rightarrow> bool" for I where
  step_update: "task_step I t (snd (task_update I t p now ns))"
| step_complete: "task_step I t (snd (task_complete t m now))"
| step_reopen: "task_step I t (snd (task_reopen t now))"
| step_cancel: "task_step I t (snd (task_cancel t m now))"
| step_assign: "task_step I t (snd (task_assign t m now))"
| step_unassign: "task_step I t (snd (task_unassign t m now))"
| step_relinquish: "task_step I t (relinquish_head t)"
| step_overdue: "task_step I t (record_overdue_reported I t)"

inductive task_reachable :: "intl \<Rightarrow> task \<Rightarrow> bool" for I where
  reach_create: "task_create c = Inr t \<Longrightarrow> task_reachable I t"
| reach_successor:
    "task_reachable I h \<Longrightarrow> successor_due_of I h now = Inr (Some d) \<Longrightarrow>
       task_reachable I (successor_of i h d m now)"
| reach_step: "task_reachable I t \<Longrightarrow> task_step I t t' \<Longrightarrow> task_reachable I t'"

inductive_cases task_stepE: "task_step I t t'"

lemma task_update_cases:
  obtains (refused) e where "task_update I t p now ns = (Inl e, t)"
  | (unchanged) nx where "is_open t" "edited I t p ns = Inr (nx, [])"
      "task_update I t p now ns = (Inr [], t)"
  | (changed) nx ch where "is_open t" "edited I t p ns = Inr (nx, ch)" "ch \<noteq> []"
      "task_update I t p now ns = (Inr ch, commit nx now)"
proof (cases "is_open t")
  case True
  then show thesis
    using that by (cases "edited I t p ns")
      (auto simp: task_update_def split: prod.splits if_splits)
qed (use that in \<open>simp add: task_update_def refuse_def\<close>)

lemma task_step_inv: "task_step I t t' \<Longrightarrow> task_inv t \<Longrightarrow> task_inv t'"
proof (induction rule: task_step.induct)
  case (step_update t p now ns)
  show ?case
    by (rule task_update_cases [of I t p now ns])
      (use step_update in \<open>auto intro: commit_inv dest: edited_inv(1)\<close>)
next
  case (step_unassign t m now)
  then show ?case
    by (auto simp: task_unassign_def intro!: commit_inv) (auto simp: task_inv_def split: option.splits)
qed (auto simp: task_complete_def task_reopen_def task_cancel_def task_assign_def
    relinquish_head_def record_overdue_reported_def commit_def task_inv_def
    split: task_state.splits option.splits)

lemma task_reachable_inv: "task_reachable I t \<Longrightarrow> task_inv t"
proof (induction rule: task_reachable.induct)
  case (reach_successor h now d i m)
  then show ?case
    by (intro successor_inv) (auto simp: successor_due_of_def split: option.splits)
qed (auto intro: task_create_inv task_step_inv)

text \<open>
  C3: Every task the application can ever hold, through creation, succession and any sequence
  of commands, is well formed: a trimmed title of 1 to 200 characters, notes of at most 4000,
  no assignee twice, a version of at least 1; and a recurrence rule always comes with a due
  date, an anchor and a series, while a task without a rule is never the head of a series.
\<close>

theorem reachable_task_well_formed:
  assumes "task_reachable I t"
  shows "good_title (t_title t) \<and> good_notes (t_notes t) \<and> distinct (t_assignees t)
    \<and> 1 \<le> t_version t
    \<and> (case t_rule t of None \<Rightarrow> t_anchor t = None \<and> \<not> t_head t
       | Some r \<Rightarrow> valid_rule r \<and> t_anchor t \<noteq> None \<and> t_due t \<noteq> None \<and> t_series t \<noteq> None)"
  using task_reachable_inv [OF assms] by (simp add: task_inv_def)

section \<open>Commands and versions\<close>

text \<open>
  A member's command either changes the task, and then raises its version by exactly one
  and stamps the time, or leaves it exactly as it was: when it is refused, when the edit
  changes nothing, when the member already is (or is not) an assignee. A cancelled task
  refuses every command and a closed one every command but reopening.
\<close>

theorem commands_version:
  assumes "task_inv t"
  shows "(case task_update I t p now ns of (r, t') \<Rightarrow>
            if \<exists>ch. r = Inr ch \<and> ch \<noteq> [] then is_open t \<and> t_version t' = t_version t + 1 \<and> t_updated_at t' = now
            else t' = t)
    \<and> (case task_complete t m now of (r, t') \<Rightarrow>
         if r = Inr () then is_open t \<and> t_version t' = t_version t + 1 \<and> t_state t' = Completed now (Some m)
         else t' = t)
    \<and> (case task_reopen t now of (r, t') \<Rightarrow>
         if r = Inr () then (\<exists>a b. t_state t = Completed a b) \<and> t_version t' = t_version t + 1 \<and> t_state t' = Open
           \<and> t_head t' = t_head t
         else t' = t)
    \<and> (case task_cancel t m now of (r, t') \<Rightarrow>
         if r = Inr () then is_open t \<and> t_version t' = t_version t + 1 \<and> t_state t' = Cancelled now (Some m)
         else t' = t)
    \<and> (case task_assign t m now of (r, t') \<Rightarrow>
         if r = Inr True then is_open t \<and> t_version t' = t_version t + 1
           \<and> set (t_assignees t') = insert m (set (t_assignees t))
         else t' = t)
    \<and> (case task_unassign t m now of (r, t') \<Rightarrow>
         if r = Inr True then is_open t \<and> t_version t' = t_version t + 1
           \<and> set (t_assignees t') = set (t_assignees t) - {m}
         else t' = t)"
proof (intro conjI)
  show "case task_update I t p now ns of (r, t') \<Rightarrow>
      if \<exists>ch. r = Inr ch \<and> ch \<noteq> [] then is_open t \<and> t_version t' = t_version t + 1 \<and> t_updated_at t' = now
      else t' = t"
    using assms by (rule_tac task_update_cases [of I t p now ns]) (auto dest: edited_inv(4))
  show "case task_reopen t now of (r, t') \<Rightarrow>
      if r = Inr () then (\<exists>a b. t_state t = Completed a b) \<and> t_version t' = t_version t + 1 \<and> t_state t' = Open
        \<and> t_head t' = t_head t else t' = t"
    by (cases "t_state t") (simp_all add: task_reopen_def refuse_def)
qed (auto simp: task_complete_def task_cancel_def task_assign_def task_unassign_def refuse_def)

text \<open>
  No sequence of commands brings a task out of cancellation, and a completed task leaves
  completion only by reopening: whatever step is taken, a cancelled task keeps its state and
  its version, and a completed one keeps its state or is open again.
\<close>

theorem lifecycle_steps:
  assumes "task_step I t t'"
  shows "case t_state t of
      Open \<Rightarrow> True
    | Completed a m \<Rightarrow> t_state t' = Completed a m \<or> t_state t' = Open \<and> t_version t' = t_version t + 1
    | Cancelled a m \<Rightarrow> t_state t' = Cancelled a m \<and> t_version t' = t_version t"
proof (cases "is_open t")
  case False
  then have s: "snd (task_update I t p now ns) = t" "snd (task_complete t m now) = t"
    "snd (task_cancel t m now) = t" "snd (task_assign t m now) = t" "snd (task_unassign t m now) = t"
    for p now ns m
    by (simp_all add: task_update_def task_complete_def task_cancel_def task_assign_def
        task_unassign_def)
  have r: "snd (task_reopen t now) = (case t_state t of Completed _ _ \<Rightarrow> commit (t\<lparr>t_state := Open\<rparr>) now | _ \<Rightarrow> t)"
    for now by (cases "t_state t") (simp_all add: task_reopen_def)
  from assms have "t' = t \<or> (\<exists>now. t' = snd (task_reopen t now)) \<or> t' = relinquish_head t
      \<or> t' = record_overdue_reported I t"
    by (cases rule: task_stepE) (auto simp: s)
  then show ?thesis
    by (elim disjE exE; cases "t_state t")
      (simp_all add: r relinquish_head_def record_overdue_reported_def)
qed (simp add: is_open_def)

section \<open>Edits and the series\<close>

lemma edit_changed_mono:
  "edit_title v e = Inr e' \<Longrightarrow> set (snd e) \<subseteq> set (snd e')"
  "edit_notes w e = Inr e' \<Longrightarrow> set (snd e) \<subseteq> set (snd e')"
  "set (snd e) \<subseteq> set (snd (edit_priority p e))" "set (snd e) \<subseteq> set (snd (edit_category c e))"
  "set (snd e) \<subseteq> set (snd (edit_due I d e))"
  by (auto simp: edit_title_def edit_notes_def edit_priority_def edit_category_def edit_due_def
      and_then_Inr split: option.splits)

definition same_series :: "task \<Rightarrow> task \<Rightarrow> bool" where
  "same_series a b \<longleftrightarrow> t_rule a = t_rule b \<and> t_anchor a = t_anchor b \<and> t_series a = t_series b
     \<and> t_head a = t_head b"

lemma same_series_trans: "same_series a b \<Longrightarrow> same_series b c \<Longrightarrow> same_series a c"
  by (simp add: same_series_def)

lemma edits_same_series:
  "edit_title v e = Inr e' \<Longrightarrow> same_series (fst e') (fst e)"
  "edit_notes w e = Inr e' \<Longrightarrow> same_series (fst e') (fst e)"
  "same_series (fst (edit_priority p e)) (fst e)" "same_series (fst (edit_category c e)) (fst e)"
  "same_series (fst (edit_due I d e)) (fst e)"
  by (auto simp: edit_title_def edit_notes_def edit_priority_def edit_category_def edit_due_def
      and_then_Inr same_series_def split: option.splits)

lemma edit_rule_same_series:
  assumes "edit_rule v ns e = Inr e'" "Recurrence \<notin> set (snd e')"
  shows "same_series (fst e') (fst e)"
  using assms(1) by (cases rule: edit_rule_cases) (use assms(2) in \<open>auto simp: same_series_def\<close>)

lemma edited_chain:
  assumes "edited I t p ns = Inr e"
  obtains e2 where "edit_rule (p_rule p) ns e2 = Inr e" "same_series (fst e2) t"
proof -
  obtain e1 e2 where e: "edit_title (p_title p) (t, []) = Inr e1" "edit_notes (p_notes p) e1 = Inr e2"
    "edit_rule (p_rule p) ns
       (edit_due I (p_due p) (edit_category (p_category p) (edit_priority (p_priority p) e2))) = Inr e"
    using assms by (auto simp: edited_def and_then_Inr split: if_splits)
  have a: "same_series (fst e1) t" using edits_same_series(1) [OF e(1)] by simp
  note b = same_series_trans [OF edits_same_series(2) [OF e(2)] a]
  note c = same_series_trans [OF edits_same_series(3) b]
  note d = same_series_trans [OF edits_same_series(4) c]
  show thesis by (rule that [OF e(3) same_series_trans [OF edits_same_series(5) d]])
qed

text \<open>
  An edit that does not change the recurrence rule leaves the series alone: rule, anchor,
  series and head flag stay as they were, however the due date of this instance moves.
\<close>

theorem one_off_edit_keeps_series:
  assumes "task_update I t p now ns = (Inr ch, t')" "Recurrence \<notin> set ch"
  shows "t_rule t' = t_rule t \<and> t_anchor t' = t_anchor t \<and> t_series t' = t_series t
    \<and> t_head t' = t_head t"
proof -
  from assms(1) consider (no) "t' = t"
    | (yes) nx where "edited I t p ns = Inr (nx, ch)" "t' = commit nx now"
    by (rule_tac task_update_cases [of I t p now ns]) auto
  then show ?thesis
  proof cases
    case (yes nx)
    obtain e2 where e2: "edit_rule (p_rule p) ns e2 = Inr (nx, ch)" "same_series (fst e2) t"
      using yes(1) by (rule edited_chain)
    have "same_series nx (fst e2)" using edit_rule_same_series [OF e2(1)] assms(2) by simp
    from same_series_trans [OF this e2(2)] show ?thesis
      unfolding same_series_def yes(2) commit_sel .
  qed simp
qed

text \<open>
  Once a rule has been removed from a task, no edit gives it a rule again: the task keeps
  its series and is no longer its head, so every patch with a rule that parses is refused,
  although the patch's documentation says that a string adds or replaces the rule.
\<close>

theorem removed_rule_stays_removed:
  assumes "is_open t" "task_update I t \<lparr>p_title = None, p_notes = None, p_priority = None,
      p_category = None, p_due = None, p_rule = Some None\<rparr> now ns = (Inr [Recurrence], t')"
    and "rule_parse s = Inr r" "p_rule q = Some (Some s)" "t_series t \<noteq> None"
  shows "t_rule t' = None \<and> (\<exists>e. task_update I t' q now' ns' = (Inl e, t'))"
proof -
  let ?p = "\<lparr>p_title = None, p_notes = None, p_priority = None, p_category = None, p_due = None,
      p_rule = Some None\<rparr>"
  obtain nx where nx: "edited I t ?p ns = Inr (nx, [Recurrence])" "t' = commit nx now"
    using assms(2) by (rule_tac task_update_cases [of I t ?p now ns]) auto
  then have e: "edit_rule (Some None) ns (t, []) = Inr (nx, [Recurrence])"
    by (auto simp: edited_def edit_title_def edit_notes_def edit_priority_def edit_category_def
        edit_due_def and_then_Inr split: if_splits)
  have n: "t_rule nx = None" "\<not> t_head nx" "t_series nx = t_series t"
    using e by (auto simp: edit_rule_def parse_rule_def refuse_def Let_def split: if_splits)
  have stuck: "\<exists>e. edited I t' q ns' = Inl e"
  proof (cases "edited I t' q ns'")
    case (Inr x)
    then obtain e2 where e2: "edit_rule (p_rule q) ns' e2 = Inr x" "same_series (fst e2) t'"
      by (rule edited_chain)
    have "t_rule (fst e2) = None" "\<not> t_head (fst e2)" "t_series (fst e2) \<noteq> None"
      using e2(2) n nx(2) assms(5) by (simp_all add: same_series_def)
    then have "edit_rule (p_rule q) ns' e2 = refuse (fst e2) ''edit''"
      using assms(3,4) by (simp add: edit_rule_def parse_rule_def map_result_def)
    with e2(1) show ?thesis by (simp add: refuse_def)
  qed simp
  show ?thesis
    using n(1) nx(2) stuck by (auto simp: task_update_def refuse_def)
qed

section \<open>Overdue\<close>

text \<open>
  A task is reported overdue exactly once per due moment: after the report it is never
  owed another at any time, as long as its due moment stays; and as soon as the due moment
  differs from the reported one, an open task past it is owed a report again.
\<close>

theorem overdue_reported_once:
  shows "(\<not> needs_overdue_report I (record_overdue_reported I t) later_time)
    \<and> t_version (record_overdue_reported I t) = t_version t
    \<and> (let t' = (record_overdue_reported I t)\<lparr>t_due := d\<rparr> in
        needs_overdue_report I t' now =
          (is_open t \<and> (case map_option (due_moment_of I) d of None \<Rightarrow> False
             | Some at \<Rightarrow> at \<le> now \<and> due_at I t \<noteq> Some at)))"
  by (auto simp: needs_overdue_report_def record_overdue_reported_def due_at_def is_overdue_def
      is_open_def Let_def split: option.splits)

section \<open>Reading due dates\<close>

definition good_time :: "local_time \<Rightarrow> bool" where
  "good_time t \<longleftrightarrow> 0 \<le> lt_hour t \<and> lt_hour t \<le> 23 \<and> 0 \<le> lt_minute t \<and> lt_minute t \<le> 59"

lemma parse_format_time:
  assumes "good_time t"
  shows "parse_local_time (format_local_time t) = Some t"
proof -
  define a b where "a = pad_num 2 (lt_hour t)" and "b = pad_num 2 (lt_minute t)"
  have "length a = 2" "length b = 2" "list_all is_digit a" "list_all is_digit b"
    "read_nat a = nat (lt_hour t)" "read_nat b = nat (lt_minute t)"
    using assms by (auto simp: a_def b_def good_time_def length_pad_num pad_num_digits)
  with assms show ?thesis
    by (simp add: format_local_time_def a_def [symmetric] b_def [symmetric] parse_local_time_def
        nth_append good_time_def)
qed

lemma parse_local_time_good: "parse_local_time s = Some t \<Longrightarrow> good_time t"
  by (auto simp: parse_local_time_def good_time_def Let_def split: if_splits)

text \<open>A due date the parser accepts: a real date, a real time, a zone the runtime knows.\<close>

definition good_due :: "intl \<Rightarrow> due \<Rightarrow> bool" where
  "good_due I d \<longleftrightarrow>
     is_valid_time_zone I (due_zone d) \<and> valid_date (due_date d) \<and> 0 \<le> year (due_date d)
     \<and> (case d of DueDate _ _ \<Rightarrow> True | DueDateTime _ t _ \<Rightarrow> good_time t)"

definition due_text :: "due \<Rightarrow> due_input" where
  "due_text d =
     (case d of
        DueDate x tz \<Rightarrow> DueDateInput (format_local_date x) tz
      | DueDateTime x t tz \<Rightarrow> DueDateTimeInput (format_local_date x) (format_local_time t) tz)"

text \<open>
  Reading a due date accepts only a zone the runtime knows, a real calendar date and a
  real time of day, and names the field that is wrong, the zone first, then the date, then
  the time; and every due date so accepted (up to the year 9999) is read back from its text.
\<close>

theorem parse_due_checks:
  "(case parse_due I input of
      Inr d \<Rightarrow> good_due I d \<and> (year (due_date d) \<le> 9999 \<longrightarrow> parse_due I (due_text d) = Inr d)
    | Inl e \<Rightarrow>
        (let (date, time, tz) = (case input of DueDateInput x z \<Rightarrow> (x, None, z)
           | DueDateTimeInput x h z \<Rightarrow> (x, Some h, z)) in
         (\<not> is_valid_time_zone I tz \<and> e = UnknownTimeZone tz)
         \<or> (is_valid_time_zone I tz \<and> parse_local_date date = None
             \<and> (\<exists>why. e = InvalidDue ''date'' why))
         \<or> (is_valid_time_zone I tz \<and> parse_local_date date \<noteq> None
             \<and> (\<exists>h why. time = Some h \<and> parse_local_time h = None \<and> e = InvalidDue ''time'' why))))"
proof (cases input)
  case (DueDateInput x tz)
  then show ?thesis
    using parse_local_date_Some [of x] parse_format_local_date
    by (auto simp: parse_due_def good_due_def due_text_def due_zone_def due_date_def
        split: option.splits)
next
  case (DueDateTimeInput x h tz)
  then show ?thesis
    using parse_local_date_Some [of x] parse_format_local_date parse_local_time_good [of h]
      parse_format_time
    by (auto simp: parse_due_def good_due_def due_text_def due_zone_def due_date_def
        split: option.splits)
qed

section \<open>The successor rule\<close>

lemma series_occurrence_props:
  assumes g: "good_series I rule anchor tz off" and x: "series_occurrence I rule anchor tz x"
  obtains d where "valid_date d" "1 \<le> year d" "ex_local x = with_time d anchor"
    "ex_instant x = local_to_instant I (with_time d anchor) tz"
proof -
  let ?a = "(first_day + 10) * ms_per_day"
  have gi: "good_input I (window_input rule anchor tz ?a ?a) off"
    using good_window [OF g, of ?a ?a] by simp
  obtain n where "x \<in> set (rule_occurrences I (window_input rule anchor tz ?a ?a) 0 n)"
    using scheduled_in [of I "window_input rule anchor tz ?a ?a" x] x
    unfolding scheduled_window by blast
  then obtain j where j: "0 \<le> j" "x \<in> set (period_occurrences I (window_input rule anchor tz ?a ?a) j)"
    by (rule rule_occurrences_in)
  obtain d where d: "x = occ_of I (window_input rule anchor tz ?a ?a) d" "valid_date d"
    "0 \<le> compare_local_date_times (with_time d anchor) anchor"
    using period_occurrences_in [OF gi j] by (auto simp: between_def window_input_def)
  have "to_epoch_day (date_of anchor) \<le> to_epoch_day d"
    using occ_instant(2) [OF gi d(2)] d(3) by (simp add: window_input_def)
  then have "1 \<le> year d"
    using valid_year_good [OF d(2)] good_start_epoch [of "date_of anchor"] good_inputD(1) [OF gi]
    by (simp add: good_start_def window_input_def)
  with d show thesis by (intro that [of d]) (simp_all add: occ_of_def window_input_def)
qed

text \<open>
  C2: The successor of a closing head is due on a date its rule schedules strictly after both
  the head's due moment and the closing moment, and on the first such date (up to 534 years
  after the start of the series); kind and zone of the due date carry over. A task that is not
  a recurring head has none.
\<close>

theorem successor_due_exact:
  assumes "t_rule h = Some rule" "t_anchor h = Some anchor" "t_due h = Some due"
    and "good_series I rule anchor (due_zone due) off"
    and "(first_day + 10) * ms_per_day \<le> max (due_moment_of I due) closed_at"
    and "successor_due_of I h closed_at = Inr (Some d)"
  shows "t_head h \<and> due_kind (Some d) = due_kind (Some due) \<and> due_zone d = due_zone due \<and>
    (\<exists>x. series_occurrence I rule anchor (due_zone due) x \<and> due_date d = date_of (ex_local x)
       \<and> due_moment_of I due < ex_instant x \<and> closed_at < ex_instant x
       \<and> (ex_instant x \<le> near_limit anchor - max_span_days * ms_per_day \<longrightarrow>
          (\<forall>y. series_occurrence I rule anchor (due_zone due) y \<and> due_moment_of I due < ex_instant y
             \<and> closed_at < ex_instant y \<longrightarrow> ex_instant x \<le> ex_instant y)))"
proof -
  let ?after = "max (due_moment_of I due) closed_at"
  have h: "t_head h"
    using assms(1-3,6) by (auto simp: successor_due_of_def due_at_def split: if_splits)
  obtain x where x: "next_occurrence_after I rule anchor (due_zone due) ?after = Inr (Some x)"
    and d: "d = (case due of DueDate _ tz \<Rightarrow> DueDate (date_of (ex_local x)) tz
      | DueDateTime _ _ tz \<Rightarrow> DueDateTime (date_of (ex_local x))
          \<lparr>lt_hour = hour (ex_local x), lt_minute = minute (ex_local x)\<rparr> tz)"
    using assms(1-3,6) h
    by (auto simp: successor_due_of_def due_at_def map_result_def Let_def split: sum.splits)
  have k: "due_kind (Some d) = due_kind (Some due)" "due_zone d = due_zone due"
    "due_date d = date_of (ex_local x)"
    by (cases due; simp add: d due_kind_def due_zone_def due_date_def)+
  have lo: "(first_day + 10) * ms_per_day \<le> ?after + 1" using assms(5) by simp
  from next_occurrence_spec [OF assms(4) lo] x h k show ?thesis
    by (auto intro!: exI [of _ x])
qed

text \<open>
  A date-only chore skips a date when it is closed: its due moment is the start of the
  NEXT local day, and the successor must be due strictly after that, so the successor is due
  at least two days after the head. A daily chore closed on time is next due in two days,
  where the documentation says that it advances exactly one scheduled date.
\<close>

theorem date_only_successor_skips:
  assumes "t_rule h = Some rule" "t_anchor h = Some anchor" "t_due h = Some (DueDate x tz)"
    and g: "good_series I rule anchor tz off"
    and a: "anchor = at_time a 0 0 0"
    and x: "valid_date x" "1 \<le> year x" "first_day + 10 \<le> to_epoch_day x"
    and "successor_due_of I h closed_at = Inr (Some d)"
  shows "to_epoch_day x + 2 \<le> to_epoch_day (due_date d)"
proof -
  let ?due = "DueDate x tz"
  let ?s = "\<lambda>d. at_time d 0 0 0"
  have st: "due_moment_of I ?due = local_to_instant I (?s (add_days x 1)) tz"
    by (simp add: due_moment_of_def start_of_day_def)
  have gx: "good_start x" using x by (simp add: good_start_def)
  then have ex: "first_day \<le> to_epoch_day x" by (rule good_start_epoch)
  have gx1: "good_start (add_days x 1)" "to_epoch_day (add_days x 1) = to_epoch_day x + 1"
    using add_days_good [of x 1] ex by simp_all
  have z: "zone_model I tz off" and dif: "\<And>s t. \<bar>off s - off t\<bar> < ms_per_day"
    using g by (auto simp: good_series_def)
  have inst: "\<exists>u. local_to_instant I (?s y) tz = to_epoch_day y * ms_per_day - off u"
    if "good_start y" for y
  proof -
    have v: "valid_date y" "1 \<le> year y" using that by (auto simp: good_start_def)
    have "valid_local (?s y)" using v by (intro valid_local_at_time) auto
    then show ?thesis
      using local_to_instant_pick [OF z, of "?s y"] v pick_instant_offset [of off "local_as_utc_ms (?s y)"]
      by (simp add: local_midnight_ms to_epoch_day_valid)
  qed
  have h: "t_head h"
    using assms(1-3,9) by (auto simp: successor_due_of_def due_at_def split: if_splits)
  obtain y where y: "next_occurrence_after I rule anchor tz (max (due_moment_of I ?due) closed_at) = Inr (Some y)"
    and d: "due_date d = date_of (ex_local y)"
    using assms(1-3,9) h
    by (auto simp: successor_due_of_def due_at_def map_result_def due_zone_def due_date_def Let_def
        split: sum.splits)
  obtain i1 where i1: "due_moment_of I ?due = (to_epoch_day x + 1) * ms_per_day - off i1"
    using inst [OF gx1(1)] gx1(2) st by auto
  have lo: "(first_day + 10) * ms_per_day \<le> max (due_moment_of I ?due) closed_at + 1"
  proof -
    have "(first_day + 10) * ms_per_day \<le> to_epoch_day x * ms_per_day"
      using x(3) by (intro mult_right_mono) (simp_all add: ms_per_day_def)
    moreover have "\<bar>off i1\<bar> < ms_per_day" using z by (simp add: zone_model_def)
    ultimately show ?thesis using i1 by (simp add: distrib_right)
  qed
  from next_occurrence_spec [OF g lo] y
  have so: "series_occurrence I rule anchor tz y" "due_moment_of I ?due < ex_instant y" by auto
  obtain e where e: "valid_date e" "1 \<le> year e" "ex_local y = with_time e anchor"
    "ex_instant y = local_to_instant I (with_time e anchor) tz"
    using g so(1) by (rule series_occurrence_props)
  have we: "with_time e anchor = ?s e" by (simp add: with_time_def a)
  have de: "due_date d = e" using d e(3) by (simp add: we date_of_def)
  obtain i2 where i2: "ex_instant y = to_epoch_day e * ms_per_day - off i2"
    using inst [of e] e by (auto simp: good_start_def we)
  show ?thesis
  proof (rule ccontr)
    assume "\<not> ?thesis"
    then have "to_epoch_day e \<le> to_epoch_day x + 1" by (simp add: de)
    then consider "to_epoch_day e = to_epoch_day x + 1" | "to_epoch_day e \<le> to_epoch_day x" by linarith
    then show False
    proof cases
      case 1
      then have "from_epoch_day (to_epoch_day e) = from_epoch_day (to_epoch_day (add_days x 1))"
        using gx1(2) by simp
      then have "e = add_days x 1"
        using from_to_epoch_day e(1) gx1(1) by (simp add: good_start_def)
      with so(2) st e(4) we show False by simp
    next
      case 2
      then have "to_epoch_day e * ms_per_day + ms_per_day \<le> (to_epoch_day x + 1) * ms_per_day"
        using mult_right_mono [of "to_epoch_day e + 1" "to_epoch_day x + 1" ms_per_day]
        by (simp add: distrib_right)
      with so(2) i1 i2 dif [of i1 i2] show False by (simp add: abs_less_iff)
    qed
  qed
qed

section \<open>A daily chore\<close>

definition daily :: rrule where
  "daily =
     \<lparr>r_freq = DAILY, r_interval = 1, r_count = None, r_until = None, r_by_day = [],
      r_by_month_day = [], r_by_month = [], r_wkst = MO\<rparr>"

definition chore_due :: due where
  "chore_due = DueDate (ymd 2026 9 16) ''UTC''"

definition chore_params :: task_params where
  "chore_params =
     \<lparr>c_id = TaskId ''t1'', c_family = FamilyId ''f1'', c_new_series = SeriesId ''s1'',
      c_title = ''Feed the cat'', c_notes = None, c_priority = None, c_category = None,
      c_due = Some chore_due, c_rule = Some ''FREQ=DAILY'', c_assignees = [MemberId ''m1''],
      c_created_by = Some (MemberId ''m1''), c_now = 1789000000000\<rparr>"

definition chore :: task where
  "chore =
     \<lparr>t_id = TaskId ''t1'', t_family = FamilyId ''f1'', t_title = ''Feed the cat'', t_notes = None,
      t_priority = Normal, t_category = None, t_due = Some chore_due, t_rule = Some daily,
      t_anchor = Some (at_time (ymd 2026 9 16) 0 0 0), t_series = Some (SeriesId ''s1''),
      t_predecessor = None, t_head = True, t_state = Open, t_overdue_reported = None,
      t_assignees = [MemberId ''m1''], t_created_by = Some (MemberId ''m1''), t_version = 1,
      t_created_at = 1789000000000, t_updated_at = 1789000000000\<rparr>"

lemma chore_created: "task_create chore_params = Inr chore"
  by code_simp

lemma chore_reachable: "task_reachable london_intl chore"
  by (rule reach_create [OF chore_created])

lemma chore_good:
  "good_series london_intl daily (at_time (ymd 2026 9 16) 0 0 0) (due_zone chore_due) (\<lambda>_. 0)"
  "t_rule chore = Some daily" "t_anchor chore = Some (at_time (ymd 2026 9 16) 0 0 0)"
  "t_due chore = Some chore_due"
proof -
  have "valid_local (at_time (ymd 2026 9 16) 0 0 0)" by code_simp
  then show "good_series london_intl daily (at_time (ymd 2026 9 16) 0 0 0) (due_zone chore_due) (\<lambda>_. 0)"
    using utc_model by (simp add: good_series_def ms_per_day_def daily_def valid_rule_def chore_due_def due_zone_def)
qed (simp_all add: chore_def)

text \<open>Closed on the 16th, an hour before its due moment.\<close>

definition chore_window :: expand_input where
  "chore_window =
     window_input daily (at_time (ymd 2026 9 16) 0 0 0) ''UTC'' 1789603200001 1789776000001"

lemma chore_dates:
  "valid_local (at_time (ymd 2026 9 16) 0 0 0)" "valid_local (at_time (ymd 2026 9 17) 0 0 0)"
  "valid_local (at_time (ymd 2026 9 18) 0 0 0)" "valid_local (at_time (ymd 2026 9 19) 0 0 0)"
  "valid_local (at_time (ymd 2026 9 20) 0 0 0)"
  "local_as_utc_ms (at_time (ymd 2026 9 16) 0 0 0) = 1789516800000"
  "local_as_utc_ms (at_time (ymd 2026 9 17) 0 0 0) = 1789603200000"
  "local_as_utc_ms (at_time (ymd 2026 9 18) 0 0 0) = 1789689600000"
  "local_as_utc_ms (at_time (ymd 2026 9 19) 0 0 0) = 1789776000000"
  "local_as_utc_ms (at_time (ymd 2026 9 20) 0 0 0) = 1789862400000"
  "date_of (local_of_ms 1789776000001) = ymd 2026 9 19"
  "add_days (date_of (local_of_ms 1789603200001)) (-2) = ymd 2026 9 15"
  "add_days (ymd 2026 9 16) 1 = ymd 2026 9 17"
  "add_days (ymd 2026 9 19) 1 = ymd 2026 9 20"
  "periods_between daily (ymd 2026 9 16) (ymd 2026 9 15) = -1"
  "date_of (at_time (ymd 2026 9 16) 0 0 0) = ymd 2026 9 16"
  by code_simp+

lemma chore_periods:
  "candidates_for_period daily (ymd 2026 9 16) 0 = [ymd 2026 9 16]"
  "candidates_for_period daily (ymd 2026 9 16) 1 = [ymd 2026 9 17]"
  "candidates_for_period daily (ymd 2026 9 16) 2 = [ymd 2026 9 18]"
  "candidates_for_period daily (ymd 2026 9 16) 3 = [ymd 2026 9 19]"
  "candidates_for_period daily (ymd 2026 9 16) 4 = [ymd 2026 9 20]"
  "compare_local_dates (period_start daily (ymd 2026 9 16) 0) (ymd 2026 9 20) = -4"
  "compare_local_dates (period_start daily (ymd 2026 9 16) 1) (ymd 2026 9 20) = -3"
  "compare_local_dates (period_start daily (ymd 2026 9 16) 2) (ymd 2026 9 20) = -2"
  "compare_local_dates (period_start daily (ymd 2026 9 16) 3) (ymd 2026 9 20) = -1"
  "compare_local_dates (period_start daily (ymd 2026 9 16) 4) (ymd 2026 9 20) = 0"
  by code_simp+

lemma chore_fields:
  "in_rule chore_window = daily" "in_dtstart chore_window = at_time (ymd 2026 9 16) 0 0 0"
  "in_zone chore_window = ''UTC''" "win_from chore_window = 1789603200001"
  "win_to chore_window = 1789776000001" "r_count daily = None" "r_until daily = None"
  "expand_limit chore_window = 1000" "initial_span_days daily = 2"
  "with_time d (at_time (ymd 2026 9 16) 0 0 0) = at_time d 0 0 0"
  by (simp_all add: chore_window_def window_input_def daily_def expand_limit_def
      max_occurrences_default_def with_time_def initial_span_days_def max_span_days_def)

definition chore_18th :: expanded where
  "chore_18th = \<lparr>ex_local = at_time (ymd 2026 9 18) 0 0 0, ex_instant = 1789689600000\<rparr>"

definition chore_19th :: expanded where
  "chore_19th = \<lparr>ex_local = at_time (ymd 2026 9 19) 0 0 0, ex_instant = 1789776000000\<rparr>"

lemma chore_scan:
  "expand london_intl chore_window
     = Inr \<lparr>occurrences = [chore_18th, chore_19th], exhausted = False\<rparr>"
proof -
  note scan = scan_periods.simps [of london_intl chore_window "ymd 2026 9 19"]
  have f: "first_period london_intl chore_window = 0"
    by (simp add: first_period_def chore_fields utc_reading chore_dates)
  show ?thesis
    unfolding expand_def f add_0 chore_fields utc_reading chore_dates
    using scan [of 0 max_periods "[]" 0] scan [of 1 max_periods "[]" 1]
      scan [of 2 max_periods "[]" 2] scan [of 3 max_periods "[chore_18th]" 3]
      scan [of 4 max_periods "[chore_18th, chore_19th]" 4]
    by (simp add: max_periods_def chore_fields chore_dates chore_periods utc_instant
        beyond_until_def Let_def compare_local_date_times_def chore_18th_def chore_19th_def)
qed

lemma chore_successor:
  "successor_due_of london_intl chore 1789599600000
     = Inr (Some (DueDate (ymd 2026 9 18) ''UTC''))"
proof -
  have m: "due_moment_of london_intl chore_due = 1789603200000"
    by (simp add: chore_due_def due_moment_of_def start_of_day_def chore_dates utc_instant)
  have w: "window_input daily (at_time (ymd 2026 9 16) 0 0 0) ''UTC'' 1789603200001
      (1789603200001 + 2 * ms_per_day) = chore_window"
    by (simp add: chore_window_def ms_per_day_def)
  have "next_occurrence_after london_intl daily (at_time (ymd 2026 9 16) 0 0 0) ''UTC''
      1789603200000 = Inr (Some chore_18th)"
    by (simp add: next_occurrence_after_def max_steps_def eval_nat_numeral chore_fields Let_def w
        chore_scan)
  moreover have "date_of (at_time (ymd 2026 9 18) 0 0 0) = ymd 2026 9 18" by code_simp
  ultimately show ?thesis
    by (simp add: successor_due_of_def chore_good due_at_def m [unfolded chore_due_def] due_zone_def chore_due_def
        map_result_def chore_18th_def Let_def) (simp add: chore_def)
qed

lemma chore_moment: "due_moment_of london_intl chore_due = 1789603200000"
  by (simp add: chore_due_def due_moment_of_def start_of_day_def chore_dates utc_instant)

section \<open>The properties at the chore\<close>

lemma chore_inv: "task_inv chore"
  by (rule task_reachable_inv [OF chore_reachable])

definition rule_patch :: "string option \<Rightarrow> task_patch" where
  "rule_patch v =
     \<lparr>p_title = None, p_notes = None, p_priority = None, p_category = None, p_due = None,
      p_rule = Some v\<rparr>"

definition retitled :: task_patch where
  "retitled =
     \<lparr>p_title = Some ''Feed the dog'', p_notes = None, p_priority = None, p_category = None,
      p_due = None, p_rule = None\<rparr>"

theorem reachable_task_well_formed_witness:
  "good_title (t_title chore) \<and> good_notes (t_notes chore) \<and> distinct (t_assignees chore)
    \<and> 1 \<le> t_version chore
    \<and> (case t_rule chore of None \<Rightarrow> t_anchor chore = None \<and> \<not> t_head chore
       | Some r \<Rightarrow> valid_rule r \<and> t_anchor chore \<noteq> None \<and> t_due chore \<noteq> None \<and> t_series chore \<noteq> None)"
  by (rule reachable_task_well_formed [OF chore_reachable])

theorem commands_version_witness:
  "t_version (snd (task_complete chore (MemberId ''m2'') 1789600000000)) = 2"
  using commands_version [OF chore_inv, where m = "MemberId ''m2''" and now = 1789600000000]
  by (simp add: task_complete_def is_open_def chore_def)

theorem lifecycle_steps_witness:
  "t_state (relinquish_head (chore\<lparr>t_state := Cancelled 5 None\<rparr>)) = Cancelled 5 None"
  using lifecycle_steps [OF step_relinquish [of london_intl "chore\<lparr>t_state := Cancelled 5 None\<rparr>"]]
  by simp

theorem one_off_edit_keeps_series_witness:
  "t_rule (chore\<lparr>t_title := ''Feed the dog'', t_version := 2, t_updated_at := 7\<rparr>) = t_rule chore"
proof -
  have "task_update london_intl chore retitled 7 (SeriesId ''s2'')
      = (Inr [Details], chore\<lparr>t_title := ''Feed the dog'', t_version := 2, t_updated_at := 7\<rparr>)"
    by code_simp
  from one_off_edit_keeps_series [OF this] show ?thesis by simp
qed

theorem removed_rule_stays_removed_witness:
  "\<exists>e. task_update london_intl
       (chore\<lparr>t_rule := None, t_anchor := None, t_head := False, t_version := 2, t_updated_at := 7\<rparr>)
       (rule_patch (Some ''FREQ=DAILY'')) 8 (SeriesId ''s3'')
     = (Inl e, chore\<lparr>t_rule := None, t_anchor := None, t_head := False, t_version := 2,
         t_updated_at := 7\<rparr>)"
proof -
  have "task_update london_intl chore (rule_patch None) 7 (SeriesId ''s2'')
      = (Inr [Recurrence], chore\<lparr>t_rule := None, t_anchor := None, t_head := False,
          t_version := 2, t_updated_at := 7\<rparr>)"
    by code_simp
  moreover have "rule_parse ''FREQ=DAILY'' = Inr daily" by code_simp
  ultimately show ?thesis
    using removed_rule_stays_removed [of chore london_intl 7 "SeriesId ''s2''" _ "''FREQ=DAILY''"
        daily "rule_patch (Some ''FREQ=DAILY'')"]
    by (simp add: rule_patch_def is_open_def chore_def)
qed

theorem parse_due_checks_witness:
  "parse_due london_intl (due_text chore_due) = Inr chore_due"
proof -
  have "parse_due london_intl (DueDateInput ''2026-09-16'' ''UTC'') = Inr chore_due"
    by code_simp
  with parse_due_checks [where I = london_intl and input = "DueDateInput ''2026-09-16'' ''UTC''"] show ?thesis
    by (simp add: chore_due_def due_date_def)
qed

theorem successor_due_exact_witness:
  "\<exists>x. series_occurrence london_intl daily (at_time (ymd 2026 9 16) 0 0 0) ''UTC'' x
     \<and> date_of (ex_local x) = ymd 2026 9 18 \<and> 1789603200000 < ex_instant x"
proof -
  have "(first_day + 10) * ms_per_day \<le> max (due_moment_of london_intl chore_due) 1789599600000"
    "due_zone chore_due = ''UTC''" "due_date (DueDate (ymd 2026 9 18) ''UTC'') = ymd 2026 9 18"
    by (simp_all add: chore_moment first_day_def ms_per_day_def due_zone_def due_date_def
        chore_due_def)
  with successor_due_exact [OF chore_good(2,3,4,1) _ chore_successor] chore_moment
  show ?thesis by (auto intro: sym)
qed

theorem date_only_successor_skips_witness:
  "to_epoch_day (ymd 2026 9 16) + 2 \<le> to_epoch_day (ymd 2026 9 18)"
proof -
  have v: "valid_date (ymd 2026 9 16)" "(1::int) \<le> 2026" by code_simp+
  have "first_day + 10 \<le> to_epoch_day (ymd 2026 9 16)" by code_simp
  with date_only_successor_skips [OF chore_good(2,3) _ _ refl v(1) _ _ chore_successor] show ?thesis
    using chore_good(1,4) by (auto simp: chore_due_def due_zone_def due_date_def)
qed

end
