(* ===== verification/Transaction.thy ===== *)
theory Transaction
  imports Kernel_Types
begin

text \<open>
  What the contexts share of their units of work: a computation over a store that may throw,
  the transaction that keeps the store only when the work returns, and \<open>rollback.ts\<close>, the
  exception that rolls a transaction back while its command still returns a typed error. A
  command that returns an error keeps what it wrote (an audit row, say); one that throws
  leaves the store as it was.
\<close>

datatype exn =
    RollbackWithError domain_error
  | AssigneeNotInFamily
  | ParticipantNotInFamily
  | SeriesInvariantViolated
  | UniqueViolation
  | ForeignKeyViolation
  | CheckViolation
  | RecordNotFound
  | CorruptRow

type_synonym ('s, 'a) tx = "'s \<Rightarrow> (exn + 'a) \<times> 's"

definition tx_return :: "'a \<Rightarrow> ('s, 'a) tx" where
  "tx_return v s = (Inr v, s)"

definition tx_throw :: "exn \<Rightarrow> ('s, 'a) tx" where
  "tx_throw e s = (Inl e, s)"

definition tx_bind :: "('s, 'a) tx \<Rightarrow> ('a \<Rightarrow> ('s, 'b) tx) \<Rightarrow> ('s, 'b) tx" where
  "tx_bind m f s = (case m s of (Inl e, s') \<Rightarrow> (Inl e, s') | (Inr v, s') \<Rightarrow> f v s')"

definition tx_get :: "('s \<Rightarrow> 'a) \<Rightarrow> ('s, 'a) tx" where
  "tx_get f s = (Inr (f s), s)"

definition tx_modify :: "('s \<Rightarrow> 's) \<Rightarrow> ('s, unit) tx" where
  "tx_modify f s = (Inr (), f s)"

fun tx_each :: "('a \<Rightarrow> ('s, unit) tx) \<Rightarrow> 'a list \<Rightarrow> ('s, unit) tx" where
  "tx_each f [] s = (Inr (), s)"
| "tx_each f (x # xs) s = tx_bind (f x) (\<lambda>_. tx_each f xs) s"

text \<open>\<open>try { m } catch (e) { if (e is x) throw y; throw e }\<close>.\<close>

definition tx_rethrow :: "exn \<Rightarrow> exn \<Rightarrow> ('s, 'a) tx \<Rightarrow> ('s, 'a) tx" where
  "tx_rethrow x y m s =
     (case m s of (Inl e, s') \<Rightarrow> (Inl (if e = x then y else e), s') | r \<Rightarrow> r)"

text \<open>A transaction: what throws is undone.\<close>

definition in_transaction :: "('s, 'a) tx \<Rightarrow> ('s, 'a) tx" where
  "in_transaction m s = (case m s of (Inl e, _) \<Rightarrow> (Inl e, s) | (Inr v, s') \<Rightarrow> (Inr v, s'))"

definition catch_rollback :: "('s, 'a outcome) tx \<Rightarrow> ('s, 'a outcome) tx" where
  "catch_rollback m s =
     (case m s of (Inl (RollbackWithError e), s') \<Rightarrow> (Inr (Inl e), s') | r \<Rightarrow> r)"

definition or_rollback :: "'a outcome \<Rightarrow> ('s, 'a) tx" where
  "or_rollback r = (case r of Inl e \<Rightarrow> tx_throw (RollbackWithError e) | Inr v \<Rightarrow> tx_return v)"

text \<open>\<open>if (!result.ok) return result;\<close> inside a unit of work.\<close>

definition tx_ok :: "'a outcome \<Rightarrow> ('a \<Rightarrow> ('s, 'b outcome) tx) \<Rightarrow> ('s, 'b outcome) tx" where
  "tx_ok r f = (case r of Inl e \<Rightarrow> tx_return (Inl e) | Inr v \<Rightarrow> f v)"

section \<open>Laws\<close>

lemma tx_simps [simp]:
  "tx_return v s = (Inr v, s)"
  "tx_throw e s = (Inl e, s)"
  "tx_get f s = (Inr (f s), s)"
  "tx_modify g s = (Inr (), g s)"
  by (simp_all add: tx_return_def tx_throw_def tx_get_def tx_modify_def)

lemma tx_bind_simps [simp]:
  "m s = (Inr v, s') \<Longrightarrow> tx_bind m f s = f v s'"
  "m s = (Inl e, s') \<Longrightarrow> tx_bind m f s = (Inl e, s')"
  "tx_bind (tx_return v) f = f v"
  "tx_bind (tx_throw e) f = tx_throw e"
  by (auto simp: tx_bind_def fun_eq_iff)

lemma tx_bind_assoc: "tx_bind (tx_bind m f) g = tx_bind m (\<lambda>x. tx_bind (f x) g)"
  by (auto simp: tx_bind_def fun_eq_iff split: prod.splits sum.splits)

lemma tx_ok_simps [simp]:
  "tx_ok (Inl e) f = tx_return (Inl e)"
  "tx_ok (Inr v) f = f v"
  by (simp_all add: tx_ok_def)

lemma or_rollback_simps [simp]:
  "or_rollback (Inl e) = tx_throw (RollbackWithError e)"
  "or_rollback (Inr v) = tx_return v"
  by (simp_all add: or_rollback_def)

lemma tx_bind_Inr:
  "tx_bind m f s = (Inr w, s2) \<longleftrightarrow> (\<exists>v s1. m s = (Inr v, s1) \<and> f v s1 = (Inr w, s2))"
  by (auto simp: tx_bind_def split: prod.splits sum.splits)

lemma in_transaction_throws: "in_transaction m s = (Inl e, s') \<Longrightarrow> s' = s"
  by (auto simp: in_transaction_def split: prod.splits sum.splits)

lemma in_transaction_Inr: "in_transaction m s = (Inr v, s') \<longleftrightarrow> m s = (Inr v, s')"
  by (auto simp: in_transaction_def split: prod.splits sum.splits)

subsection \<open>Invariants\<close>

text \<open>A computation keeps \<open>P\<close>: from a store with \<open>P\<close>, whatever it returns leaves \<open>P\<close>.\<close>

definition keeps :: "('s \<Rightarrow> bool) \<Rightarrow> ('s, 'a) tx \<Rightarrow> bool" where
  "keeps P m \<longleftrightarrow> (\<forall>s. P s \<longrightarrow> P (snd (m s)))"

named_theorems keeps_intros \<open>invariant rules of the store computations\<close>

lemma keeps_return [keeps_intros]: "keeps P (tx_return v)"
  by (simp add: keeps_def)

lemma keeps_throw [keeps_intros]: "keeps P (tx_throw e)"
  by (simp add: keeps_def)

lemma keeps_get [keeps_intros]: "keeps P (tx_get f)"
  by (simp add: keeps_def)

lemma keeps_bind [keeps_intros]:
  "keeps P m \<Longrightarrow> (\<And>v. keeps P (f v)) \<Longrightarrow> keeps P (tx_bind m f)"
  unfolding keeps_def tx_bind_def by (auto split: prod.splits sum.splits)

lemma keeps_each [keeps_intros]: "(\<And>x. keeps P (f x)) \<Longrightarrow> keeps P (tx_each f xs)"
proof (induction xs)
  case (Cons x xs)
  have "tx_each f (x # xs) = tx_bind (f x) (\<lambda>_. tx_each f xs)" by (simp add: fun_eq_iff)
  with Cons show ?case by (auto intro: keeps_bind)
qed (simp add: keeps_def)

lemma keeps_ok [keeps_intros]: "(\<And>v. keeps P (f v)) \<Longrightarrow> keeps P (tx_ok r f)"
  by (cases r) (auto intro: keeps_intros)

lemma keeps_or_rollback [keeps_intros]: "keeps P (or_rollback r)"
  by (cases r) (auto intro: keeps_intros)

lemma keeps_rethrow [keeps_intros]: "keeps P m \<Longrightarrow> keeps P (tx_rethrow x y m)"
  unfolding keeps_def tx_rethrow_def by (auto split: prod.splits sum.splits)

lemma keeps_catch [keeps_intros]: "keeps P m \<Longrightarrow> keeps P (catch_rollback m)"
  unfolding keeps_def catch_rollback_def
  by (auto split: prod.splits sum.splits exn.splits)

lemma keeps_transaction [keeps_intros]: "keeps P m \<Longrightarrow> keeps P (in_transaction m)"
  unfolding keeps_def in_transaction_def
  by (auto split: prod.splits sum.splits)

subsection \<open>What a computation ends in\<close>

text \<open>
  \<open>wp m Q s\<close>: run from \<open>s\<close>, the computation ends with an outcome and a store that satisfy \<open>Q\<close>.
  Every computation ends, so this is also total correctness.
\<close>

definition wp :: "('s, 'a) tx \<Rightarrow> (exn + 'a \<Rightarrow> 's \<Rightarrow> bool) \<Rightarrow> 's \<Rightarrow> bool" where
  "wp m Q s = (case m s of (r, s') \<Rightarrow> Q r s')"

named_theorems wp_simps \<open>the outcome of a computation from the outcomes of its parts\<close>

lemma wp_basic [wp_simps]:
  "wp (tx_return v) Q s = Q (Inr v) s"
  "wp (tx_throw e) Q s = Q (Inl e) s"
  "wp (tx_get f) Q s = Q (Inr (f s)) s"
  "wp (tx_modify g) Q s = Q (Inr ()) (g s)"
  by (simp_all add: wp_def)

lemma wp_bind [wp_simps]:
  "wp (tx_bind m f) Q s = wp m (\<lambda>r s'. case r of Inl e \<Rightarrow> Q (Inl e) s' | Inr v \<Rightarrow> wp (f v) Q s') s"
  by (auto simp: wp_def tx_bind_def split: prod.splits sum.splits)

lemma wp_transaction [wp_simps]:
  "wp (in_transaction m) Q s = wp m (\<lambda>r s'. case r of Inl e \<Rightarrow> Q (Inl e) s | Inr v \<Rightarrow> Q (Inr v) s') s"
  by (auto simp: wp_def in_transaction_def split: prod.splits sum.splits)

lemma wp_catch [wp_simps]:
  "wp (catch_rollback m) Q s =
     wp m (\<lambda>r s'. case r of Inl (RollbackWithError e) \<Rightarrow> Q (Inr (Inl e)) s' | _ \<Rightarrow> Q r s') s"
  by (auto simp: wp_def catch_rollback_def split: prod.splits sum.splits exn.splits)

lemma wp_rethrow [wp_simps]:
  "wp (tx_rethrow x y m) Q s =
     wp m (\<lambda>r s'. case r of Inl e \<Rightarrow> Q (Inl (if e = x then y else e)) s' | _ \<Rightarrow> Q r s') s"
  by (auto simp: wp_def tx_rethrow_def split: prod.splits sum.splits)

lemma wp_or_rollback [wp_simps]:
  "wp (or_rollback r) Q s = (case r of Inl e \<Rightarrow> Q (Inl (RollbackWithError e)) s | Inr v \<Rightarrow> Q (Inr v) s)"
  by (cases r) (simp_all add: wp_def)

lemma wp_ok [wp_simps]:
  "wp (tx_ok r f) Q s = (case r of Inl e \<Rightarrow> Q (Inr (Inl e)) s | Inr v \<Rightarrow> wp (f v) Q s)"
  by (cases r) (simp_all add: wp_def)

lemma wp_mono: "wp m Q s \<Longrightarrow> (\<And>r s'. Q r s' \<Longrightarrow> R r s') \<Longrightarrow> wp m R s"
  by (auto simp: wp_def)

lemma wp_eq: "m s = (r, s') \<Longrightarrow> wp m Q s = Q r s'"
  by (simp add: wp_def)

lemma wp_conj: "wp m Q s \<Longrightarrow> wp m R s \<Longrightarrow> wp m (\<lambda>r s'. Q r s' \<and> R r s') s"
  by (auto simp: wp_def)

text \<open>A loop of steps that never throw.\<close>

lemma tx_each_modify: "tx_each (\<lambda>x. tx_modify (g x)) xs s = (Inr (), fold g xs s)"
  by (induction xs arbitrary: s) simp_all

end
