(* ===== verification/Task_Store.thy ===== *)
theory Task_Store
  imports Task_Facts Transaction
begin

text \<open>
  The Tasks tables and the repositories over them,
  \<open>packages/persistence/src/repositories/tasks\<close> and the migration
  \<open>20260916090000_tasks\<close>: the rows as the columns hold them, the mapping of the aggregate to
  its row and back, the constraints of the tables, and one definition per repository method.

  PostgreSQL is not under the repository; what the model uses of it is documented behaviour:
  row level security shows a transaction only the rows of its family, a CHECK, UNIQUE or
  FOREIGN KEY that does not hold makes the statement throw, a partial unique index ranges
  over the rows that satisfy its condition. Text is ordered by code unit. Numbers of a column
  are unbounded here; \<open>version\<close> is a 32-bit column.
\<close>

section \<open>Rows\<close>

datatype status_col = StatusOpen | StatusCompleted | StatusCancelled

datatype kind_col = KindNone | KindDate | KindDateTime

record task_row =
  tr_id :: task_id
  tr_family :: family_id
  tr_title :: string
  tr_notes :: "string option"
  tr_priority :: task_priority
  tr_category :: "task_category option"
  tr_status :: status_col
  tr_due_kind :: kind_col
  tr_due_date :: "int option"
  tr_due_time :: "int option"
  tr_zone :: "string option"
  tr_due_at :: "int option"
  tr_rule :: "string option"
  tr_anchor :: "int option"
  tr_series :: "series_id option"
  tr_predecessor :: "task_id option"
  tr_head :: bool
  tr_completed_at :: "int option"
  tr_completed_by :: "member_id option"
  tr_cancelled_at :: "int option"
  tr_cancelled_by :: "member_id option"
  tr_closed_at :: "int option"
  tr_overdue :: "int option"
  tr_created_by :: "member_id option"
  tr_version :: int
  tr_created_at :: int
  tr_updated_at :: int

record assignment_row =
  as_task :: task_id
  as_family :: family_id
  as_member :: member_id
  as_at :: int
  as_by :: "member_id option"

text \<open>
  The database as one transaction sees it. \<open>db_now\<close> is \<open>CURRENT_TIMESTAMP\<close>, the start of the
  transaction; the members are the rows \<open>family_member (id, family_id)\<close> the composite foreign
  key refers to.
\<close>

record task_store =
  task_rows :: "task_row list"
  assignment_rows :: "assignment_row list"
  db_families :: "family_id list"
  db_members :: "(member_id \<times> family_id) list"
  db_outbox :: "outbox_event list"
  db_audit :: "audit_entry list"
  db_now :: int

type_synonym 'a task_tx = "(task_store, 'a) tx"

section \<open>Columns and aggregates\<close>

definition local_date_to_db :: "local_date \<Rightarrow> int" where
  "local_date_to_db d = date_utc (year d) (month d) (day d) 0 0 0"

definition db_to_local_date :: "int \<Rightarrow> local_date" where
  "db_to_local_date v = ymd (utc_year v) (utc_month v) (utc_date v)"

definition local_time_to_db :: "local_time \<Rightarrow> int" where
  "local_time_to_db t = date_utc 1970 1 1 (lt_hour t) (lt_minute t) 0"

definition local_date_time_to_db :: "local_date_time \<Rightarrow> int" where
  "local_date_time_to_db l =
     date_utc (year l) (month l) (day l) (hour l) (minute l) (second l)"

definition db_to_local_date_time :: "int \<Rightarrow> local_date_time" where
  "db_to_local_date_time v =
     at_time (db_to_local_date v) (utc_hours v) (utc_minutes v) (utc_seconds v)"

definition kind_of_due :: "due option \<Rightarrow> kind_col" where
  "kind_of_due d =
     (case d of None \<Rightarrow> KindNone | Some (DueDate _ _) \<Rightarrow> KindDate
      | Some (DueDateTime _ _ _) \<Rightarrow> KindDateTime)"

definition status_of_state :: "task_state \<Rightarrow> status_col" where
  "status_of_state st =
     (case st of Open \<Rightarrow> StatusOpen | Completed _ _ \<Rightarrow> StatusCompleted
      | Cancelled _ _ \<Rightarrow> StatusCancelled)"

definition due_columns :: "due option \<Rightarrow> int option \<times> int option \<times> string option" where
  "due_columns d =
     (map_option (\<lambda>x. local_date_to_db (due_date x)) d,
      (case d of Some (DueDateTime _ t _) \<Rightarrow> Some (local_time_to_db t) | _ \<Rightarrow> None),
      map_option due_zone d)"

text \<open>\<open>columns(task)\<close>, written over a row.\<close>

definition columns :: "intl \<Rightarrow> task \<Rightarrow> task_row \<Rightarrow> task_row" where
  "columns I t r =
     (case due_columns (t_due t) of (dd, dt, tz) \<Rightarrow>
      r\<lparr>tr_title := t_title t, tr_notes := t_notes t, tr_priority := t_priority t,
        tr_category := t_category t, tr_status := status_of_state (t_state t),
        tr_due_kind := kind_of_due (t_due t), tr_due_date := dd, tr_due_time := dt,
        tr_zone := tz, tr_due_at := due_at I t,
        tr_rule := map_option rule_to_string (t_rule t),
        tr_anchor := map_option local_date_time_to_db (t_anchor t),
        tr_series := t_series t, tr_head := t_head t,
        tr_completed_at := (case t_state t of Completed a _ \<Rightarrow> Some a | _ \<Rightarrow> None),
        tr_completed_by := (case t_state t of Completed _ b \<Rightarrow> b | _ \<Rightarrow> None),
        tr_cancelled_at := (case t_state t of Cancelled a _ \<Rightarrow> Some a | _ \<Rightarrow> None),
        tr_cancelled_by := (case t_state t of Cancelled _ b \<Rightarrow> b | _ \<Rightarrow> None),
        tr_closed_at := (case t_state t of Open \<Rightarrow> None | Completed a _ \<Rightarrow> Some a | Cancelled a _ \<Rightarrow> Some a),
        tr_overdue := t_overdue_reported t, tr_version := t_version t,
        tr_updated_at := t_updated_at t\<rparr>)"

text \<open>The row of \<open>insert\<close>: the columns with the identity, under the scope's family.\<close>

definition new_row :: "intl \<Rightarrow> family_id \<Rightarrow> task \<Rightarrow> task_row" where
  "new_row I fam t =
     columns I t
       \<lparr>tr_id = t_id t, tr_family = fam, tr_title = t_title t, tr_notes = None,
        tr_priority = Normal, tr_category = None, tr_status = StatusOpen, tr_due_kind = KindNone,
        tr_due_date = None, tr_due_time = None, tr_zone = None, tr_due_at = None,
        tr_rule = None, tr_anchor = None, tr_series = None, tr_predecessor = t_predecessor t,
        tr_head = False, tr_completed_at = None, tr_completed_by = None, tr_cancelled_at = None,
        tr_cancelled_by = None, tr_closed_at = None, tr_overdue = None,
        tr_created_by = t_created_by t, tr_version = 1, tr_created_at = t_created_at t,
        tr_updated_at = t_updated_at t\<rparr>"

definition to_due :: "task_row \<Rightarrow> exn + due option" where
  "to_due r =
     (if tr_due_kind r = KindNone then Inr None
      else
        (case (tr_due_date r, tr_zone r) of
           (Some v, Some tz) \<Rightarrow>
             (let d = db_to_local_date v in
              if tr_due_kind r = KindDate then Inr (Some (DueDate d tz))
              else
                (case tr_due_time r of
                   None \<Rightarrow> Inl CorruptRow
                 | Some w \<Rightarrow>
                     Inr (Some (DueDateTime d \<lparr>lt_hour = utc_hours w, lt_minute = utc_minutes w\<rparr> tz))))
         | _ \<Rightarrow> Inl CorruptRow))"

definition to_state :: "task_row \<Rightarrow> exn + task_state" where
  "to_state r =
     (case (tr_status r, tr_completed_at r, tr_cancelled_at r) of
        (StatusCompleted, Some a, _) \<Rightarrow> Inr (Completed a (tr_completed_by r))
      | (StatusCancelled, _, Some a) \<Rightarrow> Inr (Cancelled a (tr_cancelled_by r))
      | (StatusOpen, _, _) \<Rightarrow> Inr Open
      | _ \<Rightarrow> Inl CorruptRow)"

definition to_rule :: "task_row \<Rightarrow> exn + rrule option" where
  "to_rule r =
     (case tr_rule r of
        None \<Rightarrow> Inr None
      | Some s \<Rightarrow> (case rule_parse s of Inl _ \<Rightarrow> Inl CorruptRow | Inr x \<Rightarrow> Inr (Some x)))"

definition to_aggregate :: "task_row \<Rightarrow> member_id list \<Rightarrow> exn + task" where
  "to_aggregate r ms =
     (case to_rule r of Inl e \<Rightarrow> Inl e | Inr rule \<Rightarrow>
     (case to_due r of Inl e \<Rightarrow> Inl e | Inr due \<Rightarrow>
     (case to_state r of Inl e \<Rightarrow> Inl e | Inr st \<Rightarrow>
        Inr \<lparr>t_id = tr_id r, t_family = tr_family r, t_title = tr_title r, t_notes = tr_notes r,
          t_priority = tr_priority r, t_category = tr_category r, t_due = due, t_rule = rule,
          t_anchor = map_option db_to_local_date_time (tr_anchor r), t_series = tr_series r,
          t_predecessor = tr_predecessor r, t_head = tr_head r, t_state = st,
          t_overdue_reported = tr_overdue r, t_assignees = ms, t_created_by = tr_created_by r,
          t_version = tr_version r, t_created_at = tr_created_at r,
          t_updated_at = tr_updated_at r\<rparr>)))"

section \<open>Constraints of the tables\<close>

definition due_shape :: "task_row \<Rightarrow> bool" where
  "due_shape r \<longleftrightarrow>
     (case tr_due_kind r of
        KindNone \<Rightarrow> tr_due_date r = None \<and> tr_due_time r = None \<and> tr_zone r = None \<and> tr_due_at r = None
      | KindDate \<Rightarrow> tr_due_date r \<noteq> None \<and> tr_due_time r = None \<and> tr_zone r \<noteq> None \<and> tr_due_at r \<noteq> None
      | KindDateTime \<Rightarrow> tr_due_date r \<noteq> None \<and> tr_due_time r \<noteq> None \<and> tr_zone r \<noteq> None \<and> tr_due_at r \<noteq> None)"

definition recurrence_shape :: "task_row \<Rightarrow> bool" where
  "recurrence_shape r \<longleftrightarrow>
     tr_rule r = None \<and> tr_anchor r = None
     \<or> tr_rule r \<noteq> None \<and> tr_anchor r \<noteq> None \<and> tr_series r \<noteq> None \<and> tr_due_kind r \<noteq> KindNone"

definition status_shape :: "task_row \<Rightarrow> bool" where
  "status_shape r \<longleftrightarrow>
     (case tr_status r of
        StatusOpen \<Rightarrow> tr_completed_at r = None \<and> tr_cancelled_at r = None
      | StatusCompleted \<Rightarrow> tr_completed_at r \<noteq> None \<and> tr_cancelled_at r = None
      | StatusCancelled \<Rightarrow> tr_cancelled_at r \<noteq> None \<and> tr_completed_at r = None)
     \<and> tr_closed_at r = (case tr_completed_at r of None \<Rightarrow> tr_cancelled_at r | a \<Rightarrow> a)"

definition row_shape :: "task_row \<Rightarrow> bool" where
  "row_shape r \<longleftrightarrow>
     due_shape r \<and> recurrence_shape r \<and> status_shape r \<and> (tr_head r \<longrightarrow> tr_series r \<noteq> None)
     \<and> list_ex (\<lambda>c. c \<noteq> CHR '' '') (tr_title r) \<and> 1 \<le> tr_version r"

text \<open>Whether another row already has the row's key under one of the unique indexes.\<close>

definition row_clash :: "task_row \<Rightarrow> task_row \<Rightarrow> bool" where
  "row_clash r x \<longleftrightarrow>
     tr_id x = tr_id r
     \<or> tr_predecessor r \<noteq> None \<and> tr_predecessor x = tr_predecessor r
     \<or> tr_head r \<and> tr_head x \<and> tr_series x = tr_series r \<and> tr_series r \<noteq> None"

definition insert_row :: "task_row \<Rightarrow> unit task_tx" where
  "insert_row r s =
     (if \<not> row_shape r then (Inl CheckViolation, s)
      else if list_ex (row_clash r) (task_rows s) then (Inl UniqueViolation, s)
      else if tr_family r \<notin> set (db_families s)
          \<or> (case tr_predecessor r of None \<Rightarrow> False | Some p \<Rightarrow> p \<noteq> tr_id r \<and> p \<notin> tr_id ` set (task_rows s))
      then (Inl ForeignKeyViolation, s)
      else (Inr (), s\<lparr>task_rows := task_rows s @ [r]\<rparr>))"

definition scoped_row :: "family_id \<Rightarrow> task_id \<Rightarrow> task_store \<Rightarrow> task_row option" where
  "scoped_row fam i s = tbl_find tr_id i (filter (\<lambda>r. tr_family r = fam) (task_rows s))"

text \<open>An update of one visible row; Prisma throws when there is none.\<close>

definition update_row :: "family_id \<Rightarrow> task_id \<Rightarrow> (task_row \<Rightarrow> task_row) \<Rightarrow> unit task_tx" where
  "update_row fam i f s =
     (case scoped_row fam i s of
        None \<Rightarrow> (Inl RecordNotFound, s)
      | Some r \<Rightarrow>
          (if \<not> row_shape (f r) then (Inl CheckViolation, s)
           else if list_ex (\<lambda>x. tr_id x \<noteq> i \<and> row_clash (f r) x) (task_rows s)
           then (Inl UniqueViolation, s)
           else (Inr (), s\<lparr>task_rows :=
             tbl_update (\<lambda>x. tr_id x = i \<and> tr_family x = fam) (\<lambda>_. f r) (task_rows s)\<rparr>)))"

section \<open>The task repository\<close>

definition assignees_of :: "family_id \<Rightarrow> task_id \<Rightarrow> task_store \<Rightarrow> member_id list" where
  "assignees_of fam i s =
     map as_member (sort_key as_at (sort_key (\<lambda>a. member_text (as_member a))
       (filter (\<lambda>a. as_task a = i \<and> as_family a = fam) (assignment_rows s))))"

definition load_row :: "family_id \<Rightarrow> task_store \<Rightarrow> task_row \<Rightarrow> exn + task" where
  "load_row fam s r = to_aggregate r (assignees_of fam (tr_id r) s)"

definition find_by_id :: "family_id \<Rightarrow> task_id \<Rightarrow> task option task_tx" where
  "find_by_id fam i s =
     (case scoped_row fam i s of
        None \<Rightarrow> (Inr None, s)
      | Some r \<Rightarrow> (case load_row fam s r of Inl e \<Rightarrow> (Inl e, s) | Inr t \<Rightarrow> (Inr (Some t), s)))"

text \<open>The lock serialises transactions; within one, the read is the same.\<close>

definition lock_by_id :: "family_id \<Rightarrow> task_id \<Rightarrow> task option task_tx" where
  "lock_by_id fam i =
     tx_bind (tx_get (scoped_row fam i)) (\<lambda>locked.
       if locked = None then tx_return None else find_by_id fam i)"

definition insert_task :: "intl \<Rightarrow> family_id \<Rightarrow> task \<Rightarrow> unit task_tx" where
  "insert_task I fam t = insert_row (new_row I fam t)"

definition save_task :: "intl \<Rightarrow> family_id \<Rightarrow> task \<Rightarrow> unit task_tx" where
  "save_task I fam t = update_row fam (t_id t) (columns I t)"

text \<open>\<open>CorruptRow\<close> stands for the plain \<open>Error\<close> of a predecessor that is still flagged.\<close>

definition hand_over_head :: "intl \<Rightarrow> family_id \<Rightarrow> task \<Rightarrow> task \<Rightarrow> unit task_tx" where
  "hand_over_head I fam pred succ =
     (if t_head pred then tx_throw CorruptRow
      else tx_rethrow UniqueViolation SeriesInvariantViolated
        (tx_bind (save_task I fam pred) (\<lambda>_. insert_task I fam succ)))"

section \<open>The assignment repository\<close>

definition assignment_key :: "assignment_row \<Rightarrow> task_id \<times> member_id" where
  "assignment_key a = (as_task a, as_member a)"

text \<open>\<open>INSERT ... ON CONFLICT DO NOTHING\<close>, row by row.\<close>

fun add_new_rows :: "assignment_row list \<Rightarrow> assignment_row list \<Rightarrow> assignment_row list" where
  "add_new_rows [] rows = rows"
| "add_new_rows (a # new) rows =
     add_new_rows new
       (if assignment_key a \<in> assignment_key ` set rows then rows else rows @ [a])"

text \<open>The foreign keys of the rows an insert adds; a violation reaches the caller as \<open>P2003\<close>.\<close>

definition assignment_refs :: "task_store \<Rightarrow> assignment_row \<Rightarrow> bool" where
  "assignment_refs s a \<longleftrightarrow>
     (as_task a, as_family a) \<in> (\<lambda>r. (tr_id r, tr_family r)) ` set (task_rows s)
     \<and> (as_member a, as_family a) \<in> set (db_members s)"

definition add_assignments ::
  "family_id \<Rightarrow> task_id \<Rightarrow> member_id list \<Rightarrow> member_id option \<Rightarrow> unit task_tx"
where
  "add_assignments fam i ms by s =
     (if ms = [] then (Inr (), s)
      else
        (let rows = add_new_rows
               (map (\<lambda>m. \<lparr>as_task = i, as_family = fam, as_member = m, as_at = db_now s, as_by = by\<rparr>) ms)
               (assignment_rows s) in
         if list_all (assignment_refs s) (drop (length (assignment_rows s)) rows)
         then (Inr (), s\<lparr>assignment_rows := rows\<rparr>)
         else (Inl AssigneeNotInFamily, s)))"

definition remove_assignment :: "family_id \<Rightarrow> task_id \<Rightarrow> member_id \<Rightarrow> unit task_tx" where
  "remove_assignment fam i m =
     tx_modify (\<lambda>s. s\<lparr>assignment_rows :=
       tbl_delete (\<lambda>a. as_task a = i \<and> as_member a = m \<and> as_family a = fam) (assignment_rows s)\<rparr>)"

section \<open>Outbox and audit log\<close>

definition append_event :: "outbox_event \<Rightarrow> unit task_tx" where
  "append_event e = tx_modify (\<lambda>s. s\<lparr>db_outbox := db_outbox s @ [e]\<rparr>)"

definition append_audit :: "audit_entry \<Rightarrow> unit task_tx" where
  "append_audit e = tx_modify (\<lambda>s. s\<lparr>db_audit := db_audit s @ [e]\<rparr>)"

section \<open>The list queries\<close>

definition visible_only :: "family_id \<Rightarrow> member_id list \<Rightarrow> task_store \<Rightarrow> task_row \<Rightarrow> bool" where
  "visible_only fam visible s r \<longleftrightarrow>
     \<not> list_ex (\<lambda>a. as_family a = fam \<and> as_task a = tr_id r \<and> as_member a \<notin> set visible)
         (assignment_rows s)"

record open_cursor =
  oc_due_at :: "int option"
  oc_id :: task_id

record closed_cursor =
  cc_closed_at :: int
  cc_id :: task_id

record open_query =
  oq_visible :: "member_id list"
  oq_assignee :: "member_id option"
  oq_overdue_at :: "int option"
  oq_due_from :: "int option"
  oq_due_to :: "int option"
  oq_after :: "open_cursor option"
  oq_limit :: nat

record closed_query =
  cq_visible :: "member_id list"
  cq_from :: int
  cq_to :: int
  cq_after :: "closed_cursor option"
  cq_limit :: nat

text \<open>A comparison with a column that is \<open>NULL\<close> is not true.\<close>

definition sql_holds :: "(int \<Rightarrow> bool) \<Rightarrow> int option \<Rightarrow> bool" where
  "sql_holds p c = (case c of None \<Rightarrow> False | Some v \<Rightarrow> p v)"

definition open_matches :: "family_id \<Rightarrow> open_query \<Rightarrow> task_store \<Rightarrow> task_row \<Rightarrow> bool" where
  "open_matches fam q s r \<longleftrightarrow>
     tr_family r = fam \<and> tr_status r = StatusOpen \<and> visible_only fam (oq_visible q) s r
     \<and> (case oq_assignee q of None \<Rightarrow> True | Some m \<Rightarrow>
          list_ex (\<lambda>a. as_family a = fam \<and> as_task a = tr_id r \<and> as_member a = m) (assignment_rows s))
     \<and> (case oq_overdue_at q of None \<Rightarrow> True | Some x \<Rightarrow> sql_holds (\<lambda>d. d \<le> x) (tr_due_at r))
     \<and> (case oq_due_from q of None \<Rightarrow> True | Some x \<Rightarrow> sql_holds (\<lambda>d. x \<le> d) (tr_due_at r))
     \<and> (case oq_due_to q of None \<Rightarrow> True | Some x \<Rightarrow> sql_holds (\<lambda>d. d < x) (tr_due_at r))"

definition open_after :: "open_cursor \<Rightarrow> task_row \<Rightarrow> bool" where
  "open_after c r \<longleftrightarrow>
     (case oc_due_at c of
        None \<Rightarrow> tr_due_at r = None \<and> oc_id c < tr_id r
      | Some x \<Rightarrow>
          (case tr_due_at r of None \<Rightarrow> True | Some d \<Rightarrow> x < d \<or> d = x \<and> oc_id c < tr_id r))"

text \<open>\<open>ORDER BY due_at ASC NULLS LAST, id ASC\<close> and \<open>ORDER BY closed_at DESC, id DESC\<close>.\<close>

definition open_order :: "task_row list \<Rightarrow> task_row list" where
  "open_order rows =
     (let by_id = sort_key tr_id rows in
      sort_key (\<lambda>r. case tr_due_at r of None \<Rightarrow> 0 | Some d \<Rightarrow> d) (filter (\<lambda>r. tr_due_at r \<noteq> None) by_id)
      @ filter (\<lambda>r. tr_due_at r = None) by_id)"

definition closed_order :: "task_row list \<Rightarrow> task_row list" where
  "closed_order rows =
     rev (sort_key (\<lambda>r. case tr_closed_at r of None \<Rightarrow> 0 | Some d \<Rightarrow> d) (sort_key tr_id rows))"

definition closed_matches :: "family_id \<Rightarrow> closed_query \<Rightarrow> task_store \<Rightarrow> task_row \<Rightarrow> bool" where
  "closed_matches fam q s r \<longleftrightarrow>
     tr_family r = fam \<and> tr_status r \<noteq> StatusOpen
     \<and> sql_holds (\<lambda>c. cq_from q \<le> c) (tr_closed_at r) \<and> sql_holds (\<lambda>c. c < cq_to q) (tr_closed_at r)
     \<and> visible_only fam (cq_visible q) s r"

definition closed_after :: "closed_cursor \<Rightarrow> task_row \<Rightarrow> bool" where
  "closed_after c r \<longleftrightarrow>
     sql_holds (\<lambda>d. d < cc_closed_at c \<or> d = cc_closed_at c \<and> tr_id r < cc_id c) (tr_closed_at r)"

definition open_rows :: "family_id \<Rightarrow> open_query \<Rightarrow> task_store \<Rightarrow> task_row list" where
  "open_rows fam q s =
     take (oq_limit q) (open_order (filter (\<lambda>r. open_matches fam q s r
       \<and> (case oq_after q of None \<Rightarrow> True | Some c \<Rightarrow> open_after c r)) (task_rows s)))"

definition closed_rows :: "family_id \<Rightarrow> closed_query \<Rightarrow> task_store \<Rightarrow> task_row list" where
  "closed_rows fam q s =
     take (cq_limit q) (closed_order (filter (\<lambda>r. closed_matches fam q s r
       \<and> (case cq_after q of None \<Rightarrow> True | Some c \<Rightarrow> closed_after c r)) (task_rows s)))"

text \<open>The aggregates of the ids, in their order; the first row that does not load throws.\<close>

fun load_in_order :: "family_id \<Rightarrow> task_id list \<Rightarrow> task list task_tx" where
  "load_in_order fam [] s = (Inr [], s)"
| "load_in_order fam (i # ids) s =
     (case scoped_row fam i s of
        None \<Rightarrow> load_in_order fam ids s
      | Some r \<Rightarrow>
          (case load_row fam s r of
             Inl e \<Rightarrow> (Inl e, s)
           | Inr t \<Rightarrow> tx_bind (load_in_order fam ids) (\<lambda>ts. tx_return (t # ts)) s))"

definition list_open :: "family_id \<Rightarrow> open_query \<Rightarrow> task list task_tx" where
  "list_open fam q s = load_in_order fam (map tr_id (open_rows fam q s)) s"

definition list_closed :: "family_id \<Rightarrow> closed_query \<Rightarrow> task list task_tx" where
  "list_closed fam q s = load_in_order fam (map tr_id (closed_rows fam q s)) s"

section \<open>The overdue sweep's reads and erasure\<close>

definition needs_report_row :: "int \<Rightarrow> task_row \<Rightarrow> bool" where
  "needs_report_row now r \<longleftrightarrow>
     tr_status r = StatusOpen \<and> tr_due_at r \<noteq> None \<and> tr_overdue r \<noteq> tr_due_at r
     \<and> sql_holds (\<lambda>d. d \<le> now) (tr_due_at r)"

text \<open>\<open>ORDER BY due_at\<close> leaves ties to the planner; insertion order here.\<close>

definition find_overdue :: "int \<Rightarrow> task_store \<Rightarrow> (task_id \<times> family_id) list" where
  "find_overdue now s =
     map (\<lambda>r. (tr_id r, tr_family r))
       (sort_key (\<lambda>r. case tr_due_at r of None \<Rightarrow> 0 | Some d \<Rightarrow> d)
         (filter (needs_report_row now) (task_rows s)))"

definition measure_overdue_lag :: "int \<Rightarrow> task_store \<Rightarrow> int" where
  "measure_overdue_lag now s =
     (case sort (List.map_filter tr_due_at (filter (needs_report_row now) (task_rows s))) of
        [] \<Rightarrow> 0
      | oldest # _ \<Rightarrow> max 0 (round_div (now - oldest) 1000))"

text \<open>
  Deleting a family's tasks cascades to their assignments and clears the predecessor of a
  row that pointed at one.
\<close>

definition erase_tasks_for_family :: "family_id \<Rightarrow> task_store \<Rightarrow> task_store" where
  "erase_tasks_for_family fam s =
     (let gone = map tr_id (filter (\<lambda>r. tr_family r = fam) (task_rows s)) in
      s\<lparr>task_rows := map (\<lambda>r. case tr_predecessor r of
            Some p \<Rightarrow> if p \<in> set gone then r\<lparr>tr_predecessor := None\<rparr> else r
          | None \<Rightarrow> r) (tbl_delete (\<lambda>r. tr_family r = fam) (task_rows s)),
        assignment_rows :=
          tbl_delete (\<lambda>a. as_task a \<in> set gone \<and> as_family a = fam) (assignment_rows s)\<rparr>)"

definition erase_tasks_for_member :: "member_id \<Rightarrow> task_store \<Rightarrow> task_store" where
  "erase_tasks_for_member m s =
     (let fams = unique (map as_family (filter (\<lambda>a. as_member a = m) (assignment_rows s))) in
      s\<lparr>assignment_rows :=
        foldl (\<lambda>rows fam. tbl_delete (\<lambda>a. as_member a = m \<and> as_family a = fam) rows)
          (assignment_rows s) fams\<rparr>)"

end
