(* ===== verification/Task_Store_Facts.thy ===== *)
theory Task_Store_Facts
  imports Task_Store
begin

text \<open>
  What the Tasks tables guarantee: a task the domain accepts is read back as it was written,
  its row satisfies every CHECK, and the invariant \<open>task_db\<close> of the tables is kept by each
  repository method under the conditions the commands establish.
\<close>

section \<open>Writing and reading back\<close>

text \<open>
  The dates the date columns hold faithfully: from the year 100 on, since \<open>Date.UTC\<close> reads
  an earlier one as a year of the twentieth century.
\<close>

definition storable_date :: "local_date \<Rightarrow> bool" where
  "storable_date d \<longleftrightarrow> valid_date d \<and> 100 \<le> year d"

definition storable_due :: "due \<Rightarrow> bool" where
  "storable_due d \<longleftrightarrow>
     storable_date (due_date d) \<and> (case d of DueDate _ _ \<Rightarrow> True | DueDateTime _ t _ \<Rightarrow> good_time t)"

definition storable_local :: "local_date_time \<Rightarrow> bool" where
  "storable_local l \<longleftrightarrow> valid_local l \<and> 100 \<le> year l"

definition storable :: "task \<Rightarrow> bool" where
  "storable t \<longleftrightarrow> pred_option storable_due (t_due t) \<and> pred_option storable_local (t_anchor t)"

lemma date_utc_local:
  assumes "storable_local l"
  shows "local_date_time_to_db l = make_day (year l) (month l) (day l) * ms_per_day + clock_ms l"
  using assms by (simp add: local_date_time_to_db_def date_utc_def clock_ms_def storable_local_def Let_def)

lemma db_local_roundtrip:
  assumes "storable_local l"
  shows "db_to_local_date_time (local_date_time_to_db l) = l"
proof -
  have v: "valid_local l" using assms by (simp add: storable_local_def)
  note t = date_utc_local [OF assms]
  have c: "civil_date (year l) (month l) (day l)"
    using assms valid_date_civil [of "date_of l"] by (auto simp: storable_local_def valid_local_def)
  have "day_of_ms (local_date_time_to_db l) = make_day (year l) (month l) (day l)"
    unfolding t using clock_ms_range [OF v] by simp
  note f = utc_fields_make_day [OF c this] clock_fields [OF v t]
  show ?thesis by (simp add: db_to_local_date_time_def db_to_local_date_def f at_time_def)
qed

lemma storable_midnight: "storable_date d \<Longrightarrow> storable_local (at_time d 0 0 0)"
  by (auto simp: storable_date_def storable_local_def intro!: valid_local_at_time)

lemma date_of_at_time [simp]: "date_of (at_time d h mi s) = d"
  by (simp add: date_of_def at_time_def)

lemma db_date_roundtrip:
  assumes "storable_date d"
  shows "db_to_local_date (local_date_to_db d) = d"
proof -
  have e: "local_date_time_to_db (at_time d 0 0 0) = local_date_to_db d"
    by (simp add: local_date_time_to_db_def local_date_to_db_def)
  have "date_of (db_to_local_date_time (local_date_time_to_db (at_time d 0 0 0))) = d"
    by (simp add: db_local_roundtrip [OF storable_midnight [OF assms]])
  then show ?thesis by (simp add: e db_to_local_date_time_def)
qed

lemma db_time_roundtrip:
  assumes "good_time t"
  shows "utc_hours (local_time_to_db t) = lt_hour t" "utc_minutes (local_time_to_db t) = lt_minute t"
proof -
  let ?l = "at_time (ymd 1970 1 1) (lt_hour t) (lt_minute t) 0"
  have vd: "valid_date (ymd 1970 1 1)" by code_simp
  have "storable_local ?l"
    using assms vd by (auto simp: storable_local_def good_time_def intro!: valid_local_at_time)
  from db_local_roundtrip [OF this]
  have "hour (db_to_local_date_time (local_date_time_to_db ?l)) = lt_hour t"
    "minute (db_to_local_date_time (local_date_time_to_db ?l)) = lt_minute t"
    by (simp_all add: at_time_def)
  moreover have "local_date_time_to_db ?l = local_time_to_db t"
    by (simp add: local_date_time_to_db_def local_time_to_db_def at_time_def ymd_def)
  ultimately show "utc_hours (local_time_to_db t) = lt_hour t"
    "utc_minutes (local_time_to_db t) = lt_minute t"
    by (simp_all add: db_to_local_date_time_def at_time_def)
qed

text \<open>The row of a task: its columns and its identity.\<close>

definition row_of :: "intl \<Rightarrow> task \<Rightarrow> task_row \<Rightarrow> bool" where
  "row_of I t r \<longleftrightarrow>
     columns I t r = r \<and> tr_id r = t_id t \<and> tr_family r = t_family t
     \<and> tr_predecessor r = t_predecessor t \<and> tr_created_by r = t_created_by t
     \<and> tr_created_at r = t_created_at t"

lemma columns_sel [simp]:
  "tr_id (columns I t r) = tr_id r" "tr_family (columns I t r) = tr_family r"
  "tr_title (columns I t r) = t_title t" "tr_notes (columns I t r) = t_notes t"
  "tr_priority (columns I t r) = t_priority t" "tr_category (columns I t r) = t_category t"
  "tr_status (columns I t r) = status_of_state (t_state t)"
  "tr_due_kind (columns I t r) = kind_of_due (t_due t)"
  "tr_due_date (columns I t r) = map_option (\<lambda>x. local_date_to_db (due_date x)) (t_due t)"
  "tr_due_time (columns I t r) = (case t_due t of Some (DueDateTime _ w _) \<Rightarrow> Some (local_time_to_db w) | _ \<Rightarrow> None)"
  "tr_zone (columns I t r) = map_option due_zone (t_due t)" "tr_due_at (columns I t r) = due_at I t"
  "tr_rule (columns I t r) = map_option rule_to_string (t_rule t)"
  "tr_anchor (columns I t r) = map_option local_date_time_to_db (t_anchor t)"
  "tr_series (columns I t r) = t_series t" "tr_predecessor (columns I t r) = tr_predecessor r"
  "tr_head (columns I t r) = t_head t"
  "tr_completed_at (columns I t r) = (case t_state t of Completed a _ \<Rightarrow> Some a | _ \<Rightarrow> None)"
  "tr_completed_by (columns I t r) = (case t_state t of Completed _ b \<Rightarrow> b | _ \<Rightarrow> None)"
  "tr_cancelled_at (columns I t r) = (case t_state t of Cancelled a _ \<Rightarrow> Some a | _ \<Rightarrow> None)"
  "tr_cancelled_by (columns I t r) = (case t_state t of Cancelled _ b \<Rightarrow> b | _ \<Rightarrow> None)"
  "tr_closed_at (columns I t r) =
     (case t_state t of Open \<Rightarrow> None | Completed a _ \<Rightarrow> Some a | Cancelled a _ \<Rightarrow> Some a)"
  "tr_overdue (columns I t r) = t_overdue_reported t"
  "tr_created_by (columns I t r) = tr_created_by r" "tr_version (columns I t r) = t_version t"
  "tr_created_at (columns I t r) = tr_created_at r" "tr_updated_at (columns I t r) = t_updated_at t"
  by (simp_all add: columns_def due_columns_def split: prod.splits)

lemma columns_idem [simp]: "columns I t (columns I u r) = columns I t r"
  by (cases r) (simp add: columns_def due_columns_def)

lemma new_row_sel [simp]:
  "tr_id (new_row I fam t) = t_id t" "tr_family (new_row I fam t) = fam"
  "tr_predecessor (new_row I fam t) = t_predecessor t" "tr_head (new_row I fam t) = t_head t"
  "tr_series (new_row I fam t) = t_series t" "tr_created_by (new_row I fam t) = t_created_by t"
  "tr_created_at (new_row I fam t) = t_created_at t"
  by (simp_all add: new_row_def)

lemma row_of_new: "row_of I t (new_row I (t_family t) t)"
  by (simp add: row_of_def) (simp add: new_row_def)

lemma row_of_columns:
  "row_of I t r \<Longrightarrow> same_identity t' t \<Longrightarrow> row_of I t' (columns I t' r)"
  by (simp add: row_of_def same_identity_def)

lemma row_of_sel:
  assumes "row_of I t r"
  shows "tr_id r = t_id t" "tr_family r = t_family t" "tr_predecessor r = t_predecessor t"
    "tr_head r = t_head t" "tr_series r = t_series t" "tr_version r = t_version t"
    "tr_due_at r = due_at I t" "tr_status r = status_of_state (t_state t)"
    "tr_overdue r = t_overdue_reported t"
    "tr_closed_at r = (case t_state t of Open \<Rightarrow> None | Completed a _ \<Rightarrow> Some a | Cancelled a _ \<Rightarrow> Some a)"
proof -
  have c: "columns I t r = r" using assms by (simp add: row_of_def)
  show "tr_id r = t_id t" "tr_family r = t_family t" "tr_predecessor r = t_predecessor t"
    using assms by (simp_all add: row_of_def)
  show "tr_head r = t_head t" "tr_series r = t_series t" "tr_version r = t_version t"
    "tr_due_at r = due_at I t" "tr_status r = status_of_state (t_state t)"
    "tr_overdue r = t_overdue_reported t"
    "tr_closed_at r = (case t_state t of Open \<Rightarrow> None | Completed a _ \<Rightarrow> Some a | Cancelled a _ \<Rightarrow> Some a)"
    by (subst c [symmetric], simp)+
qed

lemma to_due_columns:
  assumes "pred_option storable_due (t_due t)"
  shows "to_due (columns I t r) = Inr (t_due t)"
proof (cases "t_due t")
  case (Some d)
  then show ?thesis using assms db_date_roundtrip db_time_roundtrip
    by (cases d) (auto simp: to_due_def kind_of_due_def storable_due_def due_date_def due_zone_def)
qed (simp add: to_due_def kind_of_due_def)

lemma to_state_columns: "to_state (columns I t r) = Inr (t_state t)"
  by (cases "t_state t") (simp_all add: to_state_def status_of_state_def)

lemma to_rule_columns: "pred_option valid_rule (t_rule t) \<Longrightarrow> to_rule (columns I t r) = Inr (t_rule t)"
  by (cases "t_rule t") (simp_all add: to_rule_def rule_text_parse)

lemma task_inv_rule: "task_inv t \<Longrightarrow> pred_option valid_rule (t_rule t)"
  by (cases "t_rule t") (simp_all add: task_inv_def)

lemma load_columns:
  assumes "task_inv t" "storable t" "tr_id r = t_id t" "tr_family r = t_family t"
    "tr_predecessor r = t_predecessor t" "tr_created_by r = t_created_by t"
    "tr_created_at r = t_created_at t"
  shows "to_aggregate (columns I t r) ms = Inr (t\<lparr>t_assignees := ms\<rparr>)"
proof -
  have a: "map_option db_to_local_date_time (map_option local_date_time_to_db (t_anchor t)) = t_anchor t"
    using assms(2) by (cases "t_anchor t") (simp_all add: storable_def db_local_roundtrip)
  note p = to_rule_columns [OF task_inv_rule [OF assms(1)]] to_state_columns
    to_due_columns [of t I r]
  show ?thesis
    using assms(2-) p(3) a unfolding to_aggregate_def p(1,2) by (cases t) (simp add: storable_def)
qed

lemma load_row_of:
  "row_of I t r \<Longrightarrow> task_inv t \<Longrightarrow> storable t \<Longrightarrow> to_aggregate r ms = Inr (t\<lparr>t_assignees := ms\<rparr>)"
  using load_columns [of t r I ms] by (auto simp: row_of_def)

section \<open>The CHECK constraints\<close>

lemma good_title_char: "good_title s \<Longrightarrow> list_ex (\<lambda>c. c \<noteq> CHR '' '') s"
proof -
  assume g: "good_title s"
  then have "s \<noteq> []" "trim s = s" by (simp_all add: good_title_def)
  then have "\<not> is_space (hd s)" using trim_ends [of s] by auto
  then have "hd s \<noteq> CHR '' ''" by (auto simp: is_space_def)
  with \<open>s \<noteq> []\<close> show ?thesis by (cases s) auto
qed

lemma columns_shape: "task_inv t \<Longrightarrow> row_shape (columns I t r)"
proof -
  assume i: "task_inv t"
  have "due_shape (columns I t r)"
    by (cases "t_due t"; cases "the (t_due t)") (auto simp: due_shape_def kind_of_due_def due_at_def)
  moreover have "recurrence_shape (columns I t r)"
    using i by (cases "t_rule t"; cases "the (t_due t)")
      (auto simp: recurrence_shape_def task_inv_def kind_of_due_def)
  moreover have "status_shape (columns I t r)"
    by (cases "t_state t") (simp_all add: status_shape_def status_of_state_def)
  moreover have "t_head t \<longrightarrow> t_series t \<noteq> None" "1 \<le> t_version t"
    using i by (auto simp: task_inv_def split: option.splits)
  moreover have "list_ex (\<lambda>c. c \<noteq> CHR '' '') (t_title t)"
    using i by (intro good_title_char) (simp add: task_inv_def)
  ultimately show ?thesis by (simp add: row_shape_def)
qed

text \<open>
  What the repository writes, it reads back: the row inserted for a well-formed task, and
  the row an existing one becomes when the task is saved over it, satisfy every CHECK of the
  table and load as that very task, for every lifecycle state, due date and rule; dates from
  the year 100 on.
\<close>

theorem task_row_roundtrip:
  assumes "task_inv t" "storable t"
  shows "row_shape (new_row I (t_family t) t)
    \<and> to_aggregate (new_row I (t_family t) t) (t_assignees t) = Inr t
    \<and> (row_of I u r \<and> same_identity t u \<longrightarrow>
        row_shape (columns I t r) \<and> to_aggregate (columns I t r) (t_assignees t) = Inr t)"
proof (intro conjI impI)
  show "row_shape (new_row I (t_family t) t)" by (simp add: new_row_def columns_shape assms(1))
  show "to_aggregate (new_row I (t_family t) t) (t_assignees t) = Inr t"
    using load_row_of [OF row_of_new assms] by simp
  assume "row_of I u r \<and> same_identity t u"
  then have "row_of I t (columns I t r)" by (intro row_of_columns [of I u]) auto
  from load_row_of [OF this assms] columns_shape [OF assms(1)]
  show "row_shape (columns I t r)" "to_aggregate (columns I t r) (t_assignees t) = Inr t"
    by simp_all
qed

section \<open>The successor is storable\<close>

lemma scan_dates_from:
  assumes "set ds \<subseteq> {d. valid_date d}"
    and "\<forall>x \<in> set occs. P x"
    and "\<And>d. valid_date d \<Longrightarrow> 0 \<le> compare_local_date_times (with_time d (in_dtstart E)) (in_dtstart E) \<Longrightarrow>
      P \<lparr>ex_local = with_time d (in_dtstart E),
         ex_instant = local_to_instant I (with_time d (in_dtstart E)) (in_zone E)\<rparr>"
  shows "case scan_dates I E ds occs n of
      Inl (Inr x) \<Rightarrow> \<forall>y \<in> set (occurrences x). P y
    | Inl (Inl _) \<Rightarrow> True
    | Inr (occs', _) \<Rightarrow> \<forall>y \<in> set occs'. P y"
  using assms(1,2)
proof (induction ds arbitrary: occs n)
  case (Cons d ds)
  have IH: "case scan_dates I E ds os k of
      Inl (Inr x) \<Rightarrow> \<forall>y \<in> set (occurrences x). P y
    | Inl (Inl _) \<Rightarrow> True
    | Inr (occs', _) \<Rightarrow> \<forall>y \<in> set occs'. P y" if "\<forall>x \<in> set os. P x" for os k
    using Cons.IH [of os k] Cons.prems(1) that by simp
  let ?x = "\<lparr>ex_local = with_time d (in_dtstart E),
      ex_instant = local_to_instant I (with_time d (in_dtstart E)) (in_zone E)\<rparr>"
  have "P ?x" if "\<not> compare_local_date_times (with_time d (in_dtstart E)) (in_dtstart E) < 0"
    using assms(3) [of d] Cons.prems(1) that by simp
  with IH [OF Cons.prems(2)] IH [of "occs @ [?x]"] Cons.prems(2) show ?case
    by (simp add: Let_def)
qed simp

lemma scan_periods_from:
  assumes "good_start (date_of (in_dtstart E))" "valid_rule (in_rule E)"
    and P: "\<And>d. valid_date d \<Longrightarrow> 0 \<le> compare_local_date_times (with_time d (in_dtstart E)) (in_dtstart E) \<Longrightarrow>
      P \<lparr>ex_local = with_time d (in_dtstart E),
         ex_instant = local_to_instant I (with_time d (in_dtstart E)) (in_zone E)\<rparr>"
  shows "0 \<le> k \<Longrightarrow> \<forall>x \<in> set occs. P x \<Longrightarrow> scan_periods I E w k stop occs n = Inr x \<Longrightarrow>
    \<forall>y \<in> set (occurrences x). P y"
proof (induction "nat (stop - k)" arbitrary: k occs n)
  case 0
  then show ?case by (subst (asm) scan_periods.simps) auto
next
  case (Suc m)
  let ?s = "date_of (in_dtstart E)"
  let ?c = "candidates_for_period (in_rule E) ?s k"
  have v: "set ?c \<subseteq> {d. valid_date d}"
    using candidates_props(1) period_dates_between [OF assms(1,2) Suc.prems(1)]
    by (fastforce simp: between_def)
  note sd = scan_dates_from [where I = I and E = E and P = P and n = n, OF v Suc.prems(2) P]
  from Suc.hyps(2) have m: "m = nat (stop - (k + 1))" "\<not> stop \<le> k" by auto
  show ?case
  proof (cases "scan_dates I E ?c occs n")
    case (Inl r)
    then show ?thesis using Suc.prems(2,3) sd m(2)
      by (subst (asm) scan_periods.simps) (auto split: if_splits sum.splits)
  next
    case (Inr p)
    then obtain occs' n' where p: "scan_dates I E ?c occs n = Inr (occs', n')" by (cases p) auto
    with sd have "\<forall>y \<in> set occs'. P y" by simp
    with Suc.hyps(1) [OF m(1), of occs' n'] p Suc.prems m(2) show ?thesis
      by (subst (asm) (2) scan_periods.simps) (auto split: if_splits)
  qed
qed

definition reading_of :: "local_date_time \<Rightarrow> expanded \<Rightarrow> bool" where
  "reading_of s x \<longleftrightarrow>
     (\<exists>d. valid_date d \<and> ex_local x = with_time d s \<and> 0 \<le> compare_local_date_times (with_time d s) s)"

lemma expand_reading:
  assumes "good_start (date_of (in_dtstart E))" "valid_rule (in_rule E)" "expand I E = Inr x"
    "y \<in> set (occurrences x)"
  shows "reading_of (in_dtstart E) y"
proof -
  have k: "0 \<le> first_period I E" by (simp add: first_period_def Let_def)
  have "\<forall>y \<in> set (occurrences x). reading_of (in_dtstart E) y"
    using assms(3) unfolding expand_def
    by (intro scan_periods_from [OF assms(1,2) _ k]) (auto simp: reading_of_def)
  with assms(4) show ?thesis by simp
qed

lemma search_reading:
  assumes "good_start (date_of s)" "valid_rule rule"
  shows "search I rule s tz n a span = Inr (Some x) \<Longrightarrow> reading_of s x"
proof (induction n arbitrary: a span)
  case (Suc n)
  let ?E = "window_input rule s tz a (a + span * ms_per_day)"
  have e: "reading_of s y" if "expand I ?E = Inr z" "y \<in> set (occurrences z)" for y z
    using expand_reading [of ?E I z y] assms that by (simp add: window_input_def)
  show ?case
  proof (cases "expand I ?E")
    case (Inr z)
    then show ?thesis using Suc e [OF Inr]
      by (cases "occurrences z") (auto simp: Let_def split: if_splits)
  qed (use Suc.prems in \<open>simp add: Let_def\<close>)
qed simp

lemma epoch_year_mono:
  assumes "valid_date a" "valid_date b" "to_epoch_day a \<le> to_epoch_day b"
  shows "year a \<le> year b"
  using compare_local_dates_less [OF assms(2,1)] assms(3)
  by (auto simp: compare_local_dates_def date_less_def)

lemma reading_storable:
  assumes "reading_of s x" "storable_local s"
  shows "storable_date (date_of (ex_local x))" "hour (ex_local x) = hour s"
    "minute (ex_local x) = minute s"
proof -
  obtain d where d: "valid_date d" "ex_local x = with_time d s"
    "0 \<le> compare_local_date_times (with_time d s) s"
    using assms(1) by (auto simp: reading_of_def)
  have s: "valid_local s" "valid_date (date_of s)" using assms(2)
    by (auto simp: storable_local_def valid_local_def)
  have w: "with_time (date_of s) s = s" by (simp add: with_time_def at_time_def)
  have "to_epoch_day (date_of s) \<le> to_epoch_day d"
    using d(3) with_time_props(3) [OF d(1) s(1)] with_time_props(3) [OF s(2,1)]
    by (simp add: compare_local_date_times_def w)
  from epoch_year_mono [OF s(2) d(1) this] assms(2) d(1,2)
  show "storable_date (date_of (ex_local x))"
    by (simp add: storable_date_def storable_local_def with_time_def)
  show "hour (ex_local x) = hour s" "minute (ex_local x) = minute s"
    using d(2) by (simp_all add: with_time_def at_time_def)
qed

lemma successor_storable:
  assumes "task_inv h" "storable h" "successor_due_of I h now = Inr (Some d)"
  shows "storable_due d" "t_head h" "t_rule h \<noteq> None"
proof -
  obtain rule anchor due x where h: "t_rule h = Some rule" "t_anchor h = Some anchor" "t_due h = Some due"
    "t_head h" "next_occurrence_after I rule anchor (due_zone due) (max (due_moment_of I due) now) = Inr (Some x)"
    "d = (let l = ex_local x in case due of DueDate _ tz \<Rightarrow> DueDate (date_of l) tz
      | DueDateTime _ _ tz \<Rightarrow> DueDateTime (date_of l) \<lparr>lt_hour = hour l, lt_minute = minute l\<rparr> tz)"
    using assms(3)
    by (auto simp: successor_due_of_def due_at_def map_result_def Let_def split: option.splits if_splits sum.splits)
  have a: "storable_local anchor" "valid_rule rule"
    using assms(1,2) h(1,2) by (auto simp: storable_def task_inv_def)
  then have g: "good_start (date_of anchor)"
    by (auto simp: storable_local_def good_start_def valid_local_def)
  from h(5) have "reading_of anchor x"
    unfolding next_occurrence_after_def by (rule search_reading [OF g a(2)])
  note r = reading_storable [OF this a(1)]
  show "storable_due d"
    using r a(1) unfolding h(6)
    by (cases due) (auto simp: storable_due_def due_date_def good_time_def storable_local_def
        valid_local_def Let_def)
  show "t_head h" "t_rule h \<noteq> None" using h by simp_all
qed

section \<open>The invariant of the tables\<close>

definition rows_ok :: "intl \<Rightarrow> task_store \<Rightarrow> bool" where
  "rows_ok I s \<longleftrightarrow> (\<forall>r \<in> set (task_rows s). \<exists>t. row_of I t r \<and> task_inv t \<and> storable t)"

definition keys_ok :: "task_store \<Rightarrow> bool" where
  "keys_ok s \<longleftrightarrow>
     distinct (map tr_id (task_rows s))
     \<and> (\<forall>r \<in> set (task_rows s). \<forall>x \<in> set (task_rows s). r \<noteq> x \<longrightarrow> \<not> row_clash r x)
     \<and> (\<forall>r \<in> set (task_rows s). tr_family r \<in> set (db_families s))"

text \<open>A task that has a successor is in a series and no longer its head.\<close>

definition past_head :: "task_store \<Rightarrow> family_id \<Rightarrow> task_id \<Rightarrow> bool" where
  "past_head s fam p \<longleftrightarrow>
     (\<exists>q \<in> set (task_rows s). tr_id q = p \<and> tr_family q = fam \<and> \<not> tr_head q \<and> tr_series q \<noteq> None)"

definition chain_ok :: "task_store \<Rightarrow> bool" where
  "chain_ok s \<longleftrightarrow>
     (\<forall>r \<in> set (task_rows s). pred_option (past_head s (tr_family r)) (tr_predecessor r))"

definition links_ok :: "task_store \<Rightarrow> bool" where
  "links_ok s \<longleftrightarrow>
     distinct (map assignment_key (assignment_rows s))
     \<and> (\<forall>a \<in> set (assignment_rows s). assignment_refs s a)"

definition task_db :: "intl \<Rightarrow> task_store \<Rightarrow> bool" where
  "task_db I s \<longleftrightarrow> rows_ok I s \<and> keys_ok s \<and> chain_ok s \<and> links_ok s"

lemmas task_db_parts = task_db_def rows_ok_def keys_ok_def chain_ok_def links_ok_def

lemma task_db_logs [simp]:
  "task_db I (s\<lparr>db_outbox := x\<rparr>) = task_db I s" "task_db I (s\<lparr>db_audit := y\<rparr>) = task_db I s"
  by (simp_all add: task_db_parts past_head_def [abs_def] assignment_refs_def [abs_def])

lemma scoped_row_iff:
  "keys_ok s \<Longrightarrow> scoped_row fam i s = Some r \<longleftrightarrow> r \<in> set (task_rows s) \<and> tr_id r = i \<and> tr_family r = fam"
  unfolding scoped_row_def keys_ok_def
  by (subst tbl_find_iff) (auto simp: distinct_map_filter)

lemma scoped_row_None:
  "scoped_row fam i s = None \<longleftrightarrow> (\<forall>r \<in> set (task_rows s). tr_family r = fam \<longrightarrow> tr_id r \<noteq> i)"
  by (auto simp: scoped_row_def tbl_find_None)

lemma same_id_same_row:
  "keys_ok s \<Longrightarrow> r \<in> set (task_rows s) \<Longrightarrow> x \<in> set (task_rows s) \<Longrightarrow> tr_id r = tr_id x \<Longrightarrow> r = x"
  by (auto simp: keys_ok_def row_clash_def)

lemma links_ok_rows:
  assumes "links_ok s" "(\<lambda>r. (tr_id r, tr_family r)) ` set (task_rows s) \<subseteq> (\<lambda>r. (tr_id r, tr_family r)) ` set rows"
  shows "links_ok (s\<lparr>task_rows := rows\<rparr>)"
  using assms by (auto simp: links_ok_def assignment_refs_def)

text \<open>A task as the database holds it: its row, and with its assignees.\<close>

definition row_stored :: "intl \<Rightarrow> task_store \<Rightarrow> task \<Rightarrow> bool" where
  "row_stored I s t \<longleftrightarrow> (\<exists>r. scoped_row (t_family t) (t_id t) s = Some r \<and> row_of I t r)"

definition stored :: "intl \<Rightarrow> task_store \<Rightarrow> task \<Rightarrow> bool" where
  "stored I s t \<longleftrightarrow>
     row_stored I s t \<and> task_inv t \<and> storable t
     \<and> t_assignees t = assignees_of (t_family t) (t_id t) s"

lemma set_assignees_of:
  "set (assignees_of fam i s) = {m. \<exists>a \<in> set (assignment_rows s). as_task a = i \<and> as_family a = fam \<and> as_member a = m}"
  by (auto simp: assignees_of_def)

lemma distinct_assignees_of:
  assumes "links_ok s"
  shows "distinct (assignees_of fam i s)"
proof -
  let ?rows = "filter (\<lambda>a. as_task a = i \<and> as_family a = fam) (assignment_rows s)"
  have "distinct (map assignment_key ?rows)"
    using assms by (simp add: links_ok_def distinct_map_filter)
  then have "distinct ?rows" "inj_on as_member (set ?rows)"
    by (auto simp: distinct_map inj_on_def assignment_key_def)
  then show ?thesis by (simp add: assignees_of_def distinct_map)
qed

lemma row_of_assignees [simp]: "row_of I (t\<lparr>t_assignees := ms\<rparr>) r = row_of I t r"
  by (simp add: row_of_def columns_def due_at_def)

lemma storable_assignees [simp]: "storable (t\<lparr>t_assignees := ms\<rparr>) = storable t"
  by (simp add: storable_def)

lemma lock_cases:
  assumes db: "task_db I s"
  obtains (none) "scoped_row fam i s = None" "lock_by_id fam i s = (Inr None, s)"
      "find_by_id fam i s = (Inr None, s)"
  | (some) t where "stored I s t" "t_id t = i" "t_family t = fam"
      "lock_by_id fam i s = (Inr (Some t), s)" "find_by_id fam i s = (Inr (Some t), s)"
proof (cases "scoped_row fam i s")
  case None
  then show thesis using none by (simp add: lock_by_id_def tx_bind_def find_by_id_def)
next
  case (Some r)
  have k: "keys_ok s" and l: "links_ok s" using db by (simp_all add: task_db_def)
  have r: "r \<in> set (task_rows s)" "tr_id r = i" "tr_family r = fam"
    using Some by (simp_all add: scoped_row_iff [OF k])
  with db obtain u where u: "row_of I u r" "task_inv u" "storable u"
    by (auto simp: task_db_def rows_ok_def)
  define t where "t = u\<lparr>t_assignees := assignees_of fam i s\<rparr>"
  have "task_inv t" using u(2) distinct_assignees_of [OF l]
    by (simp add: t_def task_inv_def split: option.splits)
  moreover have "t_id t = i" "t_family t = fam" using row_of_sel [OF u(1)] r by (simp_all add: t_def)
  ultimately have "stored I s t" "t_id t = i" "t_family t = fam"
    using Some u by (auto simp: stored_def row_stored_def t_def)
  moreover have "load_row fam s r = Inr t"
    using load_row_of [OF u] r by (simp add: load_row_def t_def)
  ultimately show thesis using some [of t] Some
    by (simp add: lock_by_id_def tx_bind_def find_by_id_def)
qed

lemma stored_row:
  assumes "task_db I s" "row_stored I s t"
  obtains r where "r \<in> set (task_rows s)" "row_of I t r" "scoped_row (t_family t) (t_id t) s = Some r"
  using assms by (auto simp: row_stored_def task_db_def scoped_row_iff)

section \<open>Saving\<close>

definition fresh_series :: "series_id option \<Rightarrow> task_store \<Rightarrow> bool" where
  "fresh_series x s \<longleftrightarrow> (\<forall>r \<in> set (task_rows s). tr_series r \<noteq> x)"

text \<open>What an edit of a stored task must respect for the series to stay sound.\<close>

definition series_kept :: "task_store \<Rightarrow> task \<Rightarrow> task \<Rightarrow> bool" where
  "series_kept s t t' \<longleftrightarrow>
     (t_head t' \<longrightarrow> t_head t \<and> t_series t' = t_series t \<or> fresh_series (t_series t') s)
     \<and> (t_series t \<noteq> None \<longrightarrow> t_series t' \<noteq> None \<and> (t_head t' \<longrightarrow> t_head t))"

definition saved :: "intl \<Rightarrow> task \<Rightarrow> task_store \<Rightarrow> task_store" where
  "saved I t s = s\<lparr>task_rows :=
     tbl_update (\<lambda>x. tr_id x = t_id t \<and> tr_family x = t_family t) (columns I t) (task_rows s)\<rparr>"

lemma saved_sel [simp]:
  "assignment_rows (saved I t s) = assignment_rows s" "db_families (saved I t s) = db_families s"
  "db_members (saved I t s) = db_members s" "db_outbox (saved I t s) = db_outbox s"
  "db_audit (saved I t s) = db_audit s" "db_now (saved I t s) = db_now s"
  by (simp_all add: saved_def)

lemma saved_task_rows:
  "task_rows (saved I t s) =
     tbl_update (\<lambda>x. tr_id x = t_id t \<and> tr_family x = t_family t) (columns I t) (task_rows s)"
  by (simp add: saved_def)

lemma saved_rows:
  assumes "keys_ok s" "r \<in> set (task_rows s)" "tr_id r = t_id t" "tr_family r = t_family t"
  shows "set (task_rows (saved I t s)) = insert (columns I t r) (set (task_rows s) - {r})"
proof -
  have u: "(tr_id x = t_id t \<and> tr_family x = t_family t) = (x = r)" if "x \<in> set (task_rows s)" for x
    using same_id_same_row [OF assms(1) that assms(2)] assms(3,4) by auto
  have "set (task_rows (saved I t s)) = (\<lambda>x. if x = r then columns I t r else x) ` set (task_rows s)"
    unfolding saved_task_rows set_tbl_update by (rule image_cong [OF refl]) (simp add: u)
  then show ?thesis using assms(2) by auto
qed

lemma saved_is_update:
  assumes "keys_ok s" "r \<in> set (task_rows s)" "tr_id r = t_id t" "tr_family r = t_family t"
  shows "s\<lparr>task_rows := tbl_update (\<lambda>x. tr_id x = t_id t \<and> tr_family x = t_family t)
      (\<lambda>_. columns I t r) (task_rows s)\<rparr> = saved I t s"
proof -
  have "x = r" if "x \<in> set (task_rows s)" "tr_id x = t_id t" for x
    using same_id_same_row [OF assms(1) that(1) assms(2)] assms(3) that(2) by auto
  then show ?thesis by (simp add: saved_def tbl_update_def)
qed

lemma save_ok:
  assumes db: "task_db I s" and st: "row_stored I s t" and id: "same_identity t' t"
    and good: "task_inv t'" "storable t'" and sk: "series_kept s t t'"
  shows "save_task I (t_family t) t' s = (Inr (), saved I t' s)" "task_db I (saved I t' s)"
    "row_stored I (saved I t' s) t'"
proof -
  have k: "keys_ok s" using db by (simp add: task_db_def)
  obtain r where r: "r \<in> set (task_rows s)" "row_of I t r" "scoped_row (t_family t) (t_id t) s = Some r"
    using db st by (rule stored_row)
  note sel = row_of_sel [OF r(2)]
  have i: "tr_id r = t_id t'" "tr_family r = t_family t'" "tr_predecessor r = t_predecessor t'"
    using id sel by (simp_all add: same_identity_def)
  let ?r = "columns I t' r"
  have ro: "row_of I t' ?r" by (rule row_of_columns [OF r(2) id])
  have other: "tr_id x \<noteq> tr_id r" if "x \<in> set (task_rows s)" "x \<noteq> r" for x
    using same_id_same_row [OF k r(1) that(1)] that(2) by auto
  have free: "\<not> row_clash ?r x" "\<not> row_clash x ?r" if x: "x \<in> set (task_rows s)" "x \<noteq> r" for x
  proof -
    have c: "\<not> row_clash r x" "\<not> row_clash x r" using k r(1) x by (auto simp: keys_ok_def)
    have h: "\<not> (tr_head x \<and> tr_series x = t_series t' \<and> t_series t' \<noteq> None)" if "t_head t'"
      using sk that c(1) sel x(1) by (auto simp: series_kept_def row_clash_def fresh_series_def)
    show "\<not> row_clash ?r x" "\<not> row_clash x ?r"
      using c other [OF x] h i by (auto simp: row_clash_def)
  qed
  have "\<not> list_ex (\<lambda>x. tr_id x \<noteq> t_id t' \<and> row_clash ?r x) (task_rows s)"
    using free(1) i(1) by (auto simp: list_ex_iff)
  then show "save_task I (t_family t) t' s = (Inr (), saved I t' s)"
    using r(3) id columns_shape [OF good(1), of I r] saved_is_update [OF k r(1) i(1,2), of I]
    by (simp add: save_task_def update_row_def same_identity_def)
  note rows = saved_rows [OF k r(1) i(1,2), of I]
  have ids: "(\<lambda>r. (tr_id r, tr_family r)) ` set (task_rows s) \<subseteq> (\<lambda>r. (tr_id r, tr_family r)) ` set (task_rows (saved I t' s))"
    unfolding rows using i by force
  have "rows_ok I (saved I t' s)"
    using db ro good unfolding rows_ok_def rows by (auto simp: task_db_def rows_ok_def)
  moreover have ks: "keys_ok (saved I t' s)"
  proof -
    have "map tr_id (task_rows (saved I t' s)) = map tr_id (task_rows s)"
      by (simp add: saved_def map_key_update)
    then show ?thesis using k free r(1) i unfolding keys_ok_def rows by auto
  qed
  moreover have "chain_ok (saved I t' s)"
  proof -
    have ph: "past_head (saved I t' s) fam p" if "past_head s fam p" for fam p
    proof -
      from that obtain q where q: "q \<in> set (task_rows s)" "tr_id q = p" "tr_family q = fam"
        "\<not> tr_head q" "tr_series q \<noteq> None" by (auto simp: past_head_def)
      show ?thesis
      proof (cases "q = r")
        case True
        with q sk sel have "\<not> t_head t'" "t_series t' \<noteq> None" by (auto simp: series_kept_def)
        then show ?thesis using q True unfolding past_head_def rows by auto
      next
        case False
        then show ?thesis using q unfolding past_head_def rows by auto
      qed
    qed
    have "pred_option (past_head (saved I t' s) (tr_family y)) (tr_predecessor y)"
      if "y \<in> set (task_rows s)" for y
      using db that ph by (auto simp: task_db_def chain_ok_def pred_option_def)
    then show ?thesis using r(1) unfolding chain_ok_def rows by auto
  qed
  moreover have "links_ok (saved I t' s)"
    using links_ok_rows [OF _ ids] db by (simp add: task_db_def saved_def)
  ultimately show "task_db I (saved I t' s)" by (simp add: task_db_def)
  show "row_stored I (saved I t' s) t'"
    using ro i unfolding row_stored_def scoped_row_iff [OF ks] rows by auto
qed

section \<open>Inserting\<close>

definition fresh_task :: "task_store \<Rightarrow> task_id \<Rightarrow> bool" where
  "fresh_task s i \<longleftrightarrow> (\<forall>r \<in> set (task_rows s). tr_id r \<noteq> i)"

definition inserted :: "intl \<Rightarrow> task \<Rightarrow> task_store \<Rightarrow> task_store" where
  "inserted I t s = s\<lparr>task_rows := task_rows s @ [new_row I (t_family t) t]\<rparr>"

lemma inserted_sel [simp]:
  "task_rows (inserted I t s) = task_rows s @ [new_row I (t_family t) t]"
  "assignment_rows (inserted I t s) = assignment_rows s" "db_families (inserted I t s) = db_families s"
  "db_members (inserted I t s) = db_members s" "db_outbox (inserted I t s) = db_outbox s"
  "db_audit (inserted I t s) = db_audit s" "db_now (inserted I t s) = db_now s"
  by (simp_all add: inserted_def)

definition insertable :: "task_store \<Rightarrow> task \<Rightarrow> bool" where
  "insertable s t \<longleftrightarrow>
     fresh_task s (t_id t) \<and> t_family t \<in> set (db_families s)
     \<and> (\<forall>p. t_predecessor t = Some p \<longrightarrow>
          past_head s (t_family t) p \<and> (\<forall>r \<in> set (task_rows s). tr_predecessor r \<noteq> Some p))
     \<and> (t_head t \<longrightarrow> (\<forall>r \<in> set (task_rows s). tr_head r \<longrightarrow> tr_series r \<noteq> t_series t))"

lemma insert_ok:
  assumes db: "task_db I s" and good: "task_inv t" "storable t" and ins: "insertable s t"
  shows "insert_task I (t_family t) t s = (Inr (), inserted I t s)" "task_db I (inserted I t s)"
    "row_stored I (inserted I t s) t"
proof -
  let ?r = "new_row I (t_family t) t"
  have k: "keys_ok s" using db by (simp add: task_db_def)
  have new: "tr_id x \<noteq> t_id t" if "x \<in> set (task_rows s)" for x
    using ins that by (auto simp: insertable_def fresh_task_def)
  have free: "\<not> row_clash ?r x" "\<not> row_clash x ?r" if "x \<in> set (task_rows s)" for x
    using new [OF that] that ins by (auto simp: row_clash_def insertable_def)
  have ref: "(case t_predecessor t of None \<Rightarrow> False
      | Some p \<Rightarrow> p \<noteq> t_id t \<and> p \<notin> tr_id ` set (task_rows s)) = False"
    using ins by (auto simp: insertable_def past_head_def split: option.splits)
  have shape: "row_shape ?r" using columns_shape [OF good(1)] by (simp add: new_row_def)
  have "\<not> list_ex (row_clash ?r) (task_rows s)" using free(1) by (auto simp: list_ex_iff)
  then show "insert_task I (t_family t) t s = (Inr (), inserted I t s)"
    using ref ins shape
    by (simp only: insert_task_def insert_row_def inserted_def insertable_def new_row_sel)
      simp
  have "rows_ok I (inserted I t s)"
    using db row_of_new good by (auto simp: task_db_def rows_ok_def)
  moreover have ks: "keys_ok (inserted I t s)"
    using k free new ins
    by (auto simp: keys_ok_def insertable_def dest: new)
  moreover have "chain_ok (inserted I t s)"
  proof -
    have "past_head (inserted I t s) fam p" if "past_head s fam p" for fam p
      using that by (auto simp: past_head_def)
    then show ?thesis using db ins
      by (auto simp: task_db_def chain_ok_def pred_option_def insertable_def)
  qed
  moreover have "links_ok (inserted I t s)"
    unfolding inserted_def using db by (intro links_ok_rows) (auto simp: task_db_def)
  ultimately show "task_db I (inserted I t s)" by (simp add: task_db_def)
  show "row_stored I (inserted I t s) t"
    unfolding row_stored_def scoped_row_iff [OF ks] using row_of_new [of I t] by auto
qed

lemma row_stored_fam: "row_stored I s t \<Longrightarrow> task_db I s \<Longrightarrow> t_family t \<in> set (db_families s)"
  by (elim stored_row [rotated]) (metis task_db_def keys_ok_def row_of_sel(2))

section \<open>Assignments\<close>

lemma assignment_key_in:
  "(i, m) \<in> assignment_key ` A \<longleftrightarrow> (\<exists>a \<in> A. as_task a = i \<and> as_member a = m)"
  by (force simp: assignment_key_def)

lemma add_new_rows_props:
  assumes "distinct (map assignment_key rows)"
  shows "\<exists>new. add_new_rows xs rows = rows @ new \<and> set new \<subseteq> set xs
    \<and> distinct (map assignment_key (rows @ new))
    \<and> (\<forall>a \<in> set xs. assignment_key a \<in> assignment_key ` set (rows @ new))"
  using assms
proof (induction xs arbitrary: rows)
  case (Cons a xs)
  show ?case
  proof (cases "assignment_key a \<in> assignment_key ` set rows")
    case True
    with Cons.IH [OF Cons.prems] show ?thesis by auto
  next
    case False
    then have "distinct (map assignment_key (rows @ [a]))" using Cons.prems by auto
    from Cons.IH [OF this] obtain new where "add_new_rows xs (rows @ [a]) = rows @ a # new"
      "set new \<subseteq> set xs" "distinct (map assignment_key (rows @ a # new))"
      "\<forall>x \<in> set xs. assignment_key x \<in> assignment_key ` set (rows @ a # new)" by auto
    with False show ?thesis by (intro exI [of _ "a # new"]) auto
  qed
qed simp

definition assignment_rows_of ::
  "task_store \<Rightarrow> family_id \<Rightarrow> task_id \<Rightarrow> member_id list \<Rightarrow> member_id option \<Rightarrow> assignment_row list"
where
  "assignment_rows_of s fam i ms by =
     map (\<lambda>m. \<lparr>as_task = i, as_family = fam, as_member = m, as_at = db_now s, as_by = by\<rparr>) ms"

definition assigned ::
  "family_id \<Rightarrow> task_id \<Rightarrow> member_id list \<Rightarrow> member_id option \<Rightarrow> task_store \<Rightarrow> task_store"
where
  "assigned fam i ms by s =
     s\<lparr>assignment_rows := add_new_rows (assignment_rows_of s fam i ms by) (assignment_rows s)\<rparr>"

lemma assigned_sel [simp]:
  "task_rows (assigned fam i ms by s) = task_rows s" "db_families (assigned fam i ms by s) = db_families s"
  "db_members (assigned fam i ms by s) = db_members s" "db_outbox (assigned fam i ms by s) = db_outbox s"
  "db_audit (assigned fam i ms by s) = db_audit s" "db_now (assigned fam i ms by s) = db_now s"
  by (simp_all add: assigned_def)

lemma assigned_Nil [simp]: "assigned fam i [] by s = s"
  by (simp add: assigned_def assignment_rows_of_def)

lemma task_db_links:
  "task_db I s \<Longrightarrow> links_ok (s\<lparr>assignment_rows := rows\<rparr>) \<Longrightarrow> task_db I (s\<lparr>assignment_rows := rows\<rparr>)"
  by (simp add: task_db_def rows_ok_def keys_ok_def chain_ok_def past_head_def [abs_def])

lemma row_stored_links [simp]: "row_stored I (s\<lparr>assignment_rows := rows\<rparr>) t = row_stored I s t"
  by (simp add: row_stored_def scoped_row_def)

lemma row_stored_logs [simp]:
  "row_stored I (s\<lparr>db_outbox := x\<rparr>) t = row_stored I s t"
  "row_stored I (s\<lparr>db_audit := y\<rparr>) t = row_stored I s t"
  by (simp_all add: row_stored_def scoped_row_def)

lemma add_ok:
  assumes db: "task_db I s" and st: "row_stored I s t"
    and ms: "\<forall>m \<in> set ms. (m, t_family t) \<in> set (db_members s)"
  shows "add_assignments (t_family t) (t_id t) ms by s = (Inr (), assigned (t_family t) (t_id t) ms by s)"
    "task_db I (assigned (t_family t) (t_id t) ms by s)"
    "row_stored I (assigned (t_family t) (t_id t) ms by s) t"
    "set (assignees_of (t_family t) (t_id t) (assigned (t_family t) (t_id t) ms by s))
       = set (assignees_of (t_family t) (t_id t) s) \<union> set ms"
proof -
  let ?rows = "assignment_rows s" and ?xs = "assignment_rows_of s (t_family t) (t_id t) ms by"
  have l: "links_ok s" using db by (simp add: task_db_def)
  obtain r where r: "r \<in> set (task_rows s)" "row_of I t r" using db st by (rule stored_row)
  obtain new where new: "add_new_rows ?xs ?rows = ?rows @ new" "set new \<subseteq> set ?xs"
    "distinct (map assignment_key (?rows @ new))"
    "\<forall>a \<in> set ?xs. assignment_key a \<in> assignment_key ` set (?rows @ new)"
    using add_new_rows_props [of ?rows ?xs] l by (auto simp: links_ok_def)
  have refs: "\<forall>a \<in> set ?xs. assignment_refs s a"
    using ms r row_of_sel [OF r(2)]
    by (force simp: assignment_rows_of_def assignment_refs_def)
  then have "list_all (assignment_refs s) new" using new(2) by (auto simp: list_all_iff)
  then show "add_assignments (t_family t) (t_id t) ms by s = (Inr (), assigned (t_family t) (t_id t) ms by s)"
    using new(1)
    by (cases "ms = []") (simp_all add: add_assignments_def assigned_def assignment_rows_of_def Let_def)
  have "links_ok (s\<lparr>assignment_rows := ?rows @ new\<rparr>)"
    using l new refs by (auto simp: links_ok_def assignment_refs_def)
  then show "task_db I (assigned (t_family t) (t_id t) ms by s)"
    using task_db_links [OF db] by (simp add: assigned_def new(1))
  show "row_stored I (assigned (t_family t) (t_id t) ms by s) t" using st by (simp add: assigned_def)
  have "as_task a = t_id t \<and> as_family a = t_family t \<and> as_member a \<in> set ms" if "a \<in> set ?xs" for a
    using that by (auto simp: assignment_rows_of_def)
  moreover have "m \<in> set (assignees_of (t_family t) (t_id t) (assigned (t_family t) (t_id t) ms by s))"
    if m: "m \<in> set ms" for m
  proof -
    have "(t_id t, m) \<in> assignment_key ` set (?rows @ new)"
      using m new(4) by (auto simp: assignment_rows_of_def assignment_key_def)
    then obtain a where a: "a \<in> set (?rows @ new)" "as_task a = t_id t" "as_member a = m"
      unfolding assignment_key_in by blast
    have "assignment_refs s a" using a(1) l refs new(2) by (auto simp: links_ok_def)
    then obtain x where "x \<in> set (task_rows s)" "tr_id x = t_id t" "tr_family x = as_family a"
      using a(2) by (auto simp: assignment_refs_def)
    with same_id_same_row [of s x r] r db have "as_family a = t_family t"
      using row_of_sel [OF r(2)] by (auto simp: task_db_def)
    with a show ?thesis by (auto simp: set_assignees_of assigned_def new(1))
  qed
  ultimately show "set (assignees_of (t_family t) (t_id t) (assigned (t_family t) (t_id t) ms by s))
       = set (assignees_of (t_family t) (t_id t) s) \<union> set ms"
    using new(2) by (auto simp: set_assignees_of assigned_def new(1))
qed

lemma add_foreign:
  assumes db: "task_db I s" and st: "row_stored I s t"
    and m: "m \<in> set ms" "(m, t_family t) \<notin> set (db_members s)"
  shows "add_assignments (t_family t) (t_id t) ms by s = (Inl AssigneeNotInFamily, s)"
proof -
  let ?rows = "assignment_rows s" and ?xs = "assignment_rows_of s (t_family t) (t_id t) ms by"
  have l: "links_ok s" using db by (simp add: task_db_def)
  obtain r where r: "r \<in> set (task_rows s)" "row_of I t r" using db st by (rule stored_row)
  obtain new where new: "add_new_rows ?xs ?rows = ?rows @ new" "set new \<subseteq> set ?xs"
    "\<forall>a \<in> set ?xs. assignment_key a \<in> assignment_key ` set (?rows @ new)"
    using add_new_rows_props [of ?rows ?xs] l by (auto simp: links_ok_def)
  have "(t_id t, m) \<in> assignment_key ` set (?rows @ new)"
    using m(1) new(3) by (auto simp: assignment_rows_of_def assignment_key_def)
  then obtain a where a: "a \<in> set (?rows @ new)" "as_task a = t_id t" "as_member a = m"
    unfolding assignment_key_in by blast
  have "a \<notin> set ?rows"
  proof
    assume "a \<in> set ?rows"
    with l have ra: "assignment_refs s a" by (simp add: links_ok_def)
    then obtain x where "x \<in> set (task_rows s)" "tr_id x = t_id t" "tr_family x = as_family a"
      using a(2) by (auto simp: assignment_refs_def)
    with same_id_same_row [of s x r] r db have "as_family a = t_family t"
      using row_of_sel [OF r(2)] by (auto simp: task_db_def)
    with ra a(3) m(2) show False by (simp add: assignment_refs_def)
  qed
  with a(1) have n: "a \<in> set new" by simp
  with new(2) have "as_family a = t_family t" by (auto simp: assignment_rows_of_def)
  with a(3) m(2) have "\<not> assignment_refs s a" by (simp add: assignment_refs_def)
  with n new(1) m(1) show ?thesis
    by (auto simp: add_assignments_def assignment_rows_of_def [symmetric] Let_def list_all_iff)
qed

definition unassigned :: "family_id \<Rightarrow> task_id \<Rightarrow> member_id \<Rightarrow> task_store \<Rightarrow> task_store" where
  "unassigned fam i m s = s\<lparr>assignment_rows :=
     tbl_delete (\<lambda>a. as_task a = i \<and> as_member a = m \<and> as_family a = fam) (assignment_rows s)\<rparr>"

lemma unassigned_ok:
  assumes "task_db I s"
  shows "task_db I (unassigned fam i m s)"
    "set (assignees_of fam i (unassigned fam i m s)) = set (assignees_of fam i s) - {m}"
proof -
  have "links_ok (unassigned fam i m s)"
    using assms by (auto simp: unassigned_def task_db_def links_ok_def distinct_key_delete assignment_refs_def)
  then show "task_db I (unassigned fam i m s)"
    using task_db_links [OF assms] by (simp add: unassigned_def)
  show "set (assignees_of fam i (unassigned fam i m s)) = set (assignees_of fam i s) - {m}"
    by (auto simp: unassigned_def set_assignees_of)
qed

end
