(* ===== verification/Visibility.thy ===== *)
theory Visibility
  imports Kernel_Types
begin

text \<open>
  Who reads, and whom a reader may see: the types \<open>Reader\<close> and \<open>ResolvedVisibility\<close>, which the
  Tasks and the Calendar context each declare alike in their \<open>visibility.ts\<close>, and the port of the
  Family context that answers. The port is a parameter of the commands; \<open>Platform\<close>
  instantiates it with the Family model.
\<close>

record reader =
  rd_family :: family_id
  rd_member :: member_id
  rd_user :: "user_id option"
  rd_correlation :: string

record visibility =
  visible_ids :: "member_id list"
  guarded_ids :: "member_id list"

type_synonym visibility_port = "member_id \<Rightarrow> family_id \<Rightarrow> visibility"

definition resolve_visibility :: "visibility_port \<Rightarrow> reader \<Rightarrow> visibility" where
  "resolve_visibility port rd = port (rd_member rd) (rd_family rd)"

end
