(* ===== verification/Task_Commands.thy ===== *)
theory Task_Commands
  imports Task_Store Visibility
begin

text \<open>
  The Tasks application layer, \<open>packages/core/src/tasks/application\<close>: visibility, the access
  order every write follows, the commands and the queries, one definition each. A command
  runs in a transaction over \<open>task_store\<close>; the visibility port belongs to the Family context
  and is a parameter here, asked before the transaction opens.
\<close>

section \<open>Visibility\<close>

definition hidden_assignees :: "member_id list \<Rightarrow> visibility \<Rightarrow> member_id list" where
  "hidden_assignees assignees v = filter (\<lambda>m. m \<notin> set (visible_ids v)) assignees"

definition guarded_child_assignees :: "member_id list \<Rightarrow> visibility \<Rightarrow> member_id list" where
  "guarded_child_assignees assignees v = filter (\<lambda>m. m \<in> set (guarded_ids v)) assignees"

definition assignment_audit ::
  "reader \<Rightarrow> task_id \<Rightarrow> string \<Rightarrow> audit_result \<Rightarrow> member_id \<Rightarrow> audit_entry"
where
  "assignment_audit rd i view result child =
     \<lparr>actor_user_id = rd_user rd, actor_member_id = Some (rd_member rd),
      audit_family_id = Some (rd_family rd), subject_type = SFamilyMember,
      subject_id = member_text child, audit_action = ''task_assignment.read'',
      audit_purpose = view @ '' of task '' @ task_text i, audit_result = result,
      audit_reason = (if result = Granted then None
        else Some ''task has a child assignee the reader holds no active guardianship for (FR-014)''),
      audit_correlation_id = rd_correlation rd\<rparr>"

definition audit_child_assignment ::
  "reader \<Rightarrow> task_id \<Rightarrow> member_id list \<Rightarrow> string \<Rightarrow> audit_result \<Rightarrow> unit task_tx"
where
  "audit_child_assignment rd i children view result =
     tx_each (\<lambda>m. append_audit (assignment_audit rd i view result m)) children"

text \<open>Lock, then visibility, and only then the version.\<close>

definition lock_visible_task ::
  "reader \<Rightarrow> visibility \<Rightarrow> task_id \<Rightarrow> int option \<Rightarrow> task outcome task_tx"
where
  "lock_visible_task rd v i expected =
     tx_bind (lock_by_id (rd_family rd) i) (\<lambda>found.
       case found of
         None \<Rightarrow> tx_return (Inl NotFound)
       | Some t \<Rightarrow>
           (let hidden = hidden_assignees (t_assignees t) v in
            if hidden \<noteq> [] then
              tx_bind (audit_child_assignment rd (t_id t) hidden ''task change'' Denied)
                (\<lambda>_. tx_return (Inl NotFound))
            else if (case expected of None \<Rightarrow> False | Some e \<Rightarrow> e \<noteq> t_version t)
            then tx_return (Inl (VersionConflict (t_version t)))
            else tx_return (Inr t)))"

section \<open>Commands\<close>

definition create_task :: "intl \<Rightarrow> task_params \<Rightarrow> string \<Rightarrow> task outcome task_tx" where
  "create_task I c cid =
     tx_ok (task_create c) (\<lambda>t.
       catch_rollback (in_transaction
         (tx_bind (insert_task I (c_family c) t) (\<lambda>_.
          tx_bind (tx_rethrow AssigneeNotInFamily (RollbackWithError AssigneeInvalid)
            (add_assignments (c_family c) (t_id t) (t_assignees t) (c_created_by c))) (\<lambda>_.
          tx_bind (append_event (task_created_event (c_family c) (t_id t) (t_series t) None
            (due_kind (t_due t)) cid)) (\<lambda>_.
          tx_bind (tx_each (\<lambda>m. append_event (task_assigned_event (c_family c) (t_id t) m cid))
            (t_assignees t)) (\<lambda>_.
          tx_return (Inr t))))))))"

definition update_task ::
  "intl \<Rightarrow> visibility_port \<Rightarrow> reader \<Rightarrow> task_id \<Rightarrow> int \<Rightarrow> task_patch \<Rightarrow> series_id \<Rightarrow> int
     \<Rightarrow> task outcome task_tx"
where
  "update_task I port rd i expected patch new_series now =
     (let v = resolve_visibility port rd; fam = rd_family rd in
      in_transaction
        (tx_bind (lock_visible_task rd v i (Some expected)) (\<lambda>locked. tx_ok locked (\<lambda>t.
           case task_update I t patch now new_series of
             (Inl e, _) \<Rightarrow> tx_return (Inl e)
           | (Inr changed, t') \<Rightarrow>
               if changed \<noteq> [] then
                 tx_bind (save_task I fam t') (\<lambda>_.
                 tx_bind (append_event (task_updated_event fam (t_id t') changed (rd_correlation rd)))
                   (\<lambda>_. tx_return (Inr t')))
               else tx_return (Inr t')))))"

text \<open>The successor, if there is one, and the head as it is afterwards.\<close>

definition spawn_successor ::
  "intl \<Rightarrow> reader \<Rightarrow> task \<Rightarrow> task_id \<Rightarrow> int \<Rightarrow> (task option \<times> task) task_tx"
where
  "spawn_successor I rd head succ_id now =
     (let fam = rd_family rd in
      tx_bind (or_rollback (successor_due_of I head now)) (\<lambda>due.
        case due of
          None \<Rightarrow> tx_return (None, head)
        | Some d \<Rightarrow>
            (let succ = successor_of succ_id head d (Some (rd_member rd)) now;
                 head' = relinquish_head head in
             tx_bind (hand_over_head I fam head' succ) (\<lambda>_.
             tx_bind (add_assignments fam (t_id succ) (t_assignees succ) (Some (rd_member rd))) (\<lambda>_.
             tx_bind (append_event (task_created_event fam (t_id succ) (t_series succ)
               (Some (t_id head')) (due_kind (t_due succ)) (rd_correlation rd))) (\<lambda>_.
             tx_return (Some succ, head')))))))"

definition complete_task ::
  "intl \<Rightarrow> visibility_port \<Rightarrow> reader \<Rightarrow> task_id \<Rightarrow> int \<Rightarrow> task_id \<Rightarrow> int
     \<Rightarrow> (task \<times> task option) outcome task_tx"
where
  "complete_task I port rd i expected succ_id now =
     (let v = resolve_visibility port rd; fam = rd_family rd in
      catch_rollback (in_transaction
        (tx_bind (lock_visible_task rd v i (Some expected)) (\<lambda>locked. tx_ok locked (\<lambda>t.
           case task_complete t (rd_member rd) now of
             (Inl e, _) \<Rightarrow> tx_return (Inl e)
           | (Inr _, t') \<Rightarrow>
               tx_bind (save_task I fam t') (\<lambda>_.
               tx_bind (append_event (task_completed_event fam (t_id t') (rd_member rd) (rd_correlation rd))) (\<lambda>_.
               tx_bind (spawn_successor I rd t' succ_id now) (\<lambda>(succ, t''). tx_return (Inr (t'', succ))))))))))"

definition cancel_task ::
  "intl \<Rightarrow> visibility_port \<Rightarrow> reader \<Rightarrow> task_id \<Rightarrow> int \<Rightarrow> cancel_scope \<Rightarrow> task_id \<Rightarrow> int
     \<Rightarrow> (task \<times> task option) outcome task_tx"
where
  "cancel_task I port rd i expected scope succ_id now =
     (let v = resolve_visibility port rd; fam = rd_family rd in
      catch_rollback (in_transaction
        (tx_bind (lock_visible_task rd v i (Some expected)) (\<lambda>locked. tx_ok locked (\<lambda>t.
           case task_cancel t (rd_member rd) now of
             (Inl e, _) \<Rightarrow> tx_return (Inl e)
           | (Inr _, t') \<Rightarrow>
               tx_bind (save_task I fam t') (\<lambda>_.
               tx_bind (append_event (task_cancelled_event fam (t_id t') scope (rd_correlation rd))) (\<lambda>_.
               tx_bind (if scope = Series then tx_return (None, t') else spawn_successor I rd t' succ_id now)
                 (\<lambda>(succ, t''). tx_return (Inr (t'', succ))))))))))"

definition reopen_task ::
  "intl \<Rightarrow> visibility_port \<Rightarrow> reader \<Rightarrow> task_id \<Rightarrow> int \<Rightarrow> int \<Rightarrow> task outcome task_tx"
where
  "reopen_task I port rd i expected now =
     (let v = resolve_visibility port rd; fam = rd_family rd in
      in_transaction
        (tx_bind (lock_visible_task rd v i (Some expected)) (\<lambda>locked. tx_ok locked (\<lambda>t.
           case task_reopen t now of
             (Inl e, _) \<Rightarrow> tx_return (Inl e)
           | (Inr _, t') \<Rightarrow>
               tx_bind (save_task I fam t') (\<lambda>_.
               tx_bind (append_event (task_updated_event fam (t_id t') [Status] (rd_correlation rd)))
                 (\<lambda>_. tx_return (Inr t')))))))"

definition assign_task ::
  "intl \<Rightarrow> visibility_port \<Rightarrow> reader \<Rightarrow> task_id \<Rightarrow> member_id \<Rightarrow> int \<Rightarrow> task outcome task_tx"
where
  "assign_task I port rd i assignee now =
     (let v = resolve_visibility port rd; fam = rd_family rd in
      catch_rollback (in_transaction
        (tx_bind (lock_visible_task rd v i None) (\<lambda>locked. tx_ok locked (\<lambda>t.
           case task_assign t assignee now of
             (Inl e, _) \<Rightarrow> tx_return (Inl e)
           | (Inr False, t') \<Rightarrow> tx_return (Inr t')
           | (Inr True, t') \<Rightarrow>
               tx_bind (tx_rethrow AssigneeNotInFamily (RollbackWithError AssigneeInvalid)
                 (add_assignments fam (t_id t') [assignee] (Some (rd_member rd)))) (\<lambda>_.
               tx_bind (save_task I fam t') (\<lambda>_.
               tx_bind (append_event (task_assigned_event fam (t_id t') assignee (rd_correlation rd)))
                 (\<lambda>_. tx_return (Inr t')))))))))"

definition unassign_task ::
  "intl \<Rightarrow> visibility_port \<Rightarrow> reader \<Rightarrow> task_id \<Rightarrow> member_id \<Rightarrow> int \<Rightarrow> task outcome task_tx"
where
  "unassign_task I port rd i assignee now =
     (let v = resolve_visibility port rd; fam = rd_family rd in
      in_transaction
        (tx_bind (lock_visible_task rd v i None) (\<lambda>locked. tx_ok locked (\<lambda>t.
           case task_unassign t assignee now of
             (Inl e, _) \<Rightarrow> tx_return (Inl e)
           | (Inr False, t') \<Rightarrow> tx_return (Inr t')
           | (Inr True, t') \<Rightarrow>
               tx_bind (remove_assignment fam (t_id t') assignee) (\<lambda>_.
               tx_bind (save_task I fam t') (\<lambda>_.
               tx_bind (append_event (task_updated_event fam (t_id t') [Assignees] (rd_correlation rd)))
                 (\<lambda>_. tx_return (Inr t'))))))))"

datatype overdue_outcome = Reported | Skipped

definition report_overdue ::
  "intl \<Rightarrow> family_id \<Rightarrow> task_id \<Rightarrow> string \<Rightarrow> int \<Rightarrow> overdue_outcome task_tx"
where
  "report_overdue I fam i cid now =
     in_transaction
       (tx_bind (lock_by_id fam i) (\<lambda>found.
          case found of
            None \<Rightarrow> tx_return Skipped
          | Some t \<Rightarrow>
              (case due_at I t of
                 None \<Rightarrow> tx_return Skipped
               | Some at \<Rightarrow>
                   if \<not> needs_overdue_report I t now then tx_return Skipped
                   else
                     tx_bind (save_task I fam (record_overdue_reported I t)) (\<lambda>_.
                     tx_bind (append_event (task_overdue_event fam (t_id t) at cid))
                       (\<lambda>_. tx_return Reported)))))"

section \<open>Queries\<close>

definition get_task :: "visibility_port \<Rightarrow> reader \<Rightarrow> task_id \<Rightarrow> task outcome task_tx" where
  "get_task port rd i =
     (let v = resolve_visibility port rd in
      in_transaction
        (tx_bind (find_by_id (rd_family rd) i) (\<lambda>found.
           case found of
             None \<Rightarrow> tx_return (Inl NotFound)
           | Some t \<Rightarrow>
               (let hidden = hidden_assignees (t_assignees t) v in
                if hidden \<noteq> [] then
                  tx_bind (audit_child_assignment rd (t_id t) hidden ''task detail'' Denied)
                    (\<lambda>_. tx_return (Inl NotFound))
                else
                  tx_bind (audit_child_assignment rd (t_id t)
                    (guarded_child_assignees (t_assignees t) v) ''task detail'' Granted)
                    (\<lambda>_. tx_return (Inr t))))))"

definition max_range_days :: int where "max_range_days = 400"
definition max_page_size :: int where "max_page_size = 200"
definition default_page_size :: int where "default_page_size = 50"

text \<open>A bound is absent, an invalid date, or an instant.\<close>

datatype bound = NoBound | InvalidDate | At int

definition check_range :: "bound \<Rightarrow> bound \<Rightarrow> domain_error option" where
  "check_range lo hi =
     (if lo = InvalidDate \<or> hi = InvalidDate
      then Some (InvalidTimeRange ''Range bounds must be real instants.'')
      else
        (case (lo, hi) of
           (At a, At b) \<Rightarrow>
             if b \<le> a then Some (InvalidTimeRange ''The end of a range must be after its start.'')
             else if b - a > max_range_days * ms_per_day then Some (RangeTooWide max_range_days)
             else None
         | _ \<Rightarrow> None))"

definition page_size :: "int option \<Rightarrow> nat" where
  "page_size limit =
     nat (min (max (case limit of None \<Rightarrow> default_page_size | Some n \<Rightarrow> n) 1) max_page_size)"

definition bound_at :: "bound \<Rightarrow> int option" where
  "bound_at b = (case b of At x \<Rightarrow> Some x | _ \<Rightarrow> None)"

record 'c task_page =
  page_items :: "task list"
  page_next :: "'c option"

text \<open>
  One more row than asked for tells whether there is another page. The cursor of a row may
  throw, as the history's does on an open task, which its query never returns.
\<close>

definition page ::
  "(nat \<Rightarrow> task list task_tx) \<Rightarrow> nat \<Rightarrow> (task \<Rightarrow> exn + 'c) \<Rightarrow> 'c task_page task_tx"
where
  "page fetch limit cursor_of =
     tx_bind (fetch (limit + 1)) (\<lambda>rows.
       let items = take limit rows in
       if length rows > limit \<and> items \<noteq> [] then
         (case cursor_of (last items) of
            Inl e \<Rightarrow> tx_throw e
          | Inr c \<Rightarrow> tx_return \<lparr>page_items = items, page_next = Some c\<rparr>)
       else tx_return \<lparr>page_items = items, page_next = None\<rparr>)"

definition audit_page :: "reader \<Rightarrow> visibility \<Rightarrow> task list \<Rightarrow> string \<Rightarrow> unit task_tx" where
  "audit_page rd v items view =
     tx_each (\<lambda>t. audit_child_assignment rd (t_id t)
       (guarded_child_assignees (t_assignees t) v) view Granted) items"

definition open_position :: "intl \<Rightarrow> task \<Rightarrow> exn + open_cursor" where
  "open_position I t = Inr \<lparr>oc_due_at = due_at I t, oc_id = t_id t\<rparr>"

definition closed_position :: "task \<Rightarrow> exn + closed_cursor" where
  "closed_position t =
     (case t_state t of
        Open \<Rightarrow> Inl CorruptRow
      | Completed a _ \<Rightarrow> Inr \<lparr>cc_closed_at = a, cc_id = t_id t\<rparr>
      | Cancelled a _ \<Rightarrow> Inr \<lparr>cc_closed_at = a, cc_id = t_id t\<rparr>)"

definition list_open_tasks ::
  "intl \<Rightarrow> visibility_port \<Rightarrow> reader \<Rightarrow> member_id option \<Rightarrow> int option \<Rightarrow> bound \<Rightarrow> bound
     \<Rightarrow> open_cursor option \<Rightarrow> int option \<Rightarrow> open_cursor task_page outcome task_tx"
where
  "list_open_tasks I port rd assignee overdue_at due_from due_to after limit =
     (case check_range due_from due_to of
        Some e \<Rightarrow> tx_return (Inl e)
      | None \<Rightarrow>
          (let v = resolve_visibility port rd in
           in_transaction
             (tx_bind (page (\<lambda>n. list_open (rd_family rd)
                 \<lparr>oq_visible = visible_ids v, oq_assignee = assignee, oq_overdue_at = overdue_at,
                  oq_due_from = bound_at due_from, oq_due_to = bound_at due_to,
                  oq_after = after, oq_limit = n\<rparr>) (page_size limit) (open_position I)) (\<lambda>result.
              tx_bind (audit_page rd v (page_items result) ''task list'')
                (\<lambda>_. tx_return (Inr result))))))"

text \<open>Both bounds are dates here, \<open>None\<close> an invalid one, which \<open>check_range\<close> refuses.\<close>

definition date_bound :: "int option \<Rightarrow> bound" where
  "date_bound d = (case d of None \<Rightarrow> InvalidDate | Some x \<Rightarrow> At x)"

definition list_task_history ::
  "visibility_port \<Rightarrow> reader \<Rightarrow> int option \<Rightarrow> int option \<Rightarrow> closed_cursor option \<Rightarrow> int option
     \<Rightarrow> closed_cursor task_page outcome task_tx"
where
  "list_task_history port rd lo hi after limit =
     (case check_range (date_bound lo) (date_bound hi) of
        Some e \<Rightarrow> tx_return (Inl e)
      | None \<Rightarrow>
          (let v = resolve_visibility port rd in
           in_transaction
             (tx_bind (page (\<lambda>n. list_closed (rd_family rd)
                 \<lparr>cq_visible = visible_ids v, cq_from = the lo, cq_to = the hi, cq_after = after,
                  cq_limit = n\<rparr>) (page_size limit) closed_position) (\<lambda>result.
              tx_bind (audit_page rd v (page_items result) ''task history'')
                (\<lambda>_. tx_return (Inr result))))))"

end
