(* ===== verification/Task_Command_Facts.thy ===== *)
theory Task_Command_Facts
  imports Task_Store_Facts Task_Commands
begin

text \<open>
  The Tasks commands over the tables: each returns a typed result and keeps \<open>task_db\<close>; what a
  reader may not see answers as if it were missing; a stale version is refused; closing a head
  hands the series over exactly once; another family's rows are never touched.
\<close>

lemma assignees_of_logs [simp]:
  "assignees_of fam i (s\<lparr>db_outbox := x\<rparr>) = assignees_of fam i s"
  "assignees_of fam i (s\<lparr>db_audit := y\<rparr>) = assignees_of fam i s"
  by (simp_all add: assignees_of_def)

section \<open>The access order\<close>

lemma audit_children:
  "audit_child_assignment rd i ms view res s =
     (Inr (), s\<lparr>db_audit := db_audit s @ map (assignment_audit rd i view res) ms\<rparr>)"
proof (induction ms arbitrary: s)
  case (Cons m ms)
  then show ?case
    by (simp add: audit_child_assignment_def append_audit_def tx_bind_def)
qed (simp add: audit_child_assignment_def)

definition denied :: "reader \<Rightarrow> task_id \<Rightarrow> string \<Rightarrow> member_id list \<Rightarrow> task_store \<Rightarrow> task_store" where
  "denied rd i view ms s = s\<lparr>db_audit := db_audit s @ map (assignment_audit rd i view Denied) ms\<rparr>"

lemma lock_visible_cases:
  assumes "task_db I s"
  obtains (missing) "scoped_row (rd_family rd) i s = None"
      "lock_visible_task rd v i e s = (Inr (Inl NotFound), s)"
  | (hidden) t where "stored I s t" "t_id t = i" "t_family t = rd_family rd"
      "hidden_assignees (t_assignees t) v \<noteq> []"
      "lock_visible_task rd v i e s =
         (Inr (Inl NotFound), denied rd i ''task change'' (hidden_assignees (t_assignees t) v) s)"
  | (stale) t x where "stored I s t" "t_id t = i" "t_family t = rd_family rd"
      "hidden_assignees (t_assignees t) v = []" "e = Some x" "x \<noteq> t_version t"
      "lock_visible_task rd v i e s = (Inr (Inl (VersionConflict (t_version t))), s)"
  | (locked) t where "stored I s t" "t_id t = i" "t_family t = rd_family rd"
      "hidden_assignees (t_assignees t) v = []" "e = None \<or> e = Some (t_version t)"
      "lock_visible_task rd v i e s = (Inr (Inr t), s)"
  using assms
proof (cases rule: lock_cases [where fam = "rd_family rd" and i = i])
  case none
  then show thesis using missing by (simp add: lock_visible_task_def)
next
  case (some t)
  let ?h = "hidden_assignees (t_assignees t) v"
  have L: "lock_visible_task rd v i e s =
      (if ?h \<noteq> [] then (Inr (Inl NotFound), denied rd i ''task change'' ?h s)
       else if (case e of None \<Rightarrow> False | Some x \<Rightarrow> x \<noteq> t_version t)
       then (Inr (Inl (VersionConflict (t_version t))), s) else (Inr (Inr t), s))"
    using some(2,4) by (simp add: lock_visible_task_def Let_def tx_bind_def audit_children denied_def)
  show thesis
  proof (cases "?h = []")
    case True
    then show thesis using L some stale [of t] locked [of t] by (cases e) (auto split: if_splits)
  qed (use L some hidden [of t] in simp)
qed

lemma stored_unique:
  assumes "stored I s t" "stored I s u" "t_id t = t_id u" "t_family t = t_family u"
  shows "t = u"
proof -
  obtain r where r: "row_of I t r" "row_of I u r"
    using assms by (auto simp: stored_def row_stored_def)
  have "t_assignees t = t_assignees u" using assms by (simp add: stored_def)
  moreover have "t\<lparr>t_assignees := t_assignees t\<rparr> = u\<lparr>t_assignees := t_assignees t\<rparr>"
    using load_row_of [OF r(1), of "t_assignees t"] load_row_of [OF r(2), of "t_assignees t"] assms(1,2)
    by (simp add: stored_def)
  ultimately have "t\<lparr>t_assignees := t_assignees t\<rparr> = u\<lparr>t_assignees := t_assignees u\<rparr>" by metis
  then show ?thesis by simp
qed

lemma lock_stored:
  assumes "task_db I s" "stored I s t" "t_family t = rd_family rd"
  shows "lock_visible_task rd v (t_id t) e s =
    (if hidden_assignees (t_assignees t) v \<noteq> []
     then (Inr (Inl NotFound), denied rd (t_id t) ''task change'' (hidden_assignees (t_assignees t) v) s)
     else if \<exists>x. e = Some x \<and> x \<noteq> t_version t then (Inr (Inl (VersionConflict (t_version t))), s)
     else (Inr (Inr t), s))"
  using assms(1)
proof (cases rule: lock_visible_cases [where rd = rd and v = v and i = "t_id t" and e = e])
  case missing
  then show ?thesis using assms(2,3) by (auto simp: stored_def row_stored_def)
next
  case (hidden u)
  with stored_unique [OF assms(2) hidden(1)] assms(3) show ?thesis by simp
next
  case (stale u x)
  with stored_unique [OF assms(2) stale(1)] assms(3) show ?thesis by simp
next
  case (locked u)
  with stored_unique [OF assms(2) locked(1)] assms(3) show ?thesis by auto
qed

text \<open>The frame every command but creation has: lock, check, then work on the task.\<close>

definition guarded ::
  "reader \<Rightarrow> visibility \<Rightarrow> task_id \<Rightarrow> int option \<Rightarrow> (task \<Rightarrow> 'a outcome task_tx) \<Rightarrow> 'a outcome task_tx"
where
  "guarded rd v i e f = tx_bind (lock_visible_task rd v i e) (\<lambda>l. tx_ok l f)"

lemma guarded_cases:
  assumes "task_db I s"
  obtains (missing) "scoped_row (rd_family rd) i s = None" "guarded rd v i e f s = (Inr (Inl NotFound), s)"
  | (hidden) t where "stored I s t" "t_id t = i" "t_family t = rd_family rd"
      "hidden_assignees (t_assignees t) v \<noteq> []"
      "guarded rd v i e f s =
         (Inr (Inl NotFound), denied rd i ''task change'' (hidden_assignees (t_assignees t) v) s)"
  | (stale) t x where "stored I s t" "t_id t = i" "t_family t = rd_family rd"
      "hidden_assignees (t_assignees t) v = []" "e = Some x" "x \<noteq> t_version t"
      "guarded rd v i e f s = (Inr (Inl (VersionConflict (t_version t))), s)"
  | (locked) t where "stored I s t" "t_id t = i" "t_family t = rd_family rd"
      "hidden_assignees (t_assignees t) v = []" "e = None \<or> e = Some (t_version t)"
      "guarded rd v i e f s = f t s"
  using assms
  by (cases rule: lock_visible_cases [where rd = rd and v = v and i = i and e = e])
    (use that in \<open>simp_all add: guarded_def\<close>)

section \<open>Changes of a stored task\<close>

lemma stored_members:
  assumes "task_db I s" "stored I s t"
  shows "\<forall>m \<in> set (t_assignees t). (m, t_family t) \<in> set (db_members s)"
  using assms
  by (auto simp: stored_def set_assignees_of task_db_def links_ok_def assignment_refs_def)

lemma update_series_kept:
  assumes "task_update I t p now ns = (Inr ch, t')" "fresh_series (Some ns) s"
  shows "series_kept s t t'"
proof -
  from assms(1) consider (no) "t' = t"
    | (yes) nx where "edited I t p ns = Inr (nx, ch)" "t' = commit nx now"
    by (rule_tac task_update_cases [of I t p now ns]) auto
  then show ?thesis
  proof cases
    case (yes nx)
    obtain e2 where e2: "edit_rule (p_rule p) ns e2 = Inr (nx, ch)" "same_series (fst e2) t"
      using yes(1) by (rule edited_chain)
    from e2(1) show ?thesis
    proof (cases rule: edit_rule_cases)
      case (replaced r d raw)
      then show ?thesis using e2(2) assms(2) unfolding yes(2)
        by (cases "t_series t") (auto simp: series_kept_def same_series_def)
    qed (use e2(2) yes(2) in \<open>auto simp: series_kept_def same_series_def\<close>)
  qed (simp add: series_kept_def)
qed

lemma same_series_kept: "same_series t' t \<Longrightarrow> series_kept s t t'"
  by (auto simp: series_kept_def same_series_def)

definition storable_patch :: "task_patch \<Rightarrow> bool" where
  "storable_patch p \<longleftrightarrow> (\<forall>d. p_due p = Some (Some d) \<longrightarrow> storable_due d)"

lemma due_anchor_storable: "storable_due d \<Longrightarrow> storable_local (due_local_date_time d)"
  by (cases d) (auto simp: storable_due_def due_date_def due_local_date_time_def storable_local_def
      storable_date_def good_time_def intro!: valid_local_at_time)

lemma update_storable:
  assumes "task_update I t p now ns = (Inr ch, t')" "storable t" "storable_patch p"
  shows "storable t'"
proof -
  from assms(1) consider (no) "t' = t"
    | (yes) nx where "edited I t p ns = Inr (nx, ch)" "t' = commit nx now"
    by (rule_tac task_update_cases [of I t p now ns]) auto
  then show ?thesis
  proof cases
    case (yes nx)
    then obtain e1 e2 where e: "edit_title (p_title p) (t, []) = Inr e1" "edit_notes (p_notes p) e1 = Inr e2"
      "edit_rule (p_rule p) ns
         (edit_due I (p_due p) (edit_category (p_category p) (edit_priority (p_priority p) e2))) = Inr (nx, ch)"
      by (auto simp: edited_def and_then_Inr split: if_splits)
    have "storable (fst e1)" using e(1) assms(2)
      by (auto simp: edit_title_def and_then_Inr storable_def split: option.splits)
    then have "storable (fst e2)" using e(2)
      by (auto simp: edit_notes_def and_then_Inr storable_def split: option.splits)
    then have s3: "storable (fst (edit_due I (p_due p) (edit_category (p_category p) (edit_priority (p_priority p) e2))))"
      using assms(3) by (auto simp: edit_due_def edit_category_def edit_priority_def storable_def
          storable_patch_def pred_option_def split: option.splits)
    from e(3) have "storable nx"
    proof (cases rule: edit_rule_cases)
      case same
      with s3 show ?thesis by (metis fst_conv)
    next
      case removed
      with s3 show ?thesis by (auto simp: storable_def)
    next
      case (replaced r d raw)
      with s3 show ?thesis by (auto simp: storable_def due_anchor_storable)
    qed
    then show ?thesis by (simp add: yes(2) storable_def)
  qed (use assms in simp)
qed

lemma update_props:
  assumes "task_update I t p now ns = (Inr ch, t')" "task_inv t"
  shows "task_inv t'" "same_identity t' t" "t_assignees t' = t_assignees t"
proof -
  from assms(1) consider (no) "t' = t"
    | (yes) nx where "edited I t p ns = Inr (nx, ch)" "t' = commit nx now"
    by (rule_tac task_update_cases [of I t p now ns]) auto
  then have "task_inv t' \<and> same_identity t' t \<and> t_assignees t' = t_assignees t"
  proof cases
    case (yes nx)
    from edited_inv [OF assms(2) yes(1)] show ?thesis
      by (simp add: yes(2) commit_inv) (simp add: same_identity_def)
  qed (use assms in simp)
  then show "task_inv t'" "same_identity t' t" "t_assignees t' = t_assignees t" by simp_all
qed

text \<open>The plain lifecycle changes: everything but state, version and time stays.\<close>

definition touched :: "task \<Rightarrow> task \<Rightarrow> bool" where
  "touched t t' \<longleftrightarrow>
     same_identity t' t \<and> same_series t' t \<and> t_due t' = t_due t \<and> t_title t' = t_title t
     \<and> t_notes t' = t_notes t \<and> t_version t' \<ge> t_version t \<and> distinct (t_assignees t')"

lemma touched_ok:
  "touched t t' \<Longrightarrow> task_inv t \<Longrightarrow> storable t \<Longrightarrow>
     task_inv t' \<and> storable t' \<and> same_identity t' t \<and> series_kept s t t'"
  by (auto simp: touched_def task_inv_def storable_def same_series_kept)
    (auto simp: same_series_def split: option.splits)

lemma lifecycle_touched:
  assumes "task_inv t"
  shows "touched t (snd (task_complete t m now))" "touched t (snd (task_reopen t now))"
    "touched t (snd (task_cancel t m now))" "touched t (snd (task_assign t m now))"
    "touched t (snd (task_unassign t m now))" "touched t (record_overdue_reported I t)"
  using assms
  by (auto simp: touched_def task_complete_def task_cancel_def task_reopen_def task_assign_def
      task_unassign_def record_overdue_reported_def same_identity_def same_series_def task_inv_def
      split: task_state.splits)

lemma save_touched:
  assumes "task_db I s" "stored I s t" "touched t t'"
  shows "save_task I (t_family t) t' s = (Inr (), saved I t' s)" "task_db I (saved I t' s)"
    "row_stored I (saved I t' s) t'" "t_id t' = t_id t" "t_family t' = t_family t"
  using save_ok [OF assms(1), of t t'] touched_ok [OF assms(3)] assms(2)
  by (auto simp: stored_def same_identity_def)

section \<open>Handing the series over\<close>

lemma assigned_task_exists:
  assumes "task_db I s" "a \<in> set (assignment_rows s)"
  shows "\<exists>r \<in> set (task_rows s). tr_id r = as_task a \<and> tr_family r = as_family a"
proof -
  from assms have "(as_task a, as_family a) \<in> (\<lambda>r. (tr_id r, tr_family r)) ` set (task_rows s)"
    by (simp add: task_db_def links_ok_def assignment_refs_def)
  then show ?thesis by auto
qed

lemma head_has_no_successor:
  assumes "task_db I s" "row_stored I s h" "t_head h" "r \<in> set (task_rows s)"
  shows "tr_predecessor r \<noteq> Some (t_id h)"
proof
  assume "tr_predecessor r = Some (t_id h)"
  with assms(1,4) have "past_head s (tr_family r) (t_id h)"
    by (auto simp: task_db_def chain_ok_def)
  then obtain q where q: "q \<in> set (task_rows s)" "tr_id q = t_id h" "\<not> tr_head q"
    by (auto simp: past_head_def)
  obtain x where x: "x \<in> set (task_rows s)" "row_of I h x" using assms(1,2) by (rule stored_row)
  have "q = x" using same_id_same_row [OF _ q(1) x(1)] q(2) row_of_sel(1) [OF x(2)] assms(1)
    by (simp add: task_db_def)
  with q(3) row_of_sel(4) [OF x(2)] assms(3) show False by simp
qed

lemma saved_in:
  assumes "task_db I s" "row_stored I s t" "same_identity t' t"
  obtains r where "r \<in> set (task_rows s)" "row_of I t r"
    "set (task_rows (saved I t' s)) = insert (columns I t' r) (set (task_rows s) - {r})"
proof -
  obtain r where r: "r \<in> set (task_rows s)" "row_of I t r" using assms(1,2) by (rule stored_row)
  moreover have "set (task_rows (saved I t' s)) = insert (columns I t' r) (set (task_rows s) - {r})"
    using r assms(1,3) row_of_sel(1,2) [OF r(2)]
    by (intro saved_rows) (auto simp: task_db_def same_identity_def)
  ultimately show thesis by (rule that)
qed

text \<open>The state after a successor was spawned for the head.\<close>

definition spawned ::
  "intl \<Rightarrow> reader \<Rightarrow> task \<Rightarrow> task \<Rightarrow> task_store \<Rightarrow> task_store"
where
  "spawned I rd head succ s =
     (let s1 = inserted I succ (saved I (relinquish_head head) s);
          s2 = assigned (t_family succ) (t_id succ) (t_assignees succ) (Some (rd_member rd)) s1 in
      s2\<lparr>db_outbox := db_outbox s2 @ [task_created_event (rd_family rd) (t_id succ) (t_series succ)
         (Some (t_id head)) (due_kind (t_due succ)) (rd_correlation rd)]\<rparr>)"

lemma successor_insertable:
  fixes m :: "member_id option"
  assumes db: "task_db I s" and st: "row_stored I s h" and inv: "task_inv h" and sto: "storable h"
    and fresh: "fresh_task s sid" and due: "successor_due_of I h now = Inr (Some d)"
  defines "s1 \<equiv> saved I (relinquish_head h) s" and "x \<equiv> successor_of sid h d m now"
  shows "insertable s1 x" "task_inv x" "storable x" "t_series h \<noteq> None"
proof -
  let ?h = "relinquish_head h"
  note sd = successor_storable [OF inv sto due]
  show ser: "t_series h \<noteq> None" and xi: "task_inv x"
    using inv sd(3) successor_inv [OF inv sd(3)] by (auto simp: x_def task_inv_def)
  show "storable x" using sd(1) sto by (simp add: x_def successor_of_def storable_def)
  have id: "same_identity ?h h" by (simp add: same_identity_def relinquish_head_def)
  obtain r where r: "r \<in> set (task_rows s)" "row_of I h r"
    "set (task_rows s1) = insert (columns I ?h r) (set (task_rows s) - {r})"
    unfolding s1_def using db st id by (rule saved_in)
  note sel = row_of_sel [OF r(2)]
  have "fresh_task s1 sid"
    using fresh r(1) unfolding fresh_task_def r(3) by auto
  moreover have "past_head s1 (t_family h) (t_id h)"
    using sel ser unfolding past_head_def r(3) by (auto simp: relinquish_head_def)
  moreover have "tr_predecessor y \<noteq> Some (t_id h)" if "y \<in> set (task_rows s1)" for y
    using that r(1) head_has_no_successor [OF db st sd(2)] unfolding r(3) by auto
  moreover have "tr_series y \<noteq> t_series h" if y: "y \<in> set (task_rows s1)" "tr_head y" for y
  proof -
    have "\<not> tr_head (columns I ?h r)" by (simp add: relinquish_head_def)
    with y(2) have "y \<noteq> columns I ?h r" by blast
    with y(1) have "y \<in> set (task_rows s)" "y \<noteq> r" unfolding r(3) by blast+
    with db r(1) have "\<not> row_clash r y" by (auto simp: task_db_def keys_ok_def)
    with y(2) sd(2) sel ser show ?thesis by (auto simp: row_clash_def)
  qed
  moreover have "t_family h \<in> set (db_families s1)" using row_stored_fam [OF st db] by (simp add: s1_def)
  ultimately show "insertable s1 x"
    by (auto simp: insertable_def x_def successor_of_def)
qed

lemma row_stored_inserted: "row_stored I s t \<Longrightarrow> row_stored I (inserted I x s) t"
  by (auto simp: row_stored_def scoped_row_def tbl_find_append)

lemma spawned_outbox [simp]:
  "db_outbox (spawned I rd h x s) = db_outbox s @ [task_created_event (rd_family rd) (t_id x) (t_series x)
     (Some (t_id h)) (due_kind (t_due x)) (rd_correlation rd)]"
  by (simp add: spawned_def Let_def)

lemma spawn_result:
  assumes db: "task_db I s" and st: "row_stored I s h" and inv: "task_inv h" and sto: "storable h"
    and fresh: "fresh_task s sid" and fam: "t_family h = rd_family rd"
    and mem: "\<forall>m \<in> set (t_assignees h). (m, t_family h) \<in> set (db_members s)"
  shows "case successor_due_of I h now of
      Inl e \<Rightarrow> spawn_successor I rd h sid now s = (Inl (RollbackWithError e), s)
    | Inr None \<Rightarrow> spawn_successor I rd h sid now s = (Inr (None, h), s)
    | Inr (Some d) \<Rightarrow>
        (let x = successor_of sid h d (Some (rd_member rd)) now; s' = spawned I rd h x s in
         spawn_successor I rd h sid now s = (Inr (Some x, relinquish_head h), s')
         \<and> task_db I s' \<and> row_stored I s' x \<and> row_stored I s' (relinquish_head h)
         \<and> set (assignees_of (t_family x) sid s') = set (t_assignees h))"
proof (cases "successor_due_of I h now")
  case (Inl e)
  then show ?thesis by (simp add: spawn_successor_def Let_def tx_bind_def)
next
  case (Inr od)
  show ?thesis
  proof (cases od)
    case None
    with Inr show ?thesis by (simp add: spawn_successor_def Let_def tx_bind_def)
  next
    case (Some d)
    let ?h = "relinquish_head h" and ?x = "successor_of sid h d (Some (rd_member rd)) now"
    let ?s1 = "saved I ?h s"
    let ?s2 = "inserted I ?x ?s1"
    let ?s3 = "assigned (t_family ?x) (t_id ?x) (t_assignees ?x) (Some (rd_member rd)) ?s2"
    have due: "successor_due_of I h now = Inr (Some d)" using Inr Some by simp
    note si = successor_insertable(1-3) [OF db st inv sto fresh due, where m = "Some (rd_member rd)"]
    have hh: "task_inv ?h" "storable ?h" "same_identity ?h h" "series_kept s h ?h"
      using inv sto by (auto simp: relinquish_head_def same_identity_def storable_def series_kept_def
          task_inv_def split: option.splits)
    note sv = save_ok [OF db st hh(3,1,2,4)]
    have xf: "t_family ?x = t_family h" "t_id ?x = sid" "t_assignees ?x = t_assignees h"
      by (simp_all add: successor_of_def)
    note ins = insert_ok [OF sv(2) si(2,3,1)]
    have mem2: "\<forall>m \<in> set (t_assignees ?x). (m, t_family ?x) \<in> set (db_members ?s2)"
      using mem by (simp add: xf)
    note ad = add_ok [OF ins(2,3) mem2, of "Some (rd_member rd)"]
    have none: "assignees_of (t_family ?x) (t_id ?x) ?s2 = []"
    proof -
      have "as_task a \<noteq> sid" if "a \<in> set (assignment_rows s)" for a
        using assigned_task_exists [OF db that] fresh by (auto simp: fresh_task_def)
      then show ?thesis by (simp add: assignees_of_def xf)
    qed
    have ho: "hand_over_head I (rd_family rd) ?h ?x s = (Inr (), ?s2)"
      using sv(1) ins(1) fam
      by (simp add: hand_over_head_def tx_rethrow_def tx_bind_def xf)
        (simp add: relinquish_head_def)
    have "spawn_successor I rd h sid now s = (Inr (Some ?x, ?h), spawned I rd h ?x s)"
      using due ho ad(1) fam
      by (simp add: spawn_successor_def Let_def tx_bind_def xf append_event_def spawned_def)
        (simp add: relinquish_head_def)
    moreover have "task_db I (spawned I rd h ?x s)" "row_stored I (spawned I rd h ?x s) ?x"
      using ad(2,3) by (simp_all add: spawned_def Let_def)
    moreover have "row_stored I (spawned I rd h ?x s) ?h"
      using row_stored_inserted [OF sv(3), of ?x] by (simp add: spawned_def Let_def assigned_def)
    moreover have "set (assignees_of (t_family ?x) sid (spawned I rd h ?x s)) = set (t_assignees h)"
      using ad(4) none by (simp add: spawned_def Let_def xf)
    ultimately show ?thesis using Inr Some by (simp add: Let_def)
  qed
qed

section \<open>Every command returns and keeps the invariant\<close>

lemma transaction_returns [simp]:
  "m s = (Inr v, s') \<Longrightarrow> in_transaction m s = (Inr v, s')"
  "m s = (Inl e, s') \<Longrightarrow> in_transaction m s = (Inl e, s)"
  "k s = (Inr v', s') \<Longrightarrow> catch_rollback k s = (Inr v', s')"
  "k s = (Inl (RollbackWithError d), s') \<Longrightarrow> catch_rollback k s = (Inr (Inl d), s')"
  by (simp_all add: in_transaction_def catch_rollback_def)

definition event_added :: "outbox_event \<Rightarrow> task_store \<Rightarrow> task_store" where
  "event_added e s = s\<lparr>db_outbox := db_outbox s @ [e]\<rparr>"

lemma append_event_eq [simp]: "append_event e s = (Inr (), event_added e s)"
  by (simp add: append_event_def event_added_def)

lemma event_added_keeps [simp]:
  "task_db I (event_added e s) = task_db I s" "row_stored I (event_added e s) t = row_stored I s t"
  "fresh_task (event_added e s) i = fresh_task s i" "db_members (event_added e s) = db_members s"
  "assignees_of fam i (event_added e s) = assignees_of fam i s"
  "task_rows (event_added e s) = task_rows s" "db_outbox (event_added e s) = db_outbox s @ [e]"
  "assignment_rows (event_added e s) = assignment_rows s" "db_audit (event_added e s) = db_audit s"
  by (simp_all add: event_added_def fresh_task_def assignees_of_def)

lemma fresh_task_saved [simp]: "fresh_task (saved I t s) i = fresh_task s i"
proof -
  have "map tr_id (task_rows (saved I t s)) = map tr_id (task_rows s)"
    unfolding saved_task_rows by (rule map_key_update) simp
  then have "tr_id ` set (task_rows (saved I t s)) = tr_id ` set (task_rows s)" by (metis set_map)
  then show ?thesis unfolding fresh_task_def by (metis image_iff)
qed

lemma denied_db [simp]: "task_db I (denied rd i view ms s) = task_db I s"
  by (simp add: denied_def)

text \<open>\<open>returns m s P\<close>: no exception, and the outcome and the store satisfy \<open>P\<close>.\<close>

definition returns :: "(task_store, 'a) tx \<Rightarrow> task_store \<Rightarrow> ('a \<Rightarrow> task_store \<Rightarrow> bool) \<Rightarrow> bool" where
  "returns m s P \<longleftrightarrow> (\<exists>v s'. m s = (Inr v, s') \<and> P v s')"

lemma returnsI: "m s = (Inr v, s') \<Longrightarrow> P v s' \<Longrightarrow> returns m s P"
  by (auto simp: returns_def)

lemma guarded_returns:
  assumes db: "task_db I s"
    and locked: "\<And>t. stored I s t \<Longrightarrow> t_id t = i \<Longrightarrow> t_family t = rd_family rd \<Longrightarrow>
      returns (f t) s (\<lambda>_. task_db I)"
  shows "returns (guarded rd v i e f) s (\<lambda>_. task_db I)"
  using db
proof (cases rule: guarded_cases [where rd = rd and v = v and i = i and e = e and f = f])
  case (locked t)
  then show ?thesis using assms(2) by (auto simp: returns_def)
qed (use db in \<open>auto intro: returnsI\<close>)

text \<open>With the rollback caught outside, a body may also ask for one.\<close>

definition typed_end :: "intl \<Rightarrow> (task_store, 'a outcome) tx \<Rightarrow> task_store \<Rightarrow> bool" where
  "typed_end I m s \<longleftrightarrow>
     (\<exists>r s'. m s = (r, s')
        \<and> (case r of Inr _ \<Rightarrow> task_db I s' | Inl e \<Rightarrow> \<exists>d. e = RollbackWithError d))"

lemma typed_endI:
  "m s = (Inr v, s') \<Longrightarrow> task_db I s' \<Longrightarrow> typed_end I m s"
  "m s = (Inl (RollbackWithError d), s') \<Longrightarrow> typed_end I m s"
  by (auto simp: typed_end_def)

lemma typed_end_returns:
  "typed_end I m s \<Longrightarrow> task_db I s \<Longrightarrow>
     returns (catch_rollback (in_transaction m)) s (\<lambda>_. task_db I)"
  unfolding typed_end_def returns_def
  by (elim exE conjE, case_tac r) (auto simp del: split_paired_Ex)

lemma guarded_rollback:
  assumes db: "task_db I s"
    and locked: "\<And>t. stored I s t \<Longrightarrow> t_id t = i \<Longrightarrow> t_family t = rd_family rd \<Longrightarrow> typed_end I (f t) s"
  shows "returns (catch_rollback (in_transaction (guarded rd v i e f))) s (\<lambda>_. task_db I)"
proof (rule typed_end_returns [OF _ db])
  show "typed_end I (guarded rd v i e f) s"
    using db
  proof (cases rule: guarded_cases [where rd = rd and v = v and i = i and e = e and f = f])
    case (locked t)
    then show ?thesis using assms(2) [of t] by (simp add: typed_end_def)
  qed (use db in \<open>simp_all add: typed_end_def\<close>)
qed

lemma returns_transaction: "returns m s P \<Longrightarrow> returns (in_transaction m) s P"
  by (auto simp: returns_def)

lemma save_event:
  assumes "task_db I s" "stored I s t" "touched t t'" "t_family t = fam"
  shows "returns (tx_bind (save_task I fam t') (\<lambda>_. tx_bind (append_event ev) (\<lambda>_. tx_return x))) s
    (\<lambda>y s'. y = x \<and> s' = event_added ev (saved I t' s) \<and> task_db I s' \<and> row_stored I s' t')"
  using save_touched [OF assms(1-3)] assms(4) by (auto simp: returns_def)

lemma update_returns:
  assumes db: "task_db I s" and p: "storable_patch patch" and f: "fresh_series (Some ns) s"
  shows "returns (update_task I port rd i expected patch ns now) s (\<lambda>_. task_db I)"
proof -
  let ?body = "\<lambda>t. case task_update I t patch now ns of
      (Inl e, _) \<Rightarrow> tx_return (Inl e)
    | (Inr changed, t') \<Rightarrow>
        if changed \<noteq> [] then
          tx_bind (save_task I (rd_family rd) t') (\<lambda>_.
          tx_bind (append_event (task_updated_event (rd_family rd) (t_id t') changed (rd_correlation rd)))
            (\<lambda>_. tx_return (Inr t')))
        else tx_return (Inr t')"
  have "returns (?body t) s (\<lambda>_. task_db I)" if t: "stored I s t" "t_family t = rd_family rd" for t
  proof (cases "task_update I t patch now ns")
    case (Pair res t')
    show ?thesis
    proof (cases res)
      case (Inl e)
      then show ?thesis using Pair db by (auto intro: returnsI)
    next
      case (Inr ch)
      note u = Pair [unfolded Inr]
      have ti: "task_inv t" "storable t" "row_stored I s t" using t(1) by (simp_all add: stored_def)
      note sv = save_ok [OF db ti(3) update_props(2,1) [OF u ti(1)] update_storable [OF u ti(2) p]
        update_series_kept [OF u f]]
      show ?thesis using sv(1,2) t(2) db by (auto simp: u returns_def)
    qed
  qed
  then show ?thesis
    unfolding update_task_def Let_def guarded_def [symmetric]
    by (intro returns_transaction guarded_returns [OF db])
qed

lemma touched_sel:
  assumes "touched t t'"
  shows "t_id t' = t_id t" "t_family t' = t_family t" "t_head t' = t_head t" "t_due t' = t_due t"
    "t_rule t' = t_rule t" "t_anchor t' = t_anchor t" "t_series t' = t_series t"
  using assms by (simp_all add: touched_def same_identity_def same_series_def)

text \<open>Closing: what \<open>completeTask\<close> and \<open>cancelTask\<close> do after the checks.\<close>

definition close_body ::
  "intl \<Rightarrow> reader \<Rightarrow> task_id \<Rightarrow> int \<Rightarrow> bool \<Rightarrow> outbox_event \<Rightarrow> task \<Rightarrow> (task \<times> task option) outcome task_tx"
where
  "close_body I rd sid now skip ev t' =
     tx_bind (save_task I (rd_family rd) t') (\<lambda>_.
     tx_bind (append_event ev) (\<lambda>_.
     tx_bind (if skip then tx_return (None, t') else spawn_successor I rd t' sid now)
       (\<lambda>(succ, t''). tx_return (Inr (t'', succ)))))"

lemma close_body_result:
  fixes ev :: outbox_event and skip :: bool and now :: int
  assumes db: "task_db I s" and st: "stored I s t" and t: "touched t t'" "t_family t = rd_family rd"
    and a: "t_assignees t' = t_assignees t" and fresh: "fresh_task s sid"
  defines "s1 \<equiv> event_added ev (saved I t' s)"
  shows "if \<not> skip then
       (case successor_due_of I t' now of
          Inl e \<Rightarrow> close_body I rd sid now skip ev t' s = (Inl (RollbackWithError e), s1)
        | Inr None \<Rightarrow> close_body I rd sid now skip ev t' s = (Inr (Inr (t', None)), s1)
        | Inr (Some d) \<Rightarrow>
            (let x = successor_of sid t' d (Some (rd_member rd)) now; s' = spawned I rd t' x s1 in
             close_body I rd sid now skip ev t' s = (Inr (Inr (relinquish_head t', Some x)), s')
             \<and> task_db I s' \<and> row_stored I s' x \<and> row_stored I s' (relinquish_head t')
             \<and> set (assignees_of (t_family x) sid s') = set (t_assignees t)))
     else close_body I rd sid now skip ev t' s = (Inr (Inr (t', None)), s1)"
    and "task_db I s1" "row_stored I s1 t'"
proof -
  note sv = save_touched [OF db st t(1)]
  show d1: "task_db I s1" and r1: "row_stored I s1 t'" using sv by (simp_all add: s1_def)
  have i: "task_inv t'" "storable t'"
    using touched_ok [OF t(1)] st by (auto simp: stored_def)
  have m: "\<forall>m \<in> set (t_assignees t'). (m, t_family t') \<in> set (db_members s1)"
    using stored_members [OF db st] sv(5) a by (simp add: s1_def)
  have f: "fresh_task s1 sid" using fresh by (simp add: s1_def)
  have fam: "t_family t' = rd_family rd" using sv(5) t(2) by simp
  have run: "close_body I rd sid now skip ev t' s =
      tx_bind (if skip then tx_return (None, t') else spawn_successor I rd t' sid now)
       (\<lambda>(succ, t''). tx_return (Inr (t'', succ))) s1"
    using sv(1) t(2) by (simp add: close_body_def s1_def)
  show "if \<not> skip then
       (case successor_due_of I t' now of
          Inl e \<Rightarrow> close_body I rd sid now skip ev t' s = (Inl (RollbackWithError e), s1)
        | Inr None \<Rightarrow> close_body I rd sid now skip ev t' s = (Inr (Inr (t', None)), s1)
        | Inr (Some d) \<Rightarrow>
            (let x = successor_of sid t' d (Some (rd_member rd)) now; s' = spawned I rd t' x s1 in
             close_body I rd sid now skip ev t' s = (Inr (Inr (relinquish_head t', Some x)), s')
             \<and> task_db I s' \<and> row_stored I s' x \<and> row_stored I s' (relinquish_head t')
             \<and> set (assignees_of (t_family x) sid s') = set (t_assignees t)))
     else close_body I rd sid now skip ev t' s = (Inr (Inr (t', None)), s1)"
  proof (cases skip)
    case False
    from spawn_result [OF d1 r1 i f fam m, of now] show ?thesis
      unfolding run using False a
      by (auto simp: Let_def tx_bind_def split: sum.splits option.splits)
  next
    case True
    then show ?thesis unfolding run by simp
  qed
qed

lemma close_typed:
  assumes db: "task_db I s" and st: "stored I s t" and t: "touched t t'" "t_family t = rd_family rd"
    and a: "t_assignees t' = t_assignees t" and fresh: "fresh_task s sid"
  shows "typed_end I (close_body I rd sid now skip ev t') s"
  using close_body_result(1) [OF assms, where skip = skip and now = now and ev = ev]
    close_body_result(2) [OF assms, where ev = ev]
  by (cases skip; cases "successor_due_of I t' now"; cases "projr (successor_due_of I t' now)")
    (auto simp: Let_def typed_end_def)

lemma closing_returns:
  assumes db: "task_db I s" and fresh: "fresh_task s sid"
    and f: "\<And>t. task_inv t \<Longrightarrow> touched t (snd (f t)) \<and> t_assignees (snd (f t)) = t_assignees t"
  shows "returns (catch_rollback (in_transaction (guarded rd v i e
      (\<lambda>t. case f t of (Inl e, _) \<Rightarrow> tx_return (Inl e)
         | (Inr (u::unit), t') \<Rightarrow> close_body I rd sid now skip (ev t') t')))) s (\<lambda>_. task_db I)"
proof (rule guarded_rollback [OF db])
  fix t assume t: "stored I s t" "t_id t = i" "t_family t = rd_family rd"
  obtain r t' where r: "f t = (r, t')" by (cases "f t")
  have "touched t t'" "t_assignees t' = t_assignees t" using f [of t] t(1) r by (auto simp: stored_def)
  from close_typed [OF db t(1) this(1) t(3) this(2) fresh]
  show "typed_end I (case f t of (Inl e, _) \<Rightarrow> tx_return (Inl e)
      | (Inr (u::unit), t') \<Rightarrow> close_body I rd sid now skip (ev t') t') s"
    using db by (cases r) (simp_all add: r typed_end_def)
qed

lemma close_as_body:
  "complete_task I port rd i expected sid now =
     catch_rollback (in_transaction (guarded rd (resolve_visibility port rd) i (Some expected)
       (\<lambda>t. case task_complete t (rd_member rd) now of (Inl e, _) \<Rightarrow> tx_return (Inl e)
         | (Inr u, t') \<Rightarrow> close_body I rd sid now False
             (task_completed_event (rd_family rd) (t_id t') (rd_member rd) (rd_correlation rd)) t')))"
  "cancel_task I port rd i expected scope sid now =
     catch_rollback (in_transaction (guarded rd (resolve_visibility port rd) i (Some expected)
       (\<lambda>t. case task_cancel t (rd_member rd) now of (Inl e, _) \<Rightarrow> tx_return (Inl e)
         | (Inr u, t') \<Rightarrow> close_body I rd sid now (scope = Series)
             (task_cancelled_event (rd_family rd) (t_id t') scope (rd_correlation rd)) t')))"
  unfolding complete_task_def cancel_task_def guarded_def close_body_def Let_def if_False
  by (rule refl)+

lemma lifecycle_assignees [simp]:
  "t_assignees (snd (task_complete t m now)) = t_assignees t"
  "t_assignees (snd (task_cancel t m now)) = t_assignees t"
  "t_assignees (snd (task_reopen t now)) = t_assignees t"
  by (simp_all add: task_complete_def task_cancel_def task_reopen_def split: task_state.splits)

lemma complete_returns:
  assumes "task_db I s" "fresh_task s sid"
  shows "returns (complete_task I port rd i expected sid now) s (\<lambda>_. task_db I)"
  unfolding close_as_body by (rule closing_returns [OF assms]) (simp add: lifecycle_touched)

lemma cancel_returns:
  assumes "task_db I s" "fresh_task s sid"
  shows "returns (cancel_task I port rd i expected scope sid now) s (\<lambda>_. task_db I)"
  unfolding close_as_body by (rule closing_returns [OF assms]) (simp add: lifecycle_touched)

lemma reopen_returns:
  assumes db: "task_db I s"
  shows "returns (reopen_task I port rd i expected now) s (\<lambda>_. task_db I)"
  unfolding reopen_task_def Let_def guarded_def [symmetric]
proof (intro returns_transaction guarded_returns [OF db])
  fix t assume t: "stored I s t" "t_id t = i" "t_family t = rd_family rd"
  obtain r t' where r: "task_reopen t now = (r, t')" by (cases "task_reopen t now")
  have "touched t t'" using lifecycle_touched(2) [of t now] t(1) r by (simp add: stored_def)
  from save_touched [OF db t(1) this] t(3)
  show "returns (case task_reopen t now of (Inl e, _) \<Rightarrow> tx_return (Inl e)
      | (Inr _, t') \<Rightarrow> tx_bind (save_task I (rd_family rd) t') (\<lambda>_.
          tx_bind (append_event (task_updated_event (rd_family rd) (t_id t') [Status] (rd_correlation rd)))
            (\<lambda>_. tx_return (Inr t')))) s (\<lambda>_. task_db I)"
    using db by (cases r) (auto simp: r returns_def)
qed

lemma report_returns:
  assumes db: "task_db I s"
  shows "returns (report_overdue I fam i cid now) s (\<lambda>_. task_db I)"
  using db
proof (cases rule: lock_cases [where fam = fam and i = i])
  case (some t)
  have "touched t (record_overdue_reported I t)"
    using some(1) lifecycle_touched(6) [of t I] by (simp add: stored_def)
  note sv = save_touched(1,2) [OF db some(1) this]
  show ?thesis
    unfolding report_overdue_def
    by (rule returns_transaction) (use sv some(2-4) db in \<open>auto simp: returns_def split: option.splits\<close>)
next
  case none
  then show ?thesis
    unfolding report_overdue_def
    by (intro returns_transaction) (use db in \<open>simp add: returns_def\<close>)
qed

definition assign_body ::
  "intl \<Rightarrow> reader \<Rightarrow> member_id \<Rightarrow> int \<Rightarrow> task \<Rightarrow> task outcome task_tx"
where
  "assign_body I rd m now t =
     (case task_assign t m now of
        (Inl e, _) \<Rightarrow> tx_return (Inl e)
      | (Inr False, t') \<Rightarrow> tx_return (Inr t')
      | (Inr True, t') \<Rightarrow>
          tx_bind (tx_rethrow AssigneeNotInFamily (RollbackWithError AssigneeInvalid)
            (add_assignments (rd_family rd) (t_id t') [m] (Some (rd_member rd)))) (\<lambda>_.
          tx_bind (save_task I (rd_family rd) t') (\<lambda>_.
          tx_bind (append_event (task_assigned_event (rd_family rd) (t_id t') m (rd_correlation rd)))
            (\<lambda>_. tx_return (Inr t')))))"

lemma assign_as_body:
  "assign_task I port rd i m now =
     catch_rollback (in_transaction (guarded rd (resolve_visibility port rd) i None (assign_body I rd m now)))"
  by (simp add: assign_task_def guarded_def assign_body_def [abs_def] Let_def)

lemma assign_foreign:
  assumes "task_db I s" "stored I s t" "t_family t = rd_family rd" "is_open t"
    "(m, t_family t) \<notin> set (db_members s)"
  shows "assign_body I rd m now t s = (Inl (RollbackWithError AssigneeInvalid), s)"
proof -
  have "m \<notin> set (t_assignees t)" using stored_members [OF assms(1,2)] assms(5) by auto
  moreover have "add_assignments (t_family t) (t_id t) [m] who s = (Inl AssigneeNotInFamily, s)" for who
    using add_foreign [OF assms(1), of t m "[m]" who] assms(2,5) by (simp add: stored_def)
  ultimately show ?thesis using assms(3,4)
    by (simp add: assign_body_def task_assign_def tx_rethrow_def tx_bind_def)
qed

lemma assign_member:
  assumes db: "task_db I s" and st: "stored I s t" and fam: "t_family t = rd_family rd"
    and mem: "(m, t_family t) \<in> set (db_members s)"
  shows "typed_end I (assign_body I rd m now t) s"
proof -
  obtain r t' where r: "task_assign t m now = (r, t')" by (cases "task_assign t m now")
  have ti: "task_inv t" "storable t" "row_stored I s t" using st by (simp_all add: stored_def)
  have tt: "touched t t'" using lifecycle_touched(4) [of t m now] ti r by simp
  let ?s1 = "assigned (t_family t) (t_id t) [m] (Some (rd_member rd)) s"
  have mm: "\<forall>x \<in> set [m]. (x, t_family t) \<in> set (db_members s)" using mem by simp
  note ad = add_ok [OF db ti(3) mm]
  note tk = touched_ok [OF tt ti(1,2), of ?s1]
  have sv: "save_task I (t_family t) t' ?s1 = (Inr (), saved I t' ?s1)" "task_db I (saved I t' ?s1)"
    using save_ok [OF ad(2,3)] tk by auto
  show ?thesis
  proof (cases "r = Inr True")
    case True
    with ad(1) sv touched_sel(1) [OF tt] fam show ?thesis
      by (simp add: assign_body_def r typed_end_def tx_rethrow_def tx_bind_def)
  next
    case False
    with db show ?thesis by (cases r) (auto simp: assign_body_def r typed_end_def)
  qed
qed

lemma assign_returns:
  assumes db: "task_db I s"
  shows "returns (assign_task I port rd i m now) s (\<lambda>_. task_db I)"
  unfolding assign_as_body
proof (rule guarded_rollback [OF db])
  fix t assume t: "stored I s t" "t_id t = i" "t_family t = rd_family rd"
  show "typed_end I (assign_body I rd m now t) s"
  proof (cases "(m, t_family t) \<in> set (db_members s) \<or> \<not> is_open t")
    case True
    then show ?thesis
    proof
      assume "\<not> is_open t"
      with db show ?thesis by (simp add: assign_body_def task_assign_def refuse_def typed_end_def)
    qed (rule assign_member [OF db t(1,3)])
  qed (use assign_foreign [OF db t(1,3)] in \<open>simp add: typed_end_def\<close>)
qed

lemma unassign_returns:
  assumes db: "task_db I s"
  shows "returns (unassign_task I port rd i m now) s (\<lambda>_. task_db I)"
  unfolding unassign_task_def Let_def guarded_def [symmetric]
proof (intro returns_transaction guarded_returns [OF db])
  fix t assume t: "stored I s t" "t_id t = i" "t_family t = rd_family rd"
  obtain r t' where r: "task_unassign t m now = (r, t')" by (cases "task_unassign t m now")
  have ti: "task_inv t" "storable t" "row_stored I s t" using t(1) by (simp_all add: stored_def)
  have tt: "touched t t'" using lifecycle_touched(5) [of t m now] ti r by simp
  let ?s1 = "unassigned (t_family t) (t_id t) m s"
  have st1: "row_stored I ?s1 t" using ti(3) by (simp add: unassigned_def)
  have rem: "remove_assignment (rd_family rd) (t_id t') m s = (Inr (), ?s1)"
    using t(3) touched_sel(1) [OF tt] by (simp add: remove_assignment_def unassigned_def)
  note sv = save_ok [OF unassigned_ok(1) [OF db] st1]
  show "returns (case task_unassign t m now of
        (Inl e, _) \<Rightarrow> tx_return (Inl e)
      | (Inr False, t') \<Rightarrow> tx_return (Inr t')
      | (Inr True, t') \<Rightarrow>
          tx_bind (remove_assignment (rd_family rd) (t_id t') m) (\<lambda>_.
          tx_bind (save_task I (rd_family rd) t') (\<lambda>_.
          tx_bind (append_event (task_updated_event (rd_family rd) (t_id t') [Assignees] (rd_correlation rd)))
            (\<lambda>_. tx_return (Inr t'))))) s (\<lambda>_. task_db I)"
  proof (cases "r = Inr True")
    case True
    then show ?thesis using rem sv touched_ok [OF tt ti(1,2), of ?s1] t(3)
      by (auto simp: r returns_def)
  next
    case False
    then show ?thesis using db by (cases r) (auto simp: r returns_def)
  qed
qed

end
