(* ===== verification/Task_System.thy ===== *)
theory Task_System
  imports Task_Command_Facts
begin

text \<open>
  The Tasks context as a system: every command and query as one step over the tables,
  the states reachable from an empty database under any interleaving of them, and the
  properties of those states and steps.
\<close>

section \<open>Creation\<close>

definition storable_params :: "task_params \<Rightarrow> bool" where
  "storable_params c \<longleftrightarrow> pred_option storable_due (c_due c)"

lemma create_props:
  assumes "task_create c = Inr t"
  shows "task_inv t" "t_family t = c_family c" "t_id t = c_id c" "t_predecessor t = None"
    "t_head t \<Longrightarrow> t_series t = Some (c_new_series c)" "t_assignees t = unique (c_assignees c)"
    "storable_params c \<Longrightarrow> storable t"
  using assms task_create_inv [OF assms]
  by (auto simp: task_create_def and_then_Inr Let_def storable_def storable_params_def
      due_anchor_storable split: if_splits)

definition create_body :: "intl \<Rightarrow> task_params \<Rightarrow> string \<Rightarrow> task \<Rightarrow> task outcome task_tx" where
  "create_body I c cid t =
     tx_bind (insert_task I (c_family c) t) (\<lambda>_.
     tx_bind (tx_rethrow AssigneeNotInFamily (RollbackWithError AssigneeInvalid)
       (add_assignments (c_family c) (t_id t) (t_assignees t) (c_created_by c))) (\<lambda>_.
     tx_bind (append_event (task_created_event (c_family c) (t_id t) (t_series t) None
       (due_kind (t_due t)) cid)) (\<lambda>_.
     tx_bind (tx_each (\<lambda>m. append_event (task_assigned_event (c_family c) (t_id t) m cid))
       (t_assignees t)) (\<lambda>_.
     tx_return (Inr t)))))"

lemma create_as_body:
  "create_task I c cid =
     tx_ok (task_create c) (\<lambda>t. catch_rollback (in_transaction (create_body I c cid t)))"
  by (simp add: create_task_def create_body_def [abs_def])

lemma append_events:
  "tx_each (\<lambda>x. append_event (f x)) xs s = (Inr (), s\<lparr>db_outbox := db_outbox s @ map f xs\<rparr>)"
proof (induction xs arbitrary: s)
  case (Cons x xs)
  then show ?case by (simp add: tx_bind_def event_added_def)
qed simp

definition fresh_params :: "task_store \<Rightarrow> task_params \<Rightarrow> bool" where
  "fresh_params s c \<longleftrightarrow>
     fresh_task s (c_id c) \<and> fresh_series (Some (c_new_series c)) s \<and> c_family c \<in> set (db_families s)"

lemma create_insertable:
  assumes "task_create c = Inr t" "fresh_params s c"
  shows "insertable s t"
  using create_props(2-5) [OF assms(1)] assms(2)
  by (auto simp: insertable_def fresh_params_def fresh_series_def)

lemma create_result:
  assumes db: "task_db I s" and t: "task_create c = Inr t" and f: "fresh_params s c"
    and sp: "storable_params c"
  shows "(\<forall>m \<in> set (c_assignees c). (m, c_family c) \<in> set (db_members s)) \<Longrightarrow>
      create_body I c cid t s = (Inr (Inr t),
        (assigned (c_family c) (c_id c) (t_assignees t) (c_created_by c) (inserted I t s))
          \<lparr>db_outbox := db_outbox s
             @ task_created_event (c_family c) (t_id t) (t_series t) None (due_kind (t_due t)) cid
             # map (\<lambda>m. task_assigned_event (c_family c) (t_id t) m cid) (t_assignees t)\<rparr>)
      \<and> task_db I (snd (create_body I c cid t s))"
    and "\<not> (\<forall>m \<in> set (c_assignees c). (m, c_family c) \<in> set (db_members s)) \<Longrightarrow>
      create_body I c cid t s = (Inl (RollbackWithError AssigneeInvalid), inserted I t s)"
proof -
  note p = create_props [OF t]
  note ins = insert_ok [OF db p(1) p(7) [OF sp] create_insertable [OF t f]]
  show "create_body I c cid t s = (Inr (Inr t),
        (assigned (c_family c) (c_id c) (t_assignees t) (c_created_by c) (inserted I t s))
          \<lparr>db_outbox := db_outbox s
             @ task_created_event (c_family c) (t_id t) (t_series t) None (due_kind (t_due t)) cid
             # map (\<lambda>m. task_assigned_event (c_family c) (t_id t) m cid) (t_assignees t)\<rparr>)
      \<and> task_db I (snd (create_body I c cid t s))"
    if "\<forall>m \<in> set (c_assignees c). (m, c_family c) \<in> set (db_members s)"
  proof -
    have "\<forall>m \<in> set (t_assignees t). (m, t_family t) \<in> set (db_members (inserted I t s))"
      using that by (simp add: p(2,6))
    note ad = add_ok(1,2) [OF ins(2,3) this]
    show ?thesis using ins(1) ad p(2,3)
      by (simp add: create_body_def tx_rethrow_def append_events tx_bind_def)
        (simp add: event_added_def)
  qed
  show "create_body I c cid t s = (Inl (RollbackWithError AssigneeInvalid), inserted I t s)"
    if "\<not> (\<forall>m \<in> set (c_assignees c). (m, c_family c) \<in> set (db_members s))"
  proof -
    from that obtain m where "m \<in> set (t_assignees t)" "(m, t_family t) \<notin> set (db_members (inserted I t s))"
      by (auto simp: p(2,6))
    note af = add_foreign [OF ins(2,3) this]
    show ?thesis using ins(1) af p(2)
      by (simp add: create_body_def tx_rethrow_def tx_bind_def)
  qed
qed

lemma create_returns:
  assumes db: "task_db I s" and f: "fresh_params s c" and sp: "storable_params c"
  shows "returns (create_task I c cid) s (\<lambda>_. task_db I)"
proof (cases "task_create c")
  case (Inl e)
  then show ?thesis using db by (simp add: create_as_body returns_def)
next
  case (Inr t)
  have "typed_end I (create_body I c cid t) s"
    using create_result [OF db Inr f sp, of cid]
    by (cases "\<forall>m \<in> set (c_assignees c). (m, c_family c) \<in> set (db_members s)")
      (auto simp: typed_end_def)
  from typed_end_returns [OF this db] show ?thesis by (simp add: create_as_body Inr)
qed

section \<open>Queries\<close>

definition audited :: "audit_entry list \<Rightarrow> task_store \<Rightarrow> task_store" where
  "audited es s = s\<lparr>db_audit := db_audit s @ es\<rparr>"

lemma audited_db [simp]: "task_db I (audited es s) = task_db I s"
  by (simp add: audited_def)

lemma audit_children_audited:
  "audit_child_assignment rd i ms view res s =
     (Inr (), audited (map (assignment_audit rd i view res) ms) s)"
  by (simp add: audit_children audited_def)

lemma audited_audited [simp]: "audited ys (audited xs s) = audited (xs @ ys) s"
  by (simp add: audited_def)

lemma audited_Nil [simp]: "audited [] s = s"
  by (simp add: audited_def)

lemma get_returns:
  assumes db: "task_db I s"
  shows "returns (get_task port rd i) s (\<lambda>_. task_db I)"
  unfolding get_task_def Let_def
  by (rule returns_transaction, use db in \<open>cases rule: lock_cases [where fam = "rd_family rd" and i = i]\<close>)
    (use db in \<open>auto simp: returns_def audit_children_audited tx_bind_def\<close>)

lemma load_in_order_stored:
  assumes "task_db I s" "\<forall>i \<in> set ids. scoped_row fam i s \<noteq> None"
  shows "\<exists>ts. load_in_order fam ids s = (Inr ts, s) \<and> map t_id ts = ids
    \<and> (\<forall>t \<in> set ts. stored I s t \<and> t_family t = fam)"
  using assms(2)
proof (induction ids)
  case (Cons i ids)
  then obtain ts where ts: "load_in_order fam ids s = (Inr ts, s)" "map t_id ts = ids"
    "\<forall>t \<in> set ts. stored I s t \<and> t_family t = fam" by auto
  from assms(1) show ?case
  proof (cases rule: lock_cases [where fam = fam and i = i])
    case (some t)
    then obtain r where r: "scoped_row fam i s = Some r" "load_row fam s r = Inr t"
      by (auto simp: find_by_id_def split: option.splits sum.splits)
    then show ?thesis using ts some by (intro exI [of _ "t # ts"]) (simp add: tx_bind_def)
  qed (use Cons.prems in simp)
qed simp

lemma open_order_set [simp]: "set (open_order rows) = set rows"
  by (auto simp: open_order_def Let_def)

lemma closed_order_set [simp]: "set (closed_order rows) = set rows"
  by (auto simp: closed_order_def)

lemma rows_scoped:
  "keys_ok s \<Longrightarrow> set rows \<subseteq> {r \<in> set (task_rows s). tr_family r = fam} \<Longrightarrow>
     \<forall>i \<in> set (map tr_id rows). scoped_row fam i s \<noteq> None"
  by (auto simp: scoped_row_None)

lemma open_rows_in: "set (open_rows fam q s) \<subseteq> {r \<in> set (task_rows s). open_matches fam q s r}"
  unfolding open_rows_def by (rule order_trans [OF set_take_subset]) auto

lemma closed_rows_in: "set (closed_rows fam q s) \<subseteq> {r \<in> set (task_rows s). closed_matches fam q s r}"
  unfolding closed_rows_def by (rule order_trans [OF set_take_subset]) auto

lemma list_stored:
  assumes db: "task_db I s"
  shows "\<exists>ts. list_open fam q s = (Inr ts, s) \<and> map t_id ts = map tr_id (open_rows fam q s)
      \<and> (\<forall>t \<in> set ts. stored I s t \<and> t_family t = fam)"
    "\<exists>ts. list_closed fam c s = (Inr ts, s) \<and> map t_id ts = map tr_id (closed_rows fam c s)
      \<and> (\<forall>t \<in> set ts. stored I s t \<and> t_family t = fam)"
proof -
  have k: "keys_ok s" using db by (simp add: task_db_def)
  show "\<exists>ts. list_open fam q s = (Inr ts, s) \<and> map t_id ts = map tr_id (open_rows fam q s)
      \<and> (\<forall>t \<in> set ts. stored I s t \<and> t_family t = fam)"
    unfolding list_open_def
    by (intro load_in_order_stored [OF db] rows_scoped [OF k])
      (use open_rows_in [of fam q s] in \<open>auto simp: open_matches_def\<close>)
  show "\<exists>ts. list_closed fam c s = (Inr ts, s) \<and> map t_id ts = map tr_id (closed_rows fam c s)
      \<and> (\<forall>t \<in> set ts. stored I s t \<and> t_family t = fam)"
    unfolding list_closed_def
    by (intro load_in_order_stored [OF db] rows_scoped [OF k])
      (use closed_rows_in [of fam c s] in \<open>auto simp: closed_matches_def\<close>)
qed

lemma audit_page_audited:
  "\<exists>es. audit_page rd v items view s = (Inr (), audited es s)"
proof (induction items arbitrary: s)
  case (Cons t ts)
  then obtain es where "audit_page rd v ts view (audited (map (assignment_audit rd (t_id t) view Granted)
      (guarded_child_assignees (t_assignees t) v)) s) = (Inr (), audited es
        (audited (map (assignment_audit rd (t_id t) view Granted) (guarded_child_assignees (t_assignees t) v)) s))"
    by blast
  then show ?case by (simp add: audit_page_def audit_children_audited tx_bind_def) blast
qed (auto simp: audit_page_def intro: exI [of _ "[]"])

lemma page_returns:
  assumes "\<And>n. \<exists>ts. fetch n s = (Inr ts, s) \<and> (\<forall>t \<in> set ts. P t)" "\<And>t. P t \<Longrightarrow> \<exists>c. cursor_of t = Inr c"
  shows "\<exists>pg. page fetch n cursor_of s = (Inr pg, s) \<and> (\<forall>t \<in> set (page_items pg). P t)"
proof -
  obtain ts where ts: "fetch (n + 1) s = (Inr ts, s)" "\<forall>t \<in> set ts. P t" using assms(1) by blast
  have i: "\<forall>t \<in> set (take n ts). P t" using ts(2) by (auto dest: in_set_takeD)
  show ?thesis
  proof (cases "length ts > n \<and> take n ts \<noteq> []")
    case True
    then have "P (last (take n ts))" using i last_in_set by blast
    with assms(2) obtain c where "cursor_of (last (take n ts)) = Inr c" by blast
    then show ?thesis using True ts(1) i by (simp add: page_def Let_def)
  next
    case False
    then show ?thesis using ts(1) i by (auto simp: page_def Let_def)
  qed
qed

lemma history_stored_closed:
  assumes db: "task_db I s"
  shows "\<exists>ts. list_closed fam c s = (Inr ts, s)
    \<and> (\<forall>t \<in> set ts. stored I s t \<and> t_family t = fam \<and> \<not> is_open t)"
proof -
  have k: "keys_ok s" using db by (simp add: task_db_def)
  obtain ts where ts: "list_closed fam c s = (Inr ts, s)"
    "map t_id ts = map tr_id (closed_rows fam c s)" "\<forall>t \<in> set ts. stored I s t \<and> t_family t = fam"
    using list_stored(2) [OF db] by blast
  have "\<not> is_open t" if t: "t \<in> set ts" for t
  proof -
    have "t_id t \<in> set (map t_id ts)" using t by auto
    then obtain r where r: "r \<in> set (closed_rows fam c s)" "tr_id r = t_id t"
      unfolding ts(2) by auto
    have m: "r \<in> set (task_rows s)" "tr_status r \<noteq> StatusOpen"
      using r(1) closed_rows_in [of fam c s] by (auto simp: closed_matches_def)
    obtain x where x: "x \<in> set (task_rows s)" "row_of I t x"
      using ts(3) t stored_row [OF db, of t] by (auto simp: stored_def)
    have "x = r" using same_id_same_row [OF k x(1) m(1)] r(2) row_of_sel(1) [OF x(2)] by simp
    with m(2) row_of_sel(8) [OF x(2)] show ?thesis by (auto simp: is_open_def status_of_state_def)
  qed
  with ts show ?thesis by blast
qed

lemma list_open_returns:
  assumes db: "task_db I s"
  shows "returns (list_open_tasks I port rd asg ov lo hi after limit) s (\<lambda>_. task_db I)"
proof (cases "check_range lo hi")
  case None
  let ?v = "resolve_visibility port rd"
  let ?q = "\<lambda>n. \<lparr>oq_visible = visible_ids ?v, oq_assignee = asg, oq_overdue_at = ov,
      oq_due_from = bound_at lo, oq_due_to = bound_at hi, oq_after = after, oq_limit = n\<rparr>"
  have "\<exists>pg. page (\<lambda>n. list_open (rd_family rd) (?q n)) (page_size limit) (open_position I) s = (Inr pg, s)
      \<and> (\<forall>t \<in> set (page_items pg). True)"
    by (rule page_returns) (use list_stored(1) [OF db] in \<open>auto simp: open_position_def, blast\<close>)
  then obtain pg where pg: "page (\<lambda>n. list_open (rd_family rd) (?q n)) (page_size limit) (open_position I) s
      = (Inr pg, s)" by blast
  obtain es where "audit_page rd ?v (page_items pg) ''task list'' s = (Inr (), audited es s)"
    using audit_page_audited by blast
  with pg None db show ?thesis by (simp add: list_open_tasks_def Let_def returns_def tx_bind_def)
qed (use db in \<open>simp add: list_open_tasks_def returns_def\<close>)

lemma list_history_returns:
  assumes db: "task_db I s"
  shows "returns (list_task_history port rd lo hi after limit) s (\<lambda>_. task_db I)"
proof (cases "check_range (date_bound lo) (date_bound hi)")
  case None
  let ?v = "resolve_visibility port rd"
  let ?q = "\<lambda>n. \<lparr>cq_visible = visible_ids ?v, cq_from = the lo, cq_to = the hi, cq_after = after,
      cq_limit = n\<rparr>"
  have "\<exists>pg. page (\<lambda>n. list_closed (rd_family rd) (?q n)) (page_size limit) closed_position s = (Inr pg, s)
      \<and> (\<forall>t \<in> set (page_items pg). \<not> is_open t)"
  proof (rule page_returns)
    fix n
    show "\<exists>ts. list_closed (rd_family rd) (?q n) s = (Inr ts, s) \<and> (\<forall>t \<in> set ts. \<not> is_open t)"
      using history_stored_closed [OF db] by blast
  next
    fix t assume "\<not> is_open t"
    then show "\<exists>c. closed_position t = Inr c"
      by (cases "t_state t") (simp_all add: closed_position_def is_open_def)
  qed
  then obtain pg where pg: "page (\<lambda>n. list_closed (rd_family rd) (?q n)) (page_size limit) closed_position s
      = (Inr pg, s)" by blast
  obtain es where "audit_page rd ?v (page_items pg) ''task history'' s = (Inr (), audited es s)"
    using audit_page_audited by blast
  with pg None db show ?thesis by (simp add: list_task_history_def Let_def returns_def tx_bind_def)
qed (use db in \<open>simp add: list_task_history_def returns_def\<close>)

section \<open>The system\<close>

datatype task_command =
    CreateTask task_params string
  | UpdateTask reader task_id int task_patch series_id int
  | CompleteTask reader task_id int task_id int
  | CancelTask reader task_id int cancel_scope task_id int
  | ReopenTask reader task_id int int
  | AssignTask reader task_id member_id int
  | UnassignTask reader task_id member_id int
  | ReportOverdue family_id task_id string int
  | GetTask reader task_id
  | ListOpen reader "member_id option" "int option" bound bound "open_cursor option" "int option"
  | ListHistory reader "int option" "int option" "closed_cursor option" "int option"

text \<open>The outcome without its value: success, or the domain error.\<close>

definition tx_outcome :: "(task_store, 'a outcome) tx \<Rightarrow> unit outcome task_tx" where
  "tx_outcome m = tx_bind m (\<lambda>r. tx_return (map_result r (\<lambda>_. ())))"

fun run_task :: "intl \<Rightarrow> visibility_port \<Rightarrow> task_command \<Rightarrow> unit outcome task_tx" where
  "run_task I port (CreateTask c cid) = tx_outcome (create_task I c cid)"
| "run_task I port (UpdateTask rd i e p ns now) = tx_outcome (update_task I port rd i e p ns now)"
| "run_task I port (CompleteTask rd i e sid now) = tx_outcome (complete_task I port rd i e sid now)"
| "run_task I port (CancelTask rd i e sc sid now) = tx_outcome (cancel_task I port rd i e sc sid now)"
| "run_task I port (ReopenTask rd i e now) = tx_outcome (reopen_task I port rd i e now)"
| "run_task I port (AssignTask rd i m now) = tx_outcome (assign_task I port rd i m now)"
| "run_task I port (UnassignTask rd i m now) = tx_outcome (unassign_task I port rd i m now)"
| "run_task I port (ReportOverdue fam i cid now) =
     tx_bind (report_overdue I fam i cid now) (\<lambda>_. tx_return (Inr ()))"
| "run_task I port (GetTask rd i) = tx_outcome (get_task port rd i)"
| "run_task I port (ListOpen rd asg ov lo hi after n) =
     tx_outcome (list_open_tasks I port rd asg ov lo hi after n)"
| "run_task I port (ListHistory rd lo hi after n) =
     tx_outcome (list_task_history port rd lo hi after n)"

text \<open>
  What the callers guarantee: the identifiers they generate are new, the family of a creation
  exists, and the due dates are ones the date columns hold.
\<close>

fun admissible :: "task_store \<Rightarrow> task_command \<Rightarrow> bool" where
  "admissible s (CreateTask c cid) \<longleftrightarrow> fresh_params s c \<and> storable_params c"
| "admissible s (UpdateTask rd i e p ns now) \<longleftrightarrow> fresh_series (Some ns) s \<and> storable_patch p"
| "admissible s (CompleteTask rd i e sid now) \<longleftrightarrow> fresh_task s sid"
| "admissible s (CancelTask rd i e sc sid now) \<longleftrightarrow> fresh_task s sid"
| "admissible s _ \<longleftrightarrow> True"

lemma returns_outcome: "returns m s (\<lambda>_. P) \<Longrightarrow> returns (tx_outcome m) s (\<lambda>_. P)"
  by (auto simp: returns_def tx_outcome_def)

lemma run_returns:
  assumes "task_db I s" "admissible s c"
  shows "returns (run_task I port c) s (\<lambda>_. task_db I)"
proof (cases c)
  case (ReportOverdue fam i cid now)
  then show ?thesis using report_returns [OF assms(1), of fam i cid now] by (auto simp: returns_def)
qed (use assms in \<open>simp_all add: returns_outcome create_returns update_returns complete_returns
    cancel_returns reopen_returns assign_returns unassign_returns get_returns list_open_returns
    list_history_returns\<close>)

text \<open>
  The states of the tables: from an empty database, any command of any member, members and
  families that join, a member or a family erased, and the passing of time.
\<close>

inductive tasks_reachable :: "intl \<Rightarrow> visibility_port \<Rightarrow> task_store \<Rightarrow> bool" for I port where
  tasks_start:
    "task_rows s = [] \<Longrightarrow> assignment_rows s = [] \<Longrightarrow> tasks_reachable I port s"
| tasks_command:
    "tasks_reachable I port s \<Longrightarrow> admissible s c \<Longrightarrow> tasks_reachable I port (snd (run_task I port c s))"
| tasks_join:
    "tasks_reachable I port s \<Longrightarrow>
       tasks_reachable I port (s\<lparr>db_families := fs @ db_families s, db_members := ms @ db_members s,
         db_now := now\<rparr>)"
| tasks_erase_member: "tasks_reachable I port s \<Longrightarrow> tasks_reachable I port (erase_tasks_for_member m s)"
| tasks_erase_family: "tasks_reachable I port s \<Longrightarrow> tasks_reachable I port (erase_tasks_for_family f s)"

lemma join_db:
  assumes "task_db I s"
  shows "task_db I (s\<lparr>db_families := fs @ db_families s, db_members := ms @ db_members s, db_now := now\<rparr>)"
  using assms
  by (auto simp: task_db_def rows_ok_def keys_ok_def chain_ok_def links_ok_def past_head_def [abs_def]
      assignment_refs_def [abs_def])

lemma foldl_tbl_delete:
  "foldl (\<lambda>rows f. tbl_delete (P f) rows) rows fs = filter (\<lambda>a. \<forall>f \<in> set fs. \<not> P f a) rows"
  by (induction fs arbitrary: rows) (auto simp: tbl_delete_def intro: filter_cong)

lemma erase_member_db:
  assumes "task_db I s"
  shows "task_db I (erase_tasks_for_member m s)"
  unfolding erase_tasks_for_member_def Let_def foldl_tbl_delete
  using assms
  by (intro task_db_links) (auto simp: task_db_def links_ok_def distinct_map_filter assignment_refs_def)

lemma erase_family_rows:
  assumes "task_db I s"
  shows "erase_tasks_for_family fam s =
    s\<lparr>task_rows := filter (\<lambda>r. tr_family r \<noteq> fam) (task_rows s),
      assignment_rows := filter (\<lambda>a. as_family a \<noteq> fam) (assignment_rows s)\<rparr>"
proof -
  let ?gone = "map tr_id (filter (\<lambda>r. tr_family r = fam) (task_rows s))"
  have k: "keys_ok s" using assms by (simp add: task_db_def)
  have keep: "p \<notin> set ?gone"
    if r: "r \<in> set (task_rows s)" "tr_family r \<noteq> fam" "tr_predecessor r = Some p" for r p
  proof
    assume "p \<in> set ?gone"
    then obtain x where x: "x \<in> set (task_rows s)" "tr_family x = fam" "tr_id x = p" by auto
    have "past_head s (tr_family r) p" using assms r by (auto simp: task_db_def chain_ok_def)
    then obtain q where "q \<in> set (task_rows s)" "tr_id q = p" "tr_family q = tr_family r"
      by (auto simp: past_head_def)
    with same_id_same_row [OF k, of q x] x r(2) show False by auto
  qed
  have "map (\<lambda>r. case tr_predecessor r of
            Some p \<Rightarrow> if p \<in> set ?gone then r\<lparr>tr_predecessor := None\<rparr> else r
          | None \<Rightarrow> r) (tbl_delete (\<lambda>r. tr_family r = fam) (task_rows s))
      = map (\<lambda>r. r) (filter (\<lambda>r. tr_family r \<noteq> fam) (task_rows s))"
    unfolding tbl_delete_def
    by (rule map_cong [OF refl]) (use keep in \<open>auto split: option.splits\<close>)
  moreover have "tbl_delete (\<lambda>a. as_task a \<in> set ?gone \<and> as_family a = fam) (assignment_rows s)
      = filter (\<lambda>a. as_family a \<noteq> fam) (assignment_rows s)"
    unfolding tbl_delete_def
  proof (rule filter_cong [OF refl])
    fix a assume "a \<in> set (assignment_rows s)"
    then obtain r where "r \<in> set (task_rows s)" "tr_id r = as_task a" "tr_family r = as_family a"
      using assigned_task_exists [OF assms] by blast
    then show "(\<not> (as_task a \<in> set ?gone \<and> as_family a = fam)) = (as_family a \<noteq> fam)"
      by (auto intro!: image_eqI [where x = r])
  qed
  ultimately show ?thesis by (simp add: erase_tasks_for_family_def Let_def)
qed

lemma erase_family_db:
  assumes "task_db I s"
  shows "task_db I (erase_tasks_for_family fam s)"
proof -
  let ?s = "s\<lparr>task_rows := filter (\<lambda>r. tr_family r \<noteq> fam) (task_rows s),
      assignment_rows := filter (\<lambda>a. as_family a \<noteq> fam) (assignment_rows s)\<rparr>"
  have "chain_ok ?s"
  proof -
    have "past_head ?s f p" if "past_head s f p" "f \<noteq> fam" for f p
      using that by (auto simp: past_head_def)
    then show ?thesis using assms by (auto simp: task_db_def chain_ok_def pred_option_def)
  qed
  moreover have "links_ok ?s"
    using assms by (force simp: task_db_def links_ok_def distinct_map_filter assignment_refs_def)
  moreover have "rows_ok I ?s" "keys_ok ?s"
    using assms by (auto simp: task_db_def rows_ok_def keys_ok_def distinct_map_filter)
  ultimately show ?thesis unfolding erase_family_rows [OF assms] by (simp add: task_db_def)
qed

lemma reachable_db: "tasks_reachable I port s \<Longrightarrow> task_db I s"
proof (induction rule: tasks_reachable.induct)
  case (tasks_start s)
  then show ?case by (simp add: task_db_def rows_ok_def keys_ok_def chain_ok_def links_ok_def)
next
  case (tasks_command s c)
  with run_returns [of I s c port] show ?case by (auto simp: returns_def)
qed (simp_all add: join_db erase_member_db erase_family_db)

section \<open>Properties of the system\<close>




end
