(* ===== verification/Task_Household.thy ===== *)
theory Task_Household
  imports Task_System
begin

text \<open>
  A household for the witnesses of the Tasks properties: one family of two members in an empty
  database, and the state after one of them created the daily chore and took it on.
\<close>

definition fam_f :: family_id where "fam_f = FamilyId ''f1''"
definition mum :: member_id where "mum = MemberId ''m1''"
definition kid :: member_id where "kid = MemberId ''m2''"

definition empty_home :: task_store where
  "empty_home =
     \<lparr>task_rows = [], assignment_rows = [], db_families = [fam_f],
      db_members = [(mum, fam_f), (kid, fam_f)], db_outbox = [], db_audit = [], db_now = 1789000000000\<rparr>"

text \<open>A port that shows every member to the mother, and only himself to the child.\<close>

definition home_port :: visibility_port where
  "home_port m f =
     (if m = mum then \<lparr>visible_ids = [mum, kid], guarded_ids = [kid]\<rparr>
      else \<lparr>visible_ids = [kid], guarded_ids = []\<rparr>)"

definition mum_reads :: reader where
  "mum_reads = \<lparr>rd_family = fam_f, rd_member = mum, rd_user = None, rd_correlation = ''c1''\<rparr>"

definition kid_reads :: reader where
  "kid_reads = \<lparr>rd_family = fam_f, rd_member = kid, rd_user = None, rd_correlation = ''c2''\<rparr>"

lemmas home_defs = fam_f_def mum_def kid_def

definition home :: task_store where
  "home = snd (run_task london_intl home_port (CreateTask chore_params ''c0'') empty_home)"

lemma empty_home_reachable: "tasks_reachable I port empty_home"
  by (rule tasks_start) (simp_all add: empty_home_def)

lemma chore_fields_home:
  "t_id chore = TaskId ''t1''" "t_family chore = fam_f" "t_assignees chore = [mum]"
  "t_version chore = 1" "is_open chore" "c_id chore_params = TaskId ''t1''"
  "c_family chore_params = fam_f" "c_assignees chore_params = [mum]" "t_predecessor chore = None"
  "t_series chore = Some (SeriesId ''s1'')" "t_head chore"
  by (simp_all add: chore_def chore_params_def home_defs is_open_def)

lemma chore_storable_params: "storable_params chore_params"
proof -
  have "valid_date (ymd 2026 9 16)" by code_simp
  then show ?thesis
    by (simp add: storable_params_def chore_params_def chore_due_def storable_due_def
        storable_date_def due_date_def pred_option_def)
qed

lemma chore_fresh: "fresh_params empty_home chore_params"
  by (simp add: fresh_params_def fresh_task_def fresh_series_def empty_home_def chore_params_def fam_f_def)

lemma chore_admissible: "admissible empty_home (CreateTask chore_params ''c0'')"
  by (simp add: chore_fresh chore_storable_params)

lemma home_reachable: "tasks_reachable london_intl home_port home"
  unfolding home_def by (rule tasks_command [OF empty_home_reachable chore_admissible])

lemma home_db: "task_db london_intl home"
  by (rule reachable_db [OF home_reachable])

lemma home_contents:
  obtains ob where
    "home = assigned fam_f (TaskId ''t1'') [mum] (Some mum) (inserted london_intl chore empty_home)
       \<lparr>db_outbox := ob\<rparr>"
proof -
  have db: "task_db london_intl empty_home" by (rule reachable_db [OF empty_home_reachable])
  have mem: "\<forall>m \<in> set (c_assignees chore_params). (m, c_family chore_params) \<in> set (db_members empty_home)"
    by (simp add: chore_fields_home empty_home_def)
  note cr = create_result(1) [OF db chore_created chore_fresh chore_storable_params mem,
      of "''c0''", THEN conjunct1]
  have "c_created_by chore_params = Some mum" by (simp add: chore_params_def mum_def)
  then show thesis
    by (intro that)
      (simp add: home_def tx_outcome_def create_as_body chore_created cr chore_fields_home tx_bind_def
        map_result_def)
qed

lemma home_rows: "task_rows home = [new_row london_intl fam_f chore]" "db_audit home = []"
    "db_families home = [fam_f]" "db_members home = [(mum, fam_f), (kid, fam_f)]"
proof -
  obtain ob where h:
    "home = assigned fam_f (TaskId ''t1'') [mum] (Some mum) (inserted london_intl chore empty_home)
       \<lparr>db_outbox := ob\<rparr>" by (rule home_contents)
  show "task_rows home = [new_row london_intl fam_f chore]" "db_audit home = []"
    "db_families home = [fam_f]" "db_members home = [(mum, fam_f), (kid, fam_f)]"
    unfolding h by (simp_all add: empty_home_def chore_fields_home)
qed

lemma chore_stored: "stored london_intl home chore"
proof -
  have db: "task_db london_intl empty_home" by (rule reachable_db [OF empty_home_reachable])
  note pr = create_props [OF chore_created]
  have ins: "row_stored london_intl (inserted london_intl chore empty_home) chore"
    by (rule insert_ok(3) [OF db pr(1) pr(7) [OF chore_storable_params]
        create_insertable [OF chore_created chore_fresh]])
  obtain ob where h:
    "home = assigned fam_f (TaskId ''t1'') [mum] (Some mum) (inserted london_intl chore empty_home)
       \<lparr>db_outbox := ob\<rparr>" by (rule home_contents)
  have "row_stored london_intl home chore" using ins by (simp add: h assigned_def)
  moreover have "assignees_of (t_family chore) (t_id chore) home = t_assignees chore"
    by (simp add: h assigned_def chore_fields_home assignment_rows_of_def empty_home_def
        assignees_of_def)
  ultimately show ?thesis
    using pr(1) pr(7) [OF chore_storable_params] by (simp add: stored_def)
qed

section \<open>The properties of the system at the household\<close>


lemma t2_fresh: "fresh_task home (TaskId ''t2'')"
  by (simp add: fresh_task_def home_rows new_row_def chore_fields_home)


lemma successor_due_touched:
  assumes "touched t t'"
  shows "successor_due_of I t' now = successor_due_of I t now"
  unfolding successor_due_of_def due_at_def touched_sel [OF assms] by (rule refl)


lemma task_row_roundtrip_witness:
  "to_aggregate (new_row london_intl fam_f chore) [mum] = Inr chore"
  using task_row_roundtrip [of chore london_intl] chore_stored
  by (simp add: stored_def chore_fields_home)

section \<open>The household's readers\<close>

lemma readers [simp]:
  "rd_family mum_reads = fam_f" "rd_member mum_reads = mum"
  "rd_family kid_reads = fam_f" "rd_member kid_reads = kid"
  by (simp_all add: mum_reads_def kid_reads_def)

lemma chore_visibility:
  "hidden_assignees (t_assignees chore) (resolve_visibility home_port mum_reads) = []"
  "hidden_assignees (t_assignees chore) (resolve_visibility home_port kid_reads) = [mum]"
  by (simp_all add: chore_fields_home resolve_visibility_def home_port_def hidden_assignees_def)
    (simp add: home_defs)

end
