(* ===== verification/Task_Access.thy ===== *)
theory Task_Access
  imports Task_Household
begin

text \<open>
  Who may act on a task, and on which version: the answer to a task the reader may not see is
  the answer to a task that is not there, whatever else is wrong with the request; a version
  that has moved on is refused; of several members who decide on the same version, one wins;
  no command touches another family.
\<close>

section \<open>The guard of the commands\<close>

lemma guarded_commands:
  "\<exists>f. update_task I port rd i e p ns now =
     in_transaction (guarded rd (resolve_visibility port rd) i (Some e) f)"
  "\<exists>f. complete_task I port rd i e sid now =
     catch_rollback (in_transaction (guarded rd (resolve_visibility port rd) i (Some e) f))"
  "\<exists>f. cancel_task I port rd i e sc sid now =
     catch_rollback (in_transaction (guarded rd (resolve_visibility port rd) i (Some e) f))"
  "\<exists>f. reopen_task I port rd i e now =
     in_transaction (guarded rd (resolve_visibility port rd) i (Some e) f)"
  "\<exists>f. assign_task I port rd i m now =
     catch_rollback (in_transaction (guarded rd (resolve_visibility port rd) i None f))"
  "\<exists>f. unassign_task I port rd i m now =
     in_transaction (guarded rd (resolve_visibility port rd) i None f)"
  unfolding update_task_def complete_task_def cancel_task_def reopen_task_def assign_task_def
    unassign_task_def guarded_def Let_def
  by blast+

fun target :: "task_command \<Rightarrow> (reader \<times> task_id) option" where
  "target (UpdateTask rd i e p ns now) = Some (rd, i)"
| "target (CompleteTask rd i e sid now) = Some (rd, i)"
| "target (CancelTask rd i e sc sid now) = Some (rd, i)"
| "target (ReopenTask rd i e now) = Some (rd, i)"
| "target (AssignTask rd i m now) = Some (rd, i)"
| "target (UnassignTask rd i m now) = Some (rd, i)"
| "target (GetTask rd i) = Some (rd, i)"
| "target _ = None"

fun expects :: "task_command \<Rightarrow> int option" where
  "expects (UpdateTask rd i e p ns now) = Some e"
| "expects (CompleteTask rd i e sid now) = Some e"
| "expects (CancelTask rd i e sc sid now) = Some e"
| "expects (ReopenTask rd i e now) = Some e"
| "expects _ = None"

fun view_name :: "task_command \<Rightarrow> string" where
  "view_name (GetTask rd i) = ''task detail''"
| "view_name _ = ''task change''"

lemma stops_at_the_guard:
  assumes "lock_visible_task rd v i e s = (Inr (Inl d), s')"
  shows "tx_outcome (in_transaction (guarded rd v i e f)) s = (Inr (Inl d), s')"
    "tx_outcome (catch_rollback (in_transaction (guarded rd v i e f))) s = (Inr (Inl d), s')"
  using assms by (simp_all add: guarded_def tx_outcome_def map_result_def)

lemma run_stops_at_the_guard:
  assumes "target c = Some (rd, i)" "\<And>r j. c \<noteq> GetTask r j"
    and "lock_visible_task rd (resolve_visibility port rd) i (expects c) s = (Inr (Inl d), s')"
  shows "run_task I port c s = (Inr (Inl d), s')"
proof (cases c)
  case (UpdateTask x1 x2 x3 x4 x5 x6)
  with assms guarded_commands(1) [of I port x1 x2 x3 x4 x5 x6] show ?thesis
    by (auto simp: stops_at_the_guard)
next
  case (CompleteTask x1 x2 x3 x4 x5)
  with assms guarded_commands(2) [of I port x1 x2 x3 x4 x5] show ?thesis
    by (auto simp: stops_at_the_guard)
next
  case (CancelTask x1 x2 x3 x4 x5 x6)
  with assms guarded_commands(3) [of I port x1 x2 x3 x4 x5 x6] show ?thesis
    by (auto simp: stops_at_the_guard)
next
  case (ReopenTask x1 x2 x3 x4)
  with assms guarded_commands(4) [of I port x1 x2 x3 x4] show ?thesis
    by (auto simp: stops_at_the_guard)
next
  case (AssignTask x1 x2 x3 x4)
  with assms guarded_commands(5) [of I port x1 x2 x3 x4] show ?thesis
    by (auto simp: stops_at_the_guard)
next
  case (UnassignTask x1 x2 x3 x4)
  with assms guarded_commands(6) [of I port x1 x2 x3 x4] show ?thesis
    by (auto simp: stops_at_the_guard)
qed (use assms in auto)

lemma get_hidden:
  assumes "task_db I s" "stored I s t" "t_family t = rd_family rd"
    "hidden_assignees (t_assignees t) (resolve_visibility port rd) \<noteq> []"
  shows "run_task I port (GetTask rd (t_id t)) s = (Inr (Inl NotFound),
    denied rd (t_id t) ''task detail'' (hidden_assignees (t_assignees t) (resolve_visibility port rd)) s)"
  using assms(1)
proof (cases rule: lock_cases [where fam = "rd_family rd" and i = "t_id t"])
  case none
  then show ?thesis using assms(2,3) by (auto simp: stored_def row_stored_def)
next
  case (some u)
  with stored_unique [OF assms(2) some(1)] assms(3) have "u = t" by simp
  with some assms(4) show ?thesis
    by (simp add: in_transaction_def get_task_def Let_def tx_outcome_def map_result_def tx_bind_def audit_children denied_def)
qed

text \<open>
  C10: A task with an assignee the reader may not see answers \<open>NotFound\<close> to every read and every
  write, whatever version the request expects and whatever state the task is in, and the
  attempt leaves nothing but one \<open>Denied\<close> audit entry per hidden assignee. A task that is not
  there answers the same, and leaves nothing at all.
\<close>

theorem hidden_answers_as_missing:
  assumes "task_db I s" "target c = Some (rd, i)"
  shows "(scoped_row (rd_family rd) i s = None \<longrightarrow> run_task I port c s = (Inr (Inl NotFound), s))
    \<and> (\<forall>t. stored I s t \<and> t_id t = i \<and> t_family t = rd_family rd
          \<and> hidden_assignees (t_assignees t) (resolve_visibility port rd) \<noteq> [] \<longrightarrow>
        run_task I port c s = (Inr (Inl NotFound), s\<lparr>db_audit := db_audit s
          @ map (assignment_audit rd i (view_name c) Denied)
              (hidden_assignees (t_assignees t) (resolve_visibility port rd))\<rparr>))"
proof (cases "\<exists>r j. c = GetTask r j")
  case True
  then have c: "c = GetTask rd i" using assms(2) by auto
  have "run_task I port c s = (Inr (Inl NotFound), s)" if "scoped_row (rd_family rd) i s = None"
    using that by (simp add: c get_task_def Let_def find_by_id_def tx_outcome_def map_result_def tx_bind_def)
  with get_hidden [OF assms(1)] show ?thesis by (auto simp: c denied_def)
next
  case False
  have v: "view_name c = ''task change''" using False by (cases c) auto
  have lock: "lock_visible_task rd (resolve_visibility port rd) i (expects c) s = (Inr (Inl NotFound), s)"
    if "scoped_row (rd_family rd) i s = None"
    using that by (simp add: lock_visible_task_def lock_by_id_def tx_bind_def)
  show ?thesis
    using run_stops_at_the_guard [OF assms(2), of port s NotFound _ I] False lock lock_stored [OF assms(1)]
    unfolding v by (auto simp: denied_def)
qed

text \<open>
  A write that expects another version than the task has is refused with the version the
  task has, and changes nothing.
\<close>

theorem stale_version_refused:
  assumes "task_db I s" "target c = Some (rd, t_id t)" "expects c = Some e" "e \<noteq> t_version t"
    and "stored I s t" "t_family t = rd_family rd"
    and "hidden_assignees (t_assignees t) (resolve_visibility port rd) = []"
  shows "run_task I port c s = (Inr (Inl (VersionConflict (t_version t))), s)"
  using run_stops_at_the_guard [OF assms(2), of port s _ _ I] lock_stored [OF assms(1,5,6)] assms(3,4,7)
  by (cases c) simp_all

lemma hidden_answers_as_missing_witness:
  "run_task london_intl home_port (CompleteTask kid_reads (TaskId ''t1'') 7 (TaskId ''t2'') 0) home
    = (Inr (Inl NotFound), home\<lparr>db_audit :=
        [assignment_audit kid_reads (TaskId ''t1'') ''task change'' Denied mum]\<rparr>)"
  using hidden_answers_as_missing [OF home_db, of "CompleteTask kid_reads (TaskId ''t1'') 7 (TaskId ''t2'') 0"
      kid_reads "TaskId ''t1''" home_port, THEN conjunct2, rule_format, of chore]
    chore_stored chore_visibility(2)
  by (simp add: chore_fields_home home_rows)

lemma stale_version_refused_witness:
  "run_task london_intl home_port (ReopenTask mum_reads (TaskId ''t1'') 7 0) home
    = (Inr (Inl (VersionConflict 1)), home)"
  using stale_version_refused [OF home_db _ _ _ chore_stored _ chore_visibility(1),
      of "ReopenTask mum_reads (TaskId ''t1'') 7 0" 7]
  by (simp add: chore_fields_home)

section \<open>Other families\<close>

text \<open>The rows of the families but one.\<close>

definition others :: "family_id \<Rightarrow> task_store \<Rightarrow> task_row list \<times> assignment_row list" where
  "others fam s =
     (filter (\<lambda>r. tr_family r \<noteq> fam) (task_rows s), filter (\<lambda>a. as_family a \<noteq> fam) (assignment_rows s))"

abbreviation leaves_others :: "family_id \<Rightarrow> 'a task_tx \<Rightarrow> bool" where
  "leaves_others fam m \<equiv> (\<forall>x. keeps (\<lambda>s. others fam s = x) m)"

lemma leaves_othersI: "(\<And>s. others fam (snd (m s)) = others fam s) \<Longrightarrow> leaves_others fam m"
  by (simp add: keeps_def)

lemma filter_update_other:
  "(\<And>x. p x \<Longrightarrow> \<not> q x \<and> \<not> q (f x)) \<Longrightarrow> filter q (tbl_update p f rows) = filter q rows"
  by (induction rows) (auto simp: tbl_update_def)

lemma columns_family [simp]: "tr_family (columns I t r) = tr_family r"
  by (simp add: columns_def split: prod.splits)

lemma leaves_save: "leaves_others fam (save_task I fam t)"
proof (rule leaves_othersI)
  fix s
  show "others fam (snd (save_task I fam t s)) = others fam s"
  proof (cases "scoped_row fam (t_id t) s")
    case (Some r)
    then have "tr_family r = fam" by (auto simp: scoped_row_def dest: tbl_find_Some)
    then have "filter (\<lambda>r. tr_family r \<noteq> fam) (tbl_update (\<lambda>x. tr_id x = t_id t \<and> tr_family x = fam)
        (\<lambda>_. columns I t r) (task_rows s)) = filter (\<lambda>r. tr_family r \<noteq> fam) (task_rows s)"
      by (intro filter_update_other) simp
    then show ?thesis by (simp add: save_task_def update_row_def Some others_def)
  qed (simp add: save_task_def update_row_def)
qed

lemma leaves_insert: "leaves_others fam (insert_task I fam t)"
  by (rule leaves_othersI) (simp add: insert_task_def insert_row_def others_def new_row_def)

lemma add_new_rows_others:
  "\<forall>a \<in> set new. as_family a = fam \<Longrightarrow>
     filter (\<lambda>a. as_family a \<noteq> fam) (add_new_rows new rows) = filter (\<lambda>a. as_family a \<noteq> fam) rows"
  by (induction new rows rule: add_new_rows.induct) auto

lemma leaves_add: "leaves_others fam (add_assignments fam i ms who)"
  by (rule leaves_othersI) (simp add: add_assignments_def Let_def others_def add_new_rows_others)

lemma leaves_remove: "leaves_others fam (remove_assignment fam i m)"
  by (rule leaves_othersI)
    (auto simp: remove_assignment_def others_def tbl_delete_def intro!: filter_cong)

lemma leaves_logs: "leaves_others fam (append_event e)" "leaves_others fam (append_audit a)"
  by (rule leaves_othersI, simp add: append_event_def append_audit_def others_def)+

lemma leaves_find: "leaves_others fam (find_by_id f i)"
  by (rule leaves_othersI) (simp add: find_by_id_def split: option.splits sum.splits)

lemma leaves_lock: "leaves_others fam (lock_by_id f i)"
  unfolding lock_by_id_def using leaves_find by (auto intro!: keeps_intros)

lemma leaves_load: "leaves_others fam (load_in_order f ids)"
proof (rule leaves_othersI)
  fix s
  have "snd (load_in_order f ids s) = s"
    by (induction ids) (auto simp: tx_bind_def split: option.splits sum.splits prod.splits)
  then show "others fam (snd (load_in_order f ids s)) = others fam s" by simp
qed

lemma leaves_list: "leaves_others fam (list_open f q)" "leaves_others fam (list_closed f c)"
  using leaves_load by (auto simp: keeps_def list_open_def list_closed_def)

lemmas leaves = leaves_save [rule_format] leaves_insert [rule_format] leaves_add [rule_format]
  leaves_remove [rule_format] leaves_logs [rule_format] leaves_lock [rule_format]
  leaves_find [rule_format] leaves_list [rule_format]

lemma keeps_Pair: "keeps P (Pair v)"
  by (simp add: keeps_def)

lemmas leaves_intros = keeps_Pair allI keeps_intros leaves

lemma leaves_audits: "leaves_others fam (audit_child_assignment rd i ms view res)"
    "leaves_others fam (audit_page rd v items view)"
  by (auto simp: audit_child_assignment_def audit_page_def intro!: leaves_intros)

lemma leaves_lock_visible: "leaves_others fam (lock_visible_task rd v i e)"
  unfolding lock_visible_task_def Let_def
  by (auto intro!: leaves_intros leaves_audits [rule_format] split: option.splits)

lemma leaves_hand_over: "leaves_others fam (hand_over_head I fam x y)"
  unfolding hand_over_head_def by (auto intro!: leaves_intros)

lemma leaves_spawn: "leaves_others (rd_family rd) (spawn_successor I rd h sid now)"
  unfolding spawn_successor_def Let_def
  by (auto intro!: leaves_intros leaves_hand_over [rule_format] split: option.splits)

lemma leaves_page:
  "(\<And>n. leaves_others fam (fetch n)) \<Longrightarrow> leaves_others fam (page fetch n c)"
  unfolding page_def Let_def by (auto intro!: leaves_intros split: sum.splits)

lemmas leaves_more = leaves_intros leaves_audits [rule_format] leaves_lock_visible [rule_format]
  leaves_spawn [rule_format] leaves_page [rule_format]

fun family_of :: "task_command \<Rightarrow> family_id" where
  "family_of (CreateTask c cid) = c_family c"
| "family_of (UpdateTask rd i e p ns now) = rd_family rd"
| "family_of (CompleteTask rd i e sid now) = rd_family rd"
| "family_of (CancelTask rd i e sc sid now) = rd_family rd"
| "family_of (ReopenTask rd i e now) = rd_family rd"
| "family_of (AssignTask rd i m now) = rd_family rd"
| "family_of (UnassignTask rd i m now) = rd_family rd"
| "family_of (ReportOverdue fam i cid now) = fam"
| "family_of (GetTask rd i) = rd_family rd"
| "family_of (ListOpen rd asg ov lo hi after n) = rd_family rd"
| "family_of (ListHistory rd lo hi after n) = rd_family rd"

lemma leaves_run: "leaves_others (family_of c) (run_task I port c)"
proof (cases c)
  case (CreateTask c cid)
  then show ?thesis by (auto simp: tx_outcome_def create_task_def intro!: leaves_more)
next
  case (UpdateTask rd i e p ns now)
  then show ?thesis
    by (auto simp: tx_outcome_def update_task_def Let_def intro!: leaves_more split: prod.splits sum.splits)
next
  case (CompleteTask rd i e sid now)
  then show ?thesis
    by (auto simp: tx_outcome_def complete_task_def Let_def intro!: leaves_more split: prod.splits sum.splits)
next
  case (CancelTask rd i e sc sid now)
  then show ?thesis
    by (auto simp: tx_outcome_def cancel_task_def Let_def intro!: leaves_more split: prod.splits sum.splits)
next
  case (ReopenTask rd i e now)
  then show ?thesis
    by (auto simp: tx_outcome_def reopen_task_def Let_def intro!: leaves_more split: prod.splits sum.splits)
next
  case (AssignTask rd i m now)
  then show ?thesis
    by (auto simp: tx_outcome_def assign_task_def Let_def intro!: leaves_more
        split: prod.splits sum.splits bool.splits)
next
  case (UnassignTask rd i m now)
  then show ?thesis
    by (auto simp: tx_outcome_def unassign_task_def Let_def intro!: leaves_more
        split: prod.splits sum.splits bool.splits)
next
  case (ReportOverdue fam i cid now)
  then show ?thesis
    by (auto simp: report_overdue_def Let_def intro!: leaves_more split: option.splits)
next
  case (GetTask rd i)
  then show ?thesis
    by (auto simp: tx_outcome_def get_task_def Let_def intro!: leaves_more split: option.splits)
next
  case (ListOpen rd asg ov lo hi after n)
  then show ?thesis
    by (auto simp: tx_outcome_def list_open_tasks_def Let_def intro!: leaves_more split: option.splits)
next
  case (ListHistory rd lo hi after n)
  then show ?thesis
    by (auto simp: tx_outcome_def list_task_history_def Let_def intro!: leaves_more split: option.splits)
qed

text \<open>
  No command or query ever changes, adds or removes a task or an assignment of another
  family than the one it runs for, from whatever state and whatever it returns.
\<close>

theorem other_families_untouched:
  "let s' = snd (run_task I port c s) in
     filter (\<lambda>r. tr_family r \<noteq> family_of c) (task_rows s') = filter (\<lambda>r. tr_family r \<noteq> family_of c) (task_rows s)
     \<and> filter (\<lambda>a. as_family a \<noteq> family_of c) (assignment_rows s')
         = filter (\<lambda>a. as_family a \<noteq> family_of c) (assignment_rows s)"
  using leaves_run [of c I port] by (simp add: keeps_def others_def Let_def)

end
