(* ===== verification/Task_Race.thy ===== *)
theory Task_Race
  imports Task_Access
begin

text \<open>
  Several members deciding on the same task from the same page: an abstract account of
  optimistic concurrency, and its instance at the closing and reopening commands.
\<close>

section \<open>Optimistic concurrency\<close>

text \<open>
  A command names the version it was decided on. Where that is not the version of the thing it
  loses and changes nothing; where it is, it wins and raises the version, or fails and leaves it.
\<close>

locale optimistic =
  fixes version :: "'s \<Rightarrow> int option"
    and run :: "'c \<Rightarrow> 's \<Rightarrow> 'r \<times> 's"
    and expected :: "'c \<Rightarrow> int"
    and won :: "'r \<Rightarrow> bool"
    and ready :: "'s \<Rightarrow> 'c list \<Rightarrow> bool"
  assumes loses: "ready s (c # cs) \<Longrightarrow> version s \<noteq> Some (expected c) \<Longrightarrow>
      \<not> won (fst (run c s)) \<and> version (snd (run c s)) = version s"
    and wins: "ready s (c # cs) \<Longrightarrow> version s = Some (expected c) \<Longrightarrow>
      version (snd (run c s)) = (if won (fst (run c s)) then Some (expected c + 1) else version s)"
    and goes_on: "ready s (c # cs) \<Longrightarrow> ready (snd (run c s)) cs"
begin

fun race :: "'c list \<Rightarrow> 's \<Rightarrow> 'r list \<times> 's" where
  "race [] s = ([], s)"
| "race (c # cs) s =
     (case run c s of (r, s') \<Rightarrow> (case race cs s' of (rs, s'') \<Rightarrow> (r # rs, s'')))"

lemma race_Cons:
  "fst (race (c # cs) s) = fst (run c s) # fst (race cs (snd (run c s)))"
  "snd (race (c # cs) s) = snd (race cs (snd (run c s)))"
  by (simp_all split: prod.splits)

lemma all_lose:
  assumes "ready s cs" "\<forall>c \<in> set cs. version s \<noteq> Some (expected c)"
  shows "filter won (fst (race cs s)) = [] \<and> version (snd (race cs s)) = version s"
  using assms
proof (induction cs arbitrary: s)
  case (Cons c cs)
  then have c: "\<not> won (fst (run c s))" "version (snd (run c s)) = version s"
    using loses [OF Cons.prems(1)] by simp_all
  with Cons.IH [of "snd (run c s)"] goes_on [OF Cons.prems(1)] Cons.prems(2) show ?case
    by (simp add: race_Cons del: race.simps)
qed simp

lemma one_winner:
  assumes "ready s cs" "\<forall>c \<in> set cs. expected c = v"
  shows "length (filter won (fst (race cs s))) \<le> 1
    \<and> version (snd (race cs s)) = (if filter won (fst (race cs s)) = [] then version s else Some (v + 1))"
  using assms
proof (induction cs arbitrary: s)
  case (Cons c cs)
  let ?s = "snd (run c s)"
  have n: "ready ?s cs" by (rule goes_on [OF Cons.prems(1)])
  have c: "expected c = v" using Cons.prems(2) by simp
  show ?case
  proof (cases "won (fst (run c s))")
    case True
    then have "version ?s = Some (v + 1)" using loses [OF Cons.prems(1)] wins [OF Cons.prems(1)] c by auto
    moreover have "filter won (fst (race cs ?s)) = [] \<and> version (snd (race cs ?s)) = version ?s"
      using calculation Cons.prems(2) by (intro all_lose [OF n]) simp
    ultimately show ?thesis using True by (simp add: race_Cons del: race.simps)
  next
    case False
    have "version ?s = version s"
      using False loses [OF Cons.prems(1)] wins [OF Cons.prems(1)] by (cases "version s = Some (expected c)") auto
    with Cons.IH [OF n] Cons.prems(2) False show ?thesis by (simp add: race_Cons del: race.simps)
  qed
qed simp

end

section \<open>Decisions about a task\<close>

definition row_version :: "family_id \<Rightarrow> task_id \<Rightarrow> task_store \<Rightarrow> int option" where
  "row_version fam i s = map_option tr_version (scoped_row fam i s)"

text \<open>The commands that decide: completing, cancelling and reopening; and the id they may use.\<close>

fun decision :: "task_command \<Rightarrow> bool" where
  "decision (CompleteTask rd i e sid now) \<longleftrightarrow> True"
| "decision (CancelTask rd i e sc sid now) \<longleftrightarrow> True"
| "decision (ReopenTask rd i e now) \<longleftrightarrow> True"
| "decision _ \<longleftrightarrow> False"

fun new_id :: "task_command \<Rightarrow> task_id option" where
  "new_id (CompleteTask rd i e sid now) = Some sid"
| "new_id (CancelTask rd i e sc sid now) = Some sid"
| "new_id _ = None"

definition concerns :: "family_id \<Rightarrow> task_id \<Rightarrow> task_command \<Rightarrow> bool" where
  "concerns fam i c \<longleftrightarrow>
     decision c \<and> (case target c of Some (rd, j) \<Rightarrow> rd_family rd = fam \<and> j = i | None \<Rightarrow> False)"

text \<open>What a decision does to the version and to the ids in use.\<close>

definition decided ::
  "intl \<Rightarrow> family_id \<Rightarrow> task_id \<Rightarrow> int \<Rightarrow> task_id option \<Rightarrow> task_store \<Rightarrow> unit outcome \<Rightarrow> task_store \<Rightarrow> bool"
where
  "decided I fam i e new s r s' \<longleftrightarrow>
     task_db I s' \<and> (\<forall>j. fresh_task s j \<and> new \<noteq> Some j \<longrightarrow> fresh_task s' j)
     \<and> (case r of
          Inr _ \<Rightarrow> row_version fam i s = Some e \<and> row_version fam i s' = Some (e + 1)
        | Inl _ \<Rightarrow> row_version fam i s' = row_version fam i s)"

lemma row_stored_version:
  "row_stored I s t \<Longrightarrow> row_version (t_family t) (t_id t) s = Some (t_version t)"
  by (auto simp: row_stored_def row_version_def row_of_sel)

lemma row_version_logs [simp]:
  "row_version fam i (denied rd j view ms s) = row_version fam i s"
  by (simp add: row_version_def scoped_row_def denied_def)

lemma fresh_denied [simp]: "fresh_task (denied rd j view ms s) i = fresh_task s i"
  by (simp add: fresh_task_def denied_def)

lemma decided_typed_error:
  "task_db I s \<Longrightarrow> decided I fam i e new s (Inl d) s"
  "task_db I s \<Longrightarrow> decided I fam i e new s (Inl d) (denied rd j view ms s)"
  by (simp_all add: decided_def)

lemma fresh_spawned:
  "fresh_task (spawned I rd h x s) j \<longleftrightarrow> fresh_task s j \<and> t_id x \<noteq> j"
proof -
  have "fresh_task (spawned I rd h x s) j = fresh_task (inserted I x (saved I (relinquish_head h) s)) j"
    by (simp add: spawned_def Let_def fresh_task_def)
  also have "\<dots> = (fresh_task (saved I (relinquish_head h) s) j \<and> t_id x \<noteq> j)"
    by (auto simp: fresh_task_def new_row_def)
  finally show ?thesis by simp
qed

lemma close_decided:
  fixes ev :: "task \<Rightarrow> outbox_event"
  assumes db: "task_db I s" and st: "stored I s t" and t: "touched t t'" "t_family t = rd_family rd"
    and a: "t_assignees t' = t_assignees t" and fresh: "fresh_task s sid"
    and v: "t_version t' = t_version t + 1"
  shows "\<exists>r s'. catch_rollback (in_transaction (close_body I rd sid now skip (ev t') t')) s = (r, s')
    \<and> (case r of Inr x \<Rightarrow> decided I (rd_family rd) (t_id t) (t_version t) (Some sid) s (map_result x (\<lambda>_. ())) s'
       | Inl _ \<Rightarrow> False)"
proof -
  let ?fam = "rd_family rd" and ?i = "t_id t"
  let ?s1 = "event_added (ev t') (saved I t' s)"
  note cb = close_body_result [OF db st t a fresh, where ev = "ev t'"]
  have i: "t_id t' = ?i" "t_family t' = ?fam" using touched_sel(1,2) [OF t(1)] t(2) by simp_all
  have v0: "row_version ?fam ?i s = Some (t_version t)"
    using row_stored_version [of I s t] st t(2) by (simp add: stored_def)
  have v1: "row_version ?fam ?i ?s1 = Some (t_version t + 1)"
    using row_stored_version [OF cb(3)] v i by simp
  have plain: "decided I ?fam ?i (t_version t) (Some sid) s (Inr ()) ?s1"
    using cb(2) v0 v1 by (simp add: decided_def)
  show ?thesis
  proof (cases skip)
    case True
    then show ?thesis using cb(1) [of skip now] plain by (simp add: map_result_def)
  next
    case False
    show ?thesis
    proof (cases "successor_due_of I t' now")
      case (Inl e)
      then show ?thesis using cb(1) [of skip now] False db
        by (simp add: map_result_def decided_typed_error)
    next
      case (Inr od)
      show ?thesis
      proof (cases od)
        case None
        then show ?thesis using cb(1) [of skip now] False Inr plain by (simp add: map_result_def)
      next
        case (Some d)
        let ?x = "successor_of sid t' d (Some (rd_member rd)) now"
        let ?s = "spawned I rd t' ?x ?s1"
        have c: "close_body I rd sid now skip (ev t') t' s = (Inr (Inr (relinquish_head t', Some ?x)), ?s)"
          "task_db I ?s" "row_stored I ?s (relinquish_head t')"
          using cb(1) [of skip now] False Inr Some by (simp_all add: Let_def)
        have "row_version ?fam ?i ?s = Some (t_version t + 1)"
          using row_stored_version [OF c(3)] v i by (simp add: relinquish_head_def)
        then have "decided I ?fam ?i (t_version t) (Some sid) s (Inr ()) ?s"
          using c(2) v0 by (simp add: decided_def fresh_spawned) (simp add: successor_of_def)
        then show ?thesis using c(1) by (simp add: map_result_def)
      qed
    qed
  qed
qed

lemma guarded_decided:
  assumes db: "task_db I s"
    and locked: "\<And>t. stored I s t \<Longrightarrow> t_id t = i \<Longrightarrow> t_family t = rd_family rd \<Longrightarrow> e = t_version t \<Longrightarrow>
      \<exists>r s'. catch_rollback (in_transaction (f t)) s = (r, s')
        \<and> (case r of Inr x \<Rightarrow> decided I (rd_family rd) i e new s (map_result x (\<lambda>_. ())) s' | Inl _ \<Rightarrow> False)"
  shows "\<exists>r s'. tx_outcome (catch_rollback (in_transaction (guarded rd v i (Some e) f))) s = (Inr r, s')
    \<and> decided I (rd_family rd) i e new s r s'"
  using db
proof (cases rule: guarded_cases [where rd = rd and v = v and i = i and e = "Some e" and f = f])
  case (locked t)
  from assms(2) [OF this(1-3)] locked(5) obtain r s' where
    r: "catch_rollback (in_transaction (f t)) s = (r, s')"
    "case r of Inr x \<Rightarrow> decided I (rd_family rd) i e new s (map_result x (\<lambda>_. ())) s' | Inl _ \<Rightarrow> False"
    by auto
  have "catch_rollback (in_transaction (guarded rd v i (Some e) f)) s = (r, s')"
    using r(1) locked(6) by (simp add: catch_rollback_def in_transaction_def)
  then show ?thesis using r(2) by (cases r) (auto simp: tx_outcome_def)
qed (use db in \<open>auto simp: tx_outcome_def map_result_def decided_typed_error\<close>)

lemma lifecycle_version:
  "fst (task_complete t m now) = Inr () \<Longrightarrow> t_version (snd (task_complete t m now)) = t_version t + 1"
  "fst (task_cancel t m now) = Inr () \<Longrightarrow> t_version (snd (task_cancel t m now)) = t_version t + 1"
  "fst (task_reopen t now) = Inr () \<Longrightarrow> t_version (snd (task_reopen t now)) = t_version t + 1"
  by (auto simp: task_complete_def task_cancel_def task_reopen_def refuse_def commit_def
      split: task_state.splits if_splits)

lemma closing_decided:
  fixes f :: "task \<Rightarrow> unit outcome \<times> task" and ev :: "task \<Rightarrow> outbox_event"
  assumes db: "task_db I s" and fresh: "fresh_task s sid"
    and f: "\<And>t. task_inv t \<Longrightarrow> touched t (snd (f t))" "\<And>t. t_assignees (snd (f t)) = t_assignees t"
      "\<And>t. fst (f t) = Inr () \<Longrightarrow> t_version (snd (f t)) = t_version t + 1"
  shows "\<exists>r s'. tx_outcome (catch_rollback (in_transaction (guarded rd v i (Some e)
      (\<lambda>t. case f t of (Inl e, _) \<Rightarrow> tx_return (Inl e)
         | (Inr u, t') \<Rightarrow> close_body I rd sid now skip (ev t') t')))) s = (Inr r, s')
    \<and> decided I (rd_family rd) i e (Some sid) s r s'"
proof (rule guarded_decided [OF db])
  fix t assume t: "stored I s t" "t_id t = i" "t_family t = rd_family rd" "e = t_version t"
  obtain r t' where r: "f t = (r, t')" by (cases "f t")
  show "\<exists>r s'. catch_rollback (in_transaction (case f t of (Inl e, _) \<Rightarrow> tx_return (Inl e)
         | (Inr u, t') \<Rightarrow> close_body I rd sid now skip (ev t') t')) s = (r, s')
    \<and> (case r of Inr x \<Rightarrow> decided I (rd_family rd) i e (Some sid) s (map_result x (\<lambda>_. ())) s' | Inl _ \<Rightarrow> False)"
  proof (cases r)
    case (Inl d)
    then show ?thesis using r db by (simp add: map_result_def decided_typed_error)
  next
    case (Inr u)
    have "touched t t'" "t_assignees t' = t_assignees t" "t_version t' = t_version t + 1"
      using f(1) [of t] f(2,3) [of t] r Inr t(1) by (simp_all add: stored_def)
    from close_decided [OF db t(1) this(1) t(3) this(2) fresh this(3), of now skip ev] Inr
    show ?thesis unfolding t(4) t(2) [symmetric] by (simp add: r)
  qed
qed

lemma reopen_decided:
  assumes db: "task_db I s"
  shows "\<exists>r s'. tx_outcome (reopen_task I port rd i e now) s = (Inr r, s')
    \<and> decided I (rd_family rd) i e None s r s'"
proof -
  let ?b = "\<lambda>t. case task_reopen t now of (Inl e, _) \<Rightarrow> tx_return (Inl e)
      | (Inr _, t') \<Rightarrow> tx_bind (save_task I (rd_family rd) t') (\<lambda>_.
          tx_bind (append_event (task_updated_event (rd_family rd) (t_id t') [Status] (rd_correlation rd)))
            (\<lambda>_. tx_return (Inr t')))"
  let ?g = "guarded rd (resolve_visibility port rd) i (Some e) ?b"
  have "\<exists>r s'. catch_rollback (in_transaction (?b t)) s = (r, s')
      \<and> (case r of Inr x \<Rightarrow> decided I (rd_family rd) i e None s (map_result x (\<lambda>_. ())) s' | Inl _ \<Rightarrow> False)"
    if t: "stored I s t" "t_id t = i" "t_family t = rd_family rd" "e = t_version t" for t
  proof -
    obtain r t' where r: "task_reopen t now = (r, t')" by (cases "task_reopen t now")
    have tt: "touched t t'" using lifecycle_touched(2) [of t now] t(1) r by (simp add: stored_def)
    note sv = save_touched [OF db t(1) tt]
    show ?thesis
    proof (cases r)
      case (Inl d)
      then show ?thesis using r db by (simp add: map_result_def decided_typed_error)
    next
      case (Inr u)
      have v: "t_version t' = t_version t + 1" using lifecycle_version(3) [of t now] r Inr by simp
      have "row_version (rd_family rd) i s = Some e"
        using row_stored_version [of I s t] t by (simp add: stored_def)
      moreover have "row_version (rd_family rd) i (saved I t' s) = Some (e + 1)"
        using row_stored_version [OF sv(3)] sv(4,5) t v by simp
      moreover have "row_version (rd_family rd) i (event_added ev (saved I t' s))
          = row_version (rd_family rd) i (saved I t' s)" for ev
        by (simp add: row_version_def scoped_row_def)
      ultimately show ?thesis using sv(1,2) r Inr t(3)
        by (simp add: map_result_def decided_def)
    qed
  qed
  from guarded_decided [OF db, where rd = rd and i = i and e = e and new = None and f = ?b
      and v = "resolve_visibility port rd", OF this]
  obtain r s' where g: "tx_outcome (catch_rollback (in_transaction ?g)) s = (Inr r, s')"
    "decided I (rd_family rd) i e None s r s'" by blast
  have "returns (in_transaction ?g) s (\<lambda>_ _. True)"
    using reopen_returns [OF db, of port rd i e now]
    unfolding reopen_task_def Let_def guarded_def [symmetric] by (auto simp: returns_def)
  then have "tx_outcome (in_transaction ?g) s = tx_outcome (catch_rollback (in_transaction ?g)) s"
    by (auto simp: returns_def tx_outcome_def)
  with g show ?thesis
    unfolding reopen_task_def Let_def guarded_def [symmetric] by auto
qed

lemma decision_decided:
  assumes db: "task_db I s" and c: "concerns fam i c" and new: "\<forall>j. new_id c = Some j \<longrightarrow> fresh_task s j"
  shows "\<exists>r s'. run_task I port c s = (Inr r, s')
    \<and> decided I fam i (the (expects c)) (new_id c) s r s'"
proof (cases c)
  case (CompleteTask rd j e sid now)
  have f: "fresh_task s sid" "rd_family rd = fam" "j = i" using c new by (simp_all add: CompleteTask concerns_def)
  note d = closing_decided [OF db f(1), where rd = rd and i = j and e = e and now = now and skip = False
      and f = "\<lambda>t. task_complete t (rd_member rd) now" and v = "resolve_visibility port rd"
      and ev = "\<lambda>t. task_completed_event (rd_family rd) (t_id t) (rd_member rd) (rd_correlation rd)"]
  show ?thesis using d [OF lifecycle_touched(1)] lifecycle_version(1) f(2,3)
    unfolding CompleteTask run_task.simps close_as_body by simp
next
  case (CancelTask rd j e sc sid now)
  have f: "fresh_task s sid" "rd_family rd = fam" "j = i" using c new by (simp_all add: CancelTask concerns_def)
  note d = closing_decided [OF db f(1), where rd = rd and i = j and e = e and now = now and skip = "sc = Series"
      and f = "\<lambda>t. task_cancel t (rd_member rd) now" and v = "resolve_visibility port rd"
      and ev = "\<lambda>t. task_cancelled_event (rd_family rd) (t_id t) sc (rd_correlation rd)"]
  show ?thesis using d [OF lifecycle_touched(3)] lifecycle_version(2) f(2,3)
    unfolding CancelTask run_task.simps close_as_body by simp
next
  case (ReopenTask rd j e now)
  then show ?thesis using reopen_decided [OF db, of port rd j e now] c by (simp add: concerns_def)
qed (use c in \<open>simp_all add: concerns_def\<close>)

text \<open>Decisions on one task, each with a fresh id for the successor it may create.\<close>

definition new_ids :: "task_command list \<Rightarrow> task_id list" where
  "new_ids cs = List.map_filter new_id cs"

definition contenders :: "intl \<Rightarrow> family_id \<Rightarrow> task_id \<Rightarrow> task_store \<Rightarrow> task_command list \<Rightarrow> bool" where
  "contenders I fam i s cs \<longleftrightarrow>
     task_db I s \<and> (\<forall>c \<in> set cs. concerns fam i c)
     \<and> distinct (new_ids cs) \<and> (\<forall>j \<in> set (new_ids cs). fresh_task s j)"

lemma new_ids_Cons: "new_ids (c # cs) = (case new_id c of None \<Rightarrow> new_ids cs | Some j \<Rightarrow> j # new_ids cs)"
  by (simp add: new_ids_def map_filter_simps split: option.splits)

lemma contenders_Cons:
  assumes "contenders I fam i s (c # cs)"
  obtains r s' where "run_task I port c s = (Inr r, s')"
    "decided I fam i (the (expects c)) (new_id c) s r s'" "contenders I fam i s' cs"
proof -
  have db: "task_db I s" and c: "concerns fam i c" and new: "\<forall>j. new_id c = Some j \<longrightarrow> fresh_task s j"
    using assms by (auto simp: contenders_def new_ids_Cons)
  obtain r s' where r: "run_task I port c s = (Inr r, s')"
    "decided I fam i (the (expects c)) (new_id c) s r s'"
    using decision_decided [OF db c new, of port] by blast
  have "new_id c \<noteq> Some j" if "j \<in> set (new_ids cs)" for j
    using that assms by (auto simp: contenders_def new_ids_Cons)
  then have "contenders I fam i s' cs"
    using r(2) assms by (auto simp: contenders_def decided_def new_ids_Cons split: option.splits)
  with r show thesis by (rule that)
qed

interpretation deciding: optimistic "row_version fam i" "run_task I port" "\<lambda>c. the (expects c)"
  "\<lambda>r. r = Inr (Inr ())" "contenders I fam i"
  for fam i I port
proof unfold_locales
  fix s c cs
  assume a: "contenders I fam i s (c # cs)"
  obtain r s' where r: "run_task I port c s = (Inr r, s')"
    "decided I fam i (the (expects c)) (new_id c) s r s'" "contenders I fam i s' cs"
    using a by (rule contenders_Cons [where port = port])
  show "contenders I fam i (snd (run_task I port c s)) cs" using r by simp
  show "fst (run_task I port c s) \<noteq> Inr (Inr ()) \<and>
      row_version fam i (snd (run_task I port c s)) = row_version fam i s"
    if "row_version fam i s \<noteq> Some (the (expects c))"
    using r that by (cases r) (auto simp: decided_def)
  show "row_version fam i (snd (run_task I port c s)) =
      (if fst (run_task I port c s) = Inr (Inr ()) then Some (the (expects c) + 1) else row_version fam i s)"
    if "row_version fam i s = Some (the (expects c))"
    using r that by (cases r) (auto simp: decided_def)
qed

text \<open>The outcomes of commands run one after the other, as the row lock serialises them.\<close>

fun run_all :: "intl \<Rightarrow> visibility_port \<Rightarrow> task_command list \<Rightarrow> task_store
  \<Rightarrow> (exn + unit outcome) list \<times> task_store" where
  "run_all I port [] s = ([], s)"
| "run_all I port (c # cs) s =
     (case run_task I port c s of (r, s') \<Rightarrow> (case run_all I port cs s' of (rs, s'') \<Rightarrow> (r # rs, s'')))"

lemma run_all_race: "run_all I port cs s = deciding.race I port cs s"
  by (induction cs arbitrary: s) (auto split: prod.splits)

text \<open>
  C11: When any number of members complete, cancel or reopen the same task from the same version
  of it, at most one of them succeeds, whatever the order the database takes them in, and the
  version goes up by one if one did and stays if none did.
\<close>

theorem one_decision_per_version:
  assumes "task_db I s" "\<forall>c \<in> set cs. concerns fam i c \<and> expects c = Some v"
    and "distinct (new_ids cs)" "\<forall>j \<in> set (new_ids cs). fresh_task s j"
    and "run_all I port cs s = (rs, s')"
  shows "length (filter (\<lambda>r. r = Inr (Inr ())) rs) \<le> 1
    \<and> row_version fam i s' = (if Inr (Inr ()) \<in> set rs then Some (v + 1) else row_version fam i s)"
proof -
  have "contenders I fam i s cs" using assms(1-4) by (simp add: contenders_def)
  from deciding.one_winner [OF this, of v port] assms(2,5) show ?thesis
    unfolding run_all_race by (auto simp: filter_empty_conv)
qed

lemma one_decision_per_version_witness:
  "length (filter (\<lambda>r. r = Inr (Inr ())) (fst (run_all london_intl home_port
     [CompleteTask mum_reads (TaskId ''t1'') 1 (TaskId ''t2'') 1789599600000,
      CancelTask mum_reads (TaskId ''t1'') 1 Instance (TaskId ''t3'') 1789599600000] home))) \<le> 1"
proof -
  let ?cs = "[CompleteTask mum_reads (TaskId ''t1'') 1 (TaskId ''t2'') 1789599600000,
      CancelTask mum_reads (TaskId ''t1'') 1 Instance (TaskId ''t3'') 1789599600000]"
  obtain rs s' where r: "run_all london_intl home_port ?cs home = (rs, s')" by fastforce
  have "\<forall>c \<in> set ?cs. concerns fam_f (TaskId ''t1'') c \<and> expects c = Some 1"
    "distinct (new_ids ?cs)" "\<forall>j \<in> set (new_ids ?cs). fresh_task home j"
    by (simp_all add: concerns_def new_ids_Cons) (simp_all add: new_ids_def map_filter_simps
        fresh_task_def home_rows new_row_def chore_fields_home)
  from one_decision_per_version [OF home_db this r] r show ?thesis by simp
qed

section \<open>Assignees of another family\<close>

text \<open>
  A creation with an assignee outside the family is refused with \<open>AssigneeInvalid\<close>, and so
  is assigning one to a task the member may see; either way nothing is stored, not even the
  task, and no event is published.
\<close>

theorem foreign_assignee_refused:
  assumes "task_db I s"
  shows "(task_create c = Inr t \<and> fresh_params s c \<and> storable_params c
      \<and> \<not> (\<forall>m \<in> set (c_assignees c). (m, c_family c) \<in> set (db_members s)) \<longrightarrow>
      create_task I c cid s = (Inr (Inl AssigneeInvalid), s))
    \<and> (stored I s u \<and> t_family u = rd_family rd \<and> is_open u
      \<and> hidden_assignees (t_assignees u) (resolve_visibility port rd) = []
      \<and> (m, rd_family rd) \<notin> set (db_members s) \<longrightarrow>
      assign_task I port rd (t_id u) m now s = (Inr (Inl AssigneeInvalid), s))"
proof (rule conjI)
  show "task_create c = Inr t \<and> fresh_params s c \<and> storable_params c
      \<and> \<not> (\<forall>m \<in> set (c_assignees c). (m, c_family c) \<in> set (db_members s)) \<longrightarrow>
      create_task I c cid s = (Inr (Inl AssigneeInvalid), s)"
    using create_result(2) [OF assms] by (simp add: create_as_body)
  show "stored I s u \<and> t_family u = rd_family rd \<and> is_open u
      \<and> hidden_assignees (t_assignees u) (resolve_visibility port rd) = []
      \<and> (m, rd_family rd) \<notin> set (db_members s) \<longrightarrow>
      assign_task I port rd (t_id u) m now s = (Inr (Inl AssigneeInvalid), s)"
  proof
    assume a: "stored I s u \<and> t_family u = rd_family rd \<and> is_open u
      \<and> hidden_assignees (t_assignees u) (resolve_visibility port rd) = []
      \<and> (m, rd_family rd) \<notin> set (db_members s)"
    then have "guarded rd (resolve_visibility port rd) (t_id u) None (assign_body I rd m now) s
        = assign_body I rd m now u s"
      using lock_stored [OF assms, of u rd "resolve_visibility port rd" None]
      by (simp add: guarded_def)
    with assign_foreign [OF assms, of u rd m now] a show
      "assign_task I port rd (t_id u) m now s = (Inr (Inl AssigneeInvalid), s)"
      by (simp add: assign_as_body)
  qed
qed

lemma foreign_assignee_refused_witness:
  "assign_task london_intl home_port mum_reads (TaskId ''t1'') (MemberId ''m9'') 0 home
    = (Inr (Inl AssigneeInvalid), home)"
  using foreign_assignee_refused [OF home_db, THEN conjunct2, of chore mum_reads home_port
      "MemberId ''m9''" 0] chore_stored chore_visibility(1)
  by (simp add: chore_fields_home home_rows) (simp add: home_defs)

end
