(* ===== verification/Task_Lists.thy ===== *)
theory Task_Lists
  imports Task_Race
begin

text \<open>
  The lists of tasks: an abstract account of reading a list page by page from the position of
  the last item, its instances at the open list and the history, and what they give of the
  queries: every matching task once and in order, none the reader may not see, and an audit
  entry for every child assignment shown.
\<close>

section \<open>Pages by position\<close>

text \<open>
  A list in some order, and positions such that the items after the position of an item are
  the rest of the list.
\<close>

locale keyset =
  fixes rows :: "'r list" and after :: "'c \<Rightarrow> 'r \<Rightarrow> bool" and pos :: "'r \<Rightarrow> 'c"
  assumes after_pos: "k < length rows \<Longrightarrow> filter (after (pos (rows ! k))) rows = drop (Suc k) rows"
begin

definition rest :: "'c option \<Rightarrow> 'r list" where
  "rest c = (case c of None \<Rightarrow> rows | Some x \<Rightarrow> filter (after x) rows)"

lemma rest_subset: "set (rest c) \<subseteq> set rows"
  by (auto simp: rest_def split: option.splits)

fun walk :: "nat \<Rightarrow> nat \<Rightarrow> 'c option \<Rightarrow> 'r list list" where
  "walk 0 n c = []"
| "walk (Suc k) n c =
     (let xs = take (n + 1) (rest c); items = take n xs in
      items # (if length xs > n \<and> items \<noteq> [] then walk k n (Some (pos (last items))) else []))"

lemma walk_drop:
  assumes "0 < n" "rest c = drop j rows" "length rows - j \<le> k * n"
  shows "concat (walk k n c) = drop j rows"
  using assms(2,3)
proof (induction k arbitrary: c j)
  case (Suc k)
  let ?d = "drop j rows"
  have w: "concat (walk (Suc k) n c) = take n ?d @ (if length ?d > n \<and> take n ?d \<noteq> []
      then concat (walk k n (Some (pos (last (take n ?d))))) else [])"
    using Suc.prems(1) by (simp add: Let_def min_def)
  show ?case
  proof (cases "length ?d > n")
    case True
    then have l: "j + n < length rows" by simp
    have ne: "take n ?d \<noteq> []" using True assms(1) by auto
    then have "last (take n ?d) = rows ! (j + n - 1)"
      using l assms(1) by (simp add: last_conv_nth min_def)
    moreover have "rest (Some (pos (rows ! (j + n - 1)))) = drop (j + n) rows"
      using after_pos [of "j + n - 1"] l assms(1) by (simp add: rest_def)
    ultimately have "concat (walk k n (Some (pos (last (take n ?d))))) = drop (j + n) rows"
      using Suc.IH [of "Some (pos (last (take n ?d)))" "j + n"] Suc.prems(2) by simp
    also have "\<dots> = drop n ?d" by (simp add: add.commute)
    finally have c: "concat (walk k n (Some (pos (last (take n ?d))))) = drop n ?d" .
    have "(length ?d > n \<and> take n ?d \<noteq> []) = True" using True ne by simp
    then show ?thesis unfolding w c by (simp only: if_True append_take_drop_id)
  next
    case False
    then show ?thesis unfolding w by simp
  qed
qed simp

lemma pages_are_all: "0 < n \<Longrightarrow> length rows \<le> k * n \<Longrightarrow> concat (walk k n None) = rows"
  using walk_drop [of n None 0 k] by (simp add: rest_def)

lemma rest_is_suffix: "c = None \<or> (\<exists>r \<in> set rows. c = Some (pos r)) \<Longrightarrow> \<exists>j. rest c = drop j rows"
proof (elim disjE bexE)
  assume "c = None"
  then show ?thesis by (intro exI [of _ 0]) (simp add: rest_def)
next
  fix r assume "r \<in> set rows" "c = Some (pos r)"
  then show ?thesis using after_pos by (auto simp: rest_def in_set_conv_nth)
qed

end

text \<open>A strict order gives such positions.\<close>

lemma filter_after_sorted:
  assumes "sorted_wrt (\<lambda>a b. after (pos a) b \<and> \<not> after (pos b) a) rows"
    and "\<And>r. r \<in> set rows \<Longrightarrow> \<not> after (pos r) r" and "k < length rows"
  shows "filter (after (pos (rows ! k))) rows = drop (Suc k) rows"
proof -
  let ?x = "rows ! k"
  have e: "rows = take k rows @ ?x # drop (Suc k) rows" by (rule id_take_nth_drop [OF assms(3)])
  have "\<forall>a \<in> set (take k rows). \<not> after (pos ?x) a" "\<forall>b \<in> set (drop (Suc k) rows). after (pos ?x) b"
    using assms(1) by (subst (asm) e, simp add: sorted_wrt_append)+
  moreover have "\<not> after (pos ?x) ?x" using assms(2,3) by simp
  ultimately show ?thesis by (subst (2) e) simp
qed

section \<open>The order of the lists\<close>

definition open_all :: "family_id \<Rightarrow> open_query \<Rightarrow> task_store \<Rightarrow> task_row list" where
  "open_all fam q s = open_order (filter (open_matches fam q s) (task_rows s))"

definition closed_all :: "family_id \<Rightarrow> closed_query \<Rightarrow> task_store \<Rightarrow> task_row list" where
  "closed_all fam q s = closed_order (filter (closed_matches fam q s) (task_rows s))"

definition open_pos :: "task_row \<Rightarrow> open_cursor" where
  "open_pos r = \<lparr>oc_due_at = tr_due_at r, oc_id = tr_id r\<rparr>"

definition closed_pos :: "task_row \<Rightarrow> closed_cursor" where
  "closed_pos r = \<lparr>cc_closed_at = (case tr_closed_at r of None \<Rightarrow> 0 | Some x \<Rightarrow> x), cc_id = tr_id r\<rparr>"

lemma filter_open_order: "filter P (open_order rows) = open_order (filter P rows)"
  by (simp add: open_order_def Let_def filter_sort) (simp add: conj_commute)

lemma filter_closed_order: "filter P (closed_order rows) = closed_order (filter P rows)"
  by (simp add: closed_order_def filter_sort rev_filter [symmetric])

lemma open_rows_rest:
  "open_rows fam q s = take (oq_limit q)
     (case oq_after q of None \<Rightarrow> open_all fam q s | Some c \<Rightarrow> filter (open_after c) (open_all fam q s))"
  by (auto simp: open_rows_def open_all_def filter_open_order conj_commute split: option.splits)

lemma closed_rows_rest:
  "closed_rows fam q s = take (cq_limit q)
     (case cq_after q of None \<Rightarrow> closed_all fam q s | Some c \<Rightarrow> filter (closed_after c) (closed_all fam q s))"
  by (auto simp: closed_rows_def closed_all_def filter_closed_order conj_commute split: option.splits)

lemma distinct_ids: "keys_ok s \<Longrightarrow> distinct (map tr_id (filter P (task_rows s)))"
  by (simp add: keys_ok_def distinct_map_filter)

lemma open_all_sorted:
  assumes "keys_ok s"
  shows "sorted_wrt (\<lambda>a b. open_after (open_pos a) b \<and> \<not> open_after (open_pos b) a) (open_all fam q s)"
proof -
  let ?X = "filter (open_matches fam q s) (task_rows s)"
  let ?f = "\<lambda>r. case tr_due_at r of None \<Rightarrow> 0 | Some d \<Rightarrow> d"
  have d: "distinct (map tr_id (filter P ?X))" for P
    using distinct_ids [OF assms, of "\<lambda>r. open_matches fam q s r \<and> P r"] by simp
  have 1: "sorted_wrt (\<lambda>a b. ?f a < ?f b \<or> ?f a = ?f b \<and> tr_id a < tr_id b)
      (sort_key ?f (sort_key tr_id (filter (\<lambda>r. tr_due_at r \<noteq> None) ?X)))"
    by (rule sort_by_then [OF d])
  have 2: "sorted_wrt (\<lambda>a b. tr_id a < tr_id b) (sort_key tr_id (filter (\<lambda>r. tr_due_at r = None) ?X))"
    using sorted_sort_key [of tr_id] d [of "\<lambda>r. tr_due_at r = None"]
      strict_sorted_iff [of "map tr_id (sort_key tr_id (filter (\<lambda>r. tr_due_at r = None) ?X))"]
    by (simp add: sorted_wrt_map distinct_map)
  show ?thesis
    unfolding open_all_def open_order_def Let_def filter_sort [symmetric] sorted_wrt_append
    unfolding filter_sort
  proof (intro conjI ballI)
    show "sorted_wrt (\<lambda>a b. open_after (open_pos a) b \<and> \<not> open_after (open_pos b) a)
        (sort_key ?f (sort_key tr_id (filter (\<lambda>r. tr_due_at r \<noteq> None) ?X)))"
      by (rule sorted_wrt_mono_rel [OF _ 1]) (auto simp: open_after_def open_pos_def)
    show "sorted_wrt (\<lambda>a b. open_after (open_pos a) b \<and> \<not> open_after (open_pos b) a)
        (sort_key tr_id (filter (\<lambda>r. tr_due_at r = None) ?X))"
      by (rule sorted_wrt_mono_rel [OF _ 2]) (auto simp: open_after_def open_pos_def)
  qed (auto simp: open_after_def open_pos_def)
qed

lemma closed_all_sorted:
  assumes "keys_ok s"
  shows "sorted_wrt (\<lambda>a b. closed_after (closed_pos a) b \<and> \<not> closed_after (closed_pos b) a) (closed_all fam q s)"
proof -
  let ?X = "filter (closed_matches fam q s) (task_rows s)"
  let ?f = "\<lambda>r. case tr_closed_at r of None \<Rightarrow> 0 | Some d \<Rightarrow> d"
  have s: "sorted_wrt (\<lambda>a b. ?f b < ?f a \<or> ?f b = ?f a \<and> tr_id b < tr_id a) (closed_all fam q s)"
    using sort_by_then [OF distinct_ids [OF assms, of "closed_matches fam q s"], of ?f]
    by (simp add: closed_all_def closed_order_def sorted_wrt_rev)
  have c: "\<exists>v. tr_closed_at r = Some v" if "r \<in> set (closed_all fam q s)" for r
    using that by (auto simp: closed_all_def closed_matches_def sql_holds_def split: option.splits)
  show ?thesis
  proof (rule sorted_wrt_mono_rel [OF _ s])
    fix a b
    assume "a \<in> set (closed_all fam q s)" "b \<in> set (closed_all fam q s)"
      "?f b < ?f a \<or> ?f b = ?f a \<and> tr_id b < tr_id a"
    moreover obtain v w where "tr_closed_at a = Some v" "tr_closed_at b = Some w"
      using c [of a] c [of b] calculation by auto
    ultimately show "closed_after (closed_pos a) b \<and> \<not> closed_after (closed_pos b) a"
      by (auto simp: closed_after_def closed_pos_def sql_holds_def)
  qed
qed

text \<open>A table without duplicate ids, as every reachable one is.\<close>

definition sound_rows :: "task_store \<Rightarrow> task_row list \<Rightarrow> task_row list" where
  "sound_rows s rows = (if keys_ok s then rows else [])"

lemma sound: "keys_ok s \<Longrightarrow> sound_rows s rows = rows"
  by (simp add: sound_rows_def)

interpretation open_list: keyset "sound_rows s (open_all fam q s)" open_after open_pos
  for fam q s
proof
  fix k
  assume k: "k < length (sound_rows s (open_all fam q s))"
  then have ok: "keys_ok s" by (simp add: sound_rows_def split: if_splits)
  have "filter (open_after (open_pos (open_all fam q s ! k))) (open_all fam q s)
      = drop (Suc k) (open_all fam q s)"
    by (rule filter_after_sorted [where pos = open_pos and after = open_after, OF open_all_sorted [OF ok]])
      (use k ok in \<open>auto simp: sound_rows_def open_after_def open_pos_def split: option.splits\<close>)
  then show "filter (open_after (open_pos (sound_rows s (open_all fam q s) ! k))) (sound_rows s (open_all fam q s))
      = drop (Suc k) (sound_rows s (open_all fam q s))"
    using ok by (simp add: sound_rows_def)
qed

interpretation history: keyset "sound_rows s (closed_all fam q s)" closed_after closed_pos
  for fam q s
proof
  fix k
  assume k: "k < length (sound_rows s (closed_all fam q s))"
  then have ok: "keys_ok s" by (simp add: sound_rows_def split: if_splits)
  have "filter (closed_after (closed_pos (closed_all fam q s ! k))) (closed_all fam q s)
      = drop (Suc k) (closed_all fam q s)"
    by (rule filter_after_sorted [where pos = closed_pos and after = closed_after, OF closed_all_sorted [OF ok]])
      (use k ok in \<open>auto simp: sound_rows_def closed_after_def closed_pos_def sql_holds_def split: option.splits\<close>)
  then show "filter (closed_after (closed_pos (sound_rows s (closed_all fam q s) ! k))) (sound_rows s (closed_all fam q s))
      = drop (Suc k) (sound_rows s (closed_all fam q s))"
    using ok by (simp add: sound_rows_def)
qed

section \<open>The queries page by page\<close>

definition open_request ::
  "visibility_port \<Rightarrow> reader \<Rightarrow> member_id option \<Rightarrow> int option \<Rightarrow> bound \<Rightarrow> bound \<Rightarrow> open_cursor option \<Rightarrow> nat \<Rightarrow> open_query"
where
  "open_request port rd asg ov lo hi after n =
     \<lparr>oq_visible = visible_ids (resolve_visibility port rd), oq_assignee = asg, oq_overdue_at = ov,
      oq_due_from = bound_at lo, oq_due_to = bound_at hi, oq_after = after, oq_limit = n\<rparr>"

definition history_request ::
  "visibility_port \<Rightarrow> reader \<Rightarrow> int \<Rightarrow> int \<Rightarrow> closed_cursor option \<Rightarrow> nat \<Rightarrow> closed_query"
where
  "history_request port rd lo hi after n =
     \<lparr>cq_visible = visible_ids (resolve_visibility port rd), cq_from = lo, cq_to = hi,
      cq_after = after, cq_limit = n\<rparr>"

lemma same_matches:
  "open_all fam (open_request port rd asg ov lo hi a n) s = open_all fam (open_request port rd asg ov lo hi None 0) s"
  "closed_all fam (history_request port rd x y c n) s = closed_all fam (history_request port rd x y None 0) s"
  by (simp_all add: open_all_def closed_all_def open_request_def history_request_def open_matches_def [abs_def]
      closed_matches_def [abs_def])

lemma matches_audited [simp]:
  "open_all fam q (audited es s) = open_all fam q s"
  "closed_all fam c (audited es s) = closed_all fam c s"
  "keys_ok (audited es s) = keys_ok s"
  by (simp_all add: open_all_def closed_all_def open_matches_def [abs_def] closed_matches_def [abs_def]
      visible_only_def audited_def keys_ok_def cong: option.case_cong)

lemma stored_row_of:
  assumes "task_db I s" "stored I s t" "r \<in> set (task_rows s)" "tr_id r = t_id t"
  shows "row_of I t r"
proof -
  obtain x where x: "x \<in> set (task_rows s)" "row_of I t x"
    using assms(2) stored_row [OF assms(1), of t] by (auto simp: stored_def)
  have "x = r" using same_id_same_row [OF _ x(1) assms(3)] assms(1,4) row_of_sel(1) [OF x(2)]
    by (simp add: task_db_def)
  with x show ?thesis by simp
qed

text \<open>A page of aggregates for a list of rows.\<close>

lemma page_of_rows:
  fixes rows :: "task_row list" and n :: nat
  assumes db: "task_db I s" and f: "fetch (n + 1) s = (Inr ts, s)"
    and ids: "map t_id ts = map tr_id (take (n + 1) rows)" "\<forall>t \<in> set ts. stored I s t"
    and rows: "set rows \<subseteq> set (task_rows s)"
    and cur: "\<And>t r. row_of I t r \<Longrightarrow> r \<in> set rows \<Longrightarrow> cursor t = Inr (pos r)"
  shows "\<exists>pg. page fetch n cursor s = (Inr pg, s)
    \<and> map t_id (page_items pg) = map tr_id (take n rows)
    \<and> (\<forall>t \<in> set (page_items pg). stored I s t)
    \<and> page_next pg = (if length rows > n \<and> take n rows \<noteq> [] then Some (pos (last (take n rows))) else None)"
proof -
  have len: "length ts = length (take (n + 1) rows)" using ids(1) by (metis length_map)
  have items: "map t_id (take n ts) = map tr_id (take n rows)"
    using arg_cong [OF ids(1), of "take n"] by (simp add: take_map min_def)
  have st: "\<forall>t \<in> set (take n ts). stored I s t" using ids(2) by (auto dest: in_set_takeD)
  show ?thesis
  proof (cases "length rows > n \<and> take n rows \<noteq> []")
    case True
    have ne: "take n ts \<noteq> []" using True items by (metis map_is_Nil_conv)
    let ?t = "last (take n ts)" and ?r = "last (take n rows)"
    have id: "t_id ?t = tr_id ?r" using items True ne by (metis last_map)
    have r: "?r \<in> set rows" using True last_in_set in_set_takeD by fast
    have "stored I s ?t" using st ne by (meson last_in_set)
    from stored_row_of [OF db this _ id [symmetric]] r rows have "cursor ?t = Inr (pos ?r)"
      by (intro cur) auto
    then show ?thesis using True ne f items st len by (simp add: page_def Let_def)
  next
    case False
    then have "\<not> (length ts > n \<and> take n ts \<noteq> [])"
      using len items by (auto simp: min_def split: if_splits)
    then show ?thesis using False f items st by (auto simp: page_def Let_def)
  qed
qed

text \<open>The audit entries of a page: one per assignee the reader sees as a guardian.\<close>

definition page_audits :: "reader \<Rightarrow> visibility \<Rightarrow> string \<Rightarrow> task list \<Rightarrow> audit_entry list" where
  "page_audits rd v view items =
     concat (map (\<lambda>t. map (assignment_audit rd (t_id t) view Granted)
       (guarded_child_assignees (t_assignees t) v)) items)"

lemma audit_page_is: "audit_page rd v items view s = (Inr (), audited (page_audits rd v view items) s)"
  by (induction items arbitrary: s)
    (simp_all add: audit_page_def page_audits_def audit_children_audited tx_bind_def)

text \<open>What a page is of the rest of a list that is read from a position.\<close>

definition page_of :: "(task_row \<Rightarrow> 'c) \<Rightarrow> task_row list \<Rightarrow> nat \<Rightarrow> intl \<Rightarrow> task_store \<Rightarrow> 'c task_page \<Rightarrow> bool" where
  "page_of pos xs n I s pg \<longleftrightarrow>
     map t_id (page_items pg) = map tr_id (take n xs) \<and> (\<forall>t \<in> set (page_items pg). stored I s t)
     \<and> page_next pg = (if length xs > n \<and> take n xs \<noteq> [] then Some (pos (last (take n xs))) else None)"

lemma list_open_page:
  fixes limit :: "int option" and port :: visibility_port and rd :: reader
    and asg :: "member_id option" and ov :: "int option" and lo hi :: bound
  assumes db: "task_db I s" and range: "check_range lo hi = None"
  defines "q \<equiv> open_request port rd asg ov lo hi None 0"
  shows "\<exists>pg. list_open_tasks I port rd asg ov lo hi c limit s = (Inr (Inr pg),
      audited (page_audits rd (resolve_visibility port rd) ''task list'' (page_items pg)) s)
    \<and> page_of open_pos (open_list.rest s (rd_family rd) q c) (page_size limit) I s pg"
proof -
  let ?fam = "rd_family rd" and ?v = "resolve_visibility port rd"
  let ?rest = "open_list.rest s ?fam q c"
  let ?q = "\<lambda>n. open_request port rd asg ov lo hi c n"
  have k: "keys_ok s" using db by (simp add: task_db_def)
  have take: "open_rows ?fam (?q n) s = take n ?rest" for n
  proof -
    have "?rest = (case c of None \<Rightarrow> open_all ?fam q s | Some x \<Rightarrow> filter (open_after x) (open_all ?fam q s))"
      by (subst open_list.rest_def) (simp only: sound [OF k])
    moreover have "oq_limit (?q n) = n" "oq_after (?q n) = c" by (simp_all add: open_request_def)
    ultimately show ?thesis
      unfolding open_rows_rest same_matches(1) [of ?fam port rd asg ov lo hi c n s] q_def by simp
  qed
  obtain ts where ts: "list_open ?fam (?q (page_size limit + 1)) s = (Inr ts, s)"
    "map t_id ts = map tr_id (take (page_size limit + 1) ?rest)" "\<forall>t \<in> set ts. stored I s t"
    using list_stored(1) [OF db, of ?fam "?q (page_size limit + 1)"] unfolding take by blast
  have "set ?rest \<subseteq> set (task_rows s)"
    by (rule order_trans [OF open_list.rest_subset]) (auto simp: sound_rows_def open_all_def)
  from page_of_rows [where fetch = "\<lambda>n. list_open ?fam (?q n)", OF db ts this,
      where cursor = "open_position I" and pos = open_pos]
  obtain pg where pg: "page (\<lambda>n. list_open ?fam (?q n)) (page_size limit) (open_position I) s = (Inr pg, s)"
    "page_of open_pos ?rest (page_size limit) I s pg"
    unfolding page_of_def by (auto simp: open_position_def open_pos_def row_of_sel)
  have "list_open_tasks I port rd asg ov lo hi c limit s =
      (Inr (Inr pg), audited (page_audits rd ?v ''task list'' (page_items pg)) s)"
    using pg(1) range
    by (simp add: list_open_tasks_def Let_def open_request_def tx_bind_def audit_page_is)
  with pg(2) show ?thesis by blast
qed

lemma list_history_page:
  fixes limit :: "int option" and port :: visibility_port and rd :: reader and lo hi :: int
  assumes db: "task_db I s" and range: "check_range (At lo) (At hi) = None"
  defines "q \<equiv> history_request port rd lo hi None 0"
  shows "\<exists>pg. list_task_history port rd (Some lo) (Some hi) c limit s = (Inr (Inr pg),
      audited (page_audits rd (resolve_visibility port rd) ''task history'' (page_items pg)) s)
    \<and> page_of closed_pos (history.rest s (rd_family rd) q c) (page_size limit) I s pg"
proof -
  let ?fam = "rd_family rd" and ?v = "resolve_visibility port rd"
  let ?rest = "history.rest s ?fam q c"
  let ?q = "\<lambda>n. history_request port rd lo hi c n"
  have k: "keys_ok s" using db by (simp add: task_db_def)
  have take: "closed_rows ?fam (?q n) s = take n ?rest" for n
  proof -
    have "?rest = (case c of None \<Rightarrow> closed_all ?fam q s | Some x \<Rightarrow> filter (closed_after x) (closed_all ?fam q s))"
      by (subst history.rest_def) (simp only: sound [OF k])
    moreover have "cq_limit (?q n) = n" "cq_after (?q n) = c" by (simp_all add: history_request_def)
    ultimately show ?thesis
      unfolding closed_rows_rest same_matches(2) [of ?fam port rd lo hi c n s] q_def by simp
  qed
  obtain ts where ts: "list_closed ?fam (?q (page_size limit + 1)) s = (Inr ts, s)"
    "map t_id ts = map tr_id (take (page_size limit + 1) ?rest)" "\<forall>t \<in> set ts. stored I s t"
    using list_stored(2) [OF db, of ?fam "?q (page_size limit + 1)"] unfolding take by blast
  have rest: "set ?rest \<subseteq> {r \<in> set (task_rows s). closed_matches ?fam q s r}"
    by (rule order_trans [OF history.rest_subset]) (auto simp: sound_rows_def closed_all_def)
  have cur: "closed_position t = Inr (closed_pos r)" if "row_of I t r" "r \<in> set ?rest" for t r
    using row_of_sel(1,8,10) [OF that(1)] rest that(2)
    by (auto simp: closed_position_def closed_pos_def closed_matches_def status_of_state_def split: task_state.splits)
  have sub: "set ?rest \<subseteq> set (task_rows s)" using rest by auto
  from page_of_rows [where fetch = "\<lambda>n. list_closed ?fam (?q n)", where cursor = closed_position
      and pos = closed_pos, OF db ts sub cur]
  obtain pg where pg: "page (\<lambda>n. list_closed ?fam (?q n)) (page_size limit) closed_position s = (Inr pg, s)"
    "page_of closed_pos ?rest (page_size limit) I s pg"
    unfolding page_of_def by blast
  have "list_task_history port rd (Some lo) (Some hi) c limit s =
      (Inr (Inr pg), audited (page_audits rd ?v ''task history'' (page_items pg)) s)"
    using pg(1) range
    by (simp add: list_task_history_def Let_def history_request_def tx_bind_def audit_page_is date_bound_def)
  with pg(2) show ?thesis by blast
qed

lemma concat_ids: "map (map f) xss = map (map g) yss \<Longrightarrow> map f (concat xss) = map g (concat yss)"
  by (simp only: map_concat)

lemma ordered_ids:
  assumes "distinct (map tr_id rows)"
  shows "distinct (map tr_id (open_order rows))" "distinct (map tr_id (closed_order rows))"
proof -
  have "distinct rows" using assms by (simp add: distinct_map)
  then have "distinct (open_order rows)" "distinct (closed_order rows)"
    by (auto simp: open_order_def closed_order_def Let_def)
  with assms show "distinct (map tr_id (open_order rows))" "distinct (map tr_id (closed_order rows))"
    by (simp_all add: distinct_map)
qed

text \<open>A client that reads page after page, until there is none; the audit log grows as it does.\<close>

fun open_pages ::
  "intl \<Rightarrow> visibility_port \<Rightarrow> reader \<Rightarrow> member_id option \<Rightarrow> int option \<Rightarrow> bound \<Rightarrow> bound \<Rightarrow> int option
     \<Rightarrow> nat \<Rightarrow> open_cursor option \<Rightarrow> task_store \<Rightarrow> task list list"
where
  "open_pages I port rd asg ov lo hi limit 0 c s = []"
| "open_pages I port rd asg ov lo hi limit (Suc k) c s =
     (case list_open_tasks I port rd asg ov lo hi c limit s of
        (Inr (Inr pg), s') \<Rightarrow>
          page_items pg # (case page_next pg of None \<Rightarrow> []
            | next \<Rightarrow> open_pages I port rd asg ov lo hi limit k next s')
      | _ \<Rightarrow> [])"

fun history_pages ::
  "visibility_port \<Rightarrow> reader \<Rightarrow> int \<Rightarrow> int \<Rightarrow> int option \<Rightarrow> nat \<Rightarrow> closed_cursor option \<Rightarrow> task_store
     \<Rightarrow> task list list"
where
  "history_pages port rd lo hi limit 0 c s = []"
| "history_pages port rd lo hi limit (Suc k) c s =
     (case list_task_history port rd (Some lo) (Some hi) c limit s of
        (Inr (Inr pg), s') \<Rightarrow>
          page_items pg # (case page_next pg of None \<Rightarrow> []
            | next \<Rightarrow> history_pages port rd lo hi limit k next s')
      | _ \<Rightarrow> [])"

lemma page_size_pos: "0 < page_size limit"
  by (simp add: page_size_def max_page_size_def)

lemma open_pages_walk:
  fixes limit :: "int option" and port :: visibility_port and rd :: reader
    and asg :: "member_id option" and ov :: "int option" and lo hi :: bound
  assumes range: "check_range lo hi = None"
  defines "q \<equiv> open_request port rd asg ov lo hi None 0"
  shows "task_db I s \<Longrightarrow> map (map t_id) (open_pages I port rd asg ov lo hi limit k c s)
    = map (map tr_id) (open_list.walk s (rd_family rd) q k (page_size limit) c)"
proof (induction k arbitrary: c s)
  case (Suc k)
  let ?rest = "open_list.rest s (rd_family rd) q c" and ?n = "page_size limit"
  obtain pg es where pg: "list_open_tasks I port rd asg ov lo hi c limit s = (Inr (Inr pg), audited es s)"
    "page_of open_pos ?rest ?n I s pg"
    using list_open_page [OF Suc.prems range, where rd = rd and port = port and asg = asg and ov = ov and c = c and limit = limit] unfolding q_def by blast
  have same: "sound_rows (audited es s) (open_all f x (audited es s)) = sound_rows s (open_all f x s)" for f x
    by (simp add: sound_rows_def)
  note IH = Suc.IH [of "audited es s", unfolded same, simplified, OF Suc.prems]
  show ?case using pg IH page_size_pos [of limit]
    by (auto simp: page_of_def Let_def min_def)
qed simp

lemma history_pages_walk:
  fixes limit :: "int option" and port :: visibility_port and rd :: reader and lo hi :: int
  assumes range: "check_range (At lo) (At hi) = None"
  defines "q \<equiv> history_request port rd lo hi None 0"
  shows "task_db I s \<Longrightarrow> map (map t_id) (history_pages port rd lo hi limit k c s)
    = map (map tr_id) (history.walk s (rd_family rd) q k (page_size limit) c)"
proof (induction k arbitrary: c s)
  case (Suc k)
  let ?rest = "history.rest s (rd_family rd) q c" and ?n = "page_size limit"
  obtain pg es where pg: "list_task_history port rd (Some lo) (Some hi) c limit s = (Inr (Inr pg), audited es s)"
    "page_of closed_pos ?rest ?n I s pg"
    using list_history_page [OF Suc.prems range, where rd = rd and port = port and c = c and limit = limit] unfolding q_def by blast
  have same: "sound_rows (audited es s) (closed_all f x (audited es s)) = sound_rows s (closed_all f x s)" for f x
    by (simp add: sound_rows_def)
  note IH = Suc.IH [of "audited es s", unfolded same, simplified, OF Suc.prems]
  show ?case using pg IH page_size_pos [of limit]
    by (auto simp: page_of_def Let_def min_def)
qed simp

text \<open>
  C12: Reading the open list or the history page after page, each from the cursor the previous
  one gave, returns every matching task the reader may see exactly once, in the order of the
  query, whatever the page size asked for; enough pages are as many as the size divides the
  list into.
\<close>

theorem pages_return_every_task:
  assumes "task_db I s"
  shows "(check_range lo hi = None \<longrightarrow>
      (let rows = open_all (rd_family rd) (open_request port rd asg ov lo hi None 0) s in
       length rows \<le> k * page_size limit \<longrightarrow>
       map t_id (concat (open_pages I port rd asg ov lo hi limit k None s)) = map tr_id rows \<and> distinct (map tr_id rows)))
    \<and> (check_range (At x) (At y) = None \<longrightarrow>
      (let rows = closed_all (rd_family rd) (history_request port rd x y None 0) s in
       length rows \<le> k * page_size limit \<longrightarrow>
       map t_id (concat (history_pages port rd x y limit k None s)) = map tr_id rows \<and> distinct (map tr_id rows)))"
proof (intro conjI impI)
  have ok: "keys_ok s" using assms by (simp add: task_db_def)
  note d = ordered_ids [OF distinct_ids [OF ok]]
  show "let rows = open_all (rd_family rd) (open_request port rd asg ov lo hi None 0) s in
       length rows \<le> k * page_size limit \<longrightarrow>
       map t_id (concat (open_pages I port rd asg ov lo hi limit k None s)) = map tr_id rows \<and> distinct (map tr_id rows)"
    if "check_range lo hi = None"
    using open_list.pages_are_all [of "page_size limit" s "rd_family rd" "open_request port rd asg ov lo hi None 0" k]
      concat_ids [OF open_pages_walk [OF that assms, where rd = rd and port = port and asg = asg and ov = ov and limit = limit and k = k and c = None]] page_size_pos [of limit] d
    by (simp add: Let_def sound [OF ok] open_all_def)
  show "let rows = closed_all (rd_family rd) (history_request port rd x y None 0) s in
       length rows \<le> k * page_size limit \<longrightarrow>
       map t_id (concat (history_pages port rd x y limit k None s)) = map tr_id rows \<and> distinct (map tr_id rows)"
    if "check_range (At x) (At y) = None"
    using history.pages_are_all [of "page_size limit" s "rd_family rd" "history_request port rd x y None 0" k]
      concat_ids [OF history_pages_walk [OF that assms, where rd = rd and port = port and limit = limit and k = k and c = None]] page_size_pos [of limit] d
    by (simp add: Let_def sound [OF ok] closed_all_def)
qed

section \<open>What a page shows\<close>

lemma visible_row:
  assumes "visible_only fam ids s r" "stored I s t" "t_id t = tr_id r" "t_family t = fam" "visible_ids v = ids"
  shows "hidden_assignees (t_assignees t) v = []"
  using assms
  by (auto simp: hidden_assignees_def filter_empty_conv stored_def set_assignees_of visible_only_def list_ex_iff)

lemma page_item_row:
  assumes "page_of pos xs n I s pg" "t \<in> set (page_items pg)"
  obtains r where "r \<in> set xs" "t_id t = tr_id r" "stored I s t"
proof -
  have "t_id t \<in> set (map tr_id (take n xs))" using assms by (metis (no_types) page_of_def image_eqI set_map)
  then show thesis using that assms by (auto simp: page_of_def dest: in_set_takeD)
qed

text \<open>
  Every task a list or history page returns is a stored task of the reader's family, open
  or closed as the list says, without an assignee the reader may not see; and each of its
  assignees that the reader sees as a guardian has its \<open>Granted\<close> entry in the audit log.
\<close>

theorem listed_tasks_visible:
  assumes "task_db I s"
    and "list_open_tasks I port rd asg ov lo hi c limit s = (Inr (Inr pg), s')
        \<and> view = ''task list'' \<and> items = page_items pg \<and> listed_open
      \<or> list_task_history port rd (Some x) (Some y) cc limit s = (Inr (Inr hp), s')
        \<and> view = ''task history'' \<and> items = page_items hp \<and> \<not> listed_open"
    and "t \<in> set items"
  shows "stored I s t \<and> t_family t = rd_family rd \<and> is_open t = listed_open
    \<and> (\<forall>m \<in> set (t_assignees t). m \<in> set (visible_ids (resolve_visibility port rd)))
    \<and> (\<forall>m \<in> set (t_assignees t). m \<in> set (guarded_ids (resolve_visibility port rd)) \<longrightarrow>
        assignment_audit rd (t_id t) view Granted m \<in> set (db_audit s'))"
proof -
  let ?v = "resolve_visibility port rd" and ?fam = "rd_family rd"
  have k: "keys_ok s" using assms(1) by (simp add: task_db_def)
  have item: "stored I s t \<and> s' = audited (page_audits rd ?v view items) s
    \<and> (\<exists>r. r \<in> set (task_rows s) \<and> t_id t = tr_id r \<and> tr_family r = ?fam
         \<and> (tr_status r = StatusOpen) = listed_open \<and> visible_only ?fam (visible_ids ?v) s r)"
    using assms(2)
  proof
    assume a: "list_open_tasks I port rd asg ov lo hi c limit s = (Inr (Inr pg), s')
        \<and> view = ''task list'' \<and> items = page_items pg \<and> listed_open"
    then have "check_range lo hi = None" by (auto simp: list_open_tasks_def split: option.splits)
    from list_open_page [OF assms(1) this, where rd = rd and port = port and asg = asg and ov = ov
        and c = c and limit = limit] a
    have p: "page_of open_pos (open_list.rest s ?fam (open_request port rd asg ov lo hi None 0) c)
        (page_size limit) I s pg" "s' = audited (page_audits rd ?v view items) s" by auto
    obtain r where r: "r \<in> set (open_list.rest s ?fam (open_request port rd asg ov lo hi None 0) c)"
      "t_id t = tr_id r" "stored I s t" using p(1) assms(3) a by (metis page_item_row)
    from r(1) have "r \<in> set (open_all ?fam (open_request port rd asg ov lo hi None 0) s)"
      using open_list.rest_subset [of s ?fam "open_request port rd asg ov lo hi None 0" c]
      unfolding sound [OF k] by blast
    then have "r \<in> set (task_rows s) \<and> tr_family r = ?fam \<and> tr_status r = StatusOpen
        \<and> visible_only ?fam (visible_ids ?v) s r"
      by (simp add: open_all_def open_matches_def open_request_def)
    with a p(2) r show ?thesis by auto
  next
    assume a: "list_task_history port rd (Some x) (Some y) cc limit s = (Inr (Inr hp), s')
        \<and> view = ''task history'' \<and> items = page_items hp \<and> \<not> listed_open"
    then have "check_range (At x) (At y) = None"
      by (auto simp: list_task_history_def date_bound_def split: option.splits)
    from list_history_page [OF assms(1) this, where rd = rd and port = port and c = cc and limit = limit] a
    have p: "page_of closed_pos (history.rest s ?fam (history_request port rd x y None 0) cc)
        (page_size limit) I s hp" "s' = audited (page_audits rd ?v view items) s" by auto
    obtain r where r: "r \<in> set (history.rest s ?fam (history_request port rd x y None 0) cc)"
      "t_id t = tr_id r" "stored I s t" using p(1) assms(3) a by (metis page_item_row)
    from r(1) have "r \<in> set (closed_all ?fam (history_request port rd x y None 0) s)"
      using history.rest_subset [of s ?fam "history_request port rd x y None 0" cc]
      unfolding sound [OF k] by blast
    then have "r \<in> set (task_rows s) \<and> tr_family r = ?fam \<and> tr_status r \<noteq> StatusOpen
        \<and> visible_only ?fam (visible_ids ?v) s r"
      by (simp add: closed_all_def closed_matches_def history_request_def)
    with a p(2) r show ?thesis by auto
  qed
  then obtain r where r: "r \<in> set (task_rows s)" "t_id t = tr_id r" "tr_family r = ?fam"
    "(tr_status r = StatusOpen) = listed_open" "visible_only ?fam (visible_ids ?v) s r" "stored I s t" by blast
  have ro: "row_of I t r" using stored_row_of [OF assms(1) r(6,1)] r(2) by simp
  note sel = row_of_sel(2,8) [OF ro]
  have o: "is_open t = listed_open" using sel(2) r(4)
    by (auto simp: is_open_def status_of_state_def split: task_state.splits)
  have f: "t_family t = ?fam" using sel(1) r(3) by simp
  have h: "hidden_assignees (t_assignees t) ?v = []" by (rule visible_row [OF r(5,6,2) f refl])
  have "assignment_audit rd (t_id t) view Granted m \<in> set (db_audit s')"
    if "m \<in> set (t_assignees t)" "m \<in> set (guarded_ids ?v)" for m
    using that item assms(3) by (auto simp: audited_def page_audits_def guarded_child_assignees_def)
  with o f h r(6) show ?thesis by (auto simp: hidden_assignees_def filter_empty_conv)
qed

section \<open>At the household\<close>

lemma home_open: "open_all fam_f (open_request home_port mum_reads None None NoBound NoBound None 0) home
    = [new_row london_intl fam_f chore]"
proof -
  have ro: "row_of london_intl chore (new_row london_intl fam_f chore)"
    using row_of_new [of london_intl chore] by (simp add: chore_fields_home)
  note sel = row_of_sel [OF ro]
  obtain ob where h:
    "home = assigned fam_f (TaskId ''t1'') [mum] (Some mum) (inserted london_intl chore empty_home)
       \<lparr>db_outbox := ob\<rparr>" by (rule home_contents)
  have as: "map (\<lambda>a. (as_family a, as_task a, as_member a)) (assignment_rows home) = [(fam_f, TaskId ''t1'', mum)]"
    by (simp add: h assigned_def assignment_rows_of_def empty_home_def)
  then obtain a where "assignment_rows home = [a]" "as_member a = mum" by auto
  then have "open_matches fam_f (open_request home_port mum_reads None None NoBound NoBound None 0) home
      (new_row london_intl fam_f chore)"
    using sel chore_fields_home
    by (simp add: open_matches_def open_request_def visible_only_def resolve_visibility_def home_port_def
        status_of_state_def bound_at_def) (simp add: is_open_def)
  then show ?thesis by (simp add: open_all_def home_rows open_order_def)
qed

lemma pages_return_every_task_witness:
  "map t_id (concat (open_pages london_intl home_port mum_reads None None NoBound NoBound (Some 1) 1 None home))
    = [TaskId ''t1'']"
proof -
  have n: "check_range NoBound NoBound = None" by (simp add: check_range_def)
  have s: "page_size (Some 1) = 1" by (simp add: page_size_def max_page_size_def)
  show ?thesis
    using pages_return_every_task [OF home_db, THEN conjunct1, rule_format, OF n, where rd = mum_reads
        and port = home_port and asg = None and ov = None and k = 1 and limit = "Some 1"]
    by (simp add: home_open s Let_def) (simp add: new_row_def chore_fields_home)
qed

lemma listed_tasks_visible_witness:
  "\<exists>pg s'. list_open_tasks london_intl home_port mum_reads None None NoBound NoBound None None home = (Inr (Inr pg), s')
    \<and> map t_id (page_items pg) = [TaskId ''t1'']
    \<and> (\<forall>t \<in> set (page_items pg). is_open t \<and> set (t_assignees t) \<subseteq> {mum, kid})"
proof -
  have n: "check_range NoBound NoBound = None" by (simp add: check_range_def)
  have r: "open_list.rest home fam_f (open_request home_port mum_reads None None NoBound NoBound None 0) None
      = [new_row london_intl fam_f chore]"
    using home_db by (subst open_list.rest_def) (simp add: sound task_db_def home_open)
  obtain pg s' where pg:
    "list_open_tasks london_intl home_port mum_reads None None NoBound NoBound None None home = (Inr (Inr pg), s')"
    "page_of open_pos [new_row london_intl fam_f chore] (page_size None) london_intl home pg"
    using list_open_page [OF home_db n, where rd = mum_reads and port = home_port and asg = None and ov = None
        and c = None and limit = None] unfolding readers r by blast
  have "map t_id (page_items pg) = [TaskId ''t1'']"
    using pg(2) by (simp add: page_of_def page_size_def default_page_size_def max_page_size_def)
      (simp add: new_row_def chore_fields_home)
  moreover have "is_open t \<and> set (t_assignees t) \<subseteq> {mum, kid}" if "t \<in> set (page_items pg)" for t
    using listed_tasks_visible [OF home_db disjI1, OF conjI [OF pg(1) conjI, OF refl conjI, OF refl TrueI] that]
    by (auto simp: resolve_visibility_def home_port_def)
  ultimately show ?thesis by (intro exI [of _ pg] exI [of _ s']) (use pg(1) in simp)
qed

end
