(* ===== verification/Task_Sweep.thy ===== *)
theory Task_Sweep
  imports Task_Lists
begin

text \<open>
  The overdue sweep of the worker, \<open>apps/worker/src/sweeps/report-overdue-tasks.sweep.ts\<close>: one
  discovery read across the families, one transaction per candidate, failures collected, the
  lag measured after the pass. The clock is read once for the discovery, once per candidate by
  \<open>reportOverdue\<close>, and once for the lag.
\<close>

record sweep_result =
  sw_reported :: nat
  sw_skipped :: nat
  sw_failed :: "task_id list"
  sw_lag :: int

text \<open>The loop over the candidates, at the clock's readings.\<close>

fun report_each ::
  "intl \<Rightarrow> string \<Rightarrow> (nat \<Rightarrow> int) \<Rightarrow> (task_id \<times> family_id) list \<Rightarrow> nat
     \<Rightarrow> nat \<times> nat \<times> task_id list \<Rightarrow> task_store \<Rightarrow> (nat \<times> nat \<times> task_id list) \<times> task_store"
where
  "report_each I cid clock [] k acc s = (acc, s)"
| "report_each I cid clock ((i, fam) # rest) k (reported, skipped, failed) s =
     (case report_overdue I fam i cid (clock k) s of
        (Inr Reported, s') \<Rightarrow> report_each I cid clock rest (Suc k) (reported + 1, skipped, failed) s'
      | (Inr Skipped, s') \<Rightarrow> report_each I cid clock rest (Suc k) (reported, skipped + 1, failed) s'
      | (Inl e, s') \<Rightarrow> report_each I cid clock rest (Suc k) (reported, skipped, failed @ [i]) s')"

definition run_overdue_sweep ::
  "intl \<Rightarrow> string \<Rightarrow> int \<Rightarrow> (nat \<Rightarrow> int) \<Rightarrow> int \<Rightarrow> task_store \<Rightarrow> sweep_result \<times> task_store"
where
  "run_overdue_sweep I cid now clock done_at s =
     (case report_each I cid clock (find_overdue now s) 0 (0, 0, []) s of
        ((reported, skipped, failed), s') \<Rightarrow>
          (\<lparr>sw_reported = reported, sw_skipped = skipped, sw_failed = failed,
            sw_lag = measure_overdue_lag done_at s'\<rparr>, s'))"

section \<open>One candidate\<close>

definition overdue_event_of :: "string \<Rightarrow> task_row \<Rightarrow> outbox_event" where
  "overdue_event_of cid r =
     task_overdue_event (tr_family r) (tr_id r) (case tr_due_at r of None \<Rightarrow> 0 | Some d \<Rightarrow> d) cid"

definition marked :: "task_row \<Rightarrow> task_store \<Rightarrow> task_store" where
  "marked r s = s\<lparr>task_rows := tbl_update (\<lambda>x. x = r) (\<lambda>x. x\<lparr>tr_overdue := tr_due_at x\<rparr>) (task_rows s)\<rparr>"

definition outstanding :: "int \<Rightarrow> task_store \<Rightarrow> task_row list" where
  "outstanding now s = sort_key (\<lambda>r. case tr_due_at r of None \<Rightarrow> 0 | Some d \<Rightarrow> d)
     (filter (needs_report_row now) (task_rows s))"

lemma find_overdue_outstanding: "find_overdue now s = map (\<lambda>r. (tr_id r, tr_family r)) (outstanding now s)"
  by (simp add: find_overdue_def outstanding_def)

lemma needs_row:
  assumes "row_of I t r"
  shows "needs_report_row now r = needs_overdue_report I t now"
  using row_of_sel(7-9) [OF assms]
  by (auto simp: needs_report_row_def needs_overdue_report_def is_overdue_def is_open_def sql_holds_def
      status_of_state_def split: option.splits task_state.splits)

lemma needs_later: "needs_report_row now r \<Longrightarrow> now \<le> done_at \<Longrightarrow> needs_report_row done_at r"
  by (auto simp: needs_report_row_def sql_holds_def split: option.splits)

lemma columns_overdue:
  assumes "row_of I t r"
  shows "columns I (record_overdue_reported I t) r = r\<lparr>tr_overdue := tr_due_at r\<rparr>"
proof -
  have r: "columns I t r = r" using assms by (simp add: row_of_def)
  have "columns I (record_overdue_reported I t) r = (columns I t r)\<lparr>tr_overdue := due_at I t\<rparr>"
    by (simp add: columns_def record_overdue_reported_def due_at_def split: prod.splits)
  then show ?thesis unfolding r using row_of_sel(7) [OF assms] by simp
qed

lemma report_candidate:
  assumes db: "task_db I s" and r: "r \<in> set (task_rows s)" "needs_report_row now r"
  shows "report_overdue I (tr_family r) (tr_id r) cid now s =
      (Inr Reported, event_added (overdue_event_of cid r) (marked r s))"
    "task_db I (event_added (overdue_event_of cid r) (marked r s))"
proof -
  have k: "keys_ok s" using db by (simp add: task_db_def)
  have sc: "scoped_row (tr_family r) (tr_id r) s = Some r" using r(1) by (simp add: scoped_row_iff [OF k])
  from db obtain t where t: "stored I s t" "t_id t = tr_id r" "t_family t = tr_family r"
    "lock_by_id (tr_family r) (tr_id r) s = (Inr (Some t), s)"
    by (cases rule: lock_cases [where fam = "tr_family r" and i = "tr_id r"]) (use sc in auto)
  have ro: "row_of I t r" using stored_row_of [OF db t(1) r(1)] t(2) by simp
  let ?t = "record_overdue_reported I t"
  have tt: "touched t ?t" using lifecycle_touched(6) [of t I] t(1) by (simp add: stored_def)
  note sv = save_touched(1,2) [OF db t(1) tt]
  have m: "saved I ?t s = marked r s"
  proof -
    have "tbl_update (\<lambda>x. tr_id x = tr_id r \<and> tr_family x = tr_family r) (columns I ?t) (task_rows s)
        = tbl_update (\<lambda>x. x = r) (\<lambda>x. x\<lparr>tr_overdue := tr_due_at x\<rparr>) (task_rows s)"
      unfolding tbl_update_def
      by (rule map_cong [OF refl]) (use same_id_same_row [OF k _ r(1)] columns_overdue [OF ro] in auto)
    then show ?thesis using t(2,3) by (simp add: saved_def marked_def record_overdue_reported_def)
  qed
  obtain d where d: "due_at I t = Some d" "tr_due_at r = Some d"
    using r(2) row_of_sel(7) [OF ro] by (auto simp: needs_report_row_def)
  show "report_overdue I (tr_family r) (tr_id r) cid now s =
      (Inr Reported, event_added (overdue_event_of cid r) (marked r s))"
    using sv(1) t d r(2) needs_row [OF ro]
    by (simp add: report_overdue_def in_transaction_def m overdue_event_of_def)
  show "task_db I (event_added (overdue_event_of cid r) (marked r s))"
    using sv(2) by (simp add: m)
qed

lemma filter_update_gone:
  "\<not> P (f r) \<Longrightarrow> filter P (tbl_update (\<lambda>x. x = r) f rows) = filter (\<lambda>x. x \<noteq> r \<and> P x) rows"
  by (induction rows) (auto simp: tbl_update_def)

lemma set_outstanding [simp]: "set (outstanding now s) = {r \<in> set (task_rows s). needs_report_row now r}"
  by (auto simp: outstanding_def)

lemma outstanding_marked:
  assumes "keys_ok s" "outstanding now s = r # rs"
  shows "outstanding now (event_added e (marked r s)) = rs"
proof -
  let ?f = "\<lambda>r. case tr_due_at r of None \<Rightarrow> 0 | Some d \<Rightarrow> d"
  have d: "distinct (task_rows s)" using assms(1) by (auto simp: keys_ok_def distinct_map)
  have o: "distinct (r # rs)" unfolding assms(2) [symmetric] outstanding_def using d by simp
  have "filter (needs_report_row now) (task_rows (marked r s))
      = filter (\<lambda>x. x \<noteq> r) (filter (needs_report_row now) (task_rows s))"
    by (simp add: marked_def filter_update_gone needs_report_row_def conj_commute)
  then have "outstanding now (event_added e (marked r s)) = filter (\<lambda>x. x \<noteq> r) (outstanding now s)"
    by (simp add: outstanding_def filter_sort)
  also have "\<dots> = rs" using o unfolding assms(2) by (auto simp: filter_id_conv)
  finally show ?thesis .
qed

section \<open>A pass\<close>

text \<open>A whole pass over what is outstanding, and what a pass cut short after some candidates leaves.\<close>

lemma report_each_outstanding:
  assumes "\<And>j. now \<le> clock j"
  shows "task_db I s \<Longrightarrow> outstanding now s = rows @ later_rows \<Longrightarrow>
    \<exists>s'. report_each I cid clock (map (\<lambda>r. (tr_id r, tr_family r)) rows) k (n, m, es) s
        = ((n + length rows, m, es), s')
      \<and> task_db I s' \<and> outstanding now s' = later_rows
      \<and> db_outbox s' = db_outbox s @ map (overdue_event_of cid) rows"
proof (induction rows arbitrary: s k n)
  case (Cons r rows)
  have r: "r \<in> set (task_rows s)" "needs_report_row now r"
    using arg_cong [of _ _ set, OF Cons.prems(2)] by auto
  let ?s = "event_added (overdue_event_of cid r) (marked r s)"
  note rc = report_candidate [OF Cons.prems(1) r(1) needs_later [OF r(2) assms]]
  have o: "outstanding now ?s = rows @ later_rows"
    using outstanding_marked [of s now r] Cons.prems by (simp add: task_db_def)
  obtain s' where "report_each I cid clock (map (\<lambda>r. (tr_id r, tr_family r)) rows) (Suc k) (Suc n, m, es) ?s
      = ((Suc n + length rows, m, es), s')" "task_db I s'" "outstanding now s' = later_rows"
    "db_outbox s' = db_outbox ?s @ map (overdue_event_of cid) rows"
    using Cons.IH [OF rc(2) o, of "Suc k" "Suc n"] by blast
  then show ?case using rc(1) by (simp add: marked_def)
qed simp

lemma lag_bound:
  assumes "outstanding now s = []" "now \<le> done_at"
  shows "measure_overdue_lag done_at s \<le> max 0 (round_div (done_at - now) 1000)"
proof -
  have o: "now < d" if "d \<in> set (List.map_filter tr_due_at (filter (needs_report_row done_at) (task_rows s)))" for d
  proof -
    from that obtain r where r: "r \<in> set (task_rows s)" "needs_report_row done_at r" "tr_due_at r = Some d"
      by (auto simp: map_filter_def)
    have "\<not> needs_report_row now r" using arg_cong [of _ _ set, OF assms(1)] r(1) by auto
    with r(2,3) show ?thesis by (auto simp: needs_report_row_def sql_holds_def)
  qed
  show ?thesis
  proof (cases "sort (List.map_filter tr_due_at (filter (needs_report_row done_at) (task_rows s)))")
    case (Cons d ds)
    then have "d \<in> set (List.map_filter tr_due_at (filter (needs_report_row done_at) (task_rows s)))"
      by (metis list.set_intros(1) set_sort)
    with o have "now < d" by blast
    then have "round_div (done_at - d) 1000 \<le> round_div (done_at - now) 1000"
      by (simp add: round_div_def zdiv_mono1)
    then show ?thesis by (simp add: measure_overdue_lag_def Cons)
  qed (simp add: measure_overdue_lag_def)
qed

text \<open>
  C13: A pass of the overdue sweep reports every task that is overdue and unreported at its
  start: one \<open>TaskOverdue\<close> event each, in the order of their due moments, none skipped, none
  failed. Nothing overdue at the start is outstanding afterwards, so the lag it measures is no
  more than the time the pass took. A pass cut short after any number of candidates, and a
  second one after it, publish together exactly what one pass would have.
\<close>

theorem sweep_reports_each_once:
  assumes "task_db I s" "\<And>j. now \<le> clock j" "\<And>j. now \<le> clock2 j" "now \<le> done_at"
  shows "let rows = outstanding now s; (res, s') = run_overdue_sweep I cid now clock done_at s in
      sw_reported res = length rows \<and> sw_skipped res = 0 \<and> sw_failed res = []
      \<and> find_overdue now s' = [] \<and> sw_lag res \<le> max 0 (round_div (done_at - now) 1000)
      \<and> db_outbox s' = db_outbox s @ map (overdue_event_of cid) rows
      \<and> (\<forall>k. let cut = snd (report_each I cid clock2 (take k (find_overdue now s)) 0 (0, 0, []) s);
             second = snd (run_overdue_sweep I cid now clock done_at cut) in
           db_outbox second = db_outbox s' \<and> find_overdue now second = [])"
proof -
  let ?rows = "outstanding now s"
  obtain s' where s': "report_each I cid clock (find_overdue now s) 0 (0, 0, []) s = ((length ?rows, 0, []), s')"
    "task_db I s'" "outstanding now s' = []" "db_outbox s' = db_outbox s @ map (overdue_event_of cid) ?rows"
    using report_each_outstanding [where clock = clock, OF assms(2,1), of ?rows "[]" cid 0 0 0 "[]"]
    by (auto simp: find_overdue_outstanding)
  have two: "let cut = snd (report_each I cid clock2 (take k (find_overdue now s)) 0 (0, 0, []) s);
             second = snd (run_overdue_sweep I cid now clock done_at cut) in
           db_outbox second = db_outbox s' \<and> find_overdue now second = []" for k
  proof -
    have "?rows = take k ?rows @ drop k ?rows" by simp
    from report_each_outstanding [where clock = clock2, OF assms(3,1) this, of cid 0 0 0 "[]"]
    obtain c where c: "snd (report_each I cid clock2 (take k (find_overdue now s)) 0 (0, 0, []) s) = c"
      "task_db I c" "outstanding now c = drop k ?rows"
      "db_outbox c = db_outbox s @ map (overdue_event_of cid) (take k ?rows)"
      by (auto simp: find_overdue_outstanding take_map)
    obtain z where z: "report_each I cid clock (find_overdue now c) 0 (0, 0, []) c = ((length (drop k ?rows), 0, []), z)"
      "outstanding now z = []" "db_outbox z = db_outbox c @ map (overdue_event_of cid) (drop k ?rows)"
      using report_each_outstanding [where clock = clock, OF assms(2) c(2), of "drop k ?rows" "[]" cid 0 0 0 "[]"] c(3)
      by (auto simp: find_overdue_outstanding)
    have "map f (take k xs) @ map f (drop k xs) = map f xs" for f :: "task_row \<Rightarrow> outbox_event" and xs
      by (simp only: map_append [symmetric] append_take_drop_id)
    then show ?thesis using c(1,4) z s'(4)
      by (simp add: Let_def run_overdue_sweep_def find_overdue_outstanding)
  qed
  show ?thesis
    unfolding run_overdue_sweep_def s'(1) Let_def
    using s'(3,4) lag_bound [OF s'(3) assms(4)] two
    by (simp add: find_overdue_outstanding Let_def run_overdue_sweep_def)
qed

lemma home_outstanding: "outstanding 1789603200000 home = [new_row london_intl fam_f chore]"
proof -
  have ro: "row_of london_intl chore (new_row london_intl fam_f chore)"
    using row_of_new [of london_intl chore] by (simp add: chore_fields_home)
  have "needs_overdue_report london_intl chore 1789603200000"
    using chore_moment by (simp add: needs_overdue_report_def is_overdue_def due_at_def chore_good chore_fields_home)
      (simp add: chore_def)
  then show ?thesis by (simp add: outstanding_def home_rows needs_row [OF ro])
qed

lemma sweep_reports_each_once_witness:
  "sw_reported (fst (run_overdue_sweep london_intl ''c9'' 1789603200000 (\<lambda>_. 1789603200001) 1789603201000 home)) = 1"
  using sweep_reports_each_once [OF home_db, of 1789603200000 "\<lambda>_. 1789603200001" "\<lambda>_. 1789603200002"
      1789603201000 "''c9''"]
  by (simp add: Let_def home_outstanding split: prod.splits)

end
