(* ===== verification/Family_Domain.thy ===== *)
theory Family_Domain
  imports Kernel_Types
begin

text \<open>
  The Family domain, \<open>packages/core/src/family/domain\<close>: roles and capabilities, the family and
  its household profile, members, guardianships, invitations, and the outbox events. Instants
  are milliseconds; text is ASCII. The declared type of \<open>OwnerRequired\<close> has no field, so the
  explanations some of its throwers add to it are left out.
\<close>

section \<open>Capabilities\<close>

datatype member_role = Owner | AdultRole | ExtendedRole | ViewerRole

datatype member_kind = AdultKind | ChildKind

datatype capability =
    FamilyRead | FamilyManage | FamilyDelete | MembersRead | MembersAdd | MembersManage
  | GuardianshipManage | BillingManage | DocumentsRead | DocumentsWrite | DocumentsWriteSensitive
  | CalendarRead | CalendarWrite | TasksRead | TasksWrite

fun capabilities_for :: "member_role \<Rightarrow> capability list" where
  "capabilities_for Owner =
     [FamilyRead, FamilyManage, FamilyDelete, MembersRead, MembersAdd, MembersManage,
      GuardianshipManage, BillingManage, DocumentsRead, DocumentsWrite, DocumentsWriteSensitive,
      CalendarRead, CalendarWrite, TasksRead, TasksWrite]"
| "capabilities_for AdultRole =
     [FamilyRead, FamilyManage, MembersRead, MembersAdd, DocumentsRead, DocumentsWrite,
      DocumentsWriteSensitive, CalendarRead, CalendarWrite, TasksRead, TasksWrite]"
| "capabilities_for ExtendedRole =
     [FamilyRead, MembersRead, DocumentsRead, DocumentsWrite, CalendarRead, CalendarWrite,
      TasksRead, TasksWrite]"
| "capabilities_for ViewerRole = [FamilyRead, MembersRead, DocumentsRead, CalendarRead, TasksRead]"

definition role_has_capability :: "member_role \<Rightarrow> capability \<Rightarrow> bool" where
  "role_has_capability r c \<longleftrightarrow> c \<in> set (capabilities_for r)"

definition is_eligible_guardian :: "member_kind \<Rightarrow> member_role \<Rightarrow> bool" where
  "is_eligible_guardian k r \<longleftrightarrow> k = AdultKind \<and> (r = Owner \<or> r = AdultRole)"

section \<open>Household profile\<close>

record composition =
  co_adults :: int
  co_children :: int

record profile =
  pr_postcode :: "string option"
  pr_authority :: "string option"
  pr_composition :: "composition option"

text \<open>\<open>replace(/\s+/g, ' ')\<close>: every run of white space becomes one space.\<close>

function collapse_spaces :: "string \<Rightarrow> string" where
  "collapse_spaces [] = []"
| "collapse_spaces (c # cs) =
     (if is_space c then CHR '' '' # collapse_spaces (dropWhile is_space cs)
      else c # collapse_spaces cs)"
  by pat_completeness auto
termination by (relation "measure length") (auto simp: less_Suc_eq_le length_dropWhile_le)

definition normalise_postcode :: "string \<Rightarrow> string" where
  "normalise_postcode raw = collapse_spaces (to_upper (trim raw))"

definition empty_profile :: profile where
  "empty_profile = \<lparr>pr_postcode = None, pr_authority = None, pr_composition = None\<rparr>"

definition profile_from :: "string option \<Rightarrow> string option \<Rightarrow> composition option \<Rightarrow> profile" where
  "profile_from postcode authority members =
     (let p = map_option trim postcode; a = map_option trim authority in
      \<lparr>pr_postcode = (case p of None \<Rightarrow> None | Some s \<Rightarrow> if s = [] then None else Some (normalise_postcode s)),
       pr_authority = (case a of None \<Rightarrow> None | Some s \<Rightarrow> if s = [] then None else Some (to_upper s)),
       pr_composition = members\<rparr>)"

section \<open>The family\<close>

definition name_max_length :: nat where "name_max_length = 120"

record family =
  f_id :: family_id
  f_name :: string
  f_profile :: profile
  f_created :: int
  f_updated :: int
  f_deletion :: "int option"

definition family_create :: "family_id \<Rightarrow> string \<Rightarrow> profile \<Rightarrow> int \<Rightarrow> family outcome" where
  "family_create i raw prof now =
     (let name = trim raw in
      if name = [] then
        Inl (NameRequired ''A family needs a name. It is what everyone in it will see at the top of the app.'')
      else if length name > name_max_length then
        Inl (NameRequired (''A family name can be at most '' @ show_nat name_max_length
          @ '' characters; this one is '' @ show_nat (length name) @ ''.''))
      else
        Inr \<lparr>f_id = i, f_name = name, f_profile = prof, f_created = now, f_updated = now,
          f_deletion = None\<rparr>)"

definition family_rename :: "family \<Rightarrow> string \<Rightarrow> int \<Rightarrow> family outcome" where
  "family_rename f name now =
     and_then (family_create (f_id f) name empty_profile now)
       (\<lambda>x. Inr (f\<lparr>f_name := f_name x, f_updated := now\<rparr>))"

definition update_profile :: "family \<Rightarrow> profile \<Rightarrow> int \<Rightarrow> family" where
  "update_profile f p now = f\<lparr>f_profile := p, f_updated := now\<rparr>"

definition request_deletion :: "family \<Rightarrow> int \<Rightarrow> family" where
  "request_deletion f now =
     (if f_deletion f \<noteq> None then f else f\<lparr>f_deletion := Some now, f_updated := now\<rparr>)"

section \<open>Members\<close>

record family_member =
  m_id :: member_id
  m_family :: family_id
  m_kind :: member_kind
  m_role :: member_role
  m_user :: "user_id option"
  m_name :: "string option"
  m_born :: "int option"
  m_created :: int
  m_updated :: int
  m_removed :: "int option"

definition nameless :: "domain_error" where
  "nameless = NameRequired ''A member needs a name to be recognised by.''"

definition create_owner ::
  "member_id \<Rightarrow> family_id \<Rightarrow> user_id \<Rightarrow> string \<Rightarrow> int \<Rightarrow> family_member outcome"
where
  "create_owner i fam user raw now =
     (let name = trim raw in
      if name = [] then Inl nameless
      else Inr \<lparr>m_id = i, m_family = fam, m_kind = AdultKind, m_role = Owner, m_user = Some user,
        m_name = Some name, m_born = None, m_created = now, m_updated = now, m_removed = None\<rparr>)"

definition create_unlinked ::
  "member_id \<Rightarrow> family_id \<Rightarrow> member_kind \<Rightarrow> string \<Rightarrow> int option \<Rightarrow> int \<Rightarrow> family_member outcome"
where
  "create_unlinked i fam kind raw born now =
     (let name = trim raw in
      if name = [] then Inl nameless
      else Inr \<lparr>m_id = i, m_family = fam, m_kind = kind,
        m_role = (if kind = ChildKind then ViewerRole else ExtendedRole), m_user = None,
        m_name = Some name, m_born = born, m_created = now, m_updated = now, m_removed = None\<rparr>)"

definition create_from_invitation ::
  "member_id \<Rightarrow> family_id \<Rightarrow> user_id \<Rightarrow> member_role \<Rightarrow> string \<Rightarrow> int \<Rightarrow> family_member outcome"
where
  "create_from_invitation i fam user role raw now =
     (if role = Owner then
        Inl (OwnerIneligible ''Ownership is transferred to an existing member, never granted by invitation.'')
      else
        (let name = trim raw in
         if name = [] then Inl nameless
         else Inr \<lparr>m_id = i, m_family = fam, m_kind = AdultKind, m_role = role, m_user = Some user,
           m_name = Some name, m_born = None, m_created = now, m_updated = now, m_removed = None\<rparr>))"

definition is_active :: "family_member \<Rightarrow> bool" where
  "is_active m \<longleftrightarrow> m_removed m = None"

definition change_role :: "family_member \<Rightarrow> member_role \<Rightarrow> int \<Rightarrow> family_member outcome" where
  "change_role m role now =
     (if m_kind m = ChildKind then
        Inl (GuardianIneligible ''A child holds no capabilities, so there is no role to change.'')
      else if role = Owner then
        Inl (OwnerRequired)
      else if m_role m = Owner then Inl (OwnerRequired)
      else Inr (m\<lparr>m_role := role, m_updated := now\<rparr>))"

text \<open>The dash of the message, as the three bytes of its encoding.\<close>

definition em_dash :: string where "em_dash = [CHR 0xE2, CHR 0x80, CHR 0x94]"

definition promote_to_owner :: "family_member \<Rightarrow> int \<Rightarrow> family_member outcome" where
  "promote_to_owner m now =
     (if m_kind m \<noteq> AdultKind \<or> m_user m = None then
        Inl (OwnerIneligible (''Ownership can only go to a linked adult member '' @ em_dash
          @ '' an unlinked or child record cannot be reached if something goes wrong.''))
      else Inr (m\<lparr>m_role := Owner, m_updated := now\<rparr>))"

definition demote_from_ownership :: "family_member \<Rightarrow> int \<Rightarrow> family_member outcome" where
  "demote_from_ownership m now =
     (if m_role m \<noteq> Owner then Inl OwnerRequired
      else Inr (m\<lparr>m_role := AdultRole, m_updated := now\<rparr>))"

definition remove_member_record :: "family_member \<Rightarrow> int \<Rightarrow> family_member" where
  "remove_member_record m now =
     m\<lparr>m_name := None, m_born := None, m_user := None, m_removed := Some now, m_updated := now\<rparr>"

section \<open>Guardianships\<close>

record guardianship =
  g_id :: guardianship_id
  g_family :: family_id
  g_guardian :: member_id
  g_child :: member_id
  g_established :: int
  g_ended :: "int option"

definition establish ::
  "guardianship_id \<Rightarrow> family_id \<Rightarrow> member_id \<Rightarrow> member_kind \<Rightarrow> member_role \<Rightarrow> member_id \<Rightarrow> member_kind
     \<Rightarrow> int \<Rightarrow> guardianship outcome"
where
  "establish i fam guardian gkind grole child ckind now =
     (if ckind \<noteq> ChildKind then
        Inl (GuardianIneligible ''Guardianship only applies to a member marked as a child.'')
      else if \<not> is_eligible_guardian gkind grole then
        Inl (GuardianIneligible
          ''Only an adult member holding the owner or adult role may be a guardian (FR-006).'')
      else Inr \<lparr>g_id = i, g_family = fam, g_guardian = guardian, g_child = child,
        g_established = now, g_ended = None\<rparr>)"

definition end_guardianship_record :: "guardianship \<Rightarrow> int \<Rightarrow> guardianship" where
  "end_guardianship_record g now = g\<lparr>g_ended := Some now\<rparr>"

definition assert_guardian_coverage :: "int \<Rightarrow> unit outcome" where
  "assert_guardian_coverage n = (if n < 1 then Inl LastGuardian else Inr ())"

section \<open>Invitations\<close>

datatype invitation_status = Pending | Accepted | Revoked | Expired

record invitation =
  i_id :: invitation_id
  i_family :: family_id
  i_email :: email_address
  i_role :: member_role
  i_hash :: string
  i_status :: invitation_status
  i_expires :: int
  i_invited_by :: member_id
  i_accepted_by :: "member_id option"
  i_created :: int
  i_accepted :: "int option"
  i_revoked :: "int option"

definition invitation_create ::
  "invitation_id \<Rightarrow> family_id \<Rightarrow> email_address \<Rightarrow> member_role \<Rightarrow> string \<Rightarrow> member_id \<Rightarrow> int \<Rightarrow> int
     \<Rightarrow> invitation outcome"
where
  "invitation_create i fam email role h inviter now ttl =
     (if role = Owner then
        Inl (OwnerIneligible ''Ownership is transferred to an existing member, never granted by invitation.'')
      else Inr \<lparr>i_id = i, i_family = fam, i_email = email, i_role = role, i_hash = h,
        i_status = Pending, i_expires = now + ttl, i_invited_by = inviter, i_accepted_by = None,
        i_created = now, i_accepted = None, i_revoked = None\<rparr>)"

definition invitation_expired :: "invitation \<Rightarrow> int \<Rightarrow> bool" where
  "invitation_expired i now \<longleftrightarrow> i_status i = Pending \<and> i_expires i \<le> now"

definition is_acceptable :: "invitation \<Rightarrow> int \<Rightarrow> bool" where
  "is_acceptable i now \<longleftrightarrow> i_status i = Pending \<and> i_expires i > now"

definition invitation_accept :: "invitation \<Rightarrow> int \<Rightarrow> member_id \<Rightarrow> invitation outcome" where
  "invitation_accept i now who =
     (if \<not> is_acceptable i now then Inl InvitationInvalid
      else Inr (i\<lparr>i_status := Accepted, i_accepted := Some now, i_accepted_by := Some who\<rparr>))"

definition invitation_revoke :: "invitation \<Rightarrow> int \<Rightarrow> invitation outcome" where
  "invitation_revoke i now =
     (if i_status i \<noteq> Pending then Inl InvitationInvalid
      else Inr (i\<lparr>i_status := Revoked, i_revoked := Some now\<rparr>))"

definition mark_expired :: "invitation \<Rightarrow> invitation" where
  "mark_expired i = (if i_status i \<noteq> Pending then i else i\<lparr>i_status := Expired\<rparr>)"

section \<open>Events\<close>

definition role_text :: "member_role \<Rightarrow> string" where
  "role_text r =
     (case r of Owner \<Rightarrow> ''owner'' | AdultRole \<Rightarrow> ''adult'' | ExtendedRole \<Rightarrow> ''extended''
      | ViewerRole \<Rightarrow> ''viewer'')"

definition kind_text :: "member_kind \<Rightarrow> string" where
  "kind_text k = (case k of AdultKind \<Rightarrow> ''adult'' | ChildKind \<Rightarrow> ''child'')"

definition family_created_event :: "family_id \<Rightarrow> member_id \<Rightarrow> user_id \<Rightarrow> string \<Rightarrow> outbox_event" where
  "family_created_event fam owner user cid =
     \<lparr>event_type = ''family.FamilyCreated.v1'', aggregate_type = ''Family'',
      aggregate_id = family_text fam,
      payload = [(''familyId'', JString (family_text fam)),
        (''ownerMemberId'', JString (member_text owner)), (''ownerUserId'', JString (user_text user))],
      ev_correlation_id = cid\<rparr>"

definition member_added_event ::
  "family_id \<Rightarrow> member_id \<Rightarrow> member_kind \<Rightarrow> member_role \<Rightarrow> user_id option \<Rightarrow> string \<Rightarrow> outbox_event"
where
  "member_added_event fam m kind role user cid =
     \<lparr>event_type = ''family.MemberAdded.v1'', aggregate_type = ''FamilyMember'',
      aggregate_id = member_text m,
      payload = [(''familyId'', JString (family_text fam)), (''memberId'', JString (member_text m)),
        (''kind'', JString (kind_text kind)), (''role'', JString (role_text role)),
        (''userId'', json_opt user_text user)],
      ev_correlation_id = cid\<rparr>"

definition member_role_changed_event ::
  "family_id \<Rightarrow> member_id \<Rightarrow> member_role \<Rightarrow> member_role \<Rightarrow> string \<Rightarrow> outbox_event"
where
  "member_role_changed_event fam m before_role to_role cid =
     \<lparr>event_type = ''family.MemberRoleChanged.v1'', aggregate_type = ''FamilyMember'',
      aggregate_id = member_text m,
      payload = [(''familyId'', JString (family_text fam)), (''memberId'', JString (member_text m)),
        (''fromRole'', JString (role_text before_role)), (''toRole'', JString (role_text to_role))],
      ev_correlation_id = cid\<rparr>"

definition member_removed_event :: "family_id \<Rightarrow> member_id \<Rightarrow> bool \<Rightarrow> string \<Rightarrow> outbox_event" where
  "member_removed_event fam m had_user cid =
     \<lparr>event_type = ''family.MemberRemoved.v1'', aggregate_type = ''FamilyMember'',
      aggregate_id = member_text m,
      payload = [(''familyId'', JString (family_text fam)), (''memberId'', JString (member_text m)),
        (''hadUserId'', JBool had_user)],
      ev_correlation_id = cid\<rparr>"

definition guardianship_established_event ::
  "family_id \<Rightarrow> member_id \<Rightarrow> member_id \<Rightarrow> string \<Rightarrow> outbox_event"
where
  "guardianship_established_event fam guardian child cid =
     \<lparr>event_type = ''family.GuardianshipEstablished.v1'', aggregate_type = ''FamilyMember'',
      aggregate_id = member_text child,
      payload = [(''familyId'', JString (family_text fam)),
        (''guardianMemberId'', JString (member_text guardian)),
        (''childMemberId'', JString (member_text child))],
      ev_correlation_id = cid\<rparr>"

definition family_deletion_requested_event :: "family_id \<Rightarrow> member_id \<Rightarrow> string \<Rightarrow> outbox_event" where
  "family_deletion_requested_event fam m cid =
     \<lparr>event_type = ''family.FamilyDeletionRequested.v1'', aggregate_type = ''Family'',
      aggregate_id = family_text fam,
      payload = [(''familyId'', JString (family_text fam)),
        (''requestedByMemberId'', JString (member_text m))],
      ev_correlation_id = cid\<rparr>"

end
