(* ===== verification/Keyed_Table.thy ===== *)
theory Keyed_Table
  imports Transaction
begin

text \<open>
  Tables with a unique key, CHECKs, further unique indexes and foreign keys: Prisma's upsert
  over such a table, and the locale of the tables whose rows satisfy their constraints, which
  every upsert that goes through keeps.
\<close>

section \<open>Upserts\<close>

text \<open>
  An upsert of a row with key \<open>k\<close> in the scope of a family: the visible row of that key is
  updated, else the row is inserted. \<open>shape\<close> are its CHECKs and the scope's \<open>WITH CHECK\<close>,
  \<open>clash\<close> its unique indexes, \<open>refs\<close> its foreign keys.
\<close>

definition upsert ::
  "('r \<Rightarrow> 'k) \<Rightarrow> ('r \<Rightarrow> bool) \<Rightarrow> ('r \<Rightarrow> bool) \<Rightarrow> ('r \<Rightarrow> 'r \<Rightarrow> bool) \<Rightarrow> ('r \<Rightarrow> bool)
     \<Rightarrow> 'r \<Rightarrow> ('r \<Rightarrow> 'r) \<Rightarrow> 'r list \<Rightarrow> exn + 'r list"
where
  "upsert key visible shape clash refs new change rows =
     (case tbl_find key (key new) (filter visible rows) of
        None \<Rightarrow>
          if \<not> visible new \<or> \<not> shape new then Inl CheckViolation
          else if list_ex (\<lambda>x. key x = key new \<or> clash new x) rows then Inl UniqueViolation
          else if \<not> refs new then Inl ForeignKeyViolation
          else Inr (rows @ [new])
      | Some r \<Rightarrow>
          if \<not> shape (change r) then Inl CheckViolation
          else if list_ex (\<lambda>x. key x \<noteq> key new \<and> clash (change r) x) rows then Inl UniqueViolation
          else if \<not> refs (change r) then Inl ForeignKeyViolation
          else Inr (tbl_update (\<lambda>x. key x = key new \<and> visible x) (\<lambda>_. change r) rows))"

text \<open>An upsert that goes through, with every row in sight: of a known key, and of a new one.\<close>

lemma upsert_known:
  assumes "distinct (map key rows)" "r \<in> set rows" "key r = key new" "shape (change r)"
    "\<forall>x \<in> set rows. clash (change r) x \<longrightarrow> key x = key new" "refs (change r)"
  shows "upsert key (\<lambda>_. True) shape clash refs new change rows
    = Inr (tbl_update (\<lambda>x. key x = key new) change rows)"
proof -
  have same: "x = r" if "x \<in> set rows" "key x = key new" for x
    using assms(1-3) that by (auto simp: distinct_map inj_on_def)
  have "tbl_update (\<lambda>x. key x = key new) (\<lambda>_. change r) rows = tbl_update (\<lambda>x. key x = key new) change rows"
    using same by (auto simp: tbl_update_def)
  moreover have "tbl_find key (key new) (filter (\<lambda>_. True) rows) = Some r"
    using assms(1-3) by (simp add: tbl_find_iff)
  moreover have "\<not> list_ex (\<lambda>x. key x \<noteq> key new \<and> clash (change r) x) rows"
    using assms(5) by (auto simp: list_ex_iff)
  ultimately show ?thesis using assms(4,6) by (simp add: upsert_def)
qed

lemma upsert_new:
  assumes "\<forall>x \<in> set rows. key x \<noteq> key new \<and> \<not> clash new x" "shape new" "refs new"
  shows "upsert key (\<lambda>_. True) shape clash refs new change rows = Inr (rows @ [new])"
proof -
  have "tbl_find key (key new) (filter (\<lambda>_. True) rows) = None"
    using assms(1) by (auto simp: tbl_find_None)
  moreover have "\<not> list_ex (\<lambda>x. key x = key new \<or> clash new x) rows"
    using assms(1) by (auto simp: list_ex_iff)
  ultimately show ?thesis using assms(2,3) by (simp add: upsert_def)
qed

section \<open>Rows that differ\<close>

text \<open>A unique index: rows alike in \<open>same\<close> have one key.\<close>

definition apart :: "('r \<Rightarrow> 'k) \<Rightarrow> ('r \<Rightarrow> 'r \<Rightarrow> bool) \<Rightarrow> 'r set \<Rightarrow> bool" where
  "apart key same S \<longleftrightarrow> (\<forall>x \<in> S. \<forall>y \<in> S. same x y \<longrightarrow> key x = key y)"

lemma apartI: "(\<And>x y. x \<in> S \<Longrightarrow> y \<in> S \<Longrightarrow> same x y \<Longrightarrow> key x = key y) \<Longrightarrow> apart key same S"
  by (auto simp: apart_def)

lemma apartD: "apart key same S \<Longrightarrow> x \<in> S \<Longrightarrow> y \<in> S \<Longrightarrow> same x y \<Longrightarrow> key x = key y"
  by (auto simp: apart_def)

lemma apart_insert:
  "apart key same S \<Longrightarrow> \<forall>x \<in> S. \<not> same v x \<and> \<not> same x v \<Longrightarrow> apart key same (insert v S)"
  by (auto simp: apart_def)

lemma apart_subset: "apart key same S \<Longrightarrow> T \<subseteq> S \<Longrightarrow> apart key same T"
  by (auto simp: apart_def)

section \<open>Inserts that skip duplicates\<close>

text \<open>\<open>INSERT ... ON CONFLICT DO NOTHING\<close>, row by row: a row that clashes is not inserted.\<close>

fun add_skipping :: "('r \<Rightarrow> 'r \<Rightarrow> bool) \<Rightarrow> 'r list \<Rightarrow> 'r list \<Rightarrow> 'r list" where
  "add_skipping clash [] rows = rows"
| "add_skipping clash (a # new) rows =
     add_skipping clash new (if list_ex (clash a) rows then rows else rows @ [a])"

lemma add_skipping_prefix: "\<exists>more. add_skipping clash new rows = rows @ more"
proof (induction new arbitrary: rows)
  case (Cons a new)
  show ?case
    using Cons.IH [of rows] Cons.IH [of "rows @ [a]"] by auto
qed simp

lemma set_add_skipping:
  "set rows \<subseteq> set (add_skipping clash new rows)"
  "set (add_skipping clash new rows) \<subseteq> set rows \<union> set new"
proof -
  show "set rows \<subseteq> set (add_skipping clash new rows)"
    using add_skipping_prefix [of clash new rows] by auto
  show "set (add_skipping clash new rows) \<subseteq> set rows \<union> set new"
  proof (induction new arbitrary: rows)
    case (Cons a new)
    show ?case
      using Cons.IH [of rows] Cons.IH [of "rows @ [a]"] by auto
  qed simp
qed

text \<open>Rows that clash neither with the table nor with each other are all inserted.\<close>

lemma add_skipping_all:
  assumes "\<forall>a \<in> set new. \<forall>r \<in> set rows. \<not> clash a r" "sorted_wrt (\<lambda>a b. \<not> clash b a) new"
  shows "add_skipping clash new rows = rows @ new"
  using assms by (induction new arbitrary: rows) (auto simp: list_ex_iff)

section \<open>Tables that satisfy their constraints\<close>

text \<open>
  A table whose rows have distinct keys, satisfy their CHECKs and have no two rows that clash;
  an upsert that goes through leaves it so.
\<close>

locale keyed_table =
  fixes key :: "'r \<Rightarrow> 'k" and shape :: "'r \<Rightarrow> bool" and clash :: "'r \<Rightarrow> 'r \<Rightarrow> bool"
  assumes clash_sym: "clash a b \<Longrightarrow> clash b a"
begin

definition sound :: "'r list \<Rightarrow> bool" where
  "sound rows \<longleftrightarrow>
     distinct (map key rows) \<and> (\<forall>r \<in> set rows. shape r)
     \<and> (\<forall>r \<in> set rows. \<forall>x \<in> set rows. r \<noteq> x \<longrightarrow> \<not> clash r x)"

lemma sound_key: "sound rows \<Longrightarrow> r \<in> set rows \<Longrightarrow> x \<in> set rows \<Longrightarrow> key r = key x \<Longrightarrow> r = x"
  by (auto simp: sound_def distinct_map inj_on_def)

lemma sound_find: "sound rows \<Longrightarrow> tbl_find key k rows = Some r \<longleftrightarrow> r \<in> set rows \<and> key r = k"
  by (simp add: sound_def tbl_find_iff)

lemma sound_clash: "sound rows \<Longrightarrow> r \<in> set rows \<Longrightarrow> x \<in> set rows \<Longrightarrow> clash r x \<Longrightarrow> r = x"
  by (auto simp: sound_def)

lemma upsert_cases:
  assumes "sound rows" "upsert key visible shape clash refs new change rows = Inr rows'"
    and change: "\<And>r. key (change r) = key r"
  obtains (inserted) "\<forall>r \<in> set rows. key r \<noteq> key new" "rows' = rows @ [new]" "refs new" "visible new" "sound rows'"
  | (updated) r where "r \<in> set rows" "key r = key new" "visible r"
      "set rows' = insert (change r) (set rows - {r})" "refs (change r)" "sound rows'"
proof (cases "tbl_find key (key new) (filter visible rows)")
  case None
  then have r: "rows' = rows @ [new]" "\<forall>x \<in> set rows. key x \<noteq> key new \<and> \<not> clash new x" "shape new"
    "refs new" "visible new"
    using assms(2) by (auto simp: upsert_def list_ex_iff split: if_splits)
  have "sound rows'" unfolding r(1) using assms(1) r(2,3) clash_sym by (auto simp: sound_def)
  with r show thesis by (intro inserted) auto
next
  case (Some r)
  then have m: "r \<in> set rows" "visible r" "key r = key new" by (auto dest: tbl_find_Some)
  have c: "shape (change r)" "\<forall>x \<in> set rows. key x \<noteq> key new \<longrightarrow> \<not> clash (change r) x" "refs (change r)"
    "rows' = tbl_update (\<lambda>x. key x = key new \<and> visible x) (\<lambda>_. change r) rows"
    using assms(2) Some by (auto simp: upsert_def list_ex_iff split: if_splits)
  have same: "(key x = key new \<and> visible x) = (x = r)" if "x \<in> set rows" for x
    using sound_key [OF assms(1) that m(1)] m by auto
  have s: "set rows' = insert (change r) (set rows - {r})"
    unfolding c(4) set_tbl_update using same m(1) by (auto simp: image_iff)
  have k: "map key rows' = map key rows"
    unfolding c(4) using change m by (intro map_key_update) auto
  have "sound rows'"
    unfolding sound_def k s
  proof (intro conjI ballI impI)
    show "distinct (map key rows)" using assms(1) by (simp add: sound_def)
  next
    fix x assume "x \<in> insert (change r) (set rows - {r})"
    then show "shape x" using c(1) assms(1) by (auto simp: sound_def)
  next
    fix x y assume xy: "x \<in> insert (change r) (set rows - {r})" "y \<in> insert (change r) (set rows - {r})" "x \<noteq> y"
    have o: "key z \<noteq> key new" if "z \<in> set rows" "z \<noteq> r" for z
      using sound_key [OF assms(1) that(1) m(1)] that(2) m(3) by auto
    from xy show "\<not> clash x y"
      using c(2) o assms(1) clash_sym [of x y] by (auto simp: sound_def)
  qed
  then show thesis by (rule updated [OF m(1,3,2) s c(3)])
qed

end

end
