(* ===== verification/Family_Store.thy ===== *)
theory Family_Store
  imports Family_Domain Keyed_Table
begin

text \<open>
  The Family tables and the repositories over them,
  \<open>packages/persistence/src/repositories/family\<close>, with the constraints of the migration
  \<open>20260913152610_family_and_membership\<close>: the CHECKs, the partial unique indexes, the foreign
  keys, and row level security, which shows a transaction the rows of its family only.

  A save is Prisma's \<open>upsert\<close>: an existing row keeps its id, family and creation time, a new
  one is stamped by the database, \<open>fs_now\<close>. The columns \<open>updated_at\<close> are stamped on every
  write. The token hash column is the bytes of a hexadecimal text, kept as that text here; the
  email column of an invitation is nullable, but nothing writes a null.
\<close>

section \<open>Tables\<close>

record family_store =
  fam_rows :: "family list"
  mem_rows :: "family_member list"
  gua_rows :: "guardianship list"
  inv_rows :: "invitation list"
  fs_outbox :: "outbox_event list"
  fs_audit :: "audit_entry list"
  fs_mail :: "mail list"
  fs_now :: int

type_synonym 'a family_tx = "(family_store, 'a) tx"

subsection \<open>Constraints\<close>

definition member_shape :: "family_member \<Rightarrow> bool" where
  "member_shape m \<longleftrightarrow>
     (m_kind m = ChildKind \<longrightarrow> m_user m = None \<and> m_role m = ViewerRole)
     \<and> (m_role m = Owner \<longrightarrow> m_user m \<noteq> None \<and> m_kind m = AdultKind)
     \<and> (m_removed m \<noteq> None \<or> m_name m \<noteq> None)"

text \<open>Another row with the row's key under \<open>family_one_owner\<close> or \<open>family_member_one_per_user\<close>.\<close>

definition member_clash :: "family_member \<Rightarrow> family_member \<Rightarrow> bool" where
  "member_clash m x \<longleftrightarrow>
     m_family x = m_family m \<and> m_removed m = None \<and> m_removed x = None
     \<and> (m_role m = Owner \<and> m_role x = Owner \<or> m_user m \<noteq> None \<and> m_user x = m_user m)"

definition guardianship_clash :: "guardianship \<Rightarrow> guardianship \<Rightarrow> bool" where
  "guardianship_clash g x \<longleftrightarrow>
     g_guardian x = g_guardian g \<and> g_child x = g_child g \<and> g_ended g = None \<and> g_ended x = None"

definition invitation_clash :: "invitation \<Rightarrow> invitation \<Rightarrow> bool" where
  "invitation_clash i x \<longleftrightarrow>
     i_hash x = i_hash i
     \<or> i_family x = i_family i \<and> i_email x = i_email i \<and> i_status i = Pending \<and> i_status x = Pending"

section \<open>Repositories\<close>

subsection \<open>Families\<close>

definition save_family :: "family_id \<Rightarrow> family \<Rightarrow> unit family_tx" where
  "save_family fam f s =
     (case upsert f_id (\<lambda>r. f_id r = fam) (\<lambda>_. True) (\<lambda>_ _. False) (\<lambda>_. True)
         (f\<lparr>f_created := fs_now s, f_updated := fs_now s\<rparr>)
         (\<lambda>r. r\<lparr>f_name := f_name f, f_profile := f_profile f, f_deletion := f_deletion f,
           f_updated := fs_now s\<rparr>) (fam_rows s) of
        Inl e \<Rightarrow> (Inl e, s)
      | Inr rows \<Rightarrow> (Inr (), s\<lparr>fam_rows := rows\<rparr>))"

text \<open>The profile is normalised again on the way out.\<close>

definition load_family :: "family \<Rightarrow> family" where
  "load_family r =
     r\<lparr>f_profile := profile_from (pr_postcode (f_profile r)) (pr_authority (f_profile r))
       (pr_composition (f_profile r))\<rparr>"

definition find_current :: "family_id \<Rightarrow> family option family_tx" where
  "find_current fam = tx_get (\<lambda>s. map_option load_family (tbl_find f_id fam (fam_rows s)))"

subsection \<open>Members\<close>

definition family_members :: "family_id \<Rightarrow> family_store \<Rightarrow> family_member list" where
  "family_members fam s = filter (\<lambda>m. m_family m = fam) (mem_rows s)"

definition save_member :: "family_id \<Rightarrow> family_member \<Rightarrow> unit family_tx" where
  "save_member fam m s =
     (case upsert m_id (\<lambda>r. m_family r = fam) member_shape member_clash
         (\<lambda>r. m_family r \<in> f_id ` set (fam_rows s))
         (m\<lparr>m_created := fs_now s, m_updated := fs_now s\<rparr>)
         (\<lambda>r. r\<lparr>m_kind := m_kind m, m_role := m_role m, m_user := m_user m, m_name := m_name m,
           m_born := m_born m, m_removed := m_removed m, m_updated := fs_now s\<rparr>) (mem_rows s) of
        Inl e \<Rightarrow> (Inl e, s)
      | Inr rows \<Rightarrow> (Inr (), s\<lparr>mem_rows := rows\<rparr>))"

definition list_active :: "family_id \<Rightarrow> family_member list family_tx" where
  "list_active fam = tx_get (\<lambda>s. sort_key m_created (filter is_active (family_members fam s)))"

definition find_member :: "family_id \<Rightarrow> member_id \<Rightarrow> family_member option family_tx" where
  "find_member fam i = tx_get (\<lambda>s. tbl_find m_id i (family_members fam s))"

definition find_standing :: "family_id \<Rightarrow> user_id \<Rightarrow> (member_id \<times> member_role) option family_tx" where
  "find_standing fam user = tx_get (\<lambda>s.
     map_option (\<lambda>m. (m_id m, m_role m))
       (List.find (\<lambda>m. m_user m = Some user \<and> is_active m) (family_members fam s)))"

subsection \<open>Guardianships\<close>

definition active_guardianships :: "family_id \<Rightarrow> family_store \<Rightarrow> guardianship list" where
  "active_guardianships fam s = filter (\<lambda>g. g_family g = fam \<and> g_ended g = None) (gua_rows s)"

definition save_guardianship :: "family_id \<Rightarrow> guardianship \<Rightarrow> unit family_tx" where
  "save_guardianship fam g s =
     (case upsert g_id (\<lambda>r. g_family r = fam) (\<lambda>_. True) guardianship_clash
         (\<lambda>r. g_family r \<in> f_id ` set (fam_rows s) \<and> {g_guardian r, g_child r} \<subseteq> m_id ` set (mem_rows s))
         (g\<lparr>g_established := fs_now s\<rparr>) (\<lambda>r. r\<lparr>g_ended := g_ended g\<rparr>) (gua_rows s) of
        Inl e \<Rightarrow> (Inl e, s)
      | Inr rows \<Rightarrow> (Inr (), s\<lparr>gua_rows := rows\<rparr>))"

definition count_active_for_child :: "family_id \<Rightarrow> member_id \<Rightarrow> int family_tx" where
  "count_active_for_child fam c = tx_get (\<lambda>s.
     int (length (filter (\<lambda>g. g_child g = c) (active_guardianships fam s))))"

definition find_active :: "family_id \<Rightarrow> member_id \<Rightarrow> member_id \<Rightarrow> guardianship option family_tx" where
  "find_active fam guardian c = tx_get (\<lambda>s.
     List.find (\<lambda>g. g_guardian g = guardian \<and> g_child g = c) (active_guardianships fam s))"

definition guarded_by :: "family_id \<Rightarrow> member_id \<Rightarrow> family_store \<Rightarrow> member_id list" where
  "guarded_by fam guardian s =
     map g_child (filter (\<lambda>g. g_guardian g = guardian) (active_guardianships fam s))"

definition list_active_children :: "family_id \<Rightarrow> member_id \<Rightarrow> member_id list family_tx" where
  "list_active_children fam guardian = tx_get (guarded_by fam guardian)"

subsection \<open>Invitations\<close>

definition save_invitation :: "family_id \<Rightarrow> invitation \<Rightarrow> unit family_tx" where
  "save_invitation fam i s =
     (case upsert i_id (\<lambda>r. i_family r = fam) (\<lambda>r. i_role r \<noteq> Owner) invitation_clash
         (\<lambda>r. i_family r \<in> f_id ` set (fam_rows s) \<and> i_invited_by r \<in> m_id ` set (mem_rows s)
           \<and> (case i_accepted_by r of None \<Rightarrow> True | Some m \<Rightarrow> m \<in> m_id ` set (mem_rows s)))
         (i\<lparr>i_created := fs_now s\<rparr>)
         (\<lambda>r. r\<lparr>i_email := i_email i, i_role := i_role i, i_hash := i_hash i, i_status := i_status i,
           i_expires := i_expires i, i_invited_by := i_invited_by i,
           i_accepted_by := i_accepted_by i, i_accepted := i_accepted i, i_revoked := i_revoked i\<rparr>)
         (inv_rows s) of
        Inl e \<Rightarrow> (Inl e, s)
      | Inr rows \<Rightarrow> (Inr (), s\<lparr>inv_rows := rows\<rparr>))"

definition family_invitations :: "family_id \<Rightarrow> family_store \<Rightarrow> invitation list" where
  "family_invitations fam s = filter (\<lambda>i. i_family i = fam) (inv_rows s)"

definition find_invitation :: "family_id \<Rightarrow> invitation_id \<Rightarrow> invitation option family_tx" where
  "find_invitation fam i = tx_get (\<lambda>s. tbl_find i_id i (family_invitations fam s))"

text \<open>\<open>orderBy: createdAt desc\<close>.\<close>

definition list_all_invitations :: "family_id \<Rightarrow> invitation list family_tx" where
  "list_all_invitations fam = tx_get (\<lambda>s. sort_key (\<lambda>i. - i_created i) (family_invitations fam s))"

definition find_pending_by_email :: "family_id \<Rightarrow> string \<Rightarrow> invitation option family_tx" where
  "find_pending_by_email fam email = tx_get (\<lambda>s.
     List.find (\<lambda>i. i_email i = email_from email \<and> i_status i = Pending) (family_invitations fam s))"

text \<open>The policy \<open>invitation_by_token\<close> shows the invitation whose token the caller holds.\<close>

definition find_by_token_hash :: "string \<Rightarrow> invitation option family_tx" where
  "find_by_token_hash h = tx_get (\<lambda>s. tbl_find i_hash h (inv_rows s))"

subsection \<open>Logs\<close>

definition fs_event :: "outbox_event \<Rightarrow> unit family_tx" where
  "fs_event e = tx_modify (\<lambda>s. s\<lparr>fs_outbox := fs_outbox s @ [e]\<rparr>)"

definition fs_record :: "audit_entry \<Rightarrow> unit family_tx" where
  "fs_record e = tx_modify (\<lambda>s. s\<lparr>fs_audit := fs_audit s @ [e]\<rparr>)"

definition send_mail :: "mail \<Rightarrow> unit family_tx" where
  "send_mail m = tx_modify (\<lambda>s. s\<lparr>fs_mail := fs_mail s @ [m]\<rparr>)"

section \<open>Reads across families, sweeps and erasure\<close>

record membership =
  ms_family :: family_id
  ms_name :: string
  ms_role :: member_role

text \<open>The user's own active rows in any family, oldest first, without families being deleted.\<close>

definition list_memberships_for :: "user_id \<Rightarrow> family_store \<Rightarrow> membership list" where
  "list_memberships_for user s =
     List.map_filter (\<lambda>m. case tbl_find f_id (m_family m) (fam_rows s) of
         None \<Rightarrow> None
       | Some f \<Rightarrow> if f_deletion f \<noteq> None then None
           else Some \<lparr>ms_family = f_id f, ms_name = f_name f, ms_role = m_role m\<rparr>)
       (sort_key m_created (filter (\<lambda>m. m_user m = Some user \<and> is_active m) (mem_rows s)))"

text \<open>Expires the overdue pending invitations of all families; the count of them.\<close>

definition expire_overdue_invitations :: "int \<Rightarrow> nat family_tx" where
  "expire_overdue_invitations now s =
     (Inr (length (filter (\<lambda>i. invitation_expired i now) (inv_rows s))),
      s\<lparr>inv_rows := tbl_update (\<lambda>i. invitation_expired i now) (\<lambda>i. i\<lparr>i_status := Expired\<rparr>) (inv_rows s)\<rparr>)"

definition find_children_without_guardian :: "family_store \<Rightarrow> (member_id \<times> family_id) list" where
  "find_children_without_guardian s =
     map (\<lambda>m. (m_id m, m_family m))
       (filter (\<lambda>m. m_kind m = ChildKind \<and> m_removed m = None
          \<and> \<not> list_ex (\<lambda>g. g_child g = m_id m \<and> g_ended g = None) (gua_rows s)) (mem_rows s))"

text \<open>
  Deleting the family cascades to its members, guardianships and invitations, and from its
  members to what refers to them.
\<close>

definition erase_for_family :: "family_id \<Rightarrow> family_store \<Rightarrow> family_store" where
  "erase_for_family fam s =
     (let gone = map m_id (family_members fam s) in
      s\<lparr>fam_rows := tbl_delete (\<lambda>f. f_id f = fam) (fam_rows s),
        mem_rows := tbl_delete (\<lambda>m. m_family m = fam) (mem_rows s),
        gua_rows := tbl_delete (\<lambda>g. g_family g = fam \<or> g_guardian g \<in> set gone \<or> g_child g \<in> set gone) (gua_rows s),
        inv_rows := tbl_update (\<lambda>i. case i_accepted_by i of None \<Rightarrow> False | Some m \<Rightarrow> m \<in> set gone)
          (\<lambda>i. i\<lparr>i_accepted_by := None\<rparr>)
          (tbl_delete (\<lambda>i. i_family i = fam \<or> i_invited_by i \<in> set gone) (inv_rows s))\<rparr>)"

text \<open>
  Tombstones the member and ends every guardianship it is part of in its family. The row keeps its
  role, so the CHECKs can refuse it. The two clock readings are one here.
\<close>

definition tombstone :: "int \<Rightarrow> family_member \<Rightarrow> family_member" where
  "tombstone now m =
     m\<lparr>m_name := None, m_born := None, m_user := None,
       m_removed := (case m_removed m of None \<Rightarrow> Some now | r \<Rightarrow> r), m_updated := now\<rparr>"

definition erase_for_member :: "member_id \<Rightarrow> int \<Rightarrow> unit family_tx" where
  "erase_for_member i now s =
     (case tbl_find m_id i (mem_rows s) of
        None \<Rightarrow> (Inr (), s)
      | Some m \<Rightarrow>
          if \<not> member_shape (tombstone now m) then (Inl CheckViolation, s)
          else (Inr (),
            s\<lparr>mem_rows := tbl_update (\<lambda>x. m_id x = i) (tombstone now) (mem_rows s),
              gua_rows := tbl_update (\<lambda>g. g_family g = m_family m \<and> (g_guardian g = i \<or> g_child g = i) \<and> g_ended g = None)
                (\<lambda>g. g\<lparr>g_ended := Some now\<rparr>) (gua_rows s)\<rparr>))"

section \<open>Member visibility\<close>

text \<open>The ids of the members a viewer may see, and of the children among them.\<close>

definition resolve_visible_member_ids ::
  "family_store \<Rightarrow> member_id \<Rightarrow> family_id \<Rightarrow> member_id list \<times> member_id list"
where
  "resolve_visible_member_ids s viewer fam =
     (let guarded = guarded_by fam viewer s; members = family_members fam s in
      (map m_id (filter (\<lambda>m. m_kind m = AdultKind \<or> m_id m \<in> set guarded) members),
       map m_id (filter (\<lambda>m. m_kind m = ChildKind \<and> m_id m \<in> set guarded) members)))"

end
