(* ===== verification/Family_Commands.thy ===== *)
theory Family_Commands
  imports Family_Store
begin

text \<open>
  The Family application layer, \<open>packages/core/src/family/application\<close>: every command and
  query, one definition each, over the tables of \<open>Family_Store\<close>. The clock's reading is \<open>now\<close>;
  the token generator is a function \<open>hash\<close> and the raw token it generated.
\<close>

section \<open>Commands\<close>

definition create_family ::
  "family_id \<Rightarrow> member_id \<Rightarrow> user_id \<Rightarrow> string \<Rightarrow> string \<Rightarrow> profile \<Rightarrow> string \<Rightarrow> int
     \<Rightarrow> (family_id \<times> member_id) outcome family_tx"
where
  "create_family fam owner user owner_name name prof cid now =
     tx_ok (family_create fam name
         (profile_from (pr_postcode prof) (pr_authority prof) (pr_composition prof)) now) (\<lambda>f.
     tx_ok (create_owner owner fam user owner_name now) (\<lambda>m.
       in_transaction
         (tx_bind (save_family fam f) (\<lambda>_.
          tx_bind (save_member fam m) (\<lambda>_.
          tx_bind (fs_event (family_created_event fam owner user cid)) (\<lambda>_.
          tx_bind (fs_event (member_added_event fam owner AdultKind Owner (Some user) cid)) (\<lambda>_.
          tx_return (Inr (fam, owner)))))))))"

text \<open>A field of the patch is absent, or present with the new value.\<close>

record family_patch =
  fp_name :: "string option"
  fp_postcode :: "string option option"
  fp_authority :: "string option option"
  fp_composition :: "composition option option"

definition patched :: "'a option \<Rightarrow> 'a \<Rightarrow> 'a" where
  "patched p old = (case p of None \<Rightarrow> old | Some v \<Rightarrow> v)"

definition update_family :: "family_id \<Rightarrow> family_patch \<Rightarrow> int \<Rightarrow> family outcome family_tx" where
  "update_family fam p now =
     in_transaction
       (tx_bind (find_current fam) (\<lambda>found.
          case found of
            None \<Rightarrow> tx_return (Inl NotFound)
          | Some f \<Rightarrow>
              tx_ok (case fp_name p of None \<Rightarrow> Inr f | Some n \<Rightarrow> family_rename f n now) (\<lambda>f1.
                let touches = fp_postcode p \<noteq> None \<or> fp_authority p \<noteq> None \<or> fp_composition p \<noteq> None;
                    old = f_profile f1;
                    f2 = (if touches then
                        update_profile f1
                          (profile_from (patched (fp_postcode p) (pr_postcode old))
                            (patched (fp_authority p) (pr_authority old))
                            (patched (fp_composition p) (pr_composition old))) now
                      else f1) in
                tx_bind (save_family fam f2) (\<lambda>_. tx_return (Inr f2)))))"

definition add_member ::
  "family_id \<Rightarrow> member_id \<Rightarrow> member_id \<Rightarrow> member_kind \<Rightarrow> string \<Rightarrow> int option \<Rightarrow> guardianship_id
     \<Rightarrow> string \<Rightarrow> int \<Rightarrow> member_id outcome family_tx"
where
  "add_member fam i adder_id kind name born gid cid now =
     tx_ok (create_unlinked i fam kind name born now) (\<lambda>m.
       in_transaction
         (tx_bind (find_member fam adder_id) (\<lambda>found.
            case found of
              None \<Rightarrow> tx_return (Inl NotFound)
            | Some adder \<Rightarrow>
                tx_ok (if kind = ChildKind then
                    map_result (establish gid fam (m_id adder) (m_kind adder) (m_role adder) i (m_kind m) now) Some
                  else Inr None) (\<lambda>g.
                  tx_bind (save_member fam m) (\<lambda>_.
                  tx_bind (fs_event (member_added_event fam i (m_kind m) (m_role m) None cid)) (\<lambda>_.
                  tx_bind (case g of
                      None \<Rightarrow> tx_return ()
                    | Some x \<Rightarrow>
                        tx_bind (save_guardianship fam x) (\<lambda>_.
                        fs_event (guardianship_established_event fam (g_guardian x) i cid))) (\<lambda>_.
                  tx_return (Inr i))))))))"

text \<open>
  The guardianships a member would give up, or \<open>LastGuardian\<close> when one of them is its child's
  last: the first loop of \<open>changeMemberRole\<close> and \<open>removeMember\<close> counts, the second collects.
\<close>

fun all_covered :: "family_id \<Rightarrow> member_id list \<Rightarrow> unit outcome family_tx" where
  "all_covered fam [] = tx_return (Inr ())"
| "all_covered fam (c # cs) =
     tx_bind (count_active_for_child fam c) (\<lambda>n.
       tx_ok (assert_guardian_coverage (n - 1)) (\<lambda>_. all_covered fam cs))"

fun collect_active :: "family_id \<Rightarrow> member_id \<Rightarrow> member_id list \<Rightarrow> guardianship list family_tx" where
  "collect_active fam guardian [] = tx_return []"
| "collect_active fam guardian (c # cs) =
     tx_bind (find_active fam guardian c) (\<lambda>found.
     tx_bind (collect_active fam guardian cs) (\<lambda>rest.
       tx_return (case found of None \<Rightarrow> rest | Some g \<Rightarrow> g # rest)))"

definition guardianships_to_end :: "family_id \<Rightarrow> member_id \<Rightarrow> guardianship list outcome family_tx" where
  "guardianships_to_end fam guardian =
     tx_bind (list_active_children fam guardian) (\<lambda>children.
     tx_bind (all_covered fam children) (\<lambda>covered.
       tx_ok covered (\<lambda>_. tx_bind (collect_active fam guardian children) (\<lambda>gs. tx_return (Inr gs)))))"

definition end_all :: "family_id \<Rightarrow> guardianship list \<Rightarrow> int \<Rightarrow> unit family_tx" where
  "end_all fam gs now = tx_each (\<lambda>g. save_guardianship fam (end_guardianship_record g now)) gs"

definition change_member_role ::
  "family_id \<Rightarrow> member_id \<Rightarrow> member_role \<Rightarrow> string \<Rightarrow> int \<Rightarrow> unit outcome family_tx"
where
  "change_member_role fam i role cid now =
     in_transaction
       (tx_bind (find_member fam i) (\<lambda>found.
          case found of
            None \<Rightarrow> tx_return (Inl NotFound)
          | Some m \<Rightarrow>
              if \<not> is_active m then tx_return (Inl NotFound)
              else
                (let loses = is_eligible_guardian (m_kind m) (m_role m)
                       \<and> \<not> is_eligible_guardian (m_kind m) role in
                 tx_bind (if loses then guardianships_to_end fam (m_id m) else tx_return (Inr [])) (\<lambda>ending.
                 tx_ok ending (\<lambda>gs.
                 tx_ok (change_role m role now) (\<lambda>m'.
                 tx_bind (end_all fam gs now) (\<lambda>_.
                 tx_bind (save_member fam m') (\<lambda>_.
                 tx_bind (fs_event (member_role_changed_event fam (m_id m') (m_role m) role cid)) (\<lambda>_.
                 tx_return (Inr ()))))))))))"

definition remove_member :: "family_id \<Rightarrow> member_id \<Rightarrow> string \<Rightarrow> int \<Rightarrow> unit outcome family_tx" where
  "remove_member fam i cid now =
     in_transaction
       (tx_bind (find_member fam i) (\<lambda>found.
          case found of
            None \<Rightarrow> tx_return (Inl NotFound)
          | Some m \<Rightarrow>
              if \<not> is_active m then tx_return (Inl NotFound)
              else if m_role m = Owner then tx_return (Inl OwnerRequired)
              else
                tx_bind (guardianships_to_end fam (m_id m)) (\<lambda>ending.
                tx_ok ending (\<lambda>gs.
                tx_bind (end_all fam gs now) (\<lambda>_.
                tx_bind (save_member fam (remove_member_record m now)) (\<lambda>_.
                tx_bind (fs_event (member_removed_event fam (m_id m) (m_user m \<noteq> None) cid)) (\<lambda>_.
                tx_return (Inr ()))))))))"

definition grant_guardianship ::
  "family_id \<Rightarrow> member_id \<Rightarrow> member_id \<Rightarrow> guardianship_id \<Rightarrow> string \<Rightarrow> int \<Rightarrow> guardianship_id outcome family_tx"
where
  "grant_guardianship fam child_id guardian_id gid cid now =
     in_transaction
       (tx_bind (find_member fam child_id) (\<lambda>c.
          case c of
            None \<Rightarrow> tx_return (Inl NotFound)
          | Some child \<Rightarrow>
              if \<not> is_active child \<or> m_kind child \<noteq> ChildKind then tx_return (Inl NotFound)
              else
                tx_bind (find_member fam guardian_id) (\<lambda>g.
                  case g of
                    None \<Rightarrow> tx_return (Inl NotFound)
                  | Some guardian \<Rightarrow>
                      if \<not> is_active guardian then tx_return (Inl NotFound)
                      else
                        tx_bind (find_active fam (m_id guardian) (m_id child)) (\<lambda>existing.
                          case existing of
                            Some x \<Rightarrow> tx_return (Inr (g_id x))
                          | None \<Rightarrow>
                              tx_ok (establish gid fam (m_id guardian) (m_kind guardian) (m_role guardian)
                                  (m_id child) (m_kind child) now) (\<lambda>x.
                                tx_bind (save_guardianship fam x) (\<lambda>_.
                                tx_bind (fs_event (guardianship_established_event fam (m_id guardian) (m_id child) cid)) (\<lambda>_.
                                tx_return (Inr (g_id x)))))))))"

definition end_guardianship ::
  "family_id \<Rightarrow> member_id \<Rightarrow> member_id \<Rightarrow> int \<Rightarrow> unit outcome family_tx"
where
  "end_guardianship fam child guardian now =
     in_transaction
       (tx_bind (find_active fam guardian child) (\<lambda>found.
          case found of
            None \<Rightarrow> tx_return (Inl NotFound)
          | Some g \<Rightarrow>
              tx_bind (count_active_for_child fam child) (\<lambda>n.
                tx_ok (assert_guardian_coverage (n - 1)) (\<lambda>_.
                tx_bind (save_guardianship fam (end_guardianship_record g now)) (\<lambda>_.
                tx_return (Inr ()))))))"

definition transfer_ownership :: "family_id \<Rightarrow> member_id \<Rightarrow> string \<Rightarrow> int \<Rightarrow> unit outcome family_tx" where
  "transfer_ownership fam to cid now =
     in_transaction
       (tx_bind (find_member fam to) (\<lambda>found.
          case found of
            None \<Rightarrow> tx_return (Inl NotFound)
          | Some new_owner \<Rightarrow>
              if \<not> is_active new_owner then tx_return (Inl NotFound)
              else
                tx_bind (list_active fam) (\<lambda>active.
                  case List.find (\<lambda>m. m_role m = Owner) active of
                    None \<Rightarrow> tx_return (Inl NotFound)
                  | Some current \<Rightarrow>
                      if m_id current = m_id new_owner then
                        tx_return (Inl (OwnerIneligible ''This member already owns the family.''))
                      else
                        tx_ok (promote_to_owner new_owner now) (\<lambda>promoted.
                        tx_ok (demote_from_ownership current now) (\<lambda>demoted.
                        tx_bind (save_member fam demoted) (\<lambda>_.
                        tx_bind (save_member fam promoted) (\<lambda>_.
                        tx_bind (fs_event (member_role_changed_event fam (m_id demoted) Owner AdultRole cid)) (\<lambda>_.
                        tx_bind (fs_event (member_role_changed_event fam (m_id promoted) AdultRole Owner cid)) (\<lambda>_.
                        tx_return (Inr ()))))))))))"

definition invitation_ttl_ms :: int where "invitation_ttl_ms = 14 * 24 * 60 * 60 * 1000"

definition create_invitation ::
  "(string \<Rightarrow> string) \<Rightarrow> family_id \<Rightarrow> invitation_id \<Rightarrow> member_id \<Rightarrow> string \<Rightarrow> member_role \<Rightarrow> user_id option
     \<Rightarrow> string \<Rightarrow> int \<Rightarrow> invitation_id outcome family_tx"
where
  "create_invitation hash fam i inviter raw_email role existing raw_token now =
     (let email = email_from raw_email in
      tx_ok (invitation_create i fam email role (hash raw_token) inviter now invitation_ttl_ms) (\<lambda>iv.
        tx_bind (in_transaction
          (tx_bind (find_current fam) (\<lambda>found.
             case found of
               None \<Rightarrow> tx_return (Inl NotFound)
             | Some f \<Rightarrow>
                 tx_bind (case existing of None \<Rightarrow> tx_return None | Some u \<Rightarrow> find_standing fam u) (\<lambda>standing.
                   if standing \<noteq> None then tx_return (Inl AlreadyMember)
                   else
                     tx_bind (find_pending_by_email fam (email_value email)) (\<lambda>pending.
                       if pending \<noteq> None then tx_return (Inl AlreadyMember)
                       else
                         tx_bind (save_invitation fam iv) (\<lambda>_. tx_return (Inr (f_name f)))))))) (\<lambda>outcome.
        tx_ok outcome (\<lambda>name.
          tx_bind (send_mail
            \<lparr>mail_to = email_value email,
             mail_subject = ''You've been invited to join '' @ name @ '' on Family Platform'',
             mail_text = ''Invitation token: '' @ raw_token\<rparr>)
            (\<lambda>_. tx_return (Inr i))))))"

definition revoke_invitation :: "family_id \<Rightarrow> invitation_id \<Rightarrow> int \<Rightarrow> unit outcome family_tx" where
  "revoke_invitation fam i now =
     in_transaction
       (tx_bind (find_invitation fam i) (\<lambda>found.
          case found of
            None \<Rightarrow> tx_return (Inl NotFound)
          | Some iv \<Rightarrow>
              tx_ok (invitation_revoke iv now) (\<lambda>iv'.
                tx_bind (save_invitation fam iv') (\<lambda>_. tx_return (Inr ())))))"

text \<open>\<open>split('@')[0]\<close>.\<close>

definition local_part :: "string \<Rightarrow> string" where
  "local_part email = hd (split_on (CHR ''@'') email)"

text \<open>
  The scoped half of \<open>acceptInvitation\<close>, on the invitation as it was read before it.
\<close>

definition accept_scoped ::
  "invitation \<Rightarrow> user_id \<Rightarrow> email_address \<Rightarrow> member_id \<Rightarrow> string \<Rightarrow> int \<Rightarrow> (family_id \<times> member_id) outcome family_tx"
where
  "accept_scoped iv user email new_id cid now =
     in_transaction
       (tx_ok (create_from_invitation new_id (i_family iv) user (i_role iv) (local_part (email_value email)) now) (\<lambda>m.
        tx_ok (invitation_accept iv now new_id) (\<lambda>iv'.
        tx_bind (save_member (i_family iv) m) (\<lambda>_.
        tx_bind (save_invitation (i_family iv) iv') (\<lambda>_.
        tx_bind (fs_event (member_added_event (i_family iv) new_id AdultKind (i_role iv) (Some user) cid)) (\<lambda>_.
        tx_return (Inr (i_family iv, new_id))))))))"

definition accept_invitation ::
  "(string \<Rightarrow> string) \<Rightarrow> string \<Rightarrow> user_id \<Rightarrow> string \<Rightarrow> member_id \<Rightarrow> string \<Rightarrow> int
     \<Rightarrow> (family_id \<times> member_id) outcome family_tx"
where
  "accept_invitation hash token user raw_email new_id cid now =
     tx_bind (in_transaction (find_by_token_hash (hash token))) (\<lambda>found.
       case found of
         None \<Rightarrow> tx_return (Inl InvitationInvalid)
       | Some iv \<Rightarrow>
           (let email = email_from raw_email in
            if i_status iv = Accepted then
              (case i_accepted_by iv of
                 None \<Rightarrow> tx_return (Inl InvitationInvalid)
               | Some m \<Rightarrow>
                   if \<not> email_equals email (i_email iv) then tx_return (Inl InvitationEmailMismatch)
                   else tx_return (Inr (i_family iv, m)))
            else if i_status iv \<noteq> Pending \<or> invitation_expired iv now then
              tx_return (Inl InvitationInvalid)
            else if \<not> email_equals email (i_email iv) then tx_return (Inl InvitationEmailMismatch)
            else accept_scoped iv user email new_id cid now))"

definition revoke_pending :: "family_id \<Rightarrow> invitation \<Rightarrow> int \<Rightarrow> unit family_tx" where
  "revoke_pending fam i now =
     (if i_status i = Pending then
        (case invitation_revoke i now of
           Inl _ \<Rightarrow> tx_return ()
         | Inr i' \<Rightarrow> save_invitation fam i')
      else tx_return ())"

definition request_family_deletion :: "family_id \<Rightarrow> member_id \<Rightarrow> string \<Rightarrow> int \<Rightarrow> unit outcome family_tx" where
  "request_family_deletion fam requester cid now =
     in_transaction
       (tx_bind (find_current fam) (\<lambda>found.
          case found of
            None \<Rightarrow> tx_return (Inl NotFound)
          | Some f \<Rightarrow>
              tx_bind (save_family fam (request_deletion f now)) (\<lambda>_.
                if f_deletion f \<noteq> None then tx_return (Inr ())
                else
                  tx_bind (list_all_invitations fam) (\<lambda>invs.
                  tx_bind (tx_each (\<lambda>i. revoke_pending fam i now) invs) (\<lambda>_.
                  tx_bind (fs_event (family_deletion_requested_event fam requester cid)) (\<lambda>_.
                  tx_return (Inr ()))))))) "

section \<open>Queries\<close>

definition get_family :: "family_id \<Rightarrow> family option family_tx" where
  "get_family fam = in_transaction (find_current fam)"

record family_list_entry =
  fl_family :: family_id
  fl_name :: string
  fl_role :: member_role
  fl_capabilities :: "capability list"

definition list_families :: "user_id \<Rightarrow> family_list_entry list family_tx" where
  "list_families user = tx_get (\<lambda>s. map (\<lambda>m.
     \<lparr>fl_family = ms_family m, fl_name = ms_name m, fl_role = ms_role m,
      fl_capabilities = capabilities_for (ms_role m)\<rparr>) (list_memberships_for user s))"

record invitation_summary =
  is_id :: invitation_id
  is_email :: string
  is_role :: member_role
  is_status :: invitation_status
  is_expires :: int
  is_created :: int

definition to_summary :: "invitation \<Rightarrow> invitation_summary" where
  "to_summary i =
     \<lparr>is_id = i_id i, is_email = email_value (i_email i), is_role = i_role i,
      is_status = i_status i, is_expires = i_expires i, is_created = i_created i\<rparr>"

definition list_invitations :: "family_id \<Rightarrow> invitation_summary list family_tx" where
  "list_invitations fam =
     in_transaction (tx_bind (list_all_invitations fam) (\<lambda>is. tx_return (map to_summary is)))"

text \<open>\<open>mv_born\<close> is \<open>None\<close> when the key is omitted from the answer.\<close>

record member_summary =
  mv_id :: member_id
  mv_kind :: member_kind
  mv_role :: member_role
  mv_name :: "string option"
  mv_born :: "int option option"

definition list_members :: "family_id \<Rightarrow> member_id \<Rightarrow> member_summary list family_tx" where
  "list_members fam caller =
     in_transaction
       (tx_bind (list_active fam) (\<lambda>members.
        tx_bind (list_active_children fam caller) (\<lambda>guarded.
        tx_return (map (\<lambda>m.
          \<lparr>mv_id = m_id m, mv_kind = m_kind m, mv_role = m_role m, mv_name = m_name m,
           mv_born = (if m_kind m \<noteq> ChildKind \<or> m_id m \<in> set guarded then Some (m_born m) else None)\<rparr>)
          members))))"

definition child_read_audit ::
  "family_id \<Rightarrow> member_id \<Rightarrow> user_id option \<Rightarrow> member_id \<Rightarrow> string \<Rightarrow> bool \<Rightarrow> audit_entry"
where
  "child_read_audit fam caller user child cid granted =
     \<lparr>actor_user_id = user, actor_member_id = Some caller, audit_family_id = Some fam,
      subject_type = SFamilyMember, subject_id = member_text child,
      audit_action = ''child_record.read'', audit_purpose = ''member detail view'',
      audit_result = (if granted then Granted else Denied),
      audit_reason = (if granted then None
        else Some ''caller holds no active guardianship for this child (FR-007)''),
      audit_correlation_id = cid\<rparr>"

definition read_member ::
  "family_id \<Rightarrow> member_id \<Rightarrow> member_id \<Rightarrow> user_id option \<Rightarrow> string \<Rightarrow> member_summary outcome family_tx"
where
  "read_member fam i caller user cid =
     in_transaction
       (tx_bind (find_member fam i) (\<lambda>found.
          case found of
            None \<Rightarrow> tx_return (Inl NotFound)
          | Some m \<Rightarrow>
              if \<not> is_active m then tx_return (Inl NotFound)
              else
                (let detail = \<lparr>mv_id = m_id m, mv_kind = m_kind m, mv_role = m_role m,
                       mv_name = m_name m, mv_born = Some (m_born m)\<rparr> in
                 if m_kind m = ChildKind then
                   tx_bind (find_active fam caller (m_id m)) (\<lambda>g.
                   tx_bind (fs_record (child_read_audit fam caller user (m_id m) cid (g \<noteq> None))) (\<lambda>_.
                   if g = None then tx_return (Inl GuardianshipRequired) else tx_return (Inr detail)))
                 else tx_return (Inr detail))))"

record family_context =
  fc_member :: member_id
  fc_role :: member_role
  fc_capabilities :: "capability list"

definition resolve_family_context :: "user_id \<Rightarrow> family_id \<Rightarrow> family_context option family_tx" where
  "resolve_family_context user fam =
     in_transaction
       (tx_bind (find_current fam) (\<lambda>found.
          case found of
            None \<Rightarrow> tx_return None
          | Some f \<Rightarrow>
              if f_deletion f \<noteq> None then tx_return None
              else
                tx_bind (find_standing fam user) (\<lambda>standing.
                  tx_return (map_option (\<lambda>(m, r).
                    \<lparr>fc_member = m, fc_role = r, fc_capabilities = capabilities_for r\<rparr>) standing))))"

end
