(* ===== verification/Household.thy ===== *)
theory Household
  imports Family_Domain
begin

text \<open>
  What the Family context promises of one family, without tables: its people and who guards
  whom, the changes that are allowed, and what every sequence of them keeps.
\<close>

record person =
  p_kind :: member_kind
  p_role :: member_role
  p_user :: "user_id option"
  p_alive :: bool

record household =
  people :: "member_id \<Rightarrow> person option"
  guards :: "(member_id \<times> member_id) set"

definition eligible :: "person \<Rightarrow> bool" where
  "eligible p \<longleftrightarrow> is_eligible_guardian (p_kind p) (p_role p)"

text \<open>Another member guards the child.\<close>

definition covered_without :: "household \<Rightarrow> member_id \<Rightarrow> member_id \<Rightarrow> bool" where
  "covered_without h g c \<longleftrightarrow> (\<exists>x. x \<noteq> g \<and> (x, c) \<in> guards h)"

definition replaceable :: "household \<Rightarrow> member_id \<Rightarrow> bool" where
  "replaceable h g \<longleftrightarrow> (\<forall>c. (g, c) \<in> guards h \<longrightarrow> covered_without h g c)"

definition drop_guard :: "household \<Rightarrow> member_id \<Rightarrow> household" where
  "drop_guard h g = h\<lparr>guards := {x \<in> guards h. fst x \<noteq> g}\<rparr>"

definition set_person :: "household \<Rightarrow> member_id \<Rightarrow> person \<Rightarrow> household" where
  "set_person h i p = h\<lparr>people := (people h)(i \<mapsto> p)\<rparr>"

text \<open>The account a member still reaches the family with.\<close>

definition account :: "household \<Rightarrow> member_id \<Rightarrow> user_id option" where
  "account h i = (case people h i of None \<Rightarrow> None | Some p \<Rightarrow> if p_alive p then p_user p else None)"

definition linked_elsewhere :: "household \<Rightarrow> user_id option \<Rightarrow> bool" where
  "linked_elsewhere h u \<longleftrightarrow> u \<noteq> None \<and> (\<exists>i. account h i = u)"

text \<open>A family begins with its owner.\<close>

definition founded :: "member_id \<Rightarrow> user_id \<Rightarrow> household" where
  "founded i u =
     \<lparr>people = [i \<mapsto> \<lparr>p_kind = AdultKind, p_role = Owner, p_user = Some u, p_alive = True\<rparr>], guards = {}\<rparr>"

inductive hh_step :: "household \<Rightarrow> household \<Rightarrow> bool" where
  hh_join:
    "people h i = None \<Longrightarrow> role \<noteq> Owner \<Longrightarrow> \<not> linked_elsewhere h u \<Longrightarrow>
       hh_step h (set_person h i \<lparr>p_kind = AdultKind, p_role = role, p_user = u, p_alive = True\<rparr>)"
| hh_child:
    "people h i = None \<Longrightarrow> people h g = Some p \<Longrightarrow> p_alive p \<Longrightarrow> eligible p \<Longrightarrow>
       hh_step h ((set_person h i \<lparr>p_kind = ChildKind, p_role = ViewerRole, p_user = None, p_alive = True\<rparr>)
         \<lparr>guards := insert (g, i) (guards h)\<rparr>)"
| hh_grant:
    "people h c = Some q \<Longrightarrow> p_alive q \<Longrightarrow> p_kind q = ChildKind \<Longrightarrow>
     people h g = Some p \<Longrightarrow> p_alive p \<Longrightarrow> eligible p \<Longrightarrow>
       hh_step h (h\<lparr>guards := insert (g, c) (guards h)\<rparr>)"
| hh_end:
    "covered_without h g c \<Longrightarrow> hh_step h (h\<lparr>guards := guards h - {(g, c)}\<rparr>)"
| hh_role:
    "people h i = Some p \<Longrightarrow> p_alive p \<Longrightarrow> p_kind p = AdultKind \<Longrightarrow> p_role p \<noteq> Owner \<Longrightarrow> role \<noteq> Owner \<Longrightarrow>
     eligible p \<and> \<not> eligible (p\<lparr>p_role := role\<rparr>) \<longrightarrow> replaceable h i \<Longrightarrow>
     h' = (if eligible p \<and> \<not> eligible (p\<lparr>p_role := role\<rparr>) then drop_guard h i else h) \<Longrightarrow>
       hh_step h (set_person h' i (p\<lparr>p_role := role\<rparr>))"
| hh_remove:
    "people h i = Some p \<Longrightarrow> p_alive p \<Longrightarrow> p_role p \<noteq> Owner \<Longrightarrow> replaceable h i \<Longrightarrow>
       hh_step h (set_person (drop_guard h i) i (p\<lparr>p_user := None, p_alive := False\<rparr>))"
| hh_transfer:
    "people h i = Some p \<Longrightarrow> p_alive p \<Longrightarrow> p_role p = Owner \<Longrightarrow>
     people h j = Some q \<Longrightarrow> p_alive q \<Longrightarrow> p_kind q = AdultKind \<Longrightarrow> p_user q \<noteq> None \<Longrightarrow> i \<noteq> j \<Longrightarrow>
       hh_step h (set_person (set_person h i (p\<lparr>p_role := AdultRole\<rparr>)) j (q\<lparr>p_role := Owner\<rparr>))"

text \<open>
  One owner, adult and with an account; children have no account and the least role; a guardian
  is a member that may be one, and guards a child; a child that is still a member has a
  guardian; an account belongs to one member.
\<close>

definition owns :: "household \<Rightarrow> member_id \<Rightarrow> bool" where
  "owns h i \<longleftrightarrow> (\<exists>p. people h i = Some p \<and> p_alive p \<and> p_role p = Owner)"

definition people_ok :: "household \<Rightarrow> bool" where
  "people_ok h \<longleftrightarrow>
     (\<forall>i p. people h i = Some p \<longrightarrow>
        (p_kind p = ChildKind \<longrightarrow> p_user p = None \<and> p_role p = ViewerRole)
        \<and> (p_alive p \<and> p_role p = Owner \<longrightarrow> p_kind p = AdultKind \<and> p_user p \<noteq> None))"

definition guards_ok :: "household \<Rightarrow> bool" where
  "guards_ok h \<longleftrightarrow>
     (\<forall>g c. (g, c) \<in> guards h \<longrightarrow>
        (\<exists>p. people h g = Some p \<and> p_alive p \<and> eligible p)
        \<and> (\<exists>q. people h c = Some q \<and> p_kind q = ChildKind))"

definition children_guarded :: "household \<Rightarrow> bool" where
  "children_guarded h \<longleftrightarrow>
     (\<forall>c q. people h c = Some q \<and> p_alive q \<and> p_kind q = ChildKind \<longrightarrow> (\<exists>g. (g, c) \<in> guards h))"

definition accounts_distinct :: "household \<Rightarrow> bool" where
  "accounts_distinct h \<longleftrightarrow> (\<forall>i j u. account h i = Some u \<and> account h j = Some u \<longrightarrow> i = j)"

definition hh_inv :: "household \<Rightarrow> bool" where
  "hh_inv h \<longleftrightarrow> (\<exists>!i. owns h i) \<and> people_ok h \<and> guards_ok h \<and> children_guarded h \<and> accounts_distinct h"

named_theorems hh_simps \<open>selectors of the household operations\<close>

lemma set_person_sel [hh_simps]:
  "people (set_person h i p) = (people h)(i \<mapsto> p)" "guards (set_person h i p) = guards h"
  by (simp_all add: set_person_def)

lemma drop_guard_sel [hh_simps]:
  "people (drop_guard h g) = people h" "guards (drop_guard h g) = {x \<in> guards h. fst x \<noteq> g}"
  by (simp_all add: drop_guard_def)

lemma eligible_child [simp]: "p_kind p = ChildKind \<Longrightarrow> \<not> eligible p"
  by (simp add: eligible_def is_eligible_guardian_def)

lemma founded_inv: "hh_inv (founded i u)"
  by (auto simp: hh_inv_def founded_def owns_def people_ok_def guards_ok_def children_guarded_def
      accounts_distinct_def account_def split: if_splits)

lemma step_owner:
  assumes "hh_step h h'" "\<exists>!i. owns h i"
  shows "\<exists>!i. owns h' i"
  using assms
proof (cases rule: hh_step.cases)
  case (hh_transfer i p j q)
  then have "owns h' j" by (auto simp: owns_def hh_simps)
  moreover have "x = j" if "owns h' x" for x
    using that hh_transfer assms(2) by (auto simp: owns_def hh_simps split: if_splits)
  ultimately show ?thesis by blast
next
  case (hh_join i role u)
  then have "owns h' x = owns h x" for x by (auto simp: owns_def hh_simps)
  with assms(2) show ?thesis by simp
next
  case (hh_child i g p)
  then have "owns h' x = owns h x" for x by (auto simp: owns_def hh_simps)
  with assms(2) show ?thesis by simp
next
  case (hh_role i p role h2)
  then have "owns h' x = owns h x" for x by (auto simp: owns_def hh_simps)
  with assms(2) show ?thesis by simp
next
  case (hh_remove i p)
  then have "owns h' x = owns h x" for x by (auto simp: owns_def hh_simps)
  with assms(2) show ?thesis by simp
qed (simp_all add: owns_def)

lemma step_people:
  assumes "hh_step h h'" "people_ok h"
  shows "people_ok h'"
  using assms by (cases rule: hh_step.cases) (auto simp: people_ok_def hh_simps)

lemma account_set:
  "account (set_person h i p) = (account h)(i := if p_alive p then p_user p else None)"
  "account (drop_guard h g) = account h" "account (h\<lparr>guards := x\<rparr>) = account h"
  by (auto simp: account_def hh_simps fun_eq_iff)

lemma account_Some: "people h i = Some p \<Longrightarrow> p_alive p \<Longrightarrow> account h i = p_user p"
  by (simp add: account_def)

lemma step_account:
  assumes "hh_step h h'"
  shows "account h' = account h
    \<or> (\<exists>i u. account h' = (account h)(i := u) \<and> (u = None \<or> \<not> linked_elsewhere h u))"
  using assms
proof (cases rule: hh_step.cases)
  case (hh_role i p role h2)
  then have "account h' = account h" by (auto simp: account_set account_Some fun_eq_iff split: if_splits)
  then show ?thesis ..
next
  case (hh_transfer i p j q)
  then have "account h' = account h" by (auto simp: account_set account_Some fun_eq_iff)
  then show ?thesis ..
qed (auto simp: account_set)

lemma step_accounts:
  assumes "hh_step h h'" "accounts_distinct h"
  shows "accounts_distinct h'"
  using step_account [OF assms(1)] assms(2)
  by (auto simp: accounts_distinct_def linked_elsewhere_def split: if_splits)

text \<open>A change of one person keeps the guards if it keeps the kind and, of a guardian, the right.\<close>

lemma guards_ok_set:
  assumes "guards_ok h" "people h i = Some p" "p_kind q = p_kind p"
    and "(\<exists>c. (i, c) \<in> guards h) \<Longrightarrow> p_alive q \<and> eligible q"
  shows "guards_ok (set_person h i q)"
  unfolding guards_ok_def hh_simps
proof (intro allI impI conjI)
  fix g c assume gc: "(g, c) \<in> guards h"
  with assms(1) have o: "\<exists>p. people h g = Some p \<and> p_alive p \<and> eligible p"
    "\<exists>q. people h c = Some q \<and> p_kind q = ChildKind" by (auto simp: guards_ok_def)
  show "\<exists>p. ((people h)(i \<mapsto> q)) g = Some p \<and> p_alive p \<and> eligible p"
    using o(1) assms(4) gc by (cases "g = i") auto
  show "\<exists>r. ((people h)(i \<mapsto> q)) c = Some r \<and> p_kind r = ChildKind"
    using o(2) assms(2,3) by (cases "c = i") auto
qed

lemma guards_ok_drop: "guards_ok h \<Longrightarrow> guards_ok (drop_guard h g)"
  unfolding guards_ok_def by (simp add: hh_simps) blast

lemma guardianD:
  assumes "guards_ok h" "(g, c) \<in> guards h" "people h g = Some p"
  shows "p_alive p" "eligible p"
proof -
  have "\<exists>p. people h g = Some p \<and> p_alive p \<and> eligible p"
    using assms(1,2) unfolding guards_ok_def by blast
  with assms(3) show "p_alive p" "eligible p" by auto
qed

lemma step_guards:
  assumes "hh_step h h'" "guards_ok h"
  shows "guards_ok h'"
  using assms
proof (cases rule: hh_step.cases)
  case (hh_role i p role h2)
  show ?thesis
  proof (cases "eligible p \<and> \<not> eligible (p\<lparr>p_role := role\<rparr>)")
    case True
    then have "h2 = drop_guard h i" using hh_role by simp
    then show ?thesis unfolding hh_role(1) using hh_role(2) assms(2)
      by (intro guards_ok_set [of _ i p]) (auto simp: guards_ok_drop hh_simps)
  next
    case False
    then have h2: "h2 = h" using hh_role by auto
    have "eligible p" if "(i, c) \<in> guards h" for c
      using guardianD(2) [OF assms(2) that hh_role(2)] .
    then show ?thesis unfolding hh_role(1) h2 using hh_role False assms(2)
      by (intro guards_ok_set [of _ i p]) auto
  qed
next
  case (hh_remove i p)
  then show ?thesis unfolding hh_remove(1) using assms(2)
    by (intro guards_ok_set [of _ i p]) (auto simp: guards_ok_drop hh_simps)
next
  case (hh_transfer i p j q)
  have "eligible (p\<lparr>p_role := AdultRole\<rparr>)" if "(i, c) \<in> guards h" for c
  proof -
    have "eligible p" by (rule guardianD(2) [OF assms(2) that hh_transfer(2)])
    then show ?thesis by (simp add: eligible_def is_eligible_guardian_def)
  qed
  then have "guards_ok (set_person h i (p\<lparr>p_role := AdultRole\<rparr>))"
    using hh_transfer assms(2) by (intro guards_ok_set [of _ i p]) auto
  moreover have "eligible (q\<lparr>p_role := Owner\<rparr>)"
    using hh_transfer by (simp add: eligible_def is_eligible_guardian_def)
  ultimately show ?thesis unfolding hh_transfer(1) using hh_transfer
    by (intro guards_ok_set [of _ j q]) (auto simp: hh_simps)
qed (use assms(2) in \<open>fastforce simp: guards_ok_def hh_simps split: if_splits\<close>)+

lemma kept_guard:
  assumes "replaceable h g" "(x, c) \<in> guards h"
  shows "\<exists>y. (y, c) \<in> guards (drop_guard h g)"
  using assms by (cases "x = g") (auto simp: replaceable_def covered_without_def hh_simps)

lemma step_children:
  assumes "hh_step h h'" "children_guarded h"
  shows "children_guarded h'"
  using assms
proof (cases rule: hh_step.cases)
  case (hh_end g c)
  then show ?thesis using assms(2) by (auto simp: children_guarded_def covered_without_def)
next
  case (hh_role i p role h2)
  then have "\<exists>y. (y, c) \<in> guards h'" if "(x, c) \<in> guards h" for x c
    using that kept_guard [of h i x c] by (auto simp: hh_simps split: if_splits)
  with hh_role assms(2) show ?thesis
    unfolding children_guarded_def by (auto simp: hh_simps split: if_splits)
next
  case (hh_remove i p)
  then have "\<exists>y. (y, c) \<in> guards h'" if "(x, c) \<in> guards h" for x c
    using that kept_guard [of h i x c] by (auto simp: hh_simps)
  with hh_remove assms(2) show ?thesis
    unfolding children_guarded_def by (auto simp: hh_simps split: if_splits)
next
  case (hh_transfer i p j q)
  then show ?thesis using assms(2) unfolding children_guarded_def by (auto simp: hh_simps)
qed (use assms(2) in \<open>auto simp: children_guarded_def hh_simps\<close>)

lemma hh_step_inv: "hh_step h h' \<Longrightarrow> hh_inv h \<Longrightarrow> hh_inv h'"
  unfolding hh_inv_def
  by (auto dest: step_owner step_people step_guards step_children step_accounts)

inductive hh_reachable :: "household \<Rightarrow> bool" where
  hh_start: "hh_reachable (founded i u)"
| hh_next: "hh_reachable h \<Longrightarrow> hh_step h h' \<Longrightarrow> hh_reachable h'"

lemma hh_reachable_inv: "hh_reachable h \<Longrightarrow> hh_inv h"
  by (induction rule: hh_reachable.induct) (auto intro: founded_inv hh_step_inv)

end
