(* ===== verification/Family_Facts.thy ===== *)
theory Family_Facts
  imports Family_Commands Household
begin

text \<open>
  The Family tables: what an upsert does to a table with unique keys, the invariant of the
  tables, and each command as a change of the household its family is.
\<close>

section \<open>Tables with keys and unique indexes\<close>

interpretation member_table: keyed_table m_id member_shape member_clash
  by standard (auto simp: member_clash_def)

interpretation guardianship_table: keyed_table g_id "\<lambda>_. True" guardianship_clash
  by standard (auto simp: guardianship_clash_def)

interpretation invitation_table: keyed_table i_id "\<lambda>i. i_role i \<noteq> Owner" invitation_clash
  by standard (auto simp: invitation_clash_def)

interpretation family_table: keyed_table f_id "\<lambda>_. True" "\<lambda>_ _. False"
  by standard auto

section \<open>The invariant of the tables\<close>

text \<open>
  Besides what the indexes guarantee: a row's family exists, a guardianship is between members
  of its own family, and an accepted invitation names the member it made.
\<close>

definition refs_ok :: "family_store \<Rightarrow> bool" where
  "refs_ok s \<longleftrightarrow>
     (\<forall>m \<in> set (mem_rows s). m_family m \<in> f_id ` set (fam_rows s))
     \<and> (\<forall>g \<in> set (gua_rows s). \<exists>a \<in> set (mem_rows s). \<exists>c \<in> set (mem_rows s).
          m_id a = g_guardian g \<and> m_id c = g_child g \<and> m_family a = g_family g \<and> m_family c = g_family g)"

definition family_db :: "family_store \<Rightarrow> bool" where
  "family_db s \<longleftrightarrow>
     family_table.sound (fam_rows s) \<and> member_table.sound (mem_rows s)
     \<and> guardianship_table.sound (gua_rows s) \<and> invitation_table.sound (inv_rows s) \<and> refs_ok s"

text \<open>The household a family is.\<close>

definition person_of :: "family_member \<Rightarrow> person" where
  "person_of m = \<lparr>p_kind = m_kind m, p_role = m_role m, p_user = m_user m, p_alive = is_active m\<rparr>"

definition household_of :: "family_id \<Rightarrow> family_store \<Rightarrow> household" where
  "household_of fam s =
     \<lparr>people = (\<lambda>i. map_option person_of (tbl_find m_id i (family_members fam s))),
      guards = (\<lambda>g. (g_guardian g, g_child g)) ` set (active_guardianships fam s)\<rparr>"

lemma people_iff:
  assumes "member_table.sound (mem_rows s)"
  shows "people (household_of fam s) i = Some p \<longleftrightarrow>
    (\<exists>m \<in> set (mem_rows s). m_id m = i \<and> m_family m = fam \<and> person_of m = p)"
proof -
  have "member_table.sound (family_members fam s)"
    using assms by (auto simp: member_table.sound_def family_members_def distinct_map_filter)
  from member_table.sound_find [OF this] show ?thesis
    by (auto simp: household_of_def family_members_def)
qed

lemma guards_iff:
  "(g, c) \<in> guards (household_of fam s) \<longleftrightarrow>
     (\<exists>x \<in> set (gua_rows s). g_family x = fam \<and> g_ended x = None \<and> g_guardian x = g \<and> g_child x = c)"
  by (auto simp: household_of_def active_guardianships_def)

lemma household_eqI:
  assumes "\<And>i p. people h i = Some p \<longleftrightarrow> people h' i = Some p" "\<And>g c. (g, c) \<in> guards h \<longleftrightarrow> (g, c) \<in> guards h'"
  shows "h = (h' :: household)"
proof -
  have "people h = people h'"
  proof
    fix i show "people h i = people h' i" using assms(1) [of i] by (metis not_Some_eq)
  qed
  moreover have "guards h = guards h'" using assms(2) by auto
  ultimately show ?thesis by simp
qed

section \<open>What a save does\<close>

lemma family_dbD:
  "family_db s \<Longrightarrow> member_table.sound (mem_rows s)" "family_db s \<Longrightarrow> guardianship_table.sound (gua_rows s)"
  "family_db s \<Longrightarrow> invitation_table.sound (inv_rows s)" "family_db s \<Longrightarrow> family_table.sound (fam_rows s)"
  "family_db s \<Longrightarrow> refs_ok s"
  by (simp_all add: family_db_def)

text \<open>A change of the logs alone.\<close>

lemma household_logs [simp]:
  "household_of fam (s\<lparr>fs_outbox := x\<rparr>) = household_of fam s"
  "household_of fam (s\<lparr>fs_audit := y\<rparr>) = household_of fam s"
  "household_of fam (s\<lparr>fs_mail := z\<rparr>) = household_of fam s"
  "household_of fam (s\<lparr>inv_rows := w\<rparr>) = household_of fam s"
  "household_of fam (s\<lparr>fam_rows := v\<rparr>) = household_of fam s"
  by (simp_all add: household_of_def family_members_def active_guardianships_def)

lemma family_db_logs [simp]:
  "family_db (s\<lparr>fs_outbox := x\<rparr>) = family_db s" "family_db (s\<lparr>fs_audit := y\<rparr>) = family_db s"
  "family_db (s\<lparr>fs_mail := z\<rparr>) = family_db s"
  by (simp_all add: family_db_def refs_ok_def)

lemma saved_member:
  assumes db: "family_db s" and run: "save_member fam m s = (Inr (), s1)" and fam: "m_family m = fam"
  shows "family_db s1" "household_of fam s1 = set_person (household_of fam s) (m_id m) (person_of m)"
    "f \<noteq> fam \<Longrightarrow> household_of f s1 = household_of f s"
    "gua_rows s1 = gua_rows s" "inv_rows s1 = inv_rows s" "fam_rows s1 = fam_rows s" "fs_now s1 = fs_now s"
    "fs_outbox s1 = fs_outbox s"
proof -
  note ok = family_dbD(1) [OF db]
  let ?new = "m\<lparr>m_created := fs_now s, m_updated := fs_now s\<rparr>"
  let ?ch = "\<lambda>r. r\<lparr>m_kind := m_kind m, m_role := m_role m, m_user := m_user m, m_name := m_name m,
           m_born := m_born m, m_removed := m_removed m, m_updated := fs_now s\<rparr>"
  obtain rows where rows: "upsert m_id (\<lambda>r. m_family r = fam) member_shape member_clash
         (\<lambda>r. m_family r \<in> f_id ` set (fam_rows s)) ?new ?ch (mem_rows s) = Inr rows" "s1 = s\<lparr>mem_rows := rows\<rparr>"
    using run by (auto simp: save_member_def split: sum.splits)
  have ch: "m_id (?ch r) = m_id r" for r by simp
  have "\<exists>x. member_table.sound rows \<and> m_id x = m_id m \<and> m_family x = fam \<and> person_of x = person_of m
      \<and> fam \<in> f_id ` set (fam_rows s)
      \<and> set rows = insert x {r \<in> set (mem_rows s). m_id r \<noteq> m_id m}
      \<and> (\<forall>r \<in> set (mem_rows s). m_id r = m_id m \<longrightarrow> m_family r = fam)"
    using ok rows(1) ch
  proof (cases rule: member_table.upsert_cases)
    case inserted
    then show ?thesis using fam
      by (intro exI [of _ ?new]) (auto simp: person_of_def is_active_def)
  next
    case (updated r)
    have u: "x = r" if "x \<in> set (mem_rows s)" "m_id x = m_id m" for x
      using member_table.sound_key [OF ok that(1) updated(1)] updated(2) that(2) by simp
    have e: "{x \<in> set (mem_rows s). m_id x \<noteq> m_id m} = set (mem_rows s) - {r}"
      using u updated(2) by auto
    have o: "\<forall>x \<in> set (mem_rows s). m_id x = m_id m \<longrightarrow> m_family x = fam"
      using u updated(3) by blast
    have f: "fam \<in> f_id ` set (fam_rows s)" using updated(3,5) by simp
    show ?thesis
      by (intro exI [of _ "?ch r"] conjI)
        (use updated(2,3) o f in \<open>simp_all add: e updated(4,6) person_of_def is_active_def\<close>)
  qed
  then obtain x where x: "member_table.sound rows" "m_id x = m_id m" "m_family x = fam" "person_of x = person_of m"
    "fam \<in> f_id ` set (fam_rows s)" "set rows = insert x {r \<in> set (mem_rows s). m_id r \<noteq> m_id m}"
    "\<forall>r \<in> set (mem_rows s). m_id r = m_id m \<longrightarrow> m_family r = fam" by blast
  have ids: "\<exists>b \<in> set rows. m_id b = m_id a \<and> m_family b = m_family a" if "a \<in> set (mem_rows s)" for a
    using that x by (cases "m_id a = m_id m") auto
  have "\<forall>r \<in> set rows. m_family r \<in> f_id ` set (fam_rows s)"
    using x family_dbD(5) [OF db] by (auto simp: refs_ok_def)
  moreover have "\<exists>a \<in> set rows. \<exists>c \<in> set rows.
        m_id a = g_guardian g \<and> m_id c = g_child g \<and> m_family a = g_family g \<and> m_family c = g_family g"
    if g: "g \<in> set (gua_rows s)" for g
  proof -
    from g obtain a c where "a \<in> set (mem_rows s)" "c \<in> set (mem_rows s)" "m_id a = g_guardian g"
      "m_id c = g_child g" "m_family a = g_family g" "m_family c = g_family g"
      using family_dbD(5) [OF db] unfolding refs_ok_def by blast
    with ids [of a] ids [of c] show ?thesis by metis
  qed
  ultimately have "refs_ok s1" by (simp add: refs_ok_def rows(2))
  then show "family_db s1" using db x(1) by (simp add: family_db_def rows(2))
  have p: "people (household_of f (s\<lparr>mem_rows := rows\<rparr>)) i = Some q \<longleftrightarrow>
      (\<exists>r \<in> set rows. m_id r = i \<and> m_family r = f \<and> person_of r = q)" for f i q
    using people_iff [of "s\<lparr>mem_rows := rows\<rparr>"] x(1) by simp
  show "household_of fam s1 = set_person (household_of fam s) (m_id m) (person_of m)"
    by (rule household_eqI) (auto simp: p people_iff [OF ok] hh_simps x guards_iff rows(2))
  show "household_of f s1 = household_of f s" if "f \<noteq> fam"
    by (rule household_eqI) (use that x(7) in \<open>auto simp: p people_iff [OF ok] x(3,6) guards_iff rows(2)\<close>)
  show "gua_rows s1 = gua_rows s" "inv_rows s1 = inv_rows s" "fam_rows s1 = fam_rows s" "fs_now s1 = fs_now s"
    "fs_outbox s1 = fs_outbox s"
    by (simp_all add: rows(2))
qed

text \<open>A change of the guardianships alone.\<close>

lemma changed_guards:
  assumes "family_db s" "guardianship_table.sound rows"
    and "\<forall>g \<in> set rows. (\<exists>x \<in> set (gua_rows s). g_guardian x = g_guardian g \<and> g_child x = g_child g \<and> g_family x = g_family g)
      \<or> (\<exists>p q. people (household_of (g_family g) s) (g_guardian g) = Some p
          \<and> people (household_of (g_family g) s) (g_child g) = Some q)"
  shows "family_db (s\<lparr>gua_rows := rows\<rparr>)"
proof -
  note ok = family_dbD [OF assms(1)]
  have "\<exists>a \<in> set (mem_rows s). \<exists>c \<in> set (mem_rows s).
       m_id a = g_guardian g \<and> m_id c = g_child g \<and> m_family a = g_family g \<and> m_family c = g_family g"
    if "g \<in> set rows" for g
    using bspec [OF assms(3) that]
  proof
    assume "\<exists>x \<in> set (gua_rows s). g_guardian x = g_guardian g \<and> g_child x = g_child g \<and> g_family x = g_family g"
    then show ?thesis using ok(5) unfolding refs_ok_def by metis
  qed (auto simp: people_iff [OF ok(1)])
  with ok(5) have "refs_ok (s\<lparr>gua_rows := rows\<rparr>)" by (simp add: refs_ok_def)
  with ok assms(2) show ?thesis by (simp add: family_db_def)
qed

lemma people_gua [simp]: "people (household_of f (s\<lparr>gua_rows := rows\<rparr>)) = people (household_of f s)"
  by (simp add: household_of_def family_members_def)

lemma granted:
  assumes db: "family_db s" and run: "save_guardianship fam g s = (Inr (), s1)"
    and new: "g_id g \<notin> g_id ` set (gua_rows s)" "g_family g = fam" "g_ended g = None"
      "people (household_of fam s) (g_guardian g) = Some p" "people (household_of fam s) (g_child g) = Some q"
  shows "family_db s1" "mem_rows s1 = mem_rows s" "fam_rows s1 = fam_rows s" "gua_rows s1 = gua_rows s @ [g\<lparr>g_established := fs_now s\<rparr>]"
    "household_of fam s1 = (household_of fam s)\<lparr>guards := insert (g_guardian g, g_child g) (guards (household_of fam s))\<rparr>"
    "f \<noteq> fam \<Longrightarrow> household_of f s1 = household_of f s"
proof -
  note ok = family_dbD [OF db]
  let ?new = "g\<lparr>g_established := fs_now s\<rparr>"
  obtain rows where rows: "upsert g_id (\<lambda>r. g_family r = fam) (\<lambda>_. True) guardianship_clash
         (\<lambda>r. g_family r \<in> f_id ` set (fam_rows s) \<and> {g_guardian r, g_child r} \<subseteq> m_id ` set (mem_rows s))
         ?new (\<lambda>r. r\<lparr>g_ended := g_ended g\<rparr>) (gua_rows s) = Inr rows" "s1 = s\<lparr>gua_rows := rows\<rparr>"
    using run by (auto simp: save_guardianship_def split: sum.splits)
  have ch: "g_id (r\<lparr>g_ended := g_ended g\<rparr>) = g_id r" for r by simp
  have r: "rows = gua_rows s @ [?new] \<and> guardianship_table.sound rows"
    using ok(2) rows(1) ch
    by (cases rule: guardianship_table.upsert_cases) (simp, use new(1) in \<open>force simp: image_iff\<close>)
  show "family_db s1" unfolding rows(2)
    using r new by (intro changed_guards [OF db]) (auto simp del: people_gua)
  show "mem_rows s1 = mem_rows s" "fam_rows s1 = fam_rows s" "gua_rows s1 = gua_rows s @ [?new]" by (simp_all add: rows(2) r)
  show "household_of fam s1 = (household_of fam s)\<lparr>guards := insert (g_guardian g, g_child g) (guards (household_of fam s))\<rparr>"
    using new by (intro household_eqI) (auto simp: rows(2) guards_iff r)
  show "household_of f s1 = household_of f s" if "f \<noteq> fam"
    using new that by (intro household_eqI) (auto simp: rows(2) guards_iff r)
qed

text \<open>Ending an active guardianship cannot fail.\<close>

lemma ended:
  assumes db: "family_db s" and g: "g \<in> set (gua_rows s)" "g_family g = fam" "g_ended g = None"
  obtains rows where
    "save_guardianship fam (end_guardianship_record g now) s = (Inr (), s\<lparr>gua_rows := rows\<rparr>)"
    "family_db (s\<lparr>gua_rows := rows\<rparr>)" "set rows = insert (end_guardianship_record g now) (set (gua_rows s) - {g})"
    "household_of fam (s\<lparr>gua_rows := rows\<rparr>) =
       (household_of fam s)\<lparr>guards := guards (household_of fam s) - {(g_guardian g, g_child g)}\<rparr>"
    "\<And>f. f \<noteq> fam \<Longrightarrow> household_of f (s\<lparr>gua_rows := rows\<rparr>) = household_of f s"
proof -
  note ok = family_dbD [OF db]
  let ?new = "(end_guardianship_record g now)\<lparr>g_established := fs_now s\<rparr>"
  let ?refs = "\<lambda>r. g_family r \<in> f_id ` set (fam_rows s) \<and> {g_guardian r, g_child r} \<subseteq> m_id ` set (mem_rows s)"
  let ?run = "upsert g_id (\<lambda>r. g_family r = fam) (\<lambda>_. True) guardianship_clash ?refs ?new
    (\<lambda>r. r\<lparr>g_ended := g_ended (end_guardianship_record g now)\<rparr>) (gua_rows s)"
  let ?rows = "tbl_update (\<lambda>x. g_id x = g_id g \<and> g_family x = fam) (\<lambda>_. end_guardianship_record g now) (gua_rows s)"
  have "guardianship_table.sound (filter (\<lambda>r. g_family r = fam) (gua_rows s))"
    using ok(2) by (auto simp: guardianship_table.sound_def distinct_map_filter)
  then have found: "tbl_find g_id (g_id ?new) (filter (\<lambda>r. g_family r = fam) (gua_rows s)) = Some g"
    using g by (simp add: guardianship_table.sound_find end_guardianship_record_def)
  obtain a c where "a \<in> set (mem_rows s)" "c \<in> set (mem_rows s)" "m_id a = g_guardian g" "m_id c = g_child g" "m_family a = g_family g"
    using ok(5) g(1) unfolding refs_ok_def by blast
  then have refs: "?refs g" using ok(5) unfolding refs_ok_def by force
  have run: "?run = Inr ?rows"
    unfolding upsert_def found using refs by (simp add: guardianship_clash_def end_guardianship_record_def list_ex_iff)
  have same: "x = g" if "x \<in> set (gua_rows s)" "g_id x = g_id g" for x
    using guardianship_table.sound_key [OF ok(2) that(1) g(1) that(2)] .
  have s: "set ?rows = insert (end_guardianship_record g now) (set (gua_rows s) - {g})"
    unfolding set_tbl_update using same g by (auto simp: image_iff)
  have ch: "g_id (r\<lparr>g_ended := g_ended (end_guardianship_record g now)\<rparr>) = g_id r" for r by simp
  have sound: "guardianship_table.sound ?rows"
    using ok(2) run ch by (cases rule: guardianship_table.upsert_cases) auto
  have only: "x = g" if "x \<in> set (gua_rows s)" "g_ended x = None" "g_guardian x = g_guardian g" "g_child x = g_child g" for x
    using guardianship_table.sound_clash [OF ok(2) that(1) g(1)] that g by (simp add: guardianship_clash_def)
  define R where "R = ?rows"
  note run = run [folded R_def] and s = s [folded R_def] and sound = sound [folded R_def]
  show thesis
  proof (rule that)
    show "save_guardianship fam (end_guardianship_record g now) s = (Inr (), s\<lparr>gua_rows := R\<rparr>)"
      unfolding save_guardianship_def run by simp
    show "family_db (s\<lparr>gua_rows := R\<rparr>)"
      by (rule changed_guards [OF db sound]) (use g(1) in \<open>auto simp: s end_guardianship_record_def\<close>)
    show "household_of fam (s\<lparr>gua_rows := R\<rparr>) =
       (household_of fam s)\<lparr>guards := guards (household_of fam s) - {(g_guardian g, g_child g)}\<rparr>"
      by (rule household_eqI) (use g only in \<open>auto simp: guards_iff s end_guardianship_record_def\<close>)
    show "household_of f (s\<lparr>gua_rows := R\<rparr>) = household_of f s" if "f \<noteq> fam" for f
      by (rule household_eqI) (use g that in \<open>auto simp: guards_iff s end_guardianship_record_def\<close>)
  qed (rule s)
qed

section \<open>What a guardian would give up\<close>

lemma two_elements:
  assumes "distinct xs" "x \<in> set xs"
  shows "2 \<le> length xs \<longleftrightarrow> (\<exists>y \<in> set xs. y \<noteq> x)"
proof
  assume "2 \<le> length xs"
  then obtain a b ys where "xs = a # b # ys" by (metis Suc_le_length_iff numeral_2_eq_2)
  then show "\<exists>y \<in> set xs. y \<noteq> x" using assms(1) by (cases "a = x") auto
next
  assume "\<exists>y \<in> set xs. y \<noteq> x"
  then obtain y where "{x, y} \<subseteq> set xs" "y \<noteq> x" using assms(2) by auto
  then have "2 \<le> card (set xs)" using card_mono [of "set xs" "{x, y}"] by simp
  then show "2 \<le> length xs" using assms(1) by (simp add: distinct_card)
qed

definition guardianships_of :: "family_id \<Rightarrow> member_id \<Rightarrow> family_store \<Rightarrow> guardianship list" where
  "guardianships_of fam i s = filter (\<lambda>g. g_guardian g = i) (active_guardianships fam s)"

lemma active_distinct:
  assumes "family_db s"
  shows "distinct (active_guardianships fam s)"
  using family_dbD(2) [OF assms]
  by (auto simp: active_guardianships_def guardianship_table.sound_def distinct_map)

lemma active_eqI:
  assumes "family_db s" "x \<in> set (active_guardianships fam s)" "y \<in> set (active_guardianships fam s)"
    "g_guardian x = g_guardian y" "g_child x = g_child y"
  shows "x = y"
  using guardianship_table.sound_clash [OF family_dbD(2) [OF assms(1)], of x y] assms
  by (auto simp: active_guardianships_def guardianship_clash_def)

lemma find_active_Some:
  assumes "family_db s" "x \<in> set (active_guardianships fam s)"
  shows "find_active fam (g_guardian x) (g_child x) s = (Inr (Some x), s)"
proof -
  let ?P = "\<lambda>g. g_guardian g = g_guardian x \<and> g_child g = g_child x"
  obtain y where "List.find ?P (active_guardianships fam s) = Some y"
    using assms(2) by (cases "List.find ?P (active_guardianships fam s)") (auto simp: find_None_iff)
  moreover from this have "y \<in> set (active_guardianships fam s)" "?P y" by (auto simp: find_Some_iff)
  with active_eqI [OF assms(1) this(1) assms(2)] have "y = x" by simp
  ultimately show ?thesis by (simp add: find_active_def)
qed

lemma find_active_Inr:
  assumes "find_active fam i c s = (Inr r, s')"
  shows "s' = s" "r = None \<longleftrightarrow> (i, c) \<notin> guards (household_of fam s)"
    "r = Some x \<Longrightarrow> x \<in> set (gua_rows s) \<and> g_family x = fam \<and> g_ended x = None \<and> g_guardian x = i \<and> g_child x = c"
proof -
  show "s' = s" using assms by (auto simp: find_active_def)
  show "r = None \<longleftrightarrow> (i, c) \<notin> guards (household_of fam s)"
    using assms by (auto simp: find_active_def find_None_iff guards_iff active_guardianships_def) fastforce+
  show "r = Some x \<Longrightarrow> x \<in> set (gua_rows s) \<and> g_family x = fam \<and> g_ended x = None \<and> g_guardian x = i \<and> g_child x = c"
    using assms by (auto simp: find_active_def find_Some_iff active_guardianships_def dest!: nth_mem)
qed

lemma count_covered:
  assumes "family_db s" "(i, c) \<in> guards (household_of fam s)"
  shows "2 \<le> length (filter (\<lambda>g. g_child g = c) (active_guardianships fam s)) \<longleftrightarrow> covered_without (household_of fam s) i c"
proof -
  from assms(2) obtain x where x: "x \<in> set (active_guardianships fam s)" "g_guardian x = i" "g_child x = c"
    by (auto simp: household_of_def)
  have "2 \<le> length (filter (\<lambda>g. g_child g = c) (active_guardianships fam s))
      \<longleftrightarrow> (\<exists>y \<in> set (active_guardianships fam s). g_child y = c \<and> y \<noteq> x)"
    using two_elements [of "filter (\<lambda>g. g_child g = c) (active_guardianships fam s)" x] x active_distinct [OF assms(1)]
    by (simp add: Bex_def)
  also have "\<dots> \<longleftrightarrow> covered_without (household_of fam s) i c"
  proof -
    have "y \<noteq> x \<longleftrightarrow> g_guardian y \<noteq> i" if "y \<in> set (active_guardianships fam s)" "g_child y = c" for y
      using active_eqI [OF assms(1) x(1) that(1)] x(2,3) that(2) by metis
    moreover have "covered_without (household_of fam s) i c
        \<longleftrightarrow> (\<exists>y \<in> set (active_guardianships fam s). g_child y = c \<and> g_guardian y \<noteq> i)"
      by (auto simp: covered_without_def household_of_def image_iff)
    ultimately show ?thesis by blast
  qed
  finally show ?thesis .
qed

lemma all_covered_run:
  "all_covered fam cs s =
     (Inr (if \<forall>c \<in> set cs. 2 \<le> length (filter (\<lambda>g. g_child g = c) (active_guardianships fam s))
       then Inr () else Inl LastGuardian), s)"
  by (induction cs) (auto simp: count_active_for_child_def assert_guardian_coverage_def)

lemma collect_active_run:
  assumes "family_db s" "set gs \<subseteq> set (guardianships_of fam i s)"
  shows "collect_active fam i (map g_child gs) s = (Inr gs, s)"
  using assms(2)
proof (induction gs)
  case (Cons g gs)
  then have "g \<in> set (active_guardianships fam s)" "g_guardian g = i" by (auto simp: guardianships_of_def)
  with find_active_Some [OF assms(1), of g] Cons show ?case by simp
qed simp

lemma guardianships_to_end_run:
  assumes "family_db s"
  shows "guardianships_to_end fam i s =
    (Inr (if replaceable (household_of fam s) i then Inr (guardianships_of fam i s) else Inl LastGuardian), s)"
proof -
  have children: "list_active_children fam i s = (Inr (map g_child (guardianships_of fam i s)), s)"
    by (simp add: list_active_children_def guarded_by_def guardianships_of_def)
  have "(\<forall>c \<in> g_child ` set (guardianships_of fam i s).
        2 \<le> length (filter (\<lambda>g. g_child g = c) (active_guardianships fam s)))
      \<longleftrightarrow> replaceable (household_of fam s) i"
    using count_covered [OF assms, of i] unfolding replaceable_def
    by (auto simp: household_of_def guardianships_of_def)
  then show ?thesis unfolding guardianships_to_end_def
    by (simp add: children all_covered_run collect_active_run [OF assms order_refl])
qed

lemma end_all_run:
  assumes "family_db s" "distinct gs" "set gs \<subseteq> set (active_guardianships fam s)"
  shows "\<exists>rows. end_all fam gs now s = (Inr (), s\<lparr>gua_rows := rows\<rparr>) \<and> family_db (s\<lparr>gua_rows := rows\<rparr>)
    \<and> household_of fam (s\<lparr>gua_rows := rows\<rparr>) =
       (household_of fam s)\<lparr>guards := guards (household_of fam s) - (\<lambda>g. (g_guardian g, g_child g)) ` set gs\<rparr>
    \<and> (\<forall>f. f \<noteq> fam \<longrightarrow> household_of f (s\<lparr>gua_rows := rows\<rparr>) = household_of f s)"
  using assms
proof (induction gs arbitrary: s)
  case Nil
  have "s\<lparr>gua_rows := gua_rows s\<rparr> = s" by simp
  with Nil show ?case by (intro exI [of _ "gua_rows s"]) (simp add: end_all_def)
next
  case (Cons g gs)
  then have g: "g \<in> set (gua_rows s)" "g_family g = fam" "g_ended g = None" by (auto simp: active_guardianships_def)
  obtain rows where r: "save_guardianship fam (end_guardianship_record g now) s = (Inr (), s\<lparr>gua_rows := rows\<rparr>)"
    "family_db (s\<lparr>gua_rows := rows\<rparr>)" "set rows = insert (end_guardianship_record g now) (set (gua_rows s) - {g})"
    "household_of fam (s\<lparr>gua_rows := rows\<rparr>) =
       (household_of fam s)\<lparr>guards := guards (household_of fam s) - {(g_guardian g, g_child g)}\<rparr>"
    "\<And>f. f \<noteq> fam \<Longrightarrow> household_of f (s\<lparr>gua_rows := rows\<rparr>) = household_of f s"
    using ended [OF Cons.prems(1) g, where now = now] by blast
  have "set gs \<subseteq> set (active_guardianships fam (s\<lparr>gua_rows := rows\<rparr>))"
    using Cons.prems(2,3) by (auto simp: active_guardianships_def r(3))
  from Cons.IH [OF r(2) _ this] Cons.prems(2) obtain rows' where
    r': "end_all fam gs now (s\<lparr>gua_rows := rows\<rparr>) = (Inr (), s\<lparr>gua_rows := rows'\<rparr>)"
    "family_db (s\<lparr>gua_rows := rows'\<rparr>)"
    "household_of fam (s\<lparr>gua_rows := rows'\<rparr>) = (household_of fam (s\<lparr>gua_rows := rows\<rparr>))
       \<lparr>guards := guards (household_of fam (s\<lparr>gua_rows := rows\<rparr>)) - (\<lambda>g. (g_guardian g, g_child g)) ` set gs\<rparr>"
    "\<forall>f. f \<noteq> fam \<longrightarrow> household_of f (s\<lparr>gua_rows := rows'\<rparr>) = household_of f (s\<lparr>gua_rows := rows\<rparr>)"
    by (simp del: people_gua) blast
  have "end_all fam (g # gs) now s = (Inr (), s\<lparr>gua_rows := rows'\<rparr>)"
    using r(1) r'(1) by (simp add: end_all_def)
  moreover have "guards (household_of fam s) - {(g_guardian g, g_child g)} - (\<lambda>g. (g_guardian g, g_child g)) ` set gs
      = guards (household_of fam s) - (\<lambda>g. (g_guardian g, g_child g)) ` set (g # gs)" by auto
  ultimately show ?case
    using r(5) r'(2-4) unfolding r(4) by (intro exI [of _ rows']) simp
qed

lemma give_up_run:
  assumes "family_db s"
  obtains rows where "end_all fam (guardianships_of fam i s) now s = (Inr (), s\<lparr>gua_rows := rows\<rparr>)"
    "family_db (s\<lparr>gua_rows := rows\<rparr>)"
    "household_of fam (s\<lparr>gua_rows := rows\<rparr>) = drop_guard (household_of fam s) i"
    "\<And>f. f \<noteq> fam \<Longrightarrow> household_of f (s\<lparr>gua_rows := rows\<rparr>) = household_of f s"
proof -
  have "guards (household_of fam s) - (\<lambda>g. (g_guardian g, g_child g)) ` set (guardianships_of fam i s)
      = {x \<in> guards (household_of fam s). fst x \<noteq> i}"
    by (auto simp: household_of_def guardianships_of_def)
  moreover have "distinct (guardianships_of fam i s)" "set (guardianships_of fam i s) \<subseteq> set (active_guardianships fam s)"
    using active_distinct [OF assms] by (auto simp: guardianships_of_def)
  ultimately show thesis
    using end_all_run [OF assms, of "guardianships_of fam i s" fam now] that unfolding drop_guard_def by auto
qed

end
