(* ===== verification/Family_Command_Facts.thy ===== *)
theory Family_Command_Facts
  imports Family_Facts
begin

text \<open>
  Every Family command as a change of its family's household: it throws or answers an error and
  changes nothing, or it is a step of the abstract household; no other family is touched.
\<close>

definition evolves :: "family_id \<Rightarrow> family_store \<Rightarrow> family_store \<Rightarrow> bool" where
  "evolves fam s s' \<longleftrightarrow>
     family_db s' \<and> f_id ` set (fam_rows s') = f_id ` set (fam_rows s)
     \<and> (household_of fam s' = household_of fam s \<or> hh_step (household_of fam s) (household_of fam s'))
     \<and> (\<forall>f. f \<noteq> fam \<longrightarrow> household_of f s' = household_of f s)"

lemma evolves_refl: "family_db s \<Longrightarrow> evolves fam s s"
  by (simp add: evolves_def)

text \<open>A transaction evolves a family if it does so when it answers.\<close>

lemma evolves_transaction:
  assumes "in_transaction m s = (r, s')" "family_db s"
    and "\<And>v. m s = (Inr v, s') \<Longrightarrow> evolves fam s s'"
  shows "evolves fam s s'"
proof (cases r)
  case (Inl e)
  then have "s' = s" using assms(1) in_transaction_throws by metis
  with assms(2) show ?thesis by (simp add: evolves_refl)
next
  case (Inr v)
  with assms(1,3) show ?thesis by (simp add: in_transaction_Inr)
qed

lemma tx_ok_Inr:
  "tx_ok r f s = (Inr v, s') \<longleftrightarrow>
     (\<exists>e. r = Inl e \<and> v = Inl e \<and> s' = s) \<or> (\<exists>x. r = Inr x \<and> f x s = (Inr v, s'))"
  by (cases r) auto

lemma find_in: "List.find P xs = Some x \<Longrightarrow> x \<in> set xs \<and> P x"
  by (auto simp: find_Some_iff)

lemma event_run [simp]: "fs_event e s = (Inr (), s\<lparr>fs_outbox := fs_outbox s @ [e]\<rparr>)"
  by (simp add: fs_event_def)

lemma evolves_outbox [simp]: "evolves fam s (s'\<lparr>fs_outbox := x\<rparr>) = evolves fam s s'"
  by (simp add: evolves_def)

lemma found_member:
  assumes "family_db s" "tbl_find m_id i (family_members fam s) = Some m"
  shows "m_id m = i" "m_family m = fam" "m \<in> set (mem_rows s)" "people (household_of fam s) i = Some (person_of m)"
proof -
  show m: "m_id m = i" "m_family m = fam" "m \<in> set (mem_rows s)"
    using tbl_find_Some [OF assms(2)] by (auto simp: family_members_def)
  then show "people (household_of fam s) i = Some (person_of m)"
    using people_iff [OF family_dbD(1) [OF assms(1)]] by blast
qed

lemma unknown_member:
  "family_db s \<Longrightarrow> i \<notin> m_id ` set (mem_rows s) \<Longrightarrow> people (household_of fam s) i = None"
  using people_iff [of s fam i] by (auto simp: family_db_def) (metis image_eqI not_None_eq)

lemma find_member_run: "find_member fam i s = (Inr (tbl_find m_id i (family_members fam s)), s)"
  by (simp add: find_member_def)

lemma person_sel [simp]:
  "p_kind (person_of m) = m_kind m" "p_role (person_of m) = m_role m" "p_user (person_of m) = m_user m"
  "p_alive (person_of m) \<longleftrightarrow> is_active m"
  by (simp_all add: person_of_def)

section \<open>Members\<close>

lemma remove_member_cases:
  assumes db: "family_db s" and run: "remove_member fam i cid now s = (Inr v, s')"
  obtains (refused) e where "v = Inl e" "s' = s"
  | (removed) m where "v = Inr ()" "tbl_find m_id i (family_members fam s) = Some m" "is_active m" "m_role m \<noteq> Owner"
      "replaceable (household_of fam s) i" "family_db s'" "fam_rows s' = fam_rows s"
      "household_of fam s' = set_person (drop_guard (household_of fam s) i) i ((person_of m)\<lparr>p_user := None, p_alive := False\<rparr>)"
      "\<And>f. f \<noteq> fam \<Longrightarrow> household_of f s' = household_of f s"
proof (cases "\<exists>e. v = Inl e")
  case False
  with run obtain m where v: "v = Inr ()"
    and m: "tbl_find m_id i (family_members fam s) = Some m" "is_active m" "m_role m \<noteq> Owner"
    and repl: "replaceable (household_of fam s) (m_id m)"
    and rest: "tx_bind (end_all fam (guardianships_of fam (m_id m) s) now) (\<lambda>_.
                tx_bind (save_member fam (remove_member_record m now)) (\<lambda>_.
                tx_bind (fs_event (member_removed_event fam (m_id m) (m_user m \<noteq> None) cid)) (\<lambda>_.
                tx_return (Inr ())))) s = (Inr v, s')"
    by (auto simp: remove_member_def in_transaction_Inr tx_bind_Inr find_member_run guardianships_to_end_run [OF db]
        split: option.splits if_splits)
  note f = found_member [OF db m(1)]
  obtain rows where g: "end_all fam (guardianships_of fam (m_id m) s) now s = (Inr (), s\<lparr>gua_rows := rows\<rparr>)"
    "family_db (s\<lparr>gua_rows := rows\<rparr>)"
    "household_of fam (s\<lparr>gua_rows := rows\<rparr>) = drop_guard (household_of fam s) (m_id m)"
    "\<And>f. f \<noteq> fam \<Longrightarrow> household_of f (s\<lparr>gua_rows := rows\<rparr>) = household_of f s"
    using give_up_run [OF db] by blast
  from rest obtain s1 where s1: "save_member fam (remove_member_record m now) (s\<lparr>gua_rows := rows\<rparr>) = (Inr (), s1)"
    and s': "s' = s1\<lparr>fs_outbox := fs_outbox s1 @ [member_removed_event fam (m_id m) (m_user m \<noteq> None) cid]\<rparr>"
    by (auto simp: tx_bind_Inr g(1))
  have r: "m_family (remove_member_record m now) = fam" "m_id (remove_member_record m now) = i"
    "person_of (remove_member_record m now) = (person_of m)\<lparr>p_user := None, p_alive := False\<rparr>"
    using f by (simp_all add: remove_member_record_def person_of_def is_active_def)
  note sv = saved_member [OF g(2) s1 r(1)]
  show ?thesis
    by (rule removed [OF v m repl [unfolded f(1)]])
      (use sv r g(3,4) f(1) in \<open>simp_all add: s'\<close>)
next
  case True
  then obtain e where e: "v = Inl e" by blast
  with run have "s' = s"
    by (auto simp: remove_member_def in_transaction_Inr tx_bind_Inr find_member_run guardianships_to_end_run [OF db]
        split: option.splits if_splits)
  with e show ?thesis by (rule refused)
qed

lemma remove_member_evolves:
  assumes db: "family_db s" and run: "remove_member fam i cid now s = (r, s')"
  shows "evolves fam s s'"
proof (cases r)
  case (Inl e)
  with run have "s' = s" by (auto simp: remove_member_def dest: in_transaction_throws)
  then show ?thesis by (simp add: evolves_refl [OF db])
next
  case (Inr v)
  from db run [unfolded Inr] show ?thesis
  proof (cases rule: remove_member_cases)
    case (removed m)
    have "hh_step (household_of fam s) (household_of fam s')"
      unfolding removed(8) using found_member(4) [OF db removed(2)] removed by (intro hh_remove) simp_all
    then show ?thesis using removed by (simp add: evolves_def)
  qed (simp add: evolves_refl [OF db])
qed

lemma change_member_role_evolves:
  assumes db: "family_db s" and run: "change_member_role fam i role cid now s = (r, s')"
  shows "evolves fam s s'"
proof (rule evolves_transaction [OF run [unfolded change_member_role_def] db], goal_cases)
  case (1 v)
  let ?h = "household_of fam s"
  show ?case
  proof (cases "s' = s")
    case False
    let ?loses = "\<lambda>m. is_eligible_guardian (m_kind m) (m_role m) \<and> \<not> is_eligible_guardian (m_kind m) role"
    from 1 False obtain m gs m' where m: "tbl_find m_id i (family_members fam s) = Some m" "is_active m"
        "change_role m role now = Inr m'"
      and gs: "?loses m \<and> replaceable ?h (m_id m) \<and> gs = guardianships_of fam (m_id m) s \<or> \<not> ?loses m \<and> gs = []"
      and rest: "tx_bind (end_all fam gs now) (\<lambda>_.
                 tx_bind (save_member fam m') (\<lambda>_.
                 tx_bind (fs_event (member_role_changed_event fam (m_id m') (m_role m) role cid)) (\<lambda>_.
                 tx_return (Inr ())))) s = (Inr v, s')"
      by (auto simp: tx_bind_Inr find_member_run guardianships_to_end_run [OF db] tx_ok_Inr Let_def
          split: option.splits if_splits)
    note f = found_member [OF db m(1)]
    let ?h1 = "if ?loses m then drop_guard ?h i else ?h"
    obtain rows where g: "end_all fam gs now s = (Inr (), s\<lparr>gua_rows := rows\<rparr>)"
      "family_db (s\<lparr>gua_rows := rows\<rparr>)" "household_of fam (s\<lparr>gua_rows := rows\<rparr>) = ?h1"
      "\<And>f. f \<noteq> fam \<Longrightarrow> household_of f (s\<lparr>gua_rows := rows\<rparr>) = household_of f s"
    proof (cases "?loses m")
      case True
      with gs give_up_run [OF db, of fam i now] that f(1) show ?thesis by auto
    next
      case False
      then have "end_all fam gs now s = (Inr (), s\<lparr>gua_rows := gua_rows s\<rparr>)" using gs by (auto simp: end_all_def)
      with False db show ?thesis by (intro that [of "gua_rows s"]) auto
    qed
    from rest obtain s1 where s1: "save_member fam m' (s\<lparr>gua_rows := rows\<rparr>) = (Inr (), s1)"
      and s': "s' = s1\<lparr>fs_outbox := fs_outbox s1 @ [member_role_changed_event fam (m_id m') (m_role m) role cid]\<rparr>"
      by (auto simp: tx_bind_Inr g(1))
    have r: "m_family m' = fam" "m_id m' = i" "person_of m' = (person_of m)\<lparr>p_role := role\<rparr>"
      and c: "m_kind m = AdultKind" "role \<noteq> Owner" "m_role m \<noteq> Owner"
      using m(3) f by (auto simp: change_role_def person_of_def is_active_def split: if_splits)
        (cases "m_kind m", auto)
    note sv = saved_member [OF g(2) s1 r(1)]
    have "hh_step ?h (household_of fam s1)"
      unfolding sv(2) g(3) r(2,3) using f m gs c
      by (intro hh_role) (auto simp: eligible_def)
    then show ?thesis unfolding s' using sv g(4) by (simp add: evolves_def)
  qed (simp add: evolves_refl [OF db])
qed

lemma add_member_evolves:
  assumes db: "family_db s" and run: "add_member fam i adder kind name born gid cid now s = (r, s')"
    and fresh: "i \<notin> m_id ` set (mem_rows s)" "gid \<notin> g_id ` set (gua_rows s)"
    and adder: "\<exists>p. people (household_of fam s) adder = Some p \<and> p_alive p"
  shows "evolves fam s s'"
proof (cases "create_unlinked i fam kind name born now")
  case (Inl e)
  with run db show ?thesis by (simp add: add_member_def evolves_refl)
next
  case new: (Inr m)
  note run' = run [unfolded add_member_def new tx_ok_simps]
  have m: "m_id m = i" "m_family m = fam" "person_of m =
      \<lparr>p_kind = kind, p_role = (if kind = ChildKind then ViewerRole else ExtendedRole), p_user = None, p_alive = True\<rparr>"
    "m_kind m = kind"
    using new by (auto simp: create_unlinked_def person_of_def is_active_def Let_def split: if_splits)
  show ?thesis
  proof (rule evolves_transaction [OF run' db], goal_cases)
    case (1 v)
    let ?h = "household_of fam s"
    have none: "people ?h i = None" using unknown_member [OF db fresh(1)] .
    show ?case
    proof (cases "s' = s")
      case False
      from 1 False obtain a g s1 where a: "tbl_find m_id adder (family_members fam s) = Some a"
        and g: "(if kind = ChildKind then map_result (establish gid fam (m_id a) (m_kind a) (m_role a) i (m_kind m) now) Some
                  else Inr None) = Inr g"
        and s1: "save_member fam m s = (Inr (), s1)"
        and rest: "tx_bind (fs_event (member_added_event fam i (m_kind m) (m_role m) None cid)) (\<lambda>_.
                  tx_bind (case g of
                      None \<Rightarrow> tx_return ()
                    | Some x \<Rightarrow>
                        tx_bind (save_guardianship fam x) (\<lambda>_.
                        fs_event (guardianship_established_event fam (g_guardian x) i cid))) (\<lambda>_.
                  tx_return (Inr i))) s1 = (Inr v, s')"
        by (auto simp: tx_bind_Inr find_member_run tx_ok_Inr split: option.splits)
      note f = found_member [OF db a] and sv = saved_member [OF db s1 m(2)]
      let ?s2 = "s1\<lparr>fs_outbox := fs_outbox s1 @ [member_added_event fam i (m_kind m) (m_role m) None cid]\<rparr>"
      show ?thesis
      proof (cases "kind = ChildKind")
        case False
        then have "s' = ?s2" using rest g by auto
        moreover have "hh_step ?h (household_of fam s1)"
          unfolding sv(2) m using False none by (cases kind) (auto intro!: hh_join simp: linked_elsewhere_def)
        ultimately show ?thesis using sv by (simp add: evolves_def)
      next
        case True
        then obtain x where g': "g = Some x" "establish gid fam (m_id a) (m_kind a) (m_role a) i (m_kind m) now = Inr x"
          using g by (auto simp: map_result_def split: sum.splits)
        have x: "x = \<lparr>g_id = gid, g_family = fam, g_guardian = adder, g_child = i, g_established = now, g_ended = None\<rparr>"
          "is_eligible_guardian (m_kind a) (m_role a)"
          using g'(2) f by (auto simp: establish_def split: if_splits)
        obtain s3 where s3: "save_guardianship fam x ?s2 = (Inr (), s3)"
          and s': "\<exists>y. s' = s3\<lparr>fs_outbox := y\<rparr>"
          using rest g'(1) by (auto simp: tx_bind_Inr)
        have ne: "adder \<noteq> i" using none adder by auto
        have db2: "family_db ?s2" using sv(1) by simp
        have h2: "household_of fam ?s2 = set_person ?h i (person_of m)" using sv(2) m(1) by simp
        have ad: "people (household_of fam ?s2) adder = Some (person_of a)"
          "people (household_of fam ?s2) i = Some (person_of m)"
          unfolding h2 using ne f by (simp_all add: hh_simps)
        have pre: "g_id x \<notin> g_id ` set (gua_rows ?s2)" "g_family x = fam" "g_ended x = None"
          "people (household_of fam ?s2) (g_guardian x) = Some (person_of a)"
          "people (household_of fam ?s2) (g_child x) = Some (person_of m)"
          using fresh(2) ad sv(4) by (simp_all add: x(1))
        note g0 = granted [OF db2 s3 pre]
        have gr: "family_db s3" "fam_rows s3 = fam_rows s1"
          "household_of fam s3 = (set_person ?h i (person_of m))\<lparr>guards := insert (adder, i) (guards ?h)\<rparr>"
          using g0(1,3,5) unfolding h2 x(1) by (simp_all add: hh_simps)
        have others: "household_of f s3 = household_of f s1" if "f \<noteq> fam" for f
          using g0(6) [OF that] by simp
        have "hh_step ?h (household_of fam s3)"
          unfolding gr(3) m using True none f x(2) adder
          by (auto intro!: hh_child simp: eligible_def)
        then show ?thesis using s' gr others sv by (auto simp: evolves_def)
      qed
    qed (simp add: evolves_refl [OF db])
  qed
qed

section \<open>Guardianships\<close>

lemma grant_guardianship_evolves:
  assumes db: "family_db s" and run: "grant_guardianship fam c g gid cid now s = (r, s')"
    and fresh: "gid \<notin> g_id ` set (gua_rows s)"
  shows "evolves fam s s'"
proof (rule evolves_transaction [OF run [unfolded grant_guardianship_def] db], goal_cases)
  case (1 v)
  let ?h = "household_of fam s"
  show ?case
  proof (cases "s' = s")
    case False
    from 1 False obtain b a x s1 where b: "tbl_find m_id c (family_members fam s) = Some b" "is_active b" "m_kind b = ChildKind"
      and a: "tbl_find m_id g (family_members fam s) = Some a" "is_active a"
      and x: "establish gid fam (m_id a) (m_kind a) (m_role a) (m_id b) (m_kind b) now = Inr x"
      and s1: "save_guardianship fam x s = (Inr (), s1)"
      and s': "s' = s1\<lparr>fs_outbox := fs_outbox s1 @ [guardianship_established_event fam (m_id a) (m_id b) cid]\<rparr>"
      by (auto simp: tx_bind_Inr find_member_run tx_ok_Inr find_active_def split: option.splits if_splits)
    note fb = found_member [OF db b(1)] and fa = found_member [OF db a(1)]
    have x': "x = \<lparr>g_id = gid, g_family = fam, g_guardian = g, g_child = c, g_established = now, g_ended = None\<rparr>"
      "is_eligible_guardian (m_kind a) (m_role a)"
      using x fa fb by (auto simp: establish_def split: if_splits)
    have pre: "g_id x \<notin> g_id ` set (gua_rows s)" "g_family x = fam" "g_ended x = None"
      "people ?h (g_guardian x) = Some (person_of a)" "people ?h (g_child x) = Some (person_of b)"
      using fresh fa(4) fb(4) by (simp_all add: x'(1))
    note gr = granted(1,3,5,6) [OF db s1 pre, unfolded x'(1) guardianship.select_convs]
    have "hh_step ?h (household_of fam s1)"
      unfolding gr(3) using fa fb a b x'(2) by (intro hh_grant) (auto simp: eligible_def)
    then show ?thesis using s' gr by (simp add: evolves_def)
  qed (simp add: evolves_refl [OF db])
qed

lemma end_guardianship_evolves:
  assumes db: "family_db s" and run: "end_guardianship fam c g now s = (r, s')"
  shows "evolves fam s s'"
proof (rule evolves_transaction [OF run [unfolded end_guardianship_def] db], goal_cases)
  case (1 v)
  let ?h = "household_of fam s"
  show ?case
  proof (cases "s' = s")
    case False
    from 1 False obtain x where x: "find_active fam g c s = (Inr (Some x), s)"
      and n: "2 \<le> length (filter (\<lambda>g. g_child g = c) (active_guardianships fam s))"
      and s1: "save_guardianship fam (end_guardianship_record x now) s = (Inr (), s')"
      by (auto simp: tx_bind_Inr tx_ok_Inr find_active_def count_active_for_child_def assert_guardian_coverage_def
          split: option.splits if_splits)
    note f = find_active_Inr [OF x]
    have x': "x \<in> set (gua_rows s)" "g_family x = fam" "g_ended x = None" "g_guardian x = g" "g_child x = c"
      using f(3) by auto
    obtain rows where rows: "save_guardianship fam (end_guardianship_record x now) s = (Inr (), s\<lparr>gua_rows := rows\<rparr>)"
      "family_db (s\<lparr>gua_rows := rows\<rparr>)"
      "household_of fam (s\<lparr>gua_rows := rows\<rparr>) = ?h\<lparr>guards := guards ?h - {(g_guardian x, g_child x)}\<rparr>"
      "\<And>f. f \<noteq> fam \<Longrightarrow> household_of f (s\<lparr>gua_rows := rows\<rparr>) = household_of f s"
      by (rule ended [OF db x'(1-3), where now = now]) (rule that; assumption)
    have s': "s' = s\<lparr>gua_rows := rows\<rparr>" using s1 rows(1) by simp
    have "(g, c) \<in> guards ?h" using f(2) by simp
    with count_covered [OF db] n have "covered_without ?h g c" by blast
    then have "hh_step ?h (household_of fam s')"
      unfolding s' rows(3) x'(4,5) by (rule hh_end)
    then show ?thesis using rows by (simp add: evolves_def s')
  qed (simp add: evolves_refl [OF db])
qed

section \<open>Ownership\<close>

lemma transfer_ownership_evolves:
  assumes db: "family_db s" and run: "transfer_ownership fam new cid now s = (r, s')"
  shows "evolves fam s s'"
proof (rule evolves_transaction [OF run [unfolded transfer_ownership_def] db], goal_cases)
  case (1 v)
  let ?h = "household_of fam s"
  show ?case
  proof (cases "s' = s")
    case False
    from 1 False obtain b a b' a' s1 s2 where b: "tbl_find m_id new (family_members fam s) = Some b" "is_active b"
      and a: "List.find (\<lambda>m. m_role m = Owner) (sort_key m_created (filter is_active (family_members fam s))) = Some a"
        "m_id a \<noteq> m_id b"
      and pr: "promote_to_owner b now = Inr b'" "demote_from_ownership a now = Inr a'"
      and s1: "save_member fam a' s = (Inr (), s1)" and s2: "save_member fam b' s1 = (Inr (), s2)"
      and s': "s' = s2\<lparr>fs_outbox := fs_outbox s2 @
        [member_role_changed_event fam (m_id a') Owner AdultRole cid,
         member_role_changed_event fam (m_id b') AdultRole Owner cid]\<rparr>"
      by (auto simp: tx_bind_Inr find_member_run tx_ok_Inr list_active_def split: option.splits if_splits)
    note fb = found_member [OF db b(1)]
    have "a \<in> set (sort_key m_created (filter is_active (family_members fam s)))" "m_role a = Owner"
      using find_in [OF a(1)] by simp_all
    then have a': "a \<in> set (mem_rows s)" "m_family a = fam" "is_active a" "m_role a = Owner"
      by (auto simp: family_members_def)
    have pa: "people ?h (m_id a) = Some (person_of a)"
      using a' people_iff [OF family_dbD(1) [OF db]] by blast
    have d: "m_id a' = m_id a" "m_family a' = fam" "person_of a' = (person_of a)\<lparr>p_role := AdultRole\<rparr>"
      using pr(2) a' by (auto simp: demote_from_ownership_def person_of_def is_active_def split: if_splits)
    have p: "m_id b' = new" "m_family b' = fam" "person_of b' = (person_of b)\<lparr>p_role := Owner\<rparr>"
      "m_kind b = AdultKind" "m_user b \<noteq> None"
      using pr(1) fb by (auto simp: promote_to_owner_def person_of_def is_active_def split: if_splits)
    note sv1 = saved_member [OF db s1 d(2)]
    note sv2 = saved_member [OF sv1(1) s2 p(2)]
    have "hh_step ?h (household_of fam s2)"
      unfolding sv2(2) sv1(2) d(1,3) p(1,3) using pa fb(4) a' b a(2) fb(1) p(4,5)
      by (intro hh_transfer) auto
    then show ?thesis using s' sv1 sv2 by (auto simp: evolves_def)
  qed (simp add: evolves_refl [OF db])
qed

section \<open>Families and invitations\<close>

text \<open>A saved family: its row is replaced, or added when there is none.\<close>

lemma saved_family:
  assumes db: "family_db s" and run: "save_family fam f s = (Inr (), s1)" and fam: "f_id f = fam"
  shows "family_db s1" "household_of x s1 = household_of x s" "mem_rows s1 = mem_rows s" "gua_rows s1 = gua_rows s"
    "inv_rows s1 = inv_rows s" "f_id ` set (fam_rows s1) = insert fam (f_id ` set (fam_rows s))" "fs_now s1 = fs_now s"
proof -
  note ok = family_dbD [OF db]
  let ?new = "f\<lparr>f_created := fs_now s, f_updated := fs_now s\<rparr>"
  let ?ch = "\<lambda>r. r\<lparr>f_name := f_name f, f_profile := f_profile f, f_deletion := f_deletion f, f_updated := fs_now s\<rparr>"
  obtain rows where rows: "upsert f_id (\<lambda>r. f_id r = fam) (\<lambda>_. True) (\<lambda>_ _. False) (\<lambda>_. True) ?new ?ch (fam_rows s) = Inr rows"
    "s1 = s\<lparr>fam_rows := rows\<rparr>"
    using run by (auto simp: save_family_def split: sum.splits)
  have ch: "f_id (?ch r) = f_id r" for r by simp
  have r: "family_table.sound rows \<and> f_id ` set rows = insert fam (f_id ` set (fam_rows s))"
    using ok(4) rows(1) ch
  proof (cases rule: family_table.upsert_cases)
    case inserted
    then show ?thesis using fam by simp
  next
    case (updated r)
    then show ?thesis by (auto simp: image_iff)
  qed
  then show "family_db s1" using db by (auto simp: family_db_def refs_ok_def rows(2))
  show "household_of x s1 = household_of x s" "mem_rows s1 = mem_rows s" "gua_rows s1 = gua_rows s"
    "inv_rows s1 = inv_rows s" "f_id ` set (fam_rows s1) = insert fam (f_id ` set (fam_rows s))" "fs_now s1 = fs_now s"
    using r by (simp_all add: rows(2))
qed

text \<open>What touches only invitations and logs leaves every household alone.\<close>

definition invitations_only :: "family_store \<Rightarrow> family_store \<Rightarrow> bool" where
  "invitations_only s s' \<longleftrightarrow>
     family_db s' \<and> fam_rows s' = fam_rows s \<and> mem_rows s' = mem_rows s \<and> gua_rows s' = gua_rows s"

lemma invitations_only_evolves: "invitations_only s s' \<Longrightarrow> evolves fam s s'"
  by (simp add: invitations_only_def evolves_def household_of_def family_members_def active_guardianships_def)

lemma saved_invitation:
  assumes db: "family_db s" and run: "save_invitation fam i s = (Inr (), s1)"
  shows "invitations_only s s1"
proof -
  obtain rows where rows: "upsert i_id (\<lambda>r. i_family r = fam) (\<lambda>r. i_role r \<noteq> Owner) invitation_clash
         (\<lambda>r. i_family r \<in> f_id ` set (fam_rows s) \<and> i_invited_by r \<in> m_id ` set (mem_rows s)
           \<and> (case i_accepted_by r of None \<Rightarrow> True | Some m \<Rightarrow> m \<in> m_id ` set (mem_rows s)))
         (i\<lparr>i_created := fs_now s\<rparr>)
         (\<lambda>r. r\<lparr>i_email := i_email i, i_role := i_role i, i_hash := i_hash i, i_status := i_status i,
           i_expires := i_expires i, i_invited_by := i_invited_by i,
           i_accepted_by := i_accepted_by i, i_accepted := i_accepted i, i_revoked := i_revoked i\<rparr>)
         (inv_rows s) = Inr rows" "s1 = s\<lparr>inv_rows := rows\<rparr>"
    using run by (auto simp: save_invitation_def split: sum.splits)
  have "invitation_table.sound rows"
    using family_dbD(3) [OF db] rows(1)
    by (cases rule: invitation_table.upsert_cases) simp_all
  with db show ?thesis by (simp add: invitations_only_def family_db_def refs_ok_def rows(2))
qed

lemma absent_household:
  assumes "family_db s" "fam \<notin> f_id ` set (fam_rows s)"
  shows "household_of fam s = \<lparr>people = (\<lambda>_. None), guards = {}\<rparr>"
proof -
  have m: "m_family m \<noteq> fam" if "m \<in> set (mem_rows s)" for m
    using family_dbD(5) [OF assms(1)] assms(2) that by (auto simp: refs_ok_def)
  then have none: "family_members fam s = []" by (simp add: family_members_def filter_empty_conv)
  have "g_family g \<noteq> fam" if "g \<in> set (gua_rows s)" for g
    using family_dbD(5) [OF assms(1)] that m unfolding refs_ok_def by blast
  then have "active_guardianships fam s = []" by (simp add: active_guardianships_def filter_empty_conv)
  with none show ?thesis by (simp add: household_of_def tbl_find_def)
qed

lemma create_family_founds:
  assumes db: "family_db s" and run: "create_family fam owner user oname name prof cid now s = (Inr (Inr v), s')"
    and fresh: "fam \<notin> f_id ` set (fam_rows s)" "owner \<notin> m_id ` set (mem_rows s)"
  shows "family_db s'" "f_id ` set (fam_rows s') = insert fam (f_id ` set (fam_rows s))"
    "household_of fam s' = founded owner user" "f \<noteq> fam \<Longrightarrow> household_of f s' = household_of f s"
proof -
  obtain x m s1 s2 where x: "family_create fam name
         (profile_from (pr_postcode prof) (pr_authority prof) (pr_composition prof)) now = Inr x"
    and m: "create_owner owner fam user oname now = Inr m"
    and s1: "save_family fam x s = (Inr (), s1)" and s2: "save_member fam m s1 = (Inr (), s2)"
    and s': "s' = s2\<lparr>fs_outbox := fs_outbox s2 @ [family_created_event fam owner user cid,
      member_added_event fam owner AdultKind Owner (Some user) cid]\<rparr>"
    using run by (auto simp: create_family_def tx_ok_Inr in_transaction_Inr tx_bind_Inr)
  have i: "f_id x = fam" using x by (auto simp: family_create_def Let_def split: if_splits)
  have p: "m_id m = owner" "m_family m = fam"
    "person_of m = \<lparr>p_kind = AdultKind, p_role = Owner, p_user = Some user, p_alive = True\<rparr>"
    using m by (auto simp: create_owner_def person_of_def is_active_def Let_def split: if_splits)
  note sv = saved_family [OF db s1 i] and sm = saved_member [OF saved_family(1) [OF db s1 i] s2 p(2)]
  have "household_of fam s = \<lparr>people = (\<lambda>_. None), guards = {}\<rparr>"
    by (rule absent_household [OF db fresh(1)])
  then show "household_of fam s' = founded owner user"
    using s' sm(2) by (auto simp: sv(2) p founded_def set_person_def)
  show "family_db s'" "f_id ` set (fam_rows s') = insert fam (f_id ` set (fam_rows s))"
    "f \<noteq> fam \<Longrightarrow> household_of f s' = household_of f s"
    using s' sv sm by auto
qed

lemma load_family_sel [simp]: "f_id (load_family r) = f_id r" "f_deletion (load_family r) = f_deletion r"
  by (simp_all add: load_family_def)

lemma find_current_Some:
  "find_current fam s = (Inr (Some f), s') \<Longrightarrow> s' = s \<and> f_id f = fam \<and> fam \<in> f_id ` set (fam_rows s)"
  by (auto simp: find_current_def dest!: tbl_find_Some)

text \<open>A save of a family that is there.\<close>

lemma resaved_evolves:
  assumes "family_db s" "save_family fam f s = (Inr (), s1)" "f_id f = fam" "fam \<in> f_id ` set (fam_rows s)"
  shows "evolves fam s s1"
  using saved_family [OF assms(1-3)] assms(4) by (auto simp: evolves_def)

lemma update_family_evolves:
  assumes db: "family_db s" and run: "update_family fam p now s = (r, s')"
  shows "evolves fam s s'"
proof (rule evolves_transaction [OF run [unfolded update_family_def] db], goal_cases)
  case (1 v)
  show ?case
  proof (cases "s' = s")
    case False
    with 1 obtain f f1 f2 where f: "find_current fam s = (Inr (Some f), s)"
      "(case fp_name p of None \<Rightarrow> Inr f | Some n \<Rightarrow> family_rename f n now) = Inr f1"
      "f2 = f1 \<or> (\<exists>q. f2 = update_profile f1 q now)" "save_family fam f2 s = (Inr (), s')"
      by (auto simp: tx_bind_Inr tx_ok_Inr find_current_def Let_def split: option.splits if_splits)
    have "f_id f1 = f_id f"
      using f(2) by (auto simp: family_rename_def and_then_def split: option.splits sum.splits)
    with f(3) find_current_Some [OF f(1)] have "f_id f2 = fam" "fam \<in> f_id ` set (fam_rows s)"
      by (auto simp: update_profile_def)
    then show ?thesis by (rule resaved_evolves [OF db f(4)])
  qed (simp add: evolves_refl [OF db])
qed

lemma invitations_only_refl: "family_db s \<Longrightarrow> invitations_only s s"
  by (simp add: invitations_only_def)

lemma invitations_only_trans: "invitations_only s t \<Longrightarrow> invitations_only t u \<Longrightarrow> invitations_only s u"
  by (simp add: invitations_only_def)

lemma invitations_only_logs [simp]:
  "invitations_only s (s'\<lparr>fs_outbox := x\<rparr>) = invitations_only s s'"
  "invitations_only s (s'\<lparr>fs_mail := y\<rparr>) = invitations_only s s'"
  by (simp_all add: invitations_only_def)

lemma revoked_pending: "family_db s \<Longrightarrow> revoke_pending fam i now s = (Inr (), s1) \<Longrightarrow> invitations_only s s1"
  by (auto simp: revoke_pending_def invitations_only_refl split: if_splits sum.splits intro: saved_invitation)

lemma revoked_all:
  "family_db s \<Longrightarrow> tx_each (\<lambda>i. revoke_pending fam i now) is s = (Inr (), s1) \<Longrightarrow> invitations_only s s1"
proof (induction "is" arbitrary: s)
  case (Cons i "is")
  then obtain s2 where "revoke_pending fam i now s = (Inr (), s2)"
    "tx_each (\<lambda>i. revoke_pending fam i now) is s2 = (Inr (), s1)" by (auto simp: tx_bind_Inr)
  with Cons revoked_pending [of s fam i now s2] show ?case
    by (metis invitations_only_trans invitations_only_def)
qed (simp add: invitations_only_refl)

lemma request_family_deletion_evolves:
  assumes db: "family_db s" and run: "request_family_deletion fam who cid now s = (r, s')"
  shows "evolves fam s s'"
proof (rule evolves_transaction [OF run [unfolded request_family_deletion_def] db], goal_cases)
  case (1 v)
  show ?case
  proof (cases "s' = s")
    case False
    with 1 obtain f s1 where f: "find_current fam s = (Inr (Some f), s)"
      and s1: "save_family fam (request_deletion f now) s = (Inr (), s1)"
      and rest: "(if f_deletion f \<noteq> None then tx_return (Inr ())
                else
                  tx_bind (list_all_invitations fam) (\<lambda>invs.
                  tx_bind (tx_each (\<lambda>i. revoke_pending fam i now) invs) (\<lambda>_.
                  tx_bind (fs_event (family_deletion_requested_event fam who cid)) (\<lambda>_.
                  tx_return (Inr ()))))) s1 = (Inr v, s')"
      by (auto simp: tx_bind_Inr find_current_def split: option.splits)
    have i: "f_id (request_deletion f now) = fam" "fam \<in> f_id ` set (fam_rows s)"
      using find_current_Some [OF f] by (auto simp: request_deletion_def)
    note sv = saved_family [OF db s1 i(1)]
    have "invitations_only s1 s'"
    proof (cases "f_deletion f")
      case None
      with rest obtain s2 invs where "tx_each (\<lambda>i. revoke_pending fam i now) invs s1 = (Inr (), s2)"
        "s' = s2\<lparr>fs_outbox := fs_outbox s2 @ [family_deletion_requested_event fam who cid]\<rparr>"
        by (auto simp: tx_bind_Inr list_all_invitations_def)
      with revoked_all [OF sv(1)] show ?thesis by auto
    next
      case (Some t)
      with rest sv(1) show ?thesis by (simp add: invitations_only_refl)
    qed
    then have "evolves fam s1 s'" by (rule invitations_only_evolves)
    with \<open>invitations_only s1 s'\<close> sv i(2) show ?thesis
      by (auto simp: evolves_def invitations_only_def household_of_def family_members_def active_guardianships_def)
  qed (simp add: evolves_refl [OF db])
qed

lemma revoke_invitation_evolves:
  assumes db: "family_db s" and run: "revoke_invitation fam i now s = (r, s')"
  shows "invitations_only s s'"
proof (cases "s' = s")
  case False
  with run obtain iv where "save_invitation fam iv s = (Inr (), s')"
    by (auto simp: revoke_invitation_def in_transaction_def tx_bind_def tx_ok_def find_invitation_def
        split: option.splits sum.splits prod.splits)
  with saved_invitation [OF db] show ?thesis .
qed (simp add: invitations_only_refl [OF db])

lemma create_invitation_evolves:
  assumes db: "family_db s" and run: "create_invitation h fam i inviter email role existing tok now s = (r, s')"
  shows "invitations_only s s'"
proof (cases "s' = s")
  case False
  with run obtain iv s1 where "save_invitation fam iv s = (Inr (), s1)" "\<exists>m. s' = s1\<lparr>fs_mail := m\<rparr>"
    by (auto simp: create_invitation_def in_transaction_def tx_bind_def tx_ok_def find_current_def find_standing_def
        find_pending_by_email_def send_mail_def Let_def split: option.splits sum.splits prod.splits if_splits)
  with saved_invitation [OF db] show ?thesis by auto
qed (simp add: invitations_only_refl [OF db])

section \<open>Accepting an invitation\<close>

text \<open>What the index \<open>family_member_one_per_user\<close> gives.\<close>

lemma db_accounts_distinct:
  assumes "family_db s"
  shows "accounts_distinct (household_of fam s)"
  unfolding accounts_distinct_def
proof (intro allI impI)
  fix i j u
  assume u: "account (household_of fam s) i = Some u \<and> account (household_of fam s) j = Some u"
  have row: "\<exists>m \<in> set (mem_rows s). m_id m = x \<and> m_family m = fam \<and> m_removed m = None \<and> m_user m = Some u"
    if "account (household_of fam s) x = Some u" for x
  proof -
    from that obtain p where "people (household_of fam s) x = Some p" "p_alive p" "p_user p = Some u"
      by (auto simp: account_def split: option.splits if_splits)
    then show ?thesis using people_iff [OF family_dbD(1) [OF assms], of fam x p]
      by (auto simp: person_of_def is_active_def)
  qed
  from u row obtain a b where ab: "a \<in> set (mem_rows s)" "m_id a = i" "m_family a = fam" "m_removed a = None" "m_user a = Some u"
    "b \<in> set (mem_rows s)" "m_id b = j" "m_family b = fam" "m_removed b = None" "m_user b = Some u" by blast
  then have "member_clash a b" by (simp add: member_clash_def)
  with member_table.sound_clash [OF family_dbD(1) [OF assms] ab(1,6)] ab(2,7) show "i = j" by simp
qed

lemma newly_linked:
  assumes "accounts_distinct (set_person h i p)" "people h i = None" "p_alive p"
  shows "\<not> linked_elsewhere h (p_user p)"
proof
  assume "linked_elsewhere h (p_user p)"
  then obtain j u where j: "p_user p = Some u" "account h j = Some u" by (auto simp: linked_elsewhere_def)
  then have "j \<noteq> i" using assms(2) by (auto simp: account_def)
  with j assms(1,3) show False by (auto simp: accounts_distinct_def account_set)
qed

lemma accept_scoped_evolves:
  assumes db: "family_db s" and run: "accept_scoped iv user email i cid now s = (r, s')"
    and fresh: "i \<notin> m_id ` set (mem_rows s)"
  shows "evolves (i_family iv) s s'"
proof (rule evolves_transaction [OF run [unfolded accept_scoped_def] db], goal_cases)
  case (1 v)
  let ?fam = "i_family iv"
  let ?h = "household_of ?fam s"
  show ?case
  proof (cases "s' = s")
    case False
    with 1 obtain m iv' s1 s2 where m: "create_from_invitation i ?fam user (i_role iv) (local_part (email_value email)) now = Inr m"
      and s1: "save_member ?fam m s = (Inr (), s1)" and s2: "save_invitation ?fam iv' s1 = (Inr (), s2)"
      and s': "s' = s2\<lparr>fs_outbox := fs_outbox s2 @ [member_added_event ?fam i AdultKind (i_role iv) (Some user) cid]\<rparr>"
      by (auto simp: tx_bind_Inr tx_ok_Inr)
    have m': "m_id m = i" "m_family m = ?fam" "i_role iv \<noteq> Owner"
      "person_of m = \<lparr>p_kind = AdultKind, p_role = i_role iv, p_user = Some user, p_alive = True\<rparr>"
      using m by (auto simp: create_from_invitation_def person_of_def is_active_def Let_def split: if_splits)
    note sv = saved_member [OF db s1 m'(2)]
    note si = saved_invitation [OF sv(1) s2]
    have none: "people ?h i = None" using unknown_member [OF db fresh] .
    have "\<not> linked_elsewhere ?h (Some user)"
      using newly_linked [OF db_accounts_distinct [OF sv(1), of ?fam, unfolded sv(2) m'(1)] none] by (simp add: m'(4))
    then have "hh_step ?h (household_of ?fam s1)"
      unfolding sv(2) m'(1,4) using none m'(3) by (intro hh_join)
    then have "evolves ?fam s s1" using sv by (simp add: evolves_def)
    moreover have "household_of f s2 = household_of f s1" for f
      using si by (simp add: invitations_only_def household_of_def family_members_def active_guardianships_def)
    ultimately show ?thesis using si by (simp add: s' evolves_def invitations_only_def)
  qed (simp add: evolves_refl [OF db])
qed

text \<open>An acceptance touches the family of the invitation the token names.\<close>

lemma accept_invitation_evolves:
  assumes db: "family_db s" and run: "accept_invitation hash token user raw i cid now s = (r, s')"
    and fresh: "i \<notin> m_id ` set (mem_rows s)"
  shows "\<exists>fam. evolves fam s s'"
proof (cases "s' = s")
  case False
  have "find_by_token_hash (hash token) s = (Inr (tbl_find i_hash (hash token) (inv_rows s)), s)"
    by (simp add: find_by_token_hash_def)
  with run False obtain iv where "accept_scoped iv user (email_from raw) i cid now s = (r, s')"
    by (auto simp: accept_invitation_def in_transaction_def Let_def split: option.splits if_splits)
  with accept_scoped_evolves [OF db _ fresh] show ?thesis by blast
qed (use evolves_refl [OF db] in blast)

end
