(* ===== verification/Family_System.thy ===== *)
theory Family_System
  imports Family_Command_Facts
begin

text \<open>
  The Family context as one system: its commands, the invitation sweep, the erasure of a family
  and the database clock as the steps of a reachability relation, and the household every family
  in a reachable store is.
\<close>

section \<open>Commands\<close>

datatype family_command =
    CreateFamily family_id member_id user_id string string profile string int
  | UpdateFamily family_id family_patch int
  | AddMember family_id member_id member_id member_kind string "int option" guardianship_id string int
  | ChangeMemberRole family_id member_id member_role string int
  | RemoveMember family_id member_id string int
  | GrantGuardianship family_id member_id member_id guardianship_id string int
  | EndGuardianship family_id member_id member_id int
  | TransferOwnership family_id member_id string int
  | CreateInvitation family_id invitation_id member_id string member_role "user_id option" string int
  | RevokeInvitation family_id invitation_id int
  | AcceptInvitation string user_id string member_id string int
  | RequestFamilyDeletion family_id member_id string int

text \<open>What a command ends in, without the value it answers: an exception, a typed error, or done.\<close>

definition ends :: "'a outcome family_tx \<Rightarrow> unit outcome family_tx" where
  "ends m = tx_bind m (\<lambda>r. tx_return (map_result r (\<lambda>_. ())))"

fun run_family :: "(string \<Rightarrow> string) \<Rightarrow> family_command \<Rightarrow> unit outcome family_tx" where
  "run_family hash (CreateFamily fam owner user oname name prof cid now) = ends (create_family fam owner user oname name prof cid now)"
| "run_family hash (UpdateFamily fam p now) = ends (update_family fam p now)"
| "run_family hash (AddMember fam i adder kind name born gid cid now) = ends (add_member fam i adder kind name born gid cid now)"
| "run_family hash (ChangeMemberRole fam i role cid now) = ends (change_member_role fam i role cid now)"
| "run_family hash (RemoveMember fam i cid now) = ends (remove_member fam i cid now)"
| "run_family hash (GrantGuardianship fam c g gid cid now) = ends (grant_guardianship fam c g gid cid now)"
| "run_family hash (EndGuardianship fam c g now) = ends (end_guardianship fam c g now)"
| "run_family hash (TransferOwnership fam to cid now) = ends (transfer_ownership fam to cid now)"
| "run_family hash (CreateInvitation fam i inviter email role existing tok now) =
     ends (create_invitation hash fam i inviter email role existing tok now)"
| "run_family hash (RevokeInvitation fam i now) = ends (revoke_invitation fam i now)"
| "run_family hash (AcceptInvitation tok user email i cid now) = ends (accept_invitation hash tok user email i cid now)"
| "run_family hash (RequestFamilyDeletion fam who cid now) = ends (request_family_deletion fam who cid now)"

text \<open>
  What the callers provide: generated ids are fresh, and the adder of a member is the active
  membership the family guard resolved.
\<close>

fun fam_admissible :: "family_command \<Rightarrow> family_store \<Rightarrow> bool" where
  "fam_admissible (CreateFamily fam owner _ _ _ _ _ _) s \<longleftrightarrow> fam \<notin> f_id ` set (fam_rows s) \<and> owner \<notin> m_id ` set (mem_rows s)"
| "fam_admissible (AddMember fam i adder _ _ _ gid _ _) s \<longleftrightarrow>
     i \<notin> m_id ` set (mem_rows s) \<and> gid \<notin> g_id ` set (gua_rows s)
     \<and> list_ex (\<lambda>m. m_id m = adder \<and> is_active m) (family_members fam s)"
| "fam_admissible (GrantGuardianship _ _ _ gid _ _) s \<longleftrightarrow> gid \<notin> g_id ` set (gua_rows s)"
| "fam_admissible (AcceptInvitation _ _ _ i _ _) s \<longleftrightarrow> i \<notin> m_id ` set (mem_rows s)"
| "fam_admissible _ _ \<longleftrightarrow> True"

text \<open>From the empty tables, in any order and with any database clock.\<close>

definition no_families :: family_store where
  "no_families = \<lparr>fam_rows = [], mem_rows = [], gua_rows = [], inv_rows = [], fs_outbox = [], fs_audit = [],
     fs_mail = [], fs_now = 0\<rparr>"

inductive fam_reachable :: "(string \<Rightarrow> string) \<Rightarrow> family_store \<Rightarrow> bool" for hash where
  fam_empty: "fam_reachable hash no_families"
| fam_command: "fam_reachable hash s \<Longrightarrow> fam_admissible c s \<Longrightarrow> fam_reachable hash (snd (run_family hash c s))"
| fam_sweep: "fam_reachable hash s \<Longrightarrow> fam_reachable hash (snd (expire_overdue_invitations now s))"
| fam_erase: "fam_reachable hash s \<Longrightarrow> fam_reachable hash (erase_for_family fam s)"
| fam_clock: "fam_reachable hash s \<Longrightarrow> fam_reachable hash (s\<lparr>fs_now := now\<rparr>)"

section \<open>Every step keeps the households\<close>

definition households_ok :: "family_store \<Rightarrow> bool" where
  "households_ok s \<longleftrightarrow> family_db s \<and> (\<forall>fam \<in> f_id ` set (fam_rows s). hh_reachable (household_of fam s))"

lemma evolved_ok: "households_ok s \<Longrightarrow> evolves fam s s' \<Longrightarrow> households_ok s'"
  unfolding households_ok_def evolves_def by (metis hh_next)

lemma ends_run: "ends m s = (r, s') \<longleftrightarrow> (\<exists>v. m s = (v, s') \<and> r = (case v of Inl e \<Rightarrow> Inl e | Inr x \<Rightarrow> Inr (map_result x (\<lambda>_. ()))))"
  by (cases "m s") (auto simp: ends_def tx_bind_def split: sum.splits)

text \<open>Every command evolves a family, except the one that founds it.\<close>

lemma run_family_changes:
  assumes db: "family_db s" and adm: "fam_admissible c s" and run: "run_family hash c s = (r, s')"
  shows "(\<exists>fam. evolves fam s s')
    \<or> (\<exists>fam owner user. fam \<notin> f_id ` set (fam_rows s) \<and> f_id ` set (fam_rows s') = insert fam (f_id ` set (fam_rows s))
         \<and> family_db s' \<and> household_of fam s' = founded owner user \<and> (\<forall>g. g \<noteq> fam \<longrightarrow> household_of g s' = household_of g s))"
proof (cases c)
  case (CreateFamily fam owner user oname name prof cid now)
  with adm run obtain v where v: "create_family fam owner user oname name prof cid now s = (v, s')"
    and fresh: "fam \<notin> f_id ` set (fam_rows s)" "owner \<notin> m_id ` set (mem_rows s)" by (auto simp: ends_run)
  show ?thesis
  proof (cases "\<exists>x. v = Inr (Inr x)")
    case True
    then obtain x where x: "create_family fam owner user oname name prof cid now s = (Inr (Inr x), s')" using v by blast
    note f = create_family_founds [OF db x fresh]
    show ?thesis
      by (intro disjI2 exI [of _ fam] exI [of _ owner] exI [of _ user] conjI allI impI fresh(1) f(1-3)) (rule f(4))
  next
    case False
    have "s' = s" using v False
      by (auto simp: create_family_def tx_ok_def in_transaction_def tx_bind_def split: sum.splits prod.splits)
    with evolves_refl [OF db] show ?thesis by blast
  qed
next
  case (AddMember fam i adder kind name born gid cid now)
  have "\<exists>p. people (household_of fam s) adder = Some p \<and> p_alive p"
    using adm people_iff [OF family_dbD(1) [OF db], of fam adder]
    by (auto simp: AddMember list_ex_iff family_members_def)
  with AddMember adm run have "evolves fam s s'" by (auto simp: ends_run intro: add_member_evolves [OF db])
  then show ?thesis by blast
next
  case (AcceptInvitation tok user email i cid now)
  with adm run obtain v where "accept_invitation hash tok user email i cid now s = (v, s')" "i \<notin> m_id ` set (mem_rows s)"
    by (auto simp: ends_run)
  from accept_invitation_evolves [OF db this] show ?thesis by blast
qed (use adm run in \<open>auto simp: ends_run dest: update_family_evolves [OF db]
    change_member_role_evolves [OF db] remove_member_evolves [OF db] grant_guardianship_evolves [OF db]
    end_guardianship_evolves [OF db] transfer_ownership_evolves [OF db] request_family_deletion_evolves [OF db]
    invitations_only_evolves [OF create_invitation_evolves [OF db]]
    invitations_only_evolves [OF revoke_invitation_evolves [OF db]]\<close>)

lemma run_family_ok:
  assumes ok: "households_ok s" and adm: "fam_admissible c s" and run: "run_family hash c s = (r, s')"
  shows "households_ok s'"
proof -
  have db: "family_db s" using ok by (simp add: households_ok_def)
  show ?thesis using run_family_changes [OF db adm run]
  proof (elim disjE exE conjE)
    fix fam owner user
    assume f: "f_id ` set (fam_rows s') = insert fam (f_id ` set (fam_rows s))" "family_db s'"
      "household_of fam s' = founded owner user" "\<forall>g. g \<noteq> fam \<longrightarrow> household_of g s' = household_of g s"
    have "hh_reachable (household_of g s')" if "g \<in> insert fam (f_id ` set (fam_rows s))" for g
      using that ok f(3,4) hh_start by (cases "g = fam") (auto simp: households_ok_def)
    with f(1,2) show ?thesis by (simp add: households_ok_def)
  qed (rule evolved_ok [OF ok])
qed

text \<open>Deletions, and updates that keep the key and make no new clash, keep a table sound.\<close>

context keyed_table
begin

lemma sound_delete: "sound rows \<Longrightarrow> sound (tbl_delete p rows)"
  by (auto simp: sound_def distinct_key_delete)

lemma sound_update:
  assumes "sound rows" "\<And>r. key (f r) = key r" "\<And>r. shape r \<Longrightarrow> shape (f r)"
    and "\<And>r x. clash (f r) (f x) \<Longrightarrow> clash r x" "\<And>r x. clash (f r) x \<Longrightarrow> clash r x"
  shows "sound (tbl_update p f rows)"
proof -
  let ?g = "\<lambda>r. if p r then f r else r"
  have c: "clash r x" if "clash (?g r) (?g x)" for r x
  proof (cases "p x")
    case True
    then show ?thesis
      using that assms(4) [of r x] clash_sym [of r "f x"] assms(5) [of x r] clash_sym [of x r]
      by (cases "p r") simp_all
  next
    case False
    then show ?thesis using that assms(5) [of r x] by (cases "p r") simp_all
  qed
  show ?thesis
    unfolding sound_def set_tbl_update
  proof (intro conjI ballI impI)
    show "distinct (map key (tbl_update p f rows))"
      using assms(1,2) by (subst map_key_update) (simp_all add: sound_def)
  next
    fix r assume "r \<in> ?g ` set rows"
    then show "shape r" using assms(1,3) by (auto simp: sound_def)
  next
    fix r x assume "r \<in> ?g ` set rows" "x \<in> ?g ` set rows" "r \<noteq> x"
    then obtain a b where "a \<in> set rows" "b \<in> set rows" "r = ?g a" "x = ?g b" "a \<noteq> b" by blast
    with c [of a b] sound_clash [OF assms(1), of a b] show "\<not> clash r x" by blast
  qed
qed

end

lemma swept_ok:
  assumes ok: "households_ok s"
  shows "households_ok (snd (expire_overdue_invitations now s))"
proof -
  have "invitation_table.sound (inv_rows s)" using ok by (simp add: households_ok_def family_db_def)
  then have "invitation_table.sound (tbl_update (\<lambda>i. invitation_expired i now) (\<lambda>i. i\<lparr>i_status := Expired\<rparr>) (inv_rows s))"
    by (rule invitation_table.sound_update) (auto simp: invitation_clash_def)
  with ok have "invitations_only s (snd (expire_overdue_invitations now s))"
    by (simp add: invitations_only_def expire_overdue_invitations_def households_ok_def family_db_def refs_ok_def)
  from evolved_ok [OF ok invitations_only_evolves [OF this]] show ?thesis .
qed

lemma erased_ok:
  assumes ok: "households_ok s"
  shows "households_ok (erase_for_family fam s)"
proof -
  let ?gone = "map m_id (family_members fam s)"
  let ?s = "erase_for_family fam s"
  have db: "family_db s" using ok by (simp add: households_ok_def)
  note d = family_dbD [OF db]
  have fams: "fam_rows ?s = tbl_delete (\<lambda>f. f_id f = fam) (fam_rows s)"
    and mems: "mem_rows ?s = tbl_delete (\<lambda>m. m_family m = fam) (mem_rows s)"
    by (simp_all add: erase_for_family_def Let_def)
  have own: "m_family m = fam" if "m \<in> set (mem_rows s)" "m_id m \<in> set ?gone" for m
    using that member_table.sound_key [OF d(1)] by (auto simp: family_members_def)
  have other: "g_guardian g \<notin> set ?gone \<and> g_child g \<notin> set ?gone" if g: "g \<in> set (gua_rows s)" "g_family g \<noteq> fam" for g
  proof -
    obtain a c where "a \<in> set (mem_rows s)" "c \<in> set (mem_rows s)" "m_id a = g_guardian g" "m_id c = g_child g"
      "m_family a = g_family g" "m_family c = g_family g"
      using d(5) g(1) unfolding refs_ok_def by blast
    with own [of a] own [of c] g(2) show ?thesis by auto
  qed
  have guas: "set (gua_rows ?s) = {g \<in> set (gua_rows s). g_family g \<noteq> fam}"
    using other by (auto simp: erase_for_family_def Let_def)
  have "guardianship_table.sound (gua_rows ?s)" "member_table.sound (mem_rows ?s)" "family_table.sound (fam_rows ?s)"
    using d(1,2,4) by (simp_all add: erase_for_family_def Let_def guardianship_table.sound_delete
        member_table.sound_delete family_table.sound_delete)
  moreover have "refs_ok ?s"
  proof -
    have "\<exists>a \<in> set (mem_rows ?s). \<exists>c \<in> set (mem_rows ?s).
       m_id a = g_guardian g \<and> m_id c = g_child g \<and> m_family a = g_family g \<and> m_family c = g_family g"
      if g: "g \<in> set (gua_rows s)" "g_family g \<noteq> fam" for g
    proof -
      obtain a c where "a \<in> set (mem_rows s)" "c \<in> set (mem_rows s)" "m_id a = g_guardian g" "m_id c = g_child g"
        "m_family a = g_family g" "m_family c = g_family g"
        using d(5) g(1) unfolding refs_ok_def by blast
      with g(2) show ?thesis unfolding mems by (intro bexI [of _ a] bexI [of _ c]) auto
    qed
    then show ?thesis unfolding refs_ok_def guas using d(5) by (auto simp: mems fams refs_ok_def)
  qed
  moreover have "invitation_table.sound (inv_rows ?s)"
    unfolding erase_for_family_def Let_def
    by (simp, intro invitation_table.sound_update invitation_table.sound_delete d(3))
      (auto simp: invitation_clash_def)
  ultimately have "family_db ?s" by (simp add: family_db_def)
  moreover have "household_of f ?s = household_of f s" if "f \<noteq> fam" for f
    using that \<open>member_table.sound (mem_rows ?s)\<close>
    by (intro household_eqI) (auto simp: people_iff d(1) guards_iff mems guas)
  ultimately show ?thesis using ok by (auto simp: households_ok_def fams)
qed

lemma clock_ok: "households_ok s \<Longrightarrow> households_ok (s\<lparr>fs_now := now\<rparr>)"
  by (simp add: households_ok_def family_db_def refs_ok_def household_of_def family_members_def active_guardianships_def)

lemma reachable_ok: "fam_reachable hash s \<Longrightarrow> households_ok s"
proof (induction rule: fam_reachable.induct)
  case fam_empty
  show ?case by (simp add: households_ok_def family_db_def no_families_def family_table.sound_def member_table.sound_def
      guardianship_table.sound_def invitation_table.sound_def refs_ok_def)
next
  case (fam_command s c)
  then show ?case by (cases "run_family hash c s") (auto intro: run_family_ok)
qed (auto intro: swept_ok erased_ok clock_ok)

end
