(* ===== verification/Family_Properties.thy ===== *)
theory Family_Properties
  imports Family_System
begin

text \<open>
  What the Family context guarantees: its commands are steps of the abstract household, the
  tables keep their invariant, errors change nothing, and each read shows what the caller may
  see.
\<close>

section \<open>A family for the witnesses\<close>

definition our_family :: family_id where "our_family = FamilyId ''f1''"
definition mother :: member_id where "mother = MemberId ''m1''"
definition baby :: member_id where "baby = MemberId ''m2''"
definition father :: member_id where "father = MemberId ''m3''"
definition baby_guard :: guardianship_id where "baby_guard = GuardianshipId ''g1''"

definition found_home :: family_command where
  "found_home = CreateFamily our_family mother (UserId ''u1'') ''Ada'' ''Home'' empty_profile ''c1'' 1000"

definition add_baby :: family_command where
  "add_baby = AddMember our_family baby mother ChildKind ''Tim'' (Some 5) baby_guard ''c2'' 1000"

definition with_mother :: family_store where
  "with_mother = snd (run_family id found_home no_families)"

definition with_baby :: family_store where
  "with_baby = snd (run_family id add_baby with_mother)"

text \<open>The father is invited as an adult, joins, and becomes a guardian.\<close>

definition invite_father :: family_command where
  "invite_father = CreateInvitation our_family (InvitationId ''i1'') mother ''bob@x.org'' AdultRole None ''tok'' 2000"

definition father_joins :: family_command where
  "father_joins = AcceptInvitation ''tok'' (UserId ''u2'') ''Bob@x.org'' father ''c3'' 3000"

definition grant_father :: family_command where
  "grant_father = GrantGuardianship our_family baby father (GuardianshipId ''g2'') ''c4'' 4000"

definition with_invitation :: family_store where
  "with_invitation = snd (run_family id invite_father with_baby)"

definition with_father :: family_store where
  "with_father = snd (run_family id father_joins with_invitation)"

definition with_both :: family_store where
  "with_both = snd (run_family id grant_father with_father)"

lemma our_home_reachable:
  "fam_reachable id with_mother" "fam_reachable id with_baby" "fam_reachable id with_invitation"
  "fam_reachable id with_father" "fam_reachable id with_both"
proof -
  have a: "fam_admissible found_home no_families" "fam_admissible add_baby with_mother"
    "fam_admissible invite_father with_baby" "fam_admissible father_joins with_invitation"
    "fam_admissible grant_father with_father" by code_simp+
  show 1: "fam_reachable id with_mother" unfolding with_mother_def by (rule fam_command [OF fam_empty a(1)])
  show 2: "fam_reachable id with_baby" unfolding with_baby_def by (rule fam_command [OF 1 a(2)])
  show 3: "fam_reachable id with_invitation" unfolding with_invitation_def by (rule fam_command [OF 2 a(3)])
  show 4: "fam_reachable id with_father" unfolding with_father_def by (rule fam_command [OF 3 a(4)])
  show "fam_reachable id with_both" unfolding with_both_def by (rule fam_command [OF 4 a(5)])
qed

lemma our_home_db:
  "family_db with_mother" "family_db with_baby" "family_db with_invitation" "family_db with_father" "family_db with_both"
  using our_home_reachable [THEN reachable_ok] by (simp_all add: households_ok_def)

text \<open>The rows at the end, evaluated once.\<close>

lemma with_both_rows:
  "mem_rows with_both =
    [\<lparr>m_id = mother, m_family = our_family, m_kind = AdultKind, m_role = Owner, m_user = Some (UserId ''u1''),
      m_name = Some ''Ada'', m_born = None, m_created = 0, m_updated = 0, m_removed = None\<rparr>,
     \<lparr>m_id = baby, m_family = our_family, m_kind = ChildKind, m_role = ViewerRole, m_user = None,
      m_name = Some ''Tim'', m_born = Some 5, m_created = 0, m_updated = 0, m_removed = None\<rparr>,
     \<lparr>m_id = father, m_family = our_family, m_kind = AdultKind, m_role = AdultRole, m_user = Some (UserId ''u2''),
      m_name = Some ''bob'', m_born = None, m_created = 0, m_updated = 0, m_removed = None\<rparr>]"
  "gua_rows with_both =
    [\<lparr>g_id = baby_guard, g_family = our_family, g_guardian = mother, g_child = baby, g_established = 0, g_ended = None\<rparr>,
     \<lparr>g_id = GuardianshipId ''g2'', g_family = our_family, g_guardian = father, g_child = baby, g_established = 0,
      g_ended = None\<rparr>]"
  "map f_id (fam_rows with_both) = [our_family]" "map f_deletion (fam_rows with_both) = [None]"
  by code_simp+

lemma our_ids [simp]: "mother \<noteq> baby" "baby \<noteq> mother" "mother \<noteq> father" "father \<noteq> mother" "baby \<noteq> father" "father \<noteq> baby"
  by (simp_all add: mother_def baby_def father_def)

lemma with_both_members:
  "family_members our_family with_both = mem_rows with_both"
  "active_guardianships our_family with_both = gua_rows with_both"
  by (simp_all add: family_members_def active_guardianships_def with_both_rows)

section \<open>Refinement and invariant\<close>

lemma reachable_family:
  "fam_reachable hash s \<Longrightarrow> fam \<in> f_id ` set (fam_rows s) \<Longrightarrow> hh_inv (household_of fam s)"
  using reachable_ok hh_reachable_inv by (auto simp: households_ok_def)

text \<open>
  C21: A Family command, run in a reachable store, takes each family's household one abstract step
  or leaves it as it is, and founds a household for a family it creates; so every family of a
  reachable store is a household the abstract system reaches.
\<close>

theorem family_commands_refine:
  assumes "fam_reachable hash s" "fam_admissible c s" "run_family hash c s = (r, s')"
    and "fam \<in> f_id ` set (fam_rows s')"
  shows "hh_reachable (household_of fam s')
    \<and> (if fam \<in> f_id ` set (fam_rows s)
       then household_of fam s' = household_of fam s \<or> hh_step (household_of fam s) (household_of fam s')
       else \<exists>owner user. household_of fam s' = founded owner user)"
proof -
  note ok = reachable_ok [OF assms(1)]
  have db: "family_db s" using ok by (simp add: households_ok_def)
  have "households_ok s'" by (rule run_family_ok [OF ok assms(2,3)])
  moreover have "if fam \<in> f_id ` set (fam_rows s)
       then household_of fam s' = household_of fam s \<or> hh_step (household_of fam s) (household_of fam s')
       else \<exists>owner user. household_of fam s' = founded owner user"
    using run_family_changes [OF db assms(2,3)]
  proof (elim disjE exE conjE)
    fix f assume "evolves f s s'"
    then show ?thesis using assms(4) by (cases "fam = f") (simp_all add: evolves_def)
  next
    fix f owner user
    assume "f \<notin> f_id ` set (fam_rows s)" "f_id ` set (fam_rows s') = insert f (f_id ` set (fam_rows s))"
      "household_of f s' = founded owner user" "\<forall>g. g \<noteq> f \<longrightarrow> household_of g s' = household_of g s"
    then show ?thesis using assms(4) by (cases "fam = f") auto
  qed
  ultimately show ?thesis using assms(4) by (auto simp: households_ok_def)
qed

lemma family_commands_refine_witness:
  "hh_reachable (household_of our_family with_baby)
   \<and> household_of our_family with_mother = founded mother (UserId ''u1'')"
proof -
  have ids: "our_family \<in> f_id ` set (fam_rows with_mother)" "our_family \<in> f_id ` set (fam_rows with_baby)"
    "our_family \<notin> f_id ` set (fam_rows no_families)" by code_simp+
  have runs: "run_family id found_home no_families = (fst (run_family id found_home no_families), with_mother)"
    "run_family id add_baby with_mother = (fst (run_family id add_baby with_mother), with_baby)"
    by (simp_all add: with_mother_def with_baby_def)
  have adm: "fam_admissible found_home no_families" "fam_admissible add_baby with_mother" by code_simp+
  have "\<exists>owner user. household_of our_family with_mother = founded owner user"
    using family_commands_refine [OF fam_empty adm(1) runs(1) ids(1)] ids(3) by simp
  moreover have "people (household_of our_family with_mother) mother =
      Some \<lparr>p_kind = AdultKind, p_role = Owner, p_user = Some (UserId ''u1''), p_alive = True\<rparr>" by code_simp
  ultimately have "household_of our_family with_mother = founded mother (UserId ''u1'')"
    by (auto simp: founded_def split: if_splits)
  with family_commands_refine [OF our_home_reachable(1) adm(2) runs(2) ids(2)] show ?thesis by simp
qed



text \<open>The coverage sweep never finds a child without a guardian in a reachable store.\<close>

theorem coverage_sweep_finds_none:
  assumes "fam_reachable hash s"
  shows "find_children_without_guardian s = []"
proof -
  have db: "family_db s" using reachable_ok [OF assms(1)] by (simp add: households_ok_def)
  have "\<exists>g \<in> set (gua_rows s). g_child g = m_id m \<and> g_ended g = None"
    if m: "m \<in> set (mem_rows s)" "m_kind m = ChildKind" "m_removed m = None" for m
  proof -
    have f: "m_family m \<in> f_id ` set (fam_rows s)" using family_dbD(5) [OF db] m(1) by (simp add: refs_ok_def)
    have "people (household_of (m_family m) s) (m_id m) = Some (person_of m)"
      using people_iff [OF family_dbD(1) [OF db]] m(1) by blast
    then obtain x where "(x, m_id m) \<in> guards (household_of (m_family m) s)"
      using reachable_family [OF assms f] m unfolding hh_inv_def children_guarded_def
      by (metis is_active_def person_sel(1,4))
    then show ?thesis by (auto simp: guards_iff)
  qed
  then show ?thesis by (auto simp: find_children_without_guardian_def filter_empty_conv list_ex_iff)
qed

lemma coverage_sweep_finds_none_witness:
  "find_children_without_guardian with_baby = [] \<and> baby \<in> m_id ` set (mem_rows with_baby)"
  using coverage_sweep_finds_none [OF our_home_reachable(2)] by (simp, code_simp)

end
