(* ===== verification/Family_Conduct.thy ===== *)
theory Family_Conduct
  imports Family_Properties
begin

text \<open>
  How the Family commands end: an error changes nothing, the last guardian is refused exactly,
  a transfer of ownership goes through whenever it may, an invitation is accepted once.
\<close>

section \<open>Errors change nothing\<close>

text \<open>
  \<open>silent m\<close>: a typed error leaves the store as it was. Reads come before writes, and what writes
  answers no typed error.
\<close>

definition silent :: "'a outcome family_tx \<Rightarrow> bool" where
  "silent m \<longleftrightarrow> (\<forall>s e s'. m s = (Inr (Inl e), s') \<longrightarrow> s' = s)"

definition only_reads :: "'a family_tx \<Rightarrow> bool" where
  "only_reads m \<longleftrightarrow> (\<forall>s. snd (m s) = s)"

definition untyped :: "'a outcome family_tx \<Rightarrow> bool" where
  "untyped m \<longleftrightarrow> (\<forall>s e. fst (m s) \<noteq> Inr (Inl e))"

named_theorems silent_intros \<open>rules for what a typed error leaves\<close>

lemma untyped_return [silent_intros]: "untyped (tx_return (Inr v))"
  by (simp add: untyped_def)

lemma untyped_bind [silent_intros]: "(\<And>v. untyped (f v)) \<Longrightarrow> untyped (tx_bind m f)"
  by (auto simp: untyped_def tx_bind_def split: prod.splits sum.splits)

lemma silent_return [silent_intros]: "silent (tx_return v)"
  by (auto simp: silent_def)

lemma silent_untyped: "untyped m \<Longrightarrow> silent m"
  by (auto simp: silent_def untyped_def) (metis fst_conv)

lemma silent_reads [silent_intros]: "only_reads m \<Longrightarrow> (\<And>v. silent (f v)) \<Longrightarrow> silent (tx_bind m f)"
  unfolding silent_def only_reads_def tx_bind_def by (auto split: prod.splits sum.splits) (metis snd_conv)

lemma silent_ok [silent_intros]: "(\<And>v. silent (f v)) \<Longrightarrow> silent (tx_ok r f)"
  by (cases r) (auto intro: silent_intros)

lemma silent_transaction [silent_intros]: "silent m \<Longrightarrow> silent (in_transaction m)"
  by (auto simp: silent_def in_transaction_def split: prod.splits sum.splits)

lemma reads_basic [silent_intros]:
  "only_reads (tx_return v)" "only_reads (tx_get f)"
  by (simp_all add: only_reads_def)

lemma reads_bind [silent_intros]: "only_reads m \<Longrightarrow> (\<And>v. only_reads (f v)) \<Longrightarrow> only_reads (tx_bind m f)"
  by (auto simp: only_reads_def tx_bind_def split: prod.splits sum.splits) (metis snd_conv)+

lemma reads_ok [silent_intros]: "(\<And>v. only_reads (f v)) \<Longrightarrow> only_reads (tx_ok r f)"
  by (cases r) (auto intro: silent_intros)

lemma reads_all_covered [silent_intros]: "only_reads (all_covered fam cs)"
  by (simp add: only_reads_def all_covered_run)

lemma reads_collect [silent_intros]: "only_reads (collect_active fam g cs)"
  by (induction cs) (simp_all only: collect_active.simps find_active_def silent_intros)

lemma reads_queries [silent_intros]:
  "only_reads (find_member fam i)" "only_reads (find_current fam)" "only_reads (find_active fam g c)"
  "only_reads (list_active fam)" "only_reads (find_standing fam u)" "only_reads (find_pending_by_email fam e)"
  "only_reads (find_invitation fam iv)" "only_reads (count_active_for_child fam c)" "only_reads (guardianships_to_end fam g)"
  by (auto intro!: silent_intros simp: find_member_def find_current_def find_active_def list_active_def find_standing_def
      find_pending_by_email_def find_invitation_def count_active_for_child_def guardianships_to_end_def list_active_children_def)

lemma silent_ends: "silent m \<Longrightarrow> silent (ends m)"
proof -
  assume m: "silent m"
  have "s' = s" if r: "ends m s = (Inr (Inl e), s')" for s e s'
  proof -
    from r obtain v where "m s = (v, s')" "Inr (Inl e) = (case v of Inl e \<Rightarrow> Inl e | Inr x \<Rightarrow> Inr (map_result x (\<lambda>_. ())))"
      unfolding ends_run by blast
    then obtain v where "m s = (Inr v, s')" "map_result v (\<lambda>_. ()) = Inl e" by (cases v) auto
    moreover from this(2) have "v = Inl e" by (cases v) (simp_all add: map_result_def)
    ultimately show "s' = s" using m by (simp add: silent_def)
  qed
  then show ?thesis by (simp add: silent_def)
qed

text \<open>The reads the commands begin with, and the writes they end with.\<close>

lemma silent_cases:
  "silent a \<Longrightarrow> (\<And>x. silent (f x)) \<Longrightarrow> silent (case x of None \<Rightarrow> a | Some x \<Rightarrow> f x)"
  "silent a \<Longrightarrow> silent b \<Longrightarrow> silent (if c then a else b)"
  by (simp_all split: option.split)

lemma untyped_cases:
  "untyped a \<Longrightarrow> (\<And>x. untyped (f x)) \<Longrightarrow> untyped (case x of None \<Rightarrow> a | Some x \<Rightarrow> f x)"
  "untyped a \<Longrightarrow> untyped b \<Longrightarrow> untyped (if c then a else b)"
  by (simp_all split: option.split)

lemma reads_if: "only_reads a \<Longrightarrow> only_reads b \<Longrightarrow> only_reads (if c then a else b)"
  by simp

lemma silent_saves:
  "(\<And>u. untyped (f u)) \<Longrightarrow> silent (tx_bind (save_member fam m) f)"
  "(\<And>u. untyped (f u)) \<Longrightarrow> silent (tx_bind (save_family fam x) f)"
  "(\<And>u. untyped (f u)) \<Longrightarrow> silent (tx_bind (save_guardianship fam g) f)"
  "(\<And>u. untyped (f u)) \<Longrightarrow> silent (tx_bind (save_invitation fam i) f)"
  "(\<And>u. untyped (f u)) \<Longrightarrow> silent (tx_bind (end_all fam gs now) f)"
  by (simp_all add: silent_untyped untyped_bind)

lemmas silent_queries = reads_queries [THEN silent_reads] reads_if [OF reads_queries(9) reads_basic(1), THEN silent_reads]

lemmas silent_rules = silent_transaction silent_cases silent_ok silent_return silent_queries silent_saves
  untyped_bind untyped_return untyped_cases

lemma silent_commands:
  "silent (create_family fam owner user oname name prof cid now)" "silent (update_family fam p now)"
  "silent (add_member fam i adder kind name born gid cid now)" "silent (change_member_role fam i role cid now)"
  "silent (remove_member fam i cid now)" "silent (grant_guardianship fam c g gid cid now)"
  "silent (end_guardianship fam c g now)" "silent (transfer_ownership fam to cid now)"
  "silent (revoke_invitation fam iv now)" "silent (request_family_deletion fam who cid now)"
  "silent (accept_scoped ivt user email i cid now)"
  unfolding create_family_def update_family_def add_member_def change_member_role_def remove_member_def
    grant_guardianship_def end_guardianship_def transfer_ownership_def revoke_invitation_def
    request_family_deletion_def accept_scoped_def Let_def
  by (intro silent_rules)+

text \<open>Two transactions: an invitation is mailed after its own, a token is looked up before.\<close>

lemma silent_mail:
  "silent m \<Longrightarrow> silent (tx_bind m (\<lambda>r. tx_ok r (\<lambda>n. tx_bind (send_mail (f n)) (\<lambda>_. tx_return (Inr v)))))"
  by (auto simp: silent_def tx_bind_Inr tx_ok_Inr)

lemma silent_create_invitation: "silent (create_invitation hash fam i inviter email role existing tok now)"
proof -
  have inner: "silent (in_transaction
          (tx_bind (find_current fam) (\<lambda>found.
             case found of
               None \<Rightarrow> tx_return (Inl NotFound)
             | Some f \<Rightarrow>
                 tx_bind (case existing of None \<Rightarrow> tx_return None | Some u \<Rightarrow> find_standing fam u) (\<lambda>standing.
                   if standing \<noteq> None then tx_return (Inl AlreadyMember)
                   else
                     tx_bind (find_pending_by_email fam (email_value e)) (\<lambda>pending.
                       if pending \<noteq> None then tx_return (Inl AlreadyMember)
                       else
                         tx_bind (save_invitation fam iv) (\<lambda>_. tx_return (Inr (f_name f))))))))" for e iv
    by (cases existing) (simp_all only: option.case tx_bind_simps, (intro silent_rules)+)
  show ?thesis
    unfolding create_invitation_def Let_def by (intro silent_ok silent_mail inner)
qed

lemma silent_accept: "silent (accept_invitation hash tok user email i cid now)"
  unfolding silent_def
proof (intro allI impI)
  fix s e s'
  assume "accept_invitation hash tok user email i cid now s = (Inr (Inl e), s')"
  then obtain found where "(case found of
         None \<Rightarrow> tx_return (Inl InvitationInvalid)
       | Some iv \<Rightarrow>
           (let em = email_from email in
            if i_status iv = Accepted then
              (case i_accepted_by iv of
                 None \<Rightarrow> tx_return (Inl InvitationInvalid)
               | Some m \<Rightarrow>
                   if \<not> email_equals em (i_email iv) then tx_return (Inl InvitationEmailMismatch)
                   else tx_return (Inr (i_family iv, m)))
            else if i_status iv \<noteq> Pending \<or> invitation_expired iv now then
              tx_return (Inl InvitationInvalid)
            else if \<not> email_equals em (i_email iv) then tx_return (Inl InvitationEmailMismatch)
            else accept_scoped iv user em i cid now)) s = (Inr (Inl e), s')"
    by (auto simp: accept_invitation_def tx_bind_Inr in_transaction_Inr find_by_token_hash_def)
  then show "s' = s"
    using silent_commands(11) by (auto simp: silent_def Let_def split: option.splits if_splits)
qed

lemma silent_run: "silent (run_family hash c)"
  by (cases c) (simp_all add: silent_ends silent_commands silent_create_invitation silent_accept)

text \<open>\<open>atomic m\<close>: an exception leaves the store as it was.\<close>

definition atomic :: "'a family_tx \<Rightarrow> bool" where
  "atomic m \<longleftrightarrow> (\<forall>s e s'. m s = (Inl e, s') \<longrightarrow> s' = s)"

lemma atomic_transaction: "atomic (in_transaction m)"
  by (auto simp: atomic_def dest: in_transaction_throws)

lemma atomic_ok: "(\<And>v. atomic (f v)) \<Longrightarrow> atomic (tx_ok r f)"
  by (cases r) (simp_all add: atomic_def)

lemma atomic_ends: "atomic m \<Longrightarrow> atomic (ends m)"
  by (fastforce simp: atomic_def ends_def tx_bind_def split: prod.splits sum.splits)

lemma atomic_mail:
  "atomic m \<Longrightarrow> atomic (tx_bind m (\<lambda>r. tx_ok r (\<lambda>n. tx_bind (send_mail (f n)) (\<lambda>_. tx_return (Inr v)))))"
  by (auto simp: atomic_def tx_bind_def tx_ok_def send_mail_def split: prod.splits sum.splits)

lemma atomic_commands:
  "atomic (create_family fam owner user oname name prof cid now)" "atomic (update_family fam p now)"
  "atomic (add_member fam i adder kind name born gid cid now)" "atomic (change_member_role fam i role cid now)"
  "atomic (remove_member fam i cid now)" "atomic (grant_guardianship fam c g gid cid now)"
  "atomic (end_guardianship fam c g now)" "atomic (transfer_ownership fam to cid now)"
  "atomic (revoke_invitation fam iv now)" "atomic (request_family_deletion fam who cid now)"
  "atomic (accept_scoped ivt user email i cid now)"
  "atomic (create_invitation hash fam iv inviter em rl existing tok now)"
  unfolding create_family_def update_family_def add_member_def change_member_role_def remove_member_def
    grant_guardianship_def end_guardianship_def transfer_ownership_def revoke_invitation_def
    request_family_deletion_def accept_scoped_def create_invitation_def Let_def
  by (intro atomic_transaction atomic_ok atomic_mail)+

lemma atomic_accept: "atomic (accept_invitation hash tok user email i cid now)"
  unfolding atomic_def
proof (intro allI impI)
  fix s e s' assume "accept_invitation hash tok user email i cid now s = (Inl e, s')"
  then show "s' = s"
    using atomic_commands(11)
    by (auto simp: accept_invitation_def in_transaction_def find_by_token_hash_def atomic_def Let_def
        split: option.splits if_splits)
qed

lemma atomic_run: "atomic (run_family hash c)"
  by (cases c) (simp_all add: atomic_ends atomic_commands atomic_accept)



section \<open>The last guardian\<close>

text \<open>A save of a row that is there, keeps its CHECKs and clashes with no other.\<close>

lemma resave_member:
  assumes db: "family_db s" and r: "r \<in> set (mem_rows s)" "m_id r = m_id m" "m_family r = fam" "m_family m = fam"
    and ok: "member_shape m" "\<And>x. x \<in> set (mem_rows s) \<Longrightarrow> m_id x \<noteq> m_id m \<Longrightarrow> \<not> member_clash m x"
  obtains s1 where "save_member fam m s = (Inr (), s1)"
proof -
  have "member_table.sound (filter (\<lambda>r. m_family r = fam) (mem_rows s))"
    using family_dbD(1) [OF db] by (auto simp: member_table.sound_def distinct_map_filter)
  then have found: "tbl_find m_id (m_id m) (filter (\<lambda>r. m_family r = fam) (mem_rows s)) = Some r"
    using r by (simp add: member_table.sound_find)
  let ?c = "r\<lparr>m_kind := m_kind m, m_role := m_role m, m_user := m_user m, m_name := m_name m,
           m_born := m_born m, m_removed := m_removed m, m_updated := fs_now s\<rparr>"
  have "member_shape ?c" using ok(1) by (simp add: member_shape_def)
  moreover have "\<not> member_clash ?c x" if "x \<in> set (mem_rows s)" "m_id x \<noteq> m_id m" for x
    using ok(2) [OF that] r(3,4) by (simp add: member_clash_def)
  moreover have "m_family r \<in> f_id ` set (fam_rows s)"
    using family_dbD(5) [OF db] r(1) by (simp add: refs_ok_def)
  ultimately have "fst (save_member fam m s) = Inr ()"
    by (auto simp: save_member_def upsert_def found list_ex_iff)
  then show thesis using that by (metis prod.collapse)
qed

lemma removed_person:
  "member_shape m \<Longrightarrow> m_role m \<noteq> Owner \<Longrightarrow> member_shape (remove_member_record m now)"
  "m_id (remove_member_record m now) = m_id m" "m_family (remove_member_record m now) = m_family m"
  "\<not> member_clash (remove_member_record m now) x"
  by (auto simp: member_shape_def remove_member_record_def member_clash_def)

lemma remove_member_run:
  assumes db: "family_db s" and m: "tbl_find m_id i (family_members fam s) = Some m" "is_active m" "m_role m \<noteq> Owner"
  shows "fst (remove_member fam i cid now s) =
    Inr (if replaceable (household_of fam s) i then Inr () else Inl LastGuardian)"
proof -
  note f = found_member [OF db m(1)]
  have start: "tx_bind (find_member fam i) k s = k (Some m) s" for k :: "family_member option \<Rightarrow> 'a family_tx"
    by (simp add: find_member_run m)
  show ?thesis
  proof (cases "replaceable (household_of fam s) i")
    case False
    then show ?thesis
      by (simp add: remove_member_def in_transaction_def start m f(1) guardianships_to_end_run [OF db])
  next
    case True
    obtain rows where g: "end_all fam (guardianships_of fam i s) now s = (Inr (), s\<lparr>gua_rows := rows\<rparr>)"
      "family_db (s\<lparr>gua_rows := rows\<rparr>)"
      by (rule give_up_run [OF db]) (rule that; assumption)
    have "member_shape m" using family_dbD(1) [OF db] f(3) by (simp add: member_table.sound_def)
    then obtain s1 where "save_member fam (remove_member_record m now) (s\<lparr>gua_rows := rows\<rparr>) = (Inr (), s1)"
      using resave_member [OF g(2), of m "remove_member_record m now" fam] f m removed_person by auto
    then show ?thesis using True
      by (simp add: remove_member_def in_transaction_def start m f(1) guardianships_to_end_run [OF db] g(1))
  qed
qed

lemma end_guardianship_run:
  assumes db: "family_db s"
  shows "fst (end_guardianship fam c i now s) =
    Inr (if (i, c) \<notin> guards (household_of fam s) then Inl NotFound
         else if covered_without (household_of fam s) i c then Inr () else Inl LastGuardian)"
proof -
  obtain found where found: "find_active fam i c s = (Inr found, s)"
    by (simp add: find_active_def)
  note f = find_active_Inr [OF found]
  show ?thesis
  proof (cases found)
    case None
    with found f(2) show ?thesis by (simp add: end_guardianship_def in_transaction_def)
  next
    case (Some x)
    have x: "x \<in> set (gua_rows s)" "g_family x = fam" "g_ended x = None" using f(3) [OF Some] by auto
    have g: "(i, c) \<in> guards (household_of fam s)" using f(2) Some by simp
    obtain rows where "save_guardianship fam (end_guardianship_record x now) s = (Inr (), s\<lparr>gua_rows := rows\<rparr>)"
      by (rule ended [OF db x, where now = now]) (rule that; assumption)
    then show ?thesis using found Some g count_covered [OF db g]
      by (auto simp: end_guardianship_def in_transaction_def count_active_for_child_def assert_guardian_coverage_def)
  qed
qed

lemma change_role_run:
  assumes db: "family_db s" and m: "tbl_find m_id i (family_members fam s) = Some m" "is_active m"
    and k: "m_kind m = AdultKind" "m_role m = AdultRole" "role = ExtendedRole \<or> role = ViewerRole"
  shows "fst (change_member_role fam i role cid now s) =
    Inr (if replaceable (household_of fam s) i then Inr () else Inl LastGuardian)"
proof -
  note f = found_member [OF db m(1)]
  have start: "tx_bind (find_member fam i) h s = h (Some m) s" for h :: "family_member option \<Rightarrow> 'a family_tx"
    by (simp add: find_member_run m)
  have loses: "is_eligible_guardian (m_kind m) (m_role m) \<and> \<not> is_eligible_guardian (m_kind m) role"
    using k by (auto simp: is_eligible_guardian_def)
  let ?m = "m\<lparr>m_role := role, m_updated := now\<rparr>"
  have ch: "change_role m role now = Inr ?m" using k by (auto simp: change_role_def)
  show ?thesis
  proof (cases "replaceable (household_of fam s) i")
    case False
    then show ?thesis
      by (simp add: change_member_role_def in_transaction_def start m f(1) loses guardianships_to_end_run [OF db])
  next
    case True
    obtain rows where g: "end_all fam (guardianships_of fam i s) now s = (Inr (), s\<lparr>gua_rows := rows\<rparr>)"
      "family_db (s\<lparr>gua_rows := rows\<rparr>)"
      by (rule give_up_run [OF db]) (rule that; assumption)
    have "member_shape m" using family_dbD(1) [OF db] f(3) by (simp add: member_table.sound_def)
    then have "member_shape ?m" using k by (auto simp: member_shape_def)
    moreover have "\<not> member_clash ?m x" if "x \<in> set (mem_rows s)" "m_id x \<noteq> m_id m" for x
    proof
      assume "member_clash ?m x"
      then have "member_clash m x" using k(3) by (auto simp: member_clash_def)
      with member_table.sound_clash [OF family_dbD(1) [OF db] f(3) that(1)] that(2) show False by simp
    qed
    ultimately obtain s1 where "save_member fam ?m (s\<lparr>gua_rows := rows\<rparr>) = (Inr (), s1)"
      using resave_member [OF g(2), of m ?m fam] f by auto
    then show ?thesis using True
      by (simp add: change_member_role_def in_transaction_def start m f(1) loses ch guardianships_to_end_run [OF db] g(1))
  qed
qed

text \<open>The member guards a child that nobody else guards.\<close>

definition sole_guardian :: "family_id \<Rightarrow> family_store \<Rightarrow> member_id \<Rightarrow> member_id \<Rightarrow> bool" where
  "sole_guardian fam s i c \<longleftrightarrow>
     (\<exists>g \<in> set (active_guardianships fam s). g_guardian g = i \<and> g_child g = c)
     \<and> (\<forall>g \<in> set (active_guardianships fam s). g_child g = c \<longrightarrow> g_guardian g = i)"

lemma sole_guardian_iff:
  "sole_guardian fam s i c \<longleftrightarrow> (i, c) \<in> guards (household_of fam s) \<and> \<not> covered_without (household_of fam s) i c"
proof -
  have g: "(x, c) \<in> guards (household_of fam s) \<longleftrightarrow> (\<exists>g \<in> set (active_guardianships fam s). g_guardian g = x \<and> g_child g = c)" for x
    by (auto simp: household_of_def)
  show ?thesis unfolding sole_guardian_def covered_without_def g by metis
qed

lemma replaceable_iff: "replaceable (household_of fam s) i \<longleftrightarrow> \<not> (\<exists>c. sole_guardian fam s i c)"
  unfolding sole_guardian_iff replaceable_def by blast

text \<open>
  C24: Removing an active member that is not the owner succeeds, and making an adult member an
  extended one or a viewer succeeds, unless the member is some child's only guardian: then
  \<open>LastGuardian\<close> is answered. Ending a guardianship answers \<open>NotFound\<close> when there is none,
  \<open>LastGuardian\<close> when it is the child's last, and succeeds otherwise.
\<close>

theorem last_guardian_kept:
  assumes "fam_reachable hash s" "tbl_find m_id i (family_members fam s) = Some m" "is_active m"
  shows "(m_role m \<noteq> Owner \<longrightarrow>
      fst (remove_member fam i cid now s) = Inr (if \<exists>c. sole_guardian fam s i c then Inl LastGuardian else Inr ()))
    \<and> (m_kind m = AdultKind \<and> m_role m = AdultRole \<and> (role = ExtendedRole \<or> role = ViewerRole) \<longrightarrow>
      fst (change_member_role fam i role cid now s) =
        Inr (if \<exists>c. sole_guardian fam s i c then Inl LastGuardian else Inr ()))
    \<and> fst (end_guardianship fam c i now s) =
        Inr (if c \<notin> set (guarded_by fam i s) then Inl NotFound
             else if sole_guardian fam s i c then Inl LastGuardian else Inr ())"
proof -
  have db: "family_db s" using reachable_ok [OF assms(1)] by (simp add: households_ok_def)
  have "c \<in> set (guarded_by fam i s) \<longleftrightarrow> (i, c) \<in> guards (household_of fam s)"
    by (auto simp: guarded_by_def household_of_def)
  then show ?thesis
    using remove_member_run [OF db assms(2,3)] change_role_run [OF db assms(2,3)] end_guardianship_run [OF db, of fam c i now]
    by (auto simp: replaceable_iff sole_guardian_iff)
qed

lemma last_guardian_kept_witness:
  "fst (remove_member our_family father ''c9'' 9 with_both) = Inr (Inr ())
   \<and> fst (end_guardianship our_family baby father 9 with_both) = Inr (Inr ())
   \<and> \<not> sole_guardian our_family with_both father baby"
proof -
  obtain m where m: "tbl_find m_id father (family_members our_family with_both) = Some m" "is_active m" "m_role m = AdultRole"
    by (simp add: with_both_members with_both_rows tbl_find_def is_active_def)
  have sole: "\<not> sole_guardian our_family with_both father c" "baby \<in> set (guarded_by our_family father with_both)" for c
    by (auto simp: sole_guardian_def guarded_by_def with_both_members with_both_rows)
  have no: "m_role m \<noteq> Owner" using m(3) by simp
  note k = last_guardian_kept [OF our_home_reachable(5) m(1,2), where cid = "''c9''" and now = 9 and c = baby]
  have "fst (remove_member our_family father ''c9'' 9 with_both) = Inr (Inr ())"
    using k [THEN conjunct1, THEN mp, OF no] by (simp only: sole(1) simp_thms if_False)
  moreover have "fst (end_guardianship our_family baby father 9 with_both) = Inr (Inr ())"
    using k [THEN conjunct2, THEN conjunct2] by (simp only: sole simp_thms if_False)
  ultimately show ?thesis using sole(1) by blast
qed

end
