(* ===== verification/Family_Joining.thy ===== *)
theory Family_Joining
  imports Family_Conduct
begin

text \<open>
  Ownership and membership changing hands: a transfer goes through whenever it may, and an
  accepted invitation answers the same membership ever after.
\<close>

section \<open>Transfer of ownership\<close>

lemma owner_listed:
  assumes db: "family_db s" and a: "a \<in> set (family_members fam s)" "is_active a" "m_role a = Owner"
  shows "List.find (\<lambda>m. m_role m = Owner) (sort_key m_created (filter is_active (family_members fam s))) = Some a"
proof -
  have only: "x = a" if "x \<in> set (family_members fam s)" "is_active x" "m_role x = Owner" for x
    using member_table.sound_clash [OF family_dbD(1) [OF db], of x a] that a
    by (auto simp: family_members_def member_clash_def is_active_def)
  let ?xs = "sort_key m_created (filter is_active (family_members fam s))"
  have "a \<in> set ?xs" using a by simp
  then obtain x where x: "List.find (\<lambda>m. m_role m = Owner) ?xs = Some x"
    using a(3) by (cases "List.find (\<lambda>m. m_role m = Owner) ?xs") (auto simp: find_None_iff)
  from find_in [OF x] have "x = a" by (intro only) simp_all
  with x show ?thesis by simp
qed

text \<open>
  C23: When the new owner is an active adult member with an account, other than the current owner,
  the transfer succeeds: the old owner is an adult member, the new one the owner, and nobody else
  changes. Demoting before promoting is what the index on owners asks for.
\<close>

theorem transfer_goes_through:
  assumes "family_db s"
    and "a \<in> set (family_members fam s)" "is_active a" "m_role a = Owner"
    and "b \<in> set (family_members fam s)" "is_active b" "m_kind b = AdultKind" "m_user b \<noteq> None"
    and "m_id a \<noteq> m_id b"
  shows "\<exists>s'. transfer_ownership fam (m_id b) cid now s = (Inr (Inr ()), s') \<and> family_db s'
    \<and> household_of fam s' = set_person (set_person (household_of fam s) (m_id a) ((person_of a)\<lparr>p_role := AdultRole\<rparr>))
        (m_id b) ((person_of b)\<lparr>p_role := Owner\<rparr>)
    \<and> fs_outbox s' = fs_outbox s @
        [member_role_changed_event fam (m_id a) Owner AdultRole cid,
         member_role_changed_event fam (m_id b) AdultRole Owner cid]"
proof -
  note db = assms(1)
  have rows: "a \<in> set (mem_rows s)" "m_family a = fam" "b \<in> set (mem_rows s)" "m_family b = fam"
    using assms(2,5) by (auto simp: family_members_def)
  have shape: "member_shape a" "member_shape b"
    using family_dbD(1) [OF db] rows by (simp_all add: member_table.sound_def)
  have b: "tbl_find m_id (m_id b) (family_members fam s) = Some b"
    using assms(5) family_dbD(1) [OF db]
    by (intro tbl_find_distinct) (auto simp: family_members_def member_table.sound_def distinct_map_filter)
  note a = owner_listed [OF db assms(2-4)]
  let ?a = "a\<lparr>m_role := AdultRole, m_updated := now\<rparr>" and ?b = "b\<lparr>m_role := Owner, m_updated := now\<rparr>"
  have pr: "promote_to_owner b now = Inr ?b" "demote_from_ownership a now = Inr ?a"
    using assms by (simp_all add: promote_to_owner_def demote_from_ownership_def)
  have "\<not> member_clash ?a x" if "x \<in> set (mem_rows s)" "m_id x \<noteq> m_id a" for x
    using member_table.sound_clash [OF family_dbD(1) [OF db] rows(1) that(1)] that(2)
    by (auto simp: member_clash_def)
  then obtain s1 where s1: "save_member fam ?a s = (Inr (), s1)"
    using resave_member [OF db rows(1), of ?a fam] rows shape assms(3,4) by (auto simp: member_shape_def)
  note sv1 = saved_member [OF db s1, simplified, OF rows(2)]
  have p1: "people (household_of fam s1) = (people (household_of fam s))(m_id a \<mapsto> (person_of a)\<lparr>p_role := AdultRole\<rparr>)"
    unfolding sv1(2) by (simp add: hh_simps person_of_def is_active_def)
  have row1: "\<exists>r \<in> set (mem_rows s1). m_id r = i \<and> m_family r = fam \<and> person_of r = q"
    if "people (household_of fam s1) i = Some q" for i q
    using that people_iff [OF family_dbD(1) [OF sv1(1)]] by blast
  have pb: "people (household_of fam s1) (m_id b) = Some (person_of b)"
    unfolding p1 using assms(9) found_member(4) [OF db b] by simp
  then obtain b1 where b1: "b1 \<in> set (mem_rows s1)" "m_id b1 = m_id b" "m_family b1 = fam" "person_of b1 = person_of b"
    using row1 by blast
  have clash: "\<not> member_clash ?b x" if x: "x \<in> set (mem_rows s1)" "m_id x \<noteq> m_id b" for x
  proof
    assume c: "member_clash ?b x"
    then have x': "m_family x = fam" "m_removed x = None" "is_active x" using rows by (auto simp: member_clash_def is_active_def)
    have px: "people (household_of fam s1) (m_id x) = Some (person_of x)"
      using people_iff [OF family_dbD(1) [OF sv1(1)]] x(1) x'(1) by blast
    show False
    proof (cases "m_role x = Owner")
      case False
      then have "member_clash b1 x"
        using c b1(3,4) x' assms(6) by (auto simp: member_clash_def person_of_def is_active_def)
      with member_table.sound_clash [OF family_dbD(1) [OF sv1(1)] b1(1) x(1)] b1(2) x(2) show False by simp
    next
      case True
      have "m_id x \<noteq> m_id a"
      proof
        assume "m_id x = m_id a"
        with px p1 have "person_of x = (person_of a)\<lparr>p_role := AdultRole\<rparr>" by simp
        then have "p_role (person_of x) = AdultRole" by simp
        with True show False by simp
      qed
      with px p1 have "people (household_of fam s) (m_id x) = Some (person_of x)" by simp
      then obtain y where "y \<in> set (mem_rows s)" "m_id y = m_id x" "m_family y = fam" "person_of y = person_of x"
        using people_iff [OF family_dbD(1) [OF db]] by blast
      then have "member_clash a y" using True x'(3) assms(3,4) rows
        by (auto simp: member_clash_def person_of_def is_active_def)
      with member_table.sound_clash [OF family_dbD(1) [OF db] rows(1) \<open>y \<in> set (mem_rows s)\<close>]
        \<open>m_id y = m_id x\<close> \<open>m_id x \<noteq> m_id a\<close> show False by simp
    qed
  qed
  have "member_shape ?b" using shape(2) assms(7,8) by (auto simp: member_shape_def)
  with resave_member [OF sv1(1) b1(1), of ?b fam] b1 rows clash obtain s2 where
    s2: "save_member fam ?b s1 = (Inr (), s2)" by auto
  note sv2 = saved_member [OF sv1(1) s2, simplified, OF rows(4)]
  have "transfer_ownership fam (m_id b) cid now s = (Inr (Inr ()), s2\<lparr>fs_outbox := fs_outbox s2 @
        [member_role_changed_event fam (m_id a) Owner AdultRole cid,
         member_role_changed_event fam (m_id b) AdultRole Owner cid]\<rparr>)"
    using assms(9) by (simp add: transfer_ownership_def in_transaction_def find_member_run b assms(6)
        list_active_def a pr s1 s2)
  moreover have "household_of fam s2 = set_person (set_person (household_of fam s) (m_id a) ((person_of a)\<lparr>p_role := AdultRole\<rparr>))
        (m_id b) ((person_of b)\<lparr>p_role := Owner\<rparr>)"
    unfolding sv2(2) sv1(2) by (simp add: person_of_def is_active_def)
  ultimately show ?thesis using sv1 sv2 by auto
qed

lemma transfer_goes_through_witness:
  "\<exists>s'. transfer_ownership our_family father ''c9'' 9 with_both = (Inr (Inr ()), s') \<and> family_db s'
    \<and> owns (household_of our_family s') father \<and> \<not> owns (household_of our_family s') mother"
proof -
  obtain a where a': "tbl_find m_id mother (family_members our_family with_both) = Some a" "is_active a" "m_role a = Owner"
    by (simp add: with_both_members with_both_rows tbl_find_def is_active_def)
  obtain b where b': "tbl_find m_id father (family_members our_family with_both) = Some b" "is_active b"
      "m_kind b = AdultKind" "m_user b \<noteq> None"
    by (simp add: with_both_members with_both_rows tbl_find_def is_active_def)
  note a = tbl_find_Some [OF a'(1), THEN conjunct1] a'(2,3) tbl_find_Some [OF a'(1), THEN conjunct2]
  note b = tbl_find_Some [OF b'(1), THEN conjunct1] b'(2-4) tbl_find_Some [OF b'(1), THEN conjunct2]
  have ne: "m_id a \<noteq> m_id b" by (simp add: a b)
  obtain s' where s': "transfer_ownership our_family father ''c9'' 9 with_both = (Inr (Inr ()), s')" "family_db s'"
    "household_of our_family s' = set_person (set_person (household_of our_family with_both) mother ((person_of a)\<lparr>p_role := AdultRole\<rparr>))
        father ((person_of b)\<lparr>p_role := Owner\<rparr>)"
    using transfer_goes_through [OF our_home_db(5) a(1-3) b(1-4) ne, of "''c9''" 9] unfolding a(4) b(5) by blast
  then show ?thesis using b(2) by (intro exI [of _ s']) (simp add: owns_def hh_simps)
qed

section \<open>An invitation is accepted once\<close>

lemma token_row:
  assumes "family_db s"
  shows "tbl_find i_hash h (inv_rows s) = Some iv \<longleftrightarrow> iv \<in> set (inv_rows s) \<and> i_hash iv = h"
proof
  assume r: "iv \<in> set (inv_rows s) \<and> i_hash iv = h"
  then obtain x where x: "tbl_find i_hash h (inv_rows s) = Some x"
    by (cases "tbl_find i_hash h (inv_rows s)") (auto simp: tbl_find_None)
  then have "x \<in> set (inv_rows s)" "i_hash x = h" by (auto dest: tbl_find_Some)
  with r invitation_table.sound_clash [OF family_dbD(3) [OF assms], of x iv] have "x = iv"
    by (simp add: invitation_clash_def)
  with x show "tbl_find i_hash h (inv_rows s) = Some iv" by simp
qed (auto dest: tbl_find_Some)

lemma saved_invitation_row:
  assumes db: "family_db s" and run: "save_invitation (i_family iv) iv' s = (Inr (), s1)"
    and iv: "iv \<in> set (inv_rows s)" "i_id iv' = i_id iv" "i_family iv' = i_family iv"
  shows "\<exists>r \<in> set (inv_rows s1). i_hash r = i_hash iv' \<and> i_status r = i_status iv' \<and> i_email r = i_email iv'
    \<and> i_accepted_by r = i_accepted_by iv' \<and> i_family r = i_family iv \<and> i_id r = i_id iv"
proof -
  let ?ch = "\<lambda>r. r\<lparr>i_email := i_email iv', i_role := i_role iv', i_hash := i_hash iv', i_status := i_status iv',
           i_expires := i_expires iv', i_invited_by := i_invited_by iv',
           i_accepted_by := i_accepted_by iv', i_accepted := i_accepted iv', i_revoked := i_revoked iv'\<rparr>"
  obtain rows where rows: "upsert i_id (\<lambda>r. i_family r = i_family iv) (\<lambda>r. i_role r \<noteq> Owner) invitation_clash
         (\<lambda>r. i_family r \<in> f_id ` set (fam_rows s) \<and> i_invited_by r \<in> m_id ` set (mem_rows s)
           \<and> (case i_accepted_by r of None \<Rightarrow> True | Some m \<Rightarrow> m \<in> m_id ` set (mem_rows s)))
         (iv'\<lparr>i_created := fs_now s\<rparr>) ?ch (inv_rows s) = Inr rows" "s1 = s\<lparr>inv_rows := rows\<rparr>"
    using run by (auto simp: save_invitation_def split: sum.splits)
  have ch: "i_id (?ch r) = i_id r" for r by simp
  show ?thesis
    using family_dbD(3) [OF db] rows(1) ch
  proof (cases rule: invitation_table.upsert_cases)
    case inserted
    with iv show ?thesis by auto
  next
    case (updated r)
    then have "?ch r \<in> set (inv_rows s1)" by (simp add: rows(2))
    with updated iv show ?thesis by (intro bexI [of _ "?ch r"]) auto
  qed
qed



end
