(* ===== verification/Family_Reads.thy ===== *)
theory Family_Reads
  imports Family_Joining
begin

text \<open>
  What the Family queries show and to whom, what erasing a member does, and what two transactions
  that overlap can do that one after the other cannot.
\<close>

section \<open>Standing\<close>

text \<open>
  C27: A user has standing in a family exactly when the family exists, its deletion was not
  requested, and the user has an active membership; the standing is that membership's id, role and
  capabilities. Nothing is written.
\<close>

theorem standing_exact:
  assumes "family_db s"
  shows "\<exists>r. resolve_family_context user fam s = (Inr r, s)
    \<and> (r = Some ctx \<longleftrightarrow>
        (\<exists>f \<in> set (fam_rows s). f_id f = fam \<and> f_deletion f = None)
        \<and> (\<exists>m \<in> set (family_members fam s). m_user m = Some user \<and> is_active m
             \<and> ctx = \<lparr>fc_member = m_id m, fc_role = m_role m, fc_capabilities = capabilities_for (m_role m)\<rparr>))"
proof -
  have fam: "tbl_find f_id fam (fam_rows s) = Some f \<longleftrightarrow> f \<in> set (fam_rows s) \<and> f_id f = fam" for f
    by (rule family_table.sound_find [OF family_dbD(4) [OF assms]])
  have only: "m = x" if "m \<in> set (family_members fam s)" "x \<in> set (family_members fam s)"
    "m_user m = Some user" "m_user x = Some user" "is_active m" "is_active x" for m x
    using member_table.sound_clash [OF family_dbD(1) [OF assms], of m x] that
    by (auto simp: family_members_def member_clash_def is_active_def)
  let ?P = "\<lambda>m. m_user m = Some user \<and> is_active m"
  have standing: "List.find ?P (family_members fam s) = Some m \<longleftrightarrow> m \<in> set (family_members fam s) \<and> ?P m" for m
  proof
    assume m: "m \<in> set (family_members fam s) \<and> ?P m"
    then obtain x where x: "List.find ?P (family_members fam s) = Some x"
      by (cases "List.find ?P (family_members fam s)") (auto simp: find_None_iff)
    from find_in [OF x] m only [of x m] have "x = m" by blast
    with x show "List.find ?P (family_members fam s) = Some m" by simp
  qed (auto dest: find_in)
  show ?thesis
  proof (cases "tbl_find f_id fam (fam_rows s)")
    case None
    then have "\<not> (\<exists>f \<in> set (fam_rows s). f_id f = fam)" using fam by (auto simp: tbl_find_None)
    with None show ?thesis
      by (intro exI [of _ None]) (auto simp: resolve_family_context_def in_transaction_def find_current_def)
  next
    case (Some f)
    note f = Some [unfolded fam]
    then have one: "(\<exists>x \<in> set (fam_rows s). f_id x = fam \<and> f_deletion x = None) \<longleftrightarrow> f_deletion f = None"
      using fam Some by (metis option.inject)
    let ?st = "List.find ?P (family_members fam s)"
    let ?ctx = "\<lambda>m. \<lparr>fc_member = m_id m, fc_role = m_role m, fc_capabilities = capabilities_for (m_role m)\<rparr>"
    have run: "resolve_family_context user fam s =
        (Inr (if f_deletion f \<noteq> None then None else map_option ?ctx ?st), s)"
      using Some by (simp add: resolve_family_context_def in_transaction_def find_current_def find_standing_def
          option.map_comp comp_def)
    have "map_option ?ctx ?st = Some ctx \<longleftrightarrow> (\<exists>m \<in> set (family_members fam s). ?P m \<and> ctx = ?ctx m)"
      using standing by (auto simp del: find_Some_iff)
    then show ?thesis unfolding run one by auto
  qed
qed

lemma standing_exact_witness:
  "resolve_family_context (UserId ''u2'') our_family with_both =
     (Inr (Some \<lparr>fc_member = father, fc_role = AdultRole, fc_capabilities = capabilities_for AdultRole\<rparr>), with_both)"
proof -
  let ?ctx = "\<lparr>fc_member = father, fc_role = AdultRole, fc_capabilities = capabilities_for AdultRole\<rparr>"
  have f: "\<exists>f \<in> set (fam_rows with_both). f_id f = our_family \<and> f_deletion f = None"
    using with_both_rows(3,4) by (cases "fam_rows with_both") auto
  obtain r where "resolve_family_context (UserId ''u2'') our_family with_both = (Inr r, with_both)"
    "r = Some ?ctx \<longleftrightarrow> (\<exists>f \<in> set (fam_rows with_both). f_id f = our_family \<and> f_deletion f = None)
        \<and> (\<exists>m \<in> set (family_members our_family with_both). m_user m = Some (UserId ''u2'') \<and> is_active m
             \<and> ?ctx = \<lparr>fc_member = m_id m, fc_role = m_role m, fc_capabilities = capabilities_for (m_role m)\<rparr>)"
    using standing_exact [OF our_home_db(5), of "UserId ''u2''" our_family ?ctx] by blast
  with f show ?thesis by (simp add: with_both_members with_both_rows is_active_def)
qed

section \<open>Child records\<close>

text \<open>
  C26: An active child's record is shown to the caller exactly when the caller is its active
  guardian, and else answers \<open>GuardianshipRequired\<close>; either way the read is recorded in the audit
  log and nothing else changes. A read of an adult member's record is not recorded.
\<close>

theorem child_record_guarded:
  assumes "family_db s" "tbl_find m_id i (family_members fam s) = Some m" "is_active m"
  shows "read_member fam i caller user cid s =
    (let guards_it = (\<exists>g \<in> set (active_guardianships fam s). g_guardian g = caller \<and> g_child g = i);
         shown = \<lparr>mv_id = i, mv_kind = m_kind m, mv_role = m_role m, mv_name = m_name m, mv_born = Some (m_born m)\<rparr> in
     if m_kind m = AdultKind then (Inr (Inr shown), s)
     else (Inr (if guards_it then Inr shown else Inl GuardianshipRequired),
       s\<lparr>fs_audit := fs_audit s @ [child_read_audit fam caller user i cid guards_it]\<rparr>))"
proof -
  note f = found_member [OF assms(1,2)]
  obtain g where g: "find_active fam caller i s = (Inr g, s)" by (simp add: find_active_def)
  have "g \<noteq> None \<longleftrightarrow> (\<exists>g \<in> set (active_guardianships fam s). g_guardian g = caller \<and> g_child g = i)"
    using find_active_Inr(2) [OF g] by (simp add: household_of_def image_iff Bex_def) metis
  then have e: "(\<exists>g \<in> set (active_guardianships fam s). g_guardian g = caller \<and> g_child g = i) \<longleftrightarrow> g \<noteq> None" ..
  have run: "read_member fam i caller user cid s =
    (let shown = \<lparr>mv_id = i, mv_kind = m_kind m, mv_role = m_role m, mv_name = m_name m, mv_born = Some (m_born m)\<rparr> in
     if m_kind m = AdultKind then (Inr (Inr shown), s)
     else (Inr (if g \<noteq> None then Inr shown else Inl GuardianshipRequired),
       s\<lparr>fs_audit := fs_audit s @ [child_read_audit fam caller user i cid (g \<noteq> None)]\<rparr>))"
  proof (cases "m_kind m")
    case AdultKind
    then show ?thesis using f(1) assms(2,3)
      by (simp add: read_member_def in_transaction_def find_member_run Let_def)
  next
    case ChildKind
    then show ?thesis using f(1) assms(2,3) g
      by (cases g) (simp_all add: read_member_def in_transaction_def find_member_run fs_record_def Let_def)
  qed
  show ?thesis unfolding run e Let_def ..
qed

lemma child_record_guarded_witness:
  "fst (read_member our_family baby father None ''c7'' with_both) =
     Inr (Inr \<lparr>mv_id = baby, mv_kind = ChildKind, mv_role = ViewerRole, mv_name = Some ''Tim'', mv_born = Some (Some 5)\<rparr>)
   \<and> fst (read_member our_family baby baby None ''c7'' with_both) = Inr (Inl GuardianshipRequired)"
proof -
  obtain m where m: "tbl_find m_id baby (family_members our_family with_both) = Some m" "is_active m"
    and c: "m_kind m = ChildKind" "m_role m = ViewerRole" "m_name m = Some ''Tim''" "m_born m = Some 5"
    by (simp add: with_both_members with_both_rows tbl_find_def is_active_def)
  show ?thesis
    unfolding child_record_guarded [OF our_home_db(5) m] by (simp add: c Let_def with_both_members with_both_rows)
qed

text \<open>
  The member list shows the birth date of a child only to its active guardians; every other
  field of every active member is shown to each member of the family, oldest member first.
\<close>

lemma birth_dates_guarded:
  "list_members fam caller s = (Inr (map (\<lambda>m.
      \<lparr>mv_id = m_id m, mv_kind = m_kind m, mv_role = m_role m, mv_name = m_name m,
       mv_born = (if m_kind m = ChildKind
           \<and> \<not> (\<exists>g \<in> set (active_guardianships fam s). g_guardian g = caller \<and> g_child g = m_id m)
         then None else Some (m_born m))\<rparr>)
      (sort_key m_created (filter is_active (family_members fam s)))), s)"
  by (simp add: list_members_def in_transaction_def list_active_def list_active_children_def guarded_by_def image_iff)
    (auto simp: Bex_def)

section \<open>Erasing the owner\<close>

text \<open>
  The erasure of a member that owns its family always fails: the tombstone keeps the role of
  owner without the account the CHECK asks for. Every other member's erasure succeeds.
\<close>

theorem owner_not_erasable:
  assumes "family_db s" "tbl_find m_id i (mem_rows s) = Some m"
  shows "fst (erase_for_member i now s) = (if m_role m = Owner then Inl CheckViolation else Inr ())"
proof -
  have "m \<in> set (mem_rows s)" using tbl_find_Some [OF assms(2)] by simp
  then have "member_shape m" using family_dbD(1) [OF assms(1)] by (simp add: member_table.sound_def)
  then have "member_shape (tombstone now m) \<longleftrightarrow> m_role m \<noteq> Owner"
    by (auto simp: member_shape_def tombstone_def split: option.splits)
  then show ?thesis using assms(2) by (simp add: erase_for_member_def)
qed

lemma owner_not_erasable_witness:
  "fst (erase_for_member mother 9 with_both) = Inl CheckViolation \<and> fst (erase_for_member father 9 with_both) = Inr ()"
proof -
  obtain a b where "tbl_find m_id mother (mem_rows with_both) = Some a" "m_role a = Owner"
    "tbl_find m_id father (mem_rows with_both) = Some b" "m_role b = AdultRole"
    by (simp add: with_both_rows tbl_find_def)
  then show ?thesis
    using owner_not_erasable [OF our_home_db(5), of mother a 9] owner_not_erasable [OF our_home_db(5), of father b 9] by simp
qed

end
