(* ===== verification/Family_Race.thy ===== *)
theory Family_Race
  imports Family_Reads
begin

text \<open>
  What the Family transactions do not exclude. The commands take no lock, and the database runs
  them at its default level, READ COMMITTED: the reads of two transactions may both come before
  the writes of either.
\<close>

section \<open>Two guardianships ended at once\<close>

text \<open>The two halves of \<open>endGuardianship\<close>: what it reads and decides, and what it writes.\<close>

definition end_checked :: "family_id \<Rightarrow> member_id \<Rightarrow> member_id \<Rightarrow> guardianship outcome family_tx" where
  "end_checked fam child guardian =
     tx_bind (find_active fam guardian child) (\<lambda>found.
       case found of
         None \<Rightarrow> tx_return (Inl NotFound)
       | Some g \<Rightarrow>
           tx_bind (count_active_for_child fam child) (\<lambda>n.
             tx_ok (assert_guardian_coverage (n - 1)) (\<lambda>_. tx_return (Inr g))))"

definition end_written :: "family_id \<Rightarrow> int \<Rightarrow> guardianship \<Rightarrow> unit family_tx" where
  "end_written fam now g = save_guardianship fam (end_guardianship_record g now)"

lemma end_guardianship_halves:
  "end_guardianship fam child guardian now =
     in_transaction (tx_bind (end_checked fam child guardian) (\<lambda>r.
       tx_ok r (\<lambda>g. tx_bind (end_written fam now g) (\<lambda>_. tx_return (Inr ())))))"
proof -
  have ok: "tx_bind (tx_ok r (\<lambda>_. tx_return (Inr g))) (\<lambda>r. tx_ok r k) = tx_ok r (\<lambda>_. k g)"
    for r :: "unit outcome" and g :: guardianship and k :: "guardianship \<Rightarrow> unit outcome family_tx"
    by (cases r) (simp_all add: fun_eq_iff)
  show ?thesis
    unfolding end_guardianship_def end_checked_def end_written_def tx_bind_assoc
    by (rule arg_cong [where f = in_transaction], rule arg_cong [where f = "tx_bind _"], rule ext)
      (simp add: fun_eq_iff tx_bind_assoc ok split: option.split)
qed

text \<open>
  C30: When a child has exactly two guardians and each guardianship is ended by a transaction that
  read before the other wrote, both pass the check and both writes succeed: an active child is
  left without a guardian.
\<close>

theorem both_guardians_ended:
  assumes "family_db s" "guards (household_of fam s) \<inter> UNIV \<times> {c} = {(a, c), (b, c)}" "a \<noteq> b"
  shows "\<exists>ga gb s1 s2. end_checked fam c a s = (Inr (Inr ga), s) \<and> end_checked fam c b s = (Inr (Inr gb), s)
    \<and> end_written fam t ga s = (Inr (), s1) \<and> end_written fam t' gb s1 = (Inr (), s2)
    \<and> people (household_of fam s2) = people (household_of fam s)
    \<and> \<not> (\<exists>x. (x, c) \<in> guards (household_of fam s2))"
proof -
  note db = assms(1)
  have g: "(a, c) \<in> guards (household_of fam s)" "(b, c) \<in> guards (household_of fam s)"
    and only: "x = a \<or> x = b" if "(x, c) \<in> guards (household_of fam s)" for x
    using assms(2) that by auto
  have g: "(a, c) \<in> guards (household_of fam s)" "(b, c) \<in> guards (household_of fam s)"
    using assms(2) by auto
  have cov: "covered_without (household_of fam s) a c" "covered_without (household_of fam s) b c"
    using g assms(3) by (auto simp: covered_without_def)
  have check: "\<exists>x. end_checked fam c i s = (Inr (Inr x), s) \<and> x \<in> set (gua_rows s) \<and> g_family x = fam
      \<and> g_ended x = None \<and> g_guardian x = i \<and> g_child x = c"
    if i: "(i, c) \<in> guards (household_of fam s)" "covered_without (household_of fam s) i c" for i
  proof -
    obtain found where found: "find_active fam i c s = (Inr found, s)" by (simp add: find_active_def)
    note f = find_active_Inr [OF found]
    obtain x where x: "found = Some x" using f(2) i(1) by (cases found) auto
    have "end_checked fam c i s = (Inr (Inr x), s)"
      using found x count_covered [OF db i(1)] i(2)
      by (simp add: end_checked_def count_active_for_child_def assert_guardian_coverage_def)
    with f(3) [OF x] show ?thesis by blast
  qed
  from check [OF g(1) cov(1)] obtain ga where ga: "end_checked fam c a s = (Inr (Inr ga), s)"
    "ga \<in> set (gua_rows s)" "g_family ga = fam" "g_ended ga = None" "g_guardian ga = a" "g_child ga = c" by blast
  from check [OF g(2) cov(2)] obtain gb where gb: "end_checked fam c b s = (Inr (Inr gb), s)"
    "gb \<in> set (gua_rows s)" "g_family gb = fam" "g_ended gb = None" "g_guardian gb = b" "g_child gb = c" by blast
  obtain rows where r: "save_guardianship fam (end_guardianship_record ga t) s = (Inr (), s\<lparr>gua_rows := rows\<rparr>)"
    "family_db (s\<lparr>gua_rows := rows\<rparr>)" "set rows = insert (end_guardianship_record ga t) (set (gua_rows s) - {ga})"
    "household_of fam (s\<lparr>gua_rows := rows\<rparr>) =
       (household_of fam s)\<lparr>guards := guards (household_of fam s) - {(g_guardian ga, g_child ga)}\<rparr>"
    by (rule ended [OF db ga(2-4), where now = t]) (rule that; assumption)
  let ?s1 = "s\<lparr>gua_rows := rows\<rparr>"
  have "gb \<in> set (gua_rows ?s1)" using gb ga(5) assms(3) by (auto simp: r(3))
  then obtain rows' where r': "save_guardianship fam (end_guardianship_record gb t') ?s1 = (Inr (), ?s1\<lparr>gua_rows := rows'\<rparr>)"
    "household_of fam (?s1\<lparr>gua_rows := rows'\<rparr>) =
       (household_of fam ?s1)\<lparr>guards := guards (household_of fam ?s1) - {(g_guardian gb, g_child gb)}\<rparr>"
    by (rule ended [OF r(2) _ gb(3,4), where now = t']) (rule that; assumption)
  let ?s2 = "?s1\<lparr>gua_rows := rows'\<rparr>"
  have g2: "guards (household_of fam ?s2) = guards (household_of fam s) - {(a, c)} - {(b, c)}"
    unfolding r'(2) r(4) ga(5,6) gb(5,6) by simp
  have "\<not> (\<exists>x. (x, c) \<in> guards (household_of fam ?s2))" unfolding g2 using only by blast
  moreover have "people (household_of fam ?s2) = people (household_of fam s)" by (simp only: people_gua)
  ultimately show ?thesis
    using ga(1) gb(1) r(1) r'(1) unfolding end_written_def by blast
qed

lemma both_guardians_ended_witness:
  "\<exists>s2. people (household_of our_family s2) = people (household_of our_family with_both)
    \<and> \<not> (\<exists>x. (x, baby) \<in> guards (household_of our_family s2))"
proof -
  have "guards (household_of our_family with_both) \<inter> UNIV \<times> {baby} = {(mother, baby), (father, baby)}"
    by (auto simp: household_of_def with_both_members with_both_rows)
  from both_guardians_ended [OF our_home_db(5) this] show ?thesis by (simp del: people_gua) blast
qed

section \<open>A removed child still counts\<close>

text \<open>
  A child that was removed from the family keeps its guardianships, so its only guardian still
  answers \<open>LastGuardian\<close>: the guardian cannot be removed any more.
\<close>

theorem removed_child_binds_guardian:
  assumes "fam_reachable hash s" "sole_guardian fam s g c"
    and "tbl_find m_id g (family_members fam s) = Some m" "m_role m \<noteq> Owner"
    and "remove_member fam c cid now s = (Inr (Inr ()), s')"
  shows "sole_guardian fam s' g c \<and> fst (remove_member fam g cid' now' s') = Inr (Inl LastGuardian)"
proof -
  have db: "family_db s" using reachable_ok [OF assms(1)] by (simp add: households_ok_def)
  let ?h = "household_of fam s"
  have gc: "(g, c) \<in> guards ?h" "\<not> covered_without ?h g c" using assms(2) by (simp_all add: sole_guardian_iff)
  have "fam \<in> f_id ` set (fam_rows s)"
    using found_member(2,3) [OF db assms(3)] family_dbD(5) [OF db] by (auto simp: refs_ok_def)
  then have ok: "guards_ok ?h" using reachable_family [OF assms(1)] by (simp add: hh_inv_def)
  obtain p q where p: "people ?h g = Some p" "p_alive p" "eligible p" and q: "people ?h c = Some q" "p_kind q = ChildKind"
    using ok gc(1) unfolding guards_ok_def by blast
  then have ne: "g \<noteq> c" by auto
  from db assms(5) show ?thesis
  proof (cases rule: remove_member_cases)
    case (removed m')
    have g': "guards (household_of fam s') = {x \<in> guards ?h. fst x \<noteq> c}" unfolding removed(8) by (simp add: hh_simps)
    have no: "(c, x) \<notin> guards ?h" for x
      using ok q unfolding guards_ok_def by (metis eligible_child option.inject)
    then have same: "guards (household_of fam s') = guards ?h" unfolding g' by auto
    have sole: "sole_guardian fam s' g c" using gc by (simp add: sole_guardian_iff same covered_without_def)
    have "people (household_of fam s') g = Some (person_of m)"
      unfolding removed(8) using ne found_member(4) [OF db assms(3)] by (simp add: hh_simps)
    then obtain r where r: "r \<in> set (mem_rows s')" "m_id r = g" "m_family r = fam" "person_of r = person_of m"
      using people_iff [OF family_dbD(1) [OF removed(6)]] by blast
    then have "tbl_find m_id g (family_members fam s') = Some r"
      using family_dbD(1) [OF removed(6)]
      by (subst tbl_find_iff) (auto simp: family_members_def member_table.sound_def distinct_map_filter)
    moreover have "person_of m = p" using found_member(4) [OF db assms(3)] p(1) by simp
    with r(4) p(2) have "is_active r" by (metis person_sel(4))
    moreover have "m_role r \<noteq> Owner" using r(4) assms(4) by (metis person_sel(2))
    ultimately have "fst (remove_member fam g cid' now' s') = Inr (Inl LastGuardian)"
      using remove_member_run [OF removed(6)] sole by (auto simp: replaceable_iff)
    with sole show ?thesis ..
  qed simp
qed

text \<open>The mother's guardianship ended, the father guards the baby alone.\<close>

definition father_alone :: family_store where
  "father_alone = snd (run_family id (EndGuardianship our_family baby mother 5000) with_both)"

lemma father_alone_rows:
  "mem_rows father_alone = mem_rows with_both"
  "gua_rows father_alone =
    [\<lparr>g_id = baby_guard, g_family = our_family, g_guardian = mother, g_child = baby, g_established = 0, g_ended = Some 5000\<rparr>,
     \<lparr>g_id = GuardianshipId ''g2'', g_family = our_family, g_guardian = father, g_child = baby, g_established = 0,
      g_ended = None\<rparr>]"
  by code_simp+

lemma removed_child_binds_guardian_witness:
  "\<exists>s'. remove_member our_family baby ''c8'' 6000 father_alone = (Inr (Inr ()), s')
    \<and> fst (remove_member our_family father ''c9'' 7000 s') = Inr (Inl LastGuardian)"
proof -
  have r: "fam_reachable id father_alone" unfolding father_alone_def
    by (rule fam_command [OF our_home_reachable(5)]) simp
  have members: "family_members our_family father_alone = mem_rows with_both"
    "active_guardianships our_family father_alone =
      [\<lparr>g_id = GuardianshipId ''g2'', g_family = our_family, g_guardian = father, g_child = baby, g_established = 0,
        g_ended = None\<rparr>]"
    by (simp_all add: family_members_def active_guardianships_def father_alone_rows with_both_rows)
  have sole: "sole_guardian our_family father_alone father baby" by (simp add: sole_guardian_def members)
  obtain m where m: "tbl_find m_id father (family_members our_family father_alone) = Some m" "m_role m \<noteq> Owner"
    by (simp add: members with_both_rows tbl_find_def)
  obtain b where b: "tbl_find m_id baby (family_members our_family father_alone) = Some b" "is_active b" "m_role b \<noteq> Owner"
    by (simp add: members with_both_rows tbl_find_def is_active_def)
  have db: "family_db father_alone" using reachable_ok [OF r] by (simp add: households_ok_def)
  have "replaceable (household_of our_family father_alone) baby"
    by (auto simp: replaceable_def household_of_def members)
  then obtain s' where "remove_member our_family baby ''c8'' 6000 father_alone = (Inr (Inr ()), s')"
    using remove_member_run [OF db b, of "''c8''" 6000] by (metis prod.collapse)
  then show ?thesis
    using removed_child_binds_guardian [OF r sole m, of "''c8''" 6000 s' "''c9''" 7000] by blast
qed

section \<open>An invitation revoked while it is accepted\<close>

text \<open>
  The acceptance writes the invitation it read before its transaction. The invitation revoked in
  between is accepted all the same: the revocation is overwritten.
\<close>

lemma revoked_then_accepted:
  "fst (revoke_invitation our_family (InvitationId ''i1'') 2500 with_invitation) = Inr (Inr ())
   \<and> (let revoked = snd (revoke_invitation our_family (InvitationId ''i1'') 2500 with_invitation);
          (r, s) = accept_scoped (hd (inv_rows with_invitation)) (UserId ''u2'') (email_from ''bob@x.org'') father ''c3'' 3000 revoked
      in r = Inr (Inr (our_family, father)) \<and> map i_status (inv_rows revoked) = [Revoked] \<and> map i_status (inv_rows s) = [Accepted])"
  by code_simp

end
