(* ===== verification/Platform.thy ===== *)
theory Platform
  imports Family_Race Task_Lists
begin

text \<open>
  The two contexts together: the visibility port of the Tasks context is the one the Family context
  publishes, so who may see a task follows from the guardianships.
\<close>

definition family_port :: "family_store \<Rightarrow> visibility_port" where
  "family_port fs viewer fam =
     (let (visible, guarded) = resolve_visible_member_ids fs viewer fam
      in \<lparr>visible_ids = visible, guarded_ids = guarded\<rparr>)"

definition guarded_child :: "family_store \<Rightarrow> family_id \<Rightarrow> member_id \<Rightarrow> member_id \<Rightarrow> bool" where
  "guarded_child fs fam viewer c \<longleftrightarrow>
     (\<exists>g \<in> set (active_guardianships fam fs). g_guardian g = viewer \<and> g_child g = c)"

definition child_of :: "family_store \<Rightarrow> family_id \<Rightarrow> member_id \<Rightarrow> bool" where
  "child_of fs fam c \<longleftrightarrow> (\<exists>m \<in> set (family_members fam fs). m_id m = c \<and> m_kind m = ChildKind)"

lemma guarded_by_iff: "c \<in> set (guarded_by fam viewer fs) \<longleftrightarrow> guarded_child fs fam viewer c"
  by (auto simp: guarded_by_def guarded_child_def)

lemma member_row_unique:
  "family_db fs \<Longrightarrow> a \<in> set (family_members fam fs) \<Longrightarrow> b \<in> set (family_members fam fs) \<Longrightarrow> m_id a = m_id b \<Longrightarrow> a = b"
  using member_table.sound_key [OF family_dbD(1)] by (auto simp: family_members_def)

lemma port_visible:
  assumes "family_db fs"
  shows "c \<in> set (visible_ids (family_port fs viewer fam)) \<longleftrightarrow>
      c \<in> m_id ` set (family_members fam fs) \<and> (child_of fs fam c \<longrightarrow> guarded_child fs fam viewer c)"
    "c \<in> set (guarded_ids (family_port fs viewer fam)) \<longleftrightarrow> child_of fs fam c \<and> guarded_child fs fam viewer c"
proof -
  have k: "m_kind m = ChildKind \<longleftrightarrow> child_of fs fam (m_id m)" if "m \<in> set (family_members fam fs)" for m
    using member_row_unique [OF assms that] that unfolding child_of_def by metis
  have a: "m_kind m = AdultKind \<longleftrightarrow> m_kind m \<noteq> ChildKind" for m by (cases "m_kind m") simp_all
  show "c \<in> set (visible_ids (family_port fs viewer fam)) \<longleftrightarrow>
      c \<in> m_id ` set (family_members fam fs) \<and> (child_of fs fam c \<longrightarrow> guarded_child fs fam viewer c)"
    by (auto simp: family_port_def resolve_visible_member_ids_def Let_def guarded_by_iff a k image_iff)
  show "c \<in> set (guarded_ids (family_port fs viewer fam)) \<longleftrightarrow> child_of fs fam c \<and> guarded_child fs fam viewer c"
    by (auto simp: family_port_def resolve_visible_member_ids_def Let_def guarded_by_iff child_of_def image_iff)
qed

text \<open>
  C25: Over the two contexts' tables, where the assignees of a task are members of its family: a
  member reads a task exactly when it guards each child assigned to it, now; the answer then
  leaves one \<open>Granted\<close> entry per assigned child, and a refusal leaves one \<open>Denied\<close> entry per child
  the reader does not guard and answers like a missing task.
\<close>

theorem child_tasks_need_guardian:
  assumes "task_db I s" "family_db fs" "stored I s t" "t_family t = rd_family rd"
    and "set (t_assignees t) \<subseteq> m_id ` set (family_members (rd_family rd) fs)"
  shows "get_task (family_port fs) rd (t_id t) s =
    (let children = filter (child_of fs (rd_family rd)) (t_assignees t);
         strange = filter (\<lambda>c. \<not> guarded_child fs (rd_family rd) (rd_member rd) c) children in
     if strange = [] then
       (Inr (Inr t), s\<lparr>db_audit := db_audit s @ map (assignment_audit rd (t_id t) ''task detail'' Granted) children\<rparr>)
     else
       (Inr (Inl NotFound), s\<lparr>db_audit := db_audit s @ map (assignment_audit rd (t_id t) ''task detail'' Denied) strange\<rparr>))"
proof -
  let ?fam = "rd_family rd" and ?v = "resolve_visibility (family_port fs) rd"
  let ?children = "filter (child_of fs ?fam) (t_assignees t)"
  let ?strange = "filter (\<lambda>c. \<not> guarded_child fs ?fam (rd_member rd) c) ?children"
  note pv = port_visible [OF assms(2), where viewer = "rd_member rd" and fam = ?fam, folded resolve_visibility_def]
  have hidden: "hidden_assignees (t_assignees t) ?v = ?strange"
    unfolding hidden_assignees_def filter_filter using assms(5) pv(1)
    by (intro filter_cong) auto
  have granted: "guarded_child_assignees (t_assignees t) ?v = ?children" if "?strange = []"
    unfolding guarded_child_assignees_def using pv(2) that
    by (intro filter_cong) (auto simp: filter_empty_conv)
  obtain u where u: "find_by_id ?fam (t_id t) s = (Inr (Some u), s)" "stored I s u" "t_id u = t_id t" "t_family u = ?fam"
    using assms(1)
    by (cases rule: lock_cases [where fam = ?fam and i = "t_id t"])
      (use assms(3,4) in \<open>auto simp: stored_def row_stored_def\<close>)
  have "u = t" using stored_unique [OF assms(3) u(2)] u(3,4) assms(4) by simp
  with u(1) show ?thesis
    using hidden granted
    by (simp add: get_task_def Let_def in_transaction_def tx_bind_def audit_children)
qed

text \<open>The chore's assignee is the mother of another family: both contexts over the ids of \<open>home\<close>.\<close>

definition chore_family :: family_store where
  "chore_family =
     no_families\<lparr>fam_rows := [\<lparr>f_id = fam_f, f_name = ''Home'', f_profile = empty_profile, f_created = 0, f_updated = 0,
         f_deletion = None\<rparr>],
       mem_rows := [\<lparr>m_id = mum, m_family = fam_f, m_kind = AdultKind, m_role = Owner, m_user = Some (UserId ''u1''),
         m_name = Some ''Ada'', m_born = None, m_created = 0, m_updated = 0, m_removed = None\<rparr>]\<rparr>"

lemma child_tasks_need_guardian_witness:
  "get_task (family_port chore_family) mum_reads (TaskId ''t1'') home = (Inr (Inr chore), home)"
proof -
  have db: "family_db chore_family"
    by (simp add: family_db_def chore_family_def no_families_def family_table.sound_def member_table.sound_def
        guardianship_table.sound_def invitation_table.sound_def refs_ok_def member_shape_def)
  have rd: "rd_family mum_reads = fam_f" "rd_member mum_reads = mum" by (simp_all add: mum_reads_def)
  have m: "family_members fam_f chore_family = mem_rows chore_family"
    by (simp add: family_members_def chore_family_def)
  have c: "\<not> child_of chore_family fam_f mum" by (simp add: child_of_def m) (simp add: chore_family_def)
  have a: "set (t_assignees chore) \<subseteq> m_id ` set (family_members (rd_family mum_reads) chore_family)"
    by (simp add: rd m) (simp add: chore_fields_home chore_family_def)
  have f: "t_family chore = rd_family mum_reads" by (simp add: rd chore_fields_home)
  show ?thesis
    using child_tasks_need_guardian [OF home_db db chore_stored f a] c
    by (simp add: rd chore_fields_home)
qed

end
