(* ===== verification/Calendar_Domain.thy ===== *)
theory Calendar_Domain
  imports Expand_Facts
begin

text \<open>
  The Calendar domain, \<open>packages/core/src/calendar/domain\<close>: the event aggregate
  (\<open>calendar-event.aggregate.ts\<close>), the occurrences an event should have and their
  reconciliation with the rows it has (\<open>materialisation.ts\<close>), and the outbox events
  (\<open>events.ts\<close>).

  A \<open>Date\<close> of JavaScript is \<open>None\<close> when it is invalid; an event that was accepted has
  instants. A method of the aggregate takes the event and returns its result with the event
  as it is afterwards. The runtime's zone data is the parameter \<open>I\<close>.
\<close>

section \<open>The event\<close>

datatype event_category =
    CatMedical | CatSchool | CatNursery | CatActivity | CatBirthday | CatHoliday | CatDeadline
  | CatSocial | CatHousehold | CatOther

datatype event_status = EventConfirmed | EventCancelled

datatype 'a event_timing =
    Timed 'a 'a
  | AllDay local_date local_date

datatype event_kind = TimedKind | AllDayKind

definition kind_of :: "'a event_timing \<Rightarrow> event_kind" where
  "kind_of t = (case t of Timed _ _ \<Rightarrow> TimedKind | AllDay _ _ \<Rightarrow> AllDayKind)"

text \<open>\<open>None\<close> is a field the patch does not have; a \<open>Date\<close> it has may be invalid.\<close>

record timing_patch =
  tp_kind :: "event_kind option"
  tp_starts :: "int option option"
  tp_ends :: "int option option"
  tp_start_date :: "local_date option"
  tp_end_date :: "local_date option"

record event_patch =
  ep_title :: "string option"
  ep_description :: "string option option"
  ep_location :: "string option option"
  ep_category :: "event_category option option"
  ep_refs :: "string list option"
  ep_zone :: "string option"
  ep_timing :: "timing_patch option"
  ep_rule :: "string option option"
  ep_participants :: "member_id list option"

datatype changed_fields = DetailsChanged | TimingChanged | RecurrenceChanged | ParticipantsChanged

definition changed_fields_text :: "changed_fields \<Rightarrow> string" where
  "changed_fields_text c =
     (case c of DetailsChanged \<Rightarrow> ''details'' | TimingChanged \<Rightarrow> ''timing''
      | RecurrenceChanged \<Rightarrow> ''recurrence'' | ParticipantsChanged \<Rightarrow> ''participants'')"

record update_outcome =
  uo_changed :: "changed_fields list"
  uo_reschedule :: bool

record calendar_event =
  ce_id :: event_id
  ce_family :: family_id
  ce_title :: string
  ce_description :: "string option"
  ce_location :: "string option"
  ce_category :: "event_category option"
  ce_timing :: "int event_timing"
  ce_zone :: string
  ce_rule :: "rrule option"
  ce_refs :: "string list"
  ce_status :: event_status
  ce_participants :: "member_id list"
  ce_through :: "int option"
  ce_created_by :: "member_id option"
  ce_created_at :: int
  ce_updated_at :: int

definition validate_timing :: "int option event_timing \<Rightarrow> int event_timing outcome" where
  "validate_timing t =
     (case t of
        Timed a b \<Rightarrow>
          (case (a, b) of
             (Some x, Some y) \<Rightarrow>
               if y < x
               then Inl (InvalidTimeRange ''The event ends before it starts: endsAt must be at or after startsAt.'')
               else Inr (Timed x y)
           | _ \<Rightarrow> Inl (InvalidTimeRange ''startsAt and endsAt must be real instants.''))
      | AllDay a b \<Rightarrow>
          if compare_local_dates b a < 0
          then Inl (InvalidTimeRange ''The event ends before it starts: endDate must be on or after startDate.'')
          else Inr (AllDay a b))"

definition validate_time_zone :: "intl \<Rightarrow> string \<Rightarrow> string outcome" where
  "validate_time_zone I tz = (if is_valid_time_zone I tz then Inr tz else Inl (UnknownTimeZone tz))"

definition parse_event_rule :: "string option \<Rightarrow> rrule option outcome" where
  "parse_event_rule text =
     (case text of None \<Rightarrow> Inr None | Some s \<Rightarrow> map_result (rule_parse s) Some)"

definition normalise_optional_text :: "string option \<Rightarrow> string option" where
  "normalise_optional_text v =
     (case v of None \<Rightarrow> None | Some s \<Rightarrow> (let t = trim s in if t = [] then None else Some t))"

text \<open>\<open>a ?? b\<close>: the given value, else the current one.\<close>

definition or_current :: "'a option \<Rightarrow> 'a option \<Rightarrow> 'a option" where
  "or_current a b = (case a of None \<Rightarrow> b | Some x \<Rightarrow> Some x)"

definition current_instants :: "int event_timing \<Rightarrow> (int option \<times> int option) option" where
  "current_instants t = (case t of Timed a b \<Rightarrow> Some (Some a, Some b) | AllDay _ _ \<Rightarrow> None)"

definition current_dates :: "int event_timing \<Rightarrow> (local_date \<times> local_date) option" where
  "current_dates t = (case t of AllDay a b \<Rightarrow> Some (a, b) | Timed _ _ \<Rightarrow> None)"

definition merge_timing :: "int event_timing \<Rightarrow> timing_patch \<Rightarrow> int option event_timing outcome" where
  "merge_timing cur p =
     (let kind = (case tp_kind p of None \<Rightarrow> kind_of cur | Some k \<Rightarrow> k) in
      if kind = TimedKind then
        (if tp_start_date p \<noteq> None \<or> tp_end_date p \<noteq> None
         then Inl (InvalidTimeRange ''A timed event has startsAt and endsAt, not startDate and endDate.'')
         else
           (case (or_current (tp_starts p) (map_option fst (current_instants cur)),
                  or_current (tp_ends p) (map_option snd (current_instants cur))) of
              (Some a, Some b) \<Rightarrow> Inr (Timed a b)
            | _ \<Rightarrow> Inl (InvalidTimeRange
                ''Changing an all-day event to a timed one needs both startsAt and endsAt.'')))
      else if tp_starts p \<noteq> None \<or> tp_ends p \<noteq> None
      then Inl (InvalidTimeRange ''An all-day event has startDate and endDate, not startsAt and endsAt.'')
      else
        (case (or_current (tp_start_date p) (map_option fst (current_dates cur)),
               or_current (tp_end_date p) (map_option snd (current_dates cur))) of
           (Some a, Some b) \<Rightarrow> Inr (AllDay a b)
         | _ \<Rightarrow> Inl (InvalidTimeRange
             ''Changing a timed event to an all-day one needs both startDate and endDate.'')))"

definition same_timing :: "int event_timing \<Rightarrow> int event_timing \<Rightarrow> bool" where
  "same_timing s t =
     (case (s, t) of
        (Timed a b, Timed c d) \<Rightarrow> a = c \<and> b = d
      | (AllDay a b, AllDay c d) \<Rightarrow> compare_local_dates a c = 0 \<and> compare_local_dates b d = 0
      | _ \<Rightarrow> False)"

definition same_members :: "member_id list \<Rightarrow> member_id list \<Rightarrow> bool" where
  "same_members a b \<longleftrightarrow> length a = length b \<and> list_all (\<lambda>m. m \<in> set a) b"

subsection \<open>Creating one\<close>

record event_params =
  ec_id :: event_id
  ec_family :: family_id
  ec_title :: string
  ec_description :: "string option"
  ec_location :: "string option"
  ec_category :: "event_category option"
  ec_timing :: "int option event_timing"
  ec_zone :: string
  ec_rule :: "string option"
  ec_refs :: "string list"
  ec_participants :: "member_id list"
  ec_created_by :: "member_id option"

definition event_create :: "intl \<Rightarrow> event_params \<Rightarrow> int \<Rightarrow> calendar_event outcome" where
  "event_create I c now =
     (let title = trim (ec_title c) in
      if title = [] then Inl (NameRequired ''An event needs a title.'')
      else
        and_then (validate_timing (ec_timing c)) (\<lambda>timing.
        and_then (validate_time_zone I (ec_zone c)) (\<lambda>zone.
        and_then (parse_event_rule (ec_rule c)) (\<lambda>rule.
          Inr \<lparr>ce_id = ec_id c, ce_family = ec_family c, ce_title = title,
            ce_description = normalise_optional_text (ec_description c),
            ce_location = normalise_optional_text (ec_location c), ce_category = ec_category c,
            ce_timing = timing, ce_zone = zone, ce_rule = rule, ce_refs = ec_refs c,
            ce_status = EventConfirmed, ce_participants = unique (ec_participants c),
            ce_through = None, ce_created_by = ec_created_by c, ce_created_at = now,
            ce_updated_at = now\<rparr>))))"

subsection \<open>Changing one\<close>

text \<open>
  One step per field of the patch, on the event so far and the groups changed so far; the
  title, timing, zone and rule can be refused.
\<close>

type_synonym event_edit = "calendar_event \<times> changed_fields list"

definition mark :: "bool \<Rightarrow> changed_fields \<Rightarrow> changed_fields list \<Rightarrow> changed_fields list" where
  "mark b g cs = (if b then add_elem g cs else cs)"

definition edit_event_title :: "event_patch \<Rightarrow> event_edit \<Rightarrow> event_edit outcome" where
  "edit_event_title p = (\<lambda>(e, cs).
     case ep_title p of
       None \<Rightarrow> Inr (e, cs)
     | Some raw \<Rightarrow>
         (let title = trim raw in
          if title = [] then Inl (NameRequired ''An event needs a title.'')
          else Inr (e\<lparr>ce_title := title\<rparr>, mark (title \<noteq> ce_title e) DetailsChanged cs)))"

definition edit_event_details :: "event_patch \<Rightarrow> event_edit \<Rightarrow> event_edit" where
  "edit_event_details p = (\<lambda>(e, cs).
     let (e, cs) = (case ep_description p of
           None \<Rightarrow> (e, cs)
         | Some v \<Rightarrow> (e\<lparr>ce_description := normalise_optional_text v\<rparr>,
             mark (normalise_optional_text v \<noteq> ce_description e) DetailsChanged cs));
         (e, cs) = (case ep_location p of
           None \<Rightarrow> (e, cs)
         | Some v \<Rightarrow> (e\<lparr>ce_location := normalise_optional_text v\<rparr>,
             mark (normalise_optional_text v \<noteq> ce_location e) DetailsChanged cs));
         (e, cs) = (case ep_category p of
           None \<Rightarrow> (e, cs)
         | Some v \<Rightarrow> (e\<lparr>ce_category := v\<rparr>, mark (v \<noteq> ce_category e) DetailsChanged cs))
     in (case ep_refs p of
           None \<Rightarrow> (e, cs)
         | Some refs \<Rightarrow> (e\<lparr>ce_refs := refs\<rparr>,
             mark (join_with CHR 0x00 refs \<noteq> join_with CHR 0x00 (ce_refs e)) DetailsChanged cs)))"

definition edit_timing :: "event_patch \<Rightarrow> event_edit \<Rightarrow> event_edit outcome" where
  "edit_timing p = (\<lambda>(e, cs).
     case ep_timing p of
       None \<Rightarrow> Inr (e, cs)
     | Some tp \<Rightarrow>
         and_then (merge_timing (ce_timing e) tp) (\<lambda>merged.
         and_then (validate_timing merged) (\<lambda>timing.
           Inr (e\<lparr>ce_timing := timing\<rparr>, mark (\<not> same_timing timing (ce_timing e)) TimingChanged cs))))"

definition edit_zone :: "intl \<Rightarrow> event_patch \<Rightarrow> event_edit \<Rightarrow> event_edit outcome" where
  "edit_zone I p = (\<lambda>(e, cs).
     case ep_zone p of
       None \<Rightarrow> Inr (e, cs)
     | Some tz \<Rightarrow>
         and_then (validate_time_zone I tz) (\<lambda>zone.
           Inr (e\<lparr>ce_zone := zone\<rparr>, mark (zone \<noteq> ce_zone e) TimingChanged cs)))"

definition edit_event_rule :: "event_patch \<Rightarrow> event_edit \<Rightarrow> event_edit outcome" where
  "edit_event_rule p = (\<lambda>(e, cs).
     case ep_rule p of
       None \<Rightarrow> Inr (e, cs)
     | Some text \<Rightarrow>
         and_then (parse_event_rule text) (\<lambda>rule.
           Inr (e\<lparr>ce_rule := rule\<rparr>,
             mark (map_option rule_to_string (ce_rule e) \<noteq> map_option rule_to_string rule)
               RecurrenceChanged cs)))"

definition edit_participants :: "event_patch \<Rightarrow> event_edit \<Rightarrow> event_edit" where
  "edit_participants p = (\<lambda>(e, cs).
     case ep_participants p of
       None \<Rightarrow> (e, cs)
     | Some ms \<Rightarrow> (e\<lparr>ce_participants := unique ms\<rparr>,
         mark (\<not> same_members (unique ms) (ce_participants e)) ParticipantsChanged cs))"

definition event_edits :: "intl \<Rightarrow> event_patch \<Rightarrow> calendar_event \<Rightarrow> event_edit outcome" where
  "event_edits I p e =
     and_then (edit_event_title p (e, [])) (\<lambda>d1.
     and_then (edit_timing p (edit_event_details p d1)) (\<lambda>d2.
     and_then (edit_zone I p d2) (\<lambda>d3.
     and_then (edit_event_rule p d3) (\<lambda>d4. Inr (edit_participants p d4)))))"

definition event_update ::
  "intl \<Rightarrow> calendar_event \<Rightarrow> event_patch \<Rightarrow> int \<Rightarrow> update_outcome outcome \<times> calendar_event"
where
  "event_update I e p now =
     (case event_edits I p e of
        Inl err \<Rightarrow> (Inl err, e)
      | Inr (next_e, cs) \<Rightarrow>
          (Inr \<lparr>uo_changed = cs,
             uo_reschedule = (TimingChanged \<in> set cs \<or> RecurrenceChanged \<in> set cs)\<rparr>,
           if cs = [] then e else next_e\<lparr>ce_updated_at := now\<rparr>))"

definition event_cancel :: "calendar_event \<Rightarrow> int \<Rightarrow> bool \<times> calendar_event" where
  "event_cancel e now =
     (if ce_status e = EventCancelled then (False, e)
      else (True, e\<lparr>ce_status := EventCancelled, ce_updated_at := now\<rparr>))"

definition record_materialised_through :: "calendar_event \<Rightarrow> int option \<Rightarrow> calendar_event" where
  "record_materialised_through e through = e\<lparr>ce_through := through\<rparr>"

section \<open>Materialisation\<close>

record event_occurrence =
  eo_id :: occurrence_id
  eo_event :: event_id
  eo_starts :: int
  eo_ends :: int
  eo_cancelled :: "int option"

record planned_occurrence =
  po_starts :: int
  po_ends :: int

definition horizon_days :: int where "horizon_days = 400"
definition trailing_days :: int where "trailing_days = 400"

text \<open>The instants \<open>from\<close> and \<open>to\<close> of the window around \<open>now\<close>.\<close>

definition materialisation_window :: "int \<Rightarrow> int \<times> int" where
  "materialisation_window now =
     (now - trailing_days * ms_per_day, now + horizon_days * ms_per_day)"

record occurrence_plan =
  pl_planned :: "planned_occurrence list"
  pl_through :: "int option"
  pl_scope :: "int option"

definition one_off :: "intl \<Rightarrow> calendar_event \<Rightarrow> planned_occurrence" where
  "one_off I e =
     (case ce_timing e of
        Timed a b \<Rightarrow> \<lparr>po_starts = a, po_ends = b\<rparr>
      | AllDay a b \<Rightarrow> \<lparr>po_starts = start_of_day I a (ce_zone e),
          po_ends = start_of_day I (add_days b 1) (ce_zone e)\<rparr>)"

definition series_start :: "intl \<Rightarrow> calendar_event \<Rightarrow> local_date_time" where
  "series_start I e =
     (case ce_timing e of
        Timed a _ \<Rightarrow> instant_to_local I a (ce_zone e)
      | AllDay a _ \<Rightarrow> at_time a 0 0 0)"

definition series_input :: "intl \<Rightarrow> calendar_event \<Rightarrow> rrule \<Rightarrow> int \<times> int \<Rightarrow> expand_input" where
  "series_input I e rule window =
     \<lparr>in_rule = rule, in_dtstart = series_start I e, in_zone = ce_zone e,
      win_from = fst window, win_to = snd window, in_max = None\<rparr>"

definition planned_of :: "intl \<Rightarrow> calendar_event \<Rightarrow> expanded \<Rightarrow> planned_occurrence" where
  "planned_of I e x =
     (case ce_timing e of
        Timed a b \<Rightarrow> \<lparr>po_starts = ex_instant x, po_ends = ex_instant x + (b - a)\<rparr>
      | AllDay a b \<Rightarrow>
          \<lparr>po_starts = ex_instant x,
           po_ends = start_of_day I
             (add_days (date_of (ex_local x)) (to_epoch_day b - to_epoch_day a + 1)) (ce_zone e)\<rparr>)"

definition plan_occurrences :: "intl \<Rightarrow> calendar_event \<Rightarrow> int \<times> int \<Rightarrow> occurrence_plan outcome" where
  "plan_occurrences I e window =
     (case ce_rule e of
        None \<Rightarrow> Inr \<lparr>pl_planned = [one_off I e], pl_through = None, pl_scope = None\<rparr>
      | Some rule \<Rightarrow>
          and_then (expand I (series_input I e rule window)) (\<lambda>x.
            Inr \<lparr>pl_planned = map (planned_of I e) (occurrences x),
              pl_through = (if exhausted x then None else Some (snd window)),
              pl_scope = Some (fst window)\<rparr>))"

subsection \<open>Reconciling\<close>

record reconcile_plan =
  rp_insert :: "planned_occurrence list"
  rp_update :: "(occurrence_id \<times> int) list"
  rp_delete :: "occurrence_id list"

text \<open>
  The loop over the planned occurrences: \<open>rows\<close> are the existing rows by their start, \<open>seen\<close>
  the planned starts so far. It returns those starts, the inserts and the updates.
\<close>

fun reconcile_planned ::
  "(int \<times> event_occurrence) list \<Rightarrow> planned_occurrence list \<Rightarrow> int list
     \<Rightarrow> planned_occurrence list \<Rightarrow> (occurrence_id \<times> int) list
     \<Rightarrow> int list \<times> planned_occurrence list \<times> (occurrence_id \<times> int) list"
where
  "reconcile_planned rows [] seen ins upd = (seen, ins, upd)"
| "reconcile_planned rows (p # ps) seen ins upd =
     (if po_starts p \<in> set seen then reconcile_planned rows ps seen ins upd
      else
        (let seen' = po_starts p # seen in
         case tbl_find fst (po_starts p) rows of
           None \<Rightarrow> reconcile_planned rows ps seen' (ins @ [p]) upd
         | Some (_, row) \<Rightarrow>
             reconcile_planned rows ps seen' ins
               (if eo_ends row \<noteq> po_ends p then upd @ [(eo_id row, po_ends p)] else upd)))"

definition reconcile :: "planned_occurrence list \<Rightarrow> event_occurrence list \<Rightarrow> reconcile_plan" where
  "reconcile planned existing =
     (case reconcile_planned (map_entries (map (\<lambda>r. (eo_starts r, r)) existing)) planned [] [] [] of
        (starts, ins, upd) \<Rightarrow>
          \<lparr>rp_insert = ins, rp_update = upd,
           rp_delete = map eo_id (filter (\<lambda>r. eo_starts r \<notin> set starts) existing)\<rparr>)"

definition is_empty_plan :: "reconcile_plan \<Rightarrow> bool" where
  "is_empty_plan p \<longleftrightarrow> rp_insert p = [] \<and> rp_update p = [] \<and> rp_delete p = []"

section \<open>Outbox events\<close>

definition event_kind_text :: "event_kind \<Rightarrow> string" where
  "event_kind_text k = (case k of TimedKind \<Rightarrow> ''timed'' | AllDayKind \<Rightarrow> ''all_day'')"

definition calendar_outbox_event ::
  "string \<Rightarrow> event_id \<Rightarrow> (string \<times> json) list \<Rightarrow> string \<Rightarrow> outbox_event"
where
  "calendar_outbox_event type i body cid =
     \<lparr>event_type = type, aggregate_type = ''CalendarEvent'', aggregate_id = event_text i,
      payload = body, ev_correlation_id = cid\<rparr>"

definition event_created_event ::
  "family_id \<Rightarrow> event_id \<Rightarrow> event_kind \<Rightarrow> bool \<Rightarrow> string \<Rightarrow> outbox_event"
where
  "event_created_event fam i kind recurring cid =
     calendar_outbox_event ''calendar.EventCreated.v1'' i
       [(''familyId'', JString (family_text fam)), (''eventId'', JString (event_text i)),
        (''kind'', JString (event_kind_text kind)), (''recurring'', JBool recurring)] cid"

definition event_updated_event ::
  "family_id \<Rightarrow> event_id \<Rightarrow> changed_fields list \<Rightarrow> string \<Rightarrow> outbox_event"
where
  "event_updated_event fam i changed cid =
     calendar_outbox_event ''calendar.EventUpdated.v1'' i
       [(''familyId'', JString (family_text fam)), (''eventId'', JString (event_text i)),
        (''changed'', JArray (map (\<lambda>c. JString (changed_fields_text c)) changed))] cid"

definition event_cancelled_event ::
  "family_id \<Rightarrow> event_id \<Rightarrow> occurrence_id option \<Rightarrow> string \<Rightarrow> outbox_event"
where
  "event_cancelled_event fam i occ cid =
     calendar_outbox_event ''calendar.EventCancelled.v1'' i
       [(''familyId'', JString (family_text fam)), (''eventId'', JString (event_text i)),
        (''occurrenceId'', json_opt occurrence_text occ)] cid"

definition occurrence_materialised_event ::
  "family_id \<Rightarrow> event_id \<Rightarrow> int \<times> int \<Rightarrow> nat \<Rightarrow> string \<Rightarrow> outbox_event"
where
  "occurrence_materialised_event fam i window count cid =
     calendar_outbox_event ''calendar.OccurrenceMaterialised.v1'' i
       [(''familyId'', JString (family_text fam)), (''eventId'', JString (event_text i)),
        (''windowFrom'', JString (to_iso_string (fst window))),
        (''windowTo'', JString (to_iso_string (snd window))), (''count'', JNumber (int count))] cid"

end
