(* ===== verification/Calendar_Store.thy ===== *)
theory Calendar_Store
  imports Calendar_Domain Keyed_Table
begin

text \<open>
  The Calendar tables and the repositories over them,
  \<open>packages/persistence/src/repositories/calendar\<close>, with the constraints of the migration
  \<open>20260915090000_calendar\<close>: the CHECKs, the unique pair of an occurrence's event and
  start, the composite foreign keys, and row level security, which shows a transaction the rows
  of its family only.

  An occurrence's id is generated by the database client: \<open>cs_supply\<close> is its generator, from
  which \<open>cs_used\<close> ids were drawn. \<open>cs_now\<close> is \<open>CURRENT_TIMESTAMP\<close>.
\<close>

section \<open>Tables\<close>

record event_row =
  er_id :: event_id
  er_family :: family_id
  er_title :: string
  er_description :: "string option"
  er_location :: "string option"
  er_kind :: event_kind
  er_starts :: "int option"
  er_ends :: "int option"
  er_start_date :: "int option"
  er_end_date :: "int option"
  er_zone :: string
  er_category :: "event_category option"
  er_rule :: "string option"
  er_refs :: "string list"
  er_status :: event_status
  er_through :: "int option"
  er_created_by :: "member_id option"
  er_created_at :: int
  er_updated_at :: int

record occurrence_row =
  ow_id :: occurrence_id
  ow_family :: family_id
  ow_event :: event_id
  ow_starts :: int
  ow_ends :: int
  ow_cancelled :: "int option"

record participant_row =
  pa_event :: event_id
  pa_family :: family_id
  pa_member :: member_id
  pa_added :: int

record calendar_store =
  event_rows :: "event_row list"
  occurrence_rows :: "occurrence_row list"
  participant_rows :: "participant_row list"
  cs_families :: "family_id list"
  cs_members :: "(member_id \<times> family_id) list"
  cs_outbox :: "outbox_event list"
  cs_audit :: "audit_entry list"
  cs_supply :: "nat \<Rightarrow> occurrence_id"
  cs_used :: nat
  cs_now :: int

type_synonym 'a calendar_tx = "(calendar_store, 'a) tx"

subsection \<open>Constraints\<close>

definition event_shape :: "event_row \<Rightarrow> bool" where
  "event_shape r \<longleftrightarrow>
     (case er_kind r of
        TimedKind \<Rightarrow> er_starts r \<noteq> None \<and> er_ends r \<noteq> None \<and> er_start_date r = None \<and> er_end_date r = None
      | AllDayKind \<Rightarrow> er_start_date r \<noteq> None \<and> er_end_date r \<noteq> None \<and> er_starts r = None \<and> er_ends r = None)"

text \<open>A CHECK passes when its comparison is of a \<open>NULL\<close>; \<open>event_shape\<close> excludes that.\<close>

definition event_order :: "event_row \<Rightarrow> bool" where
  "event_order r \<longleftrightarrow>
     (case (er_kind r, er_starts r, er_ends r, er_start_date r, er_end_date r) of
        (TimedKind, Some a, Some b, _, _) \<Rightarrow> a \<le> b
      | (AllDayKind, _, _, Some a, Some b) \<Rightarrow> a \<le> b
      | _ \<Rightarrow> True)"

definition zone_present :: "event_row \<Rightarrow> bool" where
  "zone_present r \<longleftrightarrow> list_ex (\<lambda>c. c \<noteq> CHR '' '') (er_zone r)"

definition event_checks :: "event_row \<Rightarrow> bool" where
  "event_checks r \<longleftrightarrow> event_shape r \<and> event_order r \<and> zone_present r"

definition occurrence_order :: "occurrence_row \<Rightarrow> bool" where
  "occurrence_order r \<longleftrightarrow> ow_starts r \<le> ow_ends r"

definition occurrence_key :: "occurrence_row \<Rightarrow> event_id \<times> int" where
  "occurrence_key r = (ow_event r, ow_starts r)"

definition occurrence_clash :: "occurrence_row \<Rightarrow> occurrence_row \<Rightarrow> bool" where
  "occurrence_clash r x \<longleftrightarrow> ow_id x = ow_id r \<or> occurrence_key x = occurrence_key r"

definition participant_key :: "participant_row \<Rightarrow> event_id \<times> member_id" where
  "participant_key p = (pa_event p, pa_member p)"

definition event_refs :: "calendar_store \<Rightarrow> (event_id \<times> family_id) set" where
  "event_refs s = (\<lambda>r. (er_id r, er_family r)) ` set (event_rows s)"

section \<open>The event repository\<close>

definition local_date_to_db_date :: "local_date \<Rightarrow> int" where
  "local_date_to_db_date d = date_utc (year d) (month d) (day d) 0 0 0"

definition db_date_to_local_date :: "int \<Rightarrow> local_date" where
  "db_date_to_local_date v = ymd (utc_year v) (utc_month v) (utc_date v)"

definition to_timing :: "event_row \<Rightarrow> exn + int event_timing" where
  "to_timing r =
     (case er_kind r of
        TimedKind \<Rightarrow> (case (er_starts r, er_ends r) of
            (Some a, Some b) \<Rightarrow> Inr (Timed a b) | _ \<Rightarrow> Inl CorruptRow)
      | AllDayKind \<Rightarrow> (case (er_start_date r, er_end_date r) of
            (Some a, Some b) \<Rightarrow> Inr (AllDay (db_date_to_local_date a) (db_date_to_local_date b))
          | _ \<Rightarrow> Inl CorruptRow))"

definition stored_rule :: "event_row \<Rightarrow> exn + rrule option" where
  "stored_rule r =
     (case er_rule r of
        None \<Rightarrow> Inr None
      | Some s \<Rightarrow> (case rule_parse s of Inl _ \<Rightarrow> Inl CorruptRow | Inr x \<Rightarrow> Inr (Some x)))"

definition to_event :: "event_row \<Rightarrow> member_id list \<Rightarrow> exn + calendar_event" where
  "to_event r ms =
     (case stored_rule r of Inl e \<Rightarrow> Inl e | Inr rule \<Rightarrow>
     (case to_timing r of Inl e \<Rightarrow> Inl e | Inr timing \<Rightarrow>
        Inr \<lparr>ce_id = er_id r, ce_family = er_family r, ce_title = er_title r,
          ce_description = er_description r, ce_location = er_location r, ce_category = er_category r,
          ce_timing = timing, ce_zone = er_zone r, ce_rule = rule, ce_refs = er_refs r,
          ce_status = er_status r, ce_participants = ms, ce_through = er_through r,
          ce_created_by = er_created_by r, ce_created_at = er_created_at r,
          ce_updated_at = er_updated_at r\<rparr>))"

definition event_columns :: "calendar_event \<Rightarrow> event_row \<Rightarrow> event_row" where
  "event_columns e r =
     r\<lparr>er_title := ce_title e, er_description := ce_description e, er_location := ce_location e,
       er_category := ce_category e, er_kind := kind_of (ce_timing e),
       er_starts := (case ce_timing e of Timed a _ \<Rightarrow> Some a | AllDay _ _ \<Rightarrow> None),
       er_ends := (case ce_timing e of Timed _ b \<Rightarrow> Some b | AllDay _ _ \<Rightarrow> None),
       er_start_date := (case ce_timing e of Timed _ _ \<Rightarrow> None | AllDay a _ \<Rightarrow> Some (local_date_to_db_date a)),
       er_end_date := (case ce_timing e of Timed _ _ \<Rightarrow> None | AllDay _ b \<Rightarrow> Some (local_date_to_db_date b)),
       er_zone := ce_zone e, er_rule := map_option rule_to_string (ce_rule e), er_refs := ce_refs e,
       er_status := ce_status e, er_through := ce_through e, er_updated_at := ce_updated_at e\<rparr>"

definition new_event_row :: "family_id \<Rightarrow> calendar_event \<Rightarrow> event_row" where
  "new_event_row fam e =
     event_columns e
       \<lparr>er_id = ce_id e, er_family = fam, er_title = [], er_description = None, er_location = None,
        er_kind = TimedKind, er_starts = None, er_ends = None, er_start_date = None,
        er_end_date = None, er_zone = [], er_category = None, er_rule = None, er_refs = [],
        er_status = EventConfirmed, er_through = None, er_created_by = ce_created_by e,
        er_created_at = ce_created_at e, er_updated_at = 0\<rparr>"

definition save_event :: "family_id \<Rightarrow> calendar_event \<Rightarrow> unit calendar_tx" where
  "save_event fam e s =
     (case upsert er_id (\<lambda>r. er_family r = fam) event_checks (\<lambda>_ _. False)
         (\<lambda>r. er_family r \<in> set (cs_families s)) (new_event_row fam e) (event_columns e) (event_rows s) of
        Inl x \<Rightarrow> (Inl x, s)
      | Inr rows \<Rightarrow> (Inr (), s\<lparr>event_rows := rows\<rparr>))"

text \<open>The participants of an event, \<open>ORDER BY added_at, member_id\<close>.\<close>

definition participants_of :: "family_id \<Rightarrow> event_id \<Rightarrow> calendar_store \<Rightarrow> participant_row list" where
  "participants_of fam i s =
     sort_key pa_added (sort_key (\<lambda>p. member_text (pa_member p))
       (filter (\<lambda>p. pa_event p = i \<and> pa_family p = fam) (participant_rows s)))"

definition scoped_event :: "family_id \<Rightarrow> event_id \<Rightarrow> calendar_store \<Rightarrow> event_row option" where
  "scoped_event fam i s = tbl_find er_id i (filter (\<lambda>r. er_family r = fam) (event_rows s))"

definition find_event :: "family_id \<Rightarrow> event_id \<Rightarrow> calendar_event option calendar_tx" where
  "find_event fam i s =
     (case scoped_event fam i s of
        None \<Rightarrow> (Inr None, s)
      | Some r \<Rightarrow>
          (case to_event r (map pa_member (participants_of fam i s)) of
             Inl x \<Rightarrow> (Inl x, s) | Inr e \<Rightarrow> (Inr (Some e), s)))"

definition lock_event :: "family_id \<Rightarrow> event_id \<Rightarrow> calendar_event option calendar_tx" where
  "lock_event fam i =
     tx_bind (tx_get (scoped_event fam i)) (\<lambda>locked.
       if locked = None then tx_return None else find_event fam i)"

section \<open>The participant repository\<close>

text \<open>A foreign key that does not hold is \<open>P2003\<close>, which the repository turns into its own error.\<close>

definition replace_participants :: "family_id \<Rightarrow> event_id \<Rightarrow> member_id list \<Rightarrow> unit calendar_tx" where
  "replace_participants fam i ms s =
     (let kept = tbl_delete (\<lambda>p. pa_event p = i \<and> pa_family p = fam \<and> pa_member p \<notin> set ms) (participant_rows s);
          rows = add_skipping (\<lambda>a b. participant_key a = participant_key b)
            (map (\<lambda>m. \<lparr>pa_event = i, pa_family = fam, pa_member = m, pa_added = cs_now s\<rparr>) ms) kept in
      if ms = [] then (Inr (), s\<lparr>participant_rows := kept\<rparr>)
      else if list_all (\<lambda>p. (pa_event p, pa_family p) \<in> event_refs s \<and> (pa_member p, pa_family p) \<in> set (cs_members s))
          (drop (length kept) rows)
      then (Inr (), s\<lparr>participant_rows := rows\<rparr>)
      else (Inl ParticipantNotInFamily, s\<lparr>participant_rows := kept\<rparr>))"

record event_participant =
  pt_member :: member_id
  pt_added :: int

definition list_participants :: "family_id \<Rightarrow> event_id \<Rightarrow> event_participant list calendar_tx" where
  "list_participants fam i = tx_get (\<lambda>s.
     map (\<lambda>p. \<lparr>pt_member = pa_member p, pt_added = pa_added p\<rparr>) (participants_of fam i s))"

section \<open>The occurrence repository\<close>

definition to_occurrence :: "occurrence_row \<Rightarrow> event_occurrence" where
  "to_occurrence r =
     \<lparr>eo_id = ow_id r, eo_event = ow_event r, eo_starts = ow_starts r, eo_ends = ow_ends r,
      eo_cancelled = ow_cancelled r\<rparr>"

definition family_occurrences :: "family_id \<Rightarrow> calendar_store \<Rightarrow> occurrence_row list" where
  "family_occurrences fam s = filter (\<lambda>r. ow_family r = fam) (occurrence_rows s)"

definition list_for_event ::
  "family_id \<Rightarrow> event_id \<Rightarrow> int option \<Rightarrow> event_occurrence list calendar_tx"
where
  "list_for_event fam i starting_from = tx_get (\<lambda>s.
     map to_occurrence (sort_key ow_starts (filter (\<lambda>r. ow_event r = i
       \<and> (case starting_from of None \<Rightarrow> True | Some from \<Rightarrow> from \<le> ow_starts r)) (family_occurrences fam s))))"

definition find_occurrence :: "family_id \<Rightarrow> occurrence_id \<Rightarrow> event_occurrence option calendar_tx" where
  "find_occurrence fam i = tx_get (\<lambda>s.
     map_option to_occurrence (tbl_find ow_id i (family_occurrences fam s)))"

record reconcile_counts =
  rc_inserted :: nat
  rc_updated :: nat
  rc_deleted :: nat

text \<open>\<open>DELETE ... WHERE p\<close> in the family; the number of rows deleted.\<close>

definition delete_occurrences :: "family_id \<Rightarrow> (occurrence_row \<Rightarrow> bool) \<Rightarrow> nat calendar_tx" where
  "delete_occurrences fam p s =
     (let gone = (\<lambda>r. ow_family r = fam \<and> p r) in
      (Inr (length (filter gone (occurrence_rows s))),
       s\<lparr>occurrence_rows := tbl_delete gone (occurrence_rows s)\<rparr>))"

definition update_occurrence_end :: "family_id \<Rightarrow> event_id \<Rightarrow> occurrence_id \<times> int \<Rightarrow> unit calendar_tx" where
  "update_occurrence_end fam i = (\<lambda>(occ, ends) s.
     let hit = (\<lambda>r. ow_family r = fam \<and> ow_event r = i \<and> ow_id r = occ);
         rows = tbl_update hit (\<lambda>r. r\<lparr>ow_ends := ends\<rparr>) (occurrence_rows s) in
     if list_all occurrence_order rows then (Inr (), s\<lparr>occurrence_rows := rows\<rparr>)
     else (Inl CheckViolation, s))"

text \<open>The rows of a \<open>createMany\<close>, with the ids the client draws for them.\<close>

definition new_occurrences :: "family_id \<Rightarrow> event_id \<Rightarrow> planned_occurrence list \<Rightarrow> calendar_store \<Rightarrow> occurrence_row list" where
  "new_occurrences fam i ps s =
     map (\<lambda>(k, p). \<lparr>ow_id = cs_supply s (cs_used s + k), ow_family = fam, ow_event = i,
         ow_starts = po_starts p, ow_ends = po_ends p, ow_cancelled = None\<rparr>)
       (zip [0..<length ps] ps)"

definition insert_occurrences :: "family_id \<Rightarrow> event_id \<Rightarrow> planned_occurrence list \<Rightarrow> nat calendar_tx" where
  "insert_occurrences fam i ps s =
     (let new = new_occurrences fam i ps s;
          rows = add_skipping occurrence_clash new (occurrence_rows s);
          added = drop (length (occurrence_rows s)) rows in
      if \<not> list_all occurrence_order new then (Inl CheckViolation, s)
      else if added \<noteq> [] \<and> (i, fam) \<notin> event_refs s then (Inl ForeignKeyViolation, s)
      else (Inr (length added), s\<lparr>occurrence_rows := rows, cs_used := cs_used s + length ps\<rparr>))"

definition apply_plan :: "family_id \<Rightarrow> event_id \<Rightarrow> reconcile_plan \<Rightarrow> reconcile_counts calendar_tx" where
  "apply_plan fam i plan =
     tx_bind (if rp_delete plan = [] then tx_return 0
       else delete_occurrences fam (\<lambda>r. ow_event r = i \<and> ow_id r \<in> set (rp_delete plan))) (\<lambda>deleted.
     tx_bind (tx_each (update_occurrence_end fam i) (rp_update plan)) (\<lambda>_.
     tx_bind (if rp_insert plan = [] then tx_return 0
       else insert_occurrences fam i (rp_insert plan)) (\<lambda>inserted.
     tx_return \<lparr>rc_inserted = inserted, rc_updated = length (rp_update plan), rc_deleted = deleted\<rparr>)))"

definition cancel_occurrence_row :: "family_id \<Rightarrow> occurrence_id \<Rightarrow> int \<Rightarrow> unit calendar_tx" where
  "cancel_occurrence_row fam i at = tx_modify (\<lambda>s. s\<lparr>occurrence_rows :=
     tbl_update (\<lambda>r. ow_family r = fam \<and> ow_id r = i \<and> ow_cancelled r = None)
       (\<lambda>r. r\<lparr>ow_cancelled := Some at\<rparr>) (occurrence_rows s)\<rparr>)"

definition prune_for_event_before :: "family_id \<Rightarrow> event_id \<Rightarrow> int \<Rightarrow> nat calendar_tx" where
  "prune_for_event_before fam i before_at =
     delete_occurrences fam (\<lambda>r. ow_event r = i \<and> ow_starts r < before_at)"

definition recurring_event :: "family_id \<Rightarrow> event_id \<Rightarrow> calendar_store \<Rightarrow> bool" where
  "recurring_event fam i s \<longleftrightarrow> (case scoped_event fam i s of None \<Rightarrow> False | Some r \<Rightarrow> er_rule r \<noteq> None)"

definition prune_recurring_before :: "family_id \<Rightarrow> int \<Rightarrow> nat calendar_tx" where
  "prune_recurring_before fam before_at s =
     delete_occurrences fam (\<lambda>r. ow_starts r < before_at \<and> recurring_event fam (ow_event r) s) s"

subsection \<open>The range query\<close>

record range_query =
  rq_from :: int
  rq_to :: int
  rq_visible :: "member_id list"

record occurrence_view =
  ov_id :: occurrence_id
  ov_event :: event_id
  ov_starts :: int
  ov_ends :: int
  ov_cancelled :: "int option"
  ov_kind :: event_kind
  ov_start_date :: "local_date option"
  ov_end_date :: "local_date option"
  ov_title :: string
  ov_zone :: string
  ov_location :: "string option"
  ov_category :: "event_category option"
  ov_status :: event_status
  ov_participants :: "member_id list"

definition overlaps :: "range_query \<Rightarrow> occurrence_row \<Rightarrow> bool" where
  "overlaps q r \<longleftrightarrow> ow_starts r < rq_to q \<and> (rq_from q < ow_ends r \<or> rq_from q \<le> ow_starts r)"

definition all_visible :: "family_id \<Rightarrow> range_query \<Rightarrow> calendar_store \<Rightarrow> event_id \<Rightarrow> bool" where
  "all_visible fam q s i \<longleftrightarrow>
     \<not> list_ex (\<lambda>p. pa_event p = i \<and> pa_family p = fam \<and> pa_member p \<notin> set (rq_visible q)) (participant_rows s)"

definition view_dates :: "intl \<Rightarrow> event_row \<Rightarrow> occurrence_row \<Rightarrow> (local_date \<times> local_date) option" where
  "view_dates I e r =
     (case (er_kind e, er_start_date e, er_end_date e) of
        (AllDayKind, Some a, Some b) \<Rightarrow>
          (let start = date_of (instant_to_local I (ow_starts r) (er_zone e)) in
           Some (start, add_days start
             (to_epoch_day (db_date_to_local_date b) - to_epoch_day (db_date_to_local_date a))))
      | _ \<Rightarrow> None)"

definition occurrence_view_of ::
  "intl \<Rightarrow> family_id \<Rightarrow> calendar_store \<Rightarrow> event_row \<Rightarrow> occurrence_row \<Rightarrow> occurrence_view"
where
  "occurrence_view_of I fam s e r =
     \<lparr>ov_id = ow_id r, ov_event = ow_event r, ov_starts = ow_starts r, ov_ends = ow_ends r,
      ov_cancelled = ow_cancelled r, ov_kind = er_kind e,
      ov_start_date = map_option fst (view_dates I e r),
      ov_end_date = map_option snd (view_dates I e r), ov_title = er_title e, ov_zone = er_zone e,
      ov_location = er_location e, ov_category = er_category e, ov_status = er_status e,
      ov_participants = map pa_member (participants_of fam (ow_event r) s)\<rparr>"

definition range_rows :: "family_id \<Rightarrow> range_query \<Rightarrow> calendar_store \<Rightarrow> occurrence_row list" where
  "range_rows fam q s =
     sort_key ow_starts (sort_key ow_id
       (filter (\<lambda>r. overlaps q r \<and> all_visible fam q s (ow_event r)) (family_occurrences fam s)))"

definition list_visible_in_range :: "intl \<Rightarrow> family_id \<Rightarrow> range_query \<Rightarrow> occurrence_view list calendar_tx" where
  "list_visible_in_range I fam q = tx_get (\<lambda>s.
     List.map_filter (\<lambda>r. map_option (\<lambda>e. occurrence_view_of I fam s e r) (scoped_event fam (ow_event r) s))
       (range_rows fam q s))"

definition list_hidden_in_range :: "family_id \<Rightarrow> range_query \<Rightarrow> (event_id \<times> member_id) list calendar_tx" where
  "list_hidden_in_range fam q = tx_get (\<lambda>s.
     unique (map (\<lambda>p. (pa_event p, pa_member p))
       (sort_key (\<lambda>p. event_text (pa_event p)) (sort_key (\<lambda>p. member_text (pa_member p))
         (filter (\<lambda>p. pa_family p = fam \<and> pa_member p \<notin> set (rq_visible q)
            \<and> list_ex (\<lambda>r. ow_event r = pa_event p \<and> overlaps q r) (family_occurrences fam s))
           (participant_rows s))))))"

section \<open>Logs\<close>

definition cs_event :: "outbox_event \<Rightarrow> unit calendar_tx" where
  "cs_event e = tx_modify (\<lambda>s. s\<lparr>cs_outbox := cs_outbox s @ [e]\<rparr>)"

definition cs_record :: "audit_entry \<Rightarrow> unit calendar_tx" where
  "cs_record e = tx_modify (\<lambda>s. s\<lparr>cs_audit := cs_audit s @ [e]\<rparr>)"

section \<open>The sweep's reads\<close>

definition due_for_materialisation :: "int \<Rightarrow> event_row \<Rightarrow> bool" where
  "due_for_materialisation horizon_end r \<longleftrightarrow>
     er_rule r \<noteq> None \<and> er_status r = EventConfirmed
     \<and> (case er_through r of None \<Rightarrow> False | Some t \<Rightarrow> t < horizon_end)"

definition find_events_due :: "int \<Rightarrow> calendar_store \<Rightarrow> (event_id \<times> family_id) list" where
  "find_events_due horizon_end s =
     map (\<lambda>r. (er_id r, er_family r))
       (sort_key (\<lambda>r. case er_through r of None \<Rightarrow> 0 | Some t \<Rightarrow> t)
         (filter (due_for_materialisation horizon_end) (event_rows s)))"

definition find_families_with_prunable :: "int \<Rightarrow> calendar_store \<Rightarrow> family_id list" where
  "find_families_with_prunable before_at s =
     unique (map ow_family (filter (\<lambda>o_row. ow_starts o_row < before_at
       \<and> list_ex (\<lambda>e. er_id e = ow_event o_row \<and> er_rule e \<noteq> None) (event_rows s)) (occurrence_rows s)))"

text \<open>The least \<open>materialised_through\<close> of each family's continuing series.\<close>

definition continuing :: "event_row \<Rightarrow> bool" where
  "continuing r \<longleftrightarrow> er_rule r \<noteq> None \<and> er_status r = EventConfirmed \<and> er_through r \<noteq> None"

definition measure_horizons :: "calendar_store \<Rightarrow> (family_id \<times> int) list" where
  "measure_horizons s =
     (let rows = filter continuing (event_rows s) in
      map (\<lambda>fam. (fam, Min (set (List.map_filter er_through (filter (\<lambda>r. er_family r = fam) rows)))))
        (unique (map er_family rows)))"

section \<open>Erasure\<close>

definition erase_calendar_for_family :: "family_id \<Rightarrow> calendar_store \<Rightarrow> calendar_store" where
  "erase_calendar_for_family fam s =
     s\<lparr>event_rows := tbl_delete (\<lambda>r. er_family r = fam) (event_rows s),
       occurrence_rows := tbl_delete (\<lambda>r. ow_family r = fam) (occurrence_rows s),
       participant_rows := tbl_delete (\<lambda>p. pa_family p = fam) (participant_rows s)\<rparr>"

definition erase_calendar_for_member :: "member_id \<Rightarrow> calendar_store \<Rightarrow> calendar_store" where
  "erase_calendar_for_member m s =
     (let fams = unique (map pa_family (filter (\<lambda>p. pa_member p = m) (participant_rows s))) in
      s\<lparr>participant_rows :=
        foldl (\<lambda>rows fam. tbl_delete (\<lambda>p. pa_member p = m \<and> pa_family p = fam) rows)
          (participant_rows s) fams\<rparr>)"

end
