(* ===== verification/Calendar_Commands.thy ===== *)
theory Calendar_Commands
  imports Calendar_Store Visibility
begin

text \<open>
  The Calendar application layer, \<open>packages/core/src/calendar/application\<close>, and the
  materialisation sweep of the worker: every command and query, one definition each, with the
  visibility rule and the rebuild of an event's occurrences they share. The visibility port is
  a parameter, asked before the transaction opens.
\<close>

section \<open>Visibility\<close>

definition hidden_participants :: "member_id list \<Rightarrow> visibility \<Rightarrow> member_id list" where
  "hidden_participants ms v = filter (\<lambda>m. m \<notin> set (visible_ids v)) ms"

definition guarded_child_participants :: "member_id list \<Rightarrow> visibility \<Rightarrow> member_id list" where
  "guarded_child_participants ms v = filter (\<lambda>m. m \<in> set (guarded_ids v)) ms"

definition participation_audit ::
  "reader \<Rightarrow> event_id \<Rightarrow> string \<Rightarrow> audit_result \<Rightarrow> member_id \<Rightarrow> audit_entry"
where
  "participation_audit rd i view result child =
     \<lparr>actor_user_id = rd_user rd, actor_member_id = Some (rd_member rd),
      audit_family_id = Some (rd_family rd), subject_type = SFamilyMember,
      subject_id = member_text child, audit_action = ''calendar_participation.read'',
      audit_purpose = view @ '' of calendar event '' @ event_text i, audit_result = result,
      audit_reason = (if result = Granted then None
        else Some ''event has a child participant the reader holds no active guardianship for (FR-016)''),
      audit_correlation_id = rd_correlation rd\<rparr>"

definition audit_child_participation ::
  "reader \<Rightarrow> event_id \<Rightarrow> member_id list \<Rightarrow> string \<Rightarrow> audit_result \<Rightarrow> unit calendar_tx"
where
  "audit_child_participation rd i children view result =
     tx_each (\<lambda>m. cs_record (participation_audit rd i view result m)) children"

section \<open>Rebuilding the occurrences of an event\<close>

record rematerialised =
  rm_window :: "int \<times> int"
  rm_counts :: reconcile_counts
  rm_count :: nat
  rm_event :: calendar_event

text \<open>The event with its marker moved is part of the result; the caller saves it.\<close>

definition rematerialise :: "intl \<Rightarrow> family_id \<Rightarrow> calendar_event \<Rightarrow> int \<Rightarrow> rematerialised outcome calendar_tx" where
  "rematerialise I fam e now =
     (let window = materialisation_window now in
      tx_ok (plan_occurrences I e window) (\<lambda>plan.
        tx_bind (list_for_event fam (ce_id e) (pl_scope plan)) (\<lambda>existing.
        tx_bind (apply_plan fam (ce_id e) (reconcile (pl_planned plan) existing)) (\<lambda>counts.
        tx_return (Inr \<lparr>rm_window = window, rm_counts = counts, rm_count = length (pl_planned plan),
          rm_event = record_materialised_through e (pl_through plan)\<rparr>)))))"

section \<open>Commands\<close>

definition announce_materialised ::
  "family_id \<Rightarrow> calendar_event \<Rightarrow> rematerialised \<Rightarrow> string \<Rightarrow> unit calendar_tx"
where
  "announce_materialised fam e m cid =
     cs_event (occurrence_materialised_event fam (ce_id e) (rm_window m) (rm_count m) cid)"

definition create_event ::
  "intl \<Rightarrow> event_params \<Rightarrow> string \<Rightarrow> int \<Rightarrow> (event_id \<times> reconcile_counts) outcome calendar_tx"
where
  "create_event I c cid now =
     (let fam = ec_family c in
      tx_ok (event_create I c now) (\<lambda>e.
        catch_rollback (in_transaction
          (tx_bind (save_event fam e) (\<lambda>_.
           tx_bind (tx_rethrow ParticipantNotInFamily (RollbackWithError ParticipantInvalid)
             (replace_participants fam (ce_id e) (ce_participants e))) (\<lambda>_.
           tx_bind (rematerialise I fam e now) (\<lambda>r.
           tx_bind (or_rollback r) (\<lambda>m.
           let e' = rm_event m in
           tx_bind (save_event fam e') (\<lambda>_.
           tx_bind (cs_event (event_created_event fam (ce_id e') (kind_of (ce_timing e'))
             (ce_rule e' \<noteq> None) cid)) (\<lambda>_.
           tx_bind (if ce_rule e' \<noteq> None then announce_materialised fam e' m cid else tx_return ()) (\<lambda>_.
           tx_return (Inr (ce_id e', rm_counts m)))))))))))))"

text \<open>
  What every write to an existing event does first: the lock, then the visibility rule. An event
  with a hidden participant answers like a missing one, and leaves the denial in the audit log.
\<close>

definition lock_visible_event :: "reader \<Rightarrow> visibility \<Rightarrow> event_id \<Rightarrow> calendar_event outcome calendar_tx" where
  "lock_visible_event rd v i =
     tx_bind (lock_event (rd_family rd) i) (\<lambda>found.
       case found of
         None \<Rightarrow> tx_return (Inl NotFound)
       | Some e \<Rightarrow>
           (let hidden = hidden_participants (ce_participants e) v in
            if hidden \<noteq> [] then
              tx_bind (audit_child_participation rd (ce_id e) hidden ''event change'' Denied)
                (\<lambda>_. tx_return (Inl NotFound))
            else tx_return (Inr e)))"

record update_event_outcome = update_outcome +
  ue_event :: calendar_event
  ue_counts :: "reconcile_counts option"

definition updated :: "update_outcome \<Rightarrow> calendar_event \<Rightarrow> reconcile_counts option \<Rightarrow> update_event_outcome" where
  "updated u e counts =
     \<lparr>uo_changed = uo_changed u, uo_reschedule = uo_reschedule u, ue_event = e, ue_counts = counts\<rparr>"

text \<open>The rebuild of an edit that moved the event, and the event as it is afterwards.\<close>

definition reschedule_event ::
  "intl \<Rightarrow> family_id \<Rightarrow> calendar_event \<Rightarrow> string \<Rightarrow> int
     \<Rightarrow> (calendar_event \<times> reconcile_counts option) calendar_tx"
where
  "reschedule_event I fam e cid now =
     tx_bind (rematerialise I fam e now) (\<lambda>r.
     tx_bind (or_rollback r) (\<lambda>m.
     let e' = rm_event m in
     tx_bind (save_event fam e') (\<lambda>_.
     tx_bind (if ce_rule e' \<noteq> None then announce_materialised fam e' m cid else tx_return ()) (\<lambda>_.
     tx_return (e', Some (rm_counts m))))))"

definition update_event ::
  "intl \<Rightarrow> visibility_port \<Rightarrow> reader \<Rightarrow> event_id \<Rightarrow> event_patch \<Rightarrow> int
     \<Rightarrow> update_event_outcome outcome calendar_tx"
where
  "update_event I port rd i patch now =
     (let v = resolve_visibility port rd; fam = rd_family rd in
      catch_rollback (in_transaction
        (tx_bind (lock_visible_event rd v i) (\<lambda>locked. tx_ok locked (\<lambda>e.
           case event_update I e patch now of
             (Inl x, _) \<Rightarrow> tx_return (Inl x)
           | (Inr u, e') \<Rightarrow>
               if uo_changed u = [] then tx_return (Inr (updated u e' None))
               else
                 tx_bind (save_event fam e') (\<lambda>_.
                 tx_bind (if ParticipantsChanged \<in> set (uo_changed u)
                   then tx_rethrow ParticipantNotInFamily (RollbackWithError ParticipantInvalid)
                     (replace_participants fam (ce_id e') (ce_participants e'))
                   else tx_return ()) (\<lambda>_.
                 tx_bind (if uo_reschedule u then reschedule_event I fam e' (rd_correlation rd) now
                   else tx_return (e', None)) (\<lambda>(e'', counts).
                 tx_bind (cs_event (event_updated_event fam (ce_id e'') (uo_changed u) (rd_correlation rd))) (\<lambda>_.
                 tx_return (Inr (updated u e'' counts)))))))))))"

definition cancel_event :: "visibility_port \<Rightarrow> reader \<Rightarrow> event_id \<Rightarrow> int \<Rightarrow> calendar_event outcome calendar_tx" where
  "cancel_event port rd i now =
     (let v = resolve_visibility port rd; fam = rd_family rd in
      in_transaction
        (tx_bind (lock_visible_event rd v i) (\<lambda>locked. tx_ok locked (\<lambda>e.
           case event_cancel e now of
             (False, e') \<Rightarrow> tx_return (Inr e')
           | (True, e') \<Rightarrow>
               tx_bind (save_event fam e') (\<lambda>_.
               tx_bind (cs_event (event_cancelled_event fam (ce_id e') None (rd_correlation rd))) (\<lambda>_.
               tx_return (Inr e')))))))"

definition find_reachable_occurrence ::
  "reader \<Rightarrow> visibility \<Rightarrow> event_id \<Rightarrow> occurrence_id \<Rightarrow> event_occurrence option calendar_tx"
where
  "find_reachable_occurrence rd v i occ =
     tx_bind (lock_visible_event rd v i) (\<lambda>locked.
       case locked of
         Inl _ \<Rightarrow> tx_return None
       | Inr e \<Rightarrow>
           tx_bind (find_occurrence (rd_family rd) occ) (\<lambda>found.
             tx_return (case found of
                 None \<Rightarrow> None
               | Some oc \<Rightarrow> if eo_event oc = ce_id e then Some oc else None)))"

definition cancel_occurrence ::
  "visibility_port \<Rightarrow> reader \<Rightarrow> event_id \<Rightarrow> occurrence_id \<Rightarrow> int \<Rightarrow> event_occurrence outcome calendar_tx"
where
  "cancel_occurrence port rd i occ now =
     (let v = resolve_visibility port rd; fam = rd_family rd in
      in_transaction
        (tx_bind (find_reachable_occurrence rd v i occ) (\<lambda>found.
           case found of
             None \<Rightarrow> tx_return (Inl NotFound)
           | Some oc \<Rightarrow>
               if eo_cancelled oc \<noteq> None then tx_return (Inr oc)
               else
                 tx_bind (cancel_occurrence_row fam (eo_id oc) now) (\<lambda>_.
                 tx_bind (cs_event (event_cancelled_event fam (eo_event oc) (Some (eo_id oc)) (rd_correlation rd))) (\<lambda>_.
                 tx_return (Inr (oc\<lparr>eo_cancelled := Some now\<rparr>)))))))"

definition reschedule_occurrence ::
  "visibility_port \<Rightarrow> reader \<Rightarrow> event_id \<Rightarrow> occurrence_id \<Rightarrow> unit outcome calendar_tx"
where
  "reschedule_occurrence port rd i occ =
     (let v = resolve_visibility port rd in
      in_transaction
        (tx_bind (find_reachable_occurrence rd v i occ) (\<lambda>found.
           tx_return (Inl (if found = None then NotFound else OccurrenceNotMovable)))))"

datatype horizon_outcome = HorizonSkipped | HorizonExtended reconcile_counts nat

definition materialise_horizon ::
  "intl \<Rightarrow> family_id \<Rightarrow> event_id \<Rightarrow> string \<Rightarrow> int \<Rightarrow> horizon_outcome outcome calendar_tx"
where
  "materialise_horizon I fam i cid now =
     in_transaction
       (tx_bind (lock_event fam i) (\<lambda>found.
          case found of
            None \<Rightarrow> tx_return (Inr HorizonSkipped)
          | Some e \<Rightarrow>
              if ce_rule e = None \<or> ce_status e = EventCancelled then tx_return (Inr HorizonSkipped)
              else (case ce_through e of
                None \<Rightarrow> tx_return (Inr HorizonSkipped)
              | Some t \<Rightarrow>
                  if snd (materialisation_window now) \<le> t then tx_return (Inr HorizonSkipped)
                  else
                    tx_bind (rematerialise I fam e now) (\<lambda>r. tx_ok r (\<lambda>m.
                      let e' = rm_event m in
                      tx_bind (prune_for_event_before fam (ce_id e') (fst (rm_window m))) (\<lambda>pruned.
                      tx_bind (save_event fam e') (\<lambda>_.
                      tx_bind (announce_materialised fam e' m cid) (\<lambda>_.
                      tx_return (Inr (HorizonExtended (rm_counts m) pruned))))))))))"

definition prune_trailing :: "family_id \<Rightarrow> int \<Rightarrow> nat calendar_tx" where
  "prune_trailing fam now =
     in_transaction (prune_recurring_before fam (fst (materialisation_window now)))"

section \<open>Queries\<close>

definition get_event :: "visibility_port \<Rightarrow> reader \<Rightarrow> event_id \<Rightarrow> calendar_event outcome calendar_tx" where
  "get_event port rd i =
     (let v = resolve_visibility port rd in
      in_transaction
        (tx_bind (find_event (rd_family rd) i) (\<lambda>found.
           case found of
             None \<Rightarrow> tx_return (Inl NotFound)
           | Some e \<Rightarrow>
               (let hidden = hidden_participants (ce_participants e) v in
                if hidden \<noteq> [] then
                  tx_bind (audit_child_participation rd (ce_id e) hidden ''event detail'' Denied)
                    (\<lambda>_. tx_return (Inl NotFound))
                else
                  tx_bind (audit_child_participation rd (ce_id e)
                    (guarded_child_participants (ce_participants e) v) ''event detail'' Granted)
                    (\<lambda>_. tx_return (Inr e))))))"

definition event_range_days :: int where "event_range_days = horizon_days"

text \<open>The members of each event, in the order the events first occur.\<close>

definition group_by_event :: "('r \<Rightarrow> event_id) \<Rightarrow> ('r \<Rightarrow> member_id list) \<Rightarrow> 'r list \<Rightarrow> (event_id \<times> member_id list) list" where
  "group_by_event event_of members rows =
     map (\<lambda>i. (i, unique (concat (map members (filter (\<lambda>r. event_of r = i) rows)))))
       (unique (map event_of rows))"

definition audit_groups ::
  "reader \<Rightarrow> audit_result \<Rightarrow> (event_id \<times> member_id list) list \<Rightarrow> unit calendar_tx"
where
  "audit_groups rd result groups =
     tx_each (\<lambda>(i, ms). audit_child_participation rd i ms ''calendar range'' result) groups"

definition check_event_range :: "int option \<Rightarrow> int option \<Rightarrow> (int \<times> int) outcome" where
  "check_event_range lo hi =
     (case (lo, hi) of
        (Some a, Some b) \<Rightarrow>
          if b \<le> a then Inl (InvalidTimeRange ''to must be after from.'')
          else if b - a > event_range_days * ms_per_day then Inl (RangeTooWide event_range_days)
          else Inr (a, b)
      | _ \<Rightarrow> Inl (InvalidTimeRange ''from and to must be real instants.''))"

definition list_occurrences ::
  "intl \<Rightarrow> visibility_port \<Rightarrow> reader \<Rightarrow> int option \<Rightarrow> int option \<Rightarrow> occurrence_view list outcome calendar_tx"
where
  "list_occurrences I port rd lo hi =
     tx_ok (check_event_range lo hi) (\<lambda>(a, b).
       let v = resolve_visibility port rd; fam = rd_family rd;
           q = \<lparr>rq_from = a, rq_to = b, rq_visible = visible_ids v\<rparr> in
       in_transaction
         (tx_bind (list_visible_in_range I fam q) (\<lambda>visible.
          tx_bind (list_hidden_in_range fam q) (\<lambda>hidden.
          tx_bind (audit_groups rd Granted (group_by_event ov_event
            (\<lambda>r. guarded_child_participants (ov_participants r) v) visible)) (\<lambda>_.
          tx_bind (audit_groups rd Denied (group_by_event fst (\<lambda>r. [snd r]) hidden)) (\<lambda>_.
          tx_return (Inr visible)))))))"

section \<open>The materialisation sweep\<close>

record sweep_counts =
  sw_extended :: nat
  sw_skipped :: nat
  sw_failed :: "event_id list"
  sw_inserted :: nat
  sw_deleted :: nat
  sw_pruned :: nat

text \<open>One transaction per due event; one that is refused or throws is counted and passed over.\<close>

definition sweep_event ::
  "intl \<Rightarrow> string \<Rightarrow> int \<Rightarrow> event_id \<times> family_id \<Rightarrow> sweep_counts \<times> calendar_store \<Rightarrow> sweep_counts \<times> calendar_store"
where
  "sweep_event I cid now = (\<lambda>(i, fam) (c, s).
     case materialise_horizon I fam i cid now s of
       (Inr (Inr HorizonSkipped), s') \<Rightarrow> (c\<lparr>sw_skipped := sw_skipped c + 1\<rparr>, s')
     | (Inr (Inr (HorizonExtended counts pruned)), s') \<Rightarrow>
         (c\<lparr>sw_extended := sw_extended c + 1, sw_inserted := sw_inserted c + rc_inserted counts,
            sw_deleted := sw_deleted c + rc_deleted counts, sw_pruned := sw_pruned c + pruned\<rparr>, s')
     | (_, s') \<Rightarrow> (c\<lparr>sw_failed := sw_failed c @ [i]\<rparr>, s'))"

fun sweep_prune :: "int \<Rightarrow> family_id list \<Rightarrow> nat calendar_tx" where
  "sweep_prune now [] s = (Inr 0, s)"
| "sweep_prune now (fam # fams) s =
     tx_bind (prune_trailing fam now) (\<lambda>n. tx_bind (sweep_prune now fams) (\<lambda>k. tx_return (n + k))) s"

record sweep_report = sweep_counts +
  sw_lagging :: "(family_id \<times> int) list"
  sw_min_lag :: "int option"

definition lag_seconds :: "int \<Rightarrow> int \<Rightarrow> int" where
  "lag_seconds now through = (through - now) div 1000"

definition run_materialise_sweep :: "intl \<Rightarrow> string \<Rightarrow> int \<Rightarrow> sweep_report calendar_tx" where
  "run_materialise_sweep I cid now s =
     (let window = materialisation_window now;
          (c, s1) = fold (sweep_event I cid now) (find_events_due (snd window) s)
            (\<lparr>sw_extended = 0, sw_skipped = 0, sw_failed = [], sw_inserted = 0, sw_deleted = 0, sw_pruned = 0\<rparr>, s) in
      tx_bind (sweep_prune now (find_families_with_prunable (fst window) s1)) (\<lambda>pruned.
      tx_bind (tx_get measure_horizons) (\<lambda>horizons.
      let lags = map (\<lambda>(fam, t). (fam, lag_seconds now t)) horizons in
      tx_return
        \<lparr>sw_extended = sw_extended c, sw_skipped = sw_skipped c, sw_failed = sw_failed c,
         sw_inserted = sw_inserted c, sw_deleted = sw_deleted c, sw_pruned = sw_pruned c + pruned,
         sw_lagging = filter (\<lambda>(_, lag). lag < horizon_days * 86400) lags,
         sw_min_lag = (if lags = [] then None else Some (Min (set (map snd lags))))\<rparr>)) s1)"

end
