(* ===== verification/Calendar_Facts.thy ===== *)
theory Calendar_Facts
  imports Calendar_Commands
begin

text \<open>
  What rebuilding an event's occurrences does: the reconciliation as a difference of two finite
  maps, the rows after its plan was applied, and the invariant of the Calendar tables.
\<close>

section \<open>The reconciliation\<close>

text \<open>The end the first planned occurrence at a start has.\<close>

definition planned_end :: "planned_occurrence list \<Rightarrow> int \<Rightarrow> int option" where
  "planned_end ps = map_of (map (\<lambda>p. (po_starts p, po_ends p)) ps)"

text \<open>The planned occurrences whose start was not planned before.\<close>

fun firsts :: "int list \<Rightarrow> planned_occurrence list \<Rightarrow> planned_occurrence list" where
  "firsts seen [] = []"
| "firsts seen (p # ps) =
     (if po_starts p \<in> set seen then firsts seen ps else p # firsts (po_starts p # seen) ps)"

lemma firsts_props:
  "distinct (map po_starts (firsts seen ps))"
  "set (map po_starts (firsts seen ps)) = po_starts ` set ps - set seen"
proof -
  have s: "set (map po_starts (firsts seen ps)) = po_starts ` set ps - set seen" for seen ps
    by (induction seen ps rule: firsts.induct) auto
  show "distinct (map po_starts (firsts seen ps))"
    by (induction seen ps rule: firsts.induct) (simp_all del: set_map add: s)
  show "set (map po_starts (firsts seen ps)) = po_starts ` set ps - set seen" by (rule s)
qed

lemma firsts_planned:
  "p \<in> set (firsts seen ps) \<longleftrightarrow>
     p \<in> set ps \<and> po_starts p \<notin> set seen \<and> planned_end ps (po_starts p) = Some (po_ends p)"
proof (induction seen ps rule: firsts.induct)
  case (2 seen q ps)
  then show ?case
    by (auto simp: planned_end_def)
qed simp

lemma planned_end_iff: "planned_end ps t = Some b \<longleftrightarrow> (\<exists>p \<in> set (firsts [] ps). po_starts p = t \<and> po_ends p = b)"
proof
  assume "planned_end ps t = Some b"
  moreover from this obtain p where "p \<in> set ps" "po_starts p = t" "po_ends p = b"
    unfolding planned_end_def by (auto dest!: map_of_SomeD)
  ultimately show "\<exists>p \<in> set (firsts [] ps). po_starts p = t \<and> po_ends p = b"
    by (intro bexI [of _ p]) (simp_all add: firsts_planned)
qed (auto simp: firsts_planned)

lemma dom_planned_end: "dom (planned_end ps) = po_starts ` set ps"
  by (simp add: planned_end_def dom_map_of_conv_image_fst image_image)

text \<open>What the loop inserts and updates.\<close>

definition correction :: "(int \<times> event_occurrence) list \<Rightarrow> planned_occurrence \<Rightarrow> (occurrence_id \<times> int) option" where
  "correction rows p =
     (case tbl_find fst (po_starts p) rows of
        None \<Rightarrow> None
      | Some (_, row) \<Rightarrow> if eo_ends row \<noteq> po_ends p then Some (eo_id row, po_ends p) else None)"

lemma reconcile_planned_eq:
  "reconcile_planned rows ps seen ins upd =
     (rev (map po_starts (firsts seen ps)) @ seen,
      ins @ filter (\<lambda>p. tbl_find fst (po_starts p) rows = None) (firsts seen ps),
      upd @ List.map_filter (correction rows) (firsts seen ps))"
  by (induction rows ps seen ins upd rule: reconcile_planned.induct)
    (auto simp: Let_def correction_def map_filter_simps split: option.splits prod.splits)

lemma entry_of_start:
  assumes "distinct (map eo_starts rows)"
  shows "tbl_find fst t (map_entries (map (\<lambda>r. (eo_starts r, r)) rows)) = Some (k, r) \<longleftrightarrow>
    r \<in> set rows \<and> eo_starts r = t \<and> k = t"
proof -
  let ?ps = "map (\<lambda>r. (eo_starts r, r)) rows"
  note p = map_entries_props [of ?ps]
  have u: "x = y" if "x \<in> set ?ps" "y \<in> set ?ps" "fst x = fst y" for x y
  proof -
    have "z = (eo_starts (snd z), snd z) \<and> snd z \<in> set rows" if "z \<in> set ?ps" for z using that by auto
    with that have "eo_starts (snd x) = eo_starts (snd y)" "snd x \<in> set rows" "snd y \<in> set rows" by (metis fst_conv)+
    then have "snd x = snd y" using assms by (simp add: distinct_map inj_on_def)
    from that(3) this show ?thesis by (rule prod_eqI)
  qed
  have "x \<in> set (map_entries ?ps)" if x: "x \<in> set ?ps" for x
  proof -
    have "fst x \<in> fst ` set (map_entries ?ps)" using p(3) x by auto
    then obtain y where y: "fst x = fst y" "y \<in> set (map_entries ?ps)" by (rule imageE)
    then have "y \<in> set ?ps" using p(2) by blast
    from u [OF x this y(1)] y(2) show ?thesis by simp
  qed
  with p(2) have "set (map_entries ?ps) = set ?ps" by blast
  then have "(k, r) \<in> set (map_entries ?ps) \<longleftrightarrow> r \<in> set rows \<and> eo_starts r = k" by auto
  then show ?thesis using tbl_find_iff [OF p(1), of t "(k, r)"] by auto
qed

lemma start_unplanned:
  assumes "distinct (map eo_starts rows)"
  shows "tbl_find fst t (map_entries (map (\<lambda>r. (eo_starts r, r)) rows)) = None \<longleftrightarrow> t \<notin> eo_starts ` set rows"
proof -
  have "(\<exists>e. tbl_find fst t (map_entries (map (\<lambda>r. (eo_starts r, r)) rows)) = Some e) \<longleftrightarrow> t \<in> eo_starts ` set rows"
    unfolding split_paired_Ex entry_of_start [OF assms] by auto
  then show ?thesis by auto
qed

lemma bex_comm: "(\<exists>x \<in> A. \<exists>y \<in> B. P x y) \<longleftrightarrow> (\<exists>y \<in> B. \<exists>x \<in> A. P x y)"
  by blast

lemma reconcile_exact:
  assumes "distinct (map eo_starts rows)"
  shows "p \<in> set (rp_insert (reconcile ps rows)) \<longleftrightarrow>
      planned_end ps (po_starts p) = Some (po_ends p) \<and> po_starts p \<notin> eo_starts ` set rows"
    "distinct (map po_starts (rp_insert (reconcile ps rows)))"
    "(i, b) \<in> set (rp_update (reconcile ps rows)) \<longleftrightarrow>
      (\<exists>r \<in> set rows. eo_id r = i \<and> planned_end ps (eo_starts r) = Some b \<and> eo_ends r \<noteq> b)"
    "i \<in> set (rp_delete (reconcile ps rows)) \<longleftrightarrow>
      (\<exists>r \<in> set rows. eo_id r = i \<and> planned_end ps (eo_starts r) = None)"
proof -
  note e = entry_of_start [OF assms] and n = start_unplanned [OF assms]
  have d: "t \<in> set (map po_starts (firsts [] ps)) \<longleftrightarrow> planned_end ps t \<noteq> None" for t
    unfolding firsts_props(2) dom_planned_end [symmetric] by auto
  have in_ps: "p \<in> set ps" if "planned_end ps (po_starts p) = Some (po_ends p)" for p
    using that unfolding planned_end_def by (auto dest!: map_of_SomeD) (metis planned_occurrence.equality old.unit.exhaust)
  show "p \<in> set (rp_insert (reconcile ps rows)) \<longleftrightarrow>
      planned_end ps (po_starts p) = Some (po_ends p) \<and> po_starts p \<notin> eo_starts ` set rows"
    by (auto simp: reconcile_def reconcile_planned_eq n firsts_planned in_ps)
  show "distinct (map po_starts (rp_insert (reconcile ps rows)))"
    by (simp add: reconcile_def reconcile_planned_eq firsts_props distinct_map_filter)
  show "i \<in> set (rp_delete (reconcile ps rows)) \<longleftrightarrow>
      (\<exists>r \<in> set rows. eo_id r = i \<and> planned_end ps (eo_starts r) = None)"
    using d by (auto simp: reconcile_def reconcile_planned_eq image_iff)
  have c: "correction (map_entries (map (\<lambda>r. (eo_starts r, r)) rows)) p = Some (i, b) \<longleftrightarrow>
      (\<exists>r \<in> set rows. eo_starts r = po_starts p \<and> eo_id r = i \<and> eo_ends r \<noteq> b \<and> b = po_ends p)" for p
  proof (cases "tbl_find fst (po_starts p) (map_entries (map (\<lambda>r. (eo_starts r, r)) rows))")
    case None
    with n have "po_starts p \<notin> eo_starts ` set rows" by blast
    with None show ?thesis by (auto simp: correction_def image_iff)
  next
    case (Some x)
    obtain k r where x: "x = (k, r)" by (cases x)
    with Some e have r: "r \<in> set rows" "eo_starts r = po_starts p" by auto
    have u: "q = r" if "q \<in> set rows" "eo_starts q = po_starts p" for q
      using that r assms by (simp add: distinct_map inj_on_def)
    have "(\<exists>q \<in> set rows. eo_starts q = po_starts p \<and> Q q) \<longleftrightarrow> Q r" for Q using r u by blast
    then show ?thesis using Some x by (auto simp: correction_def)
  qed
  have "(i, b) \<in> set (rp_update (reconcile ps rows)) \<longleftrightarrow>
      (\<exists>p \<in> set (firsts [] ps). \<exists>r \<in> set rows. eo_starts r = po_starts p \<and> eo_id r = i \<and> eo_ends r \<noteq> b \<and> b = po_ends p)"
    by (simp add: reconcile_def reconcile_planned_eq map_filter_in c)
  also have "\<dots> \<longleftrightarrow> (\<exists>r \<in> set rows. \<exists>p \<in> set (firsts [] ps).
      eo_starts r = po_starts p \<and> eo_id r = i \<and> eo_ends r \<noteq> b \<and> b = po_ends p)"
    by (rule bex_comm)
  also have "\<dots> \<longleftrightarrow> (\<exists>r \<in> set rows. eo_id r = i \<and> planned_end ps (eo_starts r) = Some b \<and> eo_ends r \<noteq> b)"
    unfolding planned_end_iff by (intro bex_cong refl) metis
  finally show "(i, b) \<in> set (rp_update (reconcile ps rows)) \<longleftrightarrow>
      (\<exists>r \<in> set rows. eo_id r = i \<and> planned_end ps (eo_starts r) = Some b \<and> eo_ends r \<noteq> b)" .
qed

section \<open>The plan of an event\<close>

lemma scan_dates_in_window:
  "\<forall>x \<in> set occs. in_window E x \<Longrightarrow>
     case scan_dates I E ds occs n of
       Inl (Inl _) \<Rightarrow> True
     | Inl (Inr x) \<Rightarrow> \<forall>y \<in> set (occurrences x). in_window E y
     | Inr (occs', _) \<Rightarrow> \<forall>y \<in> set occs'. in_window E y"
proof (induction I E ds occs n rule: scan_dates.induct)
  case (2 I E d ds occs n)
  show ?case
    using 2 by (simp add: Let_def in_window_def del: split_paired_All)
qed simp

lemma scan_periods_in_window:
  "\<forall>x \<in> set occs. in_window E x \<Longrightarrow> scan_periods I E w k stop occs n = Inr x \<Longrightarrow>
     \<forall>y \<in> set (occurrences x). in_window E y"
proof (induction I E w k stop occs n rule: scan_periods.induct)
  case (1 I E w k stop occs n)
  note d = scan_dates_in_window [OF 1(2), of I "candidates_for_period (in_rule E) (date_of (in_dtstart E)) k" n]
  show ?case
    using 1 d by (subst (asm) (2) scan_periods.simps) (auto split: if_splits sum.splits prod.splits)
qed

lemma expand_in_window: "expand I E = Inr x \<Longrightarrow> y \<in> set (occurrences x) \<Longrightarrow> in_window E y"
  unfolding expand_def by (drule scan_periods_in_window [rotated]) auto

lemma plan_in_scope:
  assumes "plan_occurrences I e w = Inr pl" "p \<in> set (pl_planned pl)"
  shows "case pl_scope pl of None \<Rightarrow> True | Some from \<Rightarrow> from \<le> po_starts p"
proof (cases "ce_rule e")
  case (Some rule)
  with assms(1) obtain x where x: "expand I (series_input I e rule w) = Inr x"
    "pl_planned pl = map (planned_of I e) (occurrences x)" "pl_scope pl = Some (fst w)"
    by (auto simp: plan_occurrences_def and_then_Inr)
  from assms(2) x(2) obtain y where y: "y \<in> set (occurrences x)" "p = planned_of I e y" by auto
  from expand_in_window [OF x(1) y(1)] have "fst w \<le> ex_instant y"
    by (simp add: in_window_def series_input_def)
  then show ?thesis using x(3) y(2) by (simp add: planned_of_def split: event_timing.splits)
qed (use assms in \<open>auto simp: plan_occurrences_def\<close>)

section \<open>The invariant of the tables\<close>

interpretation event_table: keyed_table er_id event_checks "\<lambda>_ _. False"
  by standard auto

interpretation occurrence_table: keyed_table ow_id occurrence_order
    "\<lambda>a b. occurrence_key a = occurrence_key b"
  by standard auto

definition calendar_refs :: "calendar_store \<Rightarrow> bool" where
  "calendar_refs s \<longleftrightarrow>
     er_family ` set (event_rows s) \<subseteq> set (cs_families s)
     \<and> (\<forall>r \<in> set (occurrence_rows s). (ow_event r, ow_family r) \<in> event_refs s)
     \<and> (\<forall>p \<in> set (participant_rows s). (pa_event p, pa_family p) \<in> event_refs s
          \<and> (pa_member p, pa_family p) \<in> set (cs_members s))"

text \<open>The ids in use were drawn from the generator.\<close>

definition supply_ok :: "calendar_store \<Rightarrow> bool" where
  "supply_ok s \<longleftrightarrow>
     inj (cs_supply s) \<and> ow_id ` set (occurrence_rows s) \<subseteq> cs_supply s ` {..< cs_used s}"

definition calendar_db :: "calendar_store \<Rightarrow> bool" where
  "calendar_db s \<longleftrightarrow>
     event_table.sound (event_rows s) \<and> occurrence_table.sound (occurrence_rows s)
     \<and> distinct (map participant_key (participant_rows s)) \<and> calendar_refs s \<and> supply_ok s"

lemma calendar_dbD:
  "calendar_db s \<Longrightarrow> event_table.sound (event_rows s)"
  "calendar_db s \<Longrightarrow> occurrence_table.sound (occurrence_rows s)"
  "calendar_db s \<Longrightarrow> distinct (map participant_key (participant_rows s))"
  "calendar_db s \<Longrightarrow> calendar_refs s" "calendar_db s \<Longrightarrow> supply_ok s"
  by (simp_all add: calendar_db_def)

lemma event_family_unique:
  "calendar_db s \<Longrightarrow> (i, f) \<in> event_refs s \<Longrightarrow> (i, g) \<in> event_refs s \<Longrightarrow> f = g"
  using event_table.sound_key [OF calendar_dbD(1)] by (auto simp: event_refs_def)

lemma occurrence_family:
  "calendar_db s \<Longrightarrow> (i, fam) \<in> event_refs s \<Longrightarrow> r \<in> set (occurrence_rows s) \<Longrightarrow> ow_event r = i \<Longrightarrow> ow_family r = fam"
  using calendar_dbD(4) [of s] event_family_unique [of s i "ow_family r" fam]
  unfolding calendar_refs_def by blast

lemma occurrence_key_unique:
  "calendar_db s \<Longrightarrow> r \<in> set (occurrence_rows s) \<Longrightarrow> x \<in> set (occurrence_rows s) \<Longrightarrow>
     ow_event r = ow_event x \<Longrightarrow> ow_starts r = ow_starts x \<Longrightarrow> r = x"
  using occurrence_table.sound_clash [OF calendar_dbD(2)] by (auto simp: occurrence_key_def)

section \<open>Applying a plan\<close>

definition new_end :: "family_id \<Rightarrow> event_id \<Rightarrow> (occurrence_id \<times> int) list \<Rightarrow> occurrence_row \<Rightarrow> int" where
  "new_end fam i us r =
     fold (\<lambda>(x, b) e. if ow_family r = fam \<and> ow_event r = i \<and> ow_id r = x then b else e) us (ow_ends r)"

lemma new_end_cases:
  assumes "\<And>b. (ow_id r, b) \<in> set us \<Longrightarrow> b = B"
  shows "new_end fam i us r =
    (if ow_family r = fam \<and> ow_event r = i \<and> (\<exists>b. (ow_id r, b) \<in> set us) then B else ow_ends r)"
proof -
  have "fold (\<lambda>(x, b) e. if ow_family r = fam \<and> ow_event r = i \<and> ow_id r = x then b else e) us e =
      (if ow_family r = fam \<and> ow_event r = i \<and> (\<exists>b. (ow_id r, b) \<in> set us) then B else e)" for e
    using assms
  proof (induction us arbitrary: e)
    case (Cons u us)
    obtain x b where u: "u = (x, b)" by (cases u)
    have "b = B" if "ow_id r = x" using Cons.prems [of b] u that by simp
    moreover have "\<And>c. (ow_id r, c) \<in> set us \<Longrightarrow> c = B" using Cons.prems by simp
    ultimately show ?case using Cons.IH by (auto simp: u)
  qed simp
  then show ?thesis by (simp add: new_end_def)
qed

lemma updates_run:
  assumes "\<forall>r \<in> set (occurrence_rows s). occurrence_order r"
    and "\<forall>(x, b) \<in> set us. \<forall>r \<in> set (occurrence_rows s). ow_id r = x \<longrightarrow> ow_starts r \<le> b"
  shows "tx_each (update_occurrence_end fam i) us s =
    (Inr (), s\<lparr>occurrence_rows := map (\<lambda>r. r\<lparr>ow_ends := new_end fam i us r\<rparr>) (occurrence_rows s)\<rparr>)"
  using assms
proof (induction us arbitrary: s)
  case Nil
  then show ?case by (simp add: new_end_def map_idI)
next
  case (Cons u us)
  obtain x b where u: "u = (x, b)" by (cases u)
  let ?f = "\<lambda>r. if ow_family r = fam \<and> ow_event r = i \<and> ow_id r = x then r\<lparr>ow_ends := b\<rparr> else r"
  let ?s = "s\<lparr>occurrence_rows := map ?f (occurrence_rows s)\<rparr>"
  have o: "\<forall>r \<in> set (occurrence_rows ?s). occurrence_order r"
    using Cons.prems u by (auto simp: occurrence_order_def)
  then have run: "update_occurrence_end fam i u s = (Inr (), ?s)"
    by (simp add: u update_occurrence_end_def tbl_update_def list_all_iff Let_def)
  have "\<forall>(x, b) \<in> set us. \<forall>r \<in> set (occurrence_rows ?s). ow_id r = x \<longrightarrow> ow_starts r \<le> b"
    using Cons.prems(2) by auto
  from Cons.IH [OF o this] run show ?case
    by (simp add: new_end_def u comp_def)
qed

lemma updates_ran:
  assumes "tx_each (update_occurrence_end fam i) us s = (Inr (), s')"
    and "\<forall>r \<in> set (occurrence_rows s). occurrence_order r"
  shows "s' = s\<lparr>occurrence_rows := map (\<lambda>r. r\<lparr>ow_ends := new_end fam i us r\<rparr>) (occurrence_rows s)\<rparr>"
    and "\<forall>r \<in> set (occurrence_rows s'). occurrence_order r"
proof -
  have "s' = s\<lparr>occurrence_rows := map (\<lambda>r. r\<lparr>ow_ends := new_end fam i us r\<rparr>) (occurrence_rows s)\<rparr>
      \<and> (\<forall>r \<in> set (occurrence_rows s'). occurrence_order r)"
    using assms
  proof (induction us arbitrary: s)
    case Nil
    then show ?case by (simp add: new_end_def map_idI)
  next
    case (Cons u us)
    obtain x b where u: "u = (x, b)" by (cases u)
    let ?f = "\<lambda>r. if ow_family r = fam \<and> ow_event r = i \<and> ow_id r = x then r\<lparr>ow_ends := b\<rparr> else r"
    let ?s = "s\<lparr>occurrence_rows := map ?f (occurrence_rows s)\<rparr>"
    have run: "update_occurrence_end fam i u s = (Inr (), ?s)" "\<forall>r \<in> set (occurrence_rows ?s). occurrence_order r"
      using Cons.prems(1) by (auto simp: u update_occurrence_end_def tbl_update_def list_all_iff Let_def tx_bind_def split: if_splits)
    then have "tx_each (update_occurrence_end fam i) us ?s = (Inr (), s')" using Cons.prems(1) by simp
    from Cons.IH [OF this run(2)] show ?case by (simp add: new_end_def u comp_def)
  qed
  then show "s' = s\<lparr>occurrence_rows := map (\<lambda>r. r\<lparr>ow_ends := new_end fam i us r\<rparr>) (occurrence_rows s)\<rparr>"
    "\<forall>r \<in> set (occurrence_rows s'). occurrence_order r" by simp_all
qed

text \<open>The rows of an event that a rebuild looks at.\<close>

definition mine :: "event_id \<Rightarrow> int option \<Rightarrow> occurrence_row \<Rightarrow> bool" where
  "mine i scope r \<longleftrightarrow> ow_event r = i \<and> (case scope of None \<Rightarrow> True | Some from \<Rightarrow> from \<le> ow_starts r)"

lemma mine_cong: "ow_event x = ow_event y \<Longrightarrow> ow_starts x = ow_starts y \<Longrightarrow> mine i scope x = mine i scope y"
  by (simp add: mine_def split: option.splits)

lemma mine_ends [simp]: "mine i scope (r\<lparr>ow_ends := b\<rparr>) = mine i scope r"
  by (simp add: mine_def split: option.splits)

text \<open>
  The table after a rebuild: the rows outside the scope are as they were; in the scope there is
  one row for each planned start, with the planned end. It is the row that was there, with its
  id and its cancellation, or one with a fresh id that is not cancelled.
\<close>

definition rebuilt ::
  "event_id \<Rightarrow> family_id \<Rightarrow> int option \<Rightarrow> planned_occurrence list \<Rightarrow> occurrence_row list \<Rightarrow> occurrence_row list \<Rightarrow> bool"
where
  "rebuilt i fam scope ps rows rows' \<longleftrightarrow>
     (\<forall>x. \<not> mine i scope x \<longrightarrow> (x \<in> set rows' \<longleftrightarrow> x \<in> set rows))
     \<and> (\<forall>t b. (\<exists>x \<in> set rows'. mine i scope x \<and> ow_starts x = t \<and> ow_ends x = b) \<longleftrightarrow> planned_end ps t = Some b)
     \<and> (\<forall>x \<in> set rows'. mine i scope x \<longrightarrow>
          (\<exists>r \<in> set rows. \<exists>b. mine i scope r \<and> x = r\<lparr>ow_ends := b\<rparr>)
          \<or> (\<forall>r \<in> set rows. ow_id r \<noteq> ow_id x \<and> (mine i scope r \<longrightarrow> ow_starts r \<noteq> ow_starts x))
            \<and> ow_family x = fam \<and> ow_cancelled x = None)"

lemma new_occurrences_props:
  "x \<in> set (new_occurrences fam i ps s) \<Longrightarrow>
     \<exists>k p. p \<in> set ps \<and> x = \<lparr>ow_id = cs_supply s (cs_used s + k), ow_family = fam,
       ow_event = i, ow_starts = po_starts p, ow_ends = po_ends p, ow_cancelled = None\<rparr>"
  "p \<in> set ps \<Longrightarrow> \<exists>x \<in> set (new_occurrences fam i ps s).
     ow_family x = fam \<and> ow_event x = i \<and> ow_starts x = po_starts p \<and> ow_ends x = po_ends p \<and> ow_cancelled x = None"
  "map ow_starts (new_occurrences fam i ps s) = map po_starts ps"
  "map ow_id (new_occurrences fam i ps s) = map (\<lambda>k. cs_supply s (cs_used s + k)) [0..<length ps]"
proof -
  have n: "new_occurrences fam i ps s = map (\<lambda>k. \<lparr>ow_id = cs_supply s (cs_used s + k), ow_family = fam,
       ow_event = i, ow_starts = po_starts (ps ! k), ow_ends = po_ends (ps ! k), ow_cancelled = None\<rparr>) [0..<length ps]"
    unfolding new_occurrences_def by (rule nth_equalityI) simp_all
  show "x \<in> set (new_occurrences fam i ps s) \<Longrightarrow>
     \<exists>k p. p \<in> set ps \<and> x = \<lparr>ow_id = cs_supply s (cs_used s + k), ow_family = fam,
       ow_event = i, ow_starts = po_starts p, ow_ends = po_ends p, ow_cancelled = None\<rparr>"
    by (auto simp: n) (metis nth_mem)
  show "p \<in> set ps \<Longrightarrow> \<exists>x \<in> set (new_occurrences fam i ps s).
     ow_family x = fam \<and> ow_event x = i \<and> ow_starts x = po_starts p \<and> ow_ends x = po_ends p \<and> ow_cancelled x = None"
    by (auto simp: n in_set_conv_nth)
  show "map ow_starts (new_occurrences fam i ps s) = map po_starts ps"
    by (simp add: n comp_def) (rule nth_equalityI; simp)
  show "map ow_id (new_occurrences fam i ps s) = map (\<lambda>k. cs_supply s (cs_used s + k)) [0..<length ps]"
    by (simp add: n comp_def)
qed

lemma existing_rows:
  assumes "calendar_db s" "(i, fam) \<in> event_refs s" "list_for_event fam i scope s = (Inr existing, s1)"
  shows "s1 = s" "set existing = to_occurrence ` {r \<in> set (occurrence_rows s). mine i scope r}"
    "distinct (map eo_starts existing)"
proof -
  let ?rows = "filter (\<lambda>r. ow_event r = i \<and> (case scope of None \<Rightarrow> True | Some from \<Rightarrow> from \<le> ow_starts r))
    (family_occurrences fam s)"
  from assms(3) show "s1 = s" by (simp add: list_for_event_def)
  have e: "existing = map to_occurrence (sort_key ow_starts ?rows)"
    using assms(3) by (auto simp: list_for_event_def)
  have s: "set ?rows = {r \<in> set (occurrence_rows s). mine i scope r}"
    using occurrence_family [OF assms(1,2)] by (auto simp: family_occurrences_def mine_def)
  show "set existing = to_occurrence ` {r \<in> set (occurrence_rows s). mine i scope r}"
    unfolding e s [symmetric] by simp
  have "distinct (occurrence_rows s)"
    using calendar_dbD(2) [OF assms(1)] by (auto simp: occurrence_table.sound_def distinct_map)
  then have "distinct (sort_key ow_starts ?rows)" by (simp add: family_occurrences_def)
  moreover have "inj_on ow_starts (set (sort_key ow_starts ?rows))"
    unfolding set_sort s
    by (intro inj_onI occurrence_key_unique [OF assms(1)]) (auto simp: mine_def)
  ultimately have "distinct (map ow_starts (sort_key ow_starts ?rows))" by (simp add: distinct_map)
  then show "distinct (map eo_starts existing)" by (simp add: e comp_def to_occurrence_def)
qed

text \<open>The difference between the rows and the plan, over the rows.\<close>

lemma reconcile_rows:
  assumes "calendar_db s" "(i, fam) \<in> event_refs s" "list_for_event fam i scope s = (Inr existing, s1)"
  shows "p \<in> set (rp_insert (reconcile ps existing)) \<longleftrightarrow> planned_end ps (po_starts p) = Some (po_ends p)
      \<and> (\<forall>r \<in> set (occurrence_rows s). mine i scope r \<longrightarrow> ow_starts r \<noteq> po_starts p)"
    "distinct (map po_starts (rp_insert (reconcile ps existing)))"
    "r \<in> set (occurrence_rows s) \<Longrightarrow> (ow_id r, b) \<in> set (rp_update (reconcile ps existing)) \<longleftrightarrow>
      mine i scope r \<and> planned_end ps (ow_starts r) = Some b \<and> ow_ends r \<noteq> b"
    "r \<in> set (occurrence_rows s) \<Longrightarrow> ow_id r \<in> set (rp_delete (reconcile ps existing)) \<longleftrightarrow>
      mine i scope r \<and> planned_end ps (ow_starts r) = None"
proof -
  note ex = existing_rows [OF assms]
  note rc = reconcile_exact [OF ex(3)]
  note k = occurrence_table.sound_key [OF calendar_dbD(2) [OF assms(1)]]
  have u: "(\<exists>x \<in> set existing. eo_id x = ow_id r \<and> Q (eo_starts x) (eo_ends x)) \<longleftrightarrow>
      mine i scope r \<and> Q (ow_starts r) (ow_ends r)" if "r \<in> set (occurrence_rows s)" for r Q
  proof -
    have k': "x = r" if "x \<in> set (occurrence_rows s)" "ow_id x = ow_id r" for x
      using k [OF that(1) \<open>r \<in> set (occurrence_rows s)\<close> that(2)] .
    show ?thesis unfolding ex(2) using that by (auto simp: to_occurrence_def dest: k')
  qed
  show "p \<in> set (rp_insert (reconcile ps existing)) \<longleftrightarrow> planned_end ps (po_starts p) = Some (po_ends p)
      \<and> (\<forall>r \<in> set (occurrence_rows s). mine i scope r \<longrightarrow> ow_starts r \<noteq> po_starts p)"
    unfolding rc(1) ex(2) by (auto simp: to_occurrence_def image_iff)
  show "distinct (map po_starts (rp_insert (reconcile ps existing)))" by (rule rc(2))
  show "(ow_id r, b) \<in> set (rp_update (reconcile ps existing)) \<longleftrightarrow>
      mine i scope r \<and> planned_end ps (ow_starts r) = Some b \<and> ow_ends r \<noteq> b"
    if "r \<in> set (occurrence_rows s)"
    unfolding rc(3) by (rule u [OF that])
  show "ow_id r \<in> set (rp_delete (reconcile ps existing)) \<longleftrightarrow> mine i scope r \<and> planned_end ps (ow_starts r) = None"
    if "r \<in> set (occurrence_rows s)"
    unfolding rc(4) by (rule u [OF that])
qed

text \<open>The rows that stay, with their new ends.\<close>

definition kept_rows :: "event_id \<Rightarrow> int option \<Rightarrow> planned_occurrence list \<Rightarrow> occurrence_row list \<Rightarrow> occurrence_row list" where
  "kept_rows i scope ps rows =
     map (\<lambda>r. if mine i scope r then r\<lparr>ow_ends := the (planned_end ps (ow_starts r))\<rparr> else r)
       (filter (\<lambda>r. \<not> (mine i scope r \<and> planned_end ps (ow_starts r) = None)) rows)"

lemma plan_kept:
  assumes db: "calendar_db s" and ref: "(i, fam) \<in> event_refs s"
    and ex: "list_for_event fam i scope s = (Inr existing, s)"
    and run: "tx_bind (if rp_delete (reconcile ps existing) = [] then tx_return 0
        else delete_occurrences fam (\<lambda>r. ow_event r = i \<and> ow_id r \<in> set (rp_delete (reconcile ps existing))))
      (\<lambda>d. tx_bind (tx_each (update_occurrence_end fam i) (rp_update (reconcile ps existing))) (\<lambda>_. tx_return d)) s
      = (Inr d, s2)"
  shows "s2 = s\<lparr>occurrence_rows := kept_rows i scope ps (occurrence_rows s)\<rparr>"
    "\<forall>r \<in> set (occurrence_rows s2). occurrence_order r"
proof -
  let ?R = "occurrence_rows s" and ?plan = "reconcile ps existing"
  let ?gone = "\<lambda>r. mine i scope r \<and> planned_end ps (ow_starts r) = None"
  let ?s1 = "s\<lparr>occurrence_rows := filter (\<lambda>r. \<not> ?gone r) ?R\<rparr>"
  note rr = reconcile_rows [OF db ref ex, where ps = ps]
  have gone: "ow_family r = fam \<and> ow_event r = i \<and> ow_id r \<in> set (rp_delete ?plan) \<longleftrightarrow> ?gone r" if "r \<in> set ?R" for r
    using rr(4) [OF that] occurrence_family [OF db ref that] by (auto simp: mine_def)
  have "(if rp_delete ?plan = [] then tx_return 0
      else delete_occurrences fam (\<lambda>r. ow_event r = i \<and> ow_id r \<in> set (rp_delete ?plan))) s = (Inr d', ?s1)"
    if "d' = (if rp_delete ?plan = [] then 0 else length (filter ?gone ?R))" for d'
  proof (cases "rp_delete ?plan = []")
    case True
    with gone have "filter (\<lambda>r. \<not> ?gone r) ?R = ?R" by (intro filter_True) auto
    with True that show ?thesis by simp
  next
    case False
    have "filter (\<lambda>r. ow_family r = fam \<and> ow_event r = i \<and> ow_id r \<in> set (rp_delete ?plan)) ?R = filter ?gone ?R"
      "tbl_delete (\<lambda>r. ow_family r = fam \<and> ow_event r = i \<and> ow_id r \<in> set (rp_delete ?plan)) ?R = filter (\<lambda>r. \<not> ?gone r) ?R"
      unfolding tbl_delete_def by (rule filter_cong [OF refl], simp add: gone)+
    with False that show ?thesis by (simp add: delete_occurrences_def)
  qed
  with run have upd: "tx_each (update_occurrence_end fam i) (rp_update ?plan) ?s1 = (Inr (), s2)"
    by (auto simp: tx_bind_Inr)
  have o: "\<forall>r \<in> set (occurrence_rows ?s1). occurrence_order r"
    using calendar_dbD(2) [OF db] by (simp add: occurrence_table.sound_def)
  note u = updates_ran [OF upd o]
  have "map (\<lambda>r. r\<lparr>ow_ends := new_end fam i (rp_update ?plan) r\<rparr>) (filter (\<lambda>r. \<not> ?gone r) ?R) = kept_rows i scope ps ?R"
    unfolding kept_rows_def
  proof (rule map_cong [OF refl])
    fix r assume r: "r \<in> set (filter (\<lambda>r. \<not> ?gone r) ?R)"
    then have "new_end fam i (rp_update ?plan) r =
        (if ow_family r = fam \<and> ow_event r = i \<and> (\<exists>b. (ow_id r, b) \<in> set (rp_update ?plan))
         then the (planned_end ps (ow_starts r)) else ow_ends r)"
      by (intro new_end_cases) (auto simp: rr(3))
    then show "r\<lparr>ow_ends := new_end fam i (rp_update ?plan) r\<rparr>
        = (if mine i scope r then r\<lparr>ow_ends := the (planned_end ps (ow_starts r))\<rparr> else r)"
      using r rr(3) [of r] occurrence_family [OF db ref, of r] by (auto simp: mine_def)
  qed
  with u(1) show "s2 = s\<lparr>occurrence_rows := kept_rows i scope ps (occurrence_rows s)\<rparr>" by simp
  from u(2) show "\<forall>r \<in> set (occurrence_rows s2). occurrence_order r" .
qed

lemma kept_rows_in:
  "x \<in> set (kept_rows i scope ps rows) \<longleftrightarrow>
     x \<in> set rows \<and> \<not> mine i scope x
     \<or> (\<exists>r b. r \<in> set rows \<and> mine i scope r \<and> planned_end ps (ow_starts r) = Some b \<and> x = r\<lparr>ow_ends := b\<rparr>)"
  by (auto simp: kept_rows_def image_iff) force+

lemma kept_rows_keys:
  "distinct (map ow_id rows) \<Longrightarrow> distinct (map ow_id (kept_rows i scope ps rows))"
  "x \<in> set (kept_rows i scope ps rows) \<Longrightarrow>
     \<exists>r \<in> set rows. ow_id x = ow_id r \<and> ow_event x = ow_event r \<and> ow_starts x = ow_starts r
       \<and> ow_family x = ow_family r \<and> mine i scope x = mine i scope r"
proof -
  have "map ow_id (kept_rows i scope ps rows) =
      map ow_id (filter (\<lambda>r. \<not> (mine i scope r \<and> planned_end ps (ow_starts r) = None)) rows)"
    by (simp add: kept_rows_def)
  then show "distinct (map ow_id rows) \<Longrightarrow> distinct (map ow_id (kept_rows i scope ps rows))"
    by (simp add: distinct_map_filter)
  show "\<exists>r \<in> set rows. ow_id x = ow_id r \<and> ow_event x = ow_event r \<and> ow_starts x = ow_starts r
       \<and> ow_family x = ow_family r \<and> mine i scope x = mine i scope r"
    if x: "x \<in> set (kept_rows i scope ps rows)"
  proof -
    from x obtain r where "r \<in> set rows" "x = (if mine i scope r then r\<lparr>ow_ends := the (planned_end ps (ow_starts r))\<rparr> else r)"
      by (auto simp: kept_rows_def)
    then show ?thesis by (intro bexI [of _ r]) simp_all
  qed
qed

lemma rebuilt_rows:
  assumes new: "\<And>x. x \<in> set new \<Longrightarrow> mine i scope x \<and> ow_family x = fam \<and> ow_cancelled x = None
      \<and> planned_end ps (ow_starts x) = Some (ow_ends x) \<and> ow_id x \<notin> ow_id ` set rows
      \<and> (\<forall>r \<in> set rows. mine i scope r \<longrightarrow> ow_starts r \<noteq> ow_starts x)"
    and all: "\<And>t b. planned_end ps t = Some b \<Longrightarrow> (\<forall>r \<in> set rows. mine i scope r \<longrightarrow> ow_starts r \<noteq> t) \<Longrightarrow>
      \<exists>x \<in> set new. ow_starts x = t \<and> ow_ends x = b"
  shows "rebuilt i fam scope ps rows (kept_rows i scope ps rows @ new)"
  unfolding rebuilt_def
proof (intro conjI allI impI)
  fix x assume "\<not> mine i scope x"
  then show "x \<in> set (kept_rows i scope ps rows @ new) \<longleftrightarrow> x \<in> set rows"
    using new by (auto simp: kept_rows_in)
next
  fix t b
  show "(\<exists>x \<in> set (kept_rows i scope ps rows @ new). mine i scope x \<and> ow_starts x = t \<and> ow_ends x = b)
      \<longleftrightarrow> planned_end ps t = Some b"
  proof
    assume "\<exists>x \<in> set (kept_rows i scope ps rows @ new). mine i scope x \<and> ow_starts x = t \<and> ow_ends x = b"
    then obtain x where x: "x \<in> set (kept_rows i scope ps rows) \<or> x \<in> set new" "mine i scope x" "ow_starts x = t" "ow_ends x = b"
      by auto
    from x(1) show "planned_end ps t = Some b"
    proof
      assume "x \<in> set (kept_rows i scope ps rows)"
      then show ?thesis using x(2,3,4) by (auto simp: kept_rows_in)
    qed (use new x in auto)
  next
    assume p: "planned_end ps t = Some b"
    show "\<exists>x \<in> set (kept_rows i scope ps rows @ new). mine i scope x \<and> ow_starts x = t \<and> ow_ends x = b"
    proof (cases "\<exists>r \<in> set rows. mine i scope r \<and> ow_starts r = t")
      case True
      then obtain r where r: "r \<in> set rows" "mine i scope r" "ow_starts r = t" by blast
      with p have "r\<lparr>ow_ends := b\<rparr> \<in> set (kept_rows i scope ps rows)" by (auto simp: kept_rows_in)
      with r show ?thesis by (intro bexI [of _ "r\<lparr>ow_ends := b\<rparr>"]) auto
    next
      case False
      with all [OF p] new show ?thesis by auto
    qed
  qed
next
  show "\<forall>x \<in> set (kept_rows i scope ps rows @ new). mine i scope x \<longrightarrow>
      (\<exists>r \<in> set rows. \<exists>b. mine i scope r \<and> x = r\<lparr>ow_ends := b\<rparr>)
      \<or> (\<forall>r \<in> set rows. ow_id r \<noteq> ow_id x \<and> (mine i scope r \<longrightarrow> ow_starts r \<noteq> ow_starts x))
        \<and> ow_family x = fam \<and> ow_cancelled x = None"
  proof (intro ballI impI)
    fix x assume x: "x \<in> set (kept_rows i scope ps rows @ new)" "mine i scope x"
    show "(\<exists>r \<in> set rows. \<exists>b. mine i scope r \<and> x = r\<lparr>ow_ends := b\<rparr>)
      \<or> (\<forall>r \<in> set rows. ow_id r \<noteq> ow_id x \<and> (mine i scope r \<longrightarrow> ow_starts r \<noteq> ow_starts x))
        \<and> ow_family x = fam \<and> ow_cancelled x = None"
    proof (cases "x \<in> set new")
      case True
      from new [OF this] show ?thesis by (auto simp: image_iff)
    next
      case False
      with x show ?thesis unfolding set_append Un_iff kept_rows_in by blast
    qed
  qed
qed

lemma occurrence_soundI:
  assumes "distinct (map ow_id rows)" "distinct (map occurrence_key rows)" "\<forall>r \<in> set rows. occurrence_order r"
  shows "occurrence_table.sound rows"
  using assms by (auto simp: occurrence_table.sound_def distinct_map inj_on_def)

lemma occurrence_soundD:
  assumes "occurrence_table.sound rows"
  shows "distinct (map ow_id rows)" "distinct (map occurrence_key rows)" "\<forall>r \<in> set rows. occurrence_order r"
  using assms by (auto simp: occurrence_table.sound_def distinct_map inj_on_def)

lemma sorted_wrt_distinct: "distinct (map f xs) \<Longrightarrow> sorted_wrt (\<lambda>a b. f a \<noteq> f b) xs"
  by (induction xs) (auto simp: image_iff)

lemma sorted_wrt_both: "sorted_wrt P xs \<Longrightarrow> sorted_wrt Q xs \<Longrightarrow> sorted_wrt (\<lambda>a b. P a b \<and> Q a b) xs"
  by (induction xs) auto

lemma kept_keys: "map occurrence_key (kept_rows i scope ps rows) =
    map occurrence_key (filter (\<lambda>r. \<not> (mine i scope r \<and> planned_end ps (ow_starts r) = None)) rows)"
  by (simp add: kept_rows_def occurrence_key_def)

lemma fresh_rows:
  assumes "supply_ok s" "x \<in> set (new_occurrences fam i ps s)"
  shows "ow_id x \<notin> ow_id ` set (occurrence_rows s)"
proof
  assume "ow_id x \<in> ow_id ` set (occurrence_rows s)"
  then have "ow_id x \<in> cs_supply s ` {..< cs_used s}" using assms(1) unfolding supply_ok_def by blast
  then obtain n where n: "n < cs_used s" "ow_id x = cs_supply s n" by auto
  from new_occurrences_props(1) [OF assms(2)] obtain k where "ow_id x = cs_supply s (cs_used s + k)" by auto
  with n have "n = cs_used s + k" using assms(1) by (simp add: supply_ok_def inj_eq)
  with n(1) show False by simp
qed

lemma new_occurrence_ids:
  assumes "inj (cs_supply s)"
  shows "distinct (map ow_id (new_occurrences fam i ps s))"
proof -
  have "inj_on (\<lambda>k. cs_supply s (cs_used s + k)) (set [0..<length ps])"
    using assms by (intro inj_onI) (simp add: inj_eq)
  then show ?thesis unfolding new_occurrences_props(4) by (simp add: distinct_map)
qed

lemma plan_applied:
  assumes db: "calendar_db s" and ref: "(i, fam) \<in> event_refs s"
    and ex: "list_for_event fam i scope s = (Inr existing, s)"
    and scope: "\<And>p. p \<in> set ps \<Longrightarrow> case scope of None \<Rightarrow> True | Some from \<Rightarrow> from \<le> po_starts p"
    and run: "apply_plan fam i (reconcile ps existing) s = (Inr counts, s')"
  obtains rows n where "s' = s\<lparr>occurrence_rows := rows, cs_used := n\<rparr>"
    "rebuilt i fam scope ps (occurrence_rows s) rows" "calendar_db s'"
proof -
  let ?ins = "rp_insert (reconcile ps existing)"
  let ?kept = "kept_rows i scope ps (occurrence_rows s)"
  let ?s2 = "s\<lparr>occurrence_rows := ?kept\<rparr>"
  note rr = reconcile_rows [OF db ref ex, where ps = ps] and ok = occurrence_soundD [OF calendar_dbD(2) [OF db]]
  note sup = calendar_dbD(5) [OF db]
  obtain d s1 s2 n where steps: "(if rp_delete (reconcile ps existing) = [] then tx_return 0
        else delete_occurrences fam (\<lambda>r. ow_event r = i \<and> ow_id r \<in> set (rp_delete (reconcile ps existing)))) s = (Inr d, s1)"
    "tx_each (update_occurrence_end fam i) (rp_update (reconcile ps existing)) s1 = (Inr (), s2)"
    "(if ?ins = [] then tx_return 0 else insert_occurrences fam i ?ins) s2 = (Inr n, s')"
    using run unfolding apply_plan_def by (auto simp: tx_bind_Inr)
  note pk = plan_kept [OF db ref ex, of ps d s2]
  have s2: "s2 = ?s2" "\<forall>r \<in> set (occurrence_rows s2). occurrence_order r"
    by (rule pk, simp add: steps)+
  define new where "new = new_occurrences fam i ?ins ?s2"
  have fresh: "ow_id x \<notin> ow_id ` set (occurrence_rows s)" if "x \<in> set new" for x
    using fresh_rows [of s x fam i ?ins] sup that by (simp add: new_def new_occurrences_def)
  have new: "mine i scope x \<and> ow_family x = fam \<and> ow_event x = i \<and> ow_cancelled x = None
      \<and> planned_end ps (ow_starts x) = Some (ow_ends x)
      \<and> (\<forall>r \<in> set (occurrence_rows s). mine i scope r \<longrightarrow> ow_starts r \<noteq> ow_starts x)" if x: "x \<in> set new" for x
  proof -
    from new_occurrences_props(1) [OF x [unfolded new_def]] obtain p where p: "p \<in> set ?ins"
      "ow_starts x = po_starts p" "ow_ends x = po_ends p" "ow_family x = fam" "ow_event x = i" "ow_cancelled x = None"
      by auto
    from p(1) rr(1) have q: "planned_end ps (po_starts p) = Some (po_ends p)"
      "\<forall>r \<in> set (occurrence_rows s). mine i scope r \<longrightarrow> ow_starts r \<noteq> po_starts p" by auto
    then have "po_starts p \<in> po_starts ` set ps" using dom_planned_end [of ps] by blast
    then obtain q where "q \<in> set ps" "po_starts q = ow_starts x" using p(2) by auto
    with scope [of q] have "mine i scope x" using p(5) by (auto simp: mine_def split: option.splits)
    with p q show ?thesis by simp
  qed
  have kept: "\<exists>r \<in> set (occurrence_rows s). ow_id x = ow_id r \<and> ow_event x = ow_event r \<and> ow_starts x = ow_starts r
       \<and> ow_family x = ow_family r \<and> mine i scope x = mine i scope r" if "x \<in> set ?kept" for x
    using kept_rows_keys(2) [OF that] .
  have ids: "distinct (map ow_id (?kept @ new))"
  proof -
    have "distinct (map ow_id new)" unfolding new_def
      by (rule new_occurrence_ids) (use sup in \<open>simp add: supply_ok_def\<close>)
    moreover have "ow_id x \<noteq> ow_id y" if "x \<in> set new" "y \<in> set ?kept" for x y
      using fresh [OF that(1)] kept [OF that(2)] by auto
    then have "ow_id ` set ?kept \<inter> ow_id ` set new = {}" by fastforce
    ultimately show ?thesis using kept_rows_keys(1) [OF ok(1)] by simp
  qed
  have disjoint: "occurrence_key x \<notin> occurrence_key ` set ?kept" if "x \<in> set new" for x
  proof
    assume "occurrence_key x \<in> occurrence_key ` set ?kept"
    then obtain y where y: "y \<in> set ?kept" "ow_event x = ow_event y" "ow_starts x = ow_starts y"
      by (auto simp: occurrence_key_def)
    from kept [OF y(1)] obtain r where r: "r \<in> set (occurrence_rows s)" "ow_starts y = ow_starts r" "mine i scope y = mine i scope r"
      by blast
    have "mine i scope x" using new [OF that] by simp
    then have "mine i scope r" unfolding mine_cong [OF y(2,3)] r(3) .
    with new [OF that] r(1) have "ow_starts r \<noteq> ow_starts x" by simp
    with y(3) r(2) show False by simp
  qed
  have "distinct (map occurrence_key ?kept)"
    unfolding kept_keys using ok(2) by (rule distinct_map_filter)
  moreover have "distinct (map occurrence_key new)"
  proof -
    have "distinct (map snd (map occurrence_key new))"
      using rr(2) new_occurrences_props(3) [of fam i ?ins ?s2] by (simp add: comp_def occurrence_key_def new_def)
    then show ?thesis by (rule iffD1 [OF distinct_map, THEN conjunct1])
  qed
  moreover have "occurrence_key ` set ?kept \<inter> occurrence_key ` set new = {}"
  proof (rule equals0I)
    fix k assume k: "k \<in> occurrence_key ` set ?kept \<inter> occurrence_key ` set new"
    from IntD2 [OF k] obtain x where x: "k = occurrence_key x" "x \<in> set new" by (rule imageE)
    from disjoint [OF x(2)] IntD1 [OF k] x(1) show False by simp
  qed
  ultimately have keys: "distinct (map occurrence_key (?kept @ new))" by simp
  have s': "s' = s\<lparr>occurrence_rows := ?kept @ new, cs_used := cs_used s + length ?ins\<rparr>"
    "\<forall>r \<in> set (?kept @ new). occurrence_order r"
  proof -
    have c: "add_skipping occurrence_clash new ?kept = ?kept @ new"
    proof (rule add_skipping_all)
      show "\<forall>a \<in> set new. \<forall>r \<in> set ?kept. \<not> occurrence_clash a r"
      proof (intro ballI)
        fix a r assume "a \<in> set new" "r \<in> set ?kept"
        then show "\<not> occurrence_clash a r"
          using disjoint [of a] ids by (simp add: occurrence_clash_def) (metis IntI empty_iff image_eqI)
      qed
      show "sorted_wrt (\<lambda>a b. \<not> occurrence_clash b a) new"
        using sorted_wrt_both [OF sorted_wrt_distinct [of ow_id new] sorted_wrt_distinct [of occurrence_key new]] ids keys
        by (simp add: occurrence_clash_def)
    qed
    have "s' = s\<lparr>occurrence_rows := ?kept @ new, cs_used := cs_used s + length ?ins\<rparr> \<and> (\<forall>r \<in> set new. occurrence_order r)"
    proof (cases "?ins = []")
      case True
      then have "s' = ?s2" using steps(3) s2(1) by simp
      moreover have "new = []" using True by (simp add: new_def new_occurrences_def)
      ultimately show ?thesis using True by simp
    next
      case False
      then have "insert_occurrences fam i ?ins ?s2 = (Inr n, s')" using steps(3) s2 by simp
      then show ?thesis
        unfolding insert_occurrences_def Let_def new_def [symmetric]
        by (auto simp: c list_all_iff split: if_splits)
    qed
    with s2 show "s' = s\<lparr>occurrence_rows := ?kept @ new, cs_used := cs_used s + length ?ins\<rparr>"
      "\<forall>r \<in> set (?kept @ new). occurrence_order r" by auto
  qed
  have "rebuilt i fam scope ps (occurrence_rows s) (?kept @ new)"
  proof (rule rebuilt_rows)
    fix t b assume p: "planned_end ps t = Some b" "\<forall>r \<in> set (occurrence_rows s). mine i scope r \<longrightarrow> ow_starts r \<noteq> t"
    then have "\<lparr>po_starts = t, po_ends = b\<rparr> \<in> set ?ins" by (simp add: rr(1))
    from new_occurrences_props(2) [OF this, of fam i ?s2] show "\<exists>x \<in> set new. ow_starts x = t \<and> ow_ends x = b"
      by (auto simp: new_def)
  qed (use new fresh in auto)
  moreover have "calendar_db s'"
    unfolding calendar_db_def
  proof (intro conjI)
    show "occurrence_table.sound (occurrence_rows s')"
      using occurrence_soundI [OF ids keys s'(2)] by (simp add: s'(1))
    have "(ow_event r, ow_family r) \<in> event_refs s" if "r \<in> set (?kept @ new)" for r
      using that kept [of r] new [of r] ref calendar_dbD(4) [OF db] by (auto simp: calendar_refs_def)
    then show "calendar_refs s'"
      using calendar_dbD(4) [OF db] by (auto simp: calendar_refs_def event_refs_def s'(1))
    have "ow_id x \<in> cs_supply s ` {..< cs_used s + length ?ins}" if x: "x \<in> set (?kept @ new)" for x
    proof (cases "x \<in> set new")
      case True
      then have "ow_id x \<in> set (map ow_id new)" by simp
      then show ?thesis unfolding new_def new_occurrences_props(4) by auto
    next
      case False
      with x kept [of x] have "ow_id x \<in> ow_id ` set (occurrence_rows s)" by auto
      then show ?thesis using sup unfolding supply_ok_def by fastforce
    qed
    then show "supply_ok s'" using sup by (auto simp: supply_ok_def s'(1))
  qed (use db in \<open>simp_all add: calendar_db_def s'(1)\<close>)
  ultimately show thesis by (rule that [OF s'(1)])
qed

section \<open>The rebuild\<close>

lemma planned_end_scope:
  assumes "plan_occurrences I e w = Inr pl" "planned_end (pl_planned pl) t = Some b"
  shows "case pl_scope pl of None \<Rightarrow> True | Some from \<Rightarrow> from \<le> t"
proof -
  from assms(2) obtain p where "p \<in> set (pl_planned pl)" "po_starts p = t"
    using dom_planned_end [of "pl_planned pl"] by (metis (mono_tags, lifting) domI imageE)
  with plan_in_scope [OF assms(1), of p] show ?thesis by (simp split: option.splits)
qed

lemma rematerialise_cases:
  assumes db: "calendar_db s" and ref: "(ce_id e, fam) \<in> event_refs s"
  obtains (refused) x where "plan_occurrences I e (materialisation_window now) = Inl x"
      "rematerialise I fam e now s = (Inr (Inl x), s)"
  | (thrown) x s' where "rematerialise I fam e now s = (Inl x, s')"
  | (rebuilt) pl m rows n where "plan_occurrences I e (materialisation_window now) = Inr pl"
      "rematerialise I fam e now s = (Inr (Inr m), s\<lparr>occurrence_rows := rows, cs_used := n\<rparr>)"
      "rm_event m = e\<lparr>ce_through := pl_through pl\<rparr>" "rm_window m = materialisation_window now"
      "rm_count m = length (pl_planned pl)"
      "rebuilt (ce_id e) fam (pl_scope pl) (pl_planned pl) (occurrence_rows s) rows"
      "calendar_db (s\<lparr>occurrence_rows := rows, cs_used := n\<rparr>)"
proof (cases "plan_occurrences I e (materialisation_window now)")
  case (Inl x)
  then show thesis by (intro refused) (simp_all add: rematerialise_def Let_def)
next
  case (Inr pl)
  obtain existing where ex: "list_for_event fam (ce_id e) (pl_scope pl) s = (Inr existing, s)"
    by (simp add: list_for_event_def)
  obtain r s' where run: "apply_plan fam (ce_id e) (reconcile (pl_planned pl) existing) s = (r, s')"
    by (cases "apply_plan fam (ce_id e) (reconcile (pl_planned pl) existing) s")
  show thesis
  proof (cases r)
    case x: (Inl x)
    then have "rematerialise I fam e now s = (Inl x, s')"
      using Inr ex run by (simp add: rematerialise_def Let_def)
    then show thesis by (rule thrown)
  next
    case c: (Inr counts)
    note scope = plan_in_scope [OF Inr]
    obtain rows n where p: "s' = s\<lparr>occurrence_rows := rows, cs_used := n\<rparr>"
      "rebuilt (ce_id e) fam (pl_scope pl) (pl_planned pl) (occurrence_rows s) rows" "calendar_db s'"
      using plan_applied [OF db ref ex scope run [unfolded c]] by blast
    have "rematerialise I fam e now s = (Inr (Inr \<lparr>rm_window = materialisation_window now, rm_counts = counts,
        rm_count = length (pl_planned pl), rm_event = e\<lparr>ce_through := pl_through pl\<rparr>\<rparr>), s')"
      using Inr ex run c by (simp add: rematerialise_def Let_def record_materialised_through_def)
    then show thesis by (rule rebuilt [OF Inr _ _ _ _ p(2) p(3) [unfolded p(1)], unfolded p(1) [symmetric]]) simp_all
  qed
qed

text \<open>Where the rows already are what the plan says, a rebuild does nothing.\<close>

definition settled :: "event_id \<Rightarrow> int option \<Rightarrow> planned_occurrence list \<Rightarrow> occurrence_row list \<Rightarrow> bool" where
  "settled i scope ps rows \<longleftrightarrow>
     (\<forall>t b. (\<exists>x \<in> set rows. mine i scope x \<and> ow_starts x = t \<and> ow_ends x = b) \<longleftrightarrow> planned_end ps t = Some b)"

lemma rebuilt_settled: "rebuilt i fam scope ps rows rows' \<Longrightarrow> settled i scope ps rows'"
  by (simp add: rebuilt_def settled_def)

lemma settled_plan:
  assumes "calendar_db s" "(i, fam) \<in> event_refs s" "list_for_event fam i scope s = (Inr existing, s)"
    and "settled i scope ps (occurrence_rows s)"
  shows "reconcile ps existing = \<lparr>rp_insert = [], rp_update = [], rp_delete = []\<rparr>"
proof -
  note rr = reconcile_rows [OF assms(1-3), where ps = ps]
  have st: "planned_end ps (ow_starts r) = Some (ow_ends r)" if "r \<in> set (occurrence_rows s)" "mine i scope r" for r
    using assms(4) that unfolding settled_def by blast
  have ins: "p \<notin> set (rp_insert (reconcile ps existing))" for p
    using assms(4) unfolding rr(1) settled_def by blast
  have upd: "u \<notin> set (rp_update (reconcile ps existing))" for u
  proof
    assume u: "u \<in> set (rp_update (reconcile ps existing))"
    then obtain r where "r \<in> set (occurrence_rows s)" "ow_id r = fst u"
      using reconcile_exact(3) [OF existing_rows(3) [OF assms(1-3)], of "fst u" "snd u" ps] existing_rows(2) [OF assms(1-3)]
      by (auto simp: to_occurrence_def)
    then show False using rr(3) [of r "snd u"] u st [of r] by auto
  qed
  have del: "d \<notin> set (rp_delete (reconcile ps existing))" for d
  proof
    assume d: "d \<in> set (rp_delete (reconcile ps existing))"
    then obtain r where "r \<in> set (occurrence_rows s)" "ow_id r = d"
      using reconcile_exact(4) [OF existing_rows(3) [OF assms(1-3)], of d ps] existing_rows(2) [OF assms(1-3)]
      by (auto simp: to_occurrence_def)
    then show False using rr(4) [of r] d st [of r] by auto
  qed
  have "set (rp_insert (reconcile ps existing)) = {}" "set (rp_update (reconcile ps existing)) = {}"
    "set (rp_delete (reconcile ps existing)) = {}" using equals0I ins upd del by metis+
  then show ?thesis by simp
qed

lemma rematerialise_settled:
  assumes "calendar_db s" "(ce_id e, fam) \<in> event_refs s" "plan_occurrences I e (materialisation_window now) = Inr pl"
    and "settled (ce_id e) (pl_scope pl) (pl_planned pl) (occurrence_rows s)"
  shows "rematerialise I fam e now s = (Inr (Inr \<lparr>rm_window = materialisation_window now,
    rm_counts = \<lparr>rc_inserted = 0, rc_updated = 0, rc_deleted = 0\<rparr>, rm_count = length (pl_planned pl),
    rm_event = e\<lparr>ce_through := pl_through pl\<rparr>\<rparr>), s)"
proof -
  obtain existing where ex: "list_for_event fam (ce_id e) (pl_scope pl) s = (Inr existing, s)"
    by (simp add: list_for_event_def)
  show ?thesis
    by (simp add: rematerialise_def Let_def assms(3) ex settled_plan [OF assms(1,2) ex assms(4)] apply_plan_def
        record_materialised_through_def)
qed

end
