(* ===== verification/Calendar_Event_Facts.thy ===== *)
theory Calendar_Event_Facts
  imports Calendar_Facts Task_Store_Facts
begin

text \<open>
  What the event aggregate guarantees: its invariant, what an edit leaves alone, and that an
  event is read back from its row as it was written.
\<close>

section \<open>The aggregate\<close>

text \<open>The dates of an all-day event are those the \<open>DATE\<close> columns hold faithfully.\<close>

definition storable_timing :: "'a event_timing \<Rightarrow> bool" where
  "storable_timing t = (case t of Timed _ _ \<Rightarrow> True | AllDay a b \<Rightarrow> storable_date a \<and> storable_date b)"

definition ordered_timing :: "int event_timing \<Rightarrow> bool" where
  "ordered_timing t = (case t of Timed a b \<Rightarrow> a \<le> b | AllDay a b \<Rightarrow> to_epoch_day a \<le> to_epoch_day b)"

definition event_inv :: "calendar_event \<Rightarrow> bool" where
  "event_inv e \<longleftrightarrow>
     ce_title e \<noteq> [] \<and> pred_option valid_rule (ce_rule e) \<and> ordered_timing (ce_timing e)
     \<and> storable_timing (ce_timing e)"

definition storable_event_patch :: "event_patch \<Rightarrow> bool" where
  "storable_event_patch p \<longleftrightarrow>
     (case ep_timing p of None \<Rightarrow> True
      | Some tp \<Rightarrow> pred_option storable_date (tp_start_date tp) \<and> pred_option storable_date (tp_end_date tp))"

lemma validate_timing_ok:
  assumes "validate_timing t = Inr u"
  shows "ordered_timing u" "storable_timing t \<Longrightarrow> storable_timing u"
  using assms
  by (auto simp: validate_timing_def ordered_timing_def storable_timing_def compare_local_dates_def
      split: event_timing.splits option.splits if_splits)

lemma merge_timing_storable:
  assumes "merge_timing cur tp = Inr m" "storable_timing cur"
    "pred_option storable_date (tp_start_date tp)" "pred_option storable_date (tp_end_date tp)"
  shows "storable_timing m"
  using assms
  by (cases cur; cases "tp_start_date tp"; cases "tp_end_date tp")
    (auto simp: merge_timing_def Let_def storable_timing_def or_current_def current_dates_def current_instants_def
      split: option.splits if_splits)

lemma parse_event_rule_valid: "parse_event_rule v = Inr r \<Longrightarrow> pred_option valid_rule r"
  by (cases v) (auto simp: parse_event_rule_def map_result_def intro: rule_parse_valid split: sum.splits)

lemma event_create_inv:
  assumes "event_create I c now = Inr e" "storable_timing (ec_timing c)"
  shows "event_inv e" "ce_id e = ec_id c" "ce_family e = ec_family c" "ce_status e = EventConfirmed"
    "ce_participants e = unique (ec_participants c)" "ce_through e = None"
  using assms validate_timing_ok [of "ec_timing c"] parse_event_rule_valid [of "ec_rule c"]
  by (auto simp: event_create_def Let_def and_then_Inr event_inv_def split: if_splits)

lemma rule_text_eq:
  assumes "pred_option valid_rule a" "pred_option valid_rule b" "map_option rule_to_string a = map_option rule_to_string b"
  shows "a = b"
proof (cases a)
  case None
  with assms(3) show ?thesis by simp
next
  case (Some x)
  with assms(3) obtain y where y: "b = Some y" "rule_to_string y = rule_to_string x" by (cases b) auto
  have "rule_parse (rule_to_string x) = Inr x" "rule_parse (rule_to_string y) = Inr y"
    using assms(1,2) Some y(1) rule_text_parse by simp_all
  then have "(Inr x :: rrule outcome) = Inr y" unfolding y(2) by (rule trans [OF sym])
  then show ?thesis using Some y(1) by simp
qed

lemma epoch_day_eq: "storable_date a \<Longrightarrow> storable_date b \<Longrightarrow> to_epoch_day a = to_epoch_day b \<Longrightarrow> a = b"
  by (metis from_to_epoch_day storable_date_def)

lemma same_timing_eq:
  assumes "storable_timing a" "storable_timing b" "same_timing a b"
  shows "a = b"
  using assms
  by (cases a; cases b) (auto simp: same_timing_def storable_timing_def compare_local_dates_def intro: epoch_day_eq)

subsection \<open>Edits\<close>

text \<open>What holds after each field of a patch.\<close>

definition event_edited :: "calendar_event \<Rightarrow> event_edit \<Rightarrow> bool" where
  "event_edited e0 d \<longleftrightarrow>
     event_inv (fst d) \<and> ce_id (fst d) = ce_id e0 \<and> ce_family (fst d) = ce_family e0
     \<and> ce_status (fst d) = ce_status e0 \<and> ce_through (fst d) = ce_through e0
     \<and> ce_created_by (fst d) = ce_created_by e0 \<and> ce_created_at (fst d) = ce_created_at e0
     \<and> (TimingChanged \<notin> set (snd d) \<longrightarrow> ce_timing (fst d) = ce_timing e0 \<and> ce_zone (fst d) = ce_zone e0)
     \<and> (RecurrenceChanged \<notin> set (snd d) \<longrightarrow> ce_rule (fst d) = ce_rule e0)"

lemma set_mark [simp]: "set (mark b g cs) = (if b then insert g (set cs) else set cs)"
  by (simp add: mark_def)

lemma event_edited_details [simp]:
  "event_edited e0 (e\<lparr>ce_description := x\<rparr>, mark b DetailsChanged cs) = event_edited e0 (e, cs)"
  "event_edited e0 (e\<lparr>ce_location := x\<rparr>, mark b DetailsChanged cs) = event_edited e0 (e, cs)"
  "event_edited e0 (e\<lparr>ce_category := y\<rparr>, mark b DetailsChanged cs) = event_edited e0 (e, cs)"
  "event_edited e0 (e\<lparr>ce_refs := z\<rparr>, mark b DetailsChanged cs) = event_edited e0 (e, cs)"
  by (simp_all add: event_edited_def event_inv_def)

lemma edited_title: "event_edited e0 (e, cs) \<Longrightarrow> x \<noteq> [] \<Longrightarrow> event_edited e0 (e\<lparr>ce_title := x\<rparr>, mark b DetailsChanged cs)"
  by (simp add: event_edited_def event_inv_def)

lemma edited_zone: "event_edited e0 (e, cs) \<Longrightarrow> event_edited e0 (e\<lparr>ce_zone := z\<rparr>, mark (z \<noteq> ce_zone e) TimingChanged cs)"
  by (cases "z = ce_zone e") (simp_all add: event_edited_def event_inv_def)

lemma edit_steps:
  assumes "event_edited e0 d"
  shows "edit_event_title p d = Inr d' \<Longrightarrow> event_edited e0 d'" "event_edited e0 (edit_event_details p d)"
    "storable_event_patch p \<Longrightarrow> edit_timing p d = Inr d' \<Longrightarrow> event_edited e0 d'"
    "edit_zone I p d = Inr d' \<Longrightarrow> event_edited e0 d'" "edit_event_rule p d = Inr d' \<Longrightarrow> event_edited e0 d'"
proof -
  obtain e cs where d: "d = (e, cs)" by (cases d)
  show "edit_event_title p d = Inr d' \<Longrightarrow> event_edited e0 d'"
    using assms unfolding d edit_event_title_def
    by (cases "ep_title p") (auto simp: Let_def intro: edited_title split: if_splits)
  show "event_edited e0 (edit_event_details p d)"
    using assms unfolding d edit_event_details_def
    by (cases "ep_description p"; cases "ep_location p"; cases "ep_category p"; cases "ep_refs p") (simp_all add: Let_def)
  show "edit_zone I p d = Inr d' \<Longrightarrow> event_edited e0 d'"
    using assms unfolding d edit_zone_def
    by (cases "ep_zone p") (auto simp: validate_time_zone_def and_then_Inr intro: edited_zone split: if_splits)
  show "event_edited e0 d'" if ok: "storable_event_patch p" "edit_timing p d = Inr d'"
  proof (cases "ep_timing p")
    case (Some tp)
    then obtain m t where t: "merge_timing (ce_timing e) tp = Inr m" "validate_timing m = Inr t"
      "d' = (e\<lparr>ce_timing := t\<rparr>, mark (\<not> same_timing t (ce_timing e)) TimingChanged cs)"
      using ok(2) by (auto simp: d edit_timing_def and_then_Inr)
    have e: "event_inv e" using assms by (simp add: event_edited_def d)
    have "storable_timing m"
      using merge_timing_storable [OF t(1)] e ok(1) Some by (simp add: event_inv_def storable_event_patch_def)
    note v = validate_timing_ok [OF t(2)] this
    have "t = ce_timing e" if "same_timing t (ce_timing e)"
      using same_timing_eq [OF v(2) [OF v(3)] _ that] e by (simp add: event_inv_def)
    then show ?thesis using assms v by (auto simp: event_edited_def event_inv_def d t(3))
  qed (use assms ok in \<open>simp add: d edit_timing_def\<close>)
  show "event_edited e0 d'" if ok: "edit_event_rule p d = Inr d'"
  proof (cases "ep_rule p")
    case (Some v)
    then obtain r where r: "parse_event_rule v = Inr r" "d' = (e\<lparr>ce_rule := r\<rparr>,
        mark (map_option rule_to_string (ce_rule e) \<noteq> map_option rule_to_string r) RecurrenceChanged cs)"
      using ok by (auto simp: d edit_event_rule_def and_then_Inr)
    have "ce_rule e = r" if "map_option rule_to_string (ce_rule e) = map_option rule_to_string r"
      using rule_text_eq [OF _ parse_event_rule_valid [OF r(1)] that] assms by (simp add: event_edited_def event_inv_def d)
    then show ?thesis using assms parse_event_rule_valid [OF r(1)] by (auto simp: event_edited_def event_inv_def d r(2))
  qed (use assms ok in \<open>simp add: d edit_event_rule_def\<close>)
qed

lemma edited_participants: "event_edited e0 d \<Longrightarrow> event_edited e0 (edit_participants p d)"
  by (cases d; cases "ep_participants p") (simp_all add: edit_participants_def event_edited_def event_inv_def)

lemma event_edits_edited:
  assumes "event_inv e" "storable_event_patch p" "event_edits I p e = Inr d"
  shows "event_edited e d"
proof -
  from assms(3) obtain d1 d2 d3 d4 where steps: "edit_event_title p (e, []) = Inr d1"
    "edit_timing p (edit_event_details p d1) = Inr d2" "edit_zone I p d2 = Inr d3"
    "edit_event_rule p d3 = Inr d4" "d = edit_participants p d4"
    by (auto simp: event_edits_def and_then_Inr)
  have "event_edited e (e, [])" using assms(1) by (simp add: event_edited_def)
  note 1 = edit_steps(1) [OF this steps(1)]
  note 2 = edit_steps(3) [OF edit_steps(2) [OF 1] assms(2) steps(2)]
  note 3 = edit_steps(5) [OF edit_steps(4) [OF 2 steps(3)] steps(4)]
  show ?thesis unfolding steps(5) by (rule edited_participants [OF 3])
qed

text \<open>Of an accepted edit.\<close>

definition same_schedule :: "calendar_event \<Rightarrow> calendar_event \<Rightarrow> bool" where
  "same_schedule e e' \<longleftrightarrow>
     ce_id e' = ce_id e \<and> ce_timing e' = ce_timing e \<and> ce_zone e' = ce_zone e \<and> ce_rule e' = ce_rule e"

lemma event_update_inv:
  assumes "event_inv e" "storable_event_patch p" "event_update I e p now = (Inr u, e')"
  shows "event_inv e'" "ce_id e' = ce_id e" "ce_family e' = ce_family e" "ce_status e' = ce_status e"
    "ce_through e' = ce_through e" "ce_created_by e' = ce_created_by e" "ce_created_at e' = ce_created_at e"
    "uo_changed u = [] \<Longrightarrow> e' = e" "\<not> uo_reschedule u \<Longrightarrow> same_schedule e e'"
proof -
  obtain d cs where d: "event_edits I p e = Inr (d, cs)" "u = \<lparr>uo_changed = cs,
      uo_reschedule = (TimingChanged \<in> set cs \<or> RecurrenceChanged \<in> set cs)\<rparr>"
      "e' = (if cs = [] then e else d\<lparr>ce_updated_at := now\<rparr>)"
    using assms(3) by (auto simp: event_update_def split: sum.splits prod.splits)
  note ed = event_edits_edited [OF assms(1,2) d(1)]
  show "event_inv e'" "ce_id e' = ce_id e" "ce_family e' = ce_family e" "ce_status e' = ce_status e"
    "ce_through e' = ce_through e" "ce_created_by e' = ce_created_by e" "ce_created_at e' = ce_created_at e"
    "uo_changed u = [] \<Longrightarrow> e' = e"
    using ed assms(1) by (auto simp: d(2,3) event_edited_def event_inv_def)
  show "same_schedule e e'" if "\<not> uo_reschedule u"
    using ed that by (auto simp: d(2,3) event_edited_def same_schedule_def)
qed

lemma event_update_refused: "event_update I e p now = (Inl x, e') \<Longrightarrow> e' = e"
  by (auto simp: event_update_def split: sum.splits prod.splits)

lemma event_cancel_inv:
  assumes "event_cancel e now = (b, e')"
  shows "event_inv e' = event_inv e" "same_schedule e e'" "ce_through e' = ce_through e"
    "ce_family e' = ce_family e" "ce_status e' = EventCancelled" "b = (ce_status e \<noteq> EventCancelled)"
  using assms by (auto simp: event_cancel_def event_inv_def same_schedule_def split: if_splits)

lemma plan_same_schedule:
  assumes "same_schedule e e'"
  shows "plan_occurrences I e' w = plan_occurrences I e w"
proof -
  have f: "ce_timing e' = ce_timing e" "ce_zone e' = ce_zone e" "ce_rule e' = ce_rule e"
    using assms by (simp_all add: same_schedule_def)
  have "series_input I e' r w = series_input I e r w" "planned_of I e' = planned_of I e" "one_off I e' = one_off I e" for r :: rrule
    unfolding series_input_def series_start_def planned_of_def one_off_def fun_eq_iff f by simp_all
  then show ?thesis by (simp only: plan_occurrences_def f)
qed

section \<open>Rows\<close>

lemma db_date_same: "local_date_to_db_date = local_date_to_db" "db_date_to_local_date = db_to_local_date"
  by (simp_all add: fun_eq_iff local_date_to_db_date_def local_date_to_db_def db_date_to_local_date_def db_to_local_date_def)

lemma event_columns_sel [simp]:
  "er_id (event_columns e r) = er_id r" "er_family (event_columns e r) = er_family r"
  "er_created_by (event_columns e r) = er_created_by r" "er_created_at (event_columns e r) = er_created_at r"
  "er_through (event_columns e r) = ce_through e" "er_status (event_columns e r) = ce_status e"
  "er_zone (event_columns e r) = ce_zone e" "er_rule (event_columns e r) = map_option rule_to_string (ce_rule e)"
  "er_kind (event_columns e r) = kind_of (ce_timing e)" "er_title (event_columns e r) = ce_title e"
  by (simp_all add: event_columns_def)

lemma event_columns_load:
  assumes "event_inv e"
  shows "to_event (event_columns e r) ms = Inr (e\<lparr>ce_id := er_id r, ce_family := er_family r,
    ce_participants := ms, ce_created_by := er_created_by r, ce_created_at := er_created_at r\<rparr>)"
proof -
  have "stored_rule (event_columns e r) = Inr (ce_rule e)"
    using assms by (cases "ce_rule e") (simp_all add: stored_rule_def event_inv_def rule_text_parse)
  moreover have "to_timing (event_columns e r) = Inr (ce_timing e)"
    using assms by (cases "ce_timing e")
      (simp_all add: to_timing_def event_columns_def kind_of_def event_inv_def storable_timing_def db_date_same db_date_roundtrip)
  ultimately show ?thesis by (simp add: to_event_def) (simp add: event_columns_def)
qed

lemma new_event_row_sel [simp]:
  "er_id (new_event_row fam e) = ce_id e" "er_family (new_event_row fam e) = fam"
  "er_created_by (new_event_row fam e) = ce_created_by e" "er_created_at (new_event_row fam e) = ce_created_at e"
  by (simp_all add: new_event_row_def)

lemma new_event_row_load:
  assumes "event_inv e"
  shows "to_event (new_event_row fam e) ms = Inr (e\<lparr>ce_family := fam, ce_participants := ms\<rparr>)"
  using event_columns_load [OF assms] by (simp add: new_event_row_def)

text \<open>The participants are no column: the row is the event up to them.\<close>

lemma to_event_participants:
  "to_event r ms = Inr e \<Longrightarrow> to_event r ns = Inr (e\<lparr>ce_participants := ns\<rparr>) \<and> ce_participants e = ms"
  by (auto simp: to_event_def split: sum.splits)

lemma to_event_sel:
  "to_event r ms = Inr e \<Longrightarrow> ce_id e = er_id r \<and> ce_family e = er_family r \<and> ce_through e = er_through r
     \<and> ce_status e = er_status r \<and> ce_created_by e = er_created_by r \<and> ce_created_at e = er_created_at r
     \<and> (ce_rule e = None \<longleftrightarrow> er_rule r = None)"
  by (auto simp: to_event_def stored_rule_def split: sum.splits option.splits)

end
