(* ===== verification/Calendar_Store_Facts.thy ===== *)
theory Calendar_Store_Facts
  imports Calendar_Event_Facts
begin

text \<open>
  What the Calendar tables hold: an event and the occurrences its rule plans (\<open>materialised\<close>), the
  invariant \<open>calendar_ok\<close> of the tables, and what each repository write does to it.
\<close>

section \<open>An event and its occurrences\<close>

text \<open>The start and end of each occurrence an event has.\<close>

definition spans :: "calendar_store \<Rightarrow> event_id \<Rightarrow> (int \<times> int) set" where
  "spans s i = (\<lambda>x. (ow_starts x, ow_ends x)) ` {x \<in> set (occurrence_rows s). ow_event x = i}"

definition in_scope :: "int option \<Rightarrow> int \<Rightarrow> bool" where
  "in_scope scope t \<longleftrightarrow> (case scope of None \<Rightarrow> True | Some from \<Rightarrow> from \<le> t)"

text \<open>
  The event was rebuilt at some moment: its occurrences in the scope of that rebuild are planned
  ones, and each planned one is there, unless it starts before the trailing edge of today's window.
\<close>

definition materialised :: "intl \<Rightarrow> calendar_store \<Rightarrow> calendar_event \<Rightarrow> bool" where
  "materialised I s e \<longleftrightarrow>
     (\<exists>at pl. at \<le> cs_now s \<and> plan_occurrences I e (materialisation_window at) = Inr pl
       \<and> ce_through e = pl_through pl
       \<and> (\<forall>t b. (t, b) \<in> spans s (ce_id e) \<longrightarrow> in_scope (pl_scope pl) t \<longrightarrow> planned_end (pl_planned pl) t = Some b)
       \<and> (\<forall>t b. planned_end (pl_planned pl) t = Some b \<longrightarrow>
            pl_scope pl = None \<or> fst (materialisation_window (cs_now s)) \<le> t \<longrightarrow> (t, b) \<in> spans s (ce_id e)))"

lemma plan_scope: "plan_occurrences I e w = Inr pl \<Longrightarrow> pl_scope pl = (if ce_rule e = None then None else Some (fst w))"
  by (auto simp: plan_occurrences_def and_then_Inr split: option.splits)

lemma window_mono: "a \<le> b \<Longrightarrow> fst (materialisation_window a) \<le> fst (materialisation_window b)"
  by (simp add: materialisation_window_def)

text \<open>Time passes and rows behind the trailing edge of a series go.\<close>

lemma materialised_mono:
  assumes "materialised I s e" "same_schedule e e'" "ce_through e' = ce_through e" "cs_now s \<le> cs_now s'"
    and "spans s' (ce_id e) \<subseteq> spans s (ce_id e)"
    and "\<And>t b. (t, b) \<in> spans s (ce_id e) \<Longrightarrow> (t, b) \<notin> spans s' (ce_id e) \<Longrightarrow>
      ce_rule e \<noteq> None \<and> t < fst (materialisation_window (cs_now s'))"
  shows "materialised I s' e'"
proof -
  from assms(1) obtain at pl where m: "at \<le> cs_now s" "plan_occurrences I e (materialisation_window at) = Inr pl"
    "ce_through e = pl_through pl"
    "\<And>t b. (t, b) \<in> spans s (ce_id e) \<Longrightarrow> in_scope (pl_scope pl) t \<Longrightarrow> planned_end (pl_planned pl) t = Some b"
    "\<And>t b. planned_end (pl_planned pl) t = Some b \<Longrightarrow>
       pl_scope pl = None \<or> fst (materialisation_window (cs_now s)) \<le> t \<Longrightarrow> (t, b) \<in> spans s (ce_id e)"
    unfolding materialised_def by blast
  have i: "ce_id e' = ce_id e" using assms(2) by (simp add: same_schedule_def)
  have there: "(t, b) \<in> spans s' (ce_id e)"
    if p: "planned_end (pl_planned pl) t = Some b" "pl_scope pl = None \<or> fst (materialisation_window (cs_now s')) \<le> t" for t b
  proof (rule ccontr)
    assume n: "(t, b) \<notin> spans s' (ce_id e)"
    have "(t, b) \<in> spans s (ce_id e)" using m(5) [OF p(1)] p(2) window_mono [OF assms(4)] by auto
    with assms(6) n have "ce_rule e \<noteq> None" "t < fst (materialisation_window (cs_now s'))" by blast+
    with p(2) plan_scope [OF m(2)] show False by simp
  qed
  show ?thesis
    unfolding materialised_def i plan_same_schedule [OF assms(2)] assms(3)
  proof (intro exI [of _ at] exI [of _ pl] conjI allI impI)
    show "at \<le> cs_now s'" using m(1) assms(4) by simp
    show "planned_end (pl_planned pl) t = Some b" if "(t, b) \<in> spans s' (ce_id e)" "in_scope (pl_scope pl) t" for t b
      using m(4) subsetD [OF assms(5) that(1)] that(2) .
    show "(t, b) \<in> spans s' (ce_id e)" if "planned_end (pl_planned pl) t = Some b"
      "pl_scope pl = None \<or> fst (materialisation_window (cs_now s')) \<le> t" for t b
      using there [OF that] .
  qed (rule m(2), rule m(3))
qed

lemma materialised_same:
  "materialised I s e \<Longrightarrow> spans s' (ce_id e) = spans s (ce_id e) \<Longrightarrow> cs_now s' = cs_now s \<Longrightarrow> materialised I s' e"
  by (rule materialised_mono [of I s e]) (simp_all add: same_schedule_def)

lemma rebuilt_materialised:
  assumes "plan_occurrences I e (materialisation_window (cs_now s)) = Inr pl" "ce_through e = pl_through pl"
    and "settled (ce_id e) (pl_scope pl) (pl_planned pl) (occurrence_rows s)"
  shows "materialised I s e"
proof -
  have m: "mine (ce_id e) (pl_scope pl) x \<longleftrightarrow> ow_event x = ce_id e \<and> in_scope (pl_scope pl) (ow_starts x)" for x
    by (simp add: mine_def in_scope_def)
  have "(\<exists>x \<in> set (occurrence_rows s). mine (ce_id e) (pl_scope pl) x \<and> ow_starts x = t \<and> ow_ends x = b) \<longleftrightarrow>
      (t, b) \<in> spans s (ce_id e) \<and> in_scope (pl_scope pl) t" for t b
    unfolding m by (auto simp: spans_def)
  with assms(3) have "(t, b) \<in> spans s (ce_id e) \<and> in_scope (pl_scope pl) t \<longleftrightarrow> planned_end (pl_planned pl) t = Some b" for t b
    by (simp add: settled_def)
  then show ?thesis unfolding materialised_def using assms(1,2)
    by (intro exI [of _ "cs_now s"] exI [of _ pl]) blast
qed

section \<open>The invariant\<close>

text \<open>The rows of the events other than those in \<open>X\<close>.\<close>

definition events_ok :: "intl \<Rightarrow> calendar_store \<Rightarrow> event_id set \<Rightarrow> bool" where
  "events_ok I s X \<longleftrightarrow>
     (\<forall>r \<in> set (event_rows s). er_id r \<notin> X \<longrightarrow>
        (\<exists>e. to_event r [] = Inr e \<and> event_inv e \<and> materialised I s e))"

definition calendar_ok :: "intl \<Rightarrow> calendar_store \<Rightarrow> bool" where
  "calendar_ok I s \<longleftrightarrow> calendar_db s \<and> events_ok I s {}"

lemma events_ok_weaken: "events_ok I s {} \<Longrightarrow> events_ok I s X"
  by (auto simp: events_ok_def)

lemma spans_rows [simp]:
  "spans (s\<lparr>event_rows := er\<rparr>) = spans s" "spans (s\<lparr>participant_rows := pr\<rparr>) = spans s"
  "spans (s\<lparr>cs_outbox := ob\<rparr>) = spans s" "spans (s\<lparr>cs_audit := au\<rparr>) = spans s"
  "spans (s\<lparr>cs_now := t\<rparr>) = spans s" "spans (s\<lparr>cs_members := ms\<rparr>) = spans s" "spans (s\<lparr>cs_families := fs\<rparr>) = spans s"
  by (simp_all add: spans_def fun_eq_iff)

lemma materialised_logs [simp]:
  "materialised I (s\<lparr>event_rows := er\<rparr>) e = materialised I s e"
  "materialised I (s\<lparr>participant_rows := pr\<rparr>) e = materialised I s e"
  "materialised I (s\<lparr>cs_outbox := ob\<rparr>) e = materialised I s e"
  "materialised I (s\<lparr>cs_audit := au\<rparr>) e = materialised I s e"
  "materialised I (s\<lparr>cs_members := ms\<rparr>) e = materialised I s e"
  "materialised I (s\<lparr>cs_families := fs\<rparr>) e = materialised I s e"
  by (simp_all add: materialised_def)

lemma calendar_db_logs [simp]:
  "calendar_db (s\<lparr>cs_outbox := ob\<rparr>) = calendar_db s" "calendar_db (s\<lparr>cs_audit := au\<rparr>) = calendar_db s"
  "calendar_db (s\<lparr>cs_now := t\<rparr>) = calendar_db s"
  by (simp_all add: calendar_db_def calendar_refs_def event_refs_def supply_ok_def)

lemma events_ok_logs [simp]:
  "events_ok I (s\<lparr>cs_outbox := ob\<rparr>) X = events_ok I s X" "events_ok I (s\<lparr>cs_audit := au\<rparr>) X = events_ok I s X"
  "events_ok I (s\<lparr>participant_rows := pr\<rparr>) X = events_ok I s X"
  by (simp_all add: events_ok_def)

lemma calendar_ok_logs [simp]:
  "calendar_ok I (s\<lparr>cs_outbox := ob\<rparr>) = calendar_ok I s" "calendar_ok I (s\<lparr>cs_audit := au\<rparr>) = calendar_ok I s"
  by (simp_all add: calendar_ok_def)

section \<open>Finding an event\<close>

text \<open>The event a row holds, with its participants.\<close>

definition stored_event :: "calendar_store \<Rightarrow> calendar_event \<Rightarrow> bool" where
  "stored_event s e \<longleftrightarrow>
     (\<exists>r \<in> set (event_rows s). to_event r (map pa_member (participants_of (er_family r) (er_id r) s)) = Inr e)"

lemma stored_event_ref: "stored_event s e \<Longrightarrow> (ce_id e, ce_family e) \<in> event_refs s"
  unfolding stored_event_def event_refs_def using to_event_sel by (fastforce simp: image_iff)

lemma stored_event_ok:
  assumes "calendar_ok I s" "stored_event s e"
  shows "event_inv e" "materialised I s e"
proof -
  from assms(2) obtain r ms where r: "r \<in> set (event_rows s)" "to_event r ms = Inr e"
    unfolding stored_event_def by blast
  from r(1) assms(1) obtain e0 where e0: "to_event r [] = Inr e0" "event_inv e0" "materialised I s e0"
    by (auto simp: calendar_ok_def events_ok_def)
  have e: "e = e0\<lparr>ce_participants := ms\<rparr>" using to_event_participants [OF e0(1), of ms] r(2) by simp
  show "event_inv e" using e0(2) by (simp add: e event_inv_def)
  show "materialised I s e"
    by (rule materialised_mono [OF e0(3)]) (simp_all add: e same_schedule_def)
qed

lemma stored_event_unique:
  assumes "calendar_db s" "stored_event s e" "stored_event s e'" "ce_id e = ce_id e'"
  shows "e = e'"
proof -
  from assms(2,3) obtain r r' where r: "r \<in> set (event_rows s)" "r' \<in> set (event_rows s)"
    "to_event r (map pa_member (participants_of (er_family r) (er_id r) s)) = Inr e"
    "to_event r' (map pa_member (participants_of (er_family r') (er_id r') s)) = Inr e'"
    unfolding stored_event_def by blast
  then have "er_id r = er_id r'" using to_event_sel [OF r(3)] to_event_sel [OF r(4)] assms(4) by simp
  then have "r = r'" by (rule event_table.sound_key [OF calendar_dbD(1) [OF assms(1)] r(1,2)])
  with r(3,4) show ?thesis by simp
qed

lemma lock_event_cases:
  assumes "calendar_ok I s"
  obtains (none) "lock_event fam i s = (Inr None, s)" "find_event fam i s = (Inr None, s)" "(i, fam) \<notin> event_refs s"
  | (some) e where "lock_event fam i s = (Inr (Some e), s)" "find_event fam i s = (Inr (Some e), s)"
      "stored_event s e" "ce_id e = i" "ce_family e = fam"
proof (cases "scoped_event fam i s")
  case None
  then have "(i, fam) \<notin> event_refs s"
    by (auto simp: scoped_event_def tbl_find_None event_refs_def)
  then show thesis using None by (intro none) (simp_all add: lock_event_def find_event_def)
next
  case (Some r)
  then have r: "r \<in> set (event_rows s)" "er_id r = i" "er_family r = fam"
    by (auto simp: scoped_event_def dest: tbl_find_Some)
  from r(1) assms obtain e0 where e0: "to_event r [] = Inr e0" by (auto simp: calendar_ok_def events_ok_def)
  let ?ms = "map pa_member (participants_of fam i s)"
  let ?e = "e0\<lparr>ce_participants := ?ms\<rparr>"
  have e: "to_event r ?ms = Inr ?e" using to_event_participants [OF e0, of ?ms] by simp
  have "lock_event fam i s = (Inr (Some ?e), s)" "find_event fam i s = (Inr (Some ?e), s)"
    using Some e by (simp_all add: lock_event_def find_event_def)
  moreover have "stored_event s ?e" unfolding stored_event_def using r e by (intro bexI [of _ r]) simp_all
  moreover have "ce_id ?e = i" "ce_family ?e = fam" using to_event_sel [OF e0] r by simp_all
  ultimately show thesis by (rule some)
qed

text \<open>An event found twice is the same one.\<close>

lemma lock_event_stored:
  assumes "calendar_ok I s" "stored_event s e"
  shows "lock_event (ce_family e) (ce_id e) s = (Inr (Some e), s)" "find_event (ce_family e) (ce_id e) s = (Inr (Some e), s)"
proof -
  have db: "calendar_db s" using assms(1) by (simp add: calendar_ok_def)
  from assms(1) show "lock_event (ce_family e) (ce_id e) s = (Inr (Some e), s)"
    "find_event (ce_family e) (ce_id e) s = (Inr (Some e), s)"
    by (cases rule: lock_event_cases [where fam = "ce_family e" and i = "ce_id e"];
        use stored_event_ref [OF assms(2)] stored_event_unique [OF db assms(2)] in fastforce)+
qed

section \<open>The audit log\<close>

definition noted :: "audit_entry list \<Rightarrow> calendar_store \<Rightarrow> calendar_store" where
  "noted es s = s\<lparr>cs_audit := cs_audit s @ es\<rparr>"

lemma audit_noted:
  "audit_child_participation rd i ms view res s = (Inr (), noted (map (participation_audit rd i view res) ms) s)"
  unfolding audit_child_participation_def noted_def
proof (induction ms arbitrary: s)
  case (Cons m ms)
  then show ?case by (simp add: cs_record_def)
qed simp

lemma noted_simps [simp]:
  "noted [] s = s" "noted ys (noted xs s) = noted (xs @ ys) s" "calendar_ok I (noted xs s) = calendar_ok I s"
  "event_rows (noted xs s) = event_rows s" "occurrence_rows (noted xs s) = occurrence_rows s"
  "participant_rows (noted xs s) = participant_rows s" "cs_outbox (noted xs s) = cs_outbox s" "cs_now (noted xs s) = cs_now s"
  by (simp_all add: noted_def)

lemma visible_event_cases:
  assumes "calendar_ok I s"
  obtains (missing) "lock_visible_event rd v i s = (Inr (Inl NotFound), s)" "(i, rd_family rd) \<notin> event_refs s"
  | (hidden) e where "stored_event s e" "ce_id e = i" "ce_family e = rd_family rd"
      "hidden_participants (ce_participants e) v \<noteq> []"
      "lock_visible_event rd v i s = (Inr (Inl NotFound),
         noted (map (participation_audit rd i ''event change'' Denied) (hidden_participants (ce_participants e) v)) s)"
  | (visible) e where "stored_event s e" "ce_id e = i" "ce_family e = rd_family rd"
      "hidden_participants (ce_participants e) v = []" "lock_visible_event rd v i s = (Inr (Inr e), s)"
  using assms
proof (cases rule: lock_event_cases [where fam = "rd_family rd" and i = i])
  case none
  then show thesis by (intro missing) (simp_all add: lock_visible_event_def)
next
  case (some e)
  show thesis
  proof (cases "hidden_participants (ce_participants e) v = []")
    case True
    with some show thesis by (intro visible [of e]) (simp_all add: lock_visible_event_def)
  next
    case False
    with some show thesis by (intro hidden [of e]) (simp_all add: lock_visible_event_def audit_noted)
  qed
qed

section \<open>What each write does\<close>

lemma saved_event:
  assumes db: "calendar_db s" and inv: "event_inv e" and run: "save_event fam e s = (Inr (), s')"
  obtains rows where "s' = s\<lparr>event_rows := rows\<rparr>" "calendar_db s'" "event_refs s' = insert (ce_id e, fam) (event_refs s)"
    "\<And>r. r \<in> set rows \<Longrightarrow> er_id r \<noteq> ce_id e \<Longrightarrow> r \<in> set (event_rows s)"
    "\<And>r. r \<in> set rows \<Longrightarrow> er_id r = ce_id e \<Longrightarrow> er_family r = fam
       \<and> (\<exists>by_m at. to_event r [] = Inr (e\<lparr>ce_family := fam, ce_participants := [], ce_created_by := by_m, ce_created_at := at\<rparr>))"
proof -
  from run obtain rows where up: "upsert er_id (\<lambda>r. er_family r = fam) event_checks (\<lambda>_ _. False)
         (\<lambda>r. er_family r \<in> set (cs_families s)) (new_event_row fam e) (event_columns e) (event_rows s) = Inr rows"
    and s': "s' = s\<lparr>event_rows := rows\<rparr>"
    by (auto simp: save_event_def split: sum.splits)
  note refs = calendar_dbD(4) [OF db]
  have key: "er_id (event_columns e r) = er_id r" for r by simp
  have "event_table.sound rows \<and> (\<lambda>r. (er_id r, er_family r)) ` set rows = insert (ce_id e, fam) (event_refs s)
      \<and> er_family ` set rows \<subseteq> set (cs_families s)
      \<and> (\<forall>r \<in> set rows. if er_id r = ce_id e then er_family r = fam
       \<and> (\<exists>by_m at. to_event r [] = Inr (e\<lparr>ce_family := fam, ce_participants := [], ce_created_by := by_m, ce_created_at := at\<rparr>))
         else r \<in> set (event_rows s))"
    using calendar_dbD(1) [OF db] up key
  proof (cases rule: event_table.upsert_cases)
    case inserted
    have "to_event (new_event_row fam e) [] = Inr (e\<lparr>ce_family := fam, ce_participants := [],
        ce_created_by := ce_created_by e, ce_created_at := ce_created_at e\<rparr>)"
      by (simp add: new_event_row_load [OF inv])
    then have n: "\<exists>by_m at. to_event (new_event_row fam e) [] = Inr (e\<lparr>ce_family := fam, ce_participants := [],
        ce_created_by := by_m, ce_created_at := at\<rparr>)" by blast
    have ne: "er_id r \<noteq> ce_id e" if "r \<in> set (event_rows s)" for r using inserted(1) that by simp
    have "er_family ` set (event_rows s) \<subseteq> set (cs_families s)" using refs by (simp add: calendar_refs_def)
    with inserted(3,5) n ne show ?thesis unfolding inserted(2) event_refs_def by simp
  next
    case (updated r)
    have id: "er_id r = ce_id e" "er_family r = fam" using updated by simp_all
    have l: "to_event (event_columns e r) [] = Inr (e\<lparr>ce_family := fam, ce_participants := [],
        ce_created_by := er_created_by r, ce_created_at := er_created_at r\<rparr>)"
      by (simp add: event_columns_load [OF inv] id)
    have u: "er_id x \<noteq> ce_id e" if "x \<in> set (event_rows s) - {r}" for x
      using event_table.sound_key [OF calendar_dbD(1) [OF db], of x r] that updated(1) id(1) by auto
    have refs_eq: "(\<lambda>r. (er_id r, er_family r)) ` set rows = insert (ce_id e, fam) (event_refs s)"
      unfolding updated(4) event_refs_def using updated(1) id by (auto simp: image_iff)
    moreover have "er_family ` set rows \<subseteq> set (cs_families s)"
      unfolding updated(4) using updated(5) refs by (auto simp: calendar_refs_def)
    ultimately show ?thesis using updated(6) l u id unfolding updated(4) by auto
  qed
  then have rows: "event_table.sound rows" "(\<lambda>r. (er_id r, er_family r)) ` set rows = insert (ce_id e, fam) (event_refs s)"
    "er_family ` set rows \<subseteq> set (cs_families s)"
    "\<And>r. r \<in> set rows \<Longrightarrow> er_id r \<noteq> ce_id e \<Longrightarrow> r \<in> set (event_rows s)"
    "\<And>r. r \<in> set rows \<Longrightarrow> er_id r = ce_id e \<Longrightarrow> er_family r = fam
       \<and> (\<exists>by_m at. to_event r [] = Inr (e\<lparr>ce_family := fam, ce_participants := [], ce_created_by := by_m, ce_created_at := at\<rparr>))"
    by (auto split: if_splits)
  have er: "event_refs s' = insert (ce_id e, fam) (event_refs s)" using rows(2) by (simp add: event_refs_def s')
  have "calendar_refs s'" using refs rows(3) by (auto simp: calendar_refs_def er) (auto simp: s')
  then have "calendar_db s'" using db rows(1) by (simp add: calendar_db_def supply_ok_def s')
  from that [OF s' this er rows(4,5)] show thesis by blast
qed

lemma saved_events_ok:
  assumes "calendar_db s" "event_inv e" "save_event fam e s = (Inr (), s')" "events_ok I s {ce_id e}"
  shows "events_ok I s' {ce_id e}" "materialised I s e \<Longrightarrow> events_ok I s' {}"
proof -
  obtain rows where rows: "s' = s\<lparr>event_rows := rows\<rparr>"
    "\<And>r. r \<in> set rows \<Longrightarrow> er_id r \<noteq> ce_id e \<Longrightarrow> r \<in> set (event_rows s)"
    "\<And>r. r \<in> set rows \<Longrightarrow> er_id r = ce_id e \<Longrightarrow> er_family r = fam
       \<and> (\<exists>by_m at. to_event r [] = Inr (e\<lparr>ce_family := fam, ce_participants := [], ce_created_by := by_m, ce_created_at := at\<rparr>))"
    using assms(1-3) by (rule saved_event) blast
  show other: "events_ok I s' {ce_id e}"
    unfolding events_ok_def
  proof (intro ballI impI)
    fix r assume r: "r \<in> set (event_rows s')" "er_id r \<notin> {ce_id e}"
    then have "r \<in> set (event_rows s)" using rows(1,2) by simp
    then show "\<exists>e. to_event r [] = Inr e \<and> event_inv e \<and> materialised I s' e"
      using assms(4) r(2) by (simp add: events_ok_def rows(1))
  qed
  show "events_ok I s' {}" if m: "materialised I s e"
    unfolding events_ok_def
  proof (intro ballI impI)
    fix r assume r: "r \<in> set (event_rows s')"
    show "\<exists>e. to_event r [] = Inr e \<and> event_inv e \<and> materialised I s' e"
    proof (cases "er_id r = ce_id e")
      case True
      then obtain b a where l: "to_event r [] = Inr (e\<lparr>ce_family := fam, ce_participants := [], ce_created_by := b, ce_created_at := a\<rparr>)"
        (is "_ = Inr ?e") using rows(1,3) r by force
      have "materialised I s' ?e" unfolding rows(1) materialised_logs
        by (rule materialised_mono [OF m]) (simp_all add: same_schedule_def)
      moreover have "event_inv ?e" using assms(2) by (simp add: event_inv_def)
      ultimately show ?thesis using l by blast
    qed (use other r in \<open>simp add: events_ok_def\<close>)
  qed
qed

lemma add_skipping_distinct:
  assumes "\<And>a b. clash a b \<longleftrightarrow> key a = key b" "distinct (map key rows)"
  shows "distinct (map key (add_skipping clash new rows))"
  using assms(2)
proof (induction new arbitrary: rows)
  case (Cons a new)
  have "distinct (map key (if list_ex (clash a) rows then rows else rows @ [a]))"
    using Cons.prems by (auto simp: assms(1) list_ex_iff image_iff)
  from Cons.IH [OF this] show ?case by simp
qed simp

lemma replaced_participants:
  assumes db: "calendar_db s" and run: "replace_participants fam i ms s = (Inr (), s')"
  obtains rows where "s' = s\<lparr>participant_rows := rows\<rparr>" "calendar_db s'"
proof -
  define kept where "kept = tbl_delete (\<lambda>p. pa_event p = i \<and> pa_family p = fam \<and> pa_member p \<notin> set ms) (participant_rows s)"
  define rows where "rows = add_skipping (\<lambda>a b. participant_key a = participant_key b)
      (map (\<lambda>m. \<lparr>pa_event = i, pa_family = fam, pa_member = m, pa_added = cs_now s\<rparr>) ms) kept"
  have d: "distinct (map participant_key kept)"
    using calendar_dbD(3) [OF db] by (simp add: kept_def distinct_key_delete)
  have refs: "\<forall>p \<in> set kept. (pa_event p, pa_family p) \<in> event_refs s \<and> (pa_member p, pa_family p) \<in> set (cs_members s)"
    using calendar_dbD(4) [OF db] by (simp add: kept_def calendar_refs_def)
  obtain more where more: "rows = kept @ more" using add_skipping_prefix unfolding rows_def by blast
  define rows' where "rows' = (if ms = [] then kept else rows)"
  have s': "s' = s\<lparr>participant_rows := rows'\<rparr>"
    and ok: "\<forall>p \<in> set rows'. (pa_event p, pa_family p) \<in> event_refs s \<and> (pa_member p, pa_family p) \<in> set (cs_members s)"
    using run refs unfolding replace_participants_def Let_def kept_def [symmetric] rows_def [symmetric] rows'_def
    by (auto simp: more list_all_iff split: if_splits)
  have "distinct (map participant_key rows')"
    using d add_skipping_distinct [of _ participant_key kept] by (simp add: rows'_def rows_def)
  then have "calendar_db s'"
    using db ok by (simp add: calendar_db_def calendar_refs_def event_refs_def supply_ok_def s')
  with s' show thesis by (rule that)
qed

lemma rebuilt_spans_other:
  assumes "rebuilt i fam scope ps (occurrence_rows s) rows" "j \<noteq> i"
  shows "spans (s\<lparr>occurrence_rows := rows, cs_used := n\<rparr>) j = spans s j"
proof -
  have "x \<in> set rows \<longleftrightarrow> x \<in> set (occurrence_rows s)" if "ow_event x = j" for x
    using assms that by (simp add: rebuilt_def mine_def)
  then have "{x \<in> set rows. ow_event x = j} = {x \<in> set (occurrence_rows s). ow_event x = j}" by blast
  then show ?thesis by (simp add: spans_def)
qed

text \<open>
  An occurrence that survives a change keeps its id and its cancellation: they belong to the pair
  of the event and the start.
\<close>

definition identities_kept :: "occurrence_row list \<Rightarrow> occurrence_row list \<Rightarrow> bool" where
  "identities_kept rows rows' \<longleftrightarrow>
     (\<forall>x \<in> set rows. \<forall>y \<in> set rows'. occurrence_key y = occurrence_key x \<longrightarrow>
        ow_id y = ow_id x \<and> ow_cancelled y = ow_cancelled x)"

lemma identities_keptD:
  "identities_kept rows rows' \<Longrightarrow> x \<in> set rows \<Longrightarrow> y \<in> set rows' \<Longrightarrow> occurrence_key y = occurrence_key x \<Longrightarrow>
     ow_id y = ow_id x \<and> ow_cancelled y = ow_cancelled x"
  by (simp add: identities_kept_def)

lemma identities_subset:
  "identities_kept rows rows' \<Longrightarrow> set rows'' \<subseteq> set rows' \<Longrightarrow> identities_kept rows rows''"
  unfolding identities_kept_def by blast

lemma identities_refl: "calendar_db s \<Longrightarrow> identities_kept (occurrence_rows s) (occurrence_rows s)"
  using occurrence_key_unique by (auto simp: identities_kept_def occurrence_key_def)

lemma rebuilt_identities:
  assumes db: "calendar_db s" and rb: "rebuilt i fam scope ps (occurrence_rows s) rows"
  shows "identities_kept (occurrence_rows s) rows"
  unfolding identities_kept_def
proof (intro ballI impI)
  fix x y assume x: "x \<in> set (occurrence_rows s)" and y: "y \<in> set rows" and key: "occurrence_key y = occurrence_key x"
  then have k: "ow_event y = ow_event x" "ow_starts y = ow_starts x" by (simp_all add: occurrence_key_def)
  note m = mine_cong [OF k, of i scope]
  note u = occurrence_key_unique [OF db]
  show "ow_id y = ow_id x \<and> ow_cancelled y = ow_cancelled x"
  proof (cases "mine i scope y")
    case False
    with rb y have "y \<in> set (occurrence_rows s)" by (simp add: rebuilt_def)
    from u [OF this x k] show ?thesis by simp
  next
    case True
    with rb y m x k obtain r b where r: "r \<in> set (occurrence_rows s)" "y = r\<lparr>ow_ends := b\<rparr>"
      unfolding rebuilt_def by metis
    with u [OF r(1) x] k have "r = x" by simp
    with r(2) show ?thesis by simp
  qed
qed

lemma rematerialise_ok:
  assumes db: "calendar_db s" and inv: "event_inv e" and ref: "(ce_id e, fam) \<in> event_refs s"
    and ok: "events_ok I s {ce_id e}" and run: "rematerialise I fam e (cs_now s) s = (Inr (Inr m), s')"
  shows "calendar_db s'" "events_ok I s' {ce_id e}" "materialised I s' (rm_event m)" "event_inv (rm_event m)"
    "\<exists>t. rm_event m = e\<lparr>ce_through := t\<rparr>" "event_refs s' = event_refs s" "cs_now s' = cs_now s"
    "rm_window m = materialisation_window (cs_now s)"
    "\<exists>rows n. s' = s\<lparr>occurrence_rows := rows, cs_used := n\<rparr>"
    "identities_kept (occurrence_rows s) (occurrence_rows s')"
proof -
  have "calendar_db s' \<and> events_ok I s' {ce_id e} \<and> materialised I s' (rm_event m) \<and> event_inv (rm_event m)
    \<and> (\<exists>t. rm_event m = e\<lparr>ce_through := t\<rparr>) \<and> event_refs s' = event_refs s \<and> cs_now s' = cs_now s
    \<and> rm_window m = materialisation_window (cs_now s) \<and> (\<exists>rows n. s' = s\<lparr>occurrence_rows := rows, cs_used := n\<rparr>)
    \<and> identities_kept (occurrence_rows s) (occurrence_rows s')"
    using db ref
  proof (cases rule: rematerialise_cases [where I = I and now = "cs_now s"])
    case (rebuilt pl m' rows n)
    then have s': "s' = s\<lparr>occurrence_rows := rows, cs_used := n\<rparr>" and m: "m = m'" using run by simp_all
    have "settled (ce_id (rm_event m)) (pl_scope pl) (pl_planned pl) (occurrence_rows s')"
      using rebuilt_settled [OF rebuilt(6)] by (simp add: m rebuilt(3) s')
    moreover have "plan_occurrences I (rm_event m) (materialisation_window (cs_now s')) = Inr pl"
      using rebuilt(1) plan_same_schedule [of e "rm_event m" I] by (simp add: m rebuilt(3) s' same_schedule_def)
    ultimately have mat: "materialised I s' (rm_event m)"
      by (intro rebuilt_materialised) (simp_all add: m rebuilt(3))
    have "events_ok I s' {ce_id e}"
      unfolding events_ok_def
    proof (intro ballI impI)
      fix r assume r: "r \<in> set (event_rows s')" "er_id r \<notin> {ce_id e}"
      with ok obtain e0 where e0: "to_event r [] = Inr e0" "event_inv e0" "materialised I s e0"
        by (auto simp: events_ok_def s')
      have "spans s' (ce_id e0) = spans s (ce_id e0)"
        unfolding s' using to_event_sel [OF e0(1)] r(2) by (intro rebuilt_spans_other [OF rebuilt(6)]) simp
      with e0 show "\<exists>e. to_event r [] = Inr e \<and> event_inv e \<and> materialised I s' e"
        using materialised_same [OF e0(3), of s'] by (auto simp: s')
    qed
    with mat rebuilt(7) inv rebuilt_identities [OF db rebuilt(6)] show ?thesis
      by (auto simp: s' m rebuilt(3,4) event_inv_def event_refs_def)
  qed (use run in simp_all)
  then show "calendar_db s'" "events_ok I s' {ce_id e}" "materialised I s' (rm_event m)" "event_inv (rm_event m)"
    "\<exists>t. rm_event m = e\<lparr>ce_through := t\<rparr>" "event_refs s' = event_refs s" "cs_now s' = cs_now s"
    "rm_window m = materialisation_window (cs_now s)"
    "\<exists>rows n. s' = s\<lparr>occurrence_rows := rows, cs_used := n\<rparr>"
    "identities_kept (occurrence_rows s) (occurrence_rows s')" by blast+
qed

end
