(* ===== verification/Calendar_System.thy ===== *)
theory Calendar_System
  imports Calendar_Store_Facts
begin

text \<open>
  The Calendar context as a system: every command, the steps of the sweep, erasure and the passing
  of time as steps of a reachability relation, and what every reachable state has: sound tables,
  and for every event the occurrences its rule plans.
\<close>

section \<open>Outcomes\<close>

lemma in_transaction_keeps:
  "P s \<Longrightarrow> (\<And>v s'. m s = (Inr v, s') \<Longrightarrow> P s') \<Longrightarrow> P (snd (in_transaction m s))"
  by (auto simp: in_transaction_def split: prod.splits sum.splits)

lemma snd_catch_rollback [simp]: "snd (catch_rollback m s) = snd (m s)"
  by (auto simp: catch_rollback_def split: prod.splits sum.splits exn.splits)

lemma tx_rethrow_Inr [simp]: "tx_rethrow x y m s = (Inr v, s') \<longleftrightarrow> m s = (Inr v, s')"
  by (auto simp: tx_rethrow_def split: prod.splits sum.splits)

lemma or_rollback_Inr [simp]: "or_rollback r s = (Inr v, s') \<longleftrightarrow> r = Inr v \<and> s' = s"
  by (cases r) auto

lemma cs_event_run [simp]: "cs_event x s = (Inr (), s\<lparr>cs_outbox := cs_outbox s @ [x]\<rparr>)"
  by (simp add: cs_event_def)

lemma announce_run [simp]:
  "announce_materialised fam e m cid s = (Inr (), s\<lparr>cs_outbox := cs_outbox s
     @ [occurrence_materialised_event fam (ce_id e) (rm_window m) (rm_count m) cid]\<rparr>)"
  by (simp add: announce_materialised_def)

section \<open>Every command keeps the invariant\<close>

text \<open>
  What every command does but the cancellation of an occurrence: the tables stay sound, the
  occurrences that stay are the same ones, and the clock stands.
\<close>

definition calendar_step :: "intl \<Rightarrow> calendar_store \<Rightarrow> calendar_store \<Rightarrow> bool" where
  "calendar_step I s s' \<longleftrightarrow>
     calendar_ok I s' \<and> identities_kept (occurrence_rows s) (occurrence_rows s') \<and> cs_now s' = cs_now s"

lemma calendar_stepD:
  "calendar_step I s s' \<Longrightarrow> calendar_ok I s'"
  "calendar_step I s s' \<Longrightarrow> identities_kept (occurrence_rows s) (occurrence_rows s')"
  "calendar_step I s s' \<Longrightarrow> cs_now s' = cs_now s"
  by (simp_all add: calendar_step_def)

lemma calendar_step_same:
  "calendar_ok I s' \<Longrightarrow> occurrence_rows s' = occurrence_rows s \<Longrightarrow> cs_now s' = cs_now s \<Longrightarrow> calendar_step I s s'"
  using identities_refl [of s'] by (simp add: calendar_step_def calendar_ok_def)

lemma calendar_step_refl: "calendar_ok I s \<Longrightarrow> calendar_step I s s"
  by (rule calendar_step_same) simp_all

lemma calendar_step_logs [simp]:
  "calendar_step I s (s'\<lparr>cs_outbox := ob\<rparr>) = calendar_step I s s'"
  "calendar_step I s (noted es s') = calendar_step I s s'"
  by (simp_all add: calendar_step_def)

text \<open>Rebuild and save: what create, edit and the sweep share.\<close>

lemma rebuilt_and_saved:
  assumes db: "calendar_db s" and inv: "event_inv e" and ref: "(ce_id e, fam) \<in> event_refs s"
    and ok: "events_ok I s {ce_id e}"
    and run: "rematerialise I fam e (cs_now s) s = (Inr (Inr m), s1)"
    and save: "save_event fam (rm_event m) s1 = (Inr (), s2)"
  shows "calendar_step I s s2"
proof -
  note r = rematerialise_ok [OF db inv ref ok run]
  from r(5) have id: "ce_id (rm_event m) = ce_id e" by auto
  have ok1: "events_ok I s1 {ce_id (rm_event m)}" using r(2) id by simp
  obtain rows where s: "s2 = s1\<lparr>event_rows := rows\<rparr>" "calendar_db s2"
    using r(1,4) save by (rule saved_event) blast
  from saved_events_ok(2) [OF r(1,4) save ok1 r(3)] s have "calendar_ok I s2" by (simp add: calendar_ok_def)
  then show ?thesis using s(1) r(7,10) by (simp add: calendar_step_def)
qed

lemma create_event_ok:
  assumes ok: "calendar_ok I s" and sp: "storable_timing (ec_timing c)"
  shows "calendar_step I s (snd (create_event I c cid (cs_now s) s))"
proof (cases "event_create I c (cs_now s)")
  case (Inl x)
  with ok show ?thesis by (simp add: create_event_def Let_def calendar_step_refl)
next
  case (Inr e)
  note e = event_create_inv [OF Inr sp]
  let ?fam = "ec_family c"
  have db: "calendar_db s" using ok by (simp add: calendar_ok_def)
  show ?thesis
    unfolding create_event_def Let_def Inr tx_ok_simps snd_catch_rollback
  proof (rule in_transaction_keeps [where P = "calendar_step I s", OF calendar_step_refl [OF ok]], goal_cases)
    case (1 v s')
    then obtain s1 s2 m s3 s4 where run: "save_event ?fam e s = (Inr (), s1)"
      "replace_participants ?fam (ce_id e) (ce_participants e) s1 = (Inr (), s2)"
      "rematerialise I ?fam e (cs_now s) s2 = (Inr (Inr m), s3)" "save_event ?fam (rm_event m) s3 = (Inr (), s4)"
      "calendar_step I s s' = calendar_step I s s4"
      by (auto simp: tx_bind_Inr split: if_splits)
    obtain er where s1: "s1 = s\<lparr>event_rows := er\<rparr>" "calendar_db s1" "event_refs s1 = insert (ce_id e, ?fam) (event_refs s)"
      using db e(1) run(1) by (rule saved_event) blast
    obtain pr where s2: "s2 = s1\<lparr>participant_rows := pr\<rparr>" "calendar_db s2"
      using s1(2) run(2) by (rule replaced_participants)
    have "events_ok I s {ce_id e}" using ok by (simp add: calendar_ok_def events_ok_weaken)
    from saved_events_ok(1) [OF db e(1) run(1) this] have "events_ok I s2 {ce_id e}" by (simp add: s2(1))
    moreover have "(ce_id e, ?fam) \<in> event_refs s2" using s1(3) by (simp add: s2(1) event_refs_def)
    moreover have "cs_now s2 = cs_now s" by (simp add: s1(1) s2(1))
    ultimately have "calendar_step I s2 s4"
      using rebuilt_and_saved [OF s2(2) e(1), of ?fam I m s3 s4] run(3,4) by simp
    then have "calendar_step I s s4" by (simp add: calendar_step_def s1(1) s2(1))
    then show ?case by (simp only: run(5))
  qed
qed

lemma visible_event_keeps:
  assumes ok: "calendar_ok I s"
    and step: "\<And>e s' r. stored_event s e \<Longrightarrow> ce_id e = i \<Longrightarrow> ce_family e = rd_family rd \<Longrightarrow> f e s = (Inr r, s') \<Longrightarrow> calendar_step I s s'"
  shows "calendar_step I s (snd (in_transaction (tx_bind (lock_visible_event rd v i) (\<lambda>locked. tx_ok locked f)) s))"
proof (rule in_transaction_keeps [where P = "calendar_step I s", OF calendar_step_refl [OF ok]], goal_cases)
  case (1 r s')
  from ok show ?case
    by (cases rule: visible_event_cases [where rd = rd and v = v and i = i]) (use 1 calendar_step_refl [OF ok] step in auto)
qed

text \<open>A save that leaves the schedule alone.\<close>

lemma resaved_event:
  assumes ok: "calendar_ok I s" and st: "stored_event s e" and inv: "event_inv e'"
    and same: "same_schedule e e'" "ce_through e' = ce_through e" and run: "save_event fam e' s = (Inr (), s')"
  shows "calendar_step I s s'"
proof -
  have db: "calendar_db s" using ok by (simp add: calendar_ok_def)
  have m: "materialised I s e'"
    by (rule materialised_mono [OF stored_event_ok(2) [OF ok st] same]) simp_all
  obtain rows where s': "s' = s\<lparr>event_rows := rows\<rparr>" "calendar_db s'"
    using db inv run by (rule saved_event) blast
  have "events_ok I s {ce_id e'}" using ok by (simp add: calendar_ok_def events_ok_weaken)
  from saved_events_ok(2) [OF db inv run this m] s'(2) have "calendar_ok I s'" by (simp add: calendar_ok_def)
  then show ?thesis by (rule calendar_step_same) (simp_all add: s'(1))
qed

lemma cancel_event_ok:
  assumes ok: "calendar_ok I s"
  shows "calendar_step I s (snd (cancel_event port rd i now s))"
  unfolding cancel_event_def Let_def
proof (rule visible_event_keeps [OF ok], goal_cases)
  case (1 e s' r)
  obtain b e' where c: "event_cancel e now = (b, e')" by (cases "event_cancel e now")
  note ci = event_cancel_inv [OF c]
  show ?case
  proof (cases b)
    case True
    with 1(4) c obtain s1 where "save_event (rd_family rd) e' s = (Inr (), s1)" "calendar_step I s s' = calendar_step I s s1"
      by (auto simp: tx_bind_Inr)
    then show ?thesis
      using resaved_event [OF ok 1(1), of e'] ci(1-3) stored_event_ok(1) [OF ok 1(1)] by simp
  qed (use 1(4) c calendar_step_refl [OF ok] in simp)
qed

lemma update_event_ok:
  assumes ok: "calendar_ok I s" and sp: "storable_event_patch patch"
  shows "calendar_step I s (snd (update_event I port rd i patch (cs_now s) s))"
  unfolding update_event_def Let_def snd_catch_rollback
proof (rule visible_event_keeps [OF ok], goal_cases)
  case (1 e s' r)
  let ?fam = "rd_family rd"
  have db: "calendar_db s" and ok': "events_ok I s {ce_id e}" using ok by (simp_all add: calendar_ok_def events_ok_weaken)
  note inv = stored_event_ok(1) [OF ok 1(1)]
  show ?case
  proof (cases "event_update I e patch (cs_now s)")
    case (Pair res e')
    show ?thesis
    proof (cases res)
      case (Inl x)
      with 1(4) Pair calendar_step_refl [OF ok] show ?thesis by simp
    next
      case (Inr u)
      note up = event_update_inv [OF inv sp Pair [unfolded Inr]]
      show ?thesis
      proof (cases "uo_changed u = []")
        case True
        with 1(4) Pair Inr calendar_step_refl [OF ok] show ?thesis by simp
      next
        case False
        with 1(4) Pair Inr obtain s1 s2 s3 where run: "save_event ?fam e' s = (Inr (), s1)"
          "(if ParticipantsChanged \<in> set (uo_changed u)
            then tx_rethrow ParticipantNotInFamily (RollbackWithError ParticipantInvalid)
              (replace_participants ?fam (ce_id e') (ce_participants e')) else tx_return ()) s1 = (Inr (), s2)"
          "\<exists>x. (if uo_reschedule u then reschedule_event I ?fam e' (rd_correlation rd) (cs_now s)
            else tx_return (e', None)) s2 = (Inr x, s3)" "calendar_step I s s' = calendar_step I s s3"
          by (fastforce simp: tx_bind_Inr split: prod.splits)
        obtain er where s1: "s1 = s\<lparr>event_rows := er\<rparr>" "calendar_db s1"
            "event_refs s1 = insert (ce_id e', ?fam) (event_refs s)"
          using db up(1) run(1) by (rule saved_event) blast
        obtain pr where s2: "s2 = s1\<lparr>participant_rows := pr\<rparr>" "calendar_db s2"
        proof (cases "ParticipantsChanged \<in> set (uo_changed u)")
          case True
          with run(2) have "replace_participants ?fam (ce_id e') (ce_participants e') s1 = (Inr (), s2)" by simp
          with s1(2) show thesis by (rule replaced_participants) (rule that)
        next
          case False
          with run(2) have "s2 = s1" by simp
          with s1(2) show thesis by (intro that [of "participant_rows s1"]) simp_all
        qed
        have "calendar_step I s2 s3"
        proof (cases "uo_reschedule u")
          case True
          with run(3) obtain m s4 where m: "rematerialise I ?fam e' (cs_now s) s2 = (Inr (Inr m), s4)"
            "\<exists>s5. save_event ?fam (rm_event m) s4 = (Inr (), s5) \<and> calendar_step I s2 s3 = calendar_step I s2 s5"
            by (auto simp: reschedule_event_def tx_bind_Inr Let_def split: if_splits)
          have "events_ok I s2 {ce_id e'}"
            using saved_events_ok(1) [OF db up(1) run(1)] ok' up(2) by (simp add: s2(1))
          moreover have "(ce_id e', ?fam) \<in> event_refs s2" using s1(3) by (simp add: s2(1) event_refs_def)
          moreover have "cs_now s2 = cs_now s" by (simp add: s1(1) s2(1))
          ultimately show ?thesis
            using rebuilt_and_saved [OF s2(2) up(1), of ?fam I m s4] m by auto
        next
          case False
          then have "calendar_ok I s1"
            using calendar_stepD(1) [OF resaved_event [OF ok 1(1) up(1,9,5) run(1)]] by simp
          then have "calendar_ok I s2" using s2 by (simp add: calendar_ok_def)
          with False run(3) calendar_step_refl show ?thesis by simp
        qed
        then have "calendar_step I s s3" by (simp add: calendar_step_def s1(1) s2(1))
        then show ?thesis by (simp only: run(4))
      qed
    qed
  qed
qed

text \<open>Cancelling one occurrence, and deleting rows behind the trailing edge.\<close>

lemma cancelled_row_ok:
  assumes ok: "calendar_ok I s"
  shows "calendar_ok I (s\<lparr>occurrence_rows := tbl_update p (\<lambda>r. r\<lparr>ow_cancelled := Some t\<rparr>) (occurrence_rows s)\<rparr>)"
    (is "calendar_ok I ?s")
proof -
  let ?f = "\<lambda>r. if p r then r\<lparr>ow_cancelled := Some t\<rparr> else r"
  have rows: "occurrence_rows ?s = map ?f (occurrence_rows s)" by (simp add: tbl_update_def)
  have sp: "spans ?s = spans s"
  proof
    fix i
    have "{x \<in> set (occurrence_rows ?s). ow_event x = i} = ?f ` {x \<in> set (occurrence_rows s). ow_event x = i}"
      unfolding rows by (auto simp: image_iff)
    then have "spans ?s i = (\<lambda>x. (ow_starts (?f x), ow_ends (?f x))) ` {x \<in> set (occurrence_rows s). ow_event x = i}"
      by (simp only: spans_def image_image)
    also have "\<dots> = spans s i" unfolding spans_def by (rule image_cong) simp_all
    finally show "spans ?s i = spans s i" .
  qed
  have keys: "map ow_id (occurrence_rows ?s) = map ow_id (occurrence_rows s)"
    "map occurrence_key (occurrence_rows ?s) = map occurrence_key (occurrence_rows s)"
    unfolding rows by (auto simp: occurrence_key_def)
  have sd: "occurrence_table.sound (occurrence_rows s)" using ok by (simp add: calendar_ok_def calendar_db_def)
  have "\<forall>r \<in> set (occurrence_rows ?s). occurrence_order r"
    using occurrence_soundD(3) [OF sd] by (auto simp: rows occurrence_order_def)
  from occurrence_soundI [OF _ _ this, unfolded keys] have "occurrence_table.sound (occurrence_rows ?s)"
    using occurrence_soundD(1,2) [OF sd] by blast
  then have "calendar_db ?s"
    using ok by (auto simp: calendar_ok_def calendar_db_def calendar_refs_def event_refs_def supply_ok_def rows)
  moreover have "events_ok I ?s {}"
    using ok materialised_same [of I s _ ?s] sp by (auto simp: calendar_ok_def events_ok_def)
  ultimately show ?thesis by (simp add: calendar_ok_def)
qed

lemma deleted_rows:
  assumes db: "calendar_db s"
    and old: "\<And>r x. r \<in> set (occurrence_rows s) \<Longrightarrow> p r \<Longrightarrow> x \<in> set (event_rows s) \<Longrightarrow> er_id x = ow_event r \<Longrightarrow>
      er_id x \<in> X \<or> er_rule x \<noteq> None \<and> ow_starts r < fst (materialisation_window (cs_now s))"
  shows "calendar_db (s\<lparr>occurrence_rows := tbl_delete p (occurrence_rows s)\<rparr>)" (is "calendar_db ?s")
    "events_ok I s X \<Longrightarrow> events_ok I (s\<lparr>occurrence_rows := tbl_delete p (occurrence_rows s)\<rparr>) X"
proof -
  have "distinct (map ow_id (occurrence_rows ?s))" "distinct (map occurrence_key (occurrence_rows ?s))"
    using occurrence_soundD [OF calendar_dbD(2) [OF db]] by (simp_all add: distinct_key_delete)
  then have "occurrence_table.sound (occurrence_rows ?s)"
    using occurrence_soundD [OF calendar_dbD(2) [OF db]] by (intro occurrence_soundI) auto
  then show "calendar_db ?s"
    using db by (auto simp: calendar_db_def calendar_refs_def event_refs_def supply_ok_def)
  show "events_ok I ?s X" if ok: "events_ok I s X"
    unfolding events_ok_def
  proof (intro ballI impI)
    fix x assume x: "x \<in> set (event_rows ?s)" "er_id x \<notin> X"
    with ok obtain e where e: "to_event x [] = Inr e" "event_inv e" "materialised I s e" by (auto simp: events_ok_def)
    note sel = to_event_sel [OF e(1)]
    have "materialised I ?s e"
    proof (rule materialised_mono [OF e(3)])
      show "spans ?s (ce_id e) \<subseteq> spans s (ce_id e)" by (auto simp: spans_def)
      fix t b assume "(t, b) \<in> spans s (ce_id e)" "(t, b) \<notin> spans ?s (ce_id e)"
      then obtain r where "r \<in> set (occurrence_rows s)" "ow_event r = ce_id e" "t = ow_starts r" "p r"
        by (auto simp: spans_def)
      with old [of r x] x sel show "ce_rule e \<noteq> None \<and> t < fst (materialisation_window (cs_now ?s))" by auto
    qed (simp_all add: same_schedule_def)
    with e(1,2) show "\<exists>e. to_event x [] = Inr e \<and> event_inv e \<and> materialised I ?s e" by blast
  qed
qed

lemma delete_occurrences_run:
  "delete_occurrences fam p s = (Inr n, s') \<longleftrightarrow>
     n = length (filter (\<lambda>r. ow_family r = fam \<and> p r) (occurrence_rows s))
     \<and> s' = s\<lparr>occurrence_rows := tbl_delete (\<lambda>r. ow_family r = fam \<and> p r) (occurrence_rows s)\<rparr>"
  by (auto simp: delete_occurrences_def Let_def)

lemma prune_trailing_ok:
  assumes ok: "calendar_ok I s"
  shows "calendar_step I s (snd (prune_trailing fam (cs_now s) s))"
  unfolding prune_trailing_def
proof (rule in_transaction_keeps [where P = "calendar_step I s", OF calendar_step_refl [OF ok]], goal_cases)
  case (1 n s')
  have db: "calendar_db s" using ok by (simp add: calendar_ok_def)
  from 1 have s': "s' = s\<lparr>occurrence_rows := tbl_delete (\<lambda>r. ow_family r = fam
      \<and> ow_starts r < fst (materialisation_window (cs_now s)) \<and> recurring_event fam (ow_event r) s) (occurrence_rows s)\<rparr>"
    by (simp add: prune_recurring_before_def delete_occurrences_run)
  have "er_rule x \<noteq> None" if "recurring_event fam (ow_event r) s" "x \<in> set (event_rows s)" "er_id x = ow_event r" for r x
  proof -
    from that(1) obtain y where y: "scoped_event fam (ow_event r) s = Some y" "er_rule y \<noteq> None"
      by (auto simp: recurring_event_def split: option.splits)
    then have "y \<in> set (event_rows s)" "er_id y = er_id x"
      using that(3) by (auto simp: scoped_event_def dest: tbl_find_Some)
    then have "y = x" using event_table.sound_key [OF calendar_dbD(1) [OF db] _ that(2)] by blast
    with y(2) show ?thesis by simp
  qed
  then have old: "er_id x \<in> {} \<or> er_rule x \<noteq> None \<and> ow_starts r < fst (materialisation_window (cs_now s))"
    if "ow_family r = fam \<and> ow_starts r < fst (materialisation_window (cs_now s)) \<and> recurring_event fam (ow_event r) s"
      "x \<in> set (event_rows s)" "er_id x = ow_event r" for r x using that by blast
  note d = deleted_rows [OF db, where X = "{}", OF old]
  have "calendar_ok I s'" unfolding s' calendar_ok_def
    by (intro conjI d) (use ok in \<open>simp_all add: calendar_ok_def\<close>)
  moreover have "identities_kept (occurrence_rows s) (occurrence_rows s')"
    by (rule identities_subset [OF identities_refl [OF db]]) (auto simp: s')
  ultimately show ?case by (simp add: calendar_step_def s')
qed

lemma reachable_occurrence_cases:
  assumes "calendar_ok I s"
  obtains (none) es where "find_reachable_occurrence rd v i occ s = (Inr None, noted es s)"
  | (some) e x where "find_reachable_occurrence rd v i occ s = (Inr (Some (to_occurrence x)), s)"
      "stored_event s e" "ce_id e = i" "ce_family e = rd_family rd" "hidden_participants (ce_participants e) v = []"
      "x \<in> set (occurrence_rows s)" "ow_id x = occ" "ow_event x = i" "ow_family x = rd_family rd"
  using assms
proof (cases rule: visible_event_cases [where rd = rd and v = v and i = i])
  case missing
  then have "find_reachable_occurrence rd v i occ s = (Inr None, noted [] s)" by (simp add: find_reachable_occurrence_def)
  then show thesis by (rule none)
next
  case (hidden e)
  then show thesis by (intro none) (simp add: find_reachable_occurrence_def)
next
  case (visible e)
  show thesis
  proof (cases "tbl_find ow_id occ (family_occurrences (rd_family rd) s)")
    case None
    with visible have "find_reachable_occurrence rd v i occ s = (Inr None, noted [] s)"
      by (simp add: find_reachable_occurrence_def find_occurrence_def)
    then show thesis by (rule none)
  next
    case (Some x)
    then have x: "x \<in> set (occurrence_rows s)" "ow_id x = occ" "ow_family x = rd_family rd"
      by (auto simp: family_occurrences_def dest: tbl_find_Some)
    show thesis
    proof (cases "ow_event x = i")
      case True
      with visible Some have "find_reachable_occurrence rd v i occ s = (Inr (Some (to_occurrence x)), s)"
        by (simp add: find_reachable_occurrence_def find_occurrence_def to_occurrence_def)
      then show thesis using visible(1-4) x(1,2) True x(3) by (rule some)
    next
      case False
      with visible Some have "find_reachable_occurrence rd v i occ s = (Inr None, noted [] s)"
        by (simp add: find_reachable_occurrence_def find_occurrence_def to_occurrence_def)
      then show thesis by (rule none)
    qed
  qed
qed

lemma cancel_occurrence_cases:
  assumes ok: "calendar_ok I s"
  obtains (unchanged) es where "snd (cancel_occurrence port rd i occ now s) = noted es s"
  | (cancelled) x ob where "x \<in> set (occurrence_rows s)" "ow_id x = occ" "ow_event x = i" "ow_cancelled x = None"
      "snd (cancel_occurrence port rd i occ now s) = s\<lparr>occurrence_rows :=
         tbl_update (\<lambda>r. ow_family r = rd_family rd \<and> ow_id r = occ \<and> ow_cancelled r = None)
           (\<lambda>r. r\<lparr>ow_cancelled := Some now\<rparr>) (occurrence_rows s), cs_outbox := ob\<rparr>"
  using ok
proof (cases rule: reachable_occurrence_cases [where rd = rd and v = "resolve_visibility port rd" and i = i and occ = occ])
  case (none es)
  then show thesis by (intro unchanged) (simp add: cancel_occurrence_def Let_def in_transaction_def)
next
  case (some e x)
  show thesis
  proof (cases "ow_cancelled x")
    case None
    with some show thesis
      by (intro cancelled [of x]) (simp_all add: cancel_occurrence_def Let_def in_transaction_def to_occurrence_def
          cancel_occurrence_row_def cs_event_def)
  next
    case (Some t)
    with some show thesis
      by (intro unchanged [of "[]"]) (simp add: cancel_occurrence_def Let_def in_transaction_def to_occurrence_def)
  qed
qed

lemma cancel_occurrence_ok:
  assumes ok: "calendar_ok I s"
  shows "calendar_ok I (snd (cancel_occurrence port rd i occ now s))"
  using ok
proof (cases rule: cancel_occurrence_cases [where port = port and rd = rd and i = i and occ = occ and now = now])
  case (unchanged es)
  with ok show ?thesis by simp
next
  case (cancelled x ob)
  then show ?thesis
    using cancelled_row_ok [OF ok] calendar_ok_logs(1) by simp
qed

lemma reschedule_occurrence_notes:
  assumes ok: "calendar_ok I s"
  shows "\<exists>r es. reschedule_occurrence port rd i occ s = (Inr (Inl r), noted es s)"
  using ok
proof (cases rule: reachable_occurrence_cases [where rd = rd and v = "resolve_visibility port rd" and i = i and occ = occ])
  case (none es)
  then have "reschedule_occurrence port rd i occ s = (Inr (Inl NotFound), noted es s)"
    by (simp add: reschedule_occurrence_def Let_def in_transaction_def)
  then show ?thesis by blast
next
  case (some e x)
  then have "reschedule_occurrence port rd i occ s = (Inr (Inl OccurrenceNotMovable), noted [] s)"
    by (simp add: reschedule_occurrence_def Let_def in_transaction_def)
  then show ?thesis by blast
qed

text \<open>Extending an event's horizon: skipped, failed with nothing changed, or rebuilt and saved.\<close>

definition behind_horizon :: "int \<Rightarrow> calendar_event \<Rightarrow> bool" where
  "behind_horizon now e \<longleftrightarrow>
     ce_rule e \<noteq> None \<and> ce_status e \<noteq> EventCancelled
     \<and> (case ce_through e of None \<Rightarrow> False | Some t \<Rightarrow> t < snd (materialisation_window now))"

lemma horizon_rebuild:
  assumes lock: "lock_event fam i s = (Inr (Some e), s)" and due: "behind_horizon now e"
    and db: "calendar_db s" and ref: "(ce_id e, fam) \<in> event_refs s"
  obtains (failed) x where "materialise_horizon I fam i cid now s = (x, s)" "\<And>h. x \<noteq> Inr (Inr h)"
  | (extended) m s1 s2 s4 ob k where
      "materialise_horizon I fam i cid now s = (Inr (Inr (HorizonExtended (rm_counts m) k)), s4\<lparr>cs_outbox := ob\<rparr>)"
      "rematerialise I fam e now s = (Inr (Inr m), s1)"
      "s2 = s1\<lparr>occurrence_rows := tbl_delete (\<lambda>r. ow_family r = fam \<and> ow_event r = ce_id (rm_event m)
         \<and> ow_starts r < fst (rm_window m)) (occurrence_rows s1)\<rparr>"
      "save_event fam (rm_event m) s2 = (Inr (), s4)"
proof -
  obtain t where t: "ce_rule e \<noteq> None" "ce_status e \<noteq> EventCancelled" "ce_through e = Some t"
    "\<not> snd (materialisation_window now) \<le> t" using due by (auto simp: behind_horizon_def split: option.splits)
  let ?then = "\<lambda>m. tx_bind (prune_for_event_before fam (ce_id (rm_event m)) (fst (rm_window m))) (\<lambda>pruned.
      tx_bind (save_event fam (rm_event m)) (\<lambda>_.
      tx_bind (announce_materialised fam (rm_event m) m cid) (\<lambda>_.
      tx_return (Inr (HorizonExtended (rm_counts m) pruned)))))"
  have mh: "materialise_horizon I fam i cid now s =
      in_transaction (tx_bind (rematerialise I fam e now) (\<lambda>r. tx_ok r ?then)) s"
    using lock t(2-4) t(1) [THEN not_None_eq [THEN iffD1]] by (auto simp: materialise_horizon_def in_transaction_def Let_def)
  obtain r s1 where rm: "rematerialise I fam e now s = (r, s1)" by (cases "rematerialise I fam e now s")
  consider y where "r = Inl y" | y where "r = Inr (Inl y)" | m where "r = Inr (Inr m)"
    by (metis sum.exhaust)
  then show thesis
  proof cases
    case 1
    then show thesis by (intro failed [of "Inl y"]) (simp_all add: mh rm in_transaction_def)
  next
    case 2
    from db ref have "s1 = s"
      by (cases rule: rematerialise_cases [where I = I and now = now]) (use rm 2 in simp_all)
    with 2 show thesis by (intro failed [of "Inr (Inl y)"]) (simp_all add: mh rm in_transaction_def)
  next
    case 3
    let ?gone = "\<lambda>r. ow_family r = fam \<and> ow_event r = ce_id (rm_event m) \<and> ow_starts r < fst (rm_window m)"
    let ?s2 = "s1\<lparr>occurrence_rows := tbl_delete ?gone (occurrence_rows s1)\<rparr>"
    obtain k where pr: "prune_for_event_before fam (ce_id (rm_event m)) (fst (rm_window m)) s1 = (Inr k, ?s2)"
      by (simp add: prune_for_event_before_def delete_occurrences_def Let_def)
    show thesis
    proof (cases "save_event fam (rm_event m) ?s2")
      case (Pair x s4)
      show thesis
      proof (cases x)
        case (Inl y)
        with 3 Pair pr show thesis by (intro failed [of "Inl y"]) (simp_all add: mh rm in_transaction_def)
      next
        case (Inr u)
        with Pair have "save_event fam (rm_event m) ?s2 = (Inr (), s4)" by simp
        moreover from this have "materialise_horizon I fam i cid now s = (Inr (Inr (HorizonExtended (rm_counts m) k)),
            s4\<lparr>cs_outbox := cs_outbox s4
               @ [occurrence_materialised_event fam (ce_id (rm_event m)) (rm_window m) (rm_count m) cid]\<rparr>)"
          using 3 pr by (simp add: mh rm in_transaction_def)
        ultimately show thesis using 3 rm by (intro extended [of m k _ s4 s1 ?s2]) simp_all
      qed
    qed
  qed
qed

lemma materialise_horizon_cases:
  assumes ok: "calendar_ok I s"
  obtains (skipped) "materialise_horizon I fam i cid (cs_now s) s = (Inr (Inr HorizonSkipped), s)"
      "\<And>e. stored_event s e \<Longrightarrow> ce_id e = i \<Longrightarrow> ce_family e = fam \<Longrightarrow> \<not> behind_horizon (cs_now s) e"
  | (failed) x where "materialise_horizon I fam i cid (cs_now s) s = (x, s)" "\<And>h. x \<noteq> Inr (Inr h)"
  | (extended) e m s1 s2 s4 ob k where
      "materialise_horizon I fam i cid (cs_now s) s = (Inr (Inr (HorizonExtended (rm_counts m) k)), s4\<lparr>cs_outbox := ob\<rparr>)"
      "stored_event s e" "ce_id e = i" "ce_family e = fam" "behind_horizon (cs_now s) e"
      "rematerialise I fam e (cs_now s) s = (Inr (Inr m), s1)"
      "s2 = s1\<lparr>occurrence_rows := tbl_delete (\<lambda>r. ow_family r = fam \<and> ow_event r = ce_id (rm_event m)
         \<and> ow_starts r < fst (rm_window m)) (occurrence_rows s1)\<rparr>"
      "save_event fam (rm_event m) s2 = (Inr (), s4)"
proof -
  let ?now = "cs_now s"
  from ok show thesis
  proof (cases rule: lock_event_cases [where fam = fam and i = i])
    case none
    then have "materialise_horizon I fam i cid ?now s = (Inr (Inr HorizonSkipped), s)"
      by (simp add: materialise_horizon_def in_transaction_def)
    moreover have "\<not> behind_horizon ?now e" if "stored_event s e" "ce_id e = i" "ce_family e = fam" for e
      using stored_event_ref [OF that(1)] none(3) that(2,3) by simp
    ultimately show thesis by (rule skipped)
  next
    case (some e)
    have db: "calendar_db s" using ok by (simp add: calendar_ok_def)
    show thesis
    proof (cases "behind_horizon ?now e")
      case False
      then have "materialise_horizon I fam i cid ?now s = (Inr (Inr HorizonSkipped), s)"
        using some(1) by (auto simp: materialise_horizon_def in_transaction_def behind_horizon_def split: option.splits)
      moreover have "\<not> behind_horizon ?now e'" if "stored_event s e'" "ce_id e' = i" "ce_family e' = fam" for e'
        using stored_event_unique [OF db that(1) some(3)] that(2) some(4) False by simp
      ultimately show thesis by (rule skipped)
    next
      case True
      have "(ce_id e, fam) \<in> event_refs s" using stored_event_ref [OF some(3)] some(5) by simp
      with some(1) True db show thesis
      proof (cases rule: horizon_rebuild [where I = I and cid = cid])
        case (failed x)
        then show thesis by (rule that(2))
      next
        case (extended m s1 s2 s4 ob k)
        with some(3-5) True show thesis by (intro that(3))
      qed
    qed
  qed
qed

lemma materialise_horizon_ok:
  assumes ok: "calendar_ok I s"
  shows "calendar_step I s (snd (materialise_horizon I fam i cid (cs_now s) s))"
  using ok
proof (cases rule: materialise_horizon_cases [where fam = fam and i = i and cid = cid])
  case skipped
  with ok show ?thesis by (simp add: calendar_step_refl)
next
  case (failed x)
  with ok show ?thesis by (simp add: calendar_step_refl)
next
  case (extended e m s1 s2 s4 ob k)
  have db: "calendar_db s" and ok': "events_ok I s {ce_id e}" using ok by (simp_all add: calendar_ok_def events_ok_weaken)
  note inv = stored_event_ok(1) [OF ok extended(2)]
  have ref: "(ce_id e, fam) \<in> event_refs s" using stored_event_ref [OF extended(2)] extended(4) by simp
  have rule: "ce_rule e \<noteq> None" using extended(5) by (simp add: behind_horizon_def)
  note r = rematerialise_ok [OF db inv ref ok' extended(6)]
  from r(5) have m: "ce_id (rm_event m) = ce_id e" "ce_rule (rm_event m) = ce_rule e" by auto
  note s4 = extended(8)
  let ?gone = "\<lambda>r. ow_family r = fam \<and> ow_event r = ce_id e \<and> ow_starts r < fst (rm_window m)"
  have s2: "s2 = s1\<lparr>occurrence_rows := tbl_delete ?gone (occurrence_rows s1)\<rparr>" using extended(7) by (simp add: m)
  have old: "er_id y \<in> {ce_id e} \<or> er_rule y \<noteq> None \<and> ow_starts q < fst (materialisation_window (cs_now s1))"
    if "?gone q" "er_id y = ow_event q" for q y using that by simp
  note d = deleted_rows [OF r(1), where p = ?gone and X = "{ce_id e}", OF old]
  have d': "calendar_db s2" "events_ok I s2 {ce_id (rm_event m)}"
    using d r(2) by (simp_all add: m s2)
  have "materialised I s2 (rm_event m)"
    by (rule materialised_mono [OF r(3)]) (auto simp: same_schedule_def m rule spans_def r(7,8) s2)
  from saved_events_ok(2) [OF d'(1) r(4) s4 d'(2) this]
  have "events_ok I s4 {}" .
  moreover obtain rows where rows: "s4 = s2\<lparr>event_rows := rows\<rparr>" "calendar_db s4"
    using d'(1) r(4) s4 by (rule saved_event) blast
  ultimately have "calendar_ok I s4" unfolding calendar_ok_def by blast
  moreover have "identities_kept (occurrence_rows s) (occurrence_rows s2)"
    by (rule identities_subset [OF r(10)]) (auto simp: s2)
  ultimately have "calendar_step I s s4" by (simp add: calendar_step_def rows(1)) (simp add: s2 r(7))
  then show ?thesis by (simp add: extended(1))
qed

subsection \<open>Queries\<close>

definition group_entries :: "reader \<Rightarrow> audit_result \<Rightarrow> (event_id \<times> member_id list) list \<Rightarrow> audit_entry list" where
  "group_entries rd res groups =
     concat (map (\<lambda>(i, ms). map (participation_audit rd i ''calendar range'' res) ms) groups)"

lemma audit_groups_noted: "audit_groups rd res groups s = (Inr (), noted (group_entries rd res groups) s)"
  unfolding audit_groups_def
proof (induction groups arbitrary: s)
  case (Cons g groups)
  show ?case using Cons.IH by (cases g) (simp add: audit_noted group_entries_def)
qed (simp add: group_entries_def)

lemma get_event_notes:
  assumes "calendar_ok I s"
  shows "\<exists>r es. get_event port rd i s = (Inr r, noted es s)"
  using assms
proof (cases rule: lock_event_cases [where fam = "rd_family rd" and i = i])
  case none
  then have "get_event port rd i s = (Inr (Inl NotFound), noted [] s)"
    by (simp add: get_event_def Let_def in_transaction_def)
  then show ?thesis by blast
next
  case (some e)
  then show ?thesis
    by (auto simp: get_event_def Let_def in_transaction_def audit_noted)
qed

lemma list_occurrences_notes: "\<exists>r es. list_occurrences I port rd lo hi s = (Inr r, noted es s)"
proof (cases "check_event_range lo hi")
  case (Inl e)
  then have "list_occurrences I port rd lo hi s = (Inr (Inl e), noted [] s)" by (simp add: list_occurrences_def)
  then show ?thesis by blast
next
  case (Inr w)
  obtain a b where w: "w = (a, b)" by (cases w)
  let ?v = "resolve_visibility port rd"
  let ?q = "\<lparr>rq_from = a, rq_to = b, rq_visible = visible_ids ?v\<rparr>"
  obtain visible where v: "list_visible_in_range I (rd_family rd) ?q s = (Inr visible, s)"
    by (simp add: list_visible_in_range_def)
  obtain hidden where h: "list_hidden_in_range (rd_family rd) ?q s = (Inr hidden, s)"
    by (simp add: list_hidden_in_range_def)
  show ?thesis
    by (simp add: list_occurrences_def Inr w Let_def v h audit_groups_noted in_transaction_def) blast
qed

subsection \<open>Erasure\<close>

lemma erase_family_ok:
  assumes ok: "calendar_ok I s"
  shows "calendar_ok I (erase_calendar_for_family fam s)"
proof -
  let ?s = "erase_calendar_for_family fam s"
  have db: "calendar_db s" using ok by (simp add: calendar_ok_def)
  note refs = calendar_dbD(4) [OF db]
  have "calendar_db ?s"
    unfolding calendar_db_def
  proof (intro conjI)
    show "event_table.sound (event_rows ?s)"
      using calendar_dbD(1) [OF db] by (auto simp: event_table.sound_def erase_calendar_for_family_def distinct_key_delete)
    note o = occurrence_soundD [OF calendar_dbD(2) [OF db]]
    show "occurrence_table.sound (occurrence_rows ?s)"
      using o by (intro occurrence_soundI) (auto simp: erase_calendar_for_family_def distinct_key_delete)
    show "distinct (map participant_key (participant_rows ?s))"
      using calendar_dbD(3) [OF db] by (simp add: erase_calendar_for_family_def distinct_key_delete)
    have "(i, f) \<in> event_refs ?s" if "(i, f) \<in> event_refs s" "f \<noteq> fam" for i f
      using that by (auto simp: event_refs_def erase_calendar_for_family_def)
    then show "calendar_refs ?s"
      using refs by (auto simp: calendar_refs_def) (auto simp: erase_calendar_for_family_def)
    show "supply_ok ?s"
      using calendar_dbD(5) [OF db] by (auto simp: supply_ok_def erase_calendar_for_family_def)
  qed
  moreover have "events_ok I ?s {}"
    unfolding events_ok_def
  proof (intro ballI impI)
    fix r assume "r \<in> set (event_rows ?s)"
    then have r: "r \<in> set (event_rows s)" "er_family r \<noteq> fam" by (simp_all add: erase_calendar_for_family_def)
    with ok obtain e where e: "to_event r [] = Inr e" "event_inv e" "materialised I s e"
      by (auto simp: calendar_ok_def events_ok_def)
    have "(ce_id e, er_family r) \<in> event_refs s" using r(1) to_event_sel [OF e(1)] by (auto simp: event_refs_def)
    then have "ow_family x \<noteq> fam" if "x \<in> set (occurrence_rows s)" "ow_event x = ce_id e" for x
      using occurrence_family [OF db _ that] r(2) by simp
    then have "{x \<in> set (occurrence_rows ?s). ow_event x = ce_id e} = {x \<in> set (occurrence_rows s). ow_event x = ce_id e}"
      by (auto simp: erase_calendar_for_family_def)
    then have "spans ?s (ce_id e) = spans s (ce_id e)" by (simp add: spans_def)
    from materialised_same [OF e(3) this] e(1,2)
    show "\<exists>e. to_event r [] = Inr e \<and> event_inv e \<and> materialised I ?s e"
      by (auto simp: erase_calendar_for_family_def)
  qed
  ultimately show ?thesis by (simp add: calendar_ok_def)
qed

lemma participants_shrink:
  assumes "calendar_ok I s" "set rows \<subseteq> set (participant_rows s)" "distinct (map participant_key rows)"
  shows "calendar_ok I (s\<lparr>participant_rows := rows\<rparr>)"
  using assms by (auto simp: calendar_ok_def calendar_db_def calendar_refs_def event_refs_def supply_ok_def)

lemma erase_member_ok:
  assumes ok: "calendar_ok I s"
  shows "calendar_ok I (erase_calendar_for_member m s)"
proof -
  define del :: "participant_row list \<Rightarrow> family_id \<Rightarrow> participant_row list" where "del = (\<lambda>rows fam. tbl_delete (\<lambda>p. pa_member p = m \<and> pa_family p = fam) rows)"
  have "set (foldl del rows fams) \<subseteq> set rows \<and> (distinct (map participant_key rows) \<longrightarrow> distinct (map participant_key (foldl del rows fams)))"
    for rows fams
  proof (induction fams arbitrary: rows)
    case (Cons f fams)
    show ?case using Cons.IH [of "del rows f"] by (auto simp: del_def distinct_key_delete)
  qed simp
  then show ?thesis
    unfolding erase_calendar_for_member_def Let_def del_def [symmetric]
    using ok by (intro participants_shrink) (auto simp: calendar_ok_def calendar_db_def)
qed

section \<open>The system\<close>

datatype calendar_command =
    CreateEvent event_params string
  | UpdateEvent reader event_id event_patch
  | CancelEvent reader event_id
  | CancelOccurrence reader event_id occurrence_id
  | RescheduleOccurrence reader event_id occurrence_id
  | MaterialiseHorizon family_id event_id string
  | PruneTrailing family_id
  | GetEvent reader event_id
  | ListOccurrences reader "int option" "int option"

text \<open>The store after a command, with one clock for the application and the database.\<close>

fun calendar_after :: "intl \<Rightarrow> visibility_port \<Rightarrow> calendar_command \<Rightarrow> calendar_store \<Rightarrow> calendar_store" where
  "calendar_after I port (CreateEvent c cid) s = snd (create_event I c cid (cs_now s) s)"
| "calendar_after I port (UpdateEvent rd i patch) s = snd (update_event I port rd i patch (cs_now s) s)"
| "calendar_after I port (CancelEvent rd i) s = snd (cancel_event port rd i (cs_now s) s)"
| "calendar_after I port (CancelOccurrence rd i occ) s = snd (cancel_occurrence port rd i occ (cs_now s) s)"
| "calendar_after I port (RescheduleOccurrence rd i occ) s = snd (reschedule_occurrence port rd i occ s)"
| "calendar_after I port (MaterialiseHorizon fam i cid) s = snd (materialise_horizon I fam i cid (cs_now s) s)"
| "calendar_after I port (PruneTrailing fam) s = snd (prune_trailing fam (cs_now s) s)"
| "calendar_after I port (GetEvent rd i) s = snd (get_event port rd i s)"
| "calendar_after I port (ListOccurrences rd lo hi) s = snd (list_occurrences I port rd lo hi s)"

fun calendar_admissible :: "calendar_command \<Rightarrow> bool" where
  "calendar_admissible (CreateEvent c cid) = storable_timing (ec_timing c)"
| "calendar_admissible (UpdateEvent rd i patch) = storable_event_patch patch"
| "calendar_admissible _ = True"

definition calendar_empty :: "calendar_store \<Rightarrow> bool" where
  "calendar_empty s \<longleftrightarrow>
     event_rows s = [] \<and> occurrence_rows s = [] \<and> participant_rows s = [] \<and> inj (cs_supply s)"

text \<open>
  Besides the commands: time passes, families and members are added by the Family context, a family
  is erased with its members, and a member is erased.
\<close>

inductive calendar_reachable :: "intl \<Rightarrow> calendar_store \<Rightarrow> bool" for I where
  initial: "calendar_empty s \<Longrightarrow> calendar_reachable I s"
| command: "calendar_reachable I s \<Longrightarrow> calendar_admissible c \<Longrightarrow> calendar_reachable I (calendar_after I port c s)"
| clock: "calendar_reachable I s \<Longrightarrow> cs_now s \<le> t \<Longrightarrow> calendar_reachable I (s\<lparr>cs_now := t\<rparr>)"
| joined: "calendar_reachable I s \<Longrightarrow> set (cs_families s) \<subseteq> set fams \<Longrightarrow> set (cs_members s) \<subseteq> set ms \<Longrightarrow>
    calendar_reachable I (s\<lparr>cs_families := fams, cs_members := ms\<rparr>)"
| family_erased: "calendar_reachable I s \<Longrightarrow> calendar_reachable I ((erase_calendar_for_family fam s)
    \<lparr>cs_families := filter (\<lambda>f. f \<noteq> fam) (cs_families s), cs_members := filter (\<lambda>m. snd m \<noteq> fam) (cs_members s)\<rparr>)"
| member_erased: "calendar_reachable I s \<Longrightarrow> calendar_reachable I (erase_calendar_for_member m s)"

lemma calendar_after_ok:
  "calendar_ok I s \<Longrightarrow> calendar_admissible c \<Longrightarrow> calendar_ok I (calendar_after I port c s)"
proof (cases c)
  case (GetEvent rd i)
  assume "calendar_ok I s"
  then show ?thesis using get_event_notes [of I s port rd i] by (auto simp: GetEvent)
next
  case (ListOccurrences rd lo hi)
  assume "calendar_ok I s"
  then show ?thesis using list_occurrences_notes [of I port rd lo hi s] by (auto simp: ListOccurrences)
next
  case (RescheduleOccurrence rd i occ)
  assume "calendar_ok I s"
  then show ?thesis using reschedule_occurrence_notes [of I s port rd i occ] by (auto simp: RescheduleOccurrence)
qed (simp_all add: cancel_occurrence_ok calendar_stepD(1) [OF create_event_ok] calendar_stepD(1) [OF update_event_ok]
    calendar_stepD(1) [OF cancel_event_ok] calendar_stepD(1) [OF materialise_horizon_ok]
    calendar_stepD(1) [OF prune_trailing_ok])

lemma calendar_clock_ok: "calendar_ok I s \<Longrightarrow> cs_now s \<le> t \<Longrightarrow> calendar_ok I (s\<lparr>cs_now := t\<rparr>)"
  using materialised_mono [of I s _ _ "s\<lparr>cs_now := t\<rparr>"]
  by (auto simp: calendar_ok_def events_ok_def same_schedule_def)

lemma joined_ok:
  "calendar_ok I s \<Longrightarrow> set (cs_families s) \<subseteq> set fams \<Longrightarrow> set (cs_members s) \<subseteq> set ms \<Longrightarrow>
     calendar_ok I (s\<lparr>cs_families := fams, cs_members := ms\<rparr>)"
  by (auto simp: calendar_ok_def events_ok_def calendar_db_def calendar_refs_def event_refs_def supply_ok_def)

lemma family_gone_ok:
  assumes "calendar_ok I s"
  shows "calendar_ok I ((erase_calendar_for_family fam s)
    \<lparr>cs_families := filter (\<lambda>f. f \<noteq> fam) (cs_families s), cs_members := filter (\<lambda>m. snd m \<noteq> fam) (cs_members s)\<rparr>)"
proof -
  have "calendar_refs s" using assms by (simp add: calendar_ok_def calendar_db_def)
  then show ?thesis
    using erase_family_ok [OF assms, of fam]
    by (auto simp: calendar_ok_def events_ok_def calendar_db_def calendar_refs_def event_refs_def supply_ok_def
        erase_calendar_for_family_def)
qed

lemma reachable_calendar_ok: "calendar_reachable I s \<Longrightarrow> calendar_ok I s"
proof (induction rule: calendar_reachable.induct)
  case (initial s)
  then show ?case
    by (simp add: calendar_ok_def events_ok_def calendar_db_def calendar_empty_def event_table.sound_def
        occurrence_table.sound_def calendar_refs_def supply_ok_def)
qed (simp_all add: calendar_after_ok calendar_clock_ok joined_ok family_gone_ok erase_member_ok)

end
