(* ===== verification/Calendar_Example.thy ===== *)
theory Calendar_Example
  imports Calendar_System
begin

text \<open>
  A yearly birthday, created on an empty calendar: the store the Calendar properties are applied
  to. It has an occurrence this year and one next year, inside the window of 400 days.
\<close>

definition birthday_params :: event_params where
  "birthday_params =
     \<lparr>ec_id = EventId ''birthday'', ec_family = FamilyId ''home'', ec_title = ''Mia turns six'',
      ec_description = None, ec_location = None, ec_category = None,
      ec_timing = Timed (Some 1767258000000) (Some 1767265200000), ec_zone = ''UTC'',
      ec_rule = Some ''FREQ=YEARLY'', ec_refs = [], ec_participants = [MemberId ''mia''],
      ec_created_by = Some (MemberId ''ann'')\<rparr>"

definition empty_calendar :: calendar_store where
  "empty_calendar =
     \<lparr>event_rows = [], occurrence_rows = [], participant_rows = [], cs_families = [FamilyId ''home''],
      cs_members = [(MemberId ''ann'', FamilyId ''home''), (MemberId ''mia'', FamilyId ''home'')],
      cs_outbox = [], cs_audit = [], cs_supply = \<lambda>n. OccurrenceId (replicate n CHR ''x''), cs_used = 0,
      cs_now = 1767225600000\<rparr>"

definition yearly :: rrule where
  "yearly = \<lparr>r_freq = YEARLY, r_interval = 1, r_count = None, r_until = None, r_by_day = [],
     r_by_month_day = [], r_by_month = [], r_wkst = MO\<rparr>"

definition birthday_event :: calendar_event where
  "birthday_event =
     \<lparr>ce_id = EventId ''birthday'', ce_family = FamilyId ''home'', ce_title = ''Mia turns six'',
      ce_description = None, ce_location = None, ce_category = None,
      ce_timing = Timed 1767258000000 1767265200000, ce_zone = ''UTC'', ce_rule = Some yearly, ce_refs = [],
      ce_status = EventConfirmed, ce_participants = [MemberId ''mia''], ce_through = None,
      ce_created_by = Some (MemberId ''ann''), ce_created_at = 1767225600000, ce_updated_at = 1767225600000\<rparr>"

lemma birthday_created: "event_create london_intl birthday_params 1767225600000 = Inr birthday_event"
proof -
  have "rule_parse ''FREQ=YEARLY'' = Inr yearly" by code_simp
  moreover have "is_valid_time_zone london_intl ''UTC''" by code_simp
  moreover have "trim ''Mia turns six'' = ''Mia turns six''" by code_simp
  ultimately show ?thesis
    by (simp add: event_create_def birthday_params_def birthday_event_def Let_def and_then_def validate_timing_def
        validate_time_zone_def parse_event_rule_def map_result_def normalise_optional_text_def unique_def)
qed

abbreviation (input) birthday_window :: "int \<times> int" where
  "birthday_window \<equiv> (1732665600000, 1801785600000)"

lemma birthday_window: "materialisation_window 1767225600000 = birthday_window"
  by (simp add: materialisation_window_def horizon_days_def trailing_days_def ms_per_day_def)


definition birthday_input :: expand_input where
  "birthday_input =
     \<lparr>in_rule = yearly, in_dtstart = at_time (ymd 2026 1 1) 9 0 0, in_zone = ''UTC'',
      win_from = 1732665600000, win_to = 1801785600000, in_max = None\<rparr>"

lemma birthday_series: "series_input london_intl birthday_event yearly birthday_window = birthday_input"
proof -
  have "local_of_ms 1767258000000 = at_time (ymd 2026 1 1) 9 0 0" by code_simp
  then show ?thesis
    by (simp add: series_input_def birthday_input_def series_start_def birthday_event_def utc_reading)
qed

lemma birthday_dates:
  "valid_local (at_time (ymd 2026 1 1) 9 0 0)" "valid_local (at_time (ymd 2027 1 1) 9 0 0)"
  "local_as_utc_ms (at_time (ymd 2026 1 1) 9 0 0) = 1767258000000"
  "local_as_utc_ms (at_time (ymd 2027 1 1) 9 0 0) = 1798794000000"
  "local_of_ms 1732665600000 = at_time (ymd 2024 11 27) 0 0 0"
  "local_of_ms 1801785600000 = at_time (ymd 2027 2 5) 0 0 0"
  "compare_local_dates (period_start yearly (ymd 2026 1 1) 0) (add_days (ymd 2027 2 5) 1) = -401"
  "compare_local_dates (period_start yearly (ymd 2026 1 1) 1) (add_days (ymd 2027 2 5) 1) = -36"
  "compare_local_dates (period_start yearly (ymd 2026 1 1) 2) (add_days (ymd 2027 2 5) 1) = 329"
  "periods_between yearly (ymd 2026 1 1) (add_days (ymd 2024 11 27) (- 2)) = -2"
  by code_simp+


lemma birthday_candidates:
  "candidates_for_period yearly (ymd 2026 1 1) 0 = [ymd 2026 1 1]"
  "candidates_for_period yearly (ymd 2026 1 1) 1 = [ymd 2027 1 1]"
proof -
  have r: "resolve_month_day 2026 1 1 = Some (ymd 2026 1 1)" "resolve_month_day 2027 1 1 = Some (ymd 2027 1 1)"
    by code_simp+
  show "candidates_for_period yearly (ymd 2026 1 1) 0 = [ymd 2026 1 1]"
    "candidates_for_period yearly (ymd 2026 1 1) 1 = [ymd 2027 1 1]"
    by (simp_all add: candidates_for_period_def period_dates_def yearly_dates_def yearly_def r map_filter_simps
        map_entries_def tbl_upsert_def tbl_find_def)
qed

lemma birthday_expand:
  "expand london_intl birthday_input = Inr
     \<lparr>occurrences = [\<lparr>ex_local = at_time (ymd 2026 1 1) 9 0 0, ex_instant = 1767258000000\<rparr>,
        \<lparr>ex_local = at_time (ymd 2027 1 1) 9 0 0, ex_instant = 1798794000000\<rparr>], exhausted = False\<rparr>"
proof -
  have f: "in_rule birthday_input = yearly" "in_dtstart birthday_input = at_time (ymd 2026 1 1) 9 0 0"
    "in_zone birthday_input = ''UTC''" "win_from birthday_input = 1732665600000" "win_to birthday_input = 1801785600000"
    "r_count yearly = None" "r_until yearly = None" "expand_limit birthday_input = 1000"
    "date_of (at_time d h m x) = d" "with_time d (at_time (ymd 2026 1 1) 9 0 0) = at_time d 9 0 0" for d h m x
    by (simp_all add: birthday_input_def yearly_def expand_limit_def max_occurrences_default_def date_of_def with_time_def)
  have "first_period london_intl birthday_input = 0"
    by (simp add: first_period_def f utc_reading birthday_dates)
  then show ?thesis
    unfolding expand_def
    using scan_periods.simps [of london_intl birthday_input "ymd 2027 2 5" 0 max_periods "[]" 0]
      scan_periods.simps [of london_intl birthday_input "ymd 2027 2 5" 1 max_periods
        "[\<lparr>ex_local = at_time (ymd 2026 1 1) 9 0 0, ex_instant = 1767258000000\<rparr>]" 1]
      scan_periods.simps [of london_intl birthday_input "ymd 2027 2 5" 2 max_periods
        "[\<lparr>ex_local = at_time (ymd 2026 1 1) 9 0 0, ex_instant = 1767258000000\<rparr>,
          \<lparr>ex_local = at_time (ymd 2027 1 1) 9 0 0, ex_instant = 1798794000000\<rparr>]" 2]
    by (simp add: f utc_reading birthday_dates birthday_candidates max_periods_def utc_instant beyond_until_def Let_def
      compare_local_date_times_def)
qed


text \<open>The store after the command.\<close>

definition birthday_row :: event_row where
  "birthday_row = (new_event_row (FamilyId ''home'') birthday_event)\<lparr>er_through := Some 1801785600000\<rparr>"

definition birthday_occurrences :: "occurrence_row list" where
  "birthday_occurrences =
     [\<lparr>ow_id = OccurrenceId [], ow_family = FamilyId ''home'', ow_event = EventId ''birthday'',
        ow_starts = 1767258000000, ow_ends = 1767265200000, ow_cancelled = None\<rparr>,
      \<lparr>ow_id = OccurrenceId ''x'', ow_family = FamilyId ''home'', ow_event = EventId ''birthday'',
        ow_starts = 1798794000000, ow_ends = 1798801200000, ow_cancelled = None\<rparr>]"

lemma birthday_plan:
  "plan_occurrences london_intl birthday_event birthday_window = Inr
     \<lparr>pl_planned = [\<lparr>po_starts = 1767258000000, po_ends = 1767265200000\<rparr>,
        \<lparr>po_starts = 1798794000000, po_ends = 1798801200000\<rparr>],
      pl_through = Some 1801785600000, pl_scope = Some 1732665600000\<rparr>"
proof -
  have "ce_rule birthday_event = Some yearly" "ce_timing birthday_event = Timed 1767258000000 1767265200000"
    by (simp_all add: birthday_event_def)
  then show ?thesis
    by (simp add: plan_occurrences_def birthday_series birthday_expand and_then_def planned_of_def)
qed

definition birthday_calendar :: calendar_store where
  "birthday_calendar =
     empty_calendar\<lparr>event_rows := [birthday_row], occurrence_rows := birthday_occurrences,
       participant_rows := [\<lparr>pa_event = EventId ''birthday'', pa_family = FamilyId ''home'',
         pa_member = MemberId ''mia'', pa_added = 1767225600000\<rparr>],
       cs_outbox := [event_created_event (FamilyId ''home'') (EventId ''birthday'') TimedKind True ''c1'',
         occurrence_materialised_event (FamilyId ''home'') (EventId ''birthday'') birthday_window 2 ''c1''],
       cs_used := 2\<rparr>"


lemma birthday_checks:
  "event_checks (new_event_row (FamilyId ''home'') birthday_event)" "event_checks birthday_row"
  by (simp_all add: event_checks_def event_shape_def event_order_def zone_present_def birthday_row_def
      new_event_row_def event_columns_def birthday_event_def kind_of_def)

lemma birthday_saves:
  "event_rows s = [] \<Longrightarrow> FamilyId ''home'' \<in> set (cs_families s) \<Longrightarrow>
     save_event (FamilyId ''home'') birthday_event s =
     (Inr (), s\<lparr>event_rows := [new_event_row (FamilyId ''home'') birthday_event]\<rparr>)"
  "event_rows s = [new_event_row (FamilyId ''home'') birthday_event] \<Longrightarrow> FamilyId ''home'' \<in> set (cs_families s) \<Longrightarrow>
     save_event (FamilyId ''home'') (birthday_event\<lparr>ce_through := Some 1801785600000\<rparr>) s =
     (Inr (), s\<lparr>event_rows := [birthday_row]\<rparr>)"
proof -
  have f: "er_family (new_event_row fam e) = fam" "er_id (new_event_row fam e) = ce_id e" for fam e
    by (simp_all add: new_event_row_def event_columns_def)
  have c: "event_columns (birthday_event\<lparr>ce_through := Some 1801785600000\<rparr>)
      (new_event_row (FamilyId ''home'') birthday_event) = birthday_row"
    by (simp add: birthday_row_def new_event_row_def event_columns_def)
  show "event_rows s = [] \<Longrightarrow> FamilyId ''home'' \<in> set (cs_families s) \<Longrightarrow>
     save_event (FamilyId ''home'') birthday_event s =
     (Inr (), s\<lparr>event_rows := [new_event_row (FamilyId ''home'') birthday_event]\<rparr>)"
    by (simp add: save_event_def upsert_def tbl_find_def f birthday_checks)
  show "event_rows s = [new_event_row (FamilyId ''home'') birthday_event] \<Longrightarrow> FamilyId ''home'' \<in> set (cs_families s) \<Longrightarrow>
     save_event (FamilyId ''home'') (birthday_event\<lparr>ce_through := Some 1801785600000\<rparr>) s =
     (Inr (), s\<lparr>event_rows := [birthday_row]\<rparr>)"
    by (simp add: save_event_def upsert_def tbl_find_def f c birthday_checks tbl_update_def)
      (simp add: birthday_row_def f)
qed

lemma birthday_rebuilt:
  assumes "occurrence_rows s = []" "cs_used s = 0" "cs_supply s = (\<lambda>n. OccurrenceId (replicate n CHR ''x''))"
    "(EventId ''birthday'', FamilyId ''home'') \<in> event_refs s"
  shows "rematerialise london_intl (FamilyId ''home'') birthday_event 1767225600000 s =
    (Inr (Inr \<lparr>rm_window = birthday_window, rm_counts = \<lparr>rc_inserted = 2, rc_updated = 0, rc_deleted = 0\<rparr>,
       rm_count = 2, rm_event = birthday_event\<lparr>ce_through := Some 1801785600000\<rparr>\<rparr>),
     s\<lparr>occurrence_rows := birthday_occurrences, cs_used := 2\<rparr>)"
proof -
  let ?ps = "[\<lparr>po_starts = 1767258000000, po_ends = 1767265200000\<rparr>, \<lparr>po_starts = 1798794000000, po_ends = 1798801200000\<rparr>]"
  have id: "ce_id birthday_event = EventId ''birthday''" by (simp add: birthday_event_def)
  have plan: "reconcile ?ps [] = \<lparr>rp_insert = ?ps, rp_update = [], rp_delete = []\<rparr>"
    by (simp add: reconcile_def map_entries_def tbl_find_def)
  have "new_occurrences (FamilyId ''home'') (EventId ''birthday'') ?ps s = birthday_occurrences"
    by (simp add: new_occurrences_def assms birthday_occurrences_def)
  then have "insert_occurrences (FamilyId ''home'') (EventId ''birthday'') ?ps s =
      (Inr 2, s\<lparr>occurrence_rows := birthday_occurrences, cs_used := 2\<rparr>)"
    using assms by (simp add: insert_occurrences_def) (simp add: birthday_occurrences_def occurrence_clash_def
      occurrence_key_def occurrence_order_def)
  then have "apply_plan (FamilyId ''home'') (EventId ''birthday'') (reconcile ?ps []) s =
      (Inr \<lparr>rc_inserted = 2, rc_updated = 0, rc_deleted = 0\<rparr>, s\<lparr>occurrence_rows := birthday_occurrences, cs_used := 2\<rparr>)"
    by (simp add: apply_plan_def plan)
  moreover have "list_for_event (FamilyId ''home'') (EventId ''birthday'') (Some 1732665600000) s = (Inr [], s)"
    by (simp add: list_for_event_def family_occurrences_def assms)
  ultimately show ?thesis
    by (simp add: rematerialise_def Let_def birthday_window birthday_plan id record_materialised_through_def)
qed

lemma catch_returns: "m s = (Inr v, s') \<Longrightarrow> catch_rollback (in_transaction m) s = (Inr v, s')"
  by (simp add: catch_rollback_def in_transaction_def)

lemma birthday_calendar_created:
  "create_event london_intl birthday_params ''c1'' 1767225600000 empty_calendar =
     (Inr (Inr (EventId ''birthday'', \<lparr>rc_inserted = 2, rc_updated = 0, rc_deleted = 0\<rparr>)), birthday_calendar)"
proof -
  let ?s1 = "empty_calendar\<lparr>event_rows := [new_event_row (FamilyId ''home'') birthday_event]\<rparr>"
  let ?s2 = "?s1\<lparr>participant_rows := [\<lparr>pa_event = EventId ''birthday'', pa_family = FamilyId ''home'',
         pa_member = MemberId ''mia'', pa_added = 1767225600000\<rparr>]\<rparr>"
  let ?s3 = "?s2\<lparr>occurrence_rows := birthday_occurrences, cs_used := 2\<rparr>"
  have e: "ce_id birthday_event = EventId ''birthday''" "ce_participants birthday_event = [MemberId ''mia'']"
    "ce_rule birthday_event \<noteq> None" "ce_timing birthday_event = Timed 1767258000000 1767265200000"
    "ec_family birthday_params = FamilyId ''home''" by (simp_all add: birthday_event_def birthday_params_def)
  have m: "FamilyId ''home'' \<in> set (cs_families empty_calendar)"
    "(MemberId ''mia'', FamilyId ''home'') \<in> set (cs_members empty_calendar)" "cs_now empty_calendar = 1767225600000"
    "event_rows empty_calendar = []" "participant_rows empty_calendar = []" "occurrence_rows empty_calendar = []"
    "cs_used empty_calendar = 0" "cs_supply empty_calendar = (\<lambda>n. OccurrenceId (replicate n CHR ''x''))" "cs_outbox empty_calendar = []"
    by (simp_all add: empty_calendar_def)
  have refs: "(EventId ''birthday'', FamilyId ''home'') \<in> event_refs ?s1"
    by (simp add: event_refs_def new_event_row_def event_columns_def e)
  have "save_event (FamilyId ''home'') birthday_event empty_calendar = (Inr (), ?s1)"
    by (rule birthday_saves) (simp_all add: m)
  moreover have "replace_participants (FamilyId ''home'') (EventId ''birthday'') [MemberId ''mia''] ?s1 = (Inr (), ?s2)"
    using refs m by (simp add: replace_participants_def Let_def tbl_delete_def)
  moreover have "rematerialise london_intl (FamilyId ''home'') birthday_event 1767225600000 ?s2 =
    (Inr (Inr \<lparr>rm_window = birthday_window, rm_counts = \<lparr>rc_inserted = 2, rc_updated = 0, rc_deleted = 0\<rparr>,
       rm_count = 2, rm_event = birthday_event\<lparr>ce_through := Some 1801785600000\<rparr>\<rparr>), ?s3)"
    using refs birthday_rebuilt [of ?s2] by (simp add: m event_refs_def)
  moreover have "save_event (FamilyId ''home'') (birthday_event\<lparr>ce_through := Some 1801785600000\<rparr>) ?s3 =
      (Inr (), ?s3\<lparr>event_rows := [birthday_row]\<rparr>)"
    by (rule birthday_saves) (simp_all add: m)
  ultimately show ?thesis
    unfolding create_event_def Let_def e birthday_created tx_ok_simps
    by (intro catch_returns) (simp add: tx_rethrow_def cs_event_def announce_materialised_def kind_of_def
      birthday_calendar_def m e)
qed

lemma birthday_reachable: "calendar_reachable london_intl birthday_calendar"
proof -
  have "calendar_empty empty_calendar"
    by (auto simp: calendar_empty_def empty_calendar_def inj_on_def intro: replicate_eqI)
  then have "calendar_reachable london_intl
      (calendar_after london_intl (\<lambda>_ _. \<lparr>visible_ids = [], guarded_ids = []\<rparr>) (CreateEvent birthday_params ''c1'') empty_calendar)"
    by (intro calendar_reachable.command calendar_reachable.initial) (simp_all add: birthday_params_def storable_timing_def)
  moreover have "cs_now empty_calendar = 1767225600000" by (simp add: empty_calendar_def)
  ultimately show ?thesis by (simp add: birthday_calendar_created)
qed

definition stored_birthday :: calendar_event where
  "stored_birthday = birthday_event\<lparr>ce_through := Some 1801785600000\<rparr>"

lemma birthday_stored: "stored_event birthday_calendar stored_birthday"
proof -
  have v: "event_inv (stored_birthday)"
    by (simp add: stored_birthday_def birthday_event_def event_inv_def yearly_def valid_rule_def ordered_timing_def
        storable_timing_def)
  have r: "birthday_row = new_event_row (FamilyId ''home'') stored_birthday"
    by (simp add: birthday_row_def stored_birthday_def new_event_row_def event_columns_def)
  have "to_event birthday_row [MemberId ''mia''] = Inr stored_birthday"
    using new_event_row_load [OF v, of "FamilyId ''home''" "[MemberId ''mia'']"]
    by (simp add: r) (simp add: stored_birthday_def birthday_event_def)
  moreover have "er_id birthday_row = EventId ''birthday''" "er_family birthday_row = FamilyId ''home''"
    by (simp_all add: birthday_row_def new_event_row_def event_columns_def birthday_event_def)
  moreover have "map pa_member (participants_of (FamilyId ''home'') (EventId ''birthday'') birthday_calendar) = [MemberId ''mia'']"
    by (simp add: participants_of_def birthday_calendar_def)
  ultimately show ?thesis by (simp add: stored_event_def birthday_calendar_def)
qed

end
