(* ===== verification/Calendar_Schedule.thy ===== *)
theory Calendar_Schedule
  imports Calendar_Example
begin

text \<open>
  What the calendar shows: every reachable store holds sound events, each with the occurrences its
  rule schedules; a rebuild reaches its plan and is idempotent; and an occurrence keeps its id and
  its cancellation through every command.
\<close>

section \<open>The invariant\<close>



section \<open>Schedules\<close>

lemma planned_end_series:
  assumes plan: "plan_occurrences I e w = Inr pl" and rule: "ce_rule e = Some rule"
    and good: "good_input I (series_input I e rule w) off" "near_start (series_input I e rule w)"
  shows "planned_end (pl_planned pl) t = Some b \<longleftrightarrow>
    (\<exists>x. scheduled I (series_input I e rule w) x \<and> in_window (series_input I e rule w) x
       \<and> planned_of I e x = \<lparr>po_starts = t, po_ends = b\<rparr>)"
proof -
  let ?E = "series_input I e rule w"
  obtain x where x: "expand I ?E = Inr x" "pl_planned pl = map (planned_of I e) (occurrences x)"
    using plan rule by (auto simp: plan_occurrences_def and_then_Inr)
  note s = expand_found [OF good x(1)]
  have st: "po_starts (planned_of I e y) = ex_instant y" for y
    by (simp add: planned_of_def split: event_timing.splits)
  then have "distinct (map fst (map (\<lambda>p. (po_starts p, po_ends p)) (pl_planned pl)))"
    using s(2) by (simp add: x(2) comp_def)
  then have "planned_end (pl_planned pl) t = Some b \<longleftrightarrow> (t, b) \<in> (\<lambda>p. (po_starts p, po_ends p)) ` set (pl_planned pl)"
    by (simp add: planned_end_def)
  also have "\<dots> \<longleftrightarrow> (\<exists>y \<in> set (occurrences x). (t, b) = (po_starts (planned_of I e y), po_ends (planned_of I e y)))"
    by (simp add: x(2) image_iff)
  also have "\<dots> \<longleftrightarrow> (\<exists>y \<in> set (occurrences x). planned_of I e y = \<lparr>po_starts = t, po_ends = b\<rparr>)"
  proof (rule bex_cong [OF refl])
    fix y
    show "(t, b) = (po_starts (planned_of I e y), po_ends (planned_of I e y)) \<longleftrightarrow> planned_of I e y = \<lparr>po_starts = t, po_ends = b\<rparr>"
      by (cases "planned_of I e y") auto
  qed
  finally show ?thesis using s(1) by auto
qed

text \<open>
  C15: A recurring event that goes on beyond its horizon is shown as its rule says: from the
  trailing edge of the window up to the horizon there is one occurrence for each instant the rule
  schedules, with the event's duration, and no other.
\<close>

theorem calendar_shows_schedule:
  assumes "calendar_reachable I s" "stored_event s e" "ce_rule e = Some rule" "ce_through e = Some horizon"
    and "E = series_input I e rule (horizon - (trailing_days + horizon_days) * ms_per_day, horizon)"
    and "good_input I E off" "near_start E"
    and "fst (materialisation_window (cs_now s)) \<le> t"
  shows "(\<exists>r \<in> set (occurrence_rows s). ow_event r = ce_id e \<and> ow_starts r = t \<and> ow_ends r = b) \<longleftrightarrow>
    t < horizon \<and> (\<exists>x. scheduled I E x \<and> planned_of I e x = \<lparr>po_starts = t, po_ends = b\<rparr>)"
proof -
  have "materialised I s e" by (rule stored_event_ok(2) [OF reachable_calendar_ok [OF assms(1)] assms(2)])
  then obtain at pl where m: "at \<le> cs_now s" "plan_occurrences I e (materialisation_window at) = Inr pl"
    "ce_through e = pl_through pl"
    "\<And>t b. (t, b) \<in> spans s (ce_id e) \<Longrightarrow> in_scope (pl_scope pl) t \<Longrightarrow> planned_end (pl_planned pl) t = Some b"
    "\<And>t b. planned_end (pl_planned pl) t = Some b \<Longrightarrow>
       pl_scope pl = None \<or> fst (materialisation_window (cs_now s)) \<le> t \<Longrightarrow> (t, b) \<in> spans s (ce_id e)"
    unfolding materialised_def by blast
  have "horizon = snd (materialisation_window at)"
    using m(2,3) assms(3,4) by (auto simp: plan_occurrences_def and_then_Inr split: if_splits)
  then have w: "(horizon - (trailing_days + horizon_days) * ms_per_day, horizon) = materialisation_window at"
    by (simp add: materialisation_window_def algebra_simps)
  have E: "E = series_input I e rule (materialisation_window at)" using assms(5) by (simp only: w)
  note pe = planned_end_series [OF m(2) assms(3) assms(6,7) [unfolded E], folded E]
  have "fst (materialisation_window at) \<le> t" using window_mono [OF m(1)] assms(8) by simp
  then have sc: "in_scope (pl_scope pl) t" and win: "win_from E \<le> t" "win_to E = horizon"
    using plan_scope [OF m(2)] assms(3) w [symmetric] by (auto simp: in_scope_def E series_input_def)
  have st: "ex_instant x = t" if "planned_of I e x = \<lparr>po_starts = t, po_ends = b\<rparr>" for x
    using that by (simp add: planned_of_def split: event_timing.splits)
  have "(t, b) \<in> spans s (ce_id e) \<longleftrightarrow> planned_end (pl_planned pl) t = Some b"
    using m(4,5) sc assms(8) by blast
  also have "\<dots> \<longleftrightarrow> t < horizon \<and> (\<exists>x. scheduled I E x \<and> planned_of I e x = \<lparr>po_starts = t, po_ends = b\<rparr>)"
    unfolding pe in_window_def using win st by auto
  finally show ?thesis by (auto simp: spans_def image_iff)
qed


lemma birthday_series_good: "good_input london_intl birthday_input (\<lambda>_. 0)" "near_start birthday_input"
proof -
  have "valid_rule (in_rule birthday_input)" by (simp add: birthday_input_def yearly_def valid_rule_def)
  moreover have "valid_local (in_dtstart birthday_input)" by code_simp
  moreover have "in_zone birthday_input = ''UTC''" "1 \<le> year (in_dtstart birthday_input)"
    "win_from birthday_input \<le> win_to birthday_input"
    "(first_day + 10) * ms_per_day \<le> win_from birthday_input" "0 \<le> expand_limit birthday_input"
    by (simp_all add: birthday_input_def first_day_def ms_per_day_def expand_limit_def max_occurrences_default_def)
  ultimately show "good_input london_intl birthday_input (\<lambda>_. 0)" using utc_model by (simp add: good_input_def)
  show "near_start birthday_input"
    by (simp add: near_start_def birthday_dates birthday_input_def ms_per_day_def)
qed

lemma calendar_shows_schedule_witness:
  "\<exists>x. scheduled london_intl birthday_input x
     \<and> planned_of london_intl stored_birthday x = \<lparr>po_starts = 1798794000000, po_ends = 1798801200000\<rparr>"
proof -
  have e: "ce_rule stored_birthday = Some yearly" "ce_through stored_birthday = Some 1801785600000"
    "ce_id stored_birthday = EventId ''birthday''"
    by (simp_all add: stored_birthday_def birthday_event_def)
  have "series_input london_intl stored_birthday yearly birthday_window = birthday_input"
    using birthday_series by (simp add: series_input_def series_start_def stored_birthday_def birthday_event_def)
  then have i: "birthday_input = series_input london_intl stored_birthday yearly
      (1801785600000 - (trailing_days + horizon_days) * ms_per_day, 1801785600000)"
    by (simp add: horizon_days_def trailing_days_def ms_per_day_def)
  have now: "fst (materialisation_window (cs_now birthday_calendar)) \<le> 1798794000000"
    by (simp add: birthday_calendar_def empty_calendar_def birthday_window)
  have "\<exists>r \<in> set (occurrence_rows birthday_calendar). ow_event r = ce_id stored_birthday
      \<and> ow_starts r = 1798794000000 \<and> ow_ends r = 1798801200000"
    by (simp add: birthday_calendar_def birthday_occurrences_def e)
  then show ?thesis
    using calendar_shows_schedule [OF birthday_reachable birthday_stored e(1,2) i birthday_series_good now] by simp
qed

section \<open>Rebuilding\<close>

text \<open>
  C16: A rebuild of a stored event's occurrences makes the table what the plan says: outside the
  plan's scope nothing changes; inside it there is one row for each planned start, with the planned
  end, and it is the row that was there, with its id and its cancellation, or a new one that is not
  cancelled. Rebuilding again inserts, updates and deletes nothing.
\<close>

theorem rebuild_reaches_plan:
  assumes "calendar_reachable I s" "stored_event s e"
    and "rematerialise I (ce_family e) e now s = (Inr (Inr m), s')"
  shows "\<exists>pl. plan_occurrences I e (materialisation_window now) = Inr pl
      \<and> rebuilt (ce_id e) (ce_family e) (pl_scope pl) (pl_planned pl) (occurrence_rows s) (occurrence_rows s')
      \<and> rematerialise I (ce_family e) (rm_event m) now s' =
          (Inr (Inr (m\<lparr>rm_counts := \<lparr>rc_inserted = 0, rc_updated = 0, rc_deleted = 0\<rparr>\<rparr>)), s')"
proof -
  have db: "calendar_db s" using reachable_calendar_ok [OF assms(1)] by (simp add: calendar_ok_def)
  from db stored_event_ref [OF assms(2)] show ?thesis
  proof (cases rule: rematerialise_cases [where I = I and now = now])
    case (rebuilt pl m' rows n)
    then have s': "s' = s\<lparr>occurrence_rows := rows, cs_used := n\<rparr>" and m: "m' = m" using assms(3) by simp_all
    note e = rebuilt(3) [unfolded m]
    have p: "plan_occurrences I (rm_event m) (materialisation_window now) = Inr pl"
      using rebuilt(1) plan_same_schedule [of e "rm_event m" I] by (simp add: e same_schedule_def)
    have st: "settled (ce_id (rm_event m)) (pl_scope pl) (pl_planned pl) (occurrence_rows s')"
      using rebuilt_settled [OF rebuilt(6)] by (simp add: e s')
    have ref: "(ce_id (rm_event m), ce_family e) \<in> event_refs s'"
      using stored_event_ref [OF assms(2)] by (simp add: e s' event_refs_def)
    have "rm_event m\<lparr>ce_through := pl_through pl\<rparr> = rm_event m" by (simp add: e)
    moreover have "m\<lparr>rm_counts := c\<rparr> = \<lparr>rm_window = materialisation_window now, rm_counts = c,
        rm_count = length (pl_planned pl), rm_event = rm_event m\<rparr>" for c
      using rebuilt(4,5) m by (cases m) simp
    ultimately have "rematerialise I (ce_family e) (rm_event m) now s' =
          (Inr (Inr (m\<lparr>rm_counts := \<lparr>rc_inserted = 0, rc_updated = 0, rc_deleted = 0\<rparr>\<rparr>)), s')"
      using rematerialise_settled [OF _ ref p st] rebuilt(7) by (simp only: s')
    then show ?thesis using rebuilt(1,6) by (intro exI [of _ pl]) (simp add: s')
  qed (use assms(3) in simp_all)
qed

lemma birthday_again:
  "rematerialise london_intl (FamilyId ''home'') stored_birthday 1767225600000 birthday_calendar =
    (Inr (Inr \<lparr>rm_window = birthday_window, rm_counts = \<lparr>rc_inserted = 0, rc_updated = 0, rc_deleted = 0\<rparr>,
       rm_count = 2, rm_event = stored_birthday\<rparr>), birthday_calendar)"
proof -
  have e: "ce_id stored_birthday = EventId ''birthday''" "ce_family stored_birthday = FamilyId ''home''"
    by (simp_all add: stored_birthday_def birthday_event_def)
  have db: "calendar_db birthday_calendar" using reachable_calendar_ok [OF birthday_reachable] by (simp add: calendar_ok_def)
  have "plan_occurrences london_intl stored_birthday birthday_window = plan_occurrences london_intl birthday_event birthday_window"
    by (rule plan_same_schedule) (simp add: same_schedule_def stored_birthday_def)
  note plan = this [unfolded birthday_plan]
  have "settled (EventId ''birthday'') (Some 1732665600000)
      [\<lparr>po_starts = 1767258000000, po_ends = 1767265200000\<rparr>, \<lparr>po_starts = 1798794000000, po_ends = 1798801200000\<rparr>]
      (occurrence_rows birthday_calendar)"
    by (auto simp: settled_def birthday_calendar_def birthday_occurrences_def mine_def planned_end_def)
  moreover have "(EventId ''birthday'', FamilyId ''home'') \<in> event_refs birthday_calendar"
    using stored_event_ref [OF birthday_stored] by (simp only: e)
  moreover have "stored_birthday\<lparr>ce_through := Some 1801785600000\<rparr> = stored_birthday" by (simp add: stored_birthday_def)
  ultimately show ?thesis
    using rematerialise_settled [OF db, of stored_birthday "FamilyId ''home''" london_intl 1767225600000, unfolded birthday_window, OF _ plan]
    by (simp add: e numeral_2_eq_2)
qed

lemma rebuild_reaches_plan_witness:
  "\<exists>pl. plan_occurrences london_intl stored_birthday birthday_window = Inr pl
     \<and> rebuilt (EventId ''birthday'') (FamilyId ''home'') (pl_scope pl) (pl_planned pl)
         birthday_occurrences birthday_occurrences"
proof -
  have e: "ce_family stored_birthday = FamilyId ''home''" "ce_id stored_birthday = EventId ''birthday''"
    "occurrence_rows birthday_calendar = birthday_occurrences"
    by (simp_all add: stored_birthday_def birthday_event_def birthday_calendar_def)
  from rebuild_reaches_plan [OF birthday_reachable birthday_stored birthday_again [folded e(1)]]
  show ?thesis by (auto simp: e birthday_window)
qed

section \<open>Identity\<close>

lemma erased_or_kept:
  assumes ok: "calendar_ok I s" and c: "\<And>rd i occ. c \<noteq> CancelOccurrence rd i occ" and adm: "calendar_admissible c"
  shows "calendar_step I s (calendar_after I port c s)"
proof (cases c)
  case (GetEvent rd i)
  then show ?thesis using get_event_notes [OF ok, of port rd i] calendar_step_refl [OF ok] by auto
next
  case (ListOccurrences rd lo hi)
  then show ?thesis using list_occurrences_notes [of I port rd lo hi s] calendar_step_refl [OF ok] by auto
next
  case (RescheduleOccurrence rd i occ)
  then show ?thesis using reschedule_occurrence_notes [OF ok, of port rd i occ] calendar_step_refl [OF ok] by auto
qed (use c adm in \<open>simp_all add: create_event_ok [OF ok] update_event_ok [OF ok] cancel_event_ok [OF ok]
    materialise_horizon_ok [OF ok] prune_trailing_ok [OF ok]\<close>)

text \<open>
  C17: An occurrence keeps its identity: whatever command runs, a row that has the event and start
  of an earlier one has its id, and its cancellation. The one change there is is the cancellation of
  an occurrence that was not cancelled, by \<open>cancelOccurrence\<close> of that id, at that moment.
\<close>

theorem occurrence_identity_kept:
  assumes "calendar_reachable I s" "calendar_admissible c"
    and "x \<in> set (occurrence_rows s)" "y \<in> set (occurrence_rows (calendar_after I port c s))"
    and "ow_event y = ow_event x" "ow_starts y = ow_starts x"
  shows "ow_id y = ow_id x
    \<and> (ow_cancelled y = ow_cancelled x
      \<or> ow_cancelled x = None \<and> ow_cancelled y = Some (cs_now s)
        \<and> (\<exists>rd. c = CancelOccurrence rd (ow_event x) (ow_id x)))"
proof -
  have ok: "calendar_ok I s" by (rule reachable_calendar_ok [OF assms(1)])
  then have db: "calendar_db s" by (simp add: calendar_ok_def)
  have key: "occurrence_key y = occurrence_key x" using assms(5,6) by (simp add: occurrence_key_def)
  show ?thesis
  proof (cases "\<exists>rd i occ. c = CancelOccurrence rd i occ")
    case False
    then have "calendar_step I s (calendar_after I port c s)" using erased_or_kept [OF ok _ assms(2)] by blast
    from identities_keptD [OF calendar_stepD(2) [OF this] assms(3,4) key] show ?thesis by simp
  next
    case True
    then obtain rd i occ where c: "c = CancelOccurrence rd i occ" by blast
    from ok show ?thesis
    proof (cases rule: cancel_occurrence_cases [where port = port and rd = rd and i = i and occ = occ and now = "cs_now s"])
      case (unchanged es)
      then have "y \<in> set (occurrence_rows s)" using assms(4) by (simp add: c)
      from occurrence_key_unique [OF db this assms(3,5,6)] show ?thesis by simp
    next
      case (cancelled z ob)
      then obtain r where r: "r \<in> set (occurrence_rows s)"
        "y = (if ow_family r = rd_family rd \<and> ow_id r = occ \<and> ow_cancelled r = None
              then r\<lparr>ow_cancelled := Some (cs_now s)\<rparr> else r)"
        using assms(4) by (auto simp: c set_tbl_update)
      then have "ow_event r = ow_event x" "ow_starts r = ow_starts x" using assms(5,6) by (auto split: if_splits)
      from occurrence_key_unique [OF db r(1) assms(3) this] have rx: "r = x" .
      have "r = z" if "ow_id r = occ"
        using occurrence_table.sound_key [OF calendar_dbD(2) [OF db] r(1) cancelled(1)] that cancelled(2) by simp
      then show ?thesis using r(2) cancelled(3) by (auto simp: rx c)
    qed
  qed
qed

definition ann_reader :: reader where
  "ann_reader = \<lparr>rd_family = FamilyId ''home'', rd_member = MemberId ''ann'', rd_user = None, rd_correlation = ''c2''\<rparr>"

definition ann_sees :: visibility_port where
  "ann_sees = (\<lambda>_ _. \<lparr>visible_ids = [MemberId ''ann'', MemberId ''mia''], guarded_ids = [MemberId ''mia'']\<rparr>)"

lemma ann_finds:
  "lock_visible_event ann_reader (resolve_visibility ann_sees ann_reader) (EventId ''birthday'') birthday_calendar =
     (Inr (Inr stored_birthday), birthday_calendar)"
proof -
  have e: "ce_id stored_birthday = EventId ''birthday''" "ce_family stored_birthday = FamilyId ''home''"
    "ce_participants stored_birthday = [MemberId ''mia'']"
    by (simp_all add: stored_birthday_def birthday_event_def)
  show ?thesis
    using lock_event_stored(1) [OF reachable_calendar_ok [OF birthday_reachable] birthday_stored]
    by (simp add: lock_visible_event_def ann_reader_def e hidden_participants_def resolve_visibility_def ann_sees_def)
qed

lemma birthday_cancelled:
  "occurrence_rows (calendar_after london_intl ann_sees
      (CancelOccurrence ann_reader (EventId ''birthday'') (OccurrenceId ''x'')) birthday_calendar) =
    map (\<lambda>r. if ow_id r = OccurrenceId ''x'' then r\<lparr>ow_cancelled := Some 1767225600000\<rparr> else r) birthday_occurrences"
proof -
  have e: "ce_id stored_birthday = EventId ''birthday''" "rd_family ann_reader = FamilyId ''home''"
    "occurrence_rows birthday_calendar = birthday_occurrences" "cs_now birthday_calendar = 1767225600000"
    by (simp_all add: stored_birthday_def birthday_event_def ann_reader_def birthday_calendar_def empty_calendar_def)
  have "find_occurrence (FamilyId ''home'') (OccurrenceId ''x'') birthday_calendar =
      (Inr (Some (to_occurrence (birthday_occurrences ! 1))), birthday_calendar)"
    by (simp add: find_occurrence_def family_occurrences_def e birthday_occurrences_def tbl_find_def)
  then show ?thesis
    by (simp add: cancel_occurrence_def Let_def find_reachable_occurrence_def ann_finds e in_transaction_def
        to_occurrence_def cancel_occurrence_row_def cs_event_def)
      (simp add: birthday_occurrences_def cancel_occurrence_row_def tbl_update_def e)
qed

lemma occurrence_identity_kept_witness:
  "ow_id (birthday_occurrences ! 1) = OccurrenceId ''x'' \<and>
   (\<exists>rd. CancelOccurrence ann_reader (EventId ''birthday'') (OccurrenceId ''x'') =
      CancelOccurrence rd (EventId ''birthday'') (OccurrenceId ''x''))"
proof -
  let ?x = "birthday_occurrences ! 1"
  let ?y = "?x\<lparr>ow_cancelled := Some 1767225600000\<rparr>"
  have x: "?x \<in> set (occurrence_rows birthday_calendar)" "ow_id ?x = OccurrenceId ''x''" "ow_event ?x = EventId ''birthday''"
    "ow_cancelled ?x = None"
    by (simp_all add: birthday_calendar_def birthday_occurrences_def)
  have y: "?y \<in> set (occurrence_rows (calendar_after london_intl ann_sees
      (CancelOccurrence ann_reader (EventId ''birthday'') (OccurrenceId ''x'')) birthday_calendar))"
    unfolding birthday_cancelled by (simp add: birthday_occurrences_def)
  from occurrence_identity_kept [OF birthday_reachable _ x(1) y] x show ?thesis by simp
qed

end
