(* ===== verification/Calendar_Reads.thy ===== *)
theory Calendar_Reads
  imports Calendar_Schedule
begin

text \<open>
  Who sees what of the calendar: an event with a participant hidden from the reader answers every
  read and write like a missing one, and the range query returns exactly the visible occurrences,
  with an audit entry for each child participation it shows or hides.
\<close>

section \<open>Hidden events\<close>

text \<open>The reader cannot reach the event: there is none, or one with a hidden participant.\<close>

definition out_of_reach :: "calendar_store \<Rightarrow> reader \<Rightarrow> visibility \<Rightarrow> event_id \<Rightarrow> bool" where
  "out_of_reach s rd v i \<longleftrightarrow>
     (\<forall>e. stored_event s e \<longrightarrow> ce_id e = i \<longrightarrow> ce_family e = rd_family rd \<longrightarrow>
        hidden_participants (ce_participants e) v \<noteq> [])"

lemma out_of_reach_cases:
  assumes ok: "calendar_ok I s" and out: "out_of_reach s rd v i"
  obtains ms where "lock_visible_event rd v i s =
       (Inr (Inl NotFound), noted (map (participation_audit rd i ''event change'' Denied) ms) s)"
    "\<And>port. resolve_visibility port rd = v \<Longrightarrow> get_event port rd i s =
       (Inr (Inl NotFound), noted (map (participation_audit rd i ''event detail'' Denied) ms) s)"
    "ms = [] \<longleftrightarrow> (i, rd_family rd) \<notin> event_refs s"
  using ok
proof (cases rule: lock_event_cases [where fam = "rd_family rd" and i = i])
  case none
  then show thesis by (intro that [of "[]"]) (simp_all add: lock_visible_event_def get_event_def Let_def in_transaction_def)
next
  case (some e)
  with out have h: "hidden_participants (ce_participants e) v \<noteq> []" by (auto simp: out_of_reach_def)
  moreover have "(i, rd_family rd) \<in> event_refs s" using stored_event_ref [OF some(3)] some(4,5) by simp
  ultimately show thesis
    using some by (intro that [of "hidden_participants (ce_participants e) v"])
      (simp_all add: lock_visible_event_def get_event_def Let_def in_transaction_def audit_noted)
qed


definition stranger :: reader where
  "stranger = \<lparr>rd_family = FamilyId ''home'', rd_member = MemberId ''bob'', rd_user = None, rd_correlation = ''c3''\<rparr>"


section \<open>The range query\<close>

definition row_key :: "occurrence_row \<Rightarrow> occurrence_id \<times> event_id \<times> int \<times> int \<times> int option" where
  "row_key r = (ow_id r, ow_event r, ow_starts r, ow_ends r, ow_cancelled r)"

definition view_key :: "occurrence_view \<Rightarrow> occurrence_id \<times> event_id \<times> int \<times> int \<times> int option" where
  "view_key v = (ov_id v, ov_event v, ov_starts v, ov_ends v, ov_cancelled v)"

text \<open>A view shows the details of its event.\<close>

definition shows_event :: "occurrence_view \<Rightarrow> calendar_event \<Rightarrow> bool" where
  "shows_event v e \<longleftrightarrow>
     ce_id e = ov_event v \<and> ov_title v = ce_title e \<and> ov_zone v = ce_zone e \<and> ov_location v = ce_location e
     \<and> ov_category v = ce_category e \<and> ov_status v = ce_status e \<and> ov_participants v = ce_participants e
     \<and> ov_kind v = kind_of (ce_timing e)"

lemma to_event_shown:
  "to_event r ms = Inr e \<Longrightarrow> ce_title e = er_title r \<and> ce_zone e = er_zone r \<and> ce_location e = er_location r
     \<and> ce_category e = er_category r \<and> ce_participants e = ms \<and> kind_of (ce_timing e) = er_kind r"
  by (auto simp: to_event_def to_timing_def kind_of_def split: sum.splits option.splits event_kind.splits)

text \<open>The event of an occurrence row.\<close>

lemma family_event:
  assumes ok: "calendar_ok I s" and ref: "(i, fam) \<in> event_refs s"
  obtains r e where "scoped_event fam i s = Some r" "r \<in> set (event_rows s)" "stored_event s e" "ce_id e = i"
    "ce_family e = fam" "to_event r (map pa_member (participants_of fam i s)) = Inr e"
proof -
  have db: "calendar_db s" using ok by (simp add: calendar_ok_def)
  from ref obtain r where r: "r \<in> set (event_rows s)" "er_id r = i" "er_family r = fam"
    by (auto simp: event_refs_def)
  have "scoped_event fam i s \<noteq> None"
    using r by (auto simp: scoped_event_def tbl_find_None)
  then obtain x where x: "scoped_event fam i s = Some x" by blast
  then have "x \<in> set (event_rows s)" "er_id x = i" by (auto simp: scoped_event_def dest: tbl_find_Some)
  with r(1,2) have "x = r" using event_table.sound_key [OF calendar_dbD(1) [OF db]] by simp
  with x have x: "scoped_event fam i s = Some r" by simp
  from ok obtain e0 where e0: "to_event r [] = Inr e0"
    using r(1) by (auto simp: calendar_ok_def events_ok_def)
  let ?ms = "map pa_member (participants_of fam i s)"
  have e: "to_event r ?ms = Inr (e0\<lparr>ce_participants := ?ms\<rparr>)" using to_event_participants [OF e0, of ?ms] by simp
  then have "stored_event s (e0\<lparr>ce_participants := ?ms\<rparr>)"
    using r by (auto simp: stored_event_def)
  then show thesis using that [OF x r(1) _ _ _ e] to_event_sel [OF e0] r(2,3) by simp
qed

lemma participants_in:
  "set (map pa_member (participants_of fam i s)) = {pa_member p | p. p \<in> set (participant_rows s) \<and> pa_event p = i \<and> pa_family p = fam}"
  by (auto simp: participants_of_def)

text \<open>The audit entries of a page.\<close>

lemma group_entries_in:
  "set (group_entries rd res (group_by_event ev mem rows)) =
     {participation_audit rd (ev r) ''calendar range'' res m | r m. r \<in> set rows \<and> m \<in> set (mem r)}"
  by (auto simp: group_entries_def group_by_event_def) metis

lemma map_filter_total:
  "(\<And>x. x \<in> set xs \<Longrightarrow> \<exists>y. f x = Some y) \<Longrightarrow> List.map_filter f xs = map (the \<circ> f) xs"
  by (induction xs) (force simp: map_filter_simps)+


definition reads :: "family_id \<Rightarrow> range_query \<Rightarrow> visibility \<Rightarrow> calendar_store \<Rightarrow> occurrence_row \<Rightarrow> bool" where
  "reads fam q v s r \<longleftrightarrow>
     ow_family r = fam \<and> overlaps q r
     \<and> (\<exists>e. stored_event s e \<and> ce_id e = ow_event r \<and> hidden_participants (ce_participants e) v = [])"

lemma visible_views:
  assumes ok: "calendar_ok I s" and q: "rq_visible q = visible_ids v"
    and run: "list_visible_in_range I fam q s = (Inr views, s')"
  shows "view_key ` set views = row_key ` {r \<in> set (occurrence_rows s). reads fam q v s r}"
    "sorted_wrt (\<lambda>a b. ov_starts a < ov_starts b \<or> ov_starts a = ov_starts b \<and> ov_id a < ov_id b) views"
    "w \<in> set views \<Longrightarrow> \<exists>e. stored_event s e \<and> ce_family e = fam \<and> shows_event w e"
proof -
  have db: "calendar_db s" using ok by (simp add: calendar_ok_def)
  note refs = calendar_dbD(4) [OF db]
  let ?f = "\<lambda>r. map_option (\<lambda>e. occurrence_view_of I fam s e r) (scoped_event fam (ow_event r) s)"
  have ref: "(ow_event r, fam) \<in> event_refs s" if "r \<in> set (range_rows fam q s)" for r
    using refs that by (auto simp: range_rows_def family_occurrences_def calendar_refs_def)
  have f: "\<exists>y. ?f r = Some y \<and> view_key y = row_key r \<and> (\<exists>e. stored_event s e \<and> ce_family e = fam \<and> shows_event y e)"
    if r: "r \<in> set (range_rows fam q s)" for r
  proof -
    obtain x e where e: "scoped_event fam (ow_event r) s = Some x" "stored_event s e" "ce_id e = ow_event r" "ce_family e = fam"
      "to_event x (map pa_member (participants_of fam (ow_event r) s)) = Inr e"
      using family_event [OF ok ref [OF r]] by blast
    have "shows_event (occurrence_view_of I fam s x r) e"
      using to_event_shown [OF e(5)] to_event_sel [OF e(5)] e(3) by (simp add: shows_event_def occurrence_view_of_def)
    then show ?thesis using e(1,2,4) by (auto simp: view_key_def row_key_def occurrence_view_of_def)
  qed
  have views: "views = map (the \<circ> ?f) (range_rows fam q s)"
  proof -
    have "views = List.map_filter ?f (range_rows fam q s)" using run by (auto simp: list_visible_in_range_def)
    also have "\<dots> = map (the \<circ> ?f) (range_rows fam q s)" using f by (intro map_filter_total) blast
    finally show ?thesis .
  qed
  have key: "view_key ((the \<circ> ?f) r) = row_key r" if "r \<in> set (range_rows fam q s)" for r
    using f [OF that] by auto
  have vis: "all_visible fam q s (ow_event r) \<longleftrightarrow>
      (\<exists>e. stored_event s e \<and> ce_id e = ow_event r \<and> hidden_participants (ce_participants e) v = [])"
    if ref': "(ow_event r, fam) \<in> event_refs s" for r
  proof -
    obtain x e where e: "stored_event s e" "ce_id e = ow_event r"
      "to_event x (map pa_member (participants_of fam (ow_event r) s)) = Inr e"
      using family_event [OF ok ref'] by blast
    have u: "e' = e" if "stored_event s e'" "ce_id e' = ow_event r" for e'
      using stored_event_unique [OF db that(1) e(1)] that(2) e(2) by simp
    have "set (ce_participants e) = {pa_member p | p. p \<in> set (participant_rows s) \<and> pa_event p = ow_event r \<and> pa_family p = fam}"
      using to_event_shown [OF e(3)] participants_in [of fam "ow_event r" s] by simp
    then have "all_visible fam q s (ow_event r) \<longleftrightarrow> hidden_participants (ce_participants e) v = []"
      by (auto simp: all_visible_def list_ex_iff hidden_participants_def filter_empty_conv q)
    then show ?thesis using e(1,2) u by blast
  qed
  have rr: "set (range_rows fam q s) = {r \<in> set (occurrence_rows s). reads fam q v s r}"
  proof -
    have "(ow_event r, ow_family r) \<in> event_refs s" if "r \<in> set (occurrence_rows s)" for r
      using refs that by (simp add: calendar_refs_def)
    then show ?thesis using vis by (auto simp: range_rows_def family_occurrences_def reads_def)
  qed
  show "view_key ` set views = row_key ` {r \<in> set (occurrence_rows s). reads fam q v s r}"
    unfolding views rr [symmetric] set_map image_image by (rule image_cong [OF refl key])
  have "distinct (map ow_id (filter (\<lambda>r. overlaps q r \<and> all_visible fam q s (ow_event r)) (family_occurrences fam s)))"
    using occurrence_soundD(1) [OF calendar_dbD(2) [OF db]] by (simp add: family_occurrences_def distinct_map_filter)
  from sort_by_then [OF this, of ow_starts]
  have so: "sorted_wrt (\<lambda>a b. ow_starts a < ow_starts b \<or> ow_starts a = ow_starts b \<and> ow_id a < ow_id b) (range_rows fam q s)"
    by (simp add: range_rows_def)
  have k: "ov_starts ((the \<circ> ?f) r) = ow_starts r \<and> ov_id ((the \<circ> ?f) r) = ow_id r" if "r \<in> set (range_rows fam q s)" for r
    using key [OF that] by (simp add: view_key_def row_key_def)
  show "sorted_wrt (\<lambda>a b. ov_starts a < ov_starts b \<or> ov_starts a = ov_starts b \<and> ov_id a < ov_id b) views"
    unfolding views sorted_wrt_map by (rule sorted_wrt_mono_rel [OF _ so]) (simp only: k)
  show "\<exists>e. stored_event s e \<and> ce_family e = fam \<and> shows_event w e" if "w \<in> set views"
  proof -
    from that obtain r where r: "r \<in> set (range_rows fam q s)" "w = (the \<circ> ?f) r" unfolding views by auto
    with f [OF r(1)] show ?thesis by auto
  qed
qed

lemma hidden_views:
  assumes ok: "calendar_ok I s" and q: "rq_visible q = visible_ids v"
    and run: "list_hidden_in_range fam q s = (Inr hidden, s')"
  shows "set hidden = {(i, m) | i m. m \<notin> set (visible_ids v)
    \<and> (\<exists>e. stored_event s e \<and> ce_id e = i \<and> ce_family e = fam \<and> m \<in> set (ce_participants e))
    \<and> (\<exists>r \<in> set (occurrence_rows s). ow_event r = i \<and> ow_family r = fam \<and> overlaps q r)}"
proof -
  have db: "calendar_db s" using ok by (simp add: calendar_ok_def)
  note refs = calendar_dbD(4) [OF db]
  have p: "(\<exists>e. stored_event s e \<and> ce_id e = i \<and> ce_family e = fam \<and> m \<in> set (ce_participants e)) \<longleftrightarrow>
      (\<exists>p \<in> set (participant_rows s). pa_event p = i \<and> pa_family p = fam \<and> pa_member p = m)" for i m
  proof (cases "(i, fam) \<in> event_refs s")
    case True
    obtain x e where e: "stored_event s e" "ce_id e = i" "ce_family e = fam"
      "to_event x (map pa_member (participants_of fam i s)) = Inr e"
      using family_event [OF ok True] by blast
    have u: "e' = e" if "stored_event s e'" "ce_id e' = i" for e'
      using stored_event_unique [OF db that(1) e(1)] that(2) e(2) by simp
    have "set (ce_participants e) = {pa_member p | p. p \<in> set (participant_rows s) \<and> pa_event p = i \<and> pa_family p = fam}"
      using to_event_shown [OF e(4)] participants_in [of fam i s] by simp
    then have "m \<in> set (ce_participants e) \<longleftrightarrow>
        (\<exists>p \<in> set (participant_rows s). pa_event p = i \<and> pa_family p = fam \<and> pa_member p = m)" by auto
    then show ?thesis using e(1-3) u by blast
  next
    case False
    have "\<not> (stored_event s e \<and> ce_id e = i \<and> ce_family e = fam)" for e
      using stored_event_ref [of s e] False by auto
    moreover have "\<not> (pa_event p = i \<and> pa_family p = fam)" if "p \<in> set (participant_rows s)" for p
      using refs that False by (auto simp: calendar_refs_def)
    ultimately show ?thesis by blast
  qed
  have "set hidden = (\<lambda>p. (pa_event p, pa_member p)) ` {p \<in> set (participant_rows s). pa_family p = fam
      \<and> pa_member p \<notin> set (visible_ids v)
      \<and> (\<exists>r \<in> set (occurrence_rows s). ow_event r = pa_event p \<and> ow_family r = fam \<and> overlaps q r)}" (is "_ = ?H")
  proof -
    have "hidden = unique (map (\<lambda>p. (pa_event p, pa_member p))
       (sort_key (\<lambda>p. event_text (pa_event p)) (sort_key (\<lambda>p. member_text (pa_member p))
         (filter (\<lambda>p. pa_family p = fam \<and> pa_member p \<notin> set (visible_ids v)
            \<and> list_ex (\<lambda>r. ow_event r = pa_event p \<and> overlaps q r) (family_occurrences fam s))
           (participant_rows s)))))"
      using run by (auto simp: list_hidden_in_range_def q)
    then have "set hidden = (\<lambda>p. (pa_event p, pa_member p)) ` {p \<in> set (participant_rows s). pa_family p = fam
        \<and> pa_member p \<notin> set (visible_ids v)
        \<and> list_ex (\<lambda>r. ow_event r = pa_event p \<and> overlaps q r) (family_occurrences fam s)}"
      by (simp only: set_unique set_map set_sort set_filter)
    also have "\<dots> = ?H" by (rule image_cong [OF _ refl]) (auto simp: list_ex_iff family_occurrences_def)
    finally show ?thesis .
  qed
  then show ?thesis unfolding p by auto
qed

text \<open>
  C19: The range query over at most 400 days returns exactly the occurrences of the family that
  overlap the range and whose event hides no participant from the reader, once each, in the order of
  their starts and ids, each with the details of its event. The audit log gains a grant for each
  guarded child of an event shown and a denial for each hidden participant of an event withheld, and
  nothing else changes.
\<close>

theorem list_occurrences_exact:
  assumes "calendar_reachable I s" "a < b" "b - a \<le> event_range_days * ms_per_day"
    and "v = resolve_visibility port rd" "q = \<lparr>rq_from = a, rq_to = b, rq_visible = visible_ids v\<rparr>"
  shows "\<exists>views entries. list_occurrences I port rd (Some a) (Some b) s = (Inr (Inr views), noted entries s)
    \<and> view_key ` set views = row_key ` {r \<in> set (occurrence_rows s). reads (rd_family rd) q v s r}
    \<and> sorted_wrt (\<lambda>x y. ov_starts x < ov_starts y \<or> ov_starts x = ov_starts y \<and> ov_id x < ov_id y) views
    \<and> (\<forall>w \<in> set views. \<exists>e. stored_event s e \<and> ce_family e = rd_family rd \<and> shows_event w e)
    \<and> set entries =
        {participation_audit rd (ov_event w) ''calendar range'' Granted m | w m.
           w \<in> set views \<and> m \<in> set (ov_participants w) \<and> m \<in> set (guarded_ids v)}
        \<union> {participation_audit rd i ''calendar range'' Denied m | i m. m \<notin> set (visible_ids v)
           \<and> (\<exists>e. stored_event s e \<and> ce_id e = i \<and> ce_family e = rd_family rd \<and> m \<in> set (ce_participants e))
           \<and> (\<exists>r \<in> set (occurrence_rows s). ow_event r = i \<and> ow_family r = rd_family rd \<and> overlaps q r)}"
proof -
  have ok: "calendar_ok I s" by (rule reachable_calendar_ok [OF assms(1)])
  have q: "rq_visible q = visible_ids v" by (simp add: assms(5))
  obtain views where vs: "list_visible_in_range I (rd_family rd) q s = (Inr views, s)"
    by (simp add: list_visible_in_range_def)
  obtain hidden where hs: "list_hidden_in_range (rd_family rd) q s = (Inr hidden, s)"
    by (simp add: list_hidden_in_range_def)
  let ?es = "group_entries rd Granted (group_by_event ov_event (\<lambda>r. guarded_child_participants (ov_participants r) v) views)
    @ group_entries rd Denied (group_by_event fst (\<lambda>r. [snd r]) hidden)"
  have "list_occurrences I port rd (Some a) (Some b) s = (Inr (Inr views), noted ?es s)"
    using assms(2,3) by (simp add: list_occurrences_def check_event_range_def Let_def assms(4) [symmetric] assms(5) [symmetric]
        in_transaction_def vs hs audit_groups_noted)
  moreover have "set ?es = {participation_audit rd (ov_event w) ''calendar range'' Granted m | w m.
           w \<in> set views \<and> m \<in> set (ov_participants w) \<and> m \<in> set (guarded_ids v)}
        \<union> {participation_audit rd i ''calendar range'' Denied m | i m. (i, m) \<in> set hidden}"
    by (auto simp: group_entries_in guarded_child_participants_def)
  ultimately show ?thesis
    using visible_views [OF ok q vs] unfolding hidden_views [OF ok q hs]
    by (intro exI [of _ views] exI [of _ ?es] conjI ballI) (auto)
qed

text \<open>The month of the second birthday, read by a guardian of the child.\<close>

lemma list_occurrences_exact_witness:
  "\<exists>views entries. list_occurrences london_intl ann_sees ann_reader (Some 1798761600000) (Some 1801353600000) birthday_calendar =
      (Inr (Inr views), noted entries birthday_calendar)
    \<and> row_key (birthday_occurrences ! 1) \<in> view_key ` set views"
proof -
  let ?v = "resolve_visibility ann_sees ann_reader"
  let ?q = "\<lparr>rq_from = 1798761600000, rq_to = 1801353600000, rq_visible = visible_ids ?v\<rparr>"
  have e: "ce_id stored_birthday = EventId ''birthday''" "ce_participants stored_birthday = [MemberId ''mia'']"
    by (simp_all add: stored_birthday_def birthday_event_def)
  have "overlaps ?q (birthday_occurrences ! 1)"
    by (simp add: overlaps_def birthday_occurrences_def)
  moreover have "hidden_participants (ce_participants stored_birthday) ?v = []"
    by (simp add: hidden_participants_def e resolve_visibility_def ann_sees_def)
  moreover have "ow_family (birthday_occurrences ! 1) = rd_family ann_reader" "ow_event (birthday_occurrences ! 1) = EventId ''birthday''"
    by (simp_all add: birthday_occurrences_def ann_reader_def)
  ultimately have "reads (rd_family ann_reader) ?q ?v birthday_calendar (birthday_occurrences ! 1)"
    unfolding reads_def by (intro conjI exI [of _ stored_birthday] birthday_stored) (simp_all add: e(1))
  moreover have "birthday_occurrences ! 1 \<in> set (occurrence_rows birthday_calendar)"
    by (simp add: birthday_calendar_def birthday_occurrences_def)
  ultimately have r: "row_key (birthday_occurrences ! 1) \<in> row_key ` {r \<in> set (occurrence_rows birthday_calendar).
      reads (rd_family ann_reader) ?q ?v birthday_calendar r}" by (intro imageI CollectI conjI)
  have range: "(1798761600000::int) < 1801353600000" "1801353600000 - 1798761600000 \<le> event_range_days * ms_per_day"
    by (simp_all add: event_range_days_def horizon_days_def ms_per_day_def)
  from list_occurrences_exact [OF birthday_reachable range refl refl, of ann_sees ann_reader]
  obtain views entries where le: "list_occurrences london_intl ann_sees ann_reader (Some 1798761600000) (Some 1801353600000)
      birthday_calendar = (Inr (Inr views), noted entries birthday_calendar)"
    "view_key ` set views = row_key ` {r \<in> set (occurrence_rows birthday_calendar).
      reads (rd_family ann_reader) ?q ?v birthday_calendar r}" by (elim exE conjE)
  show ?thesis by (intro exI conjI, rule le(1), simp only: le(2) r)
qed

end
