(* ===== verification/Calendar_Sweep.thy ===== *)
theory Calendar_Sweep
  imports Calendar_Schedule
begin

text \<open>
  The materialisation sweep: it always returns, whatever fails on the way, and afterwards the only
  series behind the horizon are those it reports as failed.
\<close>

text \<open>The events behind the horizon, with their families.\<close>

definition due_events :: "calendar_store \<Rightarrow> (event_id \<times> family_id) set" where
  "due_events s = set (find_events_due (snd (materialisation_window (cs_now s))) s)"

lemma due_events_in:
  "(i, fam) \<in> due_events s \<longleftrightarrow>
     (\<exists>r \<in> set (event_rows s). er_id r = i \<and> er_family r = fam
        \<and> due_for_materialisation (snd (materialisation_window (cs_now s))) r)"
  by (auto simp: due_events_def find_events_due_def)

lemma due_row:
  assumes "to_event r ms = Inr e"
  shows "due_for_materialisation (snd (materialisation_window now)) r \<longleftrightarrow> behind_horizon now e"
  using to_event_sel [OF assms]
  by (cases "er_status r") (auto simp: due_for_materialisation_def behind_horizon_def)

lemma due_logs [simp]:
  "due_events (s\<lparr>cs_outbox := ob\<rparr>) = due_events s" "due_events (s\<lparr>occurrence_rows := rows\<rparr>) = due_events s"
  "due_events (s\<lparr>occurrence_rows := rows, cs_used := n\<rparr>) = due_events s"
  by (auto simp: due_events_in)

lemma rebuilt_through:
  assumes "calendar_db s" "(ce_id e, fam) \<in> event_refs s" "rematerialise I fam e now s = (Inr (Inr m), s')"
  shows "ce_through (rm_event m) = None \<or> ce_through (rm_event m) = Some (snd (materialisation_window now))"
  using assms(1,2)
proof (cases rule: rematerialise_cases [where I = I and now = now])
  case (rebuilt pl m' rows n)
  moreover have "pl_through pl = None \<or> pl_through pl = Some (snd (materialisation_window now))"
    using rebuilt(1) by (auto simp: plan_occurrences_def and_then_Inr split: option.splits if_splits)
  ultimately show ?thesis using assms(3) by auto
qed (use assms(3) in simp_all)

text \<open>One event of the sweep.\<close>

lemma swept_event:
  assumes ok: "calendar_ok I s" and c: "sweep_event I cid (cs_now s) (i, fam) (k, s) = (k', s')"
  shows "calendar_step I s s'" "due_events s' \<subseteq> due_events s" "set (sw_failed k) \<subseteq> set (sw_failed k')"
    "(i, fam) \<in> due_events s' \<Longrightarrow> i \<in> set (sw_failed k')"
proof -
  have "calendar_step I s s' \<and> due_events s' \<subseteq> due_events s \<and> set (sw_failed k) \<subseteq> set (sw_failed k')
    \<and> ((i, fam) \<in> due_events s' \<longrightarrow> i \<in> set (sw_failed k'))"
    using ok
  proof (cases rule: materialise_horizon_cases [where fam = fam and i = i and cid = cid])
    case skipped
    then have s': "s' = s" "sw_failed k' = sw_failed k" using c by (auto simp: sweep_event_def)
    have "(i, fam) \<notin> due_events s"
    proof
      assume "(i, fam) \<in> due_events s"
      then obtain r where r: "r \<in> set (event_rows s)" "er_id r = i" "er_family r = fam"
        "due_for_materialisation (snd (materialisation_window (cs_now s))) r" by (auto simp: due_events_in)
      obtain e0 where e0: "to_event r [] = Inr e0" using ok r(1) by (auto simp: calendar_ok_def events_ok_def)
      let ?ms = "map pa_member (participants_of fam i s)"
      have e: "to_event r ?ms = Inr (e0\<lparr>ce_participants := ?ms\<rparr>)" using to_event_participants [OF e0] by simp
      then have "stored_event s (e0\<lparr>ce_participants := ?ms\<rparr>)" using r(1-3) by (auto simp: stored_event_def)
      with skipped(2) [OF this] to_event_sel [OF e] r(2,3) have "\<not> behind_horizon (cs_now s) (e0\<lparr>ce_participants := ?ms\<rparr>)"
        by simp
      with due_row [OF e] r(4) show False by blast
    qed
    then show ?thesis by (simp add: s' calendar_step_refl [OF ok])
  next
    case (failed x)
    have "\<not> (\<exists>h. x = Inr (Inr h))" using failed(2) by blast
    then have "s' = s" "sw_failed k' = sw_failed k @ [i]"
      using c failed(1) by (auto simp: sweep_event_def split: sum.splits)
    then show ?thesis by (auto simp: calendar_step_refl [OF ok])
  next
    case (extended e m s1 s2 s4 ob n)
    from c extended(1) have s': "s' = s4\<lparr>cs_outbox := ob\<rparr>" "sw_failed k' = sw_failed k" by (auto simp: sweep_event_def)
    have step: "calendar_step I s s'"
      using materialise_horizon_ok [OF ok, of fam i cid] extended(1) s'(1) by simp
    have db: "calendar_db s" and ok': "events_ok I s {ce_id e}" using ok by (simp_all add: calendar_ok_def events_ok_weaken)
    note inv = stored_event_ok(1) [OF ok extended(2)]
    have ref: "(ce_id e, fam) \<in> event_refs s" using stored_event_ref [OF extended(2)] extended(4) by simp
    note r = rematerialise_ok [OF db inv ref ok' extended(6)]
    have rows: "event_rows s2 = event_rows s" using r(9) by (auto simp: extended(7))
    have fresh: "\<not> behind_horizon (cs_now s) x" if "ce_through x = ce_through (rm_event m)" for x
      using rebuilt_through [OF db ref extended(6)] that by (auto simp: behind_horizon_def)
    have "calendar_db s2" unfolding extended(7) by (rule deleted_rows(1) [OF r(1), where X = UNIV]) simp
    then obtain new where new: "s4 = s2\<lparr>event_rows := new\<rparr>"
      "\<And>x. x \<in> set new \<Longrightarrow> er_id x \<noteq> ce_id (rm_event m) \<Longrightarrow> x \<in> set (event_rows s2)"
      "\<And>x. x \<in> set new \<Longrightarrow> er_id x = ce_id (rm_event m) \<Longrightarrow> er_family x = fam
         \<and> (\<exists>by_m at. to_event x [] = Inr ((rm_event m)\<lparr>ce_family := fam, ce_participants := [], ce_created_by := by_m, ce_created_at := at\<rparr>))"
      using r(4) extended(8) by (rule saved_event) blast
    have id: "ce_id (rm_event m) = i" using r(5) extended(3) by auto
    have now: "cs_now s' = cs_now s" using calendar_stepD(3) [OF step] .
    then have now2: "cs_now s2 = cs_now s" by (simp add: s'(1) new(1))
    have "due_events s' \<subseteq> due_events s - {(i, fam)}"
    proof
      fix y assume "y \<in> due_events s'"
      then obtain x where x: "x \<in> set new" "y = (er_id x, er_family x)"
        "due_for_materialisation (snd (materialisation_window (cs_now s))) x"
        by (cases y) (auto simp: due_events_in s' new(1) now2)
      have "er_id x \<noteq> i"
      proof
        assume "er_id x = i"
        with new(3) [OF x(1)] id obtain by_m at where
          l: "to_event x [] = Inr ((rm_event m)\<lparr>ce_family := fam, ce_participants := [], ce_created_by := by_m, ce_created_at := at\<rparr>)"
          by auto
        from due_row [OF l] x(3) fresh show False by simp
      qed
      with new(2) [OF x(1)] id rows x(2,3) show "y \<in> due_events s - {(i, fam)}" by (auto simp: due_events_in)
    qed
    then show ?thesis using step s'(2) by auto
  qed
  then show "calendar_step I s s'" "due_events s' \<subseteq> due_events s" "set (sw_failed k) \<subseteq> set (sw_failed k')"
    "(i, fam) \<in> due_events s' \<Longrightarrow> i \<in> set (sw_failed k')" by blast+
qed


text \<open>All of them.\<close>

lemma swept_events:
  assumes "calendar_ok I s" "cs_now s = now" "fold (sweep_event I cid now) dues (k, s) = (k', s')"
  shows "calendar_ok I s'" "cs_now s' = now" "due_events s' \<subseteq> due_events s" "set (sw_failed k) \<subseteq> set (sw_failed k')"
    "(i, fam) \<in> set dues \<Longrightarrow> (i, fam) \<in> due_events s' \<Longrightarrow> i \<in> set (sw_failed k')"
proof -
  have "calendar_ok I s' \<and> cs_now s' = now \<and> due_events s' \<subseteq> due_events s \<and> set (sw_failed k) \<subseteq> set (sw_failed k')
    \<and> (\<forall>(i, fam) \<in> set dues. (i, fam) \<in> due_events s' \<longrightarrow> i \<in> set (sw_failed k'))"
    using assms
  proof (induction dues arbitrary: k s)
    case (Cons d dues)
    obtain j f where d: "d = (j, f)" by (cases d)
    obtain k1 s1 where one: "sweep_event I cid now (j, f) (k, s) = (k1, s1)"
      by (cases "sweep_event I cid now (j, f) (k, s)")
    note sw = swept_event [OF Cons.prems(1) one [folded Cons.prems(2)]]
    have rest: "fold (sweep_event I cid now) dues (k1, s1) = (k', s')" using Cons.prems(3) one d by simp
    note ih = Cons.IH [OF calendar_stepD(1) [OF sw(1)] _ rest]
    have n: "cs_now s1 = now" using calendar_stepD(3) [OF sw(1)] Cons.prems(2) by simp
    from ih [OF n] sw(2-4) show ?case unfolding d by (auto 4 4)
  qed simp
  then show "calendar_ok I s'" "cs_now s' = now" "due_events s' \<subseteq> due_events s" "set (sw_failed k) \<subseteq> set (sw_failed k')"
    "(i, fam) \<in> set dues \<Longrightarrow> (i, fam) \<in> due_events s' \<Longrightarrow> i \<in> set (sw_failed k')" by auto
qed

lemma pruned_rows:
  "\<exists>n rows. sweep_prune now fams s = (Inr n, s\<lparr>occurrence_rows := rows\<rparr>)"
proof (induction fams arbitrary: s)
  case Nil
  show ?case by (intro exI [of _ 0] exI [of _ "occurrence_rows s"]) simp
next
  case (Cons fam fams)
  obtain k rows where "prune_trailing fam now s = (Inr k, s\<lparr>occurrence_rows := rows\<rparr>)"
    by (simp add: prune_trailing_def prune_recurring_before_def delete_occurrences_def Let_def in_transaction_def)
  moreover obtain n rows' where "sweep_prune now fams (s\<lparr>occurrence_rows := rows\<rparr>) = (Inr n, s\<lparr>occurrence_rows := rows'\<rparr>)"
    using Cons.IH [of "s\<lparr>occurrence_rows := rows\<rparr>"] by auto
  ultimately show ?case by auto
qed

lemma swept_pruned:
  "calendar_ok I s \<Longrightarrow> cs_now s = now \<Longrightarrow> calendar_ok I (snd (sweep_prune now fams s))"
proof (induction fams arbitrary: s)
  case (Cons fam fams)
  obtain k s1 where p: "prune_trailing fam now s = (Inr k, s1)"
    by (simp add: prune_trailing_def prune_recurring_before_def delete_occurrences_def Let_def in_transaction_def)
  have "calendar_step I s s1" using prune_trailing_ok [OF Cons.prems(1), of fam] p Cons.prems(2) by simp
  then have "calendar_ok I (snd (sweep_prune now fams s1))"
    using Cons.IH [of s1] Cons.prems(2) by (simp add: calendar_step_def)
  then show ?case
    using p by (cases "sweep_prune now fams s1"; cases "fst (sweep_prune now fams s1)") auto
qed simp

lemma lag_below: "0 \<le> d \<Longrightarrow> lag_seconds now t < d * 86400 \<Longrightarrow> t < now + d * ms_per_day"
  by (simp add: lag_seconds_def ms_per_day_def)

lemma no_lag:
  assumes "due_events s = {}" "(fam, t) \<in> set (measure_horizons s)"
  shows "\<not> lag_seconds (cs_now s) t < horizon_days * 86400"
proof
  assume "lag_seconds (cs_now s) t < horizon_days * 86400"
  then have t: "t < snd (materialisation_window (cs_now s))"
    using lag_below [of horizon_days] by (simp add: horizon_days_def materialisation_window_def)
  let ?ts = "List.map_filter er_through (filter (\<lambda>r. er_family r = fam) (filter continuing (event_rows s)))"
  from assms(2) have m: "t = Min (set ?ts)" "fam \<in> er_family ` set (filter continuing (event_rows s))"
    by (auto simp: measure_horizons_def Let_def)
  from m(2) obtain r where "r \<in> set (filter continuing (event_rows s))" "er_family r = fam" by auto
  then have "the (er_through r) \<in> set ?ts" by (auto simp: map_filter_in continuing_def)
  then have "set ?ts \<noteq> {}" by (metis empty_iff)
  with m(1) have "t \<in> set ?ts" by (metis Min_in finite_set)
  then obtain r where "r \<in> set (event_rows s)" "continuing r" "er_through r = Some t" by (auto simp: map_filter_in)
  with t have "(er_id r, er_family r) \<in> due_events s"
    by (auto simp: due_events_in due_for_materialisation_def continuing_def)
  with assms(1) show False by simp
qed

text \<open>
  C20: A materialisation sweep of a reachable calendar always ends with its report, whatever its
  transactions answer or throw. Then the only recurring events behind the horizon are ones the
  report names as failed, no other event has come to be behind it, and when none failed it reports
  no lagging family. The calendar stays sound.
\<close>

theorem sweep_leaves_none_due:
  assumes "calendar_reachable I s"
  shows "\<exists>report s'. run_materialise_sweep I cid (cs_now s) s = (Inr report, s')
    \<and> due_events s' \<subseteq> due_events s
    \<and> (\<forall>(i, fam) \<in> due_events s'. i \<in> set (sw_failed report))
    \<and> (sw_failed report = [] \<longrightarrow> sw_lagging report = [])
    \<and> calendar_ok I s'"
proof -
  have ok: "calendar_ok I s" by (rule reachable_calendar_ok [OF assms])
  let ?now = "cs_now s"
  let ?w = "materialisation_window ?now"
  let ?zero = "\<lparr>sw_extended = 0, sw_skipped = 0, sw_failed = [], sw_inserted = 0, sw_deleted = 0, sw_pruned = 0\<rparr>"
  obtain k s1 where f: "fold (sweep_event I cid ?now) (find_events_due (snd ?w) s) (?zero, s) = (k, s1)"
    by (cases "fold (sweep_event I cid ?now) (find_events_due (snd ?w) s) (?zero, s)")
  note sw = swept_events [OF ok refl f]
  obtain n rows where p: "sweep_prune ?now (find_families_with_prunable (fst ?w) s1) s1 = (Inr n, s1\<lparr>occurrence_rows := rows\<rparr>)"
    using pruned_rows by blast
  let ?s2 = "s1\<lparr>occurrence_rows := rows\<rparr>"
  have run: "\<exists>report. run_materialise_sweep I cid ?now s = (Inr report, ?s2) \<and> sw_failed report = sw_failed k
      \<and> sw_lagging report = filter (\<lambda>(_, lag). lag < horizon_days * 86400)
          (map (\<lambda>(fam, t). (fam, lag_seconds ?now t)) (measure_horizons ?s2))"
    by (simp add: run_materialise_sweep_def Let_def f p)
  have due: "i \<in> set (sw_failed k)" if "(i, fam) \<in> due_events ?s2" for i fam
  proof -
    from that have d: "(i, fam) \<in> due_events s1" by simp
    with sw(3) have "(i, fam) \<in> due_events s" by blast
    then have "(i, fam) \<in> set (find_events_due (snd ?w) s)" by (simp only: due_events_def)
    with d show ?thesis using sw(5) by blast
  qed
  have "sw_lagging report = []" if "sw_failed k = []" "sw_lagging report = filter (\<lambda>(_, lag). lag < horizon_days * 86400)
      (map (\<lambda>(fam, t). (fam, lag_seconds ?now t)) (measure_horizons ?s2))" for report :: sweep_report
  proof -
    have "due_events ?s2 = {}" using due that(1) by fastforce
    from no_lag [OF this] show ?thesis using sw(2) by (auto simp: that(2) filter_empty_conv)
  qed
  moreover have "calendar_ok I ?s2"
    using swept_pruned [OF sw(1,2), of "find_families_with_prunable (fst ?w) s1"] p by simp
  ultimately show ?thesis using run due sw(3) by auto
qed

text \<open>The birthday a day later, when its horizon has moved on.\<close>

definition next_day :: calendar_store where
  "next_day = birthday_calendar\<lparr>cs_now := 1767312000000\<rparr>"

lemma next_day_due: "(EventId ''birthday'', FamilyId ''home'') \<in> due_events next_day"
  by (simp add: due_events_in next_day_def birthday_calendar_def birthday_row_def new_event_row_def event_columns_def
      birthday_event_def due_for_materialisation_def materialisation_window_def horizon_days_def ms_per_day_def)

lemma sweep_leaves_none_due_witness:
  "\<exists>report s'. run_materialise_sweep london_intl ''c4'' 1767312000000 next_day = (Inr report, s')
     \<and> ((EventId ''birthday'', FamilyId ''home'') \<in> due_events s' \<longrightarrow> EventId ''birthday'' \<in> set (sw_failed report))"
proof -
  have "cs_now birthday_calendar \<le> 1767312000000" by (simp add: birthday_calendar_def empty_calendar_def)
  then have "calendar_reachable london_intl next_day"
    unfolding next_day_def by (rule calendar_reachable.clock [OF birthday_reachable])
  from sweep_leaves_none_due [OF this, of "''c4''"] show ?thesis by (fastforce simp: next_day_def)
qed

end
