(* ===== verification/Identity_Domain.thy ===== *)
theory Identity_Domain
  imports Kernel_Types
begin

text \<open>
  The Identity and Access domain, \<open>packages/core/src/identity/domain\<close>: the user aggregate with
  its lifecycle and its lockout, the session aggregate with rotation and revocation, the email
  verification and device entities, and the context's events. Instants are milliseconds.
\<close>

section \<open>Users\<close>

datatype user_status = PendingVerification | ActiveUser | DeletionRequested

record user =
  us_id :: user_id
  us_email :: email_address
  us_password :: string
  us_status :: user_status
  us_verified :: "int option"
  us_deletion :: "int option"
  us_failed :: int
  us_throttled :: "int option"
  us_created :: int
  us_updated :: int

definition user_register :: "user_id \<Rightarrow> email_address \<Rightarrow> string \<Rightarrow> int \<Rightarrow> user" where
  "user_register i email password now =
     \<lparr>us_id = i, us_email = email, us_password = password, us_status = PendingVerification,
      us_verified = None, us_deletion = None, us_failed = 0, us_throttled = None,
      us_created = now, us_updated = now\<rparr>"

definition is_verified :: "user \<Rightarrow> bool" where
  "is_verified u \<longleftrightarrow> us_verified u \<noteq> None"

definition user_verify :: "user \<Rightarrow> int \<Rightarrow> user outcome" where
  "user_verify u now =
     (if us_status u \<noteq> PendingVerification then Inl VerificationInvalid
      else Inr (u\<lparr>us_status := ActiveUser, us_verified := Some now, us_updated := now\<rparr>))"

definition record_failed_attempt :: "int \<Rightarrow> int \<Rightarrow> int \<Rightarrow> user \<Rightarrow> user" where
  "record_failed_attempt max_attempts lockout_ms now u =
     (let count = us_failed u + 1;
          throttled = (if count \<ge> max_attempts then Some (now + lockout_ms) else us_throttled u) in
      u\<lparr>us_failed := count, us_throttled := throttled, us_updated := now\<rparr>)"

definition clear_failed_attempts :: "int \<Rightarrow> user \<Rightarrow> user" where
  "clear_failed_attempts now u =
     (if us_failed u = 0 \<and> us_throttled u = None then u
      else u\<lparr>us_failed := 0, us_throttled := None, us_updated := now\<rparr>)"

definition request_user_deletion :: "user \<Rightarrow> int \<Rightarrow> user outcome" where
  "request_user_deletion u now =
     (if us_status u = DeletionRequested then Inr u
      else if us_status u \<noteq> ActiveUser then Inl NotFound
      else Inr (u\<lparr>us_status := DeletionRequested, us_deletion := Some now, us_updated := now\<rparr>))"

section \<open>Sessions\<close>

datatype revoked_reason = UserRevoked | AccountDeleted | ReplayDetected

record session =
  se_id :: session_id
  se_user :: user_id
  se_device :: device_id
  se_hash :: string
  se_previous :: "string option"
  se_issued :: int
  se_rotated :: "int option"
  se_expires :: int
  se_revoked :: "int option"
  se_reason :: "revoked_reason option"

definition session_issue :: "session_id \<Rightarrow> user_id \<Rightarrow> device_id \<Rightarrow> string \<Rightarrow> int \<Rightarrow> int \<Rightarrow> session" where
  "session_issue i user device token_hash now lifetime_ms =
     \<lparr>se_id = i, se_user = user, se_device = device, se_hash = token_hash, se_previous = None,
      se_issued = now, se_rotated = None, se_expires = now + lifetime_ms, se_revoked = None,
      se_reason = None\<rparr>"

definition session_usable :: "session \<Rightarrow> int \<Rightarrow> bool" where
  "session_usable x now \<longleftrightarrow> se_revoked x = None \<and> se_expires x > now"

definition session_rotate :: "session \<Rightarrow> string \<Rightarrow> int \<Rightarrow> session outcome" where
  "session_rotate x new_hash now =
     (if \<not> session_usable x now then Inl SessionInvalid
      else Inr (x\<lparr>se_previous := Some (se_hash x), se_hash := new_hash, se_rotated := Some now\<rparr>))"

definition session_revoke :: "revoked_reason \<Rightarrow> int \<Rightarrow> session \<Rightarrow> session" where
  "session_revoke reason now x = x\<lparr>se_revoked := Some now, se_reason := Some reason\<rparr>"

section \<open>Email verifications and devices\<close>

record email_verification =
  vf_id :: string
  vf_user :: user_id
  vf_hash :: string
  vf_expires :: int
  vf_consumed :: "int option"
  vf_superseded :: "int option"

definition verification_issue :: "string \<Rightarrow> user_id \<Rightarrow> string \<Rightarrow> int \<Rightarrow> int \<Rightarrow> email_verification" where
  "verification_issue i user token_hash now ttl_ms =
     \<lparr>vf_id = i, vf_user = user, vf_hash = token_hash, vf_expires = now + ttl_ms,
      vf_consumed = None, vf_superseded = None\<rparr>"

definition verification_usable :: "email_verification \<Rightarrow> int \<Rightarrow> bool" where
  "verification_usable v now \<longleftrightarrow> vf_consumed v = None \<and> vf_superseded v = None \<and> vf_expires v > now"

definition verification_consume :: "email_verification \<Rightarrow> int \<Rightarrow> email_verification outcome" where
  "verification_consume v now =
     (if \<not> verification_usable v now then Inl VerificationInvalid
      else Inr (v\<lparr>vf_consumed := Some now\<rparr>))"

definition verification_supersede :: "int \<Rightarrow> email_verification \<Rightarrow> email_verification" where
  "verification_supersede now v = v\<lparr>vf_superseded := Some now\<rparr>"

record device =
  dv_id :: device_id
  dv_user :: user_id
  dv_label :: string
  dv_first_seen :: int
  dv_last_seen :: int

definition device_register :: "device_id \<Rightarrow> user_id \<Rightarrow> string \<Rightarrow> int \<Rightarrow> device" where
  "device_register i user name now =
     \<lparr>dv_id = i, dv_user = user, dv_label = name, dv_first_seen = now, dv_last_seen = now\<rparr>"

section \<open>Events\<close>

definition user_registered_event :: "user_id \<Rightarrow> string \<Rightarrow> outbox_event" where
  "user_registered_event i cid =
     \<lparr>event_type = ''identity.UserRegistered.v1'', aggregate_type = ''User'',
      aggregate_id = user_text i, payload = [(''userId'', JString (user_text i))],
      ev_correlation_id = cid\<rparr>"

definition user_authenticated_event :: "user_id \<Rightarrow> session_id \<Rightarrow> string \<Rightarrow> outbox_event" where
  "user_authenticated_event i session cid =
     \<lparr>event_type = ''identity.UserAuthenticated.v1'', aggregate_type = ''User'',
      aggregate_id = user_text i,
      payload = [(''userId'', JString (user_text i)), (''sessionId'', JString (session_text session))],
      ev_correlation_id = cid\<rparr>"

definition user_deletion_requested_event :: "user_id \<Rightarrow> string \<Rightarrow> outbox_event" where
  "user_deletion_requested_event i cid =
     \<lparr>event_type = ''identity.UserDeletionRequested.v1'', aggregate_type = ''User'',
      aggregate_id = user_text i, payload = [(''userId'', JString (user_text i))],
      ev_correlation_id = cid\<rparr>"

end
