(* ===== verification/Identity_Store.thy ===== *)
theory Identity_Store
  imports Identity_Domain Keyed_Table
begin

text \<open>
  The Identity tables and the repositories over them,
  \<open>packages/persistence/src/repositories/identity\<close>, with the constraints of the migration
  \<open>20260911165118_identity_and_access\<close>: the unique email and token hashes, and the foreign keys,
  which delete a user's rows with the user. These tables have no row level security: every row is
  visible.

  Token hashes are kept as the hexadecimal texts the \<open>bytea\<close> columns are converted to and from.
  A \<open>findFirst\<close> without an order takes the first match in the order of the rows.
\<close>

section \<open>Tables\<close>

record identity_store =
  user_rows :: "user list"
  session_rows :: "session list"
  device_rows :: "device list"
  verification_rows :: "email_verification list"
  is_outbox :: "outbox_event list"
  is_mail :: "mail list"
  is_now :: int

type_synonym 'a identity_tx = "(identity_store, 'a) tx"

definition user_clash :: "user \<Rightarrow> user \<Rightarrow> bool" where
  "user_clash u x \<longleftrightarrow> us_email x = us_email u"

definition session_clash :: "session \<Rightarrow> session \<Rightarrow> bool" where
  "session_clash a x \<longleftrightarrow> se_hash x = se_hash a"

definition verification_clash :: "email_verification \<Rightarrow> email_verification \<Rightarrow> bool" where
  "verification_clash v x \<longleftrightarrow> vf_hash x = vf_hash v"

section \<open>Repositories\<close>

subsection \<open>Users\<close>

text \<open>The email is normalised again on the way out.\<close>

definition load_user :: "user \<Rightarrow> user" where
  "load_user r = r\<lparr>us_email := email_from (email_value (us_email r))\<rparr>"

definition find_user_by_email :: "string \<Rightarrow> user option identity_tx" where
  "find_user_by_email email = tx_get (\<lambda>s.
     map_option load_user (tbl_find (\<lambda>u. email_value (us_email u)) email (user_rows s)))"

definition find_user :: "user_id \<Rightarrow> user option identity_tx" where
  "find_user i = tx_get (\<lambda>s. map_option load_user (tbl_find us_id i (user_rows s)))"

definition save_user :: "user \<Rightarrow> unit identity_tx" where
  "save_user u s =
     (case upsert us_id (\<lambda>_. True) (\<lambda>_. True) user_clash (\<lambda>_. True)
         (u\<lparr>us_updated := is_now s\<rparr>)
         (\<lambda>r. r\<lparr>us_email := us_email u, us_password := us_password u, us_status := us_status u,
           us_verified := us_verified u, us_deletion := us_deletion u, us_failed := us_failed u,
           us_throttled := us_throttled u, us_updated := is_now s\<rparr>) (user_rows s) of
        Inl e \<Rightarrow> (Inl e, s)
      | Inr rows \<Rightarrow> (Inr (), s\<lparr>user_rows := rows\<rparr>))"

subsection \<open>Email verifications\<close>

definition find_verification_by_hash :: "string \<Rightarrow> email_verification option identity_tx" where
  "find_verification_by_hash h = tx_get (\<lambda>s. tbl_find vf_hash h (verification_rows s))"

definition find_active_verification :: "user_id \<Rightarrow> email_verification option identity_tx" where
  "find_active_verification user = tx_get (\<lambda>s.
     case sort_key (\<lambda>v. - vf_expires v)
         (filter (\<lambda>v. vf_user v = user \<and> vf_consumed v = None \<and> vf_superseded v = None)
           (verification_rows s)) of
       [] \<Rightarrow> None
     | v # _ \<Rightarrow> Some v)"

definition save_verification :: "email_verification \<Rightarrow> unit identity_tx" where
  "save_verification v s =
     (case upsert vf_id (\<lambda>_. True) (\<lambda>_. True) verification_clash
         (\<lambda>r. vf_user r \<in> us_id ` set (user_rows s)) v
         (\<lambda>r. r\<lparr>vf_user := vf_user v, vf_hash := vf_hash v, vf_expires := vf_expires v,
           vf_consumed := vf_consumed v, vf_superseded := vf_superseded v\<rparr>) (verification_rows s) of
        Inl e \<Rightarrow> (Inl e, s)
      | Inr rows \<Rightarrow> (Inr (), s\<lparr>verification_rows := rows\<rparr>))"

subsection \<open>Devices\<close>

definition find_device :: "device_id \<Rightarrow> device option identity_tx" where
  "find_device i = tx_get (\<lambda>s. tbl_find dv_id i (device_rows s))"

definition save_device :: "device \<Rightarrow> unit identity_tx" where
  "save_device d s =
     (case upsert dv_id (\<lambda>_. True) (\<lambda>_. True) (\<lambda>_ _. False)
         (\<lambda>r. dv_user r \<in> us_id ` set (user_rows s)) d
         (\<lambda>r. r\<lparr>dv_user := dv_user d, dv_label := dv_label d, dv_last_seen := dv_last_seen d\<rparr>)
         (device_rows s) of
        Inl e \<Rightarrow> (Inl e, s)
      | Inr rows \<Rightarrow> (Inr (), s\<lparr>device_rows := rows\<rparr>))"

subsection \<open>Sessions\<close>

definition find_session :: "session_id \<Rightarrow> session option identity_tx" where
  "find_session i = tx_get (\<lambda>s. tbl_find se_id i (session_rows s))"

definition find_session_by_hash :: "string \<Rightarrow> session option identity_tx" where
  "find_session_by_hash h = tx_get (\<lambda>s. tbl_find se_hash h (session_rows s))"

record auth_context =
  ac_session :: session
  ac_status :: user_status
  ac_previous :: bool

text \<open>The join with the owner: a session without one is a row the foreign key rules out.\<close>

definition matching_session :: "string \<Rightarrow> identity_store \<Rightarrow> session option" where
  "matching_session h s = List.find (\<lambda>x. se_hash x = h \<or> se_previous x = Some h) (session_rows s)"

definition find_auth_context :: "string \<Rightarrow> auth_context option identity_tx" where
  "find_auth_context h s =
     (case matching_session h s of
        None \<Rightarrow> (Inr None, s)
      | Some x \<Rightarrow>
          (case tbl_find us_id (se_user x) (user_rows s) of
             None \<Rightarrow> (Inl CorruptRow, s)
           | Some u \<Rightarrow>
               (Inr (Some \<lparr>ac_session = x, ac_status = us_status u, ac_previous = (se_hash x \<noteq> h)\<rparr>), s)))"

definition user_sessions :: "user_id \<Rightarrow> identity_store \<Rightarrow> session list" where
  "user_sessions user s = filter (\<lambda>x. se_user x = user) (session_rows s)"

text \<open>The sessions of a user with their devices' labels, the latest first.\<close>

fun with_labels :: "device list \<Rightarrow> session list \<Rightarrow> (session \<times> string) list option" where
  "with_labels devices [] = Some []"
| "with_labels devices (x # xs) =
     (case tbl_find dv_id (se_device x) devices of
        None \<Rightarrow> None
      | Some d \<Rightarrow> map_option (\<lambda>rest. (x, dv_label d) # rest) (with_labels devices xs))"

definition labelled_sessions :: "user_id \<Rightarrow> (session \<times> string) list identity_tx" where
  "labelled_sessions user s =
     (case with_labels (device_rows s) (sort_key (\<lambda>x. - se_issued x) (user_sessions user s)) of
        None \<Rightarrow> (Inl CorruptRow, s)
      | Some rows \<Rightarrow> (Inr rows, s))"

record session_summary =
  sm_session :: session_id
  sm_label :: string
  sm_issued :: int
  sm_rotated :: "int option"
  sm_expires :: int

definition list_summaries :: "user_id \<Rightarrow> session_summary list identity_tx" where
  "list_summaries user =
     tx_bind (labelled_sessions user) (\<lambda>rows.
       tx_return (map (\<lambda>(x, name). \<lparr>sm_session = se_id x, sm_label = name, sm_issued = se_issued x,
         sm_rotated = se_rotated x, sm_expires = se_expires x\<rparr>) rows))"

definition list_sessions_of :: "user_id \<Rightarrow> session list identity_tx" where
  "list_sessions_of user = tx_get (user_sessions user)"

record exported_session =
  xs_label :: string
  xs_issued :: int
  xs_revoked :: "int option"

definition list_export_summaries :: "user_id \<Rightarrow> exported_session list identity_tx" where
  "list_export_summaries user =
     tx_bind (labelled_sessions user) (\<lambda>rows.
       tx_return (map (\<lambda>(x, name). \<lparr>xs_label = name, xs_issued = se_issued x, xs_revoked = se_revoked x\<rparr>)
         rows))"

text \<open>An empty previous hash is stored as \<open>NULL\<close>; the issue instant is written once.\<close>

definition stored_previous :: "string option \<Rightarrow> string option" where
  "stored_previous h = (case h of None \<Rightarrow> None | Some t \<Rightarrow> if t = [] then None else Some t)"

definition save_session :: "session \<Rightarrow> unit identity_tx" where
  "save_session x s =
     (case upsert se_id (\<lambda>_. True) (\<lambda>_. True) session_clash
         (\<lambda>r. se_user r \<in> us_id ` set (user_rows s) \<and> se_device r \<in> dv_id ` set (device_rows s))
         (x\<lparr>se_previous := stored_previous (se_previous x)\<rparr>)
         (\<lambda>r. r\<lparr>se_user := se_user x, se_device := se_device x, se_hash := se_hash x,
           se_previous := stored_previous (se_previous x), se_rotated := se_rotated x,
           se_expires := se_expires x, se_revoked := se_revoked x, se_reason := se_reason x\<rparr>)
         (session_rows s) of
        Inl e \<Rightarrow> (Inl e, s)
      | Inr rows \<Rightarrow> (Inr (), s\<lparr>session_rows := rows\<rparr>))"

subsection \<open>The unit of work\<close>

definition is_event :: "outbox_event \<Rightarrow> unit identity_tx" where
  "is_event e = tx_modify (\<lambda>s. s\<lparr>is_outbox := is_outbox s @ [e]\<rparr>)"

definition is_send :: "mail \<Rightarrow> unit identity_tx" where
  "is_send m = tx_modify (\<lambda>s. s\<lparr>is_mail := is_mail s @ [m]\<rparr>)"

section \<open>Retention\<close>

text \<open>Deleting users deletes their sessions, devices and verification rows.\<close>

definition delete_users :: "(user \<Rightarrow> bool) \<Rightarrow> identity_store \<Rightarrow> int \<times> identity_store" where
  "delete_users p s =
     (let gone = us_id ` set (filter p (user_rows s)) in
      (int (length (filter p (user_rows s))),
       s\<lparr>user_rows := tbl_delete p (user_rows s),
         session_rows := tbl_delete (\<lambda>x. se_user x \<in> gone \<or>
           se_device x \<in> dv_id ` set (filter (\<lambda>d. dv_user d \<in> gone) (device_rows s))) (session_rows s),
         device_rows := tbl_delete (\<lambda>d. dv_user d \<in> gone) (device_rows s),
         verification_rows := tbl_delete (\<lambda>v. vf_user v \<in> gone) (verification_rows s)\<rparr>))"

text \<open>A comparison with a column that is \<open>NULL\<close> selects nothing.\<close>

definition before_cutoff :: "int option \<Rightarrow> int \<Rightarrow> bool" where
  "before_cutoff c cutoff \<longleftrightarrow> (case c of None \<Rightarrow> False | Some t \<Rightarrow> t < cutoff)"

definition delete_unverified_before :: "int \<Rightarrow> identity_store \<Rightarrow> int \<times> identity_store" where
  "delete_unverified_before cutoff =
     delete_users (\<lambda>u. us_status u = PendingVerification \<and> us_created u < cutoff)"

definition delete_deleted_accounts_before :: "int \<Rightarrow> identity_store \<Rightarrow> int \<times> identity_store" where
  "delete_deleted_accounts_before cutoff =
     delete_users (\<lambda>u. us_status u = DeletionRequested \<and> before_cutoff (us_deletion u) cutoff)"

definition delete_stale_sessions_before :: "int \<Rightarrow> identity_store \<Rightarrow> int \<times> identity_store" where
  "delete_stale_sessions_before cutoff s =
     (let stale = (\<lambda>x. before_cutoff (se_revoked x) cutoff \<or> se_expires x < cutoff) in
      (int (length (filter stale (session_rows s))),
       s\<lparr>session_rows := tbl_delete stale (session_rows s)\<rparr>))"

text \<open>The worker's three sweeps over them.\<close>

definition day_ms :: int where
  "day_ms = 24 * 60 * 60 * 1000"

definition erase_unverified_sweep :: "int \<Rightarrow> identity_store \<Rightarrow> int \<times> identity_store" where
  "erase_unverified_sweep now = delete_unverified_before (now - 30 * day_ms)"

definition erase_deleted_accounts_sweep :: "int \<Rightarrow> identity_store \<Rightarrow> int \<times> identity_store" where
  "erase_deleted_accounts_sweep now = delete_deleted_accounts_before (now - 30 * day_ms)"

definition erase_stale_sessions_sweep :: "int \<Rightarrow> identity_store \<Rightarrow> int \<times> identity_store" where
  "erase_stale_sessions_sweep now = delete_stale_sessions_before (now - 90 * day_ms)"

end
