(* ===== verification/Identity_Commands.thy ===== *)
theory Identity_Commands
  imports Identity_Store
begin

text \<open>
  The Identity application layer, \<open>packages/core/src/identity/application\<close>: every command and
  query, one definition each. The clock's reading is \<open>now\<close>; the password hasher and the token
  generator are parameters: \<open>pw\<close> the password's digest, \<open>matches password digest\<close> its
  verification, \<open>raw\<close> a generated token and \<open>hash\<close> the token hash. Ids from \<open>randomUUID\<close> are
  arguments.
\<close>

section \<open>Constants\<close>

definition verification_ttl_ms :: int where
  "verification_ttl_ms = 24 * 60 * 60 * 1000"

definition min_password_length :: nat where
  "min_password_length = 12"

definition max_failed_attempts :: int where
  "max_failed_attempts = 5"

definition throttle_lockout_ms :: int where
  "throttle_lockout_ms = 15 * 60 * 1000"

definition absolute_session_lifetime_ms :: int where
  "absolute_session_lifetime_ms = 90 * 24 * 60 * 60 * 1000"

definition dummy_password_hash :: string where
  "dummy_password_hash =
     ''$argon2id$v=19$m=19456,t=2,p=1$qKswyulgLnJ0YhrlT+N6sA$WDPTgEmGUuOS1GDjTMz/0zKuO5/zfsj/U34QjiCPaoE''"

section \<open>Registration and verification\<close>

definition verification_mail :: "string \<Rightarrow> string \<Rightarrow> mail" where
  "verification_mail to_address raw =
     \<lparr>mail_to = to_address, mail_subject = ''Verify your email'',
      mail_text = ''Verification token: '' @ raw\<rparr>"

definition register_work ::
  "email_address \<Rightarrow> string \<Rightarrow> string \<Rightarrow> user_id \<Rightarrow> string \<Rightarrow> string \<Rightarrow> int \<Rightarrow> user_id outcome identity_tx"
where
  "register_work email pw token_hash uid vid cid now =
     tx_bind (find_user_by_email (email_value email)) (\<lambda>existing.
       case existing of
         Some _ \<Rightarrow> tx_return (Inl EmailAlreadyRegistered)
       | None \<Rightarrow>
           tx_bind (save_user (user_register uid email pw now)) (\<lambda>_.
           tx_bind (save_verification (verification_issue vid uid token_hash now verification_ttl_ms)) (\<lambda>_.
           tx_bind (is_event (user_registered_event uid cid)) (\<lambda>_.
           tx_return (Inr uid)))))"

definition register_user ::
  "(string \<Rightarrow> string) \<Rightarrow> string \<Rightarrow> string \<Rightarrow> string \<Rightarrow> string \<Rightarrow> user_id \<Rightarrow> string \<Rightarrow> string \<Rightarrow> int
     \<Rightarrow> user_id outcome identity_tx"
where
  "register_user hash raw_email password pw raw uid vid cid now =
     (let email = email_from raw_email in
      if length password < min_password_length then
        tx_return (Inl (WeakPassword ''Password must be at least 12 characters long.''))
      else
        tx_bind (in_transaction (register_work email pw (hash raw) uid vid cid now)) (\<lambda>r.
        tx_ok r (\<lambda>u.
        tx_bind (is_send (verification_mail (email_value email) raw)) (\<lambda>_. tx_return (Inr u)))))"

definition resend_work :: "email_address \<Rightarrow> string \<Rightarrow> string \<Rightarrow> int \<Rightarrow> string option identity_tx" where
  "resend_work email token_hash vid now =
     tx_bind (find_user_by_email (email_value email)) (\<lambda>found.
       case found of
         None \<Rightarrow> tx_return None
       | Some u \<Rightarrow>
           if is_verified u then tx_return None
           else
             tx_bind (find_active_verification (us_id u)) (\<lambda>previous.
             tx_bind (case previous of
                 None \<Rightarrow> tx_return ()
               | Some p \<Rightarrow> save_verification (verification_supersede now p)) (\<lambda>_.
             tx_bind (save_verification (verification_issue vid (us_id u) token_hash now verification_ttl_ms)) (\<lambda>_.
             tx_return (Some (email_value email))))))"

definition resend_verification ::
  "(string \<Rightarrow> string) \<Rightarrow> string \<Rightarrow> string \<Rightarrow> string \<Rightarrow> int \<Rightarrow> unit outcome identity_tx"
where
  "resend_verification hash raw_email raw vid now =
     (let email = email_from raw_email in
      tx_bind (in_transaction (resend_work email (hash raw) vid now)) (\<lambda>to_send.
      tx_bind (case to_send of
          None \<Rightarrow> tx_return ()
        | Some to_address \<Rightarrow> is_send (verification_mail to_address raw)) (\<lambda>_.
      tx_return (Inr ()))))"

definition verify_email :: "(string \<Rightarrow> string) \<Rightarrow> string \<Rightarrow> int \<Rightarrow> user_id outcome identity_tx" where
  "verify_email hash token now =
     in_transaction
       (tx_bind (find_verification_by_hash (hash token)) (\<lambda>found.
          case found of
            None \<Rightarrow> tx_return (Inl VerificationInvalid)
          | Some v \<Rightarrow>
              tx_ok (verification_consume v now) (\<lambda>v1.
              tx_bind (find_user (vf_user v)) (\<lambda>owner.
                case owner of
                  None \<Rightarrow> tx_return (Inl VerificationInvalid)
                | Some u \<Rightarrow>
                    tx_ok (user_verify u now) (\<lambda>u1.
                    tx_bind (save_verification v1) (\<lambda>_.
                    tx_bind (save_user u1) (\<lambda>_.
                    tx_return (Inr (us_id u)))))))))"

section \<open>Signing in\<close>

record session_credential =
  sc_session :: session_id
  sc_token :: string
  sc_issued :: int
  sc_expires :: int

definition credential :: "session \<Rightarrow> string \<Rightarrow> session_credential" where
  "credential x raw =
     \<lparr>sc_session = se_id x, sc_token = raw, sc_issued = se_issued x, sc_expires = se_expires x\<rparr>"

text \<open>\<open>Math.ceil(ms / 1000)\<close>.\<close>

definition retry_after_seconds :: "int \<Rightarrow> int \<Rightarrow> int" where
  "retry_after_seconds throttled_until now = - ((now - throttled_until) div 1000)"

definition throttled_at :: "user option \<Rightarrow> int \<Rightarrow> int option" where
  "throttled_at found now =
     (case found of
        None \<Rightarrow> None
      | Some u \<Rightarrow> (case us_throttled u of None \<Rightarrow> None | Some t \<Rightarrow> if t > now then Some t else None))"

definition device_label :: "string option \<Rightarrow> string" where
  "device_label given =
     (case given of
        None \<Rightarrow> ''Unknown device''
      | Some t \<Rightarrow> if trim t = [] then ''Unknown device'' else trim t)"

definition grant_session ::
  "(string \<Rightarrow> string) \<Rightarrow> user \<Rightarrow> string option \<Rightarrow> string \<Rightarrow> session_id \<Rightarrow> device_id \<Rightarrow> string \<Rightarrow> int
     \<Rightarrow> session_credential outcome identity_tx"
where
  "grant_session hash u given raw sid did cid now =
     tx_bind (save_user (clear_failed_attempts now u)) (\<lambda>_.
       let d = device_register did (us_id u) (device_label given) now;
           x = session_issue sid (us_id u) did (hash raw) now absolute_session_lifetime_ms in
       tx_bind (save_device d) (\<lambda>_.
       tx_bind (save_session x) (\<lambda>_.
       tx_bind (is_event (user_authenticated_event (us_id u) sid cid)) (\<lambda>_.
       tx_return (Inr (credential x raw))))))"

definition attempt ::
  "(string \<Rightarrow> string) \<Rightarrow> (string \<Rightarrow> string \<Rightarrow> bool) \<Rightarrow> user option \<Rightarrow> string \<Rightarrow> string option \<Rightarrow> string
     \<Rightarrow> session_id \<Rightarrow> device_id \<Rightarrow> string \<Rightarrow> int \<Rightarrow> session_credential outcome identity_tx"
where
  "attempt hash matches found password given raw sid did cid now =
     (case throttled_at found now of
        Some t \<Rightarrow> tx_return (Inl (Throttled (retry_after_seconds t now)))
      | None \<Rightarrow>
          let password_matches =
                matches password (case found of None \<Rightarrow> dummy_password_hash | Some u \<Rightarrow> us_password u) in
          case found of
            None \<Rightarrow> tx_return (Inl InvalidCredentials)
          | Some u \<Rightarrow>
              if \<not> password_matches then
                tx_bind (save_user (record_failed_attempt max_failed_attempts throttle_lockout_ms now u)) (\<lambda>_.
                tx_return (Inl InvalidCredentials))
              else if us_status u \<noteq> ActiveUser then tx_return (Inl AccountNotVerified)
              else grant_session hash u given raw sid did cid now)"

definition authenticate_user ::
  "(string \<Rightarrow> string) \<Rightarrow> (string \<Rightarrow> string \<Rightarrow> bool) \<Rightarrow> string \<Rightarrow> string \<Rightarrow> string option \<Rightarrow> string
     \<Rightarrow> session_id \<Rightarrow> device_id \<Rightarrow> string \<Rightarrow> int \<Rightarrow> session_credential outcome identity_tx"
where
  "authenticate_user hash matches raw_email password given raw sid did cid now =
     in_transaction
       (tx_bind (find_user_by_email (email_value (email_from raw_email))) (\<lambda>found.
        attempt hash matches found password given raw sid did cid now))"

section \<open>Sessions\<close>

text \<open>
  \<open>renewSession\<close> and \<open>authenticateSession\<close> run outside a transaction: the lookup and the save are
  two statements, \<open>renew_read\<close> and \<open>renew_write\<close>, between which others may run.
\<close>

definition replayed :: "session \<Rightarrow> int \<Rightarrow> 'a outcome identity_tx" where
  "replayed x now =
     tx_bind (save_session (session_revoke ReplayDetected now x)) (\<lambda>_.
     tx_return (Inl (SessionReplayDetected (se_id x))))"

definition renew_write ::
  "(string \<Rightarrow> string) \<Rightarrow> auth_context option \<Rightarrow> string \<Rightarrow> int \<Rightarrow> session_credential outcome identity_tx"
where
  "renew_write hash found raw now =
     (case found of
        None \<Rightarrow> tx_return (Inl SessionInvalid)
      | Some c \<Rightarrow>
          if ac_previous c then replayed (ac_session c) now
          else
            tx_ok (session_rotate (ac_session c) (hash raw) now) (\<lambda>x.
            tx_bind (save_session x) (\<lambda>_.
            tx_return (Inr (credential x raw)))))"

definition renew_session ::
  "(string \<Rightarrow> string) \<Rightarrow> string \<Rightarrow> string \<Rightarrow> int \<Rightarrow> session_credential outcome identity_tx"
where
  "renew_session hash token raw now =
     tx_bind (find_auth_context (hash token)) (\<lambda>found. renew_write hash found raw now)"

definition authenticate_session ::
  "(string \<Rightarrow> string) \<Rightarrow> string \<Rightarrow> int \<Rightarrow> (user_id \<times> session_id) outcome identity_tx"
where
  "authenticate_session hash token now =
     tx_bind (find_auth_context (hash token)) (\<lambda>found.
       case found of
         None \<Rightarrow> tx_return (Inl SessionInvalid)
       | Some c \<Rightarrow>
           if ac_previous c then replayed (ac_session c) now
           else if \<not> session_usable (ac_session c) now \<or> ac_status c \<noteq> ActiveUser
             then tx_return (Inl SessionInvalid)
           else tx_return (Inr (se_user (ac_session c), se_id (ac_session c))))"

definition revoke_session :: "user_id \<Rightarrow> session_id \<Rightarrow> int \<Rightarrow> unit outcome identity_tx" where
  "revoke_session user i now =
     tx_bind (find_session i) (\<lambda>found.
       case found of
         None \<Rightarrow> tx_return (Inl NotFound)
       | Some x \<Rightarrow>
           if se_user x \<noteq> user then tx_return (Inl NotFound)
           else
             tx_bind (save_session (session_revoke UserRevoked now x)) (\<lambda>_. tx_return (Inr ())))"

section \<open>Account deletion\<close>

definition request_account_deletion :: "user_id \<Rightarrow> string \<Rightarrow> int \<Rightarrow> unit outcome identity_tx" where
  "request_account_deletion user cid now =
     in_transaction
       (tx_bind (find_user user) (\<lambda>found.
          case found of
            None \<Rightarrow> tx_return (Inl NotFound)
          | Some u \<Rightarrow>
              tx_ok (request_user_deletion u now) (\<lambda>u1.
              tx_bind (save_user u1) (\<lambda>_.
              tx_bind (list_sessions_of (us_id u1)) (\<lambda>sessions.
              tx_bind (tx_each (\<lambda>x. save_session (session_revoke AccountDeleted now x)) sessions) (\<lambda>_.
              tx_bind (is_event (user_deletion_requested_event (us_id u1) cid)) (\<lambda>_.
              tx_return (Inr ()))))))))"

section \<open>Queries\<close>

definition list_sessions :: "user_id \<Rightarrow> session_id \<Rightarrow> (session_summary \<times> bool) list identity_tx" where
  "list_sessions user current =
     tx_bind (list_summaries user) (\<lambda>rows. tx_return (map (\<lambda>r. (r, sm_session r = current)) rows))"

record account_export =
  ax_email :: string
  ax_registered :: int
  ax_verified :: bool
  ax_sessions :: "exported_session list"

definition export_account_data :: "user_id \<Rightarrow> account_export outcome identity_tx" where
  "export_account_data user =
     in_transaction
       (tx_bind (find_user user) (\<lambda>found.
          case found of
            None \<Rightarrow> tx_return (Inl NotFound)
          | Some u \<Rightarrow>
              tx_bind (list_export_summaries user) (\<lambda>sessions.
              tx_return (Inr \<lparr>ax_email = email_value (us_email u), ax_registered = us_created u,
                ax_verified = is_verified u, ax_sessions = sessions\<rparr>))))"

definition resolve_user_id_by_email :: "string \<Rightarrow> user_id option identity_tx" where
  "resolve_user_id_by_email email =
     in_transaction
       (tx_bind (find_user_by_email (email_value (email_from email))) (\<lambda>found.
        tx_return (map_option us_id found)))"

definition resolve_email_by_user_id :: "user_id \<Rightarrow> string option identity_tx" where
  "resolve_email_by_user_id user =
     in_transaction
       (tx_bind (find_user user) (\<lambda>found. tx_return (map_option (\<lambda>u. email_value (us_email u)) found)))"

end
