(* ===== verification/Identity_Facts.thy ===== *)
theory Identity_Facts
  imports Identity_Commands
begin

text \<open>
  The invariant of the Identity tables, and what each save does to tables that satisfy it.
\<close>

section \<open>The invariant\<close>

definition user_fine :: "user \<Rightarrow> bool" where
  "user_fine u \<longleftrightarrow>
     email_from (email_value (us_email u)) = us_email u
     \<and> (us_status u = PendingVerification \<longleftrightarrow> us_verified u = None)
     \<and> (us_status u = DeletionRequested \<longleftrightarrow> us_deletion u \<noteq> None)
     \<and> 0 \<le> us_failed u \<and> (us_throttled u = None \<longleftrightarrow> us_failed u < max_failed_attempts)"

definition session_fine :: "session \<Rightarrow> bool" where
  "session_fine x \<longleftrightarrow>
     se_hash x \<noteq> [] \<and> se_previous x \<noteq> Some [] \<and> (se_previous x = None \<longleftrightarrow> se_rotated x = None)
     \<and> (se_revoked x = None \<longleftrightarrow> se_reason x = None)
     \<and> se_expires x = se_issued x + absolute_session_lifetime_ms"

text \<open>The credentials a session answers to: the current one and the one just superseded.\<close>

definition credentials :: "session \<Rightarrow> string set" where
  "credentials x = insert (se_hash x) (set_option (se_previous x))"

definition open_link :: "email_verification \<Rightarrow> bool" where
  "open_link v \<longleftrightarrow> vf_consumed v = None \<and> vf_superseded v = None"

definition owner_fine :: "user \<Rightarrow> session \<Rightarrow> bool" where
  "owner_fine u x \<longleftrightarrow>
     us_status u \<noteq> PendingVerification \<and> (us_status u = DeletionRequested \<longrightarrow> se_revoked x \<noteq> None)"

definition users_ok :: "identity_store \<Rightarrow> bool" where
  "users_ok s \<longleftrightarrow>
     distinct (map us_id (user_rows s)) \<and> (\<forall>u \<in> set (user_rows s). user_fine u)
     \<and> apart us_id (\<lambda>u w. us_email u = us_email w) (set (user_rows s))"

definition sessions_ok :: "identity_store \<Rightarrow> bool" where
  "sessions_ok s \<longleftrightarrow>
     distinct (map se_id (session_rows s)) \<and> (\<forall>x \<in> set (session_rows s). session_fine x)
     \<and> apart se_id (\<lambda>x y. credentials x \<inter> credentials y \<noteq> {}) (set (session_rows s))
     \<and> (\<forall>x \<in> set (session_rows s). \<exists>d \<in> set (device_rows s). dv_id d = se_device x \<and> dv_user d = se_user x)"

definition owners_ok :: "identity_store \<Rightarrow> bool" where
  "owners_ok s \<longleftrightarrow>
     (\<forall>x \<in> set (session_rows s). \<exists>u \<in> set (user_rows s). us_id u = se_user x \<and> owner_fine u x)"

definition devices_ok :: "identity_store \<Rightarrow> bool" where
  "devices_ok s \<longleftrightarrow>
     distinct (map dv_id (device_rows s))
     \<and> (\<forall>d \<in> set (device_rows s). dv_user d \<in> us_id ` set (user_rows s))"

definition verifications_ok :: "identity_store \<Rightarrow> bool" where
  "verifications_ok s \<longleftrightarrow>
     distinct (map vf_id (verification_rows s))
     \<and> (\<forall>v \<in> set (verification_rows s). vf_user v \<in> us_id ` set (user_rows s))
     \<and> apart vf_id (\<lambda>v w. vf_hash v = vf_hash w) (set (verification_rows s))
     \<and> apart vf_id (\<lambda>v w. open_link v \<and> open_link w \<and> vf_user v = vf_user w) (set (verification_rows s))"

definition identity_ok :: "identity_store \<Rightarrow> bool" where
  "identity_ok s \<longleftrightarrow> users_ok s \<and> sessions_ok s \<and> owners_ok s \<and> devices_ok s \<and> verifications_ok s"

lemma identity_okD:
  assumes "identity_ok s"
  shows "users_ok s" "sessions_ok s" "owners_ok s" "devices_ok s" "verifications_ok s"
  using assms by (simp_all add: identity_ok_def)

lemma other_columns [simp]:
  "users_ok (s\<lparr>session_rows := xs\<rparr>) = users_ok s" "users_ok (s\<lparr>device_rows := ds\<rparr>) = users_ok s"
  "users_ok (s\<lparr>verification_rows := vs\<rparr>) = users_ok s" "users_ok (s\<lparr>is_outbox := ob\<rparr>) = users_ok s"
  "users_ok (s\<lparr>is_mail := ms\<rparr>) = users_ok s" "users_ok (s\<lparr>is_now := t\<rparr>) = users_ok s"
  "sessions_ok (s\<lparr>user_rows := us\<rparr>) = sessions_ok s"
  "sessions_ok (s\<lparr>verification_rows := vs\<rparr>) = sessions_ok s" "sessions_ok (s\<lparr>is_outbox := ob\<rparr>) = sessions_ok s"
  "sessions_ok (s\<lparr>is_mail := ms\<rparr>) = sessions_ok s" "sessions_ok (s\<lparr>is_now := t\<rparr>) = sessions_ok s"
  "owners_ok (s\<lparr>device_rows := ds\<rparr>) = owners_ok s" "owners_ok (s\<lparr>verification_rows := vs\<rparr>) = owners_ok s"
  "owners_ok (s\<lparr>is_outbox := ob\<rparr>) = owners_ok s" "owners_ok (s\<lparr>is_mail := ms\<rparr>) = owners_ok s"
  "owners_ok (s\<lparr>is_now := t\<rparr>) = owners_ok s"
  "devices_ok (s\<lparr>session_rows := xs\<rparr>) = devices_ok s" "devices_ok (s\<lparr>verification_rows := vs\<rparr>) = devices_ok s"
  "devices_ok (s\<lparr>is_outbox := ob\<rparr>) = devices_ok s" "devices_ok (s\<lparr>is_mail := ms\<rparr>) = devices_ok s"
  "devices_ok (s\<lparr>is_now := t\<rparr>) = devices_ok s"
  "verifications_ok (s\<lparr>session_rows := xs\<rparr>) = verifications_ok s" "verifications_ok (s\<lparr>device_rows := ds\<rparr>) = verifications_ok s"
  "verifications_ok (s\<lparr>is_outbox := ob\<rparr>) = verifications_ok s" "verifications_ok (s\<lparr>is_mail := ms\<rparr>) = verifications_ok s"
  "verifications_ok (s\<lparr>is_now := t\<rparr>) = verifications_ok s"
  by (simp_all add: users_ok_def sessions_ok_def owners_ok_def devices_ok_def verifications_ok_def)

lemma identity_ok_logs [simp]:
  "identity_ok (s\<lparr>is_outbox := ob\<rparr>) = identity_ok s" "identity_ok (s\<lparr>is_mail := ms\<rparr>) = identity_ok s"
  "identity_ok (s\<lparr>is_now := t\<rparr>) = identity_ok s"
  by (simp_all add: identity_ok_def)

section \<open>Looking rows up\<close>

lemma users_okD:
  assumes "users_ok s"
  shows "distinct (map us_id (user_rows s))" "\<And>u. u \<in> set (user_rows s) \<Longrightarrow> user_fine u"
    "\<And>u w. u \<in> set (user_rows s) \<Longrightarrow> w \<in> set (user_rows s) \<Longrightarrow> us_email u = us_email w \<Longrightarrow> us_id u = us_id w"
  using assms unfolding users_ok_def apart_def by blast+

lemma sessions_okD:
  assumes "sessions_ok s"
  shows "distinct (map se_id (session_rows s))" "\<And>x. x \<in> set (session_rows s) \<Longrightarrow> session_fine x"
    "\<And>x y. x \<in> set (session_rows s) \<Longrightarrow> y \<in> set (session_rows s) \<Longrightarrow>
       credentials x \<inter> credentials y \<noteq> {} \<Longrightarrow> se_id x = se_id y"
    "\<And>x. x \<in> set (session_rows s) \<Longrightarrow> \<exists>d \<in> set (device_rows s). dv_id d = se_device x \<and> dv_user d = se_user x"
  using assms unfolding sessions_ok_def apart_def by blast+

lemma verifications_okD:
  assumes "verifications_ok s"
  shows "distinct (map vf_id (verification_rows s))"
    "\<And>v. v \<in> set (verification_rows s) \<Longrightarrow> vf_user v \<in> us_id ` set (user_rows s)"
    "\<And>v w. v \<in> set (verification_rows s) \<Longrightarrow> w \<in> set (verification_rows s) \<Longrightarrow> vf_hash v = vf_hash w \<Longrightarrow> vf_id v = vf_id w"
    "\<And>v w. v \<in> set (verification_rows s) \<Longrightarrow> w \<in> set (verification_rows s) \<Longrightarrow> open_link v \<Longrightarrow> open_link w \<Longrightarrow>
       vf_user v = vf_user w \<Longrightarrow> vf_id v = vf_id w"
  using assms unfolding verifications_ok_def apart_def by blast+

lemma user_same: "users_ok s \<Longrightarrow> u \<in> set (user_rows s) \<Longrightarrow> w \<in> set (user_rows s) \<Longrightarrow> us_id u = us_id w \<Longrightarrow> u = w"
  by (drule users_okD(1)) (auto simp: distinct_map inj_on_def)

lemma session_same:
  "sessions_ok s \<Longrightarrow> x \<in> set (session_rows s) \<Longrightarrow> y \<in> set (session_rows s) \<Longrightarrow> se_id x = se_id y \<Longrightarrow> x = y"
  by (drule sessions_okD(1)) (auto simp: distinct_map inj_on_def)

lemma link_same:
  "verifications_ok s \<Longrightarrow> v \<in> set (verification_rows s) \<Longrightarrow> w \<in> set (verification_rows s) \<Longrightarrow> vf_id v = vf_id w \<Longrightarrow> v = w"
  by (drule verifications_okD(1)) (auto simp: distinct_map inj_on_def)

lemma load_user_fine [simp]: "user_fine u \<Longrightarrow> load_user u = u"
  by (simp add: load_user_def user_fine_def)

lemma find_user_run:
  assumes "users_ok s"
  shows "find_user i s = (Inr (tbl_find us_id i (user_rows s)), s)"
proof (cases "tbl_find us_id i (user_rows s)")
  case (Some u)
  then have "u \<in> set (user_rows s)" by (auto dest: tbl_find_Some)
  with Some assms show ?thesis by (simp add: find_user_def users_okD(2))
qed (simp add: find_user_def)

lemma find_user_by_email_run:
  assumes "users_ok s"
  shows "find_user_by_email e s = (Inr (tbl_find (\<lambda>u. email_value (us_email u)) e (user_rows s)), s)"
proof (cases "tbl_find (\<lambda>u. email_value (us_email u)) e (user_rows s)")
  case (Some u)
  then have "u \<in> set (user_rows s)" by (auto dest: tbl_find_Some)
  with Some assms show ?thesis by (simp add: find_user_by_email_def users_okD(2))
qed (simp add: find_user_by_email_def)

text \<open>The session a credential finds is the only one that answers to it.\<close>

lemma matching_session_iff:
  assumes "sessions_ok s"
  shows "matching_session h s = Some x \<longleftrightarrow> x \<in> set (session_rows s) \<and> h \<in> credentials x"
proof
  assume "matching_session h s = Some x"
  then show "x \<in> set (session_rows s) \<and> h \<in> credentials x"
    by (auto simp: matching_session_def credentials_def find_Some_iff)
next
  assume x: "x \<in> set (session_rows s) \<and> h \<in> credentials x"
  then have "matching_session h s \<noteq> None"
    by (auto simp: matching_session_def credentials_def find_None_iff)
  then obtain y where y: "matching_session h s = Some y" by blast
  then have "y \<in> set (session_rows s)" "h \<in> credentials y"
    by (auto simp: matching_session_def credentials_def find_Some_iff)
  then have "y = x" using x sessions_okD(3) [OF assms, of y x] by (intro session_same [OF assms]) auto
  with y show "matching_session h s = Some x" by simp
qed

lemma auth_context_none: "matching_session h s = None \<Longrightarrow> find_auth_context h s = (Inr None, s)"
  by (simp add: find_auth_context_def)

lemma auth_context_some:
  assumes ok: "users_ok s" "owners_ok s" and m: "matching_session h s = Some x" "x \<in> set (session_rows s)"
  obtains u where "u \<in> set (user_rows s)" "us_id u = se_user x" "owner_fine u x"
    "find_auth_context h s
       = (Inr (Some \<lparr>ac_session = x, ac_status = us_status u, ac_previous = (se_hash x \<noteq> h)\<rparr>), s)"
proof -
  from ok(2) m(2) obtain u where u: "u \<in> set (user_rows s)" "us_id u = se_user x" "owner_fine u x"
    by (auto simp: owners_ok_def)
  then have "tbl_find us_id (se_user x) (user_rows s) = Some u"
    using users_okD(1) [OF ok(1)] by (simp add: tbl_find_iff)
  with u m(1) that show thesis by (simp add: find_auth_context_def)
qed

section \<open>Saving rows\<close>

definition put_user :: "user \<Rightarrow> identity_store \<Rightarrow> identity_store" where
  "put_user u s = s\<lparr>user_rows := tbl_update (\<lambda>r. us_id r = us_id u)
     (\<lambda>r. u\<lparr>us_created := us_created r, us_updated := is_now s\<rparr>) (user_rows s)\<rparr>"

definition put_session :: "session \<Rightarrow> identity_store \<Rightarrow> identity_store" where
  "put_session x s = s\<lparr>session_rows := tbl_update (\<lambda>r. se_id r = se_id x) (\<lambda>_. x) (session_rows s)\<rparr>"

definition put_link :: "email_verification \<Rightarrow> identity_store \<Rightarrow> identity_store" where
  "put_link v s = s\<lparr>verification_rows := tbl_update (\<lambda>r. vf_id r = vf_id v) (\<lambda>_. v) (verification_rows s)\<rparr>"

lemma save_user_run:
  assumes ok: "users_ok s" and u: "u \<in> set (user_rows s)" "us_id u' = us_id u" "us_email u' = us_email u"
  shows "save_user u' s = (Inr (), put_user u' s)"
proof -
  let ?change = "\<lambda>r. r\<lparr>us_email := us_email u', us_password := us_password u', us_status := us_status u',
           us_verified := us_verified u', us_deletion := us_deletion u', us_failed := us_failed u',
           us_throttled := us_throttled u', us_updated := is_now s\<rparr>"
  have "upsert us_id (\<lambda>_. True) (\<lambda>_. True) user_clash (\<lambda>_. True) (u'\<lparr>us_updated := is_now s\<rparr>) ?change (user_rows s)
      = Inr (tbl_update (\<lambda>r. us_id r = us_id u') ?change (user_rows s))"
    using users_okD(1) [OF ok] u(1)
    by (subst upsert_known [of us_id "user_rows s" u])
      (auto simp: user_clash_def u(2,3) intro: users_okD(3) [OF ok _ u(1)])
  moreover have "tbl_update (\<lambda>r. us_id r = us_id u') ?change (user_rows s)
      = tbl_update (\<lambda>r. us_id r = us_id u') (\<lambda>r. u'\<lparr>us_created := us_created r, us_updated := is_now s\<rparr>) (user_rows s)"
    by (auto simp: tbl_update_def)
  ultimately show ?thesis by (simp add: save_user_def put_user_def)
qed

lemma save_session_run:
  assumes ok: "sessions_ok s" "se_user x \<in> us_id ` set (user_rows s)"
    and x: "x \<in> set (session_rows s)" "se_id x' = se_id x"
    and same: "se_user x' = se_user x" "se_device x' = se_device x" "se_issued x' = se_issued x"
    and fresh: "\<forall>y \<in> set (session_rows s). se_hash y = se_hash x' \<longrightarrow> se_id y = se_id x"
    and prev: "se_previous x' \<noteq> Some []"
  shows "save_session x' s = (Inr (), put_session x' s)"
proof -
  let ?change = "\<lambda>r. r\<lparr>se_user := se_user x', se_device := se_device x', se_hash := se_hash x',
           se_previous := stored_previous (se_previous x'), se_rotated := se_rotated x',
           se_expires := se_expires x', se_revoked := se_revoked x', se_reason := se_reason x'\<rparr>"
  have p: "stored_previous (se_previous x') = se_previous x'"
    using prev by (auto simp: stored_previous_def split: option.splits)
  have refs: "se_user x' \<in> us_id ` set (user_rows s)" "se_device x' \<in> dv_id ` set (device_rows s)"
    using ok(2) same sessions_okD(4) [OF ok(1) x(1)] by (auto intro: rev_image_eqI)
  have "upsert se_id (\<lambda>_. True) (\<lambda>_. True) session_clash
      (\<lambda>r. se_user r \<in> us_id ` set (user_rows s) \<and> se_device r \<in> dv_id ` set (device_rows s))
      (x'\<lparr>se_previous := stored_previous (se_previous x')\<rparr>) ?change (session_rows s)
      = Inr (tbl_update (\<lambda>r. se_id r = se_id x') ?change (session_rows s))"
    using sessions_okD(1) [OF ok(1)] x fresh refs
    by (subst upsert_known [of se_id "session_rows s" x]) (simp_all add: session_clash_def)
  moreover have "r = x" if "r \<in> set (session_rows s)" "se_id r = se_id x'" for r
    using session_same [OF ok(1) that(1) x(1)] that(2) x(2) by simp
  then have "tbl_update (\<lambda>r. se_id r = se_id x') ?change (session_rows s)
      = tbl_update (\<lambda>r. se_id r = se_id x') (\<lambda>_. x') (session_rows s)"
    using same p by (auto simp: tbl_update_def)
  ultimately show ?thesis by (simp add: save_session_def put_session_def)
qed

lemma save_link_run:
  assumes ok: "verifications_ok s" and v: "v \<in> set (verification_rows s)" "vf_id v' = vf_id v" "vf_user v' = vf_user v"
    "vf_hash v' = vf_hash v"
  shows "save_verification v' s = (Inr (), put_link v' s)"
proof -
  let ?change = "\<lambda>r. r\<lparr>vf_user := vf_user v', vf_hash := vf_hash v', vf_expires := vf_expires v',
           vf_consumed := vf_consumed v', vf_superseded := vf_superseded v'\<rparr>"
  have "upsert vf_id (\<lambda>_. True) (\<lambda>_. True) verification_clash (\<lambda>r. vf_user r \<in> us_id ` set (user_rows s)) v' ?change
      (verification_rows s) = Inr (tbl_update (\<lambda>r. vf_id r = vf_id v') ?change (verification_rows s))"
    using verifications_okD(1) [OF ok] v(1) verifications_okD(2) [OF ok v(1)]
    by (subst upsert_known [of vf_id "verification_rows s" v])
      (auto simp: verification_clash_def v(2-4) intro: verifications_okD(3) [OF ok _ v(1)])
  moreover have "tbl_update (\<lambda>r. vf_id r = vf_id v') ?change (verification_rows s)
      = tbl_update (\<lambda>r. vf_id r = vf_id v') (\<lambda>_. v') (verification_rows s)"
    by (auto simp: tbl_update_def)
  ultimately show ?thesis by (simp add: save_verification_def put_link_def)
qed

lemma save_new_link_run:
  assumes "vf_user v \<in> us_id ` set (user_rows s)"
    "\<forall>w \<in> set (verification_rows s). vf_id w \<noteq> vf_id v \<and> vf_hash w \<noteq> vf_hash v"
  shows "save_verification v s = (Inr (), s\<lparr>verification_rows := verification_rows s @ [v]\<rparr>)"
  using assms by (simp add: save_verification_def upsert_new verification_clash_def)

lemma save_new_device_run:
  assumes "dv_user d \<in> us_id ` set (user_rows s)" "dv_id d \<notin> dv_id ` set (device_rows s)"
  shows "save_device d s = (Inr (), s\<lparr>device_rows := device_rows s @ [d]\<rparr>)"
  using assms by (subst save_device_def, subst upsert_new) (auto simp: image_iff)

lemma save_new_session_run:
  assumes "se_user x \<in> us_id ` set (user_rows s)" "se_device x \<in> dv_id ` set (device_rows s)"
    "se_previous x = None" "\<forall>y \<in> set (session_rows s). se_id y \<noteq> se_id x \<and> se_hash y \<noteq> se_hash x"
  shows "save_session x s = (Inr (), s\<lparr>session_rows := session_rows s @ [x]\<rparr>)"
  using assms by (simp add: save_session_def upsert_new session_clash_def stored_previous_def)

lemma save_new_user_run:
  assumes "\<forall>w \<in> set (user_rows s). us_id w \<noteq> us_id u \<and> us_email w \<noteq> us_email u"
  shows "save_user u s = (Inr (), s\<lparr>user_rows := user_rows s @ [u\<lparr>us_updated := is_now s\<rparr>]\<rparr>)"
proof -
  have "upsert us_id (\<lambda>_. True) (\<lambda>_. True) user_clash (\<lambda>_. True) (u\<lparr>us_updated := is_now s\<rparr>) f (user_rows s)
      = Inr (user_rows s @ [u\<lparr>us_updated := is_now s\<rparr>])" for f
    using assms by (intro upsert_new) (simp_all add: user_clash_def)
  then show ?thesis by (simp add: save_user_def)
qed

end
