(* ===== verification/Identity_Command_Facts.thy ===== *)
theory Identity_Command_Facts
  imports Identity_Facts
begin

text \<open>
  Every command, query and retention sweep of the Identity context keeps the invariant of its
  tables, and the state the session commands leave.
\<close>

section \<open>Writes that keep the invariant\<close>

lemma put_columns [simp]:
  "session_rows (put_user u s) = session_rows s" "device_rows (put_user u s) = device_rows s"
  "verification_rows (put_user u s) = verification_rows s" "is_now (put_user u s) = is_now s"
  "user_rows (put_session x s) = user_rows s" "device_rows (put_session x s) = device_rows s"
  "verification_rows (put_session x s) = verification_rows s" "is_now (put_session x s) = is_now s"
  "user_rows (put_link v s) = user_rows s" "device_rows (put_link v s) = device_rows s"
  "session_rows (put_link v s) = session_rows s" "is_now (put_link v s) = is_now s"
  "is_outbox (put_user u s) = is_outbox s" "is_outbox (put_session x s) = is_outbox s" "is_outbox (put_link v s) = is_outbox s"
  "is_mail (put_user u s) = is_mail s" "is_mail (put_session x s) = is_mail s" "is_mail (put_link v s) = is_mail s"
  by (simp_all add: put_user_def put_session_def put_link_def)

lemma put_user_ids [simp]: "us_id ` set (user_rows (put_user u s)) = us_id ` set (user_rows s)"
proof -
  have "map us_id (user_rows (put_user u s)) = map us_id (user_rows s)"
    by (auto simp: put_user_def tbl_update_def)
  then show ?thesis by (metis set_map)
qed

lemma put_user_rows:
  "w \<in> set (user_rows (put_user u s)) \<longleftrightarrow>
     (\<exists>r \<in> set (user_rows s). if us_id r = us_id u then w = u\<lparr>us_created := us_created r, us_updated := is_now s\<rparr> else w = r)"
  by (auto simp: put_user_def set_tbl_update split: if_splits)

lemma put_session_rows:
  "x \<in> set (session_rows s) \<Longrightarrow> se_id x' = se_id x \<Longrightarrow>
     y \<in> set (session_rows (put_session x' s)) \<longleftrightarrow> y = x' \<or> y \<in> set (session_rows s) \<and> se_id y \<noteq> se_id x"
  by (auto simp: put_session_def set_tbl_update image_iff split: if_splits)

lemma user_fine_stamped [simp]: "user_fine (u\<lparr>us_created := a, us_updated := b\<rparr>) = user_fine u"
  by (simp add: user_fine_def)

lemma owner_fine_stamped [simp]: "owner_fine (u\<lparr>us_created := a, us_updated := b\<rparr>) x = owner_fine u x"
  by (simp add: owner_fine_def)

lemma put_user_ok:
  assumes ok: "users_ok s" and u: "u \<in> set (user_rows s)" "us_id u' = us_id u" "us_email u' = us_email u" "user_fine u'"
  shows "users_ok (put_user u' s)"
  unfolding users_ok_def
proof (intro conjI ballI apartI)
  have "map us_id (user_rows (put_user u' s)) = map us_id (user_rows s)"
    by (auto simp: put_user_def tbl_update_def)
  then show "distinct (map us_id (user_rows (put_user u' s)))" using users_okD(1) [OF ok] by simp
next
  fix w assume "w \<in> set (user_rows (put_user u' s))"
  then show "user_fine w" using u(4) users_okD(2) [OF ok] by (auto simp: put_user_rows split: if_splits)
next
  have e: "\<exists>r \<in> set (user_rows s). us_id r = us_id w \<and> us_email r = us_email w" if "w \<in> set (user_rows (put_user u' s))" for w
    using that u(1-3) by (auto simp: put_user_rows split: if_splits)
  fix w z assume "w \<in> set (user_rows (put_user u' s))" "z \<in> set (user_rows (put_user u' s))" "us_email w = us_email z"
  with e [of w] e [of z] users_okD(3) [OF ok] show "us_id w = us_id z" by metis
qed

lemma put_user_owners:
  assumes ok: "owners_ok s" and own: "\<And>x. x \<in> set (session_rows s) \<Longrightarrow> se_user x = us_id u' \<Longrightarrow> owner_fine u' x"
  shows "owners_ok (put_user u' s)"
  unfolding owners_ok_def
proof
  fix x assume x: "x \<in> set (session_rows (put_user u' s))"
  with ok obtain u where u: "u \<in> set (user_rows s)" "us_id u = se_user x" "owner_fine u x" by (auto simp: owners_ok_def)
  show "\<exists>w \<in> set (user_rows (put_user u' s)). us_id w = se_user x \<and> owner_fine w x"
  proof (cases "us_id u = us_id u'")
    case True
    with u x own show ?thesis
      by (intro bexI [of _ "u'\<lparr>us_created := us_created u, us_updated := is_now s\<rparr>"]) (auto simp: put_user_rows)
  next
    case False
    with u show ?thesis by (intro bexI [of _ u]) (auto simp: put_user_rows intro!: bexI [of _ u])
  qed
qed

lemma put_user_refs [simp]:
  "devices_ok (put_user u s) = devices_ok s" "verifications_ok (put_user u s) = verifications_ok s"
  "sessions_ok (put_user u s) = sessions_ok s"
  by (simp_all add: devices_ok_def verifications_ok_def sessions_ok_def)

lemma put_session_ok:
  assumes ok: "sessions_ok s" and x: "x \<in> set (session_rows s)" "se_id x' = se_id x" "se_device x' = se_device x"
    "se_user x' = se_user x" "session_fine x'"
    and own: "\<And>y. y \<in> set (session_rows s) \<Longrightarrow> se_id y \<noteq> se_id x \<Longrightarrow> credentials x' \<inter> credentials y = {}"
  shows "sessions_ok (put_session x' s)"
  unfolding sessions_ok_def
proof (intro conjI ballI apartI)
  have "map se_id (session_rows (put_session x' s)) = map se_id (session_rows s)"
    by (auto simp: put_session_def tbl_update_def)
  then show "distinct (map se_id (session_rows (put_session x' s)))" using sessions_okD(1) [OF ok] by simp
next
  fix y assume "y \<in> set (session_rows (put_session x' s))"
  then have y: "y = x' \<or> y \<in> set (session_rows s)" by (auto simp: put_session_rows [OF x(1,2)])
  then show "session_fine y" using x(5) sessions_okD(2) [OF ok] by auto
  from y show "\<exists>d \<in> set (device_rows (put_session x' s)). dv_id d = se_device y \<and> dv_user d = se_user y"
    using sessions_okD(4) [OF ok] x by auto
next
  fix y z assume "y \<in> set (session_rows (put_session x' s))" "z \<in> set (session_rows (put_session x' s))"
    "credentials y \<inter> credentials z \<noteq> {}"
  then show "se_id y = se_id z"
    using own sessions_okD(3) [OF ok] x(2) unfolding put_session_rows [OF x(1,2)] by (metis inf_commute)
qed

lemma put_session_owners:
  assumes ok: "owners_ok s" and x: "x \<in> set (session_rows s)" "se_id x' = se_id x" "se_user x' = se_user x"
    and dead: "se_revoked x \<noteq> None \<Longrightarrow> se_revoked x' \<noteq> None"
  shows "owners_ok (put_session x' s)"
  unfolding owners_ok_def
proof
  fix y assume "y \<in> set (session_rows (put_session x' s))"
  then have "y = x' \<or> y \<in> set (session_rows s)" by (auto simp: put_session_rows [OF x(1,2)])
  then obtain z where z: "z \<in> set (session_rows s)" "se_user z = se_user y" "se_revoked z \<noteq> None \<Longrightarrow> se_revoked y \<noteq> None"
    using x dead by metis
  with ok obtain u where "u \<in> set (user_rows s)" "us_id u = se_user z" "owner_fine u z" by (auto simp: owners_ok_def)
  with z show "\<exists>u \<in> set (user_rows (put_session x' s)). us_id u = se_user y \<and> owner_fine u y"
    by (intro bexI [of _ u]) (auto simp: owner_fine_def)
qed

lemma put_session_refs [simp]:
  "users_ok (put_session x s) = users_ok s" "devices_ok (put_session x s) = devices_ok s"
  "verifications_ok (put_session x s) = verifications_ok s"
  by (simp_all add: put_session_def)

lemma put_link_ok:
  assumes ok: "verifications_ok s" and v: "v \<in> set (verification_rows s)" "vf_id v' = vf_id v" "vf_user v' = vf_user v"
    "vf_hash v' = vf_hash v" "open_link v' \<Longrightarrow> open_link v"
  shows "verifications_ok (put_link v' s)"
proof -
  have rows: "\<exists>w \<in> set (verification_rows s). vf_id w = vf_id z \<and> vf_user w = vf_user z \<and> vf_hash w = vf_hash z
      \<and> (open_link z \<longrightarrow> open_link w)" if "z \<in> set (verification_rows (put_link v' s))" for z
    using that v by (auto simp: put_link_def set_tbl_update split: if_splits)
  have "map vf_id (verification_rows (put_link v' s)) = map vf_id (verification_rows s)"
    by (auto simp: put_link_def tbl_update_def)
  then have d: "distinct (map vf_id (verification_rows (put_link v' s)))" using verifications_okD(1) [OF ok] by simp
  show ?thesis
    unfolding verifications_ok_def
  proof (intro conjI ballI apartI d)
    fix z assume "z \<in> set (verification_rows (put_link v' s))"
    then show "vf_user z \<in> us_id ` set (user_rows (put_link v' s))"
      using rows [of z] verifications_okD(2) [OF ok] unfolding put_columns by metis
  next
    fix y z assume "y \<in> set (verification_rows (put_link v' s))" "z \<in> set (verification_rows (put_link v' s))"
    with rows obtain y' z' where r: "y' \<in> set (verification_rows s)" "vf_id y' = vf_id y" "vf_user y' = vf_user y"
        "vf_hash y' = vf_hash y" "open_link y \<Longrightarrow> open_link y'"
        "z' \<in> set (verification_rows s)" "vf_id z' = vf_id z" "vf_user z' = vf_user z" "vf_hash z' = vf_hash z"
        "open_link z \<Longrightarrow> open_link z'"
      by metis
    show "vf_id y = vf_id z" if "vf_hash y = vf_hash z" using verifications_okD(3) [OF ok r(1,6)] r that by simp
    show "vf_id y = vf_id z" if "open_link y \<and> open_link z \<and> vf_user y = vf_user z"
      using verifications_okD(4) [OF ok r(1,6)] r that by simp
  qed
qed

lemma put_link_refs [simp]:
  "users_ok (put_link v s) = users_ok s" "devices_ok (put_link v s) = devices_ok s"
  "sessions_ok (put_link v s) = sessions_ok s" "owners_ok (put_link v s) = owners_ok s"
  by (simp_all add: put_link_def)

text \<open>New rows.\<close>

lemma add_user_ok:
  assumes ok: "identity_ok s" and u: "user_fine u" "us_id u \<notin> us_id ` set (user_rows s)"
    "\<forall>w \<in> set (user_rows s). us_email w \<noteq> us_email u"
  shows "identity_ok (s\<lparr>user_rows := user_rows s @ [u]\<rparr>)"
proof -
  let ?s = "s\<lparr>user_rows := user_rows s @ [u]\<rparr>"
  note d = identity_okD [OF ok]
  have "apart us_id (\<lambda>u w. us_email u = us_email w) (insert u (set (user_rows s)))"
    using d(1) u(3) unfolding users_ok_def by (auto intro!: apart_insert)
  moreover have "distinct (map us_id (user_rows ?s))" "\<forall>w \<in> set (user_rows ?s). user_fine w"
    using users_okD(1,2) [OF d(1)] u(1,2) by auto
  ultimately have "users_ok ?s" by (simp add: users_ok_def)
  moreover have "owners_ok ?s" using d(3) by (auto simp: owners_ok_def)
  moreover have "devices_ok ?s" using d(4) by (auto simp: devices_ok_def)
  moreover have "verifications_ok ?s"
    using d(5) by (simp add: verifications_ok_def)
  ultimately show ?thesis using d(2) by (simp add: identity_ok_def)
qed

lemma add_link_ok:
  assumes ok: "identity_ok s" and v: "vf_user v \<in> us_id ` set (user_rows s)"
    "\<forall>w \<in> set (verification_rows s). vf_id w \<noteq> vf_id v \<and> vf_hash w \<noteq> vf_hash v"
    "\<forall>w \<in> set (verification_rows s). vf_user w = vf_user v \<longrightarrow> \<not> open_link w"
  shows "identity_ok (s\<lparr>verification_rows := verification_rows s @ [v]\<rparr>)"
proof -
  note d = identity_okD [OF ok]
  have "distinct (map vf_id (verification_rows s @ [v]))"
    using verifications_okD(1) [OF d(5)] v(2) by auto
  moreover have "apart vf_id (\<lambda>v w. vf_hash v = vf_hash w) (insert v (set (verification_rows s)))"
    "apart vf_id (\<lambda>v w. open_link v \<and> open_link w \<and> vf_user v = vf_user w) (insert v (set (verification_rows s)))"
    using d(5) v(2,3) unfolding verifications_ok_def by (auto intro!: apart_insert simp: eq_commute)
  ultimately have "verifications_ok (s\<lparr>verification_rows := verification_rows s @ [v]\<rparr>)"
    using v(1) verifications_okD(2) [OF d(5)] by (auto simp: verifications_ok_def)
  with d show ?thesis by (simp add: identity_ok_def)
qed

lemma add_device_ok:
  assumes ok: "identity_ok s" and v: "dv_user v \<in> us_id ` set (user_rows s)" "dv_id v \<notin> dv_id ` set (device_rows s)"
  shows "identity_ok (s\<lparr>device_rows := device_rows s @ [v]\<rparr>)"
proof -
  note d = identity_okD [OF ok]
  have "devices_ok (s\<lparr>device_rows := device_rows s @ [v]\<rparr>)"
    using d(4) v by (simp add: devices_ok_def)
  moreover have "sessions_ok (s\<lparr>device_rows := device_rows s @ [v]\<rparr>)"
    using d(2) by (auto simp: sessions_ok_def)
  ultimately show ?thesis using d by (simp add: identity_ok_def)
qed

lemma add_session_ok:
  assumes ok: "identity_ok s" and x: "session_fine x" "se_id x \<notin> se_id ` set (session_rows s)"
    "\<forall>y \<in> set (session_rows s). credentials x \<inter> credentials y = {}"
    "\<exists>d \<in> set (device_rows s). dv_id d = se_device x \<and> dv_user d = se_user x"
    "\<exists>u \<in> set (user_rows s). us_id u = se_user x \<and> owner_fine u x"
  shows "identity_ok (s\<lparr>session_rows := session_rows s @ [x]\<rparr>)"
proof -
  let ?s = "s\<lparr>session_rows := session_rows s @ [x]\<rparr>"
  note d = identity_okD [OF ok]
  have "distinct (map se_id (session_rows s @ [x]))" using sessions_okD(1) [OF d(2)] x(2) by auto
  moreover have "apart se_id (\<lambda>x y. credentials x \<inter> credentials y \<noteq> {}) (insert x (set (session_rows s)))"
    using d(2) x(3) unfolding sessions_ok_def
    by (intro apart_insert) (auto simp: inf_commute [of _ "credentials x"])
  moreover have "\<forall>y \<in> set (session_rows ?s). session_fine y \<and>
      (\<exists>d \<in> set (device_rows ?s). dv_id d = se_device y \<and> dv_user d = se_user y)"
    using x(1,4) sessions_okD(2,4) [OF d(2)] by simp
  ultimately have "sessions_ok ?s" by (simp add: sessions_ok_def)
  moreover have "owners_ok ?s" using d(3) x(5) by (auto simp: owners_ok_def)
  ultimately show ?thesis using d by (simp add: identity_ok_def)
qed

section \<open>Every command keeps the invariant\<close>

lemma user_by_email:
  assumes "users_ok s" "tbl_find (\<lambda>u. email_value (us_email u)) e (user_rows s) = Some u"
  shows "u \<in> set (user_rows s)" "user_fine u" "email_value (us_email u) = e"
  using assms users_okD(2) by (auto dest!: tbl_find_Some)

lemma no_user_by_email:
  "tbl_find (\<lambda>u. email_value (us_email u)) (email_value e) (user_rows s) = None \<Longrightarrow>
     \<forall>w \<in> set (user_rows s). us_email w \<noteq> e"
  by (auto simp: tbl_find_None image_iff)

lemma user_by_id:
  assumes "users_ok s" "tbl_find us_id i (user_rows s) = Some u"
  shows "u \<in> set (user_rows s)" "user_fine u" "us_id u = i"
  using assms users_okD(2) by (auto dest!: tbl_find_Some)

lemma register_work_ok:
  assumes ok: "identity_ok s" and fresh: "uid \<notin> us_id ` set (user_rows s)"
    "\<forall>w \<in> set (verification_rows s). vf_id w \<noteq> vid \<and> vf_hash w \<noteq> h"
  shows "\<exists>v. register_work (email_from e) pw h uid vid cid now s = (Inr v, snd (register_work (email_from e) pw h uid vid cid now s))
    \<and> identity_ok (snd (register_work (email_from e) pw h uid vid cid now s))"
proof (cases "tbl_find (\<lambda>u. email_value (us_email u)) (email_value (email_from e)) (user_rows s)")
  case (Some u)
  with ok show ?thesis by (simp add: register_work_def find_user_by_email_run [OF identity_okD(1) [OF ok]])
next
  case None
  let ?u = "user_register uid (email_from e) pw now"
  let ?s1 = "s\<lparr>user_rows := user_rows s @ [?u\<lparr>us_updated := is_now s\<rparr>]\<rparr>"
  let ?v = "verification_issue vid uid h now verification_ttl_ms"
  let ?s2 = "?s1\<lparr>verification_rows := verification_rows s @ [?v]\<rparr>"
  note d = identity_okD [OF ok]
  have new: "\<forall>w \<in> set (user_rows s). us_id w \<noteq> us_id ?u \<and> us_email w \<noteq> us_email ?u"
    using no_user_by_email [OF None] fresh(1) by (auto simp: user_register_def image_iff)
  then have s1: "save_user ?u s = (Inr (), ?s1)" by (rule save_new_user_run)
  have "user_fine (?u\<lparr>us_updated := is_now s\<rparr>)"
    by (simp add: user_fine_def user_register_def email_from_idem max_failed_attempts_def)
  with ok new have ok1: "identity_ok ?s1" by (intro add_user_ok) (auto simp: image_iff)
  have v: "vf_user ?v \<in> us_id ` set (user_rows ?s1)" "\<forall>w \<in> set (verification_rows ?s1). vf_id w \<noteq> vf_id ?v \<and> vf_hash w \<noteq> vf_hash ?v"
    using fresh(2) by (auto simp: verification_issue_def user_register_def)
  then have s2: "save_verification ?v ?s1 = (Inr (), ?s1\<lparr>verification_rows := verification_rows ?s1 @ [?v]\<rparr>)"
    by (rule save_new_link_run)
  have "vf_user w \<noteq> vf_user ?v" if "w \<in> set (verification_rows s)" for w
    using verifications_okD(2) [OF d(5) that] fresh(1) by (auto simp: verification_issue_def)
  then have "identity_ok (?s1\<lparr>verification_rows := verification_rows ?s1 @ [?v]\<rparr>)"
    using ok1 v by (intro add_link_ok) auto
  then show ?thesis
    using None s1 s2 by (simp add: register_work_def find_user_by_email_run [OF d(1)] is_event_def)
qed

lemma register_user_ok:
  assumes ok: "identity_ok s" and fresh: "uid \<notin> us_id ` set (user_rows s)"
    "\<forall>w \<in> set (verification_rows s). vf_id w \<noteq> vid \<and> vf_hash w \<noteq> hash raw"
  shows "identity_ok (snd (register_user hash e password pw raw uid vid cid now s))"
proof -
  obtain v s' where w: "register_work (email_from e) pw (hash raw) uid vid cid now s = (Inr v, s')" "identity_ok s'"
    using register_work_ok [OF ok fresh] by metis
  then show ?thesis
    using ok by (cases v) (simp_all add: register_user_def Let_def in_transaction_def is_send_def)
qed

lemma active_link_cases:
  obtains (none) "find_active_verification i s = (Inr None, s)"
      "\<forall>w \<in> set (verification_rows s). vf_user w = i \<longrightarrow> \<not> open_link w"
  | (some) p where "find_active_verification i s = (Inr (Some p), s)" "p \<in> set (verification_rows s)"
      "open_link p" "vf_user p = i"
proof -
  define c where "c = filter (\<lambda>v. vf_user v = i \<and> vf_consumed v = None \<and> vf_superseded v = None) (verification_rows s)"
  define l where "l = sort_key (\<lambda>v. - vf_expires v) c"
  have f: "find_active_verification i s = (Inr (case l of [] \<Rightarrow> None | v # _ \<Rightarrow> Some v), s)"
    by (simp add: find_active_verification_def l_def c_def)
  have c: "set c = {v \<in> set (verification_rows s). vf_user v = i \<and> open_link v}"
    by (auto simp: c_def open_link_def)
  have l: "set l = set c" by (simp add: l_def)
  show thesis
  proof (cases l)
    case Nil
    then have "set c = {}" using l by simp
    with c f Nil show thesis by (intro none) auto
  next
    case (Cons p ps)
    then have "p \<in> set c" using l by auto
    with c f Cons show thesis by (intro some [of p]) auto
  qed
qed

lemma put_link_closed:
  assumes ok: "verifications_ok s" and p: "p \<in> set (verification_rows s)" "open_link p"
    and w: "w \<in> set (verification_rows (put_link (verification_supersede now p) s))" "vf_user w = vf_user p"
  shows "\<not> open_link w"
proof
  assume o: "open_link w"
  with w p obtain "w \<in> set (verification_rows s)" "vf_id w \<noteq> vf_id p"
    by (auto simp: put_link_def set_tbl_update verification_supersede_def open_link_def split: if_splits)
  with verifications_okD(4) [OF ok this(1) p(1) o p(2) w(2)] show False by simp
qed

lemma resend_work_ok:
  assumes ok: "identity_ok s" and fresh: "\<forall>w \<in> set (verification_rows s). vf_id w \<noteq> vid \<and> vf_hash w \<noteq> h"
  shows "\<exists>v s'. resend_work (email_from e) h vid now s = (Inr v, s') \<and> identity_ok s'"
proof (cases "tbl_find (\<lambda>u. email_value (us_email u)) (email_value (email_from e)) (user_rows s)")
  case None
  with ok show ?thesis by (simp add: resend_work_def find_user_by_email_run [OF identity_okD(1) [OF ok]])
next
  case (Some u)
  note d = identity_okD [OF ok] and u = user_by_email [OF identity_okD(1) [OF ok] Some]
  let ?v = "verification_issue vid (us_id u) h now verification_ttl_ms"
  show ?thesis
  proof (cases "is_verified u")
    case True
    with ok Some show ?thesis by (simp add: resend_work_def find_user_by_email_run [OF d(1)])
  next
    case False
    obtain r where r: "find_active_verification (us_id u) s = (Inr r, s)"
      by (rule active_link_cases) auto
    define s1 where "s1 = (case r of None \<Rightarrow> s | Some p \<Rightarrow> put_link (verification_supersede now p) s)"
    have s1: "(case r of None \<Rightarrow> tx_return () | Some p \<Rightarrow> save_verification (verification_supersede now p)) s = (Inr (), s1)
        \<and> identity_ok s1 \<and> user_rows s1 = user_rows s
        \<and> (\<forall>w \<in> set (verification_rows s1). vf_user w = us_id u \<longrightarrow> \<not> open_link w)
        \<and> (\<forall>w \<in> set (verification_rows s1). vf_id w \<noteq> vid \<and> vf_hash w \<noteq> h)"
    proof (cases r)
      case None
      with r have "\<forall>w \<in> set (verification_rows s). vf_user w = us_id u \<longrightarrow> \<not> open_link w"
        by (cases rule: active_link_cases [of "us_id u" s]) auto
      with None ok fresh show ?thesis unfolding s1_def by simp
    next
      case (Some p)
      have p: "p \<in> set (verification_rows s)" "open_link p" "vf_user p = us_id u"
        using r Some by (cases rule: active_link_cases [of "us_id u" s]; auto)+
      let ?p = "verification_supersede now p"
      have same: "vf_id ?p = vf_id p" "vf_user ?p = vf_user p" "vf_hash ?p = vf_hash p" "\<not> open_link ?p"
        by (simp_all add: verification_supersede_def open_link_def)
      have "save_verification ?p s = (Inr (), put_link ?p s)"
        by (rule save_link_run [OF d(5) p(1) same(1-3)])
      moreover have "identity_ok (put_link ?p s)"
        using d put_link_ok [OF d(5) p(1) same(1-3)] same(4) by (simp add: identity_ok_def)
      moreover have "\<forall>w \<in> set (verification_rows (put_link ?p s)). vf_id w \<noteq> vid \<and> vf_hash w \<noteq> h"
        using fresh p(1) same by (auto simp: put_link_def set_tbl_update)
      moreover have "\<forall>w \<in> set (verification_rows (put_link ?p s)). vf_user w = us_id u \<longrightarrow> \<not> open_link w"
        using put_link_closed [OF d(5) p(1,2)] p(3) by metis
      ultimately show ?thesis unfolding s1_def Some option.case by (intro conjI) (assumption | simp)+
    qed
    then have "save_verification ?v s1 = (Inr (), s1\<lparr>verification_rows := verification_rows s1 @ [?v]\<rparr>)"
      using u(1) by (intro save_new_link_run) (auto simp: verification_issue_def)
    moreover have "identity_ok (s1\<lparr>verification_rows := verification_rows s1 @ [?v]\<rparr>)"
      using s1 u(1) by (intro add_link_ok) (auto simp: verification_issue_def)
    ultimately show ?thesis
      using Some False r s1 by (simp add: resend_work_def find_user_by_email_run [OF d(1)])
  qed
qed

lemma resend_verification_ok:
  assumes "identity_ok s" "\<forall>w \<in> set (verification_rows s). vf_id w \<noteq> vid \<and> vf_hash w \<noteq> hash raw"
  shows "identity_ok (snd (resend_verification hash e raw vid now s))"
proof -
  obtain v s' where "resend_work (email_from e) (hash raw) vid now s = (Inr v, s')" "identity_ok s'"
    using resend_work_ok [OF assms] by blast
  then show ?thesis
    by (cases v) (simp_all add: resend_verification_def Let_def in_transaction_def is_send_def)
qed

lemma verify_email_ok:
  assumes ok: "identity_ok s"
  shows "identity_ok (snd (verify_email hash token now s))"
proof (cases "tbl_find vf_hash (hash token) (verification_rows s)")
  case None
  with ok show ?thesis by (simp add: verify_email_def in_transaction_def find_verification_by_hash_def)
next
  case (Some v)
  note d = identity_okD [OF ok]
  from Some have v: "v \<in> set (verification_rows s)" by (auto dest: tbl_find_Some)
  show ?thesis
  proof (cases "verification_consume v now")
    case (Inl e)
    with Some ok show ?thesis by (simp add: verify_email_def in_transaction_def find_verification_by_hash_def)
  next
    case (Inr v1)
    then have v1: "vf_id v1 = vf_id v" "vf_user v1 = vf_user v" "vf_hash v1 = vf_hash v" "\<not> open_link v1"
      by (auto simp: verification_consume_def open_link_def split: if_splits)
    show ?thesis
    proof (cases "tbl_find us_id (vf_user v) (user_rows s)")
      case None
      with Some Inr ok show ?thesis
        by (simp add: verify_email_def in_transaction_def find_verification_by_hash_def find_user_run [OF d(1)])
    next
      case (Some u)
      note u = user_by_id [OF d(1) Some] and found = \<open>tbl_find vf_hash (hash token) (verification_rows s) = Some v\<close>
      show ?thesis
      proof (cases "user_verify u now")
        case (Inl e)
        with Inr Some found ok show ?thesis
          by (simp add: verify_email_def in_transaction_def find_verification_by_hash_def find_user_run [OF d(1)])
      next
        case (Inr u1)
        then have u1: "us_id u1 = us_id u" "us_email u1 = us_email u" "us_status u = PendingVerification" "user_fine u1"
            "us_status u1 = ActiveUser"
          using u(2) by (auto simp: user_verify_def user_fine_def split: if_splits)
        let ?s1 = "put_link v1 s"
        have s1: "save_verification v1 s = (Inr (), ?s1)" by (rule save_link_run [OF d(5) v v1(1-3)])
        have ok1: "identity_ok ?s1"
          using d put_link_ok [OF d(5) v v1(1-3)] v1(4) by (simp add: identity_ok_def)
        have s2: "save_user u1 ?s1 = (Inr (), put_user u1 ?s1)"
          using u(1) u1(1,2) identity_okD(1) [OF ok1] by (intro save_user_run [of _ u]) auto
        have "owner_fine u1 x" for x using u1(5) by (simp add: owner_fine_def)
        then have "identity_ok (put_user u1 ?s1)"
          using ok1 u(1) u1(1,2,4) put_user_ok [of ?s1 u u1] put_user_owners [of ?s1 u1]
          by (simp add: identity_ok_def)
        with found \<open>verification_consume v now = Inr v1\<close> Some Inr s1 s2 show ?thesis
          by (simp add: verify_email_def in_transaction_def find_verification_by_hash_def find_user_run [OF d(1)])
      qed
    qed
  qed
qed

section \<open>Session commands\<close>

lemma owner_of:
  assumes "identity_ok s" "x \<in> set (session_rows s)"
  obtains u where "u \<in> set (user_rows s)" "us_id u = se_user x" "owner_fine u x"
  using assms by (auto simp: identity_ok_def owners_ok_def)

lemma owner_known: "identity_ok s \<Longrightarrow> x \<in> set (session_rows s) \<Longrightarrow> se_user x \<in> us_id ` set (user_rows s)"
  by (metis owner_of imageI)

lemma revoke_columns [simp]:
  "se_id (session_revoke r now x) = se_id x" "se_user (session_revoke r now x) = se_user x"
  "se_device (session_revoke r now x) = se_device x" "se_issued (session_revoke r now x) = se_issued x"
  "se_hash (session_revoke r now x) = se_hash x" "se_previous (session_revoke r now x) = se_previous x"
  "se_revoked (session_revoke r now x) = Some now" "se_reason (session_revoke r now x) = Some r"
  "credentials (session_revoke r now x) = credentials x"
  by (simp_all add: session_revoke_def credentials_def)

lemma revoke_fine: "session_fine x \<Longrightarrow> session_fine (session_revoke r now x)"
  by (simp add: session_fine_def session_revoke_def)

lemma session_hash_apart:
  assumes "sessions_ok s" "x \<in> set (session_rows s)" "y \<in> set (session_rows s)" "se_hash y = se_hash x"
  shows "se_id y = se_id x"
  by (rule sessions_okD(3) [OF assms(1,3,2)]) (use assms(4) in \<open>auto simp: credentials_def\<close>)

lemma revoke_run:
  assumes ok: "sessions_ok s" "se_user x \<in> us_id ` set (user_rows s)" and x: "x \<in> set (session_rows s)"
  shows "save_session (session_revoke r now x) s = (Inr (), put_session (session_revoke r now x) s)"
    and "sessions_ok (put_session (session_revoke r now x) s)"
proof -
  show "save_session (session_revoke r now x) s = (Inr (), put_session (session_revoke r now x) s)"
    using session_hash_apart [OF ok(1) x] sessions_okD(2) [OF ok(1) x]
    by (intro save_session_run [OF ok x]) (simp_all add: session_fine_def)
  show "sessions_ok (put_session (session_revoke r now x) s)"
    using sessions_okD(2,3) [OF ok(1)] x by (intro put_session_ok [OF ok(1) x]) (auto simp: revoke_fine)
qed

lemma revoked_ok:
  assumes ok: "identity_ok s" and x: "x \<in> set (session_rows s)"
  shows "identity_ok (put_session (session_revoke r now x) s)"
  using identity_okD [OF ok] revoke_run(2) [OF _ owner_known [OF ok x] x] put_session_owners [OF _ x]
  by (simp add: identity_ok_def)

lemma replayed_run:
  assumes ok: "identity_ok s" and x: "x \<in> set (session_rows s)"
  shows "replayed x now s = (Inr (Inl (SessionReplayDetected (se_id x))), put_session (session_revoke ReplayDetected now x) s)"
  using revoke_run(1) [OF identity_okD(2) [OF ok] owner_known [OF ok x] x] by (simp add: replayed_def)

lemma rotate_columns:
  assumes "session_rotate x h now = Inr x'"
  shows "se_id x' = se_id x" "se_user x' = se_user x" "se_device x' = se_device x" "se_issued x' = se_issued x"
    "se_expires x' = se_expires x" "se_hash x' = h" "se_previous x' = Some (se_hash x)" "se_revoked x' = None"
    "se_revoked x = None" "now < se_expires x" "se_reason x' = se_reason x" "se_rotated x' = Some now"
  using assms by (auto simp: session_rotate_def session_usable_def split: if_splits)

lemma rotate_run:
  assumes ok: "identity_ok s" and x: "x \<in> set (session_rows s)" and r: "session_rotate x h now = Inr x'"
    and h: "h \<noteq> []" "\<forall>y \<in> set (session_rows s). h \<notin> credentials y"
  shows "save_session x' s = (Inr (), put_session x' s)" "identity_ok (put_session x' s)"
proof -
  note d = identity_okD [OF ok] and c = rotate_columns [OF r]
  have f: "session_fine x" using sessions_okD(2) [OF d(2) x] .
  then show "save_session x' s = (Inr (), put_session x' s)"
    using c h by (intro save_session_run [OF d(2) owner_known [OF ok x] x]) (auto simp: session_fine_def credentials_def)
  have "credentials x' \<inter> credentials y = {}" if "y \<in> set (session_rows s)" "se_id y \<noteq> se_id x" for y
  proof -
    have "credentials x \<inter> credentials y = {}" using sessions_okD(3) [OF d(2) x that(1)] that(2) by metis
    then show ?thesis using c h(2) that(1) by (auto simp: credentials_def)
  qed
  moreover have "session_fine x'" using f c h(1) by (auto simp: session_fine_def)
  ultimately have "sessions_ok (put_session x' s)"
    using c by (intro put_session_ok [OF d(2) x]) auto
  moreover have "owners_ok (put_session x' s)" using c by (intro put_session_owners [OF d(3) x]) auto
  ultimately show "identity_ok (put_session x' s)" using d by (simp add: identity_ok_def)
qed

text \<open>What a presented token meets: no session, one it is the superseded or the current credential of.\<close>

lemma presented:
  assumes ok: "identity_ok s"
  obtains (unknown) "\<forall>x \<in> set (session_rows s). h \<notin> credentials x" "find_auth_context h s = (Inr None, s)"
  | (stale) x u where "x \<in> set (session_rows s)" "se_previous x = Some h" "se_hash x \<noteq> h" "u \<in> set (user_rows s)" "us_id u = se_user x" "owner_fine u x"
      "find_auth_context h s = (Inr (Some \<lparr>ac_session = x, ac_status = us_status u, ac_previous = True\<rparr>), s)"
  | (current) x u where "x \<in> set (session_rows s)" "se_hash x = h" "u \<in> set (user_rows s)" "us_id u = se_user x" "owner_fine u x"
      "find_auth_context h s = (Inr (Some \<lparr>ac_session = x, ac_status = us_status u, ac_previous = False\<rparr>), s)"
proof (cases "matching_session h s")
  case None
  then have "\<forall>x \<in> set (session_rows s). h \<notin> credentials x"
    by (auto simp: matching_session_def find_None_iff credentials_def)
  then show thesis using None by (intro unknown) (simp_all add: find_auth_context_def)
next
  case (Some x)
  then have x: "x \<in> set (session_rows s)" "h \<in> credentials x"
    using matching_session_iff [OF identity_okD(2) [OF ok]] by auto
  obtain u where u: "u \<in> set (user_rows s)" "us_id u = se_user x" "owner_fine u x"
    "find_auth_context h s = (Inr (Some \<lparr>ac_session = x, ac_status = us_status u, ac_previous = (se_hash x \<noteq> h)\<rparr>), s)"
    by (rule auth_context_some [OF identity_okD(1,3) [OF ok] Some x(1)])
  show thesis
  proof (cases "se_hash x = h")
    case True
    with u x current show thesis by simp
  next
    case False
    with x(2) have "se_previous x = Some h" by (auto simp: credentials_def)
    with False u x(1) show thesis by (intro stale [of x u]) simp_all
  qed
qed

lemma renew_session_ok:
  assumes ok: "identity_ok s" and h: "hash raw \<noteq> []" "\<forall>y \<in> set (session_rows s). hash raw \<notin> credentials y"
  shows "identity_ok (snd (renew_session hash token raw now s))"
proof (cases rule: presented [OF ok, of "hash token"])
  case 1
  with ok show ?thesis by (simp add: renew_session_def renew_write_def)
next
  case (2 x u)
  then show ?thesis
    using revoked_ok [OF ok 2(1)] by (simp add: renew_session_def renew_write_def replayed_run [OF ok 2(1)])
next
  case (3 x u)
  then show ?thesis
    using ok rotate_run [OF ok 3(1) _ h, of now]
    by (cases "session_rotate x (hash raw) now") (simp_all add: renew_session_def renew_write_def)
qed

lemma authenticate_session_ok:
  assumes ok: "identity_ok s"
  shows "identity_ok (snd (authenticate_session hash token now s))"
proof (cases rule: presented [OF ok, of "hash token"])
  case (2 x u)
  then show ?thesis
    using revoked_ok [OF ok 2(1)] by (simp add: authenticate_session_def replayed_run [OF ok 2(1)])
qed (use ok in \<open>simp_all add: authenticate_session_def\<close>)

lemma revoke_session_ok:
  assumes ok: "identity_ok s"
  shows "identity_ok (snd (revoke_session user i now s))"
proof (cases "tbl_find se_id i (session_rows s)")
  case None
  with ok show ?thesis by (simp add: revoke_session_def find_session_def)
next
  case (Some x)
  then have x: "x \<in> set (session_rows s)" by (auto dest: tbl_find_Some)
  show ?thesis
    using Some ok revoke_run(1) [OF identity_okD(2) [OF ok] owner_known [OF ok x] x, of UserRevoked now]
      revoked_ok [OF ok x]
    by (cases "se_user x = user") (simp_all add: revoke_session_def find_session_def)
qed

section \<open>Sign-in\<close>

lemma failed_fine:
  "user_fine u \<Longrightarrow> user_fine (record_failed_attempt max_failed_attempts throttle_lockout_ms now u)"
  by (auto simp: user_fine_def record_failed_attempt_def max_failed_attempts_def Let_def)

lemma cleared_fine: "user_fine u \<Longrightarrow> user_fine (clear_failed_attempts now u)"
  by (auto simp: user_fine_def clear_failed_attempts_def max_failed_attempts_def)

lemma attempt_columns [simp]:
  "us_id (record_failed_attempt m l now u) = us_id u" "us_email (record_failed_attempt m l now u) = us_email u"
  "us_status (record_failed_attempt m l now u) = us_status u" "us_password (record_failed_attempt m l now u) = us_password u"
  "us_id (clear_failed_attempts now u) = us_id u" "us_email (clear_failed_attempts now u) = us_email u"
  "us_status (clear_failed_attempts now u) = us_status u" "us_password (clear_failed_attempts now u) = us_password u"
  by (simp_all add: record_failed_attempt_def clear_failed_attempts_def Let_def)

lemma put_same_user_ok:
  assumes ok: "identity_ok s" and u: "u \<in> set (user_rows s)" "us_id u' = us_id u" "us_email u' = us_email u"
    "user_fine u'" "us_status u' = us_status u"
  shows "save_user u' s = (Inr (), put_user u' s)" "identity_ok (put_user u' s)"
proof -
  note d = identity_okD [OF ok]
  show "save_user u' s = (Inr (), put_user u' s)" by (rule save_user_run [OF d(1) u(1-3)])
  have "owner_fine u' x" if x: "x \<in> set (session_rows s)" "se_user x = us_id u'" for x
  proof -
    obtain w where w: "w \<in> set (user_rows s)" "us_id w = se_user x" "owner_fine w x" by (rule owner_of [OF ok x(1)])
    then have "w = u" using x u by (intro user_same [OF d(1)]) auto
    with w u(5) show ?thesis by (simp add: owner_fine_def)
  qed
  then show "identity_ok (put_user u' s)"
    using d put_user_ok [OF d(1) u(1-4)] put_user_owners [OF d(3)] by (simp add: identity_ok_def)
qed

lemma grant_session_run:
  assumes ok: "identity_ok s" and u: "u \<in> set (user_rows s)" "us_status u = ActiveUser"
    and fresh: "sid \<notin> se_id ` set (session_rows s)" "did \<notin> dv_id ` set (device_rows s)"
    and h: "hash raw \<noteq> []" "\<forall>y \<in> set (session_rows s). hash raw \<notin> credentials y"
  obtains s' where "grant_session hash u given raw sid did cid now s
      = (Inr (Inr (credential (session_issue sid (us_id u) did (hash raw) now absolute_session_lifetime_ms) raw)), s')"
    "identity_ok s'" "user_rows s' = user_rows (put_user (clear_failed_attempts now u) s)"
    "session_rows s' = session_rows s @ [session_issue sid (us_id u) did (hash raw) now absolute_session_lifetime_ms]"
    "device_rows s' = device_rows s @ [device_register did (us_id u) (device_label given) now]"
    "verification_rows s' = verification_rows s" "is_now s' = is_now s" "is_mail s' = is_mail s"
    "is_outbox s' = is_outbox s @ [user_authenticated_event (us_id u) sid cid]"
proof -
  note d = identity_okD [OF ok]
  let ?u = "clear_failed_attempts now u"
  let ?s1 = "put_user ?u s"
  let ?d = "device_register did (us_id u) (device_label given) now"
  let ?x = "session_issue sid (us_id u) did (hash raw) now absolute_session_lifetime_ms"
  let ?s2 = "?s1\<lparr>device_rows := device_rows s @ [?d]\<rparr>"
  let ?s3 = "?s2\<lparr>session_rows := session_rows s @ [?x]\<rparr>"
  note s1 = put_same_user_ok [OF ok u(1), of ?u, simplified, OF cleared_fine [OF users_okD(2) [OF d(1) u(1)]]]
  have cd: "dv_user ?d = us_id u" "dv_id ?d = did" by (simp_all add: device_register_def)
  have cx: "se_user ?x = us_id u" "se_device ?x = did" "se_id ?x = sid" "se_previous ?x = None" "se_hash ?x = hash raw"
      "credentials ?x = {hash raw}"
    by (simp_all add: session_issue_def credentials_def)
  have s2: "save_device ?d ?s1 = (Inr (), ?s2)" "identity_ok ?s2"
    using u(1) fresh(2) save_new_device_run [of ?d ?s1] add_device_ok [OF s1(2), of ?d] by (simp_all add: cd)
  have dev: "did \<in> dv_id ` set (device_rows ?s2)" by (auto simp: cd)
  have apart: "\<forall>y \<in> set (session_rows ?s2). se_id y \<noteq> se_id ?x \<and> se_hash y \<noteq> se_hash ?x"
    using fresh(1) h(2) by (auto simp: cx credentials_def)
  have s3: "save_session ?x ?s2 = (Inr (), ?s3)"
    using u(1) dev apart save_new_session_run [of ?x ?s2] by (simp add: cx)
  have "session_fine ?x" using h(1) by (simp add: session_fine_def session_issue_def)
  moreover have "\<exists>w \<in> set (user_rows ?s2). us_id w = se_user ?x \<and> owner_fine w ?x"
    using u by (intro bexI [of _ "?u\<lparr>us_created := us_created u, us_updated := is_now s\<rparr>"])
      (auto simp: put_user_rows cx owner_fine_def intro!: bexI [of _ u])
  moreover have "\<exists>w \<in> set (device_rows ?s2). dv_id w = se_device ?x \<and> dv_user w = se_user ?x"
    by (auto simp: cx cd)
  ultimately have "identity_ok ?s3"
    using add_session_ok [OF s2(2), of ?x] fresh(1) h(2) by (simp add: cx)
  with s1(1) s2(1) s3 show thesis
    by (intro that [of "?s3\<lparr>is_outbox := is_outbox s @ [user_authenticated_event (us_id u) sid cid]\<rparr>"])
      (simp_all add: grant_session_def is_event_def Let_def)
qed

text \<open>Every way a sign-in ends.\<close>

lemma authenticate_user_cases:
  assumes ok: "identity_ok s" and fresh: "sid \<notin> se_id ` set (session_rows s)" "did \<notin> dv_id ` set (device_rows s)"
    and h: "hash raw \<noteq> []" "\<forall>y \<in> set (session_rows s). hash raw \<notin> credentials y"
  obtains (unknown) "\<forall>u \<in> set (user_rows s). us_email u \<noteq> email_from e"
      "authenticate_user hash matches e password given raw sid did cid now s = (Inr (Inl InvalidCredentials), s)"
  | (throttled) u t where "u \<in> set (user_rows s)" "us_email u = email_from e" "us_throttled u = Some t" "now < t"
      "authenticate_user hash matches e password given raw sid did cid now s
         = (Inr (Inl (Throttled (retry_after_seconds t now))), s)"
  | (refused) u where "u \<in> set (user_rows s)" "us_email u = email_from e" "\<forall>t. us_throttled u = Some t \<longrightarrow> t \<le> now"
      "\<not> matches password (us_password u)"
      "authenticate_user hash matches e password given raw sid did cid now s
         = (Inr (Inl InvalidCredentials), put_user (record_failed_attempt max_failed_attempts throttle_lockout_ms now u) s)"
  | (inactive) u where "u \<in> set (user_rows s)" "us_email u = email_from e" "\<forall>t. us_throttled u = Some t \<longrightarrow> t \<le> now"
      "matches password (us_password u)" "us_status u \<noteq> ActiveUser"
      "authenticate_user hash matches e password given raw sid did cid now s = (Inr (Inl AccountNotVerified), s)"
  | (granted) u s' where "u \<in> set (user_rows s)" "us_email u = email_from e" "\<forall>t. us_throttled u = Some t \<longrightarrow> t \<le> now"
      "matches password (us_password u)" "us_status u = ActiveUser"
      "authenticate_user hash matches e password given raw sid did cid now s
         = (Inr (Inr (credential (session_issue sid (us_id u) did (hash raw) now absolute_session_lifetime_ms) raw)), s')"
      "identity_ok s'" "user_rows s' = user_rows (put_user (clear_failed_attempts now u) s)"
      "session_rows s' = session_rows s @ [session_issue sid (us_id u) did (hash raw) now absolute_session_lifetime_ms]"
      "device_rows s' = device_rows s @ [device_register did (us_id u) (device_label given) now]"
      "is_outbox s' = is_outbox s @ [user_authenticated_event (us_id u) sid cid]"
proof (cases "tbl_find (\<lambda>u. email_value (us_email u)) (email_value (email_from e)) (user_rows s)")
  case None
  then show thesis
    using unknown no_user_by_email [OF None]
    by (simp add: authenticate_user_def in_transaction_def find_user_by_email_run [OF identity_okD(1) [OF ok]]
        attempt_def throttled_at_def)
next
  case (Some u)
  note d = identity_okD [OF ok] and u0 = user_by_email [OF identity_okD(1) [OF ok] Some]
  then have u: "u \<in> set (user_rows s)" "user_fine u" "us_email u = email_from e"
    by (auto intro: email_address.expand)
  have run: "authenticate_user hash matches e password given raw sid did cid now s
      = in_transaction (attempt hash matches (Some u) password given raw sid did cid now) s"
    using Some by (simp add: authenticate_user_def in_transaction_def find_user_by_email_run [OF d(1)])
  show thesis
  proof (cases "throttled_at (Some u) now")
    case (Some t)
    then have t: "us_throttled u = Some t" "now < t" by (auto simp: throttled_at_def split: option.splits if_splits)
    then show thesis
      by (intro throttled [OF u(1,3)]) (simp_all add: run attempt_def in_transaction_def throttled_at_def)
  next
    case None
    then have t: "\<forall>t. us_throttled u = Some t \<longrightarrow> t \<le> now" by (auto simp: throttled_at_def split: option.splits if_splits)
    have r: "attempt hash matches (Some u) password given raw sid did cid now =
        (if \<not> matches password (us_password u) then
           tx_bind (save_user (record_failed_attempt max_failed_attempts throttle_lockout_ms now u))
             (\<lambda>_. tx_return (Inl InvalidCredentials))
         else if us_status u \<noteq> ActiveUser then tx_return (Inl AccountNotVerified)
         else grant_session hash u given raw sid did cid now)"
      using None by (simp add: attempt_def)
    consider (no) "\<not> matches password (us_password u)" | (idle) "matches password (us_password u)" "us_status u \<noteq> ActiveUser"
      | (yes) "matches password (us_password u)" "us_status u = ActiveUser" by blast
    then show thesis
    proof cases
      case no
      then show thesis
        using put_same_user_ok(1) [OF ok u(1), of "record_failed_attempt max_failed_attempts throttle_lockout_ms now u"] failed_fine [OF u(2)]
        by (intro refused [OF u(1,3) t]) (simp_all add: run r in_transaction_def)
    next
      case idle
      then show thesis by (intro inactive [OF u(1,3) t]) (simp_all add: run r in_transaction_def)
    next
      case yes
      obtain s' where g: "grant_session hash u given raw sid did cid now s
          = (Inr (Inr (credential (session_issue sid (us_id u) did (hash raw) now absolute_session_lifetime_ms) raw)), s')"
        "identity_ok s'" "user_rows s' = user_rows (put_user (clear_failed_attempts now u) s)"
        "session_rows s' = session_rows s @ [session_issue sid (us_id u) did (hash raw) now absolute_session_lifetime_ms]"
        "device_rows s' = device_rows s @ [device_register did (us_id u) (device_label given) now]"
        "is_outbox s' = is_outbox s @ [user_authenticated_event (us_id u) sid cid]"
        by (rule grant_session_run [where hash = hash and raw = raw and given = given and cid = cid and now = now, OF ok u(1) yes(2) fresh h]) blast
      with yes show thesis by (intro granted [OF u(1,3) t]) (simp_all add: run r in_transaction_def)
    qed
  qed
qed

lemma authenticate_user_ok:
  assumes ok: "identity_ok s" and fresh: "sid \<notin> se_id ` set (session_rows s)" "did \<notin> dv_id ` set (device_rows s)"
    and h: "hash raw \<noteq> []" "\<forall>y \<in> set (session_rows s). hash raw \<notin> credentials y"
  shows "identity_ok (snd (authenticate_user hash matches e password given raw sid did cid now s))"
proof (cases rule: authenticate_user_cases [where hash = hash and raw = raw and e = e and matches = matches and password = password and given = given and cid = cid and now = now, OF ok fresh h])
  case (3 u)
  then show ?thesis
    using put_same_user_ok(2) [OF ok 3(1), of "record_failed_attempt max_failed_attempts throttle_lockout_ms now u"]
      failed_fine [OF users_okD(2) [OF identity_okD(1) [OF ok] 3(1)]] by simp
qed (use ok in simp_all)

section \<open>Account deletion and retention\<close>

definition kill_sessions :: "user_id \<Rightarrow> int \<Rightarrow> identity_store \<Rightarrow> identity_store" where
  "kill_sessions i now s = s\<lparr>session_rows :=
     tbl_update (\<lambda>x. se_user x = i) (session_revoke AccountDeleted now) (session_rows s)\<rparr>"

lemma revoke_each:
  assumes "sessions_ok s" "\<forall>x \<in> set (session_rows s). se_user x \<in> us_id ` set (user_rows s)"
    "distinct (map se_id xs)" "set xs \<subseteq> set (session_rows s)"
  shows "tx_each (\<lambda>x. save_session (session_revoke AccountDeleted now x)) xs s
      = (Inr (), s\<lparr>session_rows := tbl_update (\<lambda>r. se_id r \<in> se_id ` set xs) (session_revoke AccountDeleted now) (session_rows s)\<rparr>)"
  using assms
proof (induction xs arbitrary: s)
  case Nil
  then show ?case by (simp add: tbl_update_def)
next
  case (Cons x xs)
  let ?f = "session_revoke AccountDeleted now"
  let ?s1 = "put_session (?f x) s"
  have x: "x \<in> set (session_rows s)" "se_user x \<in> us_id ` set (user_rows s)" using Cons.prems by auto
  note r = revoke_run [OF Cons.prems(1) x(2,1), of AccountDeleted now]
  have rows1: "session_rows ?s1 = tbl_update (\<lambda>r. se_id r = se_id x) ?f (session_rows s)"
    using session_same [OF Cons.prems(1) _ x(1)] by (auto simp: put_session_def tbl_update_def)
  have sub: "set xs \<subseteq> set (session_rows ?s1)"
  proof
    fix y assume y: "y \<in> set xs"
    then have "se_id y \<noteq> se_id x" using Cons.prems(3) by (auto simp: image_iff)
    with y Cons.prems(4) show "y \<in> set (session_rows ?s1)" by (auto simp: put_session_rows [OF x(1) revoke_columns(1)])
  qed
  have "\<forall>y \<in> set (session_rows ?s1). se_user y \<in> us_id ` set (user_rows ?s1)"
    using Cons.prems(2) x by (auto simp: put_session_rows [OF x(1) revoke_columns(1)])
  from Cons.IH [OF r(2) this _ sub] Cons.prems(3) have
    "tx_each (\<lambda>x. save_session (?f x)) xs ?s1
      = (Inr (), ?s1\<lparr>session_rows := tbl_update (\<lambda>r. se_id r \<in> se_id ` set xs) ?f (session_rows ?s1)\<rparr>)" by simp
  moreover have "tbl_update (\<lambda>r. se_id r \<in> se_id ` set xs) ?f (session_rows ?s1)
      = tbl_update (\<lambda>r. se_id r \<in> se_id ` set (x # xs)) ?f (session_rows s)"
    unfolding rows1 using Cons.prems(3) by (auto simp: tbl_update_def)
  ultimately show ?case using r(1) by (simp add: put_session_def)
qed

lemma kill_sessions_run:
  assumes ok: "sessions_ok s" "\<forall>x \<in> set (session_rows s). se_user x \<in> us_id ` set (user_rows s)"
  shows "tx_each (\<lambda>x. save_session (session_revoke AccountDeleted now x)) (user_sessions i s) s = (Inr (), kill_sessions i now s)"
proof -
  have "distinct (map se_id (user_sessions i s))"
    using sessions_okD(1) [OF ok(1)] by (auto simp: user_sessions_def intro: distinct_map_filter)
  note r = revoke_each [OF ok this]
  have "tbl_update (\<lambda>r. se_id r \<in> se_id ` set (user_sessions i s)) (session_revoke AccountDeleted now) (session_rows s)
      = tbl_update (\<lambda>x. se_user x = i) (session_revoke AccountDeleted now) (session_rows s)"
    using session_same [OF ok(1)] by (auto simp: tbl_update_def user_sessions_def image_iff)
  with r show ?thesis by (auto simp: kill_sessions_def user_sessions_def)
qed

lemma kill_columns [simp]:
  "user_rows (kill_sessions i now s) = user_rows s" "device_rows (kill_sessions i now s) = device_rows s"
  "verification_rows (kill_sessions i now s) = verification_rows s" "is_outbox (kill_sessions i now s) = is_outbox s"
  "is_mail (kill_sessions i now s) = is_mail s" "is_now (kill_sessions i now s) = is_now s"
  "users_ok (kill_sessions i now s) = users_ok s" "devices_ok (kill_sessions i now s) = devices_ok s"
  "verifications_ok (kill_sessions i now s) = verifications_ok s"
  by (simp_all add: kill_sessions_def)

lemma kill_sessions_rows:
  "x \<in> set (session_rows (kill_sessions i now s)) \<longleftrightarrow>
     (\<exists>y \<in> set (session_rows s). x = (if se_user y = i then session_revoke AccountDeleted now y else y))"
proof -
  have "set (session_rows (kill_sessions i now s))
      = (\<lambda>y. if se_user y = i then session_revoke AccountDeleted now y else y) ` set (session_rows s)"
    by (simp add: kill_sessions_def set_tbl_update del: if_image_distrib)
  then show ?thesis by (simp only: image_iff)
qed

lemma kill_sessions_ok:
  assumes ok: "sessions_ok s"
  shows "sessions_ok (kill_sessions i now s)"
  unfolding sessions_ok_def
proof (intro conjI ballI apartI)
  have "map se_id (session_rows (kill_sessions i now s)) = map se_id (session_rows s)"
    by (auto simp: kill_sessions_def tbl_update_def)
  then show "distinct (map se_id (session_rows (kill_sessions i now s)))" using sessions_okD(1) [OF ok] by simp
next
  fix x assume "x \<in> set (session_rows (kill_sessions i now s))"
  then obtain y where y: "y \<in> set (session_rows s)" "x = (if se_user y = i then session_revoke AccountDeleted now y else y)"
    by (auto simp: kill_sessions_rows)
  then show "session_fine x" using sessions_okD(2) [OF ok y(1)] revoke_fine by auto
  show "\<exists>d \<in> set (device_rows (kill_sessions i now s)). dv_id d = se_device x \<and> dv_user d = se_user x"
    using y sessions_okD(4) [OF ok y(1)] by auto
next
  fix x y assume xy: "x \<in> set (session_rows (kill_sessions i now s))" "y \<in> set (session_rows (kill_sessions i now s))"
    "credentials x \<inter> credentials y \<noteq> {}"
  have "\<exists>z \<in> set (session_rows s). se_id z = se_id w \<and> credentials z = credentials w"
    if w: "w \<in> set (session_rows (kill_sessions i now s))" for w
    using w by (auto simp: kill_sessions_rows split: if_splits)
  with xy sessions_okD(3) [OF ok] show "se_id x = se_id y" by metis
qed

lemma request_deletion_run:
  assumes ok: "identity_ok s" and u: "u \<in> set (user_rows s)" and r: "request_user_deletion u now = Inr u1"
  shows "request_account_deletion (us_id u) cid now s = (Inr (Inr ()),
      (kill_sessions (us_id u) now (put_user u1 s))\<lparr>is_outbox := is_outbox s @ [user_deletion_requested_event (us_id u) cid]\<rparr>)"
    and "identity_ok (kill_sessions (us_id u) now (put_user u1 s))" "us_status u1 = DeletionRequested" "us_id u1 = us_id u"
proof -
  note d = identity_okD [OF ok]
  have f: "user_fine u" by (rule users_okD(2) [OF d(1) u])
  from r have u1: "us_id u1 = us_id u" "us_email u1 = us_email u" "us_status u1 = DeletionRequested" "user_fine u1"
    using f by (auto simp: request_user_deletion_def user_fine_def split: if_splits)
  then show "us_status u1 = DeletionRequested" "us_id u1 = us_id u" by auto
  let ?s1 = "put_user u1 s"
  have s1: "save_user u1 s = (Inr (), ?s1)" by (rule save_user_run [OF d(1) u u1(1,2)])
  have ref: "\<forall>x \<in> set (session_rows ?s1). se_user x \<in> us_id ` set (user_rows ?s1)"
    using owner_known [OF ok] by simp
  have "sessions_ok ?s1" using d(2) by simp
  note k = kill_sessions_run [OF this ref, of now "us_id u"] kill_sessions_ok [OF this]
  have "find_user (us_id u) s = (Inr (Some u), s)"
    using u users_okD(1) [OF d(1)] by (simp add: find_user_run [OF d(1)] tbl_find_iff)
  with s1 k(1) r show "request_account_deletion (us_id u) cid now s = (Inr (Inr ()),
      (kill_sessions (us_id u) now ?s1)\<lparr>is_outbox := is_outbox s @ [user_deletion_requested_event (us_id u) cid]\<rparr>)"
    by (simp add: request_account_deletion_def in_transaction_def list_sessions_of_def u1(1) is_event_def)
  have "\<exists>w \<in> set (user_rows ?s1). us_id w = se_user x \<and> owner_fine w x"
    if x: "x \<in> set (session_rows (kill_sessions (us_id u) now ?s1))" for x
  proof -
    from x obtain y where y: "y \<in> set (session_rows s)" "x = (if se_user y = us_id u then session_revoke AccountDeleted now y else y)"
      by (auto simp: kill_sessions_rows)
    obtain w where w: "w \<in> set (user_rows s)" "us_id w = se_user y" "owner_fine w y" by (rule owner_of [OF ok y(1)])
    show ?thesis
    proof (cases "se_user y = us_id u")
      case True
      with y u u1 show ?thesis
        by (intro bexI [of _ "u1\<lparr>us_created := us_created u, us_updated := is_now s\<rparr>"])
          (auto simp: put_user_rows owner_fine_def intro!: bexI [of _ u])
    next
      case False
      with y w u1(1) show ?thesis by (intro bexI [of _ w]) (auto simp: put_user_rows intro!: bexI [of _ w])
    qed
  qed
  then have "owners_ok (kill_sessions (us_id u) now ?s1)" by (simp add: owners_ok_def)
  with d k(2) put_user_ok [OF d(1) u u1(1,2,4)] show "identity_ok (kill_sessions (us_id u) now ?s1)"
    by (simp add: identity_ok_def)
qed

lemma request_account_deletion_cases:
  assumes ok: "identity_ok s"
  obtains (refused) "request_account_deletion i cid now s = (Inr (Inl NotFound), s)"
      "\<forall>u \<in> set (user_rows s). us_id u = i \<longrightarrow> us_status u = PendingVerification"
  | (requested) u u1 where "u \<in> set (user_rows s)" "us_id u = i" "request_user_deletion u now = Inr u1"
proof (cases "tbl_find us_id i (user_rows s)")
  case None
  then have "\<forall>u \<in> set (user_rows s). us_id u \<noteq> i" by (auto simp: tbl_find_None)
  with None show thesis
    by (intro refused) (simp_all add: request_account_deletion_def in_transaction_def find_user_run [OF identity_okD(1) [OF ok]])
next
  case (Some u)
  note u = user_by_id [OF identity_okD(1) [OF ok] Some]
  show thesis
  proof (cases "request_user_deletion u now")
    case (Inl e)
    then have e: "e = NotFound" "us_status u = PendingVerification"
      by (auto simp: request_user_deletion_def split: if_splits) (cases "us_status u"; simp)
    moreover have "\<forall>w \<in> set (user_rows s). us_id w = i \<longrightarrow> w = u"
      using user_same [OF identity_okD(1) [OF ok] _ u(1)] u(3) by auto
    ultimately show thesis
      using Some Inl by (intro refused) (auto simp: request_account_deletion_def in_transaction_def find_user_run [OF identity_okD(1) [OF ok]])
  next
    case (Inr u1)
    with u show thesis by (intro requested)
  qed
qed

lemma request_account_deletion_ok:
  assumes ok: "identity_ok s"
  shows "identity_ok (snd (request_account_deletion i cid now s))"
proof (cases rule: request_account_deletion_cases [OF ok, of i cid now])
  case (2 u u1)
  then show ?thesis using request_deletion_run(1,2) [OF ok 2(1,3)] by simp
qed (use ok in simp)

lemma delete_users_ok:
  assumes ok: "identity_ok s"
  shows "identity_ok (snd (delete_users p s))"
proof -
  note d = identity_okD [OF ok]
  let ?s = "snd (delete_users p s)"
  define gone where "gone = us_id ` set (filter p (user_rows s))"
  have kept: "u \<in> set (user_rows ?s) \<longleftrightarrow> u \<in> set (user_rows s) \<and> us_id u \<notin> gone" for u
    using user_same [OF d(1)] by (auto simp: delete_users_def Let_def gone_def)
  have ids: "us_id ` set (user_rows ?s) = us_id ` set (user_rows s) - gone"
    using kept by (auto simp: image_iff)
  have rows: "set (session_rows ?s) \<subseteq> {x \<in> set (session_rows s). se_user x \<notin> gone
        \<and> se_device x \<notin> dv_id ` set (filter (\<lambda>v. dv_user v \<in> gone) (device_rows s))}"
      "set (device_rows ?s) = {v \<in> set (device_rows s). dv_user v \<notin> gone}"
      "set (verification_rows ?s) = {v \<in> set (verification_rows s). vf_user v \<notin> gone}"
    by (auto simp: delete_users_def Let_def gone_def)
  have keys: "distinct (map us_id (user_rows ?s))" "distinct (map se_id (session_rows ?s))"
      "distinct (map dv_id (device_rows ?s))" "distinct (map vf_id (verification_rows ?s))"
    using users_okD(1) [OF d(1)] sessions_okD(1) [OF d(2)] verifications_okD(1) [OF d(5)] d(4)
    by (auto simp: delete_users_def Let_def devices_ok_def intro: distinct_key_delete)
  have "users_ok ?s"
    using d(1) keys kept unfolding users_ok_def by (auto elim: apart_subset)
  moreover have "sessions_ok ?s"
    using d(2) keys rows(1) unfolding sessions_ok_def
    by (auto simp: rows(2) elim!: apart_subset) (metis (mono_tags, lifting) in_mono mem_Collect_eq)
  moreover have "owners_ok ?s"
    unfolding owners_ok_def
  proof
    fix x assume "x \<in> set (session_rows ?s)"
    then have x: "x \<in> set (session_rows s)" "se_user x \<notin> gone" using rows(1) by auto
    obtain u where "u \<in> set (user_rows s)" "us_id u = se_user x" "owner_fine u x" by (rule owner_of [OF ok x(1)])
    with x show "\<exists>u \<in> set (user_rows ?s). us_id u = se_user x \<and> owner_fine u x" by (auto simp: kept)
  qed
  moreover have "devices_ok ?s" using d(4) keys unfolding devices_ok_def ids rows(2) by auto
  moreover have "verifications_ok ?s"
    using d(5) keys unfolding verifications_ok_def ids rows(3) by (auto elim!: apart_subset)
  ultimately show ?thesis by (simp add: identity_ok_def)
qed

lemma delete_stale_ok:
  assumes ok: "identity_ok s"
  shows "identity_ok (snd (delete_stale_sessions_before c s))"
proof -
  note d = identity_okD [OF ok]
  let ?p = "\<lambda>x. before_cutoff (se_revoked x) c \<or> se_expires x < c"
  have "sessions_ok (s\<lparr>session_rows := tbl_delete ?p (session_rows s)\<rparr>)"
    using d(2) distinct_key_delete [of se_id "session_rows s" ?p] unfolding sessions_ok_def
    by (auto elim: apart_subset)
  moreover have "owners_ok (s\<lparr>session_rows := tbl_delete ?p (session_rows s)\<rparr>)"
    using d(3) by (auto simp: owners_ok_def)
  ultimately show ?thesis using d by (simp add: identity_ok_def delete_stale_sessions_before_def Let_def)
qed

end
