(* ===== verification/Identity_System.thy ===== *)
theory Identity_System
  imports Identity_Command_Facts
begin

text \<open>
  The Identity context as a system: the commands, queries and sweeps that change its tables as the
  steps of a reachability relation, and how a session may change over any of them.
\<close>

section \<open>Steps\<close>

datatype identity_command =
    RegisterUser string string string string user_id string string int
  | ResendVerification string string string int
  | VerifyEmail string int
  | AuthenticateUser string string "string option" string session_id device_id string int
  | RenewSession string string int
  | AuthenticateSession string int
  | RevokeSession user_id session_id int
  | RequestAccountDeletion user_id string int
  | EraseUnverified int
  | EraseDeletedAccounts int
  | EraseStaleSessions int

fun after :: "(string \<Rightarrow> string) \<Rightarrow> (string \<Rightarrow> string \<Rightarrow> bool) \<Rightarrow> identity_command \<Rightarrow> identity_store \<Rightarrow> identity_store" where
  "after hash matches (RegisterUser email password pw raw uid vid cid now) s = snd (register_user hash email password pw raw uid vid cid now s)"
| "after hash matches (ResendVerification email raw vid now) s = snd (resend_verification hash email raw vid now s)"
| "after hash matches (VerifyEmail token now) s = snd (verify_email hash token now s)"
| "after hash matches (AuthenticateUser email password given raw sid did cid now) s =
     snd (authenticate_user hash matches email password given raw sid did cid now s)"
| "after hash matches (RenewSession token raw now) s = snd (renew_session hash token raw now s)"
| "after hash matches (AuthenticateSession token now) s = snd (authenticate_session hash token now s)"
| "after hash matches (RevokeSession user i now) s = snd (revoke_session user i now s)"
| "after hash matches (RequestAccountDeletion user cid now) s = snd (request_account_deletion user cid now s)"
| "after hash matches (EraseUnverified now) s = snd (erase_unverified_sweep now s)"
| "after hash matches (EraseDeletedAccounts now) s = snd (erase_deleted_accounts_sweep now s)"
| "after hash matches (EraseStaleSessions now) s = snd (erase_stale_sessions_sweep now s)"

text \<open>What the generators provide: ids and tokens no row has.\<close>

definition new_link :: "string \<Rightarrow> string \<Rightarrow> identity_store \<Rightarrow> bool" where
  "new_link vid h s \<longleftrightarrow> list_all (\<lambda>w. vf_id w \<noteq> vid \<and> vf_hash w \<noteq> h) (verification_rows s)"

definition new_credential :: "string \<Rightarrow> identity_store \<Rightarrow> bool" where
  "new_credential h s \<longleftrightarrow> h \<noteq> [] \<and> list_all (\<lambda>x. se_hash x \<noteq> h \<and> se_previous x \<noteq> Some h) (session_rows s)"

fun id_admissible :: "(string \<Rightarrow> string) \<Rightarrow> identity_command \<Rightarrow> identity_store \<Rightarrow> bool" where
  "id_admissible hash (RegisterUser _ _ _ raw uid vid _ _) s \<longleftrightarrow>
     list_all (\<lambda>u. us_id u \<noteq> uid) (user_rows s) \<and> new_link vid (hash raw) s"
| "id_admissible hash (ResendVerification _ raw vid _) s \<longleftrightarrow> new_link vid (hash raw) s"
| "id_admissible hash (AuthenticateUser _ _ _ raw sid did _ _) s \<longleftrightarrow>
     list_all (\<lambda>x. se_id x \<noteq> sid) (session_rows s) \<and> list_all (\<lambda>d. dv_id d \<noteq> did) (device_rows s)
     \<and> new_credential (hash raw) s"
| "id_admissible hash (RenewSession _ raw _) s \<longleftrightarrow> new_credential (hash raw) s"
| "id_admissible hash _ s \<longleftrightarrow> True"

definition no_users :: identity_store where
  "no_users = \<lparr>user_rows = [], session_rows = [], device_rows = [], verification_rows = [],
     is_outbox = [], is_mail = [], is_now = 0\<rparr>"

inductive id_reachable :: "(string \<Rightarrow> string) \<Rightarrow> (string \<Rightarrow> string \<Rightarrow> bool) \<Rightarrow> identity_store \<Rightarrow> bool" for hash matches where
  id_empty: "id_reachable hash matches no_users"
| id_command: "id_reachable hash matches s \<Longrightarrow> id_admissible hash c s \<Longrightarrow> id_reachable hash matches (after hash matches c s)"
| id_clock: "id_reachable hash matches s \<Longrightarrow> id_reachable hash matches (s\<lparr>is_now := now\<rparr>)"

text \<open>A run of commands, each admissible where it starts.\<close>

fun run_identity :: "(string \<Rightarrow> string) \<Rightarrow> (string \<Rightarrow> string \<Rightarrow> bool) \<Rightarrow> identity_command list \<Rightarrow> identity_store \<Rightarrow> identity_store" where
  "run_identity hash matches [] s = s"
| "run_identity hash matches (c # cs) s = run_identity hash matches cs (after hash matches c s)"

fun all_admissible :: "(string \<Rightarrow> string) \<Rightarrow> (string \<Rightarrow> string \<Rightarrow> bool) \<Rightarrow> identity_command list \<Rightarrow> identity_store \<Rightarrow> bool" where
  "all_admissible hash matches [] s \<longleftrightarrow> True"
| "all_admissible hash matches (c # cs) s \<longleftrightarrow>
     id_admissible hash c s \<and> all_admissible hash matches cs (after hash matches c s)"

section \<open>Every step keeps the invariant\<close>

lemma new_credential_iff:
  "new_credential h s \<longleftrightarrow> h \<noteq> [] \<and> (\<forall>y \<in> set (session_rows s). h \<notin> credentials y)"
  by (auto simp: new_credential_def list_all_iff credentials_def)

lemma after_ok:
  assumes ok: "identity_ok s" and adm: "id_admissible hash c s"
  shows "identity_ok (after hash matches c s)"
proof (cases c)
  case (RegisterUser e p pw raw uid vid cid now)
  with adm show ?thesis by (auto simp: new_link_def list_all_iff intro!: register_user_ok [OF ok])
next
  case (ResendVerification e raw vid now)
  with adm show ?thesis by (auto simp: new_link_def list_all_iff intro!: resend_verification_ok [OF ok])
next
  case (AuthenticateUser e p given raw sid did cid now)
  with adm show ?thesis
    by (auto simp: new_credential_iff list_all_iff intro!: authenticate_user_ok [OF ok])
next
  case (RenewSession token raw now)
  with adm show ?thesis by (auto simp: new_credential_iff intro!: renew_session_ok [OF ok])
next
  case (EraseUnverified now)
  then show ?thesis by (simp add: erase_unverified_sweep_def delete_unverified_before_def delete_users_ok [OF ok])
next
  case (EraseDeletedAccounts now)
  then show ?thesis by (simp add: erase_deleted_accounts_sweep_def delete_deleted_accounts_before_def delete_users_ok [OF ok])
next
  case (EraseStaleSessions now)
  then show ?thesis by (simp add: erase_stale_sessions_sweep_def delete_stale_ok [OF ok])
qed (simp_all add: verify_email_ok [OF ok] authenticate_session_ok [OF ok] revoke_session_ok [OF ok]
    request_account_deletion_ok [OF ok])

lemma no_users_ok: "identity_ok no_users"
  by (simp add: identity_ok_def users_ok_def sessions_ok_def owners_ok_def devices_ok_def verifications_ok_def
      no_users_def apart_def)

lemma reachable_identity_ok: "id_reachable hash matches s \<Longrightarrow> identity_ok s"
  by (induction rule: id_reachable.induct) (auto simp: no_users_ok after_ok)

lemma run_identity_ok: "identity_ok s \<Longrightarrow> all_admissible hash matches cs s \<Longrightarrow> identity_ok (run_identity hash matches cs s)"
  by (induction cs arbitrary: s) (auto simp: after_ok)

lemma run_identity_reachable:
  "id_reachable hash matches s \<Longrightarrow> all_admissible hash matches cs s \<Longrightarrow> id_reachable hash matches (run_identity hash matches cs s)"
  by (induction cs arbitrary: s) (auto intro: id_command)

section \<open>How a session changes\<close>

text \<open>
  A session keeps its identity, owner, device and lifetime; once revoked it stays revoked and keeps
  its credentials.
\<close>

definition evolved :: "session \<Rightarrow> session \<Rightarrow> bool" where
  "evolved x y \<longleftrightarrow>
     se_id y = se_id x \<and> se_user y = se_user x \<and> se_device y = se_device x
     \<and> se_issued y = se_issued x \<and> se_expires y = se_expires x
     \<and> (se_revoked x \<noteq> None \<longrightarrow> se_revoked y \<noteq> None \<and> se_hash y = se_hash x \<and> se_previous y = se_previous x)"

lemma evolved_refl [simp]: "evolved x x"
  by (simp add: evolved_def)

lemma evolved_revoke [simp]: "evolved x (session_revoke r now x)"
  by (simp add: evolved_def session_revoke_def)

lemma evolved_rotate: "session_rotate x h now = Inr y \<Longrightarrow> evolved x y"
  by (auto simp: evolved_def session_rotate_def session_usable_def split: if_splits)

definition grown :: "identity_store \<Rightarrow> identity_store \<Rightarrow> session_id option \<Rightarrow> bool" where
  "grown s s' issued \<longleftrightarrow>
     (\<forall>y \<in> set (session_rows s'). (\<exists>x \<in> set (session_rows s). evolved x y) \<or> issued = Some (se_id y))"

lemma grownI: "(\<And>y. y \<in> set (session_rows s') \<Longrightarrow> (\<exists>x \<in> set (session_rows s). evolved x y) \<or> i = Some (se_id y)) \<Longrightarrow> grown s s' i"
  by (simp add: grown_def)

lemma grown_same: "set (session_rows s') \<subseteq> set (session_rows s) \<Longrightarrow> grown s s' i"
  unfolding grown_def using evolved_refl by blast

lemma grown_put: "x \<in> set (session_rows s) \<Longrightarrow> evolved x y \<Longrightarrow> grown s (put_session y s) i"
proof (rule grownI)
  fix z assume x: "x \<in> set (session_rows s)" "evolved x y" and z: "z \<in> set (session_rows (put_session y s))"
  have "se_id y = se_id x" using x(2) by (simp add: evolved_def)
  then have "z = y \<or> z \<in> set (session_rows s)" using z by (auto simp: put_session_rows [OF x(1)])
  then show "(\<exists>x \<in> set (session_rows s). evolved x z) \<or> i = Some (se_id z)" using x evolved_refl by metis
qed

text \<open>The session a command would issue.\<close>

fun issues :: "identity_command \<Rightarrow> session_id option" where
  "issues (AuthenticateUser _ _ _ _ sid _ _ _) = Some sid"
| "issues _ = None"

text \<open>Registration and verification leave the sessions alone.\<close>

lemma register_user_sessions [simp]:
  "session_rows (snd (register_user hash e password pw raw uid vid cid now s)) = session_rows s"
  by (simp add: register_user_def register_work_def Let_def in_transaction_def is_send_def is_event_def tx_bind_def
      save_user_def save_verification_def tx_ok_def find_user_by_email_def split: sum.splits option.splits)

lemma save_verification_sessions [simp]: "session_rows (snd (save_verification v s)) = session_rows s"
  by (simp add: save_verification_def split: sum.splits)

lemma resend_verification_sessions [simp]:
  "session_rows (snd (resend_verification hash e raw vid now s)) = session_rows s"
  by (simp add: resend_verification_def resend_work_def Let_def in_transaction_def is_send_def tx_bind_def
      find_user_by_email_def find_active_verification_def save_verification_def
      split: sum.splits option.splits list.splits)

lemma verify_email_sessions [simp]: "session_rows (snd (verify_email hash token now s)) = session_rows s"
  by (simp add: verify_email_def in_transaction_def tx_bind_def tx_ok_def find_verification_by_hash_def
      find_user_def save_verification_def save_user_def split: sum.splits option.splits)

lemma renew_session_grows:
  assumes ok: "identity_ok s" and h: "new_credential (hash raw) s"
  shows "grown s (snd (renew_session hash token raw now s)) None"
proof (cases rule: presented [OF ok, of "hash token"])
  case 1
  then show ?thesis by (simp add: renew_session_def renew_write_def grown_same)
next
  case (2 x u)
  then show ?thesis
    by (simp add: renew_session_def renew_write_def replayed_run [OF ok 2(1)] grown_put [OF 2(1)])
next
  case (3 x u)
  show ?thesis
  proof (cases "session_rotate x (hash raw) now")
    case (Inl e)
    with 3 show ?thesis by (simp add: renew_session_def renew_write_def grown_same)
  next
    case (Inr y)
    with h have "save_session y s = (Inr (), put_session y s)"
      by (intro rotate_run(1) [OF ok 3(1) Inr]) (auto simp: new_credential_iff)
    with 3 Inr show ?thesis
      by (simp add: renew_session_def renew_write_def grown_put [OF 3(1) evolved_rotate [OF Inr]])
  qed
qed

lemma authenticate_session_grows:
  assumes ok: "identity_ok s"
  shows "grown s (snd (authenticate_session hash token now s)) None"
proof (cases rule: presented [OF ok, of "hash token"])
  case (2 x u)
  then show ?thesis
    by (simp add: authenticate_session_def replayed_run [OF ok 2(1)] grown_put [OF 2(1)])
qed (simp_all add: authenticate_session_def grown_same)

lemma revoke_session_grows:
  assumes ok: "identity_ok s"
  shows "grown s (snd (revoke_session user i now s)) None"
proof (cases "tbl_find se_id i (session_rows s)")
  case None
  then show ?thesis by (simp add: revoke_session_def find_session_def grown_same)
next
  case (Some x)
  then have x: "x \<in> set (session_rows s)" by (auto dest: tbl_find_Some)
  show ?thesis
    using Some revoke_run(1) [OF identity_okD(2) [OF ok] owner_known [OF ok x] x, of UserRevoked now]
    by (cases "se_user x = user") (simp_all add: revoke_session_def find_session_def grown_same grown_put [OF x])
qed

lemma request_account_deletion_grows:
  assumes ok: "identity_ok s"
  shows "grown s (snd (request_account_deletion i cid now s)) None"
proof (cases rule: request_account_deletion_cases [OF ok, of i cid now])
  case (2 u u1)
  then have "snd (request_account_deletion i cid now s) =
      (kill_sessions i now (put_user u1 s))\<lparr>is_outbox := is_outbox s @ [user_deletion_requested_event i cid]\<rparr>"
    using request_deletion_run(1) [OF ok 2(1,3)] by simp
  then show ?thesis
    unfolding grown_def
    by (auto simp: kill_sessions_rows) (use evolved_refl evolved_revoke in blast)+
qed (simp add: grown_same)

lemma authenticate_user_grows:
  assumes ok: "identity_ok s" and fresh: "sid \<notin> se_id ` set (session_rows s)" "did \<notin> dv_id ` set (device_rows s)"
    and h: "hash raw \<noteq> []" "\<forall>y \<in> set (session_rows s). hash raw \<notin> credentials y"
  shows "grown s (snd (authenticate_user hash matches e password given raw sid did cid now s)) (Some sid)"
proof (cases rule: authenticate_user_cases [where hash = hash and raw = raw and e = e and matches = matches
      and password = password and given = given and cid = cid and now = now, OF ok fresh h])
  case (5 u s')
  then show ?thesis by (auto intro!: grownI simp: session_issue_def) (metis evolved_refl)
qed (simp_all add: grown_same)

lemma after_grows:
  assumes ok: "identity_ok s" and adm: "id_admissible hash c s"
  shows "grown s (after hash matches c s) (issues c)"
proof (cases c)
  case (AuthenticateUser e p given raw sid did cid now)
  with adm show ?thesis
    by (auto simp: new_credential_iff list_all_iff intro!: authenticate_user_grows [OF ok])
next
  case (RenewSession token raw now)
  with adm show ?thesis by (simp add: renew_session_grows [OF ok])
next
  case (EraseUnverified now)
  then show ?thesis
    by (auto simp: erase_unverified_sweep_def delete_unverified_before_def delete_users_def Let_def intro!: grown_same)
next
  case (EraseDeletedAccounts now)
  then show ?thesis
    by (auto simp: erase_deleted_accounts_sweep_def delete_deleted_accounts_before_def delete_users_def Let_def intro!: grown_same)
next
  case (EraseStaleSessions now)
  then show ?thesis
    by (auto simp: erase_stale_sessions_sweep_def delete_stale_sessions_before_def Let_def intro!: grown_same)
qed (simp_all add: grown_same authenticate_session_grows [OF ok] revoke_session_grows [OF ok]
    request_account_deletion_grows [OF ok])

text \<open>Over a run that does not issue it, a session stays what it is; a revoked one stays revoked.\<close>

lemma run_identity_dead:
  assumes "identity_ok s" "all_admissible hash matches cs s" "\<forall>c \<in> set cs. issues c \<noteq> Some i"
    "\<forall>x \<in> set (session_rows s). se_id x = i \<longrightarrow> se_revoked x \<noteq> None"
  shows "\<forall>x \<in> set (session_rows (run_identity hash matches cs s)). se_id x = i \<longrightarrow> se_revoked x \<noteq> None"
  using assms
proof (induction cs arbitrary: s)
  case (Cons c cs)
  have "grown s (after hash matches c s) (issues c)" using Cons.prems by (intro after_grows) auto
  then have "se_revoked y \<noteq> None" if "y \<in> set (session_rows (after hash matches c s))" "se_id y = i" for y
    using that Cons.prems(3,4) unfolding grown_def evolved_def by (metis list.set_intros(1))
  with Cons.IH [of "after hash matches c s"] Cons.prems show ?case by (simp add: after_ok)
qed simp

lemma accepted_session:
  assumes ok: "identity_ok s" and r: "authenticate_session hash token now s = (Inr (Inr (u, i)), s')"
  obtains x where "x \<in> set (session_rows s)" "se_id x = i" "se_user x = u" "se_hash x = hash token"
    "session_usable x now" "s' = s"
proof (cases rule: presented [OF ok, of "hash token"])
  case (2 x w)
  with r show thesis by (simp add: authenticate_session_def replayed_run [OF ok 2(1)])
next
  case (3 x w)
  with r have "session_usable x now" "se_user x = u" "se_id x = i" "s' = s"
    by (simp_all add: authenticate_session_def split: if_splits)
  with 3(1,2) show thesis by (intro that [of x]) simp_all
qed (use r in \<open>simp add: authenticate_session_def\<close>)

lemma renewed_session:
  assumes ok: "identity_ok s" and r: "renew_session hash token raw now s = (Inr (Inr c), s')"
  obtains x where "x \<in> set (session_rows s)" "se_id x = sc_session c" "se_hash x = hash token" "session_usable x now"
proof (cases rule: presented [OF ok, of "hash token"])
  case (2 x w)
  with r show thesis by (simp add: renew_session_def renew_write_def replayed_run [OF ok 2(1)])
next
  case (3 x w)
  then obtain y where y: "session_rotate x (hash raw) now = Inr y" "sc_session c = se_id y"
    using r by (cases "session_rotate x (hash raw) now")
      (auto simp: renew_session_def renew_write_def credential_def tx_bind_def split: sum.splits prod.splits)
  with rotate_columns [OF y(1)] 3 that [of x] show thesis by (simp add: session_usable_def)
qed (use r in \<open>simp add: renew_session_def renew_write_def\<close>)

end
