(* ===== verification/Identity_Example.thy ===== *)
theory Identity_Example
  imports Identity_System
begin

text \<open>
  An account that registers, confirms its email and signs in on a phone, computed: the store the
  witnesses start from. The token hash prefixes a sign, the password digest is the password.
\<close>

definition sample_hash :: "string \<Rightarrow> string" where
  "sample_hash t = CHR ''#'' # t"

definition sample_matches :: "string \<Rightarrow> string \<Rightarrow> bool" where
  "sample_matches password digest \<longleftrightarrow> digest = password"

definition ann_commands :: "identity_command list" where
  "ann_commands =
     [RegisterUser ''Ann@example.org'' ''correct horse'' ''correct horse'' ''v1'' (UserId ''ann'') ''link1'' ''c1'' 1000,
      VerifyEmail ''v1'' 2000,
      AuthenticateUser ''ann@example.org'' ''correct horse'' (Some '' phone '') ''t1'' (SessionId ''s1'')
        (DeviceId ''d1'') ''c2'' 3000]"

definition ann_user :: user where
  "ann_user = \<lparr>us_id = UserId ''ann'', us_email = EmailAddress ''ann@example.org'',
     us_password = ''correct horse'', us_status = ActiveUser, us_verified = Some 2000, us_deletion = None,
     us_failed = 0, us_throttled = None, us_created = 1000, us_updated = 0\<rparr>"

definition ann_session :: session where
  "ann_session = \<lparr>se_id = SessionId ''s1'', se_user = UserId ''ann'', se_device = DeviceId ''d1'',
     se_hash = ''#t1'', se_previous = None, se_issued = 3000, se_rotated = None,
     se_expires = 3000 + 7776000000, se_revoked = None, se_reason = None\<rparr>"

definition ann_store :: identity_store where
  "ann_store = \<lparr>user_rows = [ann_user], session_rows = [ann_session],
     device_rows = [\<lparr>dv_id = DeviceId ''d1'', dv_user = UserId ''ann'', dv_label = ''phone'',
       dv_first_seen = 3000, dv_last_seen = 3000\<rparr>],
     verification_rows = [\<lparr>vf_id = ''link1'', vf_user = UserId ''ann'', vf_hash = ''#v1'',
       vf_expires = 86401000, vf_consumed = Some 2000, vf_superseded = None\<rparr>],
     is_outbox = [user_registered_event (UserId ''ann'') ''c1'',
       user_authenticated_event (UserId ''ann'') (SessionId ''s1'') ''c2''],
     is_mail = [\<lparr>mail_to = ''ann@example.org'', mail_subject = ''Verify your email'',
       mail_text = ''Verification token: v1''\<rparr>],
     is_now = 0\<rparr>"

lemma ann_run: "run_identity sample_hash sample_matches ann_commands no_users = ann_store"
  by code_simp

lemma ann_admissible: "all_admissible sample_hash sample_matches ann_commands no_users"
  by code_simp

lemma ann_reachable: "id_reachable sample_hash sample_matches ann_store"
  using run_identity_reachable [OF id_empty ann_admissible] by (simp add: ann_run)

end
