(* ===== verification/Identity_Race.thy ===== *)
theory Identity_Race
  imports Identity_Properties
begin

text \<open>
  Wrong passwords: the bound the lockout puts on them when attempts follow one another, and what
  is left of it when they overlap; and a renewal that overlaps a log-out. Overlapping attempts are
  modelled by their reads and writes, which the database's READ COMMITTED isolation does not keep
  together.
\<close>

section \<open>One attempt after another\<close>

record sign_in =
  si_password :: string
  si_label :: "string option"
  si_raw :: string
  si_session :: session_id
  si_device :: device_id
  si_cid :: string
  si_now :: int

fun sign_ins ::
  "(string \<Rightarrow> string) \<Rightarrow> (string \<Rightarrow> string \<Rightarrow> bool) \<Rightarrow> string \<Rightarrow> sign_in list \<Rightarrow> identity_store
     \<Rightarrow> (exn + session_credential outcome) list"
where
  "sign_ins hash matches e [] s = []"
| "sign_ins hash matches e (a # as) s =
     (case authenticate_user hash matches e (si_password a) (si_label a) (si_raw a) (si_session a) (si_device a)
         (si_cid a) (si_now a) s of
        (r, s') \<Rightarrow> r # sign_ins hash matches e as s')"

lemma wrong_password:
  assumes ok: "identity_ok s" and u: "u \<in> set (user_rows s)" "us_email u = email_from e" and w: "\<not> matches p (us_password u)"
  shows "authenticate_user hash matches e p given raw sid did cid now s =
    (case throttled_at (Some u) now of
       Some t \<Rightarrow> (Inr (Inl (Throttled (retry_after_seconds t now))), s)
     | None \<Rightarrow> (Inr (Inl InvalidCredentials),
         put_user (record_failed_attempt max_failed_attempts throttle_lockout_ms now u) s))"
proof -
  note d = identity_okD [OF ok]
  have "tbl_find (\<lambda>u. email_value (us_email u)) (email_value (email_from e)) (user_rows s) = Some u"
  proof (cases "tbl_find (\<lambda>u. email_value (us_email u)) (email_value (email_from e)) (user_rows s)")
    case None
    with no_user_by_email [OF None] u show ?thesis by blast
  next
    case (Some v)
    note v = user_by_email [OF d(1) Some]
    have "us_email v = us_email u" using v(3) u(2) by (intro email_address.expand) simp
    then have "v = u" using users_okD(3) [OF d(1) v(1) u(1)] user_same [OF d(1) v(1) u(1)] by simp
    with Some show ?thesis by simp
  qed
  moreover have "save_user (record_failed_attempt max_failed_attempts throttle_lockout_ms now u) s
      = (Inr (), put_user (record_failed_attempt max_failed_attempts throttle_lockout_ms now u) s)"
    by (rule put_same_user_ok(1) [OF ok u(1)]) (simp_all add: failed_fine users_okD(2) [OF d(1) u(1)])
  ultimately show ?thesis
    using w by (simp add: authenticate_user_def in_transaction_def find_user_by_email_run [OF d(1)] attempt_def
        split: option.splits)
qed

text \<open>How many more wrong passwords an account will compare before a given instant.\<close>

definition guesses_left :: "int \<Rightarrow> user \<Rightarrow> int" where
  "guesses_left until u =
     (if us_failed u < 5 then 5 - us_failed u
      else case us_throttled u of None \<Rightarrow> 1 | Some t \<Rightarrow> if until \<le> t then 0 else 1)"

lemma guesses_left_failed:
  assumes "user_fine u" "throttled_at (Some u) now = None" "now < until" "until \<le> now + throttle_lockout_ms"
  shows "guesses_left until (record_failed_attempt max_failed_attempts throttle_lockout_ms now u) + 1 \<le> guesses_left until u"
  using assms
  by (auto simp: guesses_left_def record_failed_attempt_def max_failed_attempts_def user_fine_def throttled_at_def
      split: option.splits if_splits)

definition tried :: "exn + session_credential outcome \<Rightarrow> bool" where
  "tried r \<longleftrightarrow> r = Inr (Inl InvalidCredentials)"

lemma guesses_counted:
  assumes "identity_ok s" "u \<in> set (user_rows s)" "us_email u = email_from e"
    and "\<forall>a \<in> set as. \<not> matches (si_password a) (us_password u) \<and> start \<le> si_now a \<and> si_now a < start + throttle_lockout_ms"
  shows "(\<forall>r \<in> set (sign_ins hash matches e as s). \<exists>x. r = Inr (Inl x) \<and> (x = InvalidCredentials \<or> (\<exists>n. x = Throttled n)))
    \<and> int (length (filter tried (sign_ins hash matches e as s))) \<le> guesses_left (start + throttle_lockout_ms) u"
  using assms
proof (induction as arbitrary: s u)
  case Nil
  then have "0 \<le> us_failed u" using users_okD(2) [OF identity_okD(1)] by (auto simp: user_fine_def)
  then show ?case by (auto simp: guesses_left_def split: option.splits)
next
  case (Cons a as)
  note ok = Cons.prems(1) and u = Cons.prems(2,3)
  have f: "user_fine u" by (rule users_okD(2) [OF identity_okD(1) [OF ok] u(1)])
  have w: "\<not> matches (si_password a) (us_password u)" "start \<le> si_now a" "si_now a < start + throttle_lockout_ms"
    using Cons.prems(4) by auto
  note run = wrong_password [OF ok u, of matches, OF w(1), of hash "si_label a" "si_raw a" "si_session a" "si_device a" "si_cid a" "si_now a"]
  show ?case
  proof (cases "throttled_at (Some u) (si_now a)")
    case (Some t)
    with Cons.IH [OF ok u] Cons.prems(4) show ?thesis by (simp add: run tried_def)
  next
    case None
    let ?u = "record_failed_attempt max_failed_attempts throttle_lockout_ms (si_now a) u"
    let ?r = "?u\<lparr>us_created := us_created u, us_updated := is_now s\<rparr>"
    have ok': "identity_ok (put_user ?u s)"
      by (rule put_same_user_ok(2) [OF ok u(1)]) (simp_all add: failed_fine f)
    have r: "?r \<in> set (user_rows (put_user ?u s))" using u(1) by (auto simp: put_user_rows intro!: bexI [of _ u])
    have g: "guesses_left (start + throttle_lockout_ms) ?r = guesses_left (start + throttle_lockout_ms) ?u"
      by (simp add: guesses_left_def)
    have "guesses_left (start + throttle_lockout_ms) ?u + 1 \<le> guesses_left (start + throttle_lockout_ms) u"
      using w(2,3) by (intro guesses_left_failed [OF f None]) simp_all
    with Cons.IH [OF ok' r] Cons.prems(4) u(2) None show ?thesis by (simp add: run tried_def g)
  qed
qed

text \<open>
  C35: within any fifteen minutes at most five wrong passwords are compared with an account's
  password, however many attempts are made one after another; the others are answered as
  throttled.
\<close>

theorem guesses_bounded:
  assumes reach: "id_reachable hash matches s" and u: "u \<in> set (user_rows s)" "us_email u = email_from e"
    and wrong: "\<forall>a \<in> set as. \<not> matches (si_password a) (us_password u)"
    and time: "\<forall>a \<in> set as. start \<le> si_now a \<and> si_now a < start + 15 * 60 * 1000"
  shows "length (filter (\<lambda>r. r = Inr (Inl InvalidCredentials)) (sign_ins hash matches e as s)) \<le> 5
    \<and> (\<forall>r \<in> set (sign_ins hash matches e as s). r = Inr (Inl InvalidCredentials) \<or> (\<exists>n. r = Inr (Inl (Throttled n))))"
proof -
  have ok: "identity_ok s" by (rule reachable_identity_ok [OF reach])
  have "\<forall>a \<in> set as. \<not> matches (si_password a) (us_password u) \<and> start \<le> si_now a \<and> si_now a < start + throttle_lockout_ms"
    using wrong time by (simp add: throttle_lockout_ms_def)
  note c = guesses_counted [where hash = hash and matches = matches and start = start, OF ok u this]
  have "guesses_left (start + throttle_lockout_ms) u \<le> 5"
    using users_okD(2) [OF identity_okD(1) [OF ok] u(1)] by (auto simp: guesses_left_def user_fine_def split: option.splits)
  with c show ?thesis unfolding tried_def by auto
qed

definition guesses :: "nat \<Rightarrow> sign_in list" where
  "guesses n = map (\<lambda>i. \<lparr>si_password = show_nat i, si_label = None, si_raw = show_nat i, si_session = SessionId (show_nat i),
     si_device = DeviceId (show_nat i), si_cid = [], si_now = 5000 + int i\<rparr>) [0..<n]"

theorem guesses_bounded_witness:
  "length (filter (\<lambda>r. r = Inr (Inl InvalidCredentials))
      (sign_ins sample_hash sample_matches ''ann@example.org'' (guesses 9) ann_store)) \<le> 5"
proof -
  have "\<forall>a \<in> set (guesses 9). \<not> sample_matches (si_password a) (us_password ann_user)" by code_simp
  moreover have "\<forall>a \<in> set (guesses 9). 5000 \<le> si_now a \<and> si_now a < 5000 + 15 * 60 * 1000" by code_simp
  moreover have "ann_user \<in> set (user_rows ann_store)" by (simp add: ann_store_def)
  moreover have "us_email ann_user = email_from ''ann@example.org''" by code_simp
  ultimately show ?thesis using guesses_bounded [OF ann_reachable] by blast
qed

section \<open>Overlapping attempts\<close>

text \<open>
  Attempts that all read the account before any of them writes: each compares its password and
  saves the account it read, with one failure more.
\<close>

fun late_attempts ::
  "(string \<Rightarrow> string) \<Rightarrow> (string \<Rightarrow> string \<Rightarrow> bool) \<Rightarrow> user option \<Rightarrow> sign_in list \<Rightarrow> identity_store
     \<Rightarrow> (exn + session_credential outcome) list \<times> identity_store"
where
  "late_attempts hash matches found [] s = ([], s)"
| "late_attempts hash matches found (a # as) s =
     (case attempt hash matches found (si_password a) (si_label a) (si_raw a) (si_session a) (si_device a) (si_cid a)
         (si_now a) s of
        (r, s') \<Rightarrow> (case late_attempts hash matches found as s' of (rs, s'') \<Rightarrow> (r # rs, s'')))"

lemma late_attempts_run:
  assumes "identity_ok s" "w \<in> set (user_rows s)" "us_id w = us_id u" "us_email w = us_email u" "us_status w = us_status u"
    "user_fine u" "us_throttled u = None" "us_failed w \<le> us_failed u + 1" "us_throttled w = None" "us_failed u < 4"
    and "\<forall>a \<in> set as. \<not> matches (si_password a) (us_password u)"
  shows "list_all tried (fst (late_attempts hash matches (Some u) as s))
    \<and> (\<exists>x \<in> set (user_rows (snd (late_attempts hash matches (Some u) as s))). us_id x = us_id u
         \<and> us_failed x \<le> us_failed u + 1 \<and> us_throttled x = None)"
  using assms
proof (induction as arbitrary: s w)
  case Nil
  then show ?case by auto
next
  case (Cons a as)
  note ok = Cons.prems(1) and w = Cons.prems(2-5)
  let ?u = "record_failed_attempt max_failed_attempts throttle_lockout_ms (si_now a) u"
  let ?r = "?u\<lparr>us_created := us_created w, us_updated := is_now s\<rparr>"
  have col: "us_failed ?u = us_failed u + 1" "us_throttled ?u = None"
    using Cons.prems(7,10) by (simp_all add: record_failed_attempt_def max_failed_attempts_def)
  have save: "save_user ?u s = (Inr (), put_user ?u s)" "identity_ok (put_user ?u s)"
    using w failed_fine [OF Cons.prems(6)] by (intro put_same_user_ok [OF ok w(1)]; simp)+
  have run: "attempt hash matches (Some u) (si_password a) (si_label a) (si_raw a) (si_session a) (si_device a) (si_cid a)
      (si_now a) s = (Inr (Inl InvalidCredentials), put_user ?u s)"
    using Cons.prems(7,11) save(1) by (simp add: attempt_def throttled_at_def)
  have r: "?r \<in> set (user_rows (put_user ?u s))" using w by (auto simp: put_user_rows intro!: bexI [of _ w])
  have "list_all tried (fst (late_attempts hash matches (Some u) as (put_user ?u s)))
      \<and> (\<exists>x \<in> set (user_rows (snd (late_attempts hash matches (Some u) as (put_user ?u s)))). us_id x = us_id u
           \<and> us_failed x \<le> us_failed u + 1 \<and> us_throttled x = None)"
    by (rule Cons.IH [OF save(2) r]) (use Cons.prems(6,7,10,11) col in simp_all)
  then show ?case by (simp add: run split_beta) (simp add: tried_def)
qed

text \<open>
  the bound does not hold for attempts that overlap: any number of wrong passwords tried by
  attempts that read an account with fewer than four failures before any of them writes are all
  compared, count as one failure together and lock nothing.
\<close>

theorem overlapping_guesses_count_once:
  assumes reach: "id_reachable hash matches s" and u: "u \<in> set (user_rows s)" "us_email u = email_from e" "us_failed u < 4"
    and wrong: "\<forall>a \<in> set as. \<not> matches (si_password a) (us_password u)"
  shows "\<exists>found rs s' x. find_user_by_email (email_value (email_from e)) s = (Inr found, s)
    \<and> late_attempts hash matches found as s = (rs, s') \<and> length rs = length as
    \<and> (\<forall>r \<in> set rs. r = Inr (Inl InvalidCredentials))
    \<and> x \<in> set (user_rows s') \<and> us_id x = us_id u \<and> us_failed x \<le> us_failed u + 1 \<and> us_throttled x = None"
proof -
  have ok: "identity_ok s" by (rule reachable_identity_ok [OF reach])
  note d = identity_okD [OF ok]
  have f: "user_fine u" by (rule users_okD(2) [OF d(1) u(1)])
  then have t: "us_throttled u = None" using u(3) by (simp add: user_fine_def max_failed_attempts_def)
  have len: "length (fst (late_attempts hash matches (Some u) as s)) = length as" for s
    by (induction as arbitrary: s) (auto simp: split_beta)
  obtain v where v: "tbl_find (\<lambda>u. email_value (us_email u)) (email_value (email_from e)) (user_rows s) = Some v"
    using no_user_by_email u(1,2) by (cases "tbl_find (\<lambda>u. email_value (us_email u)) (email_value (email_from e)) (user_rows s)") blast+
  have "us_email v = us_email u" using user_by_email [OF d(1) v] u(2) by (intro email_address.expand) simp
  then have "v = u"
    using users_okD(3) [OF d(1) _ u(1)] user_same [OF d(1) _ u(1)] user_by_email(1) [OF d(1) v] by metis
  then have "find_user_by_email (email_value (email_from e)) s = (Inr (Some u), s)"
    using v by (simp add: find_user_by_email_run [OF d(1)])
  moreover obtain rs s' where "late_attempts hash matches (Some u) as s = (rs, s')" by (metis prod.collapse)
  ultimately show ?thesis
    using late_attempts_run [where hash = hash and matches = matches and as = as, OF ok u(1) refl refl refl f t _ t u(3) wrong] len [of s]
    by (auto simp: list_all_iff tried_def)
qed

theorem overlapping_guesses_count_once_witness:
  "\<exists>rs s' x. late_attempts sample_hash sample_matches (Some ann_user) (guesses 100) ann_store = (rs, s')
    \<and> length rs = 100 \<and> (\<forall>r \<in> set rs. r = Inr (Inl InvalidCredentials))
    \<and> x \<in> set (user_rows s') \<and> us_failed x \<le> 1"
proof -
  have "\<forall>a \<in> set (guesses 100). \<not> sample_matches (si_password a) (us_password ann_user)"
  proof -
    have "\<not> list_all is_digit ''correct horse''" by (simp add: is_digit_def)
    then have "show_nat i \<noteq> ''correct horse''" for i using show_nat_digits [of i] by metis
    then show ?thesis by (force simp: guesses_def sample_matches_def ann_user_def)
  qed
  moreover have "ann_user \<in> set (user_rows ann_store)" "us_failed ann_user = 0" by (simp_all add: ann_store_def ann_user_def)
  moreover have "us_email ann_user = email_from ''ann@example.org''" by code_simp
  moreover have "find_user_by_email (email_value (email_from ''ann@example.org'')) ann_store = (Inr (Some ann_user), ann_store)"
    by code_simp
  ultimately show ?thesis
    using overlapping_guesses_count_once [OF ann_reachable, of ann_user "''ann@example.org''" "guesses 100"]
    by (auto simp: guesses_def)
qed

section \<open>A renewal that overlaps a log-out\<close>

text \<open>
  C36: a renewal that looked the session up before its owner revoked it and saves it after brings
  the session back: the log-out succeeded, yet the renewed token authenticates.
\<close>

theorem renewal_revives_session:
  assumes reach: "id_reachable hash matches s" and x: "x \<in> set (session_rows s)" "se_hash x = hash token" "session_usable x now"
    and adm: "id_admissible hash (RenewSession token raw now) s"
  shows "\<exists>found s1 c s2. find_auth_context (hash token) s = (Inr found, s)
    \<and> revoke_session (se_user x) (se_id x) t s = (Inr (Inr ()), s1)
    \<and> authenticate_session hash token now s1 = (Inr (Inl SessionInvalid), s1)
    \<and> renew_write hash found raw now s1 = (Inr (Inr c), s2)
    \<and> authenticate_session hash raw now s2 = (Inr (Inr (se_user x, se_id x)), s2)"
proof -
  have ok: "identity_ok s" by (rule reachable_identity_ok [OF reach])
  note d = identity_okD [OF ok]
  have h: "hash raw \<noteq> []" "\<forall>y \<in> set (session_rows s). hash raw \<notin> credentials y"
    using adm by (auto simp: new_credential_iff)
  obtain u :: user where found: "find_auth_context (hash token) s
      = (Inr (Some \<lparr>ac_session = x, ac_status = us_status u, ac_previous = False\<rparr>), s)"
    by (rule current_context [OF ok x(1,2)])
  let ?z = "session_revoke UserRevoked t x"
  let ?s1 = "put_session ?z s"
  have "tbl_find se_id (se_id x) (session_rows s) = Some x"
    using x(1) sessions_okD(1) [OF d(2)] by (simp add: tbl_find_iff)
  then have revoke: "revoke_session (se_user x) (se_id x) t s = (Inr (Inr ()), ?s1)"
    using revoke_run(1) [OF d(2) owner_known [OF ok x(1)] x(1)] by (simp add: revoke_session_def find_session_def)
  have ok1: "identity_ok ?s1" by (rule revoked_ok [OF ok x(1)])
  have z: "?z \<in> set (session_rows ?s1)" by (simp add: put_session_rows [OF x(1)])
  have zh: "se_hash ?z = hash token" "\<not> session_usable ?z now" using x(2) by (simp_all add: session_usable_def)
  have dead: "authenticate_session hash token now ?s1 = (Inr (Inl SessionInvalid), ?s1)"
    using current_credential(1) [where hash = hash and token = token, OF ok1 z zh(1)] zh(2) by simp
  obtain y where y: "session_rotate x (hash raw) now = Inr y" using x(3) by (simp add: session_rotate_def)
  note col = rotate_columns [OF y]
  have f: "session_fine x" by (rule sessions_okD(2) [OF d(2) x(1)])
  have own: "se_user ?z \<in> us_id ` set (user_rows ?s1)" by (rule owner_known [OF ok1 z])
  have h1: "\<forall>w \<in> set (session_rows ?s1). se_hash w \<noteq> hash raw"
    using h(2) x(1) by (metis credentials_def insertI1 put_session_rows [OF x(1) revoke_columns(1)] revoke_columns(9))
  have save: "save_session y ?s1 = (Inr (), put_session y ?s1)"
    using col f h1 x(2) by (intro save_session_run [OF identity_okD(2) [OF ok1] own z]) (auto simp: session_fine_def)
  have "renew_write hash (Some \<lparr>ac_session = x, ac_status = us_status u, ac_previous = False\<rparr>) raw now ?s1
      = (Inr (Inr (credential y raw)), put_session y ?s1)"
    using save by (simp add: renew_write_def y)
  moreover have "put_session y ?s1 = put_session y s"
    using col(1) by (auto simp: put_session_def tbl_update_def)
  moreover have "authenticate_session hash raw now (put_session y s) = (Inr (Inr (se_user x, se_id x)), put_session y s)"
    using current_credential(1) [OF rotate_run(2) [OF ok x(1) y h], of y hash raw now] col x(3)
    by (simp add: put_session_rows [OF x(1)] session_usable_def)
  ultimately show ?thesis
    using found revoke dead
    by (intro exI [of _ "Some \<lparr>ac_session = x, ac_status = us_status u, ac_previous = False\<rparr>"] exI [of _ ?s1]
        exI [of _ "credential y raw"] exI [of _ "put_session y s"]) simp
qed

theorem renewal_revives_session_witness:
  "\<exists>found s1 c s2. revoke_session (UserId ''ann'') (SessionId ''s1'') 5000 ann_store = (Inr (Inr ()), s1)
    \<and> renew_write sample_hash found ''t2'' 5000 s1 = (Inr (Inr c), s2)
    \<and> authenticate_session sample_hash ''t2'' 5000 s2 = (Inr (Inr (UserId ''ann'', SessionId ''s1'')), s2)"
proof -
  have "ann_session \<in> set (session_rows ann_store)" "se_hash ann_session = sample_hash ''t1''" "session_usable ann_session 5000"
    "id_admissible sample_hash (RenewSession ''t1'' ''t2'' 5000) ann_store"
    "se_user ann_session = UserId ''ann''" "se_id ann_session = SessionId ''s1''"
    by code_simp+
  with renewal_revives_session [OF ann_reachable, of ann_session "''t1''" 5000 "''t2''" 5000] show ?thesis by auto
qed

end
