(* ===== verification/Outbox_Relay.thy ===== *)
theory Outbox_Relay
  imports Civil_Date Kernel_Types Transaction
begin

text \<open>
  The outbox and the worker's relay: the outbox rows every context appends to
  (\<open>outbox.repository.ts\<close>), claiming and marking them (\<open>outbox-relay.repository.ts\<close>), the queue
  topology, and one tick of the relay (\<open>apps/worker/src/relay\<close>) with its log lines and alerts.

  The queue service is outside the repository: it answers the \<open>k\<close>-th send by \<open>service k\<close>, and a
  send that fails may still have stored the message. A message body is the envelope as a JSON
  value; \<open>JSON.stringify\<close> and \<open>JSON.parse\<close>, inverse to each other on it, are left out. A tick may
  die between the sends of a row and the commit, at the row \<open>crash\<close> names.
\<close>

section \<open>Outbox rows\<close>

record outbox_row =
  ob_id :: string
  ob_event :: outbox_event
  ob_occurred :: int
  ob_published :: "int option"

text \<open>\<open>append\<close>: the database stamps the row.\<close>

definition append_outbox :: "string \<Rightarrow> int \<Rightarrow> outbox_event \<Rightarrow> outbox_row list \<Rightarrow> outbox_row list" where
  "append_outbox i now e rows = rows @ [\<lparr>ob_id = i, ob_event = e, ob_occurred = now, ob_published = None\<rparr>]"

text \<open>The claim: the oldest unpublished rows that no other transaction has locked.\<close>

definition claimed_rows :: "string list \<Rightarrow> nat \<Rightarrow> outbox_row list \<Rightarrow> outbox_row list" where
  "claimed_rows locked limit rows =
     take limit (sort_key ob_occurred (filter (\<lambda>r. ob_published r = None \<and> ob_id r \<notin> set locked) rows))"

definition mark_published :: "string list \<Rightarrow> int \<Rightarrow> outbox_row list \<Rightarrow> outbox_row list" where
  "mark_published ids now rows =
     (if ids = [] then rows
      else tbl_update (\<lambda>r. ob_id r \<in> set ids) (\<lambda>r. r\<lparr>ob_published := Some now\<rparr>) rows)"

text \<open>\<open>Math.max(0, Math.round(ms / 1000))\<close> of the age of the oldest unpublished row.\<close>

definition measure_outbox_lag :: "int \<Rightarrow> outbox_row list \<Rightarrow> int" where
  "measure_outbox_lag now rows =
     (case filter (\<lambda>r. ob_published r = None) rows of
        [] \<Rightarrow> 0
      | r # rs \<Rightarrow> max 0 ((now - Min (ob_occurred ` set (r # rs)) + 500) div 1000))"

section \<open>Topology\<close>

record queue_definition =
  qd_name :: string
  qd_dlq :: string
  qd_max_receive :: int
  qd_types :: "string list"

definition queue_topology :: "queue_definition list" where
  "queue_topology =
     [\<lparr>qd_name = ''outbox-relay-verification'', qd_dlq = ''outbox-relay-verification-dlq'',
       qd_max_receive = 5, qd_types = [''relay.VerificationPing.v1'']\<rparr>]"

definition resolve_destinations :: "queue_definition list \<Rightarrow> string \<Rightarrow> queue_definition list" where
  "resolve_destinations topology t = filter (\<lambda>q. t \<in> set (qd_types q)) topology"

definition serialise_envelope :: "outbox_row \<Rightarrow> json" where
  "serialise_envelope r =
     JObject [(''eventId'', JString (ob_id r)),
       (''eventType'', JString (event_type (ob_event r))),
       (''aggregateType'', JString (aggregate_type (ob_event r))),
       (''aggregateId'', JString (aggregate_id (ob_event r))),
       (''occurredAt'', JString (to_iso_string (ob_occurred r))),
       (''correlationId'', JString (ev_correlation_id (ob_event r))),
       (''payload'', JObject (payload (ob_event r)))]"

section \<open>Sending\<close>

datatype send_answer = SendAccepted | SendRefused | StoredWithoutReply

type_synonym queue_service = "nat \<Rightarrow> send_answer"

record relay_world =
  rw_rows :: "outbox_row list"
  rw_messages :: "(string \<times> json) list"
  rw_sends :: nat

text \<open>One send: whether it returned, and the messages the service then holds.\<close>

definition publish :: "queue_service \<Rightarrow> string \<Rightarrow> json \<Rightarrow> relay_world \<Rightarrow> bool \<times> relay_world" where
  "publish service queue body w =
     (let stored = rw_messages w @ [(queue, body)]; n = Suc (rw_sends w) in
      case service (rw_sends w) of
        SendAccepted \<Rightarrow> (True, w\<lparr>rw_messages := stored, rw_sends := n\<rparr>)
      | SendRefused \<Rightarrow> (False, w\<lparr>rw_sends := n\<rparr>)
      | StoredWithoutReply \<Rightarrow> (False, w\<lparr>rw_messages := stored, rw_sends := n\<rparr>))"

record tick_counts =
  tc_finished :: "string list"
  tc_failed :: "string list"
  tc_sent :: nat
  tc_delivered :: "string list"

text \<open>The destinations of a row in turn, up to the first send that throws.\<close>

fun send_to :: "queue_service \<Rightarrow> queue_definition list \<Rightarrow> json \<Rightarrow> tick_counts \<Rightarrow> relay_world \<Rightarrow> bool \<times> tick_counts \<times> relay_world" where
  "send_to service [] body k w = (True, k, w)"
| "send_to service (q # qs) body k w =
     (case publish service (qd_name q) body w of
        (False, w') \<Rightarrow> (False, k, w')
      | (True, w') \<Rightarrow>
          send_to service qs body
            (k\<lparr>tc_sent := Suc (tc_sent k), tc_delivered := tc_delivered k @ [qd_name q]\<rparr>) w')"

text \<open>
  The loop over the claimed rows: \<open>None\<close> is a tick that died after the sends of the row \<open>crash\<close>
  names.
\<close>

fun relay_each ::
  "queue_service \<Rightarrow> queue_definition list \<Rightarrow> string option \<Rightarrow> outbox_row list \<Rightarrow> tick_counts \<Rightarrow> relay_world
     \<Rightarrow> tick_counts option \<times> relay_world"
where
  "relay_each service topology crash [] k w = (Some k, w)"
| "relay_each service topology crash (r # rs) k w =
     (case send_to service (resolve_destinations topology (event_type (ob_event r))) (serialise_envelope r) k w of
        (False, k', w') \<Rightarrow>
          relay_each service topology crash rs (k'\<lparr>tc_failed := tc_failed k' @ [ob_id r]\<rparr>) w'
      | (True, k', w') \<Rightarrow>
          if crash = Some (ob_id r) then (None, w')
          else relay_each service topology crash rs (k'\<lparr>tc_finished := tc_finished k' @ [ob_id r]\<rparr>) w')"

definition relay_batch_size :: nat where
  "relay_batch_size = 100"

definition no_counts :: tick_counts where
  "no_counts = \<lparr>tc_finished = [], tc_failed = [], tc_sent = 0, tc_delivered = []\<rparr>"

record relay_result =
  sr_claimed :: nat
  sr_published :: nat
  sr_sent :: nat
  sr_failed :: "string list"

text \<open>The claim transaction: the marks are its last write, so a tick that dies marks nothing.\<close>

definition claim_and_send ::
  "queue_service \<Rightarrow> queue_definition list \<Rightarrow> string list \<Rightarrow> string option \<Rightarrow> int \<Rightarrow> relay_world
     \<Rightarrow> (tick_counts \<times> relay_result) option \<times> relay_world"
where
  "claim_and_send service topology locked crash now w =
     (let rows = claimed_rows locked relay_batch_size (rw_rows w) in
      case relay_each service topology crash rows no_counts w of
        (None, w') \<Rightarrow> (None, w')
      | (Some k, w') \<Rightarrow>
          (Some (k, \<lparr>sr_claimed = length rows, sr_published = length (tc_finished k), sr_sent = tc_sent k,
             sr_failed = tc_failed k\<rparr>),
           w'\<lparr>rw_rows := mark_published (tc_finished k) now (rw_rows w')\<rparr>))"

section \<open>Logs and alerts\<close>

definition outbox_lag_alert_seconds :: int where
  "outbox_lag_alert_seconds = 300"

datatype relay_line =
    LagLine int
  | LagAlert int
  | DepthLine string int
  | DeadLetterAlert string int
  | RunLine nat nat nat nat "(string \<times> nat \<times> int \<times> int) list"

record relay_memory =
  rm_lag_raised :: bool
  rm_dlq_full :: "string list"

definition report_lag :: "int \<Rightarrow> relay_memory \<Rightarrow> relay_line list \<times> relay_memory" where
  "report_lag lag m =
     (let over = lag > outbox_lag_alert_seconds in
      (LagLine lag # (if over \<and> \<not> rm_lag_raised m then [LagAlert lag] else []),
       m\<lparr>rm_lag_raised := over\<rparr>))"

text \<open>The depths the service reports: per queue name, read after the sends.\<close>

fun report_dead_letters ::
  "queue_definition list \<Rightarrow> (string \<Rightarrow> int) \<Rightarrow> relay_memory \<Rightarrow> relay_line list \<times> relay_memory" where
  "report_dead_letters [] depth m = ([], m)"
| "report_dead_letters (q # qs) depth m =
     (let d = depth (qd_dlq q); full = d > 0;
          alert = (if full \<and> qd_dlq q \<notin> set (rm_dlq_full m) then [DeadLetterAlert (qd_dlq q) d] else []);
          m' = m\<lparr>rm_dlq_full :=
            (if full then add_elem (qd_dlq q) (rm_dlq_full m) else removeAll (qd_dlq q) (rm_dlq_full m))\<rparr> in
      case report_dead_letters qs depth m' of
        (ls, m'') \<Rightarrow> (DepthLine (qd_dlq q) d # alert @ ls, m''))"

definition queue_counts ::
  "queue_definition list \<Rightarrow> string list \<Rightarrow> (string \<Rightarrow> int) \<Rightarrow> (string \<times> nat \<times> int \<times> int) list" where
  "queue_counts topology delivered depth =
     map (\<lambda>q. (qd_name q, length (filter (\<lambda>n. n = qd_name q) delivered), depth (qd_name q), depth (qd_dlq q)))
       topology"

definition run_outbox_relay_sweep ::
  "queue_service \<Rightarrow> queue_definition list \<Rightarrow> string list \<Rightarrow> string option \<Rightarrow> (string \<Rightarrow> int) \<Rightarrow> int \<Rightarrow> int
     \<Rightarrow> relay_memory \<Rightarrow> relay_world \<Rightarrow> (relay_result \<times> relay_line list) option \<times> relay_memory \<times> relay_world"
where
  "run_outbox_relay_sweep service topology locked crash depth now marked_at m w =
     (let lag = measure_outbox_lag now (rw_rows w) in
      case claim_and_send service topology locked crash marked_at w of
        (None, w') \<Rightarrow> (None, m, w')
      | (Some (k, r), w') \<Rightarrow>
          (case report_lag lag m of
             (lag_lines, m1) \<Rightarrow>
               (case report_dead_letters topology depth m1 of
                  (dlq_lines, m2) \<Rightarrow>
                    (Some (r, RunLine (sr_claimed r) (sr_published r) (sr_sent r) (length (sr_failed r))
                        (queue_counts topology (tc_delivered k) depth) # lag_lines @ dlq_lines),
                     m2, w'))))"

end
