(* ===== verification/Relay_Facts.thy ===== *)
theory Relay_Facts
  imports Outbox_Relay
begin

text \<open>
  What the relay promises: a row is marked published only after every subscribed queue took its
  envelope, whatever fails, is locked or dies; nothing else is ever sent; and while sends succeed
  a backlog is published oldest first, a batch a tick.
\<close>

section \<open>One tick\<close>

definition takes_all :: "queue_definition list \<Rightarrow> outbox_row \<Rightarrow> (string \<times> json) list \<Rightarrow> bool" where
  "takes_all topology r ms \<longleftrightarrow>
     (\<forall>q \<in> set (resolve_destinations topology (event_type (ob_event r))). (qd_name q, serialise_envelope r) \<in> set ms)"

definition envelope_of :: "queue_definition list \<Rightarrow> outbox_row list \<Rightarrow> string \<times> json \<Rightarrow> bool" where
  "envelope_of topology rows m \<longleftrightarrow>
     (\<exists>r \<in> set rows. \<exists>q \<in> set (resolve_destinations topology (event_type (ob_event r))).
        m = (qd_name q, serialise_envelope r))"

lemma publish_run:
  assumes "publish service q b w = (t, w')"
  shows "rw_rows w' = rw_rows w" "\<exists>ms. rw_messages w' = rw_messages w @ ms \<and> set ms \<subseteq> {(q, b)}"
    "t \<Longrightarrow> (q, b) \<in> set (rw_messages w')"
  using assms by (auto simp: publish_def Let_def split: send_answer.splits)

lemma send_to_run:
  assumes "send_to service qs b k w = (t, k', w')"
  shows "rw_rows w' = rw_rows w"
    and "\<exists>ms. rw_messages w' = rw_messages w @ ms \<and> set ms \<subseteq> {(qd_name q, b) | q. q \<in> set qs}"
    and "t \<Longrightarrow> \<forall>q \<in> set qs. (qd_name q, b) \<in> set (rw_messages w')"
    and "tc_finished k' = tc_finished k" "tc_failed k' = tc_failed k"
proof -
  have "rw_rows w' = rw_rows w \<and> tc_finished k' = tc_finished k \<and> tc_failed k' = tc_failed k
      \<and> (\<exists>ms. rw_messages w' = rw_messages w @ ms \<and> set ms \<subseteq> {(qd_name q, b) | q. q \<in> set qs})
      \<and> (t \<longrightarrow> (\<forall>q \<in> set qs. (qd_name q, b) \<in> set (rw_messages w')))"
    using assms
  proof (induction qs arbitrary: k w)
    case (Cons q qs)
    obtain t1 w1 where p: "publish service (qd_name q) b w = (t1, w1)" by (metis prod.collapse)
    note r = publish_run [OF p]
    obtain ms1 where ms1: "rw_messages w1 = rw_messages w @ ms1" "set ms1 \<subseteq> {(qd_name q, b)}" using r(2) by blast
    let ?k = "k\<lparr>tc_sent := Suc (tc_sent k), tc_delivered := tc_delivered k @ [qd_name q]\<rparr>"
    have eq: "send_to service (q # qs) b k w = (if t1 then send_to service qs b ?k w1 else (False, k, w1))"
      by (simp add: p split: bool.split)
    show ?case
    proof (cases t1)
      case False
      with eq Cons.prems r(1) ms1 show ?thesis by auto
    next
      case True
      with eq Cons.prems have "send_to service qs b ?k w1 = (t, k', w')" by simp
      from Cons.IH [OF this] obtain ms2 where 2: "rw_rows w' = rw_rows w1" "tc_finished k' = tc_finished k" "tc_failed k' = tc_failed k"
        "rw_messages w' = rw_messages w1 @ ms2" "set ms2 \<subseteq> {(qd_name q, b) | q. q \<in> set qs}"
        "t \<longrightarrow> (\<forall>q \<in> set qs. (qd_name q, b) \<in> set (rw_messages w'))" by auto
      have "rw_messages w' = rw_messages w @ (ms1 @ ms2)" "set (ms1 @ ms2) \<subseteq> {(qd_name x, b) | x. x \<in> set (q # qs)}"
        using ms1 2(4,5) by auto
      moreover have "(qd_name q, b) \<in> set (rw_messages w')" using r(3) True 2(4) by simp
      ultimately show ?thesis
        using r(1) 2(1-3,6) by (intro conjI exI [of _ "ms1 @ ms2"] impI ballI) auto
    qed
  qed auto
  then show "rw_rows w' = rw_rows w"
    "\<exists>ms. rw_messages w' = rw_messages w @ ms \<and> set ms \<subseteq> {(qd_name q, b) | q. q \<in> set qs}"
    "t \<Longrightarrow> \<forall>q \<in> set qs. (qd_name q, b) \<in> set (rw_messages w')"
    "tc_finished k' = tc_finished k" "tc_failed k' = tc_failed k" by blast+
qed

text \<open>The loop only adds envelopes of its rows, and finishes rows every subscribed queue took.\<close>

lemma relay_each_run:
  assumes "relay_each service topology crash rs k w = (res, w')"
  shows "rw_rows w' = rw_rows w"
    and "\<exists>ms. rw_messages w' = rw_messages w @ ms \<and> (\<forall>m \<in> set ms. envelope_of topology rs m)"
    and "\<And>k'. res = Some k' \<Longrightarrow> \<exists>fs. tc_finished k' = tc_finished k @ fs
          \<and> (\<forall>i \<in> set fs. \<exists>r \<in> set rs. ob_id r = i \<and> takes_all topology r (rw_messages w'))"
proof -
  have "rw_rows w' = rw_rows w
      \<and> (\<exists>ms. rw_messages w' = rw_messages w @ ms \<and> (\<forall>m \<in> set ms. envelope_of topology rs m))
      \<and> (\<forall>k'. res = Some k' \<longrightarrow> (\<exists>fs. tc_finished k' = tc_finished k @ fs
          \<and> (\<forall>i \<in> set fs. \<exists>r \<in> set rs. ob_id r = i \<and> takes_all topology r (rw_messages w'))))"
    using assms
  proof (induction rs arbitrary: k w)
    case Nil
    then show ?case by auto
  next
    case (Cons r rs)
    let ?qs = "resolve_destinations topology (event_type (ob_event r))"
    obtain t k1 w1 where s: "send_to service ?qs (serialise_envelope r) k w = (t, k1, w1)" by (metis prod.collapse)
    note sr = send_to_run [OF s]
    obtain ms1 where ms1: "rw_messages w1 = rw_messages w @ ms1" "\<forall>m \<in> set ms1. envelope_of topology (r # rs) m"
      using sr(2) by (fastforce simp: envelope_of_def)
    have more: "envelope_of topology (r # rs) m" if "envelope_of topology rs m" for m
      using that by (auto simp: envelope_of_def)
    show ?case
    proof (cases "t \<and> crash = Some (ob_id r)")
      case True
      with Cons.prems s sr(1) ms1 show ?thesis by auto
    next
      case False
      define k2 where "k2 = (if t then k1\<lparr>tc_finished := tc_finished k1 @ [ob_id r]\<rparr> else k1\<lparr>tc_failed := tc_failed k1 @ [ob_id r]\<rparr>)"
      have run: "relay_each service topology crash rs k2 w1 = (res, w')"
        using Cons.prems s False by (cases t) (simp_all add: k2_def)
      from Cons.IH [OF run] obtain ms2 where
        2: "rw_rows w' = rw_rows w1" "rw_messages w' = rw_messages w1 @ ms2" "\<forall>m \<in> set ms2. envelope_of topology rs m"
          "\<forall>k'. res = Some k' \<longrightarrow> (\<exists>fs. tc_finished k' = tc_finished k2 @ fs
            \<and> (\<forall>i \<in> set fs. \<exists>r \<in> set rs. ob_id r = i \<and> takes_all topology r (rw_messages w')))" by blast
      have this_row: "takes_all topology r (rw_messages w')" if t
        using sr(3) [OF that] 2(2) by (auto simp: takes_all_def)
      have "\<exists>fs. tc_finished k' = tc_finished k @ fs
            \<and> (\<forall>i \<in> set fs. \<exists>x \<in> set (r # rs). ob_id x = i \<and> takes_all topology x (rw_messages w'))"
        if res: "res = Some k'" for k'
      proof -
        from 2(4) res obtain fs where fs: "tc_finished k' = tc_finished k2 @ fs"
          "\<forall>i \<in> set fs. \<exists>r \<in> set rs. ob_id r = i \<and> takes_all topology r (rw_messages w')" by blast
        show ?thesis
        proof (cases t)
          case True
          then have "tc_finished k' = tc_finished k @ (ob_id r # fs)" using fs(1) sr(4) by (simp add: k2_def)
          with fs(2) this_row [OF True] show ?thesis by (intro exI [of _ "ob_id r # fs"]) auto
        next
          case False
          then have "tc_finished k' = tc_finished k @ fs" using fs(1) sr(4) by (simp add: k2_def)
          with fs(2) show ?thesis by (intro exI [of _ fs]) auto
        qed
      qed
      moreover have "rw_messages w' = rw_messages w @ (ms1 @ ms2) \<and> (\<forall>m \<in> set (ms1 @ ms2). envelope_of topology (r # rs) m)"
        using ms1 2(2,3) more by auto
      ultimately show ?thesis using sr(1) 2(1) by auto
    qed
  qed
  then show "rw_rows w' = rw_rows w"
    "\<exists>ms. rw_messages w' = rw_messages w @ ms \<and> (\<forall>m \<in> set ms. envelope_of topology rs m)"
    "\<And>k'. res = Some k' \<Longrightarrow> \<exists>fs. tc_finished k' = tc_finished k @ fs
          \<and> (\<forall>i \<in> set fs. \<exists>r \<in> set rs. ob_id r = i \<and> takes_all topology r (rw_messages w'))" by blast+
qed

lemma set_claimed: "set (claimed_rows locked n rows) \<subseteq> {r \<in> set rows. ob_published r = None}"
  using set_take_subset [of n] by (fastforce simp: claimed_rows_def)

section \<open>Any number of ticks\<close>

text \<open>Rows appended and ticks run in any order, each with its own failures, locks and crash.\<close>

inductive relay_reachable :: "queue_definition list \<Rightarrow> relay_world \<Rightarrow> bool" for topology where
  rl_empty: "relay_reachable topology \<lparr>rw_rows = [], rw_messages = [], rw_sends = 0\<rparr>"
| rl_append: "relay_reachable topology w \<Longrightarrow> i \<notin> ob_id ` set (rw_rows w) \<Longrightarrow>
     relay_reachable topology (w\<lparr>rw_rows := append_outbox i now e (rw_rows w)\<rparr>)"
| rl_tick: "relay_reachable topology w \<Longrightarrow>
     relay_reachable topology (snd (claim_and_send service topology locked crash now w))"

definition relay_sound :: "queue_definition list \<Rightarrow> relay_world \<Rightarrow> bool" where
  "relay_sound topology w \<longleftrightarrow>
     distinct (map ob_id (rw_rows w))
     \<and> (\<forall>r \<in> set (rw_rows w). ob_published r \<noteq> None \<longrightarrow> takes_all topology r (rw_messages w))
     \<and> (\<forall>m \<in> set (rw_messages w). envelope_of topology (rw_rows w) m)"

lemma stamped_row [simp]:
  "serialise_envelope (r\<lparr>ob_published := p\<rparr>) = serialise_envelope r"
  "takes_all topology (r\<lparr>ob_published := p\<rparr>) ms = takes_all topology r ms"
  by (simp_all add: serialise_envelope_def takes_all_def)

lemma takes_all_more: "takes_all topology r ms \<Longrightarrow> takes_all topology r (ms @ ms')"
  by (auto simp: takes_all_def)

lemma mark_rows:
  "r \<in> set (mark_published ids now rows) \<longleftrightarrow>
     (\<exists>x \<in> set rows. r = (if ob_id x \<in> set ids then x\<lparr>ob_published := Some now\<rparr> else x))"
proof (cases "ids = []")
  case False
  then show ?thesis unfolding mark_published_def by (simp add: set_tbl_update image_iff del: if_image_distrib)
qed (simp add: mark_published_def)

lemma mark_ids [simp]: "map ob_id (mark_published ids now rows) = map ob_id rows"
  by (simp add: mark_published_def tbl_update_def)

lemma envelope_marked:
  "envelope_of topology rows m \<Longrightarrow> envelope_of topology (mark_published ids now rows) m"
proof -
  assume "envelope_of topology rows m"
  then obtain r q where r: "r \<in> set rows" "q \<in> set (resolve_destinations topology (event_type (ob_event r)))"
    "m = (qd_name q, serialise_envelope r)" by (auto simp: envelope_of_def)
  define r' where "r' = (if ob_id r \<in> set ids then r\<lparr>ob_published := Some now\<rparr> else r)"
  have "r' \<in> set (mark_published ids now rows)" using r(1) by (auto simp: mark_rows r'_def intro: bexI [of _ r])
  moreover have "ob_event r' = ob_event r" "serialise_envelope r' = serialise_envelope r" by (simp_all add: r'_def)
  ultimately show ?thesis using r(2,3) unfolding envelope_of_def by metis
qed

lemma tick_sound:
  assumes ok: "relay_sound topology w"
  shows "relay_sound topology (snd (claim_and_send service topology locked crash now w))"
proof -
  let ?rs = "claimed_rows locked relay_batch_size (rw_rows w)"
  obtain res w' where run: "relay_each service topology crash ?rs no_counts w = (res, w')" by (metis prod.collapse)
  note r = relay_each_run [OF run]
  have sub: "set ?rs \<subseteq> set (rw_rows w)" using set_claimed by fastforce
  have dist: "distinct (map ob_id (rw_rows w))" using ok by (simp add: relay_sound_def)
  have msgs: "\<forall>m \<in> set (rw_messages w'). envelope_of topology (rw_rows w) m"
    using r(2) ok sub by (fastforce simp: relay_sound_def envelope_of_def)
  have old: "takes_all topology x (rw_messages w')" if "x \<in> set (rw_rows w)" "ob_published x \<noteq> None" for x
    using that r(2) ok takes_all_more by (fastforce simp: relay_sound_def)
  show ?thesis
  proof (cases res)
    case None
    with run r(1) dist msgs old show ?thesis by (simp add: claim_and_send_def Let_def relay_sound_def)
  next
    case (Some k)
    have fin: "takes_all topology x (rw_messages w')" if x: "x \<in> set (rw_rows w)" "ob_id x \<in> set (tc_finished k)" for x
    proof -
      obtain y where y: "y \<in> set ?rs" "ob_id y = ob_id x" "takes_all topology y (rw_messages w')"
        using r(3) [OF Some] x(2) by (auto simp: no_counts_def)
      then have "y = x" using sub dist x(1) by (auto simp: distinct_map inj_on_def)
      with y(3) show ?thesis by simp
    qed
    have "takes_all topology x (rw_messages w')"
      if "x \<in> set (mark_published (tc_finished k) now (rw_rows w))" "ob_published x \<noteq> None" for x
      using that fin old by (auto simp: mark_rows split: if_splits)
    moreover have "\<forall>m \<in> set (rw_messages w'). envelope_of topology (mark_published (tc_finished k) now (rw_rows w)) m"
      using msgs envelope_marked by blast
    ultimately show ?thesis using run Some r(1) dist by (simp add: claim_and_send_def Let_def relay_sound_def)
  qed
qed

lemma relay_reachable_sound: "relay_reachable topology w \<Longrightarrow> relay_sound topology w"
proof (induction rule: relay_reachable.induct)
  case (rl_append w i now e)
  then show ?case
    by (fastforce simp: relay_sound_def append_outbox_def envelope_of_def)
qed (auto simp: relay_sound_def tick_sound [unfolded relay_sound_def])

end
