(* ===== verification/Relay_Properties.thy ===== *)
theory Relay_Properties
  imports Relay_Facts
begin

text \<open>
  The relay's promises as properties: delivery before publication over any run, the draining of a
  backlog, and what a backlog of rows whose sends fail does to the rows behind it.
\<close>

text \<open>
  C37: after any interleaving of appended events and ticks, with whatever sends refused or left
  without a reply, rows locked elsewhere and ticks that died before their commit, a row marked
  published was taken by every queue subscribed to its event, every message is the envelope of a
  row for a queue subscribed to it, and no row is lost.
\<close>

theorem published_means_delivered:
  assumes "relay_reachable topology w"
  shows "(\<forall>r \<in> set (rw_rows w). ob_published r \<noteq> None \<longrightarrow>
        (\<forall>q \<in> set (resolve_destinations topology (event_type (ob_event r))).
           (qd_name q, serialise_envelope r) \<in> set (rw_messages w)))
    \<and> (\<forall>m \<in> set (rw_messages w). \<exists>r \<in> set (rw_rows w).
        \<exists>q \<in> set (resolve_destinations topology (event_type (ob_event r))). m = (qd_name q, serialise_envelope r))
    \<and> map ob_id (rw_rows (snd (claim_and_send service topology locked crash now w))) = map ob_id (rw_rows w)"
proof -
  have "relay_sound topology w" by (rule relay_reachable_sound [OF assms])
  moreover have "map ob_id (rw_rows (snd (claim_and_send service topology locked crash now w))) = map ob_id (rw_rows w)"
    using relay_each_run(1) by (auto simp: claim_and_send_def Let_def split: prod.splits option.splits)
  ultimately show ?thesis by (auto simp: relay_sound_def takes_all_def envelope_of_def)
qed

definition ping :: outbox_event where
  "ping = \<lparr>event_type = ''relay.VerificationPing.v1'', aggregate_type = ''Relay'', aggregate_id = ''a'',
     payload = [], ev_correlation_id = ''c''\<rparr>"

definition unheard :: outbox_event where
  "unheard = \<lparr>event_type = ''family.FamilyCreated.v1'', aggregate_type = ''Family'', aggregate_id = ''f'',
     payload = [], ev_correlation_id = ''c''\<rparr>"

definition two_events :: relay_world where
  "two_events = \<lparr>rw_rows = append_outbox ''e2'' 20 unheard (append_outbox ''e1'' 10 ping []), rw_messages = [], rw_sends = 0\<rparr>"

lemma two_events_reachable: "relay_reachable topology two_events"
proof -
  have "relay_reachable topology (\<lparr>rw_rows = [], rw_messages = [], rw_sends = 0\<rparr>\<lparr>rw_rows := append_outbox ''e1'' 10 ping []\<rparr>)"
    using rl_append [OF rl_empty, of "''e1''" topology 10 ping] by simp
  from rl_append [OF this, of "''e2''" 20 unheard] show ?thesis
    by (simp add: two_events_def append_outbox_def)
qed

theorem published_means_delivered_witness:
  "\<exists>w. relay_reachable queue_topology w \<and> map ob_published (rw_rows w) = [None, Some 30]
    \<and> length (rw_messages w) = 1
    \<and> (\<exists>r \<in> set (rw_rows w). snd (hd (rw_messages w)) = serialise_envelope r)"
proof -
  let ?w = "snd (claim_and_send (\<lambda>_. StoredWithoutReply) queue_topology [] None 30 two_events)"
  have w: "relay_reachable queue_topology ?w" by (rule rl_tick [OF two_events_reachable])
  have "map ob_published (rw_rows ?w) = [None, Some 30]" "length (rw_messages ?w) = 1"
    by (simp_all add: two_events_def append_outbox_def ping_def unheard_def claim_and_send_def claimed_rows_def
        relay_batch_size_def no_counts_def resolve_destinations_def queue_topology_def publish_def mark_published_def
        tbl_update_def)
  moreover have "hd (rw_messages ?w) \<in> set (rw_messages ?w)"
    by (simp add: two_events_def append_outbox_def ping_def unheard_def claim_and_send_def claimed_rows_def
        relay_batch_size_def no_counts_def resolve_destinations_def queue_topology_def publish_def mark_published_def
        tbl_update_def)
  then obtain r and q :: queue_definition
    where "r \<in> set (rw_rows ?w)" "hd (rw_messages ?w) = (qd_name q, serialise_envelope r)"
    using published_means_delivered [OF w] by blast
  then have "\<exists>r \<in> set (rw_rows ?w). snd (hd (rw_messages ?w)) = serialise_envelope r" by (intro bexI [of _ r]) simp_all
  ultimately show ?thesis using w by (intro exI [of _ ?w] conjI)
qed

section \<open>A backlog\<close>

definition unpublished :: "relay_world \<Rightarrow> outbox_row list" where
  "unpublished w = filter (\<lambda>r. ob_published r = None) (rw_rows w)"

fun ticks :: "queue_service \<Rightarrow> queue_definition list \<Rightarrow> int list \<Rightarrow> relay_world \<Rightarrow> relay_world" where
  "ticks service topology [] w = w"
| "ticks service topology (t # ts) w = ticks service topology ts (snd (claim_and_send service topology [] None t w))"

lemma accepted_send:
  assumes "\<forall>n. service n = SendAccepted"
  shows "\<exists>k' w'. send_to service qs b k w = (True, k', w')"
  by (induction qs arbitrary: k w) (auto simp: publish_def Let_def assms [rule_format])

lemma accepted_each:
  assumes "\<forall>n. service n = SendAccepted"
  shows "\<exists>k' w'. relay_each service topology None rs k w = (Some k', w') \<and> tc_finished k' = tc_finished k @ map ob_id rs"
proof (induction rs arbitrary: k w)
  case (Cons r rs)
  obtain k1 w1 where s: "send_to service (resolve_destinations topology (event_type (ob_event r))) (serialise_envelope r) k w
      = (True, k1, w1)" using accepted_send [OF assms] by blast
  from Cons.IH [of "k1\<lparr>tc_finished := tc_finished k1 @ [ob_id r]\<rparr>" w1] s send_to_run(4) [OF s] show ?case by auto
qed simp

text \<open>The rows after the first \<open>n\<close> of a sorted list are those not among them.\<close>

lemma length_filter_sorted: "length (filter P (sort_key f xs)) = length (filter P xs)"
  by (simp add: filter_sort)

lemma filter_not_taken:
  "distinct (map f xs) \<Longrightarrow> filter (\<lambda>x. f x \<notin> f ` set (take n xs)) xs = drop n xs"
proof (induction xs arbitrary: n)
  case (Cons x xs)
  show ?case
  proof (cases n)
    case (Suc m)
    have "filter (\<lambda>y. f y \<noteq> f x \<and> f y \<notin> f ` set (take m xs)) xs = filter (\<lambda>y. f y \<notin> f ` set (take m xs)) xs"
      using Cons.prems by (intro filter_cong) (auto simp: image_iff)
    with Suc Cons show ?thesis by simp
  qed simp
qed simp

lemma accepted_tick:
  assumes ok: "relay_sound topology w" and s: "\<forall>n. service n = SendAccepted"
  defines "first \<equiv> claimed_rows [] relay_batch_size (rw_rows w)"
  shows "unpublished (snd (claim_and_send service topology [] None t w)) = filter (\<lambda>r. ob_id r \<notin> ob_id ` set first) (unpublished w)"
    and "rw_rows (snd (claim_and_send service topology [] None t w)) = mark_published (map ob_id first) t (rw_rows w)"
proof -
  obtain k' w' where run: "relay_each service topology None first no_counts w = (Some k', w')"
    "tc_finished k' = map ob_id first"
    using accepted_each [OF s, of topology first no_counts w] by (auto simp: no_counts_def)
  have "rw_rows w' = rw_rows w" by (rule relay_each_run(1) [OF run(1)])
  with run show rows: "rw_rows (snd (claim_and_send service topology [] None t w)) = mark_published (map ob_id first) t (rw_rows w)"
    by (simp add: claim_and_send_def Let_def first_def)
  have "filter (\<lambda>r. ob_published r = None) (mark_published ids t rows) = filter (\<lambda>r. ob_id r \<notin> set ids) (filter (\<lambda>r. ob_published r = None) rows)"
    for ids rows
    by (induction rows) (auto simp: mark_published_def tbl_update_def)
  then show "unpublished (snd (claim_and_send service topology [] None t w)) = filter (\<lambda>r. ob_id r \<notin> ob_id ` set first) (unpublished w)"
    by (simp add: unpublished_def rows)
qed

text \<open>
  C38: while every send is accepted a backlog drains by a hundred rows a tick, oldest first: after
  enough ticks no row is unpublished.
\<close>

theorem backlog_drains:
  assumes reach: "relay_reachable topology w" and s: "\<forall>n. service n = SendAccepted"
  shows "length (unpublished (ticks service topology ts w)) = length (unpublished w) - 100 * length ts
    \<and> set (unpublished (ticks service topology ts w)) \<subseteq> set (unpublished w)
    \<and> (\<forall>r \<in> set (unpublished w) - set (unpublished (ticks service topology ts w)).
         \<forall>x \<in> set (unpublished (ticks service topology ts w)). ob_occurred r \<le> ob_occurred x)"
  using reach
proof (induction ts arbitrary: w)
  case (Cons t ts)
  let ?w = "snd (claim_and_send service topology [] None t w)"
  let ?S = "sort_key ob_occurred (unpublished w)"
  define first where "first = claimed_rows [] relay_batch_size (rw_rows w)"
  have first: "first = take 100 ?S" by (simp add: first_def claimed_rows_def relay_batch_size_def unpublished_def)
  note ok = relay_reachable_sound [OF Cons.prems]
  have left: "unpublished ?w = filter (\<lambda>r. ob_id r \<notin> ob_id ` set first) (unpublished w)"
    unfolding first_def by (rule accepted_tick(1) [OF ok s])
  have "distinct (map ob_id (unpublished w))"
    using ok by (auto simp: relay_sound_def unpublished_def intro: distinct_map_filter)
  then have "distinct (map ob_id ?S)" by (simp add: distinct_map)
  then have drop: "filter (\<lambda>r. ob_id r \<notin> ob_id ` set first) ?S = drop 100 ?S" unfolding first by (rule filter_not_taken)
  have "length (unpublished ?w) = length (filter (\<lambda>r. ob_id r \<notin> ob_id ` set first) ?S)"
    unfolding left length_filter_sorted ..
  then have len: "length (unpublished ?w) = length (unpublished w) - 100" by (simp add: drop)
  have rest: "set (unpublished ?w) = set (drop 100 ?S)" unfolding left by (simp add: drop [symmetric])
  have taken: "r \<in> set (take 100 ?S)" if "r \<in> set (unpublished w)" "r \<notin> set (unpublished ?w)" for r
  proof -
    have "r \<in> set (take 100 ?S @ drop 100 ?S)" using that(1) by simp
    with that(2) rest show ?thesis by (simp only: set_append) blast
  qed
  have "sorted (map ob_occurred (take 100 ?S @ drop 100 ?S))" by simp
  then have before: "ob_occurred r \<le> ob_occurred x" if "r \<in> set (take 100 ?S)" "x \<in> set (drop 100 ?S)" for r x
    using that by (simp only: map_append sorted_append set_map) blast
  note IH = Cons.IH [OF rl_tick [OF Cons.prems], of service "[]" None t]
  have sub: "set (unpublished ?w) \<subseteq> set (unpublished w)" unfolding left by auto
  show ?case
  proof (intro conjI ballI)
    show "length (unpublished (ticks service topology (t # ts) w)) = length (unpublished w) - 100 * length (t # ts)"
      using IH len by simp
    show "set (unpublished (ticks service topology (t # ts) w)) \<subseteq> set (unpublished w)" using IH sub by auto
    fix r x assume r: "r \<in> set (unpublished w) - set (unpublished (ticks service topology (t # ts) w))"
      and x: "x \<in> set (unpublished (ticks service topology (t # ts) w))"
    show "ob_occurred r \<le> ob_occurred x"
    proof (cases "r \<in> set (unpublished ?w)")
      case True
      with r x IH show ?thesis by auto
    next
      case False
      with r taken have "r \<in> set (take 100 ?S)" by blast
      moreover have "x \<in> set (drop 100 ?S)" using x IH rest by auto
      ultimately show ?thesis by (rule before)
    qed
  qed
qed simp

theorem backlog_drains_witness:
  "length (unpublished two_events) = 2 \<and> unpublished (ticks (\<lambda>_. SendAccepted) queue_topology [30] two_events) = []"
proof -
  have "length (unpublished two_events) = 2" by code_simp
  with backlog_drains [OF two_events_reachable, of "\<lambda>_. SendAccepted" queue_topology "[30]"] show ?thesis by simp
qed

section \<open>A backlog that cannot be sent\<close>

lemma refused_each:
  assumes s: "\<forall>n. service n = SendRefused" and d: "\<forall>r \<in> set rs. resolve_destinations topology (event_type (ob_event r)) \<noteq> []"
  shows "\<exists>k' w'. relay_each service topology crash rs k w = (Some k', w') \<and> tc_finished k' = tc_finished k"
  using d
proof (induction rs arbitrary: k w)
  case (Cons r rs)
  then obtain q qs where "resolve_destinations topology (event_type (ob_event r)) = q # qs" by (cases "resolve_destinations topology (event_type (ob_event r))") auto
  with Cons.IH [of "k\<lparr>tc_failed := tc_failed k @ [ob_id r]\<rparr>" "w\<lparr>rw_sends := Suc (rw_sends w)\<rparr>"] Cons.prems show ?case
    by (auto simp: publish_def Let_def s [rule_format])
qed simp

text \<open>
  When the oldest hundred unpublished rows all need a queue that refuses them, no tick ever
  reaches a row behind them, not even one that needs no queue.
\<close>

lemma refused_batch_starves:
  assumes s: "\<forall>n. service n = SendRefused"
    and d: "\<forall>r \<in> set (claimed_rows [] relay_batch_size (rw_rows w)). resolve_destinations topology (event_type (ob_event r)) \<noteq> []"
  shows "rw_rows (ticks service topology ts w) = rw_rows w"
  using d
proof (induction ts arbitrary: w)
  case (Cons t ts)
  obtain k' w' where run: "relay_each service topology None (claimed_rows [] relay_batch_size (rw_rows w)) no_counts w = (Some k', w')"
    "tc_finished k' = []"
    using refused_each [OF s Cons.prems, of None no_counts w] by (auto simp: no_counts_def)
  then have rows: "rw_rows (snd (claim_and_send service topology [] None t w)) = rw_rows w"
    using relay_each_run(1) [OF run(1)] by (simp add: claim_and_send_def Let_def mark_published_def)
  with Cons.IH [of "snd (claim_and_send service topology [] None t w)"] Cons.prems show ?case by simp
qed simp

end
