(* ===== verification/Event_Consumer.thy ===== *)
theory Event_Consumer
  imports Relay_Properties
begin

text \<open>
  The idempotent consumer, \<open>packages/platform/src/sqs-consumer.ts\<close>, over the ledger of processed
  events (\<open>processed-event.repository.ts\<close>). The queue service hands a poll any batch of messages,
  repeats included; the handler is a parameter that returns or throws. A poll may die after the
  handler of the message \<open>crash\<close> names returned and before the ledger is written.
\<close>

section \<open>The ledger\<close>

type_synonym ledger = "(string \<times> string) list"

definition was_processed :: "string \<Rightarrow> string \<Rightarrow> ledger \<Rightarrow> bool" where
  "was_processed queue i l \<longleftrightarrow> (queue, i) \<in> set l"

definition mark_processed :: "string \<Rightarrow> string \<Rightarrow> ledger \<Rightarrow> ledger" where
  "mark_processed queue i l = (if (queue, i) \<in> set l then l else l @ [(queue, i)])"

section \<open>Messages\<close>

datatype message_body = NoBody | NotJson | Body json

record queue_message =
  qm_body :: message_body
  qm_receipt :: "string option"

text \<open>The envelope's \<open>eventId\<close>: a text property of an object; of a property given twice the last counts.\<close>

definition parse_envelope :: "json \<Rightarrow> string option" where
  "parse_envelope j =
     (case j of
        JObject ps \<Rightarrow> (case map_of (rev ps) ''eventId'' of Some (JString i) \<Rightarrow> Some i | _ \<Rightarrow> None)
      | _ \<Rightarrow> None)"

section \<open>Polling\<close>

record 's consumer =
  cn_ledger :: ledger
  cn_app :: 's
  cn_acked :: "string list"

record poll_counts =
  pc_handled :: "string list"
  pc_duplicates :: nat
  pc_failed :: nat

definition acked :: "string \<Rightarrow> 's consumer \<Rightarrow> 's consumer" where
  "acked receipt s = s\<lparr>cn_acked := cn_acked s @ [receipt]\<rparr>"

definition readable :: "queue_message \<Rightarrow> (string \<times> string \<times> json) option" where
  "readable m =
     (case (qm_body m, qm_receipt m) of
        (Body j, Some receipt) \<Rightarrow> map_option (\<lambda>i. (i, receipt, j)) (parse_envelope j)
      | _ \<Rightarrow> None)"

text \<open>The handled events are kept by id; \<open>None\<close> is a poll that died.\<close>

fun poll_each ::
  "(json \<Rightarrow> 's \<Rightarrow> bool \<times> 's) \<Rightarrow> string \<Rightarrow> string option \<Rightarrow> queue_message list \<Rightarrow> poll_counts \<Rightarrow> 's consumer
     \<Rightarrow> (poll_counts \<times> bool) \<times> 's consumer"
where
  "poll_each handler queue crash [] k s = ((k, True), s)"
| "poll_each handler queue crash (m # ms) k s =
     (case readable m of
        None \<Rightarrow> poll_each handler queue crash ms (k\<lparr>pc_failed := Suc (pc_failed k)\<rparr>) s
      | Some (i, receipt, j) \<Rightarrow>
          if was_processed queue i (cn_ledger s) then
            poll_each handler queue crash ms (k\<lparr>pc_duplicates := Suc (pc_duplicates k)\<rparr>) (acked receipt s)
          else
            (case handler j (cn_app s) of
               (False, app) \<Rightarrow>
                 poll_each handler queue crash ms (k\<lparr>pc_failed := Suc (pc_failed k)\<rparr>) (s\<lparr>cn_app := app\<rparr>)
             | (True, app) \<Rightarrow>
                 let k' = k\<lparr>pc_handled := pc_handled k @ [i]\<rparr> in
                 if crash = Some receipt then ((k', False), s\<lparr>cn_app := app\<rparr>)
                 else
                   poll_each handler queue crash ms k'
                     (acked receipt (s\<lparr>cn_app := app, cn_ledger := mark_processed queue i (cn_ledger s)\<rparr>))))"

definition no_polls :: poll_counts where
  "no_polls = \<lparr>pc_handled = [], pc_duplicates = 0, pc_failed = 0\<rparr>"

definition poll_once ::
  "(json \<Rightarrow> 's \<Rightarrow> bool \<times> 's) \<Rightarrow> string \<Rightarrow> string option \<Rightarrow> queue_message list \<Rightarrow> 's consumer
     \<Rightarrow> (poll_counts \<times> bool) \<times> 's consumer"
where
  "poll_once handler queue crash messages s = poll_each handler queue crash messages no_polls s"

section \<open>Any number of polls\<close>

text \<open>The events whose handler returned, poll after poll, and the state after.\<close>

fun polls ::
  "(json \<Rightarrow> 's \<Rightarrow> bool \<times> 's) \<Rightarrow> string \<Rightarrow> (string option \<times> queue_message list) list \<Rightarrow> 's consumer
     \<Rightarrow> string list \<times> 's consumer"
where
  "polls handler queue [] s = ([], s)"
| "polls handler queue (p # ps) s =
     (case poll_once handler queue (fst p) (snd p) s of
        ((k, _), s') \<Rightarrow> (case polls handler queue ps s' of (hs, s'') \<Rightarrow> (pc_handled k @ hs, s'')))"

definition events_of :: "string \<Rightarrow> ledger \<Rightarrow> string set" where
  "events_of queue l = {i. (queue, i) \<in> set l}"

lemma events_of_mark [simp]: "events_of queue (mark_processed queue i l) = insert i (events_of queue l)"
  by (auto simp: events_of_def mark_processed_def)

lemma was_processed_iff: "was_processed queue i l \<longleftrightarrow> i \<in> events_of queue l"
  by (simp add: was_processed_def events_of_def)

lemma acked_simps [simp]: "cn_ledger (acked r s) = cn_ledger s" "cn_acked (acked r s) = cn_acked s @ [r]"
  by (simp_all add: acked_def)

text \<open>
  One poll: the new handled events were not in the ledger and, unless the poll died, are in it
  after, each once; what it acknowledges it has handled now or before.
\<close>

lemma poll_each_run:
  assumes "poll_each handler queue crash ms k s = ((k', alive), s')"
  shows "\<exists>hs as. pc_handled k' = pc_handled k @ hs \<and> cn_acked s' = cn_acked s @ as
    \<and> distinct hs \<and> set hs \<inter> events_of queue (cn_ledger s) = {}
    \<and> events_of queue (cn_ledger s') \<subseteq> events_of queue (cn_ledger s) \<union> set hs
    \<and> events_of queue (cn_ledger s) \<subseteq> events_of queue (cn_ledger s')
    \<and> (alive \<longrightarrow> set hs \<subseteq> events_of queue (cn_ledger s'))
    \<and> (alive \<or> (\<exists>m \<in> set ms. crash = qm_receipt m \<and> crash \<noteq> None))
    \<and> (\<forall>a \<in> set as. \<exists>m \<in> set ms. \<exists>i j. readable m = Some (i, a, j) \<and> i \<in> events_of queue (cn_ledger s'))"
  using assms
proof (induction ms arbitrary: k s)
  case Nil
  then show ?case by (intro exI [of _ "[]"]) auto
next
  case (Cons m ms)
  show ?case
  proof (cases "readable m")
    case None
    with Cons.prems have "poll_each handler queue crash ms (k\<lparr>pc_failed := Suc (pc_failed k)\<rparr>) s = ((k', alive), s')" by simp
    from Cons.IH [OF this] show ?thesis by fastforce
  next
    case (Some r)
    obtain i receipt j where r: "r = (i, receipt, j)" by (metis prod.collapse)
    have rec: "qm_receipt m = Some receipt"
      using Some r by (auto simp: readable_def split: message_body.splits option.splits)
    consider (dup) "was_processed queue i (cn_ledger s)"
      | (fail) app where "\<not> was_processed queue i (cn_ledger s)" "handler j (cn_app s) = (False, app)"
      | (died) app where "\<not> was_processed queue i (cn_ledger s)" "handler j (cn_app s) = (True, app)" "crash = Some receipt"
      | (done_) app where "\<not> was_processed queue i (cn_ledger s)" "handler j (cn_app s) = (True, app)" "crash \<noteq> Some receipt"
      by (metis (full_types) prod.collapse)
    then show ?thesis
    proof cases
      case dup
      with Cons.prems Some r have "poll_each handler queue crash ms (k\<lparr>pc_duplicates := Suc (pc_duplicates k)\<rparr>) (acked receipt s) = ((k', alive), s')"
        by simp
      from Cons.IH [OF this] obtain hs as where h: "pc_handled k' = pc_handled k @ hs" "cn_acked s' = (cn_acked s @ [receipt]) @ as"
        "distinct hs" "set hs \<inter> events_of queue (cn_ledger s) = {}"
        "events_of queue (cn_ledger s') \<subseteq> events_of queue (cn_ledger s) \<union> set hs"
        "events_of queue (cn_ledger s) \<subseteq> events_of queue (cn_ledger s')"
        "alive \<longrightarrow> set hs \<subseteq> events_of queue (cn_ledger s')" "alive \<or> (\<exists>m \<in> set ms. crash = qm_receipt m \<and> crash \<noteq> None)"
        "\<forall>a \<in> set as. \<exists>m \<in> set ms. \<exists>i j. readable m = Some (i, a, j) \<and> i \<in> events_of queue (cn_ledger s')" by auto
      have "i \<in> events_of queue (cn_ledger s')" using dup h(6) by (auto simp: was_processed_iff)
      with h Some r show ?thesis by (intro exI [of _ hs] exI [of _ "receipt # as"]) auto
    next
      case (fail app)
      with Cons.prems Some r have "poll_each handler queue crash ms (k\<lparr>pc_failed := Suc (pc_failed k)\<rparr>) (s\<lparr>cn_app := app\<rparr>) = ((k', alive), s')"
        by simp
      from Cons.IH [OF this] show ?thesis by fastforce
    next
      case (died app)
      with Cons.prems Some r have "k' = k\<lparr>pc_handled := pc_handled k @ [i]\<rparr>" "s' = s\<lparr>cn_app := app\<rparr>" "\<not> alive" by auto
      with died rec show ?thesis by (intro exI [of _ "[i]"] exI [of _ "[]"]) (auto simp: was_processed_iff)
    next
      case (done_ app)
      let ?s = "acked receipt (s\<lparr>cn_app := app, cn_ledger := mark_processed queue i (cn_ledger s)\<rparr>)"
      from done_ Cons.prems Some r have "poll_each handler queue crash ms (k\<lparr>pc_handled := pc_handled k @ [i]\<rparr>) ?s = ((k', alive), s')"
        by (simp add: Let_def)
      from Cons.IH [OF this] obtain hs as where h: "pc_handled k' = (pc_handled k @ [i]) @ hs" "cn_acked s' = (cn_acked s @ [receipt]) @ as"
        "distinct hs" "set hs \<inter> insert i (events_of queue (cn_ledger s)) = {}"
        "events_of queue (cn_ledger s') \<subseteq> insert i (events_of queue (cn_ledger s)) \<union> set hs"
        "insert i (events_of queue (cn_ledger s)) \<subseteq> events_of queue (cn_ledger s')"
        "alive \<longrightarrow> set hs \<subseteq> events_of queue (cn_ledger s')" "alive \<or> (\<exists>m \<in> set ms. crash = qm_receipt m \<and> crash \<noteq> None)"
        "\<forall>a \<in> set as. \<exists>m \<in> set ms. \<exists>i j. readable m = Some (i, a, j) \<and> i \<in> events_of queue (cn_ledger s')" by auto
      with Some r done_(1) show ?thesis
        by (intro exI [of _ "i # hs"] exI [of _ "receipt # as"]) (auto simp: was_processed_iff)
    qed
  qed
qed

lemma poll_each_handles_all:
  assumes "poll_each handler queue None ms k s = ((k', alive), s')" "\<forall>j a. fst (handler j a)"
    "m \<in> set ms" "readable m = Some (i, receipt, j)"
  shows "i \<in> events_of queue (cn_ledger s')"
  using assms(1,3)
proof (induction ms arbitrary: k s)
  case (Cons x ms)
  have keep: "events_of queue (cn_ledger s1) \<subseteq> events_of queue (cn_ledger s')"
    if "poll_each handler queue None ms k1 s1 = ((k', alive), s')" for k1 s1
    using poll_each_run [OF that] by blast
  show ?case
  proof (cases "readable x")
    case None
    with Cons assms(4) show ?thesis by auto
  next
    case (Some r)
    obtain y rc b where r: "r = (y, rc, b)" by (metis prod.collapse)
    obtain app where app: "handler b (cn_app s) = (True, app)" using assms(2) by (metis (full_types) prod.collapse)
    define s1 where "s1 = (if was_processed queue y (cn_ledger s) then acked rc s
      else acked rc (s\<lparr>cn_app := app, cn_ledger := mark_processed queue y (cn_ledger s)\<rparr>))"
    obtain k1 where run: "poll_each handler queue None ms k1 s1 = ((k', alive), s')"
      using Cons.prems(1) Some r app by (cases "was_processed queue y (cn_ledger s)") (auto simp: s1_def Let_def)
    have "y \<in> events_of queue (cn_ledger s1)" by (auto simp: s1_def was_processed_iff)
    with Cons.IH [OF run] keep [OF run] Cons.prems(2) Some r assms(4) show ?thesis by auto
  qed
qed simp

text \<open>Polls that do not die handle each event once and acknowledge what they handled.\<close>

lemma polls_run:
  assumes "polls handler queue ps s = (hs, s')" "\<forall>p \<in> set ps. fst p = None"
  shows "distinct hs \<and> set hs \<inter> events_of queue (cn_ledger s) = {}
    \<and> events_of queue (cn_ledger s') = events_of queue (cn_ledger s) \<union> set hs
    \<and> ((\<forall>j a. fst (handler j a)) \<longrightarrow> (\<forall>p \<in> set ps. \<forall>m \<in> set (snd p). \<forall>i r j. readable m = Some (i, r, j) \<longrightarrow>
         i \<in> events_of queue (cn_ledger s')))"
  using assms
proof (induction ps arbitrary: s hs)
  case (Cons p ps)
  obtain k alive s1 where run: "poll_once handler queue None (snd p) s = ((k, alive), s1)" by (metis prod.collapse)
  obtain hs2 where rest: "polls handler queue ps s1 = (hs2, s')" "hs = pc_handled k @ hs2"
    using Cons.prems run by (auto split: prod.splits)
  note r = poll_each_run [OF run [unfolded poll_once_def]]
  note IH = Cons.IH [OF rest(1)] and all = poll_each_handles_all [OF run [unfolded poll_once_def]]
  from r have 0: "distinct (pc_handled k)" "set (pc_handled k) \<inter> events_of queue (cn_ledger s) = {}"
    "events_of queue (cn_ledger s1) \<subseteq> events_of queue (cn_ledger s) \<union> set (pc_handled k)"
    "events_of queue (cn_ledger s) \<union> set (pc_handled k) \<subseteq> events_of queue (cn_ledger s1)"
    by (auto simp: no_polls_def)
  define hs1 where "hs1 = pc_handled k"
  have 1: "pc_handled k = hs1" "distinct hs1" "set hs1 \<inter> events_of queue (cn_ledger s) = {}"
    "events_of queue (cn_ledger s1) = events_of queue (cn_ledger s) \<union> set hs1"
    using 0 by (simp_all add: hs1_def subset_antisym)
  have 2: "distinct hs2" "set hs2 \<inter> events_of queue (cn_ledger s1) = {}"
    "events_of queue (cn_ledger s') = events_of queue (cn_ledger s1) \<union> set hs2"
    using IH Cons.prems(2) by auto
  show ?case
  proof (intro conjI impI ballI allI)
    fix q m i rc j assume h: "\<forall>j a. fst (handler j a)" and m: "q \<in> set (p # ps)" "m \<in> set (snd q)" "readable m = Some (i, rc, j)"
    show "i \<in> events_of queue (cn_ledger s')"
    proof (cases "q \<in> set ps")
      case True
      with IH Cons.prems(2) h m show ?thesis by auto
    next
      case False
      with m all [OF h, of m i rc j] 2(3) show ?thesis by auto
    qed
  qed (use 1 2 rest(2) in auto)
qed simp

lemma parse_serialised [simp]: "parse_envelope (serialise_envelope r) = Some (ob_id r)"
  by (simp add: parse_envelope_def serialise_envelope_def)



end
