(* ===== verification/Sweep_Scheduler.thy ===== *)
theory Sweep_Scheduler
  imports Kernel_Types
begin

text \<open>
  The worker's sweep scheduler, \<open>apps/worker/src/scheduler/scheduler.ts\<close>, with the registry of
  sweeps and the worker's environment. A scheduler is its sweeps' states; its steps are the calls
  the event loop makes: \<open>start\<close>, a timer that fires, a run that ends, \<open>stop\<close>. Instants are
  milliseconds; the trace keeps the sweeps it called and the lines it logged.
\<close>

section \<open>The registry and the environment\<close>

text \<open>A sweep's summary line is its counts, each between the words the registry puts around it.\<close>

record registered_sweep =
  rs_name :: string
  rs_cadence :: int
  rs_words :: "(string \<times> string) list"

definition run_summary :: "registered_sweep \<Rightarrow> int list \<Rightarrow> string" where
  "run_summary s counts =
     (case map2 (\<lambda>(prefix, suffix) n. prefix @ show_int n @ suffix) (rs_words s) counts of
        [] \<Rightarrow> []
      | part # parts \<Rightarrow> part @ concat (map (\<lambda>x. '', '' @ x) parts))"

definition sweeps_registry :: "registered_sweep list" where
  "sweeps_registry =
     [\<lparr>rs_name = ''erase-unverified'', rs_cadence = 3600, rs_words = [(''deleted '', '''')]\<rparr>,
      \<lparr>rs_name = ''erase-deleted-accounts'', rs_cadence = 3600, rs_words = [(''deleted '', '''')]\<rparr>,
      \<lparr>rs_name = ''erase-stale-sessions'', rs_cadence = 3600, rs_words = [(''deleted '', '''')]\<rparr>,
      \<lparr>rs_name = ''expire-invitations'', rs_cadence = 3600, rs_words = [(''expired '', '''')]\<rparr>,
      \<lparr>rs_name = ''guardian-coverage'', rs_cadence = 86400, rs_words = [(''uncovered '', '''')]\<rparr>,
      \<lparr>rs_name = ''materialise-occurrences'', rs_cadence = 3600,
         rs_words = [(''extended '', ''''), (''inserted '', ''''), (''pruned '', ''''), (''failed '', ''''), (''lagging families '', '''')]\<rparr>,
      \<lparr>rs_name = ''report-overdue-tasks'', rs_cadence = 60,
         rs_words = [(''reported '', ''''), (''skipped '', ''''), (''failed '', ''''), (''lag '', ''s'')]\<rparr>,
      \<lparr>rs_name = ''outbox-relay'', rs_cadence = 1,
         rs_words = [(''claimed '', ''''), (''published '', ''''), (''sent '', ''''), (''failed '', '''')]\<rparr>]"

definition cadence_variable_for :: "string \<Rightarrow> string" where
  "cadence_variable_for name =
     ''SWEEP_'' @ to_upper (map (\<lambda>c. if c = CHR ''-'' then CHR ''_'' else c) name) @ ''_INTERVAL_SECONDS''"

record worker_env =
  we_cadences :: "(string \<times> int) list"
  we_heartbeat :: string
  we_endpoint :: string
  we_region :: string

definition default_heartbeat_path :: string where
  "default_heartbeat_path = ''/tmp/fp-worker-heartbeat''"

text \<open>
  Reading the environment: \<open>schema\<close> is the validation library's reading of a cadence, an error
  message or a number. Absent or blank is the default; a required variable must not be empty.
\<close>

definition blank :: "string option \<Rightarrow> bool" where
  "blank v \<longleftrightarrow> (case v of None \<Rightarrow> True | Some t \<Rightarrow> trim t = [])"

fun read_cadences ::
  "(string \<Rightarrow> string + int) \<Rightarrow> (string \<rightharpoonup> string) \<Rightarrow> registered_sweep list \<Rightarrow> string list \<times> (string \<times> int) list" where
  "read_cadences schema env [] = ([], [])"
| "read_cadences schema env (s # ss) =
     (case read_cadences schema env ss of
        (issues, cadences) \<Rightarrow>
          let variable = cadence_variable_for (rs_name s); raw = env variable in
          if blank raw then (issues, (rs_name s, rs_cadence s) # cadences)
          else
            (case schema (the raw) of
               Inl m \<Rightarrow> ((variable @ '' '' @ m) # issues, cadences)
             | Inr n \<Rightarrow> (issues, (rs_name s, n) # cadences)))"

definition required :: "(string \<rightharpoonup> string) \<Rightarrow> string \<Rightarrow> string list" where
  "required env variable =
     (case env variable of
        None \<Rightarrow> [variable @ '' Required'']
      | Some t \<Rightarrow> if t = [] then [variable @ '' must not be empty''] else [])"

definition parse_worker_env :: "(string \<Rightarrow> string + int) \<Rightarrow> (string \<rightharpoonup> string) \<Rightarrow> string list + worker_env" where
  "parse_worker_env schema env =
     (case read_cadences schema env sweeps_registry of
        (issues, cadences) \<Rightarrow>
          let heartbeat = (if blank (env ''WORKER_HEARTBEAT_PATH'') then default_heartbeat_path
                           else the (env ''WORKER_HEARTBEAT_PATH''));
              all_issues = issues @ required env ''RELAY_QUEUE_ENDPOINT'' @ required env ''RELAY_QUEUE_REGION'' in
          if all_issues \<noteq> [] then Inl all_issues
          else
            Inr \<lparr>we_cadences = cadences, we_heartbeat = heartbeat,
              we_endpoint = the (env ''RELAY_QUEUE_ENDPOINT''), we_region = the (env ''RELAY_QUEUE_REGION'')\<rparr>)"

section \<open>The scheduler\<close>

text \<open>
  The state of one sweep: the due instant of its pending timer, whether its run is in flight, its
  last success, whether its stall was reported, and how many of its ticks wait for the heartbeat
  they wrote.
\<close>

record sweep_state =
  sv_name :: string
  sv_cadence :: int
  sv_timer :: "int option"
  sv_flight :: bool
  sv_last :: "int option"
  sv_reported :: bool
  sv_checks :: nat

datatype sched_line =
    ScheduledLine string int
  | RunCalled string
  | SkippedOverlap string
  | RunSucceeded string string
  | RunFailed string
  | HeartbeatAt int
  | HeartbeatFailed
  | SweepStalled string int int
  | StopTimeout int

record scheduler =
  sd_states :: "sweep_state list"
  sd_started :: bool
  sd_stopping :: bool
  sd_waiting :: bool
  sd_trace :: "sched_line list"

text \<open>The constructor: \<open>None\<close> when a sweep has no cadence.\<close>

fun initial_states :: "(string \<times> int) list \<Rightarrow> string list \<Rightarrow> sweep_state list option" where
  "initial_states cadences [] = Some []"
| "initial_states cadences (n # ns) =
     (case map_of cadences n of
        None \<Rightarrow> None
      | Some c \<Rightarrow>
          map_option (\<lambda>rest. \<lparr>sv_name = n, sv_cadence = c * 1000, sv_timer = None, sv_flight = False,
            sv_last = None, sv_reported = False, sv_checks = 0\<rparr> # rest) (initial_states cadences ns))"

definition new_scheduler :: "string list \<Rightarrow> (string \<times> int) list \<Rightarrow> scheduler option" where
  "new_scheduler names cadences =
     map_option (\<lambda>states. \<lparr>sd_states = states, sd_started = False, sd_stopping = False,
       sd_waiting = False, sd_trace = []\<rparr>) (initial_states cadences names)"

definition note_line :: "sched_line \<Rightarrow> scheduler \<Rightarrow> scheduler" where
  "note_line l d = d\<lparr>sd_trace := sd_trace d @ [l]\<rparr>"

definition put_state :: "nat \<Rightarrow> sweep_state \<Rightarrow> scheduler \<Rightarrow> scheduler" where
  "put_state i s d = d\<lparr>sd_states := (sd_states d)[i := s]\<rparr>"

definition arm_timer :: "nat \<Rightarrow> int \<Rightarrow> scheduler \<Rightarrow> scheduler" where
  "arm_timer i due d =
     (if sd_stopping d then d else put_state i ((sd_states d ! i)\<lparr>sv_timer := Some due\<rparr>) d)"

text \<open>\<open>start\<close>: each sweep's first run is jittered; starting twice throws.\<close>

definition startup_jitter_ms :: int where
  "startup_jitter_ms = 5000"

fun start_each :: "(nat \<Rightarrow> int) \<Rightarrow> int \<Rightarrow> nat list \<Rightarrow> scheduler \<Rightarrow> scheduler" where
  "start_each jitter now [] d = d"
| "start_each jitter now (i # is) d =
     start_each jitter now is
       (arm_timer i (now + jitter i)
         (note_line (ScheduledLine (sv_name (sd_states d ! i)) (sv_cadence (sd_states d ! i) div 1000)) d))"

definition start_scheduler :: "(nat \<Rightarrow> int) \<Rightarrow> int \<Rightarrow> scheduler \<Rightarrow> scheduler option" where
  "start_scheduler jitter now d =
     (if sd_started d then None
      else Some (start_each jitter now [0..<length (sd_states d)] (d\<lparr>sd_started := True, sd_stopping := False\<rparr>)))"

text \<open>A sweep whose last success is older than three cadences is reported once.\<close>

definition stall_cadence_multiple :: int where
  "stall_cadence_multiple = 3"

definition check_stalled :: "nat \<Rightarrow> int \<Rightarrow> scheduler \<Rightarrow> scheduler" where
  "check_stalled i now d =
     (let s = sd_states d ! i; threshold = sv_cadence s * stall_cadence_multiple;
          stalled = (case sv_last s of None \<Rightarrow> False | Some t \<Rightarrow> now - t > threshold) in
      if stalled \<and> \<not> sv_reported s then
        note_line (SweepStalled (sv_name s) ((now - the (sv_last s)) div 1000) (threshold div 1000))
          (put_state i (s\<lparr>sv_reported := True\<rparr>) d)
      else d)"

text \<open>
  The heartbeat is awaited: a tick writes the file and is taken up again by \<open>resume_tick\<close>, which
  logs a failed write and then looks for a stall.
\<close>

definition write_heartbeat :: "nat \<Rightarrow> int \<Rightarrow> scheduler \<Rightarrow> scheduler" where
  "write_heartbeat i now d =
     note_line (HeartbeatAt now) (put_state i ((sd_states d ! i)\<lparr>sv_checks := Suc (sv_checks (sd_states d ! i))\<rparr>) d)"

definition resume_tick :: "nat \<Rightarrow> bool \<Rightarrow> int \<Rightarrow> scheduler \<Rightarrow> scheduler" where
  "resume_tick i written now d =
     (let d1 = put_state i ((sd_states d ! i)\<lparr>sv_checks := sv_checks (sd_states d ! i) - 1\<rparr>) d in
      check_stalled i now (if written then d1 else note_line HeartbeatFailed d1))"

text \<open>
  The timer of sweep \<open>i\<close> fires: the next tick is armed first; a run still in flight is skipped, else
  the sweep is called.
\<close>

definition fire_timer :: "nat \<Rightarrow> int \<Rightarrow> scheduler \<Rightarrow> scheduler" where
  "fire_timer i now d =
     (let d0 = put_state i ((sd_states d ! i)\<lparr>sv_timer := None\<rparr>) d in
      if sd_stopping d0 then d0
      else
        let d1 = arm_timer i (now + sv_cadence (sd_states d0 ! i)) d0; s = sd_states d1 ! i in
        if sv_flight s then write_heartbeat i now (note_line (SkippedOverlap (sv_name s)) d1)
        else note_line (RunCalled (sv_name s)) (put_state i (s\<lparr>sv_flight := True\<rparr>) d1))"

text \<open>The run of sweep \<open>i\<close> ends, with its summary or an exception.\<close>

definition finish_run :: "nat \<Rightarrow> string option \<Rightarrow> int \<Rightarrow> scheduler \<Rightarrow> scheduler" where
  "finish_run i outcome now d =
     (let s = sd_states d ! i in
      write_heartbeat i now
        (case outcome of
           Some summary \<Rightarrow>
             note_line (RunSucceeded (sv_name s) summary)
               (put_state i (s\<lparr>sv_last := Some now, sv_reported := False, sv_flight := False\<rparr>) d)
         | None \<Rightarrow> note_line (RunFailed (sv_name s)) (put_state i (s\<lparr>sv_flight := False\<rparr>) d)))"

text \<open>
  \<open>stop\<close>: the timers are cleared. With no run in flight it ends at once; else it waits, and ends by
  \<open>stop_ends\<close> when those runs are over or the deadline is.
\<close>

definition stop_begins :: "scheduler \<Rightarrow> bool option \<times> scheduler" where
  "stop_begins d =
     (let d1 = d\<lparr>sd_stopping := True, sd_states := map (\<lambda>s. s\<lparr>sv_timer := None\<rparr>) (sd_states d)\<rparr> in
      if list_all (\<lambda>s. \<not> sv_flight s) (sd_states d1) then (Some True, d1\<lparr>sd_started := False\<rparr>)
      else (None, d1\<lparr>sd_waiting := True\<rparr>))"

definition stop_ends :: "int \<Rightarrow> scheduler \<Rightarrow> bool \<times> scheduler" where
  "stop_ends deadline d =
     (let finished = list_all (\<lambda>s. \<not> sv_flight s) (sd_states d);
          d1 = (if finished then d else note_line (StopTimeout deadline) d) in
      (finished, d1\<lparr>sd_started := False, sd_waiting := False\<rparr>))"

section \<open>The event loop\<close>

text \<open>
  A scheduler with the clock. A timer fires at its due instant or after it; a run ends when it is in
  flight; a process stops a scheduler it started, once at a time, as \<open>main.ts\<close> does.
\<close>

type_synonym sched_clock = "int \<times> scheduler"

inductive sched_step :: "sched_clock \<Rightarrow> sched_clock \<Rightarrow> bool" where
  sched_wait: "now \<le> now' \<Longrightarrow> sched_step (now, d) (now', d)"
| sched_start: "\<forall>i. 0 \<le> jitter i \<and> jitter i < startup_jitter_ms \<Longrightarrow> start_scheduler jitter now d = Some d' \<Longrightarrow>
    sched_step (now, d) (now, d')"
| sched_fire: "i < length (sd_states d) \<Longrightarrow> sv_timer (sd_states d ! i) = Some due \<Longrightarrow> due \<le> now \<Longrightarrow>
    sched_step (now, d) (now, fire_timer i now d)"
| sched_finish: "i < length (sd_states d) \<Longrightarrow> sv_flight (sd_states d ! i) \<Longrightarrow>
    sched_step (now, d) (now, finish_run i outcome now d)"
| sched_resume: "i < length (sd_states d) \<Longrightarrow> 0 < sv_checks (sd_states d ! i) \<Longrightarrow>
    sched_step (now, d) (now, resume_tick i written now d)"
| sched_stop: "sd_started d \<Longrightarrow> \<not> sd_waiting d \<Longrightarrow> sched_step (now, d) (now, snd (stop_begins d))"
| sched_stopped: "sd_waiting d \<Longrightarrow> sched_step (now, d) (now, snd (stop_ends deadline d))"

inductive sched_reachable :: "string list \<Rightarrow> (string \<times> int) list \<Rightarrow> sched_clock \<Rightarrow> bool" where
  sched_new: "new_scheduler names cadences = Some d \<Longrightarrow> sched_reachable names cadences (now, d)"
| sched_next: "sched_reachable names cadences x \<Longrightarrow> sched_step x y \<Longrightarrow> sched_reachable names cadences y"

end
