(* ===== verification/Scheduler_Facts.thy ===== *)
theory Scheduler_Facts
  imports Sweep_Scheduler
begin

text \<open>
  What the scheduler promises, \<open>scheduler.ts\<close>: the log of each sweep is a word of a small automaton
  (no run beside another, one stall alert between two successes), and a running scheduler always
  has the next tick of every sweep armed. And the boot: an accepted environment gives every
  registered sweep a cadence.
\<close>

section \<open>The protocol of one sweep\<close>

text \<open>A phase: a run is in flight; the sweep has succeeded; its stall was reported since.\<close>

type_synonym sweep_phase = "bool \<times> bool \<times> bool"

fun read_line :: "string \<Rightarrow> sched_line \<Rightarrow> sweep_phase \<Rightarrow> sweep_phase option" where
  "read_line n (RunCalled m) (f, s, r) = (if m \<noteq> n then Some (f, s, r) else if f then None else Some (True, s, r))"
| "read_line n (RunSucceeded m _) (f, s, r) =
     (if m \<noteq> n then Some (f, s, r) else if f then Some (False, True, False) else None)"
| "read_line n (RunFailed m) (f, s, r) = (if m \<noteq> n then Some (f, s, r) else if f then Some (False, s, r) else None)"
| "read_line n (SkippedOverlap m) (f, s, r) = (if m \<noteq> n \<or> f then Some (f, s, r) else None)"
| "read_line n (SweepStalled m _ _) (f, s, r) =
     (if m \<noteq> n then Some (f, s, r) else if s \<and> \<not> r then Some (f, s, True) else None)"
| "read_line n (ScheduledLine _ _) p = Some p"
| "read_line n (HeartbeatAt _) p = Some p"
| "read_line n HeartbeatFailed p = Some p"
| "read_line n (StopTimeout _) p = Some p"

fun read_log :: "string \<Rightarrow> sched_line list \<Rightarrow> sweep_phase \<Rightarrow> sweep_phase option" where
  "read_log n [] p = Some p"
| "read_log n (l # ls) p = (case read_line n l p of None \<Rightarrow> None | Some q \<Rightarrow> read_log n ls q)"

definition sweep_log :: "string \<Rightarrow> sched_line list \<Rightarrow> sweep_phase option" where
  "sweep_log n tr = read_log n tr (False, False, False)"

definition phase_of :: "sweep_state \<Rightarrow> sweep_phase" where
  "phase_of s = (sv_flight s, sv_last s \<noteq> None, sv_reported s)"

fun about :: "sched_line \<Rightarrow> string option" where
  "about (RunCalled m) = Some m"
| "about (RunSucceeded m _) = Some m"
| "about (RunFailed m) = Some m"
| "about (SkippedOverlap m) = Some m"
| "about (SweepStalled m _ _) = Some m"
| "about _ = None"

lemma read_log_append: "read_log n (xs @ ys) p = (case read_log n xs p of None \<Rightarrow> None | Some q \<Rightarrow> read_log n ys q)"
  by (induction xs arbitrary: p) (auto split: option.splits)

lemma sweep_log_append:
  "sweep_log n (xs @ ys) = (case sweep_log n xs of None \<Rightarrow> None | Some q \<Rightarrow> read_log n ys q)"
  by (simp add: sweep_log_def read_log_append)

lemma read_line_other: "about l \<noteq> Some n \<Longrightarrow> read_line n l p = Some p"
  by (cases l; cases p) auto

lemma read_log_other: "\<forall>l \<in> set ls. about l \<noteq> Some n \<Longrightarrow> read_log n ls p = Some p"
  by (induction ls) (auto simp: read_line_other)

lemma sweep_log_other: "\<forall>l \<in> set ls. about l \<noteq> Some n \<Longrightarrow> sweep_log n (tr @ ls) = sweep_log n tr"
  by (simp add: sweep_log_append read_log_other split: option.splits)

text \<open>A log without a success has no alert.\<close>

lemma quiet_log:
  assumes "read_log n tr (f, False, r) = Some p" "\<forall>w. RunSucceeded n w \<notin> set tr"
  shows "\<forall>a b. SweepStalled n a b \<notin> set tr"
  using assms
proof (induction tr arbitrary: f r)
  case (Cons l tr)
  then obtain f' s' r' where step: "read_line n l (f, False, r) = Some (f', s', r')"
    "read_log n tr (f', s', r') = Some p"
    by (auto split: option.splits)
  then have "\<not> s'" "\<forall>a b. l \<noteq> SweepStalled n a b"
    using Cons.prems(2) by (cases l; auto split: if_splits)+
  then show ?case
    using Cons.IH [of f' r'] step(2) Cons.prems(2) by auto
qed simp

section \<open>The invariant of a scheduler\<close>

definition ticking :: "scheduler \<Rightarrow> bool" where
  "ticking d \<longleftrightarrow> sd_started d \<and> \<not> sd_stopping d"

text \<open>A timer of a ticking scheduler is due within the cadence or, for a first run, the jitter.\<close>

definition timer_ok :: "int \<Rightarrow> bool \<Rightarrow> sweep_state \<Rightarrow> bool" where
  "timer_ok now running s \<longleftrightarrow>
     (if running then \<exists>due. sv_timer s = Some due \<and> due \<le> now + max (sv_cadence s) startup_jitter_ms
      else sv_timer s = None)"

definition sched_inv :: "string list \<Rightarrow> sched_clock \<Rightarrow> bool" where
  "sched_inv names x \<longleftrightarrow>
     (case x of (now, d) \<Rightarrow>
        map sv_name (sd_states d) = names \<and>
        (sd_waiting d \<longrightarrow> sd_started d \<and> sd_stopping d) \<and>
        (\<forall>s \<in> set (sd_states d). timer_ok now (ticking d) s \<and> sweep_log (sv_name s) (sd_trace d) = Some (phase_of s)))"

lemma timer_ok_later: "timer_ok now b s \<Longrightarrow> now \<le> now' \<Longrightarrow> timer_ok now' b s"
  by (fastforce simp: timer_ok_def split: if_splits)

text \<open>A step of one sweep: its state is replaced and lines about it are logged.\<close>

lemma sched_inv_update:
  assumes inv: "sched_inv names (now, d)" and dist: "distinct names" and i: "i < length (sd_states d)"
    and named: "sv_name s' = sv_name (sd_states d ! i)"
    and timer: "timer_ok now (ticking d) s'"
    and lines: "\<forall>l \<in> set ls. about l \<in> {None, Some (sv_name s')}"
    and log: "read_log (sv_name s') ls (phase_of (sd_states d ! i)) = Some (phase_of s')"
  shows "sched_inv names (now, d\<lparr>sd_states := (sd_states d)[i := s'], sd_trace := sd_trace d @ ls\<rparr>)"
proof -
  let ?d = "d\<lparr>sd_states := (sd_states d)[i := s'], sd_trace := sd_trace d @ ls\<rparr>"
  have old: "timer_ok now (ticking d) s" "sweep_log (sv_name s) (sd_trace d) = Some (phase_of s)"
    if "s \<in> set (sd_states d)" for s
    using inv that by (auto simp: sched_inv_def)
  have names: "map sv_name (sd_states d) = names"
    using inv by (simp add: sched_inv_def)
  have same: "map sv_name ((sd_states d)[i := s']) = names"
    using names named i by (metis list_update_id map_update nth_map)
  have each: "timer_ok now (ticking d) (sd_states ?d ! j) \<and>
      sweep_log (sv_name (sd_states ?d ! j)) (sd_trace d @ ls) = Some (phase_of (sd_states ?d ! j))"
    if j: "j < length (sd_states d)" for j
  proof (cases "j = i")
    case True
    then show ?thesis
      using i timer log named old(2) [OF nth_mem [OF i]] by (simp add: sweep_log_append)
  next
    case False
    then have "sv_name (sd_states d ! j) \<noteq> sv_name s'"
      using dist names named i j by (metis length_map nth_eq_iff_index_eq nth_map)
    then have "\<forall>l \<in> set ls. about l \<noteq> Some (sv_name (sd_states d ! j))"
      using lines by auto
    then show ?thesis
      using False old [OF nth_mem [OF j]] by (simp add: sweep_log_other)
  qed
  have "\<forall>s \<in> set (sd_states ?d). timer_ok now (ticking ?d) s \<and> sweep_log (sv_name s) (sd_trace ?d) = Some (phase_of s)"
    using each by (auto simp: ticking_def all_set_conv_all_nth)
  then show ?thesis
    using inv same by (simp add: sched_inv_def ticking_def)
qed

text \<open>A line about no sweep changes nothing.\<close>

lemma sched_inv_neutral:
  "sched_inv names (now, d) \<Longrightarrow> about l = None \<Longrightarrow> sched_inv names (now, note_line l d)"
  by (auto simp: sched_inv_def note_line_def ticking_def sweep_log_other)


section \<open>Every step keeps it\<close>

lemma fire_keeps:
  assumes inv: "sched_inv names (now, d)" and dist: "distinct names" and i: "i < length (sd_states d)"
    and due: "sv_timer (sd_states d ! i) = Some due"
  shows "sched_inv names (now, fire_timer i now d)"
proof -
  let ?s = "sd_states d ! i"
  have s: "?s \<in> set (sd_states d)"
    using i by simp
  then have running: "ticking d" "\<not> sd_stopping d"
    using inv due by (auto simp: sched_inv_def timer_ok_def ticking_def split: if_splits)
  let ?armed = "?s\<lparr>sv_timer := Some (now + sv_cadence ?s)\<rparr>"
  have timer: "timer_ok now (ticking d) ?armed"
    using running by (simp add: timer_ok_def)
  show ?thesis
  proof (cases "sv_flight ?s")
    case True
    have "fire_timer i now d = d\<lparr>sd_states := (sd_states d)[i := ?armed\<lparr>sv_checks := Suc (sv_checks ?s)\<rparr>],
        sd_trace := sd_trace d @ [SkippedOverlap (sv_name ?s), HeartbeatAt now]\<rparr>"
      using True running i
      by (simp add: fire_timer_def arm_timer_def put_state_def note_line_def write_heartbeat_def Let_def)
    then show ?thesis
      using sched_inv_update [OF inv dist i, where s' = "?armed\<lparr>sv_checks := Suc (sv_checks ?s)\<rparr>"
          and ls = "[SkippedOverlap (sv_name ?s), HeartbeatAt now]"] timer running True
      by (simp add: phase_of_def timer_ok_def)
  next
    case False
    have "fire_timer i now d = d\<lparr>sd_states := (sd_states d)[i := ?armed\<lparr>sv_flight := True\<rparr>],
        sd_trace := sd_trace d @ [RunCalled (sv_name ?s)]\<rparr>"
      using False running i by (simp add: fire_timer_def arm_timer_def put_state_def note_line_def Let_def)
    then show ?thesis
      using sched_inv_update [OF inv dist i, where s' = "?armed\<lparr>sv_flight := True\<rparr>"
          and ls = "[RunCalled (sv_name ?s)]"] timer running False
      by (simp add: phase_of_def timer_ok_def)
  qed
qed

lemma finish_keeps:
  assumes inv: "sched_inv names (now, d)" and dist: "distinct names" and i: "i < length (sd_states d)"
    and flight: "sv_flight (sd_states d ! i)"
  shows "sched_inv names (now, finish_run i outcome now d)"
proof -
  let ?s = "sd_states d ! i"
  let ?over = "case outcome of
      Some w \<Rightarrow> ?s\<lparr>sv_last := Some now, sv_reported := False, sv_flight := False, sv_checks := Suc (sv_checks ?s)\<rparr>
    | None \<Rightarrow> ?s\<lparr>sv_flight := False, sv_checks := Suc (sv_checks ?s)\<rparr>"
  let ?line = "case outcome of Some w \<Rightarrow> RunSucceeded (sv_name ?s) w | None \<Rightarrow> RunFailed (sv_name ?s)"
  have "finish_run i outcome now d =
      d\<lparr>sd_states := (sd_states d)[i := ?over], sd_trace := sd_trace d @ [?line, HeartbeatAt now]\<rparr>"
    using i by (simp add: finish_run_def put_state_def note_line_def write_heartbeat_def Let_def split: option.split)
  moreover have "timer_ok now (ticking d) ?s"
    using inv i by (simp add: sched_inv_def)
  then have "timer_ok now (ticking d) ?over"
    by (simp add: timer_ok_def split: option.split)
  moreover have "read_log (sv_name ?over) [?line, HeartbeatAt now] (phase_of ?s) = Some (phase_of ?over)"
    using flight by (cases outcome) (simp_all add: phase_of_def)
  moreover have "\<forall>l \<in> set [?line, HeartbeatAt now]. about l \<in> {None, Some (sv_name ?over)}" "sv_name ?over = sv_name ?s"
    by (simp_all split: option.split)
  ultimately show ?thesis
    using sched_inv_update [OF inv dist i, where s' = ?over and ls = "[?line, HeartbeatAt now]"] by simp
qed

lemma check_keeps:
  assumes inv: "sched_inv names (now, d)" and dist: "distinct names" and i: "i < length (sd_states d)"
  shows "sched_inv names (now, check_stalled i now d)"
proof (cases "\<exists>t. sv_last (sd_states d ! i) = Some t \<and> now - t > sv_cadence (sd_states d ! i) * stall_cadence_multiple \<and>
    \<not> sv_reported (sd_states d ! i)")
  case True
  let ?s = "sd_states d ! i"
  have "timer_ok now (ticking d) ?s"
    using inv i by (simp add: sched_inv_def)
  then show ?thesis
    using True sched_inv_update [OF inv dist i, where s' = "?s\<lparr>sv_reported := True\<rparr>" and ls = "[SweepStalled (sv_name ?s)
        ((now - the (sv_last ?s)) div 1000) (sv_cadence ?s * stall_cadence_multiple div 1000)]"]
    by (auto simp: check_stalled_def put_state_def note_line_def phase_of_def timer_ok_def Let_def)
next
  case False
  then show ?thesis
    using inv by (auto simp: check_stalled_def Let_def split: option.split)
qed

lemma resume_keeps:
  assumes inv: "sched_inv names (now, d)" and dist: "distinct names" and i: "i < length (sd_states d)"
  shows "sched_inv names (now, resume_tick i written now d)"
proof -
  let ?s = "sd_states d ! i"
  let ?d1 = "put_state i (?s\<lparr>sv_checks := sv_checks ?s - 1\<rparr>) d"
  have "timer_ok now (ticking d) ?s"
    using inv i by (simp add: sched_inv_def)
  then have inv1: "sched_inv names (now, ?d1)"
    using sched_inv_update [OF inv dist i, where s' = "?s\<lparr>sv_checks := sv_checks ?s - 1\<rparr>" and ls = "[]"]
    by (simp add: put_state_def phase_of_def timer_ok_def)
  let ?d2 = "if written then ?d1 else note_line HeartbeatFailed ?d1"
  have "sched_inv names (now, ?d2)"
    using inv1 sched_inv_neutral [OF inv1] by simp
  moreover have "i < length (sd_states ?d2)"
    using i by (simp add: put_state_def note_line_def)
  ultimately have "sched_inv names (now, check_stalled i now ?d2)"
    using dist by (intro check_keeps)
  then show ?thesis
    by (simp only: resume_tick_def Let_def)
qed

lemma trace_after_states: "d\<lparr>sd_trace := tr, sd_states := ss\<rparr> = d\<lparr>sd_states := ss, sd_trace := tr\<rparr>"
  by (cases d) simp

lemma start_each_facts:
  assumes "\<not> sd_stopping d" "distinct is" "set is \<subseteq> {..<length (sd_states d)}"
  shows "\<exists>ls. (\<forall>l \<in> set ls. about l = None) \<and> start_each jitter now is d =
    d\<lparr>sd_states := map (\<lambda>j. if j \<in> set is then (sd_states d ! j)\<lparr>sv_timer := Some (now + jitter j)\<rparr> else sd_states d ! j)
      [0..<length (sd_states d)], sd_trace := sd_trace d @ ls\<rparr>"
  using assms
proof (induction "is" arbitrary: d)
  case Nil
  show ?case
    by (rule exI [of _ "[]"]) (simp add: map_nth)
next
  case (Cons i "is")
  let ?line = "ScheduledLine (sv_name (sd_states d ! i)) (sv_cadence (sd_states d ! i) div 1000)"
  let ?d1 = "d\<lparr>sd_states := (sd_states d)[i := (sd_states d ! i)\<lparr>sv_timer := Some (now + jitter i)\<rparr>],
    sd_trace := sd_trace d @ [?line]\<rparr>"
  have one: "start_each jitter now (i # is) d = start_each jitter now is ?d1"
    using Cons.prems by (simp add: arm_timer_def put_state_def note_line_def trace_after_states)
  obtain ls where ls: "\<forall>l \<in> set ls. about l = None" "start_each jitter now is ?d1 =
      ?d1\<lparr>sd_states := map (\<lambda>j. if j \<in> set is then (sd_states ?d1 ! j)\<lparr>sv_timer := Some (now + jitter j)\<rparr> else sd_states ?d1 ! j)
        [0..<length (sd_states ?d1)], sd_trace := sd_trace ?d1 @ ls\<rparr>"
    using Cons.IH [of ?d1] Cons.prems by auto
  have "map (\<lambda>j. if j \<in> set is then (sd_states ?d1 ! j)\<lparr>sv_timer := Some (now + jitter j)\<rparr> else sd_states ?d1 ! j)
      [0..<length (sd_states ?d1)] =
    map (\<lambda>j. if j \<in> set (i # is) then (sd_states d ! j)\<lparr>sv_timer := Some (now + jitter j)\<rparr> else sd_states d ! j)
      [0..<length (sd_states d)]"
    using Cons.prems by (auto simp: nth_list_update)
  then show ?case
    using ls one by (intro exI [of _ "?line # ls"]) simp
qed

lemma start_keeps:
  assumes inv: "sched_inv names (now, d)" and started: "start_scheduler jitter now d = Some d'"
    and jitter: "\<forall>i. 0 \<le> jitter i \<and> jitter i < startup_jitter_ms"
  shows "sched_inv names (now, d')"
proof -
  let ?d = "d\<lparr>sd_started := True, sd_stopping := False\<rparr>"
  let ?set = "\<lambda>j. (sd_states d ! j)\<lparr>sv_timer := Some (now + jitter j)\<rparr>"
  have armed: "map (\<lambda>j. if j \<in> set [0..<length (sd_states d)] then ?set j else sd_states d ! j) [0..<length (sd_states d)] =
      map ?set [0..<length (sd_states d)]"
    by simp
  have sel: "sd_states ?d = sd_states d" "sd_trace ?d = sd_trace d"
    by simp_all
  have all: "set [0..<length (sd_states d)] \<subseteq> {..<length (sd_states ?d)}"
    by auto
  obtain ls where ls: "\<forall>l \<in> set ls. about l = None" and d': "d' =
      ?d\<lparr>sd_states := map ?set [0..<length (sd_states d)],
        sd_trace := sd_trace d @ ls\<rparr>" and off: "\<not> sd_started d"
    using started start_each_facts [of ?d "[0..<length (sd_states d)]" jitter now, OF _ _ all]
    unfolding sel armed by (auto simp: start_scheduler_def split: if_splits)
  have "now + jitter j \<le> now + max c startup_jitter_ms" for j c
    using jitter [rule_format, of j] by linarith
  then have "\<forall>s \<in> set (sd_states d'). timer_ok now True s \<and> sweep_log (sv_name s) (sd_trace d') = Some (phase_of s)"
    using inv ls by (auto simp: d' sched_inv_def timer_ok_def sweep_log_other phase_of_def)
  moreover have "map sv_name (sd_states d') = names"
    using inv by (auto simp: d' sched_inv_def comp_def map_nth intro!: nth_equalityI)
  ultimately show ?thesis
    using inv off by (simp add: sched_inv_def d' ticking_def)
qed

lemma stop_begins_keeps:
  assumes "sched_inv names (now, d)" "sd_started d" "\<not> sd_waiting d"
  shows "sched_inv names (now, snd (stop_begins d))"
  using assms
  by (auto simp: sched_inv_def stop_begins_def Let_def ticking_def timer_ok_def phase_of_def comp_def)

lemma stop_ends_keeps:
  assumes "sched_inv names (now, d)" "sd_waiting d"
  shows "sched_inv names (now, snd (stop_ends deadline d))"
proof -
  have "\<not> ticking d"
    using assms by (simp add: sched_inv_def ticking_def)
  then show ?thesis
    using assms by (auto simp: sched_inv_def stop_ends_def Let_def ticking_def timer_ok_def note_line_def sweep_log_other)
qed

lemma new_scheduler_inv: "new_scheduler names cadences = Some d \<Longrightarrow> sched_inv names (now, d)"
proof -
  have "initial_states cadences ns = Some states \<Longrightarrow> map sv_name states = ns \<and>
      (\<forall>s \<in> set states. sv_timer s = None \<and> phase_of s = (False, False, False))" for ns states
    by (induction ns arbitrary: states) (auto simp: phase_of_def split: option.splits)
  then show "new_scheduler names cadences = Some d \<Longrightarrow> sched_inv names (now, d)"
    by (auto simp: new_scheduler_def sched_inv_def ticking_def timer_ok_def sweep_log_def)
qed

lemma sched_step_keeps: "sched_step x y \<Longrightarrow> distinct names \<Longrightarrow> sched_inv names x \<Longrightarrow> sched_inv names y"
proof (induction rule: sched_step.induct)
  case (sched_wait now now' d)
  then show ?case
    by (auto simp: sched_inv_def intro: timer_ok_later)
qed (simp_all add: fire_keeps finish_keeps resume_keeps start_keeps stop_begins_keeps stop_ends_keeps)

lemma sched_reachable_inv:
  "sched_reachable names cadences x \<Longrightarrow> distinct names \<Longrightarrow> sched_inv names x"
  by (induction rule: sched_reachable.induct) (auto simp: new_scheduler_inv intro: sched_step_keeps)


section \<open>The boot\<close>

lemma read_cadences_names:
  "fst (read_cadences schema env ss) = [] \<Longrightarrow> map fst (snd (read_cadences schema env ss)) = map rs_name ss"
  by (induction ss) (auto simp: Let_def split: prod.splits sum.splits if_splits)

lemma read_cadences_positive:
  assumes "\<forall>t n. schema t = Inr n \<longrightarrow> 0 < n" "\<forall>s \<in> set ss. 0 < rs_cadence s"
  shows "\<forall>(name, n) \<in> set (snd (read_cadences schema env ss)). 0 < n"
  using assms by (induction ss) (auto simp: Let_def split: prod.splits sum.splits if_splits)

lemma initial_states_total:
  "set ns \<subseteq> set (map fst cadences) \<Longrightarrow> initial_states cadences ns \<noteq> None"
proof (induction ns)
  case (Cons n ns)
  then have "map_of cadences n \<noteq> None"
    by (simp add: map_of_eq_None_iff)
  then show ?case
    using Cons by auto
qed simp

lemma registry_names_distinct: "distinct (map rs_name sweeps_registry)"
  by (simp add: sweeps_registry_def)

lemma registry_cadences_positive: "\<forall>s \<in> set sweeps_registry. 0 < rs_cadence s"
  by (simp add: sweeps_registry_def)

section \<open>An example\<close>

text \<open>
  Two sweeps: the first succeeds once and then hangs past its next tick; the second fails. Each
  function is one step of the event loop.
\<close>

definition demo_cadences :: "(string \<times> int) list" where
  "demo_cadences = [(''relay'', 1), (''report'', 60)]"

definition demo_new :: scheduler where
  "demo_new = the (new_scheduler [''relay'', ''report''] demo_cadences)"

definition demo_started :: scheduler where
  "demo_started = the (start_scheduler (\<lambda>_. 0) 0 demo_new)"

definition demo_called :: scheduler where
  "demo_called = fire_timer 1 0 (fire_timer 0 0 demo_started)"

definition demo_over :: scheduler where
  "demo_over = finish_run 1 None 0 (finish_run 0 (Some ''claimed 0'') 0 demo_called)"

definition demo_hangs :: scheduler where
  "demo_hangs = fire_timer 0 1000 demo_over"

definition demo_stalled :: scheduler where
  "demo_stalled = resume_tick 0 True 5000 (fire_timer 0 5000 demo_hangs)"

abbreviation demo_reachable :: "sched_clock \<Rightarrow> bool" where
  "demo_reachable \<equiv> sched_reachable [''relay'', ''report''] demo_cadences"

lemma demo_time: "demo_reachable (now, d) \<Longrightarrow> now \<le> t \<Longrightarrow> demo_reachable (t, d)"
  by (rule sched_next) (auto intro: sched_wait)

lemma demo_fire:
  "demo_reachable (now, d) \<Longrightarrow> i < length (sd_states d) \<Longrightarrow> sv_timer (sd_states d ! i) = Some due \<Longrightarrow> due \<le> now \<Longrightarrow>
    demo_reachable (now, fire_timer i now d)"
  by (rule sched_next) (auto intro: sched_fire)

lemma demo_finish:
  "demo_reachable (now, d) \<Longrightarrow> i < length (sd_states d) \<Longrightarrow> sv_flight (sd_states d ! i) \<Longrightarrow>
    demo_reachable (now, finish_run i outcome now d)"
  by (rule sched_next) (auto intro: sched_finish)

lemma demo_started_reachable: "demo_reachable (0, demo_started)"
proof (rule sched_next)
  have "new_scheduler [''relay'', ''report''] demo_cadences = Some demo_new"
    unfolding demo_new_def by code_simp
  then show "demo_reachable (0, demo_new)"
    by (rule sched_new)
  have "start_scheduler (\<lambda>_. 0) 0 demo_new = Some demo_started"
    unfolding demo_started_def by code_simp
  then show "sched_step (0, demo_new) (0, demo_started)"
    by (rule sched_start [rotated]) (simp add: startup_jitter_ms_def)
qed

lemma demo_over_reachable: "demo_reachable (0, demo_over)"
proof -
  have "demo_reachable (0, fire_timer 0 0 demo_started)"
    by (rule demo_fire [OF demo_started_reachable, where due = 0]; code_simp)
  then have "demo_reachable (0, demo_called)"
    unfolding demo_called_def by (rule demo_fire [where due = 0]; code_simp)
  then have "demo_reachable (0, finish_run 0 (Some ''claimed 0'') 0 demo_called)"
    by (rule demo_finish; code_simp)
  then show ?thesis
    unfolding demo_over_def by (rule demo_finish; code_simp)
qed

lemma demo_stalled_reachable: "demo_reachable (5000, demo_stalled)"
proof -
  have "demo_reachable (1000, demo_over)"
    by (rule demo_time [OF demo_over_reachable]) simp
  then have "demo_reachable (1000, demo_hangs)"
    unfolding demo_hangs_def by (rule demo_fire [where due = 1000]; code_simp)
  then have "demo_reachable (5000, demo_hangs)"
    by (rule demo_time) simp
  then have "demo_reachable (5000, fire_timer 0 5000 demo_hangs)"
    by (rule demo_fire [where due = 2000]; code_simp)
  then show ?thesis
    unfolding demo_stalled_def by (rule sched_next) (intro sched_resume; code_simp)
qed

section \<open>Properties\<close>

text \<open>
  an accepted environment boots: every registered sweep gets a positive cadence, in the order
  of the registry, and the scheduler is constructed with one idle sweep for each; a variable that
  is refused fails the boot.
\<close>

theorem accepted_environment_boots:
  assumes schema: "\<forall>t n. schema t = Inr n \<longrightarrow> 0 < n"
    and accepted: "parse_worker_env schema env = Inr e"
  shows "map fst (we_cadences e) = map rs_name sweeps_registry \<and> (\<forall>(name, n) \<in> set (we_cadences e). 0 < n) \<and>
    we_endpoint e \<noteq> [] \<and> we_region e \<noteq> [] \<and>
    (\<exists>d. new_scheduler (map rs_name sweeps_registry) (we_cadences e) = Some d \<and>
      map sv_name (sd_states d) = map rs_name sweeps_registry)"
proof -
  obtain issues cadences where read: "read_cadences schema env sweeps_registry = (issues, cadences)"
    by fastforce
  then have e: "issues = []" "we_cadences e = cadences"
    "required env ''RELAY_QUEUE_ENDPOINT'' = []" "we_endpoint e = the (env ''RELAY_QUEUE_ENDPOINT'')"
    "required env ''RELAY_QUEUE_REGION'' = []" "we_region e = the (env ''RELAY_QUEUE_REGION'')"
    using accepted by (auto simp: parse_worker_env_def Let_def split: if_splits)
  have names: "map fst cadences = map rs_name sweeps_registry"
    using read_cadences_names [of schema env sweeps_registry] read e(1) by simp
  then have "initial_states cadences (map rs_name sweeps_registry) \<noteq> None"
    by (intro initial_states_total) (metis subset_refl)
  then obtain d where d: "new_scheduler (map rs_name sweeps_registry) cadences = Some d"
    by (auto simp: new_scheduler_def)
  have "map sv_name (sd_states d) = map rs_name sweeps_registry"
    using new_scheduler_inv [OF d] by (simp add: sched_inv_def)
  moreover have "\<forall>(name, n) \<in> set cadences. 0 < n"
    using read_cadences_positive [OF schema registry_cadences_positive, of env] read by simp
  ultimately show ?thesis
    using d names e by (auto simp: required_def split: option.splits if_splits)
qed

definition whole_seconds :: "string \<Rightarrow> string + int" where
  "whole_seconds t = (if t = ''5'' then Inr 5 else Inl ''must be a whole number of seconds'')"

definition local_env :: "string \<rightharpoonup> string" where
  "local_env = [''SWEEP_OUTBOX_RELAY_INTERVAL_SECONDS'' \<mapsto> ''5'',
     ''RELAY_QUEUE_ENDPOINT'' \<mapsto> ''http://queue:9324'', ''RELAY_QUEUE_REGION'' \<mapsto> ''elasticmq'']"

definition parsed_env :: worker_env where
  "parsed_env = (case parse_worker_env whole_seconds local_env of Inr e \<Rightarrow> e)"

lemma cadence_variables:
  "cadence_variable_for ''erase-unverified'' = ''SWEEP_ERASE_UNVERIFIED_INTERVAL_SECONDS''"
  "cadence_variable_for ''erase-deleted-accounts'' = ''SWEEP_ERASE_DELETED_ACCOUNTS_INTERVAL_SECONDS''"
  "cadence_variable_for ''erase-stale-sessions'' = ''SWEEP_ERASE_STALE_SESSIONS_INTERVAL_SECONDS''"
  "cadence_variable_for ''expire-invitations'' = ''SWEEP_EXPIRE_INVITATIONS_INTERVAL_SECONDS''"
  "cadence_variable_for ''guardian-coverage'' = ''SWEEP_GUARDIAN_COVERAGE_INTERVAL_SECONDS''"
  "cadence_variable_for ''materialise-occurrences'' = ''SWEEP_MATERIALISE_OCCURRENCES_INTERVAL_SECONDS''"
  "cadence_variable_for ''report-overdue-tasks'' = ''SWEEP_REPORT_OVERDUE_TASKS_INTERVAL_SECONDS''"
  "cadence_variable_for ''outbox-relay'' = ''SWEEP_OUTBOX_RELAY_INTERVAL_SECONDS''"
  by code_simp+

lemma relay_cadence_given: "\<not> blank (Some ''5'')"
  by code_simp

lemma blank_None [simp]: "blank None"
  by (simp add: blank_def)

lemma local_cadences:
  "read_cadences whole_seconds local_env sweeps_registry =
     ([], [(''erase-unverified'', 3600), (''erase-deleted-accounts'', 3600), (''erase-stale-sessions'', 3600),
       (''expire-invitations'', 3600), (''guardian-coverage'', 86400), (''materialise-occurrences'', 3600),
       (''report-overdue-tasks'', 60), (''outbox-relay'', 5)])"
  by (simp add: sweeps_registry_def cadence_variables local_env_def relay_cadence_given whole_seconds_def Let_def)

lemma local_env_accepted: "parse_worker_env whole_seconds local_env = Inr parsed_env"
  by (simp add: parsed_env_def parse_worker_env_def local_cadences Let_def)
    (simp add: local_env_def required_def)

theorem accepted_environment_boots_witness:
  "map_of (we_cadences parsed_env) ''outbox-relay'' = Some 5 \<and>
   (\<exists>d. new_scheduler (map rs_name sweeps_registry) (we_cadences parsed_env) = Some d)"
proof -
  have "\<forall>t n. whole_seconds t = Inr n \<longrightarrow> 0 < n"
    by (simp add: whole_seconds_def)
  note boots = accepted_environment_boots [OF this local_env_accepted]
  have "map_of (we_cadences parsed_env) ''outbox-relay'' = Some 5"
    by (simp add: parsed_env_def parse_worker_env_def local_cadences Let_def) (simp add: local_env_def required_def)
  then show ?thesis
    using boots by blast
qed

text \<open>
  C40: the log of every sweep of a scheduler that runs is a word of the protocol: a run is called
  only when none is in flight and skipped only when one is, each success or failure ends a run, a
  stall is reported only after a success and once until the next; and the state kept of the sweep
  is the phase the word ends in.
\<close>

theorem sweep_log_follows_protocol:
  assumes "sched_reachable names cadences (now, d)" "distinct names" "s \<in> set (sd_states d)"
  shows "sweep_log (sv_name s) (sd_trace d) = Some (sv_flight s, sv_last s \<noteq> None, sv_reported s)"
  using sched_reachable_inv [OF assms(1,2)] assms(3) by (simp add: sched_inv_def phase_of_def)

theorem sweep_log_follows_protocol_witness:
  "sweep_log ''relay'' (sd_trace demo_stalled) = Some (True, True, True) \<and>
   RunCalled ''relay'' \<in> set (sd_trace demo_stalled) \<and> SweepStalled ''relay'' 5 3 \<in> set (sd_trace demo_stalled)"
proof -
  let ?s = "sd_states demo_stalled ! 0"
  have "?s \<in> set (sd_states demo_stalled)" "sv_name ?s = ''relay''"
    "sv_flight ?s \<and> sv_last ?s \<noteq> None \<and> sv_reported ?s"
    "RunCalled ''relay'' \<in> set (sd_trace demo_stalled)" "SweepStalled ''relay'' 5 3 \<in> set (sd_trace demo_stalled)"
    by code_simp+
  then show ?thesis
    using sweep_log_follows_protocol [OF demo_stalled_reachable, of ?s] by simp
qed

text \<open>
  a sweep that fails from its first run on is never reported as stalled, however long it has
  been failing: a log without a success of it has no alert.
\<close>

theorem failing_from_start_unreported:
  assumes "sched_reachable names cadences (now, d)" "distinct names" "s \<in> set (sd_states d)"
    and "\<forall>w. RunSucceeded (sv_name s) w \<notin> set (sd_trace d)"
  shows "\<forall>age threshold. SweepStalled (sv_name s) age threshold \<notin> set (sd_trace d)"
  using sched_reachable_inv [OF assms(1,2)] assms(3)
  by (auto simp: sched_inv_def sweep_log_def dest!: quiet_log [OF _ assms(4)])

theorem failing_from_start_unreported_witness:
  "\<exists>s \<in> set (sd_states demo_stalled). sv_name s = ''report'' \<and> RunFailed ''report'' \<in> set (sd_trace demo_stalled) \<and>
    (\<forall>age threshold. SweepStalled (sv_name s) age threshold \<notin> set (sd_trace demo_stalled))"
proof (rule bexI [of _ "sd_states demo_stalled ! 1"])
  let ?s = "sd_states demo_stalled ! 1"
  show s: "?s \<in> set (sd_states demo_stalled)"
    by code_simp
  have name: "sv_name ?s = ''report''" "RunFailed ''report'' \<in> set (sd_trace demo_stalled)"
    by code_simp+
  have "list_all (\<lambda>l. case l of RunSucceeded m _ \<Rightarrow> m \<noteq> ''report'' | _ \<Rightarrow> True) (sd_trace demo_stalled)"
    by code_simp
  then have "\<forall>w. RunSucceeded (sv_name ?s) w \<notin> set (sd_trace demo_stalled)"
    by (fastforce simp: name(1) [unfolded One_nat_def] list_all_iff)
  then show "sv_name ?s = ''report'' \<and> RunFailed ''report'' \<in> set (sd_trace demo_stalled) \<and>
      (\<forall>age threshold. SweepStalled (sv_name ?s) age threshold \<notin> set (sd_trace demo_stalled))"
    using name failing_from_start_unreported [OF demo_stalled_reachable _ s] by simp
qed

text \<open>
  a scheduler that was started and not stopped keeps every sweep ticking, whether its runs
  succeed, fail or hang: a timer of the sweep is due within its cadence (or the first run's
  jitter), and when it fires the next one is armed a cadence ahead and the sweep is called, or
  skipped when its run is still in flight.
\<close>

theorem sweeps_keep_ticking:
  assumes reach: "sched_reachable names cadences (now, d)" "distinct names"
    and running: "sd_started d" "\<not> sd_stopping d" and i: "i < length (sd_states d)"
  shows "\<exists>due \<le> now + max (sv_cadence (sd_states d ! i)) startup_jitter_ms. sv_timer (sd_states d ! i) = Some due \<and>
    (\<forall>later \<ge> max now due. let d' = fire_timer i later d; name = sv_name (sd_states d ! i) in
       sched_reachable names cadences (later, d') \<and>
       sv_timer (sd_states d' ! i) = Some (later + sv_cadence (sd_states d ! i)) \<and>
       sd_trace d' = sd_trace d @ (if sv_flight (sd_states d ! i) then [SkippedOverlap name, HeartbeatAt later]
         else [RunCalled name]))"
proof -
  have "timer_ok now True (sd_states d ! i)"
    using sched_reachable_inv [OF reach] i running by (auto simp: sched_inv_def ticking_def)
  then obtain due where due: "sv_timer (sd_states d ! i) = Some due"
    "due \<le> now + max (sv_cadence (sd_states d ! i)) startup_jitter_ms"
    by (auto simp: timer_ok_def)
  have "sched_reachable names cadences (t, fire_timer i t d)" if "max now due \<le> t" for t
  proof -
    have "sched_reachable names cadences (t, d)"
      by (rule sched_next [OF reach(1)]) (use that in \<open>auto intro: sched_wait\<close>)
    then show ?thesis
      by (rule sched_next) (use that i due in \<open>auto intro: sched_fire\<close>)
  qed
  then show ?thesis
    using due running i
    by (intro exI [of _ due])
      (auto simp: Let_def fire_timer_def arm_timer_def put_state_def note_line_def write_heartbeat_def)
qed

theorem sweeps_keep_ticking_witness:
  "\<exists>due \<le> 60000. sv_timer (sd_states demo_over ! 1) = Some due \<and>
    RunCalled ''report'' = last (sd_trace (fire_timer 1 due demo_over))"
proof -
  have running: "sd_started demo_over" "\<not> sd_stopping demo_over" "1 < length (sd_states demo_over)"
    by code_simp+
  have facts: "sv_cadence (sd_states demo_over ! 1) = 60000" "sv_name (sd_states demo_over ! 1) = ''report''"
    "\<not> sv_flight (sd_states demo_over ! 1)" "sv_timer (sd_states demo_over ! 1) = Some 60000"
    by code_simp+
  show ?thesis
    using sweeps_keep_ticking [OF demo_over_reachable _ running]
    by (auto simp: facts [unfolded One_nat_def] startup_jitter_ms_def Let_def dest: spec [of _ 60000])
qed

end
