(* ===== verification/Spec2Isabelle.thy ===== *)
theory Spec2Isabelle
  imports Next_Occurrence Task_Sweep Platform Calendar_Reads Calendar_Sweep Identity_Race Event_Consumer Scheduler_Facts
begin

text \<open>
  Verification library of the family platform, a TypeScript monorepo under \<open>src/\<close>: families with
  their members and guardians, shared tasks and a shared calendar, behind accounts and sessions.

  \<^bold>\<open>The program.\<close> Four bounded contexts (\<open>packages/core/src/identity\<close>, \<open>family\<close>, \<open>tasks\<close>,
  \<open>calendar\<close>) hold the domain and the commands. They share the kernel (\<open>packages/kernel/src\<close>:
  identifiers, errors, recurrence), store their aggregates through repositories over PostgreSQL
  (\<open>packages/persistence/src/repositories\<close>), each command in one transaction together with the
  events it appends to the outbox and its audit entries. A worker (\<open>apps/worker/src\<close>) runs sweeps
  on a schedule: retention, expiry, materialisation of the calendar, overdue tasks, and the relay
  that sends the outbox to queues, read by an idempotent consumer (\<open>packages/platform/src\<close>). Tasks
  and Calendar ask Family, through its visibility port, which members a reader may see.

  \<^bold>\<open>Foundations.\<close>
  \<^item> \<open>Prelude\<close>: strings of JavaScript, ordered sets, table operations, the hint collections.
  \<^item> \<open>Kernel_Types\<close>: branded ids, \<open>DomainError\<close>, \<open>Result\<close>, email addresses, JSON, the outbox and
    audit entries of \<open>packages/kernel/src\<close>; the exceptions of the database.
  \<^item> \<open>Transaction\<close>: computations over a store that may throw, the unit of work, \<open>rollback.ts\<close>.
  \<^item> \<open>Keyed_Table\<close>: Prisma's upsert over a table with keys, CHECKs, unique indexes and foreign
    keys, and the locale of the tables that satisfy them, interpreted at every table of Family and
    at the Calendar tables.
  \<^item> \<open>Visibility\<close>: readers and the visibility port.

  \<^bold>\<open>Recurrence\<close> (\<open>packages/kernel/src/recurrence\<close>).
  \<^item> \<open>Civil_Date\<close>, \<open>Zoned_Time\<close>: the arithmetic of \<open>Date\<close> and \<open>zoned-time.ts\<close>; the zone data of
    \<open>Intl\<close> is the parameter \<open>intl\<close>. A local reading is turned into its earliest instant, or moved
    over a gap.
  \<^item> \<open>Rrule\<close>: \<open>rrule.vo.ts\<close>, its parser and canonical text (round trip).
  \<^item> \<open>Expand\<close>, \<open>Expand_Facts\<close>: \<open>expand.ts\<close> equals the mathematical schedule of the rule.
  \<^item> \<open>Next_Occurrence\<close>: \<open>next-occurrence.ts\<close>, exact within its reach.

  \<^bold>\<open>Tasks.\<close>
  \<^item> \<open>Task_Domain\<close>, \<open>Task_Facts\<close>: \<open>due.ts\<close>, \<open>task.aggregate.ts\<close>, \<open>successor.ts\<close>, \<open>overdue.ts\<close>, the
    events; the lifecycle as a step relation and the invariant of every reachable task.
  \<^item> \<open>Task_Store\<close>, \<open>Task_Store_Facts\<close>: the tables and repositories; the invariant \<open>task_db\<close>.
  \<^item> \<open>Task_Commands\<close>, \<open>Task_Command_Facts\<close>: every command and query of the application layer.
  \<^item> \<open>Task_System\<close>, \<open>Task_Household\<close>: reachable states and the example household; sound tables,
    typed endings, the hand-over of a series.
  \<^item> \<open>Task_Access\<close>, \<open>Task_Race\<close>, \<open>Task_Lists\<close>, \<open>Task_Sweep\<close>: visibility; optimistic
    concurrency (locale \<open>optimistic\<close>); keyset pagination (locale \<open>keyset\<close>); the overdue sweep.

  \<^bold>\<open>Calendar.\<close>
  \<^item> \<open>Calendar_Domain\<close>, \<open>Calendar_Event_Facts\<close>: the event aggregate, the materialisation plan and the
    reconciliation of its rows.
  \<^item> \<open>Calendar_Store\<close>, \<open>Calendar_Store_Facts\<close>, \<open>Calendar_Facts\<close>: the tables and what a rebuild does.
  \<^item> \<open>Calendar_Commands\<close>, \<open>Calendar_System\<close>, \<open>Calendar_Example\<close>: the commands, reachable stores.
  \<^item> \<open>Calendar_Schedule\<close>, \<open>Calendar_Reads\<close>, \<open>Calendar_Sweep\<close>: the calendar shows the schedule of
    its rules; who sees what; the materialisation sweep.

  \<^bold>\<open>Family.\<close>
  \<^item> \<open>Household\<close>: the abstract specification, one family without tables.
  \<^item> \<open>Family_Domain\<close>, \<open>Family_Store\<close>, \<open>Family_Commands\<close>: domain, tables, application layer.
  \<^item> \<open>Family_Facts\<close>, \<open>Family_Command_Facts\<close>, \<open>Family_System\<close>, \<open>Family_Properties\<close>: every command
    refines a step of the abstract household.
  \<^item> \<open>Family_Conduct\<close>, \<open>Family_Joining\<close>, \<open>Family_Reads\<close>, \<open>Family_Race\<close>: how the commands end, what
    the queries show, and what overlapping transactions do.
  \<^item> \<open>Platform\<close>: Tasks with the Family port.

  \<^bold>\<open>Identity.\<close>
  \<^item> \<open>Identity_Domain\<close>, \<open>Identity_Store\<close>, \<open>Identity_Commands\<close>: accounts, sessions, verification
    links, devices; the tables; the commands, queries and retention sweeps.
  \<^item> \<open>Identity_Facts\<close>, \<open>Identity_Command_Facts\<close>, \<open>Identity_System\<close>, \<open>Identity_Example\<close>: the
    invariant of the tables and reachability.
  \<^item> \<open>Identity_Properties\<close>, \<open>Identity_Race\<close>: sign-in, revocation, replay, the lockout, and a renewal
    that overlaps a log-out.

  \<^bold>\<open>Worker.\<close>
  \<^item> \<open>Outbox_Relay\<close>, \<open>Relay_Facts\<close>, \<open>Relay_Properties\<close>: the claim transaction, the sends, the alerts;
    at-least-once delivery over crashes and refused sends, and the draining of a backlog.
  \<^item> \<open>Event_Consumer\<close>: the ledger of processed events; with the relay, an event handled once.
  \<^item> \<open>Sweep_Scheduler\<close>, \<open>Scheduler_Facts\<close>: the registry, the worker's environment, and the scheduler
    as a state machine of timers and runs.

  \<^bold>\<open>Modelling.\<close> A command is a function from the store to a result and a store; an exception keeps
  no store, as the transaction rolls back. Instants are milliseconds as unbounded integers,
  JavaScript numbers that count are exact integers, an invalid \<open>Date\<close> is \<open>None\<close>, text is ASCII.
  The database is its documented behaviour: tables are lists of rows in insertion order, CHECKs,
  unique indexes and foreign keys answer by exceptions, row-level security filters by the family,
  \<open>CURRENT_TIMESTAMP\<close> is a clock in the store. Fresh ids and tokens are arguments, new by the
  admissibility of a step. Password digest, token hash, mail delivery, the queue service and the
  zone data are parameters with the documented laws as hypotheses. Overlap of transactions is
  modelled where it matters, by the reads and writes of a command as two steps.

  \<^bold>\<open>Bounds.\<close> The loops of the code end by its own limits, kept in the model: the scan of an
  expansion by \<open>MAX_PERIODS\<close> = 200000, which suffices for windows ending within 545 years of the
  start of the series; the search for the next occurrence by the doubling of its window; pages
  by their size (200 at most); the calendar window by 400 days to either side; the relay by 100
  rows a tick; the lockout by 5 attempts and 15 minutes; sessions by 90 days, links by 24 hours.
  No fuel is added to what the code has.

  \<^bold>\<open>Not modelled.\<close> The HTTP layer (\<open>apps/api/src\<close>: routing, decorators, guards, throttling) and the
  wire contracts, which are declarations for a framework and a validation library; the user
  interface (\<open>apps/mobile\<close>, \<open>packages/ui\<close>), which is rendering; SMTP, argon2 and queue client
  adapters, which are calls into libraries; configuration, migrations as such, deployment, scripts
  and test support.
\<close>

end
